(* ===== verification/Gateway_Prelude.thy ===== *)
theory Gateway_Prelude
  imports Main "HOL-Library.Char_ord" "HOL-Library.List_Lexorder" "HOL-Library.AList"
    "HOL-Library.Multiset"
begin

text \<open>
  What every component shares: the Go standard-library operations the sources use (strings,
  strconv, slices, time), with the lemmas about them, the collections of facts the component
  proofs draw on, the contract locales that several components satisfy, and reachability for
  the components that are state machines.

  Strings are \<^typ>\<open>string\<close>, lists of bytes. Case mapping and white space are those of ASCII
  text; Go's case folding and white space outside ASCII are not modelled. Instants and durations
  are integers counting nanoseconds (an instant from the Unix epoch, in UTC); Go's saturation at
  plus or minus 292 years is not modelled.
\<close>

section \<open>Collections of facts\<close>

named_theorems str_simps \<open>equations of the string operations\<close>
named_theorems canon_simps \<open>facts about canonical values\<close>
named_theorems step_intros \<open>preservation lemmas, one per operation of a state machine\<close>

section \<open>Time\<close>

type_synonym time = int
type_synonym duration = int

abbreviation second :: duration where "second \<equiv> 1000000000"
abbreviation minute :: duration where "minute \<equiv> 60 * second"
abbreviation hour :: duration where "hour \<equiv> 60 * minute"
abbreviation day :: duration where "day \<equiv> 24 * hour"

text \<open>Go's zero \<open>time.Time\<close> is the first instant of year 1.\<close>

definition zero_time :: time where
  "zero_time = -62135596800 * second"

text \<open>\<open>AddDate(0, 0, n)\<close> on an instant in UTC, where every day has 24 hours.\<close>

definition add_days :: "time \<Rightarrow> int \<Rightarrow> time" where
  "add_days t n = t + n * day"

section \<open>Characters\<close>

definition lower_char :: "char \<Rightarrow> char" where
  "lower_char c = (if 65 \<le> (of_char c :: nat) \<and> (of_char c :: nat) \<le> 90
     then char_of ((of_char c :: nat) + 32) else c)"

definition upper_char :: "char \<Rightarrow> char" where
  "upper_char c = (if 97 \<le> (of_char c :: nat) \<and> (of_char c :: nat) \<le> 122
     then char_of ((of_char c :: nat) - 32) else c)"

definition is_space :: "char \<Rightarrow> bool" where
  "is_space c \<longleftrightarrow> (9 \<le> (of_char c :: nat) \<and> (of_char c :: nat) \<le> 13) \<or> (of_char c :: nat) = 32"

abbreviation comma :: char where "comma \<equiv> CHR '',''"

lemma of_char_lower_char:
  "(of_char (lower_char c) :: nat) =
     (if 65 \<le> (of_char c :: nat) \<and> (of_char c :: nat) \<le> 90 then of_char c + 32 else of_char c)"
  by (simp add: lower_char_def)

lemma of_char_upper_char:
  "(of_char (upper_char c) :: nat) =
     (if 97 \<le> (of_char c :: nat) \<and> (of_char c :: nat) \<le> 122 then of_char c - 32 else of_char c)"
  by (auto simp: upper_char_def)

lemma char_eq_iff_nat: "c = d \<longleftrightarrow> (of_char c :: nat) = of_char d"
  by simp

lemmas char_nat_simps =
  char_eq_iff_nat of_char_lower_char of_char_upper_char is_space_def

lemma lower_char_idem [simp]: "lower_char (lower_char c) = lower_char c"
  by (simp only: char_nat_simps) simp

lemma upper_char_idem [simp]: "upper_char (upper_char c) = upper_char c"
  by (simp only: char_nat_simps) auto

lemma upper_lower_char [simp]: "upper_char (lower_char c) = upper_char c"
  by (simp only: char_nat_simps) auto

lemma lower_upper_char [simp]: "lower_char (upper_char c) = lower_char c"
  by (simp only: char_nat_simps) auto

lemma is_space_lower_char [simp]: "is_space (lower_char c) = is_space c"
  by (simp only: char_nat_simps) auto

lemma is_space_upper_char [simp]: "is_space (upper_char c) = is_space c"
  by (simp only: char_nat_simps) auto

lemma lower_char_comma [simp]: "lower_char c = comma \<longleftrightarrow> c = comma"
  by (simp only: char_nat_simps) auto

lemma comma_not_space [simp]: "\<not> is_space comma"
  by (simp add: is_space_def)

section \<open>The strings package\<close>

definition to_lower :: "string \<Rightarrow> string" where
  "to_lower s = map lower_char s"

definition to_upper :: "string \<Rightarrow> string" where
  "to_upper s = map upper_char s"

definition equal_fold :: "string \<Rightarrow> string \<Rightarrow> bool" where
  "equal_fold s t \<longleftrightarrow> to_lower s = to_lower t"

definition trim_space :: "string \<Rightarrow> string" where
  "trim_space s = rev (dropWhile is_space (rev (dropWhile is_space s)))"

definition has_prefix :: "string \<Rightarrow> string \<Rightarrow> bool" where
  "has_prefix s p \<longleftrightarrow> take (length p) s = p"

definition has_suffix :: "string \<Rightarrow> string \<Rightarrow> bool" where
  "has_suffix s p \<longleftrightarrow> has_prefix (rev s) (rev p)"

fun contains_sub :: "string \<Rightarrow> string \<Rightarrow> bool" where
  "contains_sub [] p = (p = [])"
| "contains_sub (x # xs) p = (has_prefix (x # xs) p \<or> contains_sub xs p)"

text \<open>\<open>strings.Split\<close> at a one-byte separator: always at least one part.\<close>

fun split_on :: "char \<Rightarrow> string \<Rightarrow> string list" where
  "split_on c [] = [[]]"
| "split_on c (x # xs) =
     (if x = c then [] # split_on c xs
      else case split_on c xs of [] \<Rightarrow> [[x]] | y # ys \<Rightarrow> (x # y) # ys)"

fun join :: "string \<Rightarrow> string list \<Rightarrow> string" where
  "join sep [] = []"
| "join sep [x] = x"
| "join sep (x # y # ys) = x @ sep @ join sep (y # ys)"

text \<open>\<open>strings.Cut\<close> at a one-byte separator: what is before it, what is after it, and whether
  it was found (else the whole string and the empty one).\<close>

fun cut :: "char \<Rightarrow> string \<Rightarrow> string \<times> string \<times> bool" where
  "cut c [] = ([], [], False)"
| "cut c (x # xs) =
     (if x = c then ([], xs, True)
      else case cut c xs of (a, b, ok) \<Rightarrow> (x # a, b, ok))"

lemma trim_space_Nil [simp]: "trim_space [] = []"
  by (simp add: trim_space_def)

lemma set_dropWhile_subset: "set (dropWhile P s) \<subseteq> set s"
  by (metis set_dropWhileD subsetI)

lemma set_trim_space: "set (trim_space s) \<subseteq> set s"
proof -
  have "set (trim_space s) \<subseteq> set (dropWhile is_space s)"
    unfolding trim_space_def set_rev using set_dropWhile_subset [of is_space "rev (dropWhile is_space s)"] by simp
  then show ?thesis using set_dropWhile_subset [of is_space s] by (rule subset_trans)
qed

lemma hd_trim_space: "trim_space s \<noteq> [] \<Longrightarrow> \<not> is_space (hd (trim_space s))"
proof -
  assume ne: "trim_space s \<noteq> []"
  define u where "u = dropWhile is_space s"
  define v where "v = dropWhile is_space (rev u)"
  have v: "v \<noteq> []" and t: "trim_space s = rev v"
    using ne by (auto simp: trim_space_def u_def v_def)
  obtain w where w: "rev u = w @ v"
    unfolding v_def by (metis takeWhile_dropWhile_id)
  then have "u = rev v @ rev w" by (metis rev_append rev_rev_ident)
  then have "hd u = hd (rev v)" and "u \<noteq> []" using v by auto
  moreover have "u \<noteq> [] \<Longrightarrow> \<not> is_space (hd u)"
    unfolding u_def by (rule hd_dropWhile)
  ultimately show ?thesis using t by simp
qed

lemma last_trim_space: "trim_space s \<noteq> [] \<Longrightarrow> \<not> is_space (last (trim_space s))"
proof -
  assume "trim_space s \<noteq> []"
  then have "dropWhile is_space (rev (dropWhile is_space s)) \<noteq> []" by (simp add: trim_space_def)
  from hd_dropWhile [OF this] show ?thesis by (simp add: trim_space_def last_rev)
qed

lemma trim_space_fixed:
  "s = [] \<or> (\<not> is_space (hd s) \<and> \<not> is_space (last s)) \<Longrightarrow> trim_space s = s"
proof (cases s)
  case (Cons x xs)
  assume "s = [] \<or> (\<not> is_space (hd s) \<and> \<not> is_space (last s))"
  then have h: "dropWhile is_space s = s" and l: "\<not> is_space (last s)" using Cons by auto
  obtain z zs where "rev s = z # zs" using Cons by (cases "rev s") auto
  then have "dropWhile is_space (rev s) = rev s" using l
    by (metis dropWhile.simps(2) hd_rev list.sel(1))
  then show ?thesis by (simp add: trim_space_def h)
qed simp

lemma trim_space_no_space: "(\<And>c. c \<in> set s \<Longrightarrow> \<not> is_space c) \<Longrightarrow> trim_space s = s"
  by (rule trim_space_fixed) (metis hd_in_set last_in_set)

lemma trim_space_idem [simp]: "trim_space (trim_space s) = trim_space s"
  by (rule trim_space_fixed) (metis hd_trim_space last_trim_space)

lemma to_lower_Nil [simp]: "to_lower [] = []" and to_lower_Nil_iff [simp]: "to_lower s = [] \<longleftrightarrow> s = []"
  by (simp_all add: to_lower_def)

lemma to_lower_idem [simp]: "to_lower (to_lower s) = to_lower s"
  by (simp add: to_lower_def)

lemma to_upper_idem [simp]: "to_upper (to_upper s) = to_upper s"
  by (simp add: to_upper_def)

lemma to_upper_lower [simp]: "to_upper (to_lower s) = to_upper s"
  by (simp add: to_upper_def to_lower_def)

lemma to_lower_upper [simp]: "to_lower (to_upper s) = to_lower s"
  by (simp add: to_upper_def to_lower_def)

lemma equal_fold_upper: "equal_fold s t \<longleftrightarrow> to_upper s = to_upper t"
  by (metis equal_fold_def to_lower_upper to_upper_lower)

lemma trim_space_map:
  assumes "\<And>c. is_space (f c) = is_space c"
  shows "trim_space (map f s) = map f (trim_space s)"
proof -
  have "is_space \<circ> f = is_space" using assms by auto
  then show ?thesis by (simp add: trim_space_def dropWhile_map rev_map)
qed

lemma trim_space_lower: "trim_space (to_lower s) = to_lower (trim_space s)"
  by (simp add: to_lower_def trim_space_map)

lemma trim_lower_trim [simp]: "trim_space (to_lower (trim_space s)) = to_lower (trim_space s)"
  by (simp add: trim_space_lower)

lemma set_to_lower_comma: "comma \<in> set (to_lower s) \<longleftrightarrow> comma \<in> set s"
  by (auto simp: to_lower_def image_iff eq_commute [of comma])

lemma to_lower_space: "list_ex is_space (to_lower s) = list_ex is_space s"
  by (simp add: to_lower_def list_ex_iff)

lemma has_prefix_Nil [simp]: "has_prefix s []"
  by (simp add: has_prefix_def)

lemma has_prefix_append [simp]: "has_prefix (p @ s) p"
  by (simp add: has_prefix_def)

lemma has_prefixE: "has_prefix s p \<Longrightarrow> (\<And>t. s = p @ t \<Longrightarrow> P) \<Longrightarrow> P"
  by (metis append_take_drop_id has_prefix_def)

lemma has_prefix_iff: "has_prefix s p \<longleftrightarrow> (\<exists>t. s = p @ t)"
  by (metis has_prefix_append has_prefixE)

lemma contains_sub_iff: "contains_sub s p \<longleftrightarrow> (\<exists>u v. s = u @ p @ v)"
proof (induction s)
  case (Cons x xs)
  show ?case
  proof
    assume "contains_sub (x # xs) p"
    then consider "has_prefix (x # xs) p" | "contains_sub xs p" by auto
    then show "\<exists>u v. x # xs = u @ p @ v"
    proof cases
      case 1
      then show ?thesis by (metis append_Nil has_prefix_iff)
    next
      case 2
      then obtain u v where "xs = u @ p @ v" using Cons by blast
      then have "x # xs = (x # u) @ p @ v" by simp
      then show ?thesis by blast
    qed
  next
    assume "\<exists>u v. x # xs = u @ p @ v"
    then obtain u v where uv: "x # xs = u @ p @ v" by blast
    show "contains_sub (x # xs) p"
    proof (cases u)
      case Nil
      then have "has_prefix (x # xs) p" using uv has_prefix_iff by auto
      then show ?thesis by simp
    next
      case (Cons y ys)
      then have "xs = ys @ p @ v" using uv by simp
      then show ?thesis using Cons.IH by auto
    qed
  qed
qed auto

subsection \<open>Split and join\<close>

lemma split_on_not_Nil [simp]: "split_on c s \<noteq> []"
  by (induction s) (auto split: list.splits)

lemma split_on_no_sep: "c \<notin> set s \<Longrightarrow> split_on c s = [s]"
  by (induction s) auto

lemma split_on_append: "c \<notin> set a \<Longrightarrow> split_on c (a @ c # b) = a # split_on c b"
  by (induction a) (auto split: list.splits)

lemma split_on_parts: "p \<in> set (split_on c s) \<Longrightarrow> c \<notin> set p"
proof (induction s arbitrary: p)
  case (Cons x xs)
  obtain y ys where y: "split_on c xs = y # ys" by (metis neq_Nil_conv split_on_not_Nil)
  show ?case
  proof (cases "x = c")
    case False
    then have "p = x # y \<or> p \<in> set ys" using Cons.prems y by auto
    then show ?thesis using Cons.IH [of y] Cons.IH [of p] y False by auto
  qed (use Cons in auto)
qed auto

lemma set_split_on_subset: "p \<in> set (split_on c s) \<Longrightarrow> set p \<subseteq> set s"
proof (induction s arbitrary: p)
  case (Cons x xs)
  obtain y ys where y: "split_on c xs = y # ys" by (metis neq_Nil_conv split_on_not_Nil)
  have "set y \<subseteq> set xs" using Cons.IH [of y] y by simp
  moreover have "p = [] \<or> p = x # y \<or> p \<in> set (split_on c xs)"
    using Cons.prems y by (auto split: if_splits)
  ultimately show ?case using Cons.IH [of p] by auto
qed auto

lemma join_Cons: "join sep (x # xs) = (if xs = [] then x else x @ sep @ join sep xs)"
  by (cases xs) auto

lemma split_join:
  "xs \<noteq> [] \<Longrightarrow> \<forall>x \<in> set xs. c \<notin> set x \<Longrightarrow> split_on c (join [c] xs) = xs"
  by (induction xs) (auto simp: join_Cons split_on_no_sep split_on_append)

lemma join_split: "join [c] (split_on c s) = s"
proof (induction s)
  case (Cons x xs)
  obtain y ys where y: "split_on c xs = y # ys" by (metis neq_Nil_conv split_on_not_Nil)
  show ?case
  proof (cases ys)
    case Nil
    then show ?thesis using Cons y by (auto simp: join_Cons)
  next
    case (Cons z zs)
    then show ?thesis using Cons.IH y by (auto simp: join_Cons)
  qed
qed auto

lemma join_eq_Nil: "join [c] xs = [] \<longleftrightarrow> xs = [] \<or> xs = [[]]"
  by (induction xs rule: induct_list012) auto

lemma join_inject:
  assumes "join [c] xs = join [c] ys" "xs \<noteq> []" "ys \<noteq> []"
    "\<forall>x \<in> set xs. c \<notin> set x" "\<forall>y \<in> set ys. c \<notin> set y"
  shows "xs = ys"
  using assms by (metis split_join)

lemma set_join: "set (join sep xs) \<subseteq> (\<Union> (set ` set xs)) \<union> set sep"
  by (induction xs rule: induct_list012) auto

lemma cut_found: "c \<notin> set a \<Longrightarrow> cut c (a @ c # b) = (a, b, True)"
  by (induction a) auto

lemma cut_not_found: "c \<notin> set s \<Longrightarrow> cut c s = (s, [], False)"
  by (induction s) auto

lemma cut_spec:
  "cut c s = (a, b, ok) \<Longrightarrow>
     c \<notin> set a \<and> (if ok then s = a @ c # b else s = a \<and> b = [])"
  by (induction s arbitrary: a b ok) (auto split: if_splits prod.splits)

section \<open>Sorting strings\<close>

text \<open>\<open>slices.Sort\<close> and \<open>sort.Strings\<close> order strings by their bytes, which is the
  lexicographic order of \<^typ>\<open>string\<close> here.\<close>

lemma sort_idem [simp]: "sort (sort (xs :: 'a :: linorder list)) = sort xs"
  by (simp add: sorted_sort_id)

lemma sort_eq_Nil [simp]: "sort xs = [] \<longleftrightarrow> xs = ([] :: 'a :: linorder list)"
  by (metis length_0_conv length_sort)

lemma sort_distinct_unique:
  "distinct xs \<Longrightarrow> distinct ys \<Longrightarrow> set xs = set ys \<Longrightarrow> sort xs = sort (ys :: 'a :: linorder list)"
  by (metis properties_for_sort set_eq_iff_mset_eq_distinct sorted_sort mset_sort)

text \<open>Appending what is not there yet, as the \<open>slices.Contains\<close> and \<open>append\<close> loops do.\<close>

definition add_new :: "'a \<Rightarrow> 'a list \<Rightarrow> 'a list" where
  "add_new x xs = (if x \<in> set xs then xs else xs @ [x])"

lemma set_add_new [simp]: "set (add_new x xs) = insert x (set xs)"
  by (auto simp: add_new_def)

lemma distinct_add_new [simp]: "distinct xs \<Longrightarrow> distinct (add_new x xs)"
  by (simp add: add_new_def)

section \<open>The strconv package\<close>

definition is_digit :: "char \<Rightarrow> bool" where
  "is_digit c \<longleftrightarrow> 48 \<le> (of_char c :: nat) \<and> (of_char c :: nat) \<le> 57"

definition digit_char :: "nat \<Rightarrow> char" where
  "digit_char d = char_of (48 + d)"

fun nat_digits :: "nat \<Rightarrow> string" where
  "nat_digits n = (if n < 10 then [digit_char n] else nat_digits (n div 10) @ [digit_char (n mod 10)])"

declare nat_digits.simps [simp del]

text \<open>\<open>strconv.Itoa\<close> and \<open>FormatInt\<close> in base 10.\<close>

definition format_int :: "int \<Rightarrow> string" where
  "format_int i = (if i < 0 then CHR ''-'' # nat_digits (nat (- i)) else nat_digits (nat i))"

definition digits_value :: "string \<Rightarrow> nat" where
  "digits_value s = foldl (\<lambda>n c. 10 * n + (of_char c - 48)) 0 s"

abbreviation max_int64 :: int where "max_int64 \<equiv> 2 ^ 63 - 1"
abbreviation min_int64 :: int where "min_int64 \<equiv> - (2 ^ 63)"

definition is_int64 :: "int \<Rightarrow> bool" where
  "is_int64 i \<longleftrightarrow> min_int64 \<le> i \<and> i \<le> max_int64"

text \<open>
  \<open>strconv.ParseInt(s, 10, 64)\<close>: the value and whether there was no error. A syntax error
  gives 0; a value out of range gives the nearest one in range, with an error.
\<close>

definition parse_int :: "string \<Rightarrow> int \<times> bool" where
  "parse_int s =
     (let neg = (s \<noteq> [] \<and> hd s = CHR ''-'');
          ds = (if s \<noteq> [] \<and> (hd s = CHR ''-'' \<or> hd s = CHR ''+'') then tl s else s)
      in if ds = [] \<or> \<not> list_all is_digit ds then (0, False)
         else let v = (if neg then - int (digits_value ds) else int (digits_value ds))
              in if v < min_int64 then (min_int64, False)
                 else if max_int64 < v then (max_int64, False)
                 else (v, True))"

lemma of_char_digit_char: "d < 10 \<Longrightarrow> (of_char (digit_char d) :: nat) = 48 + d"
  by (simp add: digit_char_def)

lemma is_digit_digit_char [simp]: "d < 10 \<Longrightarrow> is_digit (digit_char d)"
  by (simp add: is_digit_def of_char_digit_char)

lemma nat_digits_not_Nil [simp]: "nat_digits n \<noteq> []"
  by (subst nat_digits.simps) simp

lemma nat_digits_all_digit: "list_all is_digit (nat_digits n)"
proof (induction n rule: nat_digits.induct)
  case (1 n)
  then show ?case by (cases "n < 10") (auto simp: nat_digits.simps [of n])
qed

lemma digits_value_snoc: "digits_value (s @ [c]) = 10 * digits_value s + (of_char c - 48)"
  by (simp add: digits_value_def)

lemma digits_value_nat_digits: "digits_value (nat_digits n) = n"
proof (induction n rule: nat_digits.induct)
  case (1 n)
  show ?case
  proof (cases "n < 10")
    case True
    then show ?thesis by (simp add: nat_digits.simps [of n] digits_value_def of_char_digit_char)
  next
    case False
    then have "digits_value (nat_digits (n div 10)) = n div 10" by (rule 1)
    then show ?thesis using False
      by (simp add: nat_digits.simps [of n] digits_value_snoc of_char_digit_char)
  qed
qed

lemma hd_nat_digits_digit: "is_digit (hd (nat_digits n))"
  using nat_digits_all_digit [of n] by (cases "nat_digits n") auto

lemma not_digit_minus [simp]: "\<not> is_digit (CHR ''-'')" and not_digit_plus [simp]: "\<not> is_digit (CHR ''+'')"
  and not_digit_comma [simp]: "\<not> is_digit comma"
  by (simp_all add: is_digit_def)

lemma parse_format_int: "is_int64 i \<Longrightarrow> parse_int (format_int i) = (i, True)"
proof -
  assume i: "is_int64 i"
  have h: "hd (nat_digits n) \<noteq> CHR ''-''" "hd (nat_digits n) \<noteq> CHR ''+''" for n
    using hd_nat_digits_digit [of n] by (metis not_digit_minus, metis hd_nat_digits_digit not_digit_plus)
  show ?thesis
  proof (cases "i < 0")
    case True
    then show ?thesis using i
      by (simp add: parse_int_def format_int_def nat_digits_all_digit digits_value_nat_digits is_int64_def)
  next
    case False
    then show ?thesis using i h
      by (simp add: parse_int_def format_int_def nat_digits_all_digit digits_value_nat_digits is_int64_def)
  qed
qed

lemma parse_int_int64: "is_int64 (fst (parse_int s))"
  by (simp add: parse_int_def is_int64_def Let_def)

lemma format_int_not_Nil [simp]: "format_int i \<noteq> []"
  by (simp add: format_int_def)

lemma nat_digits_inject: "nat_digits m = nat_digits n \<Longrightarrow> m = n"
  by (metis digits_value_nat_digits)

lemma format_int_inject: "format_int i = format_int j \<Longrightarrow> i = j"
proof -
  assume eq: "format_int i = format_int j"
  have h: "nat_digits n \<noteq> CHR ''-'' # s" for n s
    by (metis hd_nat_digits_digit list.sel(1) not_digit_minus)
  consider "i < 0" "j < 0" | "i < 0" "0 \<le> j" | "0 \<le> i" "j < 0" | "0 \<le> i" "0 \<le> j" by linarith
  then show ?thesis
  proof cases
    case 1
    then have "nat (- i) = nat (- j)" using eq by (simp add: format_int_def nat_digits_inject)
    then show ?thesis using 1 by simp
  next
    case 4
    then have "nat i = nat j" using eq by (simp add: format_int_def nat_digits_inject)
    then show ?thesis using 4 by simp
  qed (use eq h h [symmetric] in \<open>simp_all add: format_int_def\<close>)
qed

section \<open>Dates\<close>

text \<open>\<open>time.Parse("2006-01-02", s)\<close>: exactly ten characters, a real date, at midnight UTC.\<close>

definition is_leap :: "int \<Rightarrow> bool" where
  "is_leap y \<longleftrightarrow> 4 dvd y \<and> (\<not> 100 dvd y \<or> 400 dvd y)"

definition days_in_month :: "int \<Rightarrow> int \<Rightarrow> int" where
  "days_in_month y m =
     (if m = 2 then (if is_leap y then 29 else 28)
      else if m = 4 \<or> m = 6 \<or> m = 9 \<or> m = 11 then 30 else 31)"

text \<open>Days from 1970-01-01 to the given proleptic Gregorian date.\<close>

definition days_from_civil :: "int \<Rightarrow> int \<Rightarrow> int \<Rightarrow> int" where
  "days_from_civil y m d =
     (let y' = (if m \<le> 2 then y - 1 else y);
          era = y' div 400;
          yoe = y' - era * 400;
          doy = (153 * (if m > 2 then m - 3 else m + 9) + 2) div 5 + d - 1;
          doe = yoe * 365 + yoe div 4 - yoe div 100 + doy
      in era * 146097 + doe - 719468)"

definition parse_date :: "string \<Rightarrow> time option" where
  "parse_date s =
     (if length s = 10 \<and> s ! 4 = CHR ''-'' \<and> s ! 7 = CHR ''-'' \<and>
         list_all is_digit (take 4 s) \<and> list_all is_digit (take 2 (drop 5 s)) \<and>
         list_all is_digit (drop 8 s)
      then let y = int (digits_value (take 4 s)); m = int (digits_value (take 2 (drop 5 s)));
               d = int (digits_value (drop 8 s))
           in if 1 \<le> m \<and> m \<le> 12 \<and> 1 \<le> d \<and> d \<le> days_in_month y m
              then Some (days_from_civil y m d * day) else None
      else None)"

section \<open>JSON\<close>

text \<open>A parsed document; a number keeps its text.\<close>

datatype json = JNull | JBool bool | JNumber string | JString string | JArray "json list" | JObject "(string \<times> json) list"

section \<open>Contracts\<close>

text \<open>
  A canonicalizer turns an input into its canonical form or refuses it, and leaves a canonical
  form alone. Everything that is stored goes through one, so a value read back can be
  canonicalized again without changing.
\<close>

locale canonicalizer =
  fixes canon :: "'a \<Rightarrow> 'e + 'a"
  assumes canon_idem: "canon x = Inr y \<Longrightarrow> canon y = Inr y"
begin

definition canonical :: "'a \<Rightarrow> bool" where
  "canonical x \<longleftrightarrow> canon x = Inr x"

lemma canonicalI: "canon x = Inr y \<Longrightarrow> canonical y"
  by (simp add: canonical_def canon_idem)

lemma canonical_iff_image: "canonical y \<longleftrightarrow> (\<exists>x. canon x = Inr y)"
  by (auto simp: canonical_def dest: canon_idem)

lemma canon_twice: "(case canon x of Inl e \<Rightarrow> Inl e | Inr y \<Rightarrow> canon y) = canon x"
  by (auto split: sum.splits dest: canon_idem)

end

text \<open>
  A single-use claim: one conditional write that either takes the token or leaves the state as
  it is. Once taken, a token stays taken by any number of later claims, whoever makes them.
\<close>

fun claim_results :: "('s \<Rightarrow> 'k \<Rightarrow> 'c \<Rightarrow> bool \<times> 's) \<Rightarrow> 's \<Rightarrow> ('k \<times> 'c) list \<Rightarrow> bool list" where
  "claim_results claim s [] = []"
| "claim_results claim s ((k, c) # kcs) = fst (claim s k c) # claim_results claim (snd (claim s k c)) kcs"

definition wins :: "('s \<Rightarrow> 'k \<Rightarrow> 'c \<Rightarrow> bool \<times> 's) \<Rightarrow> 's \<Rightarrow> 'k \<Rightarrow> ('k \<times> 'c) list \<Rightarrow> nat" where
  "wins claim s k kcs = length (filter (\<lambda>(kc, b). fst kc = k \<and> b) (zip kcs (claim_results claim s kcs)))"

lemma wins_Nil [simp]: "wins claim s k [] = 0"
  by (simp add: wins_def)

lemma wins_Cons:
  "wins claim s k ((j, c) # kcs) =
     (if j = k \<and> fst (claim s j c) then 1 else 0) + wins claim (snd (claim s j c)) k kcs"
  by (auto simp: wins_def)

locale single_use =
  fixes claim :: "'s \<Rightarrow> 'k \<Rightarrow> 'c \<Rightarrow> bool \<times> 's"
    and taken :: "'s \<Rightarrow> 'k \<Rightarrow> bool"
    and inv :: "'s \<Rightarrow> bool"
  assumes claim_takes: "inv s \<Longrightarrow> claim s k c = (True, s') \<Longrightarrow> taken s' k"
    and taken_refuses: "inv s \<Longrightarrow> taken s k \<Longrightarrow> \<not> fst (claim s k c)"
    and taken_stays: "inv s \<Longrightarrow> taken s k \<Longrightarrow> taken (snd (claim s j c)) k"
    and claim_inv: "inv s \<Longrightarrow> inv (snd (claim s j c))"
begin

lemma taken_wins: "inv s \<Longrightarrow> taken s k \<Longrightarrow> wins claim s k kcs = 0"
proof (induction kcs arbitrary: s)
  case (Cons kc kcs)
  obtain j c where kc: "kc = (j, c)" by force
  have "wins claim (snd (claim s j c)) k kcs = 0"
    by (rule Cons.IH) (rule claim_inv [OF Cons.prems(1)], rule taken_stays [OF Cons.prems])
  moreover have "\<not> (j = k \<and> fst (claim s j c))" using taken_refuses [OF Cons.prems, of c] by blast
  ultimately show ?case unfolding kc wins_Cons by (simp only: if_False)
qed simp

theorem at_most_one_win: "inv s \<Longrightarrow> wins claim s k kcs \<le> 1"
proof (induction kcs arbitrary: s)
  case (Cons kc kcs)
  obtain j c where kc: "kc = (j, c)" by force
  have inv: "inv (snd (claim s j c))" using claim_inv [OF Cons.prems] .
  show ?case
  proof (cases "j = k \<and> fst (claim s j c)")
    case True
    then have "claim s k c = (True, snd (claim s k c))" by (auto simp: prod_eq_iff)
    then have "taken (snd (claim s k c)) k" by (rule claim_takes [OF Cons.prems])
    then have "wins claim (snd (claim s j c)) k kcs = 0" using True taken_wins [OF inv] by simp
    then show ?thesis unfolding kc wins_Cons by simp
  next
    case False
    then have "wins claim s k (kc # kcs) = wins claim (snd (claim s j c)) k kcs"
      unfolding kc wins_Cons by (simp only: if_False add_0)
    then show ?thesis using Cons.IH [OF inv] by simp
  qed
qed simp

end

section \<open>State machines\<close>

inductive reachable :: "('s \<Rightarrow> bool) \<Rightarrow> ('s \<Rightarrow> 's \<Rightarrow> bool) \<Rightarrow> 's \<Rightarrow> bool"
  for init :: "'s \<Rightarrow> bool" and step :: "'s \<Rightarrow> 's \<Rightarrow> bool" where
  reach_init: "init s \<Longrightarrow> reachable init step s"
| reach_step: "reachable init step s \<Longrightarrow> step s t \<Longrightarrow> reachable init step t"

locale invariant_system =
  fixes init :: "'s \<Rightarrow> bool" and step :: "'s \<Rightarrow> 's \<Rightarrow> bool" and inv :: "'s \<Rightarrow> bool"
  assumes inv_init: "init s \<Longrightarrow> inv s"
    and inv_step: "inv s \<Longrightarrow> step s t \<Longrightarrow> inv t"
begin

lemma reachable_inv: "reachable init step s \<Longrightarrow> inv s"
  by (induction rule: reachable.induct) (auto intro: inv_init inv_step)

end

end
