(* ===== verification/Entitlements.thy ===== *)
theory Entitlements
  imports Gateway_Prelude
begin

text \<open>
  \<open>src/apiaccess/entitlements.go\<close>: the entitlement row, its status and source, when it grants
  access, and the canonical form of a store scope, a list of modes and a whole row. The
  statements that read and write the table are in the theory of the store.
\<close>

section \<open>Errors of the access package\<close>

text \<open>One constructor per error value the package returns, and the constraint violations and
  driver failures a statement can end in.\<close>

datatype access_error =
    ErrNotFound
  | ErrStripeEntitlement
  | ErrInviteInvalid
  | ErrNonceUsed
  | ErrTrialTooSoon
  | DevAccessNotGranted
  | PresetNotAlone string
  | StoreHasSpace string
  | ScopeEmpty
  | UnknownMode string
  | NoModes
  | HistoryNotAlone
  | HistoryTakesNoScope
  | LookbackTooSmall
  | LookbackTooLarge
  | LookbackNotHistory
  | ExternalRefRequired
  | BadAccountStatus
  | InvalidKeyKind string
  | UniqueViolation
  | ForeignKeyViolation
  | CheckViolation
  | NotNullViolation
  | DriverError string

section \<open>The row\<close>

definition ScopeAll :: string where "ScopeAll = ''ALL_ACCESS''"
definition ScopeBase :: string where "ScopeBase = ''BASE_ACCESS''"
definition ModeHistory :: string where "ModeHistory = ''history''"
definition ModeNewspaper :: string where "ModeNewspaper = ''newspaper''"
definition MaxLookbackDays :: int where "MaxLookbackDays = 3650"

definition ValidModes :: "string list" where
  "ValidModes = [''retail'', ''buylist'', ''sealed'', ModeNewspaper, ModeHistory]"

text \<open>Go's typed strings: the declared constants, and any other string.\<close>

datatype EntitlementStatus = EntitlementActive | EntitlementEnded | EntitlementOther string
datatype Source = SourceStripe | SourceManual | SourceTrial | SourceOther string

record Entitlement =
  e_id :: int
  e_account_id :: int
  e_source :: Source
  e_games :: "string list"
  e_store_scope :: string
  e_modes :: "string list"
  e_addons :: "string list"
  e_lookback_days :: int
  e_status :: EntitlementStatus
  e_valid_from :: time
  e_valid_until :: "time option"
  e_external_ref :: string
  e_note :: string
  e_created_at :: time

definition empty_entitlement :: Entitlement where
  "empty_entitlement =
     \<lparr>e_id = 0, e_account_id = 0, e_source = SourceOther [], e_games = [], e_store_scope = [],
      e_modes = [], e_addons = [], e_lookback_days = 0, e_status = EntitlementOther [],
      e_valid_from = zero_time, e_valid_until = None, e_external_ref = [], e_note = [],
      e_created_at = zero_time\<rparr>"

definition ActiveAt :: "Entitlement \<Rightarrow> time \<Rightarrow> bool" where
  "ActiveAt e now \<longleftrightarrow>
     (if e_status e \<noteq> EntitlementActive \<or> now < e_valid_from e then False
      else case e_valid_until e of None \<Rightarrow> True | Some u \<Rightarrow> now < u)"

definition IsHistory :: "Entitlement \<Rightarrow> bool" where
  "IsHistory e \<longleftrightarrow> ModeHistory \<in> set (e_modes e)"

definition IsActiveStripePlan :: "Entitlement \<Rightarrow> bool" where
  "IsActiveStripePlan e \<longleftrightarrow> e_source e = SourceStripe \<and> e_status e = EntitlementActive"

fun HasActiveStripePlan :: "Entitlement list \<Rightarrow> bool" where
  "HasActiveStripePlan [] = False"
| "HasActiveStripePlan (e # es) = (if IsActiveStripePlan e then True else HasActiveStripePlan es)"

section \<open>Store scopes\<close>

definition presetScopeNames :: "string list" where
  "presetScopeNames = [ScopeAll, ScopeBase, ''DEV_ACCESS'']"

text \<open>The loop over the parts of a comma list, with the slice built so far.\<close>

fun scope_parts :: "string list \<Rightarrow> string list \<Rightarrow> access_error + string list" where
  "scope_parts [] out = Inr out"
| "scope_parts (part # parts) out =
     (let s = trim_space part in
      if s = [] then scope_parts parts out
      else if list_ex (\<lambda>p. equal_fold p s) presetScopeNames then Inl (PresetNotAlone s)
      else if list_ex is_space s then Inl (StoreHasSpace s)
      else scope_parts parts (add_new s out))"

definition canonicalStoreScope :: "string \<Rightarrow> access_error + string" where
  "canonicalStoreScope scope0 =
     (let scope = trim_space scope0 in
      if to_upper scope = ScopeAll \<or> to_upper scope = ScopeBase then Inr (to_upper scope)
      else if to_upper scope = ''DEV_ACCESS'' then Inl DevAccessNotGranted
      else case scope_parts (split_on comma scope) [] of
          Inl e \<Rightarrow> Inl e
        | Inr out \<Rightarrow> if out = [] then Inl ScopeEmpty else Inr (join '','' (sort out)))"

definition ValidateStoreScope :: "string \<Rightarrow> access_error + string" where
  "ValidateStoreScope scope = canonicalStoreScope scope"

section \<open>Modes\<close>

definition mode_norm :: "string \<Rightarrow> string" where
  "mode_norm m = to_lower (trim_space m)"

definition collect_mode :: "string list \<Rightarrow> string list \<Rightarrow> string \<Rightarrow> string list" where
  "collect_mode modes out valid =
     foldl (\<lambda>out m. if mode_norm m = valid \<and> valid \<notin> set out then out @ [valid] else out) out modes"

definition ValidateModes :: "string list \<Rightarrow> access_error + string list" where
  "ValidateModes modes =
     (let out = foldl (collect_mode modes) [] ValidModes in
      case find (\<lambda>m. mode_norm m \<notin> set ValidModes) modes of
        Some m \<Rightarrow> Inl (UnknownMode m)
      | None \<Rightarrow> if out = [] then Inl NoModes else Inr out)"

section \<open>Rows\<close>

definition CanonicalEntitlement :: "Entitlement \<Rightarrow> access_error + Entitlement" where
  "CanonicalEntitlement e0 =
     (case ValidateModes (e_modes e0) of
        Inl err \<Rightarrow> Inl err
      | Inr modes \<Rightarrow>
          let e = e0\<lparr>e_modes := modes\<rparr> in
          if IsHistory e then
            if length modes \<noteq> 1 then Inl HistoryNotAlone
            else if trim_space (e_store_scope e) \<noteq> [] then Inl HistoryTakesNoScope
            else if e_lookback_days e < 1 then Inl LookbackTooSmall
            else if e_lookback_days e > MaxLookbackDays then Inl LookbackTooLarge
            else Inr (e\<lparr>e_store_scope := []\<rparr>)
          else if e_lookback_days e \<noteq> 0 then Inl LookbackNotHistory
          else case canonicalStoreScope (e_store_scope e) of
              Inl err \<Rightarrow> Inl err
            | Inr scope \<Rightarrow> Inr (e\<lparr>e_store_scope := scope\<rparr>))"

text \<open>
  \<open>prepareEntitlement\<close> at the instant \<open>now\<close>: the row with its defaults, and its two nullable
  columns. A nil and an empty list of add-ons are the same list here.
\<close>

definition prepareEntitlement ::
  "time \<Rightarrow> Entitlement \<Rightarrow> access_error + Entitlement \<times> time option \<times> string option" where
  "prepareEntitlement now e0 =
     (case CanonicalEntitlement e0 of
        Inl err \<Rightarrow> Inl err
      | Inr e1 \<Rightarrow>
          let e2 = (if e_status e1 = EntitlementOther [] then e1\<lparr>e_status := EntitlementActive\<rparr> else e1);
              e3 = (if e_valid_from e2 = zero_time then e2\<lparr>e_valid_from := now\<rparr> else e2)
          in Inr (e3, e_valid_until e3,
                  if e_external_ref e3 \<noteq> [] then Some (e_external_ref e3) else None))"

text \<open>The checks of the table that a prepared row meets: \<open>lookbackColumn\<close> of the migrations.\<close>

definition lookback_check :: "Entitlement \<Rightarrow> bool" where
  "lookback_check e \<longleftrightarrow>
     (e_modes e = [''history''] \<and> 1 \<le> e_lookback_days e \<and> e_lookback_days e \<le> 3650) \<or>
     (''history'' \<notin> set (e_modes e) \<and> e_lookback_days e = 0)"

section \<open>Lemmas: store scopes\<close>

text \<open>A store token the list form may hold.\<close>

definition scope_token :: "string \<Rightarrow> bool" where
  "scope_token t \<longleftrightarrow> t \<noteq> [] \<and> comma \<notin> set t \<and> \<not> list_ex is_space t \<and>
     \<not> list_ex (\<lambda>p. equal_fold p t) presetScopeNames"

definition canonical_scope :: "string \<Rightarrow> bool" where
  "canonical_scope c \<longleftrightarrow> c = ScopeAll \<or> c = ScopeBase \<or>
     (let ts = split_on comma c in sorted ts \<and> distinct ts \<and> list_all scope_token ts)"

lemma scope_token_trim: "scope_token t \<Longrightarrow> trim_space t = t"
  by (rule trim_space_no_space) (auto simp: scope_token_def list_ex_iff)

lemma preset_upper [simp]:
  "to_upper ScopeAll = ScopeAll" "to_upper ScopeBase = ScopeBase"
  "trim_space ScopeAll = ScopeAll" "trim_space ScopeBase = ScopeBase"
  by (code_simp)+

lemma preset_token:
  "scope_token t \<Longrightarrow> to_upper t \<noteq> ScopeAll \<and> to_upper t \<noteq> ScopeBase \<and> to_upper t \<noteq> ''DEV_ACCESS''"
proof -
  assume "scope_token t"
  then have "\<not> equal_fold ScopeAll t \<and> \<not> equal_fold ScopeBase t \<and> \<not> equal_fold ''DEV_ACCESS'' t"
    unfolding scope_token_def presetScopeNames_def by simp
  moreover have "to_upper ''DEV_ACCESS'' = ''DEV_ACCESS''" by code_simp
  ultimately show ?thesis unfolding equal_fold_upper preset_upper by metis
qed

lemma scope_parts_Inr:
  "scope_parts parts out = Inr res \<Longrightarrow> \<forall>p \<in> set parts. comma \<notin> set p \<Longrightarrow>
     list_all scope_token out \<Longrightarrow> distinct out \<Longrightarrow>
     list_all scope_token res \<and> distinct res \<and> set res = set out \<union> (trim_space ` set parts - {[]})"
proof (induction parts arbitrary: out)
  case (Cons part parts)
  show ?case
  proof (cases "trim_space part = []")
    case True
    then show ?thesis using Cons by auto
  next
    case False
    have "comma \<notin> set (trim_space part)" using Cons.prems(2) set_trim_space by fastforce
    then have tok: "scope_token (trim_space part)"
      and rest: "scope_parts parts (add_new (trim_space part) out) = Inr res"
      using Cons.prems(1) False by (auto simp: scope_token_def Let_def split: if_splits)
    have "list_all scope_token (add_new (trim_space part) out)" "distinct (add_new (trim_space part) out)"
      using Cons.prems(3,4) tok by (auto simp: list_all_iff)
    from Cons.IH [OF rest _ this] Cons.prems(2) show ?thesis using False by auto
  qed
qed auto

lemma scope_parts_tokens:
  "list_all scope_token ts \<Longrightarrow> distinct (out @ ts) \<Longrightarrow> scope_parts ts out = Inr (out @ ts)"
proof (induction ts arbitrary: out)
  case (Cons t ts)
  then have tok: "scope_token t" by simp
  then have "t \<noteq> []" "\<not> list_ex is_space t" "\<not> list_ex (\<lambda>p. equal_fold p t) presetScopeNames"
    by (auto simp: scope_token_def)
  moreover have "add_new t out = out @ [t]" using Cons.prems by (auto simp: add_new_def)
  ultimately show ?case using Cons scope_token_trim [OF tok] by (simp add: Let_def)
qed simp

lemma comma_not_preset: "comma \<notin> set ScopeAll" "comma \<notin> set ScopeBase" "comma \<notin> set ''DEV_ACCESS''"
  by code_simp+

lemma upper_char_comma_in: "comma \<in> set s \<Longrightarrow> comma \<in> set (to_upper s)"
proof -
  have "upper_char comma = comma" by code_simp
  then show "comma \<in> set s \<Longrightarrow> comma \<in> set (to_upper s)" by (force simp: to_upper_def)
qed

lemma no_comma_or_two: "split_on comma c = [c] \<or> comma \<in> set c"
  using split_on_no_sep by blast

lemma canonical_scope_fixed: "canonical_scope c \<Longrightarrow> canonicalStoreScope c = Inr c"
proof -
  assume can: "canonical_scope c"
  consider "c = ScopeAll \<or> c = ScopeBase"
    | ts where "ts = split_on comma c" "sorted ts" "distinct ts" "list_all scope_token ts"
    using can by (auto simp: canonical_scope_def Let_def)
  then show ?thesis
  proof cases
    case 1
    then show ?thesis by (auto simp: canonicalStoreScope_def)
  next
    case 2
    have c: "c = join [comma] ts" using 2(1) by (simp add: join_split)
    have nosp: "\<not> is_space x" if "x \<in> set c" for x
    proof -
      have "x \<in> \<Union> (set ` set ts) \<or> x = comma" using set_join [of "[comma]" ts] that c by auto
      then show ?thesis using 2(4) by (auto simp: list_all_iff scope_token_def list_ex_iff)
    qed
    then have trim: "trim_space c = c" by (simp add: trim_space_no_space)
    have np: "to_upper c \<noteq> ScopeAll \<and> to_upper c \<noteq> ScopeBase \<and> to_upper c \<noteq> ''DEV_ACCESS''"
    proof (cases "comma \<in> set c")
      case True
      then show ?thesis using comma_not_preset upper_char_comma_in by metis
    next
      case False
      then have "ts = [c]" using 2(1) split_on_no_sep by simp
      then show ?thesis using 2(4) preset_token by simp
    qed
    have "scope_parts ts [] = Inr ts" using scope_parts_tokens [of ts "[]"] 2 by simp
    moreover have "ts \<noteq> []" using 2(1) by simp
    moreover have "join [comma] (sort ts) = c" using 2(2) c by (simp add: sorted_sort_id)
    ultimately show ?thesis using np
      unfolding canonicalStoreScope_def trim Let_def 2(1) [symmetric] by simp
  qed
qed

lemma canonicalStoreScope_cases:
  assumes "canonicalStoreScope s = Inr c"
  obtains (preset) "c = ScopeAll \<or> c = ScopeBase"
  | (tokens) out where "c = join [comma] (sort out)" "out \<noteq> []" "list_all scope_token out" "distinct out"
      "set out = trim_space ` set (split_on comma (trim_space s)) - {[]}"
proof (cases "to_upper (trim_space s) = ScopeAll \<or> to_upper (trim_space s) = ScopeBase")
  case True
  then show ?thesis using assms preset by (auto simp: canonicalStoreScope_def)
next
  case False
  then obtain out where out: "scope_parts (split_on comma (trim_space s)) [] = Inr out"
      "out \<noteq> []" "c = join [comma] (sort out)"
    using assms by (auto simp: canonicalStoreScope_def Let_def split: if_splits sum.splits)
  have "\<forall>p \<in> set (split_on comma (trim_space s)). comma \<notin> set p" using split_on_parts by blast
  from scope_parts_Inr [OF out(1) this] out show ?thesis by (intro tokens) auto
qed

lemma canonicalStoreScope_canonical: "canonicalStoreScope s = Inr c \<Longrightarrow> canonical_scope c"
proof (erule canonicalStoreScope_cases)
  fix out
  assume out: "c = join [comma] (sort out)" "out \<noteq> []" "list_all scope_token out" "distinct out"
  have "split_on comma c = sort out"
    unfolding out(1) using out(2-3) by (intro split_join) (simp_all add: list_all_iff scope_token_def)
  then show ?thesis using out by (simp add: canonical_scope_def list_all_iff)
qed (auto simp: canonical_scope_def)

interpretation scope_canon: canonicalizer canonicalStoreScope
  by unfold_locales (simp add: canonical_scope_fixed canonicalStoreScope_canonical)

lemma canonical_scope_not_Nil: "canonical_scope c \<Longrightarrow> c \<noteq> []"
  by (auto simp: canonical_scope_def ScopeAll_def ScopeBase_def scope_token_def)

lemma canonical_scope_no_dev:
  "canonical_scope c \<Longrightarrow> t \<in> set (split_on comma c) \<Longrightarrow> \<not> equal_fold t ''DEV_ACCESS''"
proof -
  assume "canonical_scope c" and t: "t \<in> set (split_on comma c)"
  then consider "c = ScopeAll" | "c = ScopeBase" | "list_all scope_token (split_on comma c)"
    by (auto simp: canonical_scope_def Let_def)
  then show ?thesis
  proof cases
    case 1
    have "list_all (\<lambda>t. \<not> equal_fold t ''DEV_ACCESS'') (split_on comma ScopeAll)" by code_simp
    then show ?thesis using 1 t by (simp add: list_all_iff)
  next
    case 2
    have "list_all (\<lambda>t. \<not> equal_fold t ''DEV_ACCESS'') (split_on comma ScopeBase)" by code_simp
    then show ?thesis using 2 t by (simp add: list_all_iff)
  next
    case 3
    then have "scope_token t" using t by (simp add: list_all_iff)
    then have "\<not> equal_fold ''DEV_ACCESS'' t" unfolding scope_token_def presetScopeNames_def by simp
    then show ?thesis unfolding equal_fold_def by metis
  qed
qed

section \<open>Lemmas: modes\<close>

lemma collect_mode_eq:
  "collect_mode modes out v = (if v \<in> mode_norm ` set modes then add_new v out else out)"
proof (induction modes arbitrary: out)
  case (Cons m modes)
  then show ?case by (auto simp: collect_mode_def add_new_def image_iff)
qed (simp add: collect_mode_def)

lemma collect_modes_eq:
  "distinct (out @ vs) \<Longrightarrow>
     foldl (collect_mode modes) out vs = out @ filter (\<lambda>v. v \<in> mode_norm ` set modes) vs"
  by (induction vs arbitrary: out) (auto simp: collect_mode_eq add_new_def)

lemma distinct_ValidModes: "distinct ValidModes"
  by code_simp

lemma find_None: "find P xs = None \<longleftrightarrow> (\<forall>x \<in> set xs. \<not> P x)"
  by (auto simp: find_None_iff)

lemma ValidateModes_eq:
  "ValidateModes modes = Inr out \<longleftrightarrow>
     out = filter (\<lambda>v. v \<in> mode_norm ` set modes) ValidModes \<and> modes \<noteq> [] \<and>
     mode_norm ` set modes \<subseteq> set ValidModes"
proof -
  have f: "foldl (collect_mode modes) [] ValidModes = filter (\<lambda>v. v \<in> mode_norm ` set modes) ValidModes"
    using collect_modes_eq [of "[]" ValidModes modes] distinct_ValidModes by simp
  have ne: "filter (\<lambda>v. v \<in> mode_norm ` set modes) ValidModes = [] \<longleftrightarrow> modes = []"
    if "mode_norm ` set modes \<subseteq> set ValidModes"
    using that by (cases modes) (auto simp: filter_empty_conv)
  show ?thesis
  proof (cases "find (\<lambda>m. mode_norm m \<notin> set ValidModes) modes")
    case None
    then have "mode_norm ` set modes \<subseteq> set ValidModes" by (auto simp: find_None)
    then show ?thesis using ne None unfolding ValidateModes_def f Let_def by auto
  next
    case (Some m)
    then have "\<not> mode_norm ` set modes \<subseteq> set ValidModes"
      using find_None [of _ modes] by (metis (mono_tags, lifting) image_subset_iff option.distinct(1))
    then show ?thesis using Some unfolding ValidateModes_def Let_def by auto
  qed
qed

lemma mode_norm_valid: "v \<in> set ValidModes \<Longrightarrow> mode_norm v = v"
proof -
  have "list_all (\<lambda>v. mode_norm v = v) ValidModes" by code_simp
  then show "v \<in> set ValidModes \<Longrightarrow> mode_norm v = v" by (simp add: list_all_iff)
qed

lemma ValidateModes_idem: "ValidateModes modes = Inr out \<Longrightarrow> ValidateModes out = Inr out"
proof -
  assume "ValidateModes modes = Inr out"
  then have out: "out = filter (\<lambda>v. v \<in> mode_norm ` set modes) ValidModes" "modes \<noteq> []"
    and sub: "mode_norm ` set modes \<subseteq> set ValidModes"
    unfolding ValidateModes_eq by auto
  have "mode_norm ` set out = set out" using out mode_norm_valid by force
  moreover have "out \<noteq> []" using out sub by (cases modes) (auto simp: filter_empty_conv)
  moreover have "set out \<subseteq> set ValidModes" using out by auto
  moreover have "out = filter (\<lambda>v. v \<in> set out) ValidModes" unfolding out(1) by (rule filter_cong) auto
  ultimately show ?thesis unfolding ValidateModes_eq by simp
qed

interpretation modes_canon: canonicalizer ValidateModes
  by unfold_locales (rule ValidateModes_idem)

section \<open>Lemmas: rows\<close>

lemma filter_history_alone:
  "length (filter P ValidModes) = 1 \<Longrightarrow> ModeHistory \<in> set (filter P ValidModes) \<Longrightarrow>
     filter P ValidModes = [''history'']"
  by (cases "filter P ValidModes") (auto simp: ModeHistory_def)

lemma CanonicalEntitlement_cases:
  assumes "CanonicalEntitlement e = Inr e'"
  obtains (history) "ValidateModes (e_modes e) = Inr [''history'']" "trim_space (e_store_scope e) = []"
      "1 \<le> e_lookback_days e" "e_lookback_days e \<le> 3650"
      "e' = e\<lparr>e_modes := [''history''], e_store_scope := []\<rparr>"
  | (prices) modes scope where "ValidateModes (e_modes e) = Inr modes" "''history'' \<notin> set modes"
      "e_lookback_days e = 0" "canonicalStoreScope (e_store_scope e) = Inr scope"
      "e' = e\<lparr>e_modes := modes, e_store_scope := scope\<rparr>"
proof -
  obtain modes where m: "ValidateModes (e_modes e) = Inr modes"
    using assms by (auto simp: CanonicalEntitlement_def split: sum.splits)
  show ?thesis
  proof (cases "''history'' \<in> set modes")
    case True
    then have h: "length modes = 1" "trim_space (e_store_scope e) = []"
      "1 \<le> e_lookback_days e" "e_lookback_days e \<le> 3650" "e' = e\<lparr>e_modes := modes, e_store_scope := []\<rparr>"
      using assms m by (auto simp: CanonicalEntitlement_def IsHistory_def ModeHistory_def
          MaxLookbackDays_def Let_def split: if_splits)
    have "modes = [''history'']"
      using h(1) True m filter_history_alone unfolding ValidateModes_eq ModeHistory_def by metis
    then show ?thesis using h m history by simp
  next
    case False
    then show ?thesis using assms m prices
      by (auto simp: CanonicalEntitlement_def IsHistory_def ModeHistory_def Let_def
          split: if_splits sum.splits)
  qed
qed

lemma CanonicalEntitlement_idem: "CanonicalEntitlement e = Inr e' \<Longrightarrow> CanonicalEntitlement e' = Inr e'"
proof (erule CanonicalEntitlement_cases)
  assume "ValidateModes (e_modes e) = Inr [''history'']" "1 \<le> e_lookback_days e"
    "e_lookback_days e \<le> 3650" "e' = e\<lparr>e_modes := [''history''], e_store_scope := []\<rparr>"
  then show ?thesis using ValidateModes_idem [of "e_modes e"]
    by (simp add: CanonicalEntitlement_def IsHistory_def ModeHistory_def MaxLookbackDays_def)
next
  fix modes scope
  assume "ValidateModes (e_modes e) = Inr modes" "''history'' \<notin> set modes" "e_lookback_days e = 0"
    "canonicalStoreScope (e_store_scope e) = Inr scope" "e' = e\<lparr>e_modes := modes, e_store_scope := scope\<rparr>"
  then show ?thesis using ValidateModes_idem [of "e_modes e"] scope_canon.canon_idem [of "e_store_scope e"]
    by (simp add: CanonicalEntitlement_def IsHistory_def ModeHistory_def)
qed

interpretation row_canon: canonicalizer CanonicalEntitlement
  by unfold_locales (rule CanonicalEntitlement_idem)

lemma CanonicalEntitlement_check: "CanonicalEntitlement e = Inr e' \<Longrightarrow> lookback_check e'"
  by (erule CanonicalEntitlement_cases) (simp_all add: lookback_check_def)

lemma CanonicalEntitlement_keeps:
  "CanonicalEntitlement e = Inr e' \<Longrightarrow>
     e' = e\<lparr>e_modes := e_modes e', e_store_scope := e_store_scope e'\<rparr>"
  by (erule CanonicalEntitlement_cases) simp_all

text \<open>A row is canonical by its modes, its scope and its lookback alone.\<close>

definition canonical_row :: "Entitlement \<Rightarrow> bool" where
  "canonical_row e \<longleftrightarrow> ValidateModes (e_modes e) = Inr (e_modes e) \<and>
     (if ''history'' \<in> set (e_modes e)
      then e_modes e = [''history''] \<and> e_store_scope e = [] \<and> 1 \<le> e_lookback_days e \<and> e_lookback_days e \<le> 3650
      else e_lookback_days e = 0 \<and> canonical_scope (e_store_scope e))"

lemma canonical_row_iff: "CanonicalEntitlement e = Inr e \<longleftrightarrow> canonical_row e"
proof
  assume c: "CanonicalEntitlement e = Inr e"
  then show "canonical_row e"
  proof (cases rule: CanonicalEntitlement_cases)
    case history
    have "e_modes e = [''history'']" "e_store_scope e = []"
      using arg_cong [OF history(5), of e_modes] arg_cong [OF history(5), of e_store_scope] by simp_all
    then show ?thesis using history(1,3,4) by (simp add: canonical_row_def)
  next
    case (prices modes scope)
    have "e_modes e = modes" "e_store_scope e = scope"
      using arg_cong [OF prices(5), of e_modes] arg_cong [OF prices(5), of e_store_scope] by simp_all
    then show ?thesis using prices(1-4) canonicalStoreScope_canonical by (auto simp: canonical_row_def)
  qed
next
  assume c: "canonical_row e"
  then have m: "ValidateModes (e_modes e) = Inr (e_modes e)" by (simp add: canonical_row_def)
  have same: "e\<lparr>e_modes := e_modes e\<rparr> = e" "e\<lparr>e_store_scope := e_store_scope e\<rparr> = e" by simp_all
  show "CanonicalEntitlement e = Inr e"
  proof (cases "''history'' \<in> set (e_modes e)")
    case True
    then have h: "length (e_modes e) = 1" "e_store_scope e = []" "\<not> e_lookback_days e < 1" "\<not> e_lookback_days e > 3650"
      using c by (simp_all add: canonical_row_def)
    then show ?thesis using True same(2)
      unfolding CanonicalEntitlement_def m sum.case same Let_def IsHistory_def ModeHistory_def MaxLookbackDays_def by simp
  next
    case False
    then have "e_lookback_days e = 0" "canonicalStoreScope (e_store_scope e) = Inr (e_store_scope e)"
      using c canonical_scope_fixed by (simp_all add: canonical_row_def)
    then show ?thesis using False same(2)
      unfolding CanonicalEntitlement_def m sum.case same Let_def IsHistory_def ModeHistory_def by simp
  qed
qed

lemma prepareEntitlement_Inr:
  assumes "prepareEntitlement now e = Inr (e', until, ext)"
  shows "canonical_row e'" "e_external_ref e' = e_external_ref e" "until = e_valid_until e"
    "ext = (if e_external_ref e = [] then None else Some (e_external_ref e))" "e_valid_until e' = e_valid_until e"
proof -
  obtain e1 where c: "CanonicalEntitlement e = Inr e1"
    using assms by (auto simp: prepareEntitlement_def split: sum.splits)
  have e1: "canonical_row e1" using CanonicalEntitlement_idem [OF c] canonical_row_iff by simp
  have k: "e_external_ref e1 = e_external_ref e" "e_valid_until e1 = e_valid_until e"
    using arg_cong [OF CanonicalEntitlement_keeps [OF c], of e_external_ref]
      arg_cong [OF CanonicalEntitlement_keeps [OF c], of e_valid_until] by simp_all
  show "canonical_row e'" "e_external_ref e' = e_external_ref e" "until = e_valid_until e"
    "ext = (if e_external_ref e = [] then None else Some (e_external_ref e))" "e_valid_until e' = e_valid_until e"
    using assms c e1 k by (auto simp: prepareEntitlement_def canonical_row_def Let_def split: if_splits)
qed

section \<open>Properties\<close>

text \<open>
  The scopes \<open>canonicalStoreScope\<close> accepts have exactly the canonical scopes as their canonical
  forms: the two presets alone, and the comma lists of distinct shorthands in byte order, none
  of them empty, holding a space or spelling a preset in any case; and a canonical scope is its
  own canonical form.
\<close>

theorem canonicalStoreScope_image:
  "(\<exists>s. canonicalStoreScope s = Inr c) \<longleftrightarrow> canonicalStoreScope c = Inr c \<and> canonical_scope c"
  using canonicalStoreScope_canonical canonical_scope_fixed by blast

text \<open>
  An accepted row meets the \<open>CHECK\<close> of migration 3 (a history row stands alone with 1 to 3650
  days, every other row has no lookback), a history row has no scope and every other row a
  canonical one, its modes are canonical, nothing else of it changed, and canonicalizing it
  again changes nothing.
\<close>

theorem CanonicalEntitlement_sound:
  assumes "CanonicalEntitlement e = Inr e'"
  shows "lookback_check e' \<and> CanonicalEntitlement e' = Inr e' \<and>
    ValidateModes (e_modes e') = Inr (e_modes e') \<and>
    (if IsHistory e' then e_store_scope e' = [] else canonical_scope (e_store_scope e')) \<and>
    e' = e\<lparr>e_modes := e_modes e', e_store_scope := e_store_scope e'\<rparr>"
proof -
  have "ValidateModes (e_modes e') = Inr (e_modes e') \<and>
      (if IsHistory e' then e_store_scope e' = [] else canonical_scope (e_store_scope e'))"
    using assms
    by (cases rule: CanonicalEntitlement_cases)
       (auto simp: IsHistory_def ModeHistory_def dest: ValidateModes_idem canonicalStoreScope_canonical)
  then show ?thesis
    using CanonicalEntitlement_check CanonicalEntitlement_idem CanonicalEntitlement_keeps assms by blast
qed

theorem CanonicalEntitlement_sound_witness:
  "CanonicalEntitlement (empty_entitlement\<lparr>e_modes := [''Sealed '', ''retail''], e_store_scope := '' TCG, CK,TCG''\<rparr>) =
     Inr (empty_entitlement\<lparr>e_modes := [''retail'', ''sealed''], e_store_scope := ''CK,TCG''\<rparr>) \<and>
   lookback_check (empty_entitlement\<lparr>e_modes := [''retail'', ''sealed''], e_store_scope := ''CK,TCG''\<rparr>)"
proof -
  have r: "CanonicalEntitlement (empty_entitlement\<lparr>e_modes := [''Sealed '', ''retail''], e_store_scope := '' TCG, CK,TCG''\<rparr>) =
     Inr (empty_entitlement\<lparr>e_modes := [''retail'', ''sealed''], e_store_scope := ''CK,TCG''\<rparr>)"
    by code_simp
  from CanonicalEntitlement_sound [OF r] r show ?thesis by blast
qed



end
