(* ===== verification/Sha256.thy ===== *)
theory Sha256
  imports Gateway_Prelude "HOL-Library.Word"
begin

unbundle bit_operations_syntax

text \<open>
  The digest and the encodings of Go's standard library that the sources call: \<open>crypto/sha256\<close>
  (FIPS 180-4) on 32-bit words, \<open>encoding/hex\<close>, and \<open>encoding/base64\<close> without padding in the URL
  alphabet. Bytes are \<^typ>\<open>char\<close>.
\<close>

type_synonym word32 = "32 word"

section \<open>SHA-256\<close>

text \<open>The \<open>w\<close> low bytes of an integer, the highest first.\<close>

fun be_bytes :: "nat \<Rightarrow> int \<Rightarrow> string" where
  "be_bytes 0 n = []"
| "be_bytes (Suc w) n = be_bytes w (n div 256) @ [char_of n]"

fun be_words :: "string \<Rightarrow> word32 list" where
  "be_words (a # b # c # d # rest) =
     word_of_int (((of_char a * 256 + of_char b) * 256 + of_char c) * 256 + of_char d) # be_words rest"
| "be_words _ = []"

text \<open>The round constants and the initial state, each table as one number.\<close>

definition sha_k :: "word32 list" where
  "sha_k = be_words (be_bytes 256
     0x428a2f9871374491b5c0fbcfe9b5dba53956c25b59f111f1923f82a4ab1c5ed5d807aa9812835b01243185be550c7dc372be5d7480deb1fe9bdc06a7c19bf174e49b69c1efbe47860fc19dc6240ca1cc2de92c6f4a7484aa5cb0a9dc76f988da983e5152a831c66db00327c8bf597fc7c6e00bf3d5a7914706ca63511429296727b70a852e1b21384d2c6dfc53380d13650a7354766a0abb81c2c92e92722c85a2bfe8a1a81a664bc24b8b70c76c51a3d192e819d6990624f40e3585106aa07019a4c1161e376c082748774c34b0bcb5391c0cb34ed8aa4a5b9cca4f682e6ff3748f82ee78a5636f84c878148cc7020890befffaa4506cebbef9a3f7c67178f2)"

definition sha_init :: "word32 list" where
  "sha_init = be_words (be_bytes 32
     0x6a09e667bb67ae853c6ef372a54ff53a510e527f9b05688c1f83d9ab5be0cd19)"

definition rotr32 :: "nat \<Rightarrow> word32 \<Rightarrow> word32" where
  "rotr32 n x = drop_bit n x OR push_bit (32 - n) x"

text \<open>The next word of the schedule from the sixteen before it, the newest first.\<close>

definition sched_next :: "word32 list \<Rightarrow> word32" where
  "sched_next w =
     (let s0 = rotr32 7 (w ! 14) XOR rotr32 18 (w ! 14) XOR drop_bit 3 (w ! 14);
          s1 = rotr32 17 (w ! 1) XOR rotr32 19 (w ! 1) XOR drop_bit 10 (w ! 1)
      in w ! 15 + s0 + w ! 6 + s1)"

fun sched_extend :: "nat \<Rightarrow> word32 list \<Rightarrow> word32 list" where
  "sched_extend 0 w = w"
| "sched_extend (Suc n) w = sched_extend n (sched_next w # w)"

definition sched :: "word32 list \<Rightarrow> word32 list" where
  "sched block = rev (sched_extend 48 (rev block))"

type_synonym sha_state = "word32 \<times> word32 \<times> word32 \<times> word32 \<times> word32 \<times> word32 \<times> word32 \<times> word32"

fun sha_round :: "sha_state \<Rightarrow> word32 \<times> word32 \<Rightarrow> sha_state" where
  "sha_round (a, b, c, d, e, f, g, h) (k, w) =
     (let S1 = rotr32 6 e XOR rotr32 11 e XOR rotr32 25 e;
          ch = (e AND f) XOR (NOT e AND g);
          t1 = h + S1 + ch + k + w;
          S0 = rotr32 2 a XOR rotr32 13 a XOR rotr32 22 a;
          maj = (a AND b) XOR (a AND c) XOR (b AND c);
          t2 = S0 + maj
      in (t1 + t2, a, b, c, d + t1, e, f, g))"

definition sha_block :: "word32 list \<Rightarrow> word32 list \<Rightarrow> word32 list" where
  "sha_block hs block =
     (case foldl sha_round (hs ! 0, hs ! 1, hs ! 2, hs ! 3, hs ! 4, hs ! 5, hs ! 6, hs ! 7)
             (zip sha_k (sched block)) of
        (a, b, c, d, e, f, g, h) \<Rightarrow>
          [hs ! 0 + a, hs ! 1 + b, hs ! 2 + c, hs ! 3 + d, hs ! 4 + e, hs ! 5 + f, hs ! 6 + g, hs ! 7 + h])"

definition sha_pad :: "string \<Rightarrow> string" where
  "sha_pad m = m @ [char_of (128 :: int)] @ replicate (nat ((55 - int (length m)) mod 64)) (char_of (0 :: int)) @
     be_bytes 8 (8 * int (length m))"

function sha_blocks :: "word32 list \<Rightarrow> word32 list \<Rightarrow> word32 list" where
  "sha_blocks hs ws = (if ws = [] then hs else sha_blocks (sha_block hs (take 16 ws)) (drop 16 ws))"
  by auto
termination by (relation "measure (length \<circ> snd)") auto

declare sha_blocks.simps [simp del]

definition word_bytes :: "word32 \<Rightarrow> string" where
  "word_bytes w = be_bytes 4 (uint w)"

definition sha256 :: "string \<Rightarrow> string" where
  "sha256 m = concat (map word_bytes (sha_blocks sha_init (be_words (sha_pad m))))"

section \<open>Encodings\<close>

definition hex_digit :: "int \<Rightarrow> char" where
  "hex_digit d = (if d < 10 then char_of (48 + d) else char_of (87 + d))"

definition hex_encode :: "string \<Rightarrow> string" where
  "hex_encode s = concat (map (\<lambda>c. [hex_digit (of_char c div 16), hex_digit (of_char c mod 16)]) s)"

definition b64_digit :: "int \<Rightarrow> char" where
  "b64_digit d = ''ABCDEFGHIJKLMNOPQRSTUVWXYZabcdefghijklmnopqrstuvwxyz0123456789-_'' ! nat d"

fun b64url_encode :: "string \<Rightarrow> string" where
  "b64url_encode (a # b # c # rest) =
     (let n = (of_char a * 256 + of_char b) * 256 + of_char c
      in b64_digit (n div 262144) # b64_digit (n div 4096 mod 64) # b64_digit (n div 64 mod 64) #
         b64_digit (n mod 64) # b64url_encode rest)"
| "b64url_encode [a, b] =
     (let n = (of_char a * 256 + of_char b) * 256
      in [b64_digit (n div 262144), b64_digit (n div 4096 mod 64), b64_digit (n div 64 mod 64)])"
| "b64url_encode [a] =
     (let n = of_char a * 65536 in [b64_digit (n div 262144), b64_digit (n div 4096 mod 64)])"
| "b64url_encode [] = []"

section \<open>Lengths\<close>

lemma length_be_bytes [simp]: "length (be_bytes w n) = w"
  by (induction w arbitrary: n) auto

lemma length_be_words: "length (be_words s) = length s div 4"
  by (induction s rule: be_words.induct) auto

lemma length_sha_init: "length sha_init = 8"
  by (simp add: sha_init_def length_be_words)

lemma length_sha_block [simp]: "length (sha_block hs b) = 8"
  by (simp add: sha_block_def split: prod.splits)

lemma length_sha_blocks: "length hs = 8 \<Longrightarrow> length (sha_blocks hs ws) = 8"
proof (induction hs ws rule: sha_blocks.induct)
  case (1 hs ws)
  then show ?case by (cases "ws = []") (auto simp: sha_blocks.simps [of hs])
qed

lemma length_concat_const: "\<forall>x \<in> set xs. length (f x) = n \<Longrightarrow> length (concat (map f xs)) = n * length xs"
  by (induction xs) auto

lemma length_sha256 [simp]: "length (sha256 m) = 32"
proof -
  have "length (concat (map word_bytes ws)) = 4 * length ws" for ws
    by (rule length_concat_const) (simp add: word_bytes_def)
  then show ?thesis by (simp add: sha256_def length_sha_blocks length_sha_init)
qed

lemma length_hex_encode [simp]: "length (hex_encode s) = 2 * length s"
  unfolding hex_encode_def by (simp add: length_concat_const)

text \<open>The padded message is a whole number of 64-byte blocks.\<close>

lemma length_sha_pad: "int (length (sha_pad m)) mod 64 = 0"
proof -
  have "int (length (sha_pad m)) = int (length m) + 9 + (55 - int (length m)) mod 64"
    by (simp add: sha_pad_def)
  also have "\<dots> mod 64 = (int (length m) + 9 + (55 - int (length m))) mod 64" by (rule mod_add_right_eq)
  also have "\<dots> = 0" by simp
  finally show ?thesis .
qed

end
