(* ===== verification/Keys.thy ===== *)
theory Keys
  imports Entitlements Sha256
begin

text \<open>
  The pure part of \<open>src/apiaccess/keys.go\<close> and the account type of
  \<open>src/apiaccess/accounts.go\<close>: what a key looks like, how one is minted from random bytes, and
  the hash that stands for it everywhere but in the customer's hands.
\<close>

section \<open>Accounts\<close>

datatype AccountStatus = AccountActive | AccountSuspended | AccountOther string

definition account_status_valid :: "AccountStatus \<Rightarrow> bool" where
  "account_status_valid s \<longleftrightarrow> s = AccountActive \<or> s = AccountSuspended"

record Account =
  a_id :: int
  a_email :: string
  a_status :: AccountStatus
  a_created_at :: time
  a_note :: string
  a_stripe_customer_id :: string
  a_session_epoch :: int

definition NormalizeEmail :: "string \<Rightarrow> string" where
  "NormalizeEmail s = to_lower (trim_space s)"

lemma NormalizeEmail_idem [simp]: "NormalizeEmail (NormalizeEmail s) = NormalizeEmail s"
  by (simp add: NormalizeEmail_def)

section \<open>Keys\<close>

datatype KeyKind = KeyLive | KeyDemo | KeyOther string

fun kind_string :: "KeyKind \<Rightarrow> string" where
  "kind_string KeyLive = ''ban_live''"
| "kind_string KeyDemo = ''ban_demo''"
| "kind_string (KeyOther s) = s"

definition key_kind_valid :: "KeyKind \<Rightarrow> bool" where
  "key_kind_valid k \<longleftrightarrow> k = KeyLive \<or> k = KeyDemo"

definition keyAlphabet :: string where
  "keyAlphabet = ''abcdefghijklmnopqrstuvwxyz0123456789''"

record Key =
  k_id :: int
  k_account_id :: int
  k_hash :: string
  k_prefix :: string
  k_label :: string
  k_kind :: KeyKind
  k_created_at :: time
  k_last_used_at :: "time option"
  k_revoked_at :: "time option"

record Lookup =
  l_key :: Key
  l_account :: Account
  l_entitlements :: "Entitlement list"

text \<open>One proxied request, \<open>Usage\<close> of \<open>src/apiaccess/usage.go\<close>.\<close>

record Usage =
  us_ts :: time
  us_key_id :: int
  us_account_id :: int
  us_game :: string
  us_path :: string
  us_status :: int
  us_bytes :: int
  us_duration_ms :: int
  us_client_ip :: string

definition HashKey :: "string \<Rightarrow> string" where
  "HashKey plaintext = hex_encode (sha256 plaintext)"

text \<open>\<open>rand\<close> is what reading 32 bytes from the system's random source gave, \<open>None\<close> when it
  failed.\<close>

definition GenerateKey :: "KeyKind \<Rightarrow> string option \<Rightarrow> access_error + string \<times> string \<times> string" where
  "GenerateKey kind rand =
     (if \<not> key_kind_valid kind then Inl (InvalidKeyKind (kind_string kind))
      else case rand of
          None \<Rightarrow> Inl (DriverError ''rand'')
        | Some buf \<Rightarrow>
            let plaintext = kind_string kind @ ''_'' @
                  map (\<lambda>x. keyAlphabet ! (of_char x mod length keyAlphabet)) buf;
                start = length (kind_string kind) + 1
            in Inr (plaintext, HashKey plaintext, take 8 (drop start plaintext)))"

text \<open>The pattern \<open>^(mtgban_live|ban_live|ban_demo)_[a-z0-9]{32}$\<close>.\<close>

definition key_char :: "char \<Rightarrow> bool" where
  "key_char c \<longleftrightarrow> (97 \<le> (of_char c :: nat) \<and> (of_char c :: nat) \<le> 122) \<or> is_digit c"

definition LooksLikeKey :: "string \<Rightarrow> bool" where
  "LooksLikeKey s \<longleftrightarrow>
     list_ex (\<lambda>p. has_prefix s p \<and> length (drop (length p) s) = 32 \<and> list_all key_char (drop (length p) s))
       [''mtgban_live_'', ''ban_live_'', ''ban_demo_'']"

section \<open>Lemmas\<close>

lemma length_HashKey [simp]: "length (HashKey s) = 64"
  by (simp add: HashKey_def)

lemma HashKey_not_Nil [simp]: "HashKey s \<noteq> []"
  by (metis length_HashKey list.size(3) zero_neq_numeral)

lemma length_keyAlphabet: "length keyAlphabet = 36"
  by (simp add: keyAlphabet_def)

lemma key_char_alphabet: "key_char (keyAlphabet ! (n mod length keyAlphabet))"
proof -
  have "list_all key_char keyAlphabet" by code_simp
  moreover have "n mod length keyAlphabet < length keyAlphabet" by (simp add: length_keyAlphabet)
  ultimately show ?thesis by (simp add: list_all_length)
qed

lemma LooksLikeKey_no_comma_space: "LooksLikeKey s \<Longrightarrow> length s \<in> {41, 44}"
  by (auto simp: LooksLikeKey_def has_prefix_def)

lemma GenerateKey_Inr:
  assumes "GenerateKey kind (Some buf) = Inr (plaintext, hash, prefix)" "length buf = 32"
  shows "LooksLikeKey plaintext" "hash = HashKey plaintext" "length prefix = 8"
    "\<exists>rest. plaintext = kind_string kind @ ''_'' @ prefix @ rest"
proof -
  define body where "body = map (\<lambda>x. keyAlphabet ! (of_char x mod length keyAlphabet)) buf"
  have pl: "plaintext = kind_string kind @ ''_'' @ body" and h: "hash = HashKey plaintext"
    and pre: "prefix = take 8 body" and kv: "key_kind_valid kind"
    using assms(1) by (auto simp: GenerateKey_def body_def Let_def split: if_splits)
  have body: "length body = 32" "list_all key_char body"
    using assms(2) key_char_alphabet by (auto simp: body_def list_all_iff)
  show "LooksLikeKey plaintext"
    using kv body by (auto simp: pl key_kind_valid_def LooksLikeKey_def has_prefix_def)
  show "hash = HashKey plaintext" by (fact h)
  show "length prefix = 8" using body pre by simp
  show "\<exists>rest. plaintext = kind_string kind @ ''_'' @ prefix @ rest"
    unfolding pl pre by (metis append_take_drop_id)
qed

section \<open>Properties\<close>

text \<open>
  A key is minted exactly for a live or demo kind with 32 random bytes at hand; the plaintext
  passes the gateway's shape check, the hash stored for it is its SHA-256 in hexadecimal (64
  characters), and the display prefix is the first eight characters of its random part.
\<close>

theorem GenerateKey_sound:
  assumes "length buf = 32"
  shows "(\<exists>plaintext hash prefix rest. GenerateKey kind (Some buf) = Inr (plaintext, hash, prefix) \<and>
      LooksLikeKey plaintext \<and> hash = HashKey plaintext \<and> length hash = 64 \<and>
      plaintext = kind_string kind @ ''_'' @ prefix @ rest \<and> length prefix = 8 \<and> length rest = 24)
    \<longleftrightarrow> kind = KeyLive \<or> kind = KeyDemo"
proof
  assume k: "kind = KeyLive \<or> kind = KeyDemo"
  then obtain p h pre where g: "GenerateKey kind (Some buf) = Inr (p, h, pre)"
    by (auto simp: GenerateKey_def key_kind_valid_def Let_def)
  from GenerateKey_Inr [OF g assms] obtain rest where
    r: "LooksLikeKey p" "h = HashKey p" "length pre = 8" "p = kind_string kind @ ''_'' @ pre @ rest" by blast
  have "length p = length (kind_string kind) + 33"
    using g assms by (auto simp: GenerateKey_def Let_def split: if_splits)
  then have "length rest = 24" using r(3,4) by simp
  then show "\<exists>plaintext hash prefix rest. GenerateKey kind (Some buf) = Inr (plaintext, hash, prefix) \<and>
      LooksLikeKey plaintext \<and> hash = HashKey plaintext \<and> length hash = 64 \<and>
      plaintext = kind_string kind @ ''_'' @ prefix @ rest \<and> length prefix = 8 \<and> length rest = 24"
    using g r by auto
qed (auto simp: GenerateKey_def key_kind_valid_def split: if_splits)

theorem GenerateKey_sound_witness:
  "\<exists>plaintext hash prefix. GenerateKey KeyDemo (Some (replicate 32 CHR ''x'')) = Inr (plaintext, hash, prefix) \<and>
     LooksLikeKey plaintext \<and> hash = HashKey plaintext"
proof -
  have "length (replicate 32 CHR ''x'') = 32" by simp
  from GenerateKey_sound [OF this, of KeyDemo] show ?thesis by blast
qed

end
