(* ===== verification/Admin_Rules.thy ===== *)
theory Admin_Rules
  imports Keys
begin

text \<open>
  \<open>src/apiaccess/admin_rules.go\<close>: the rules the two admin front ends share, above all the
  validation of a manual grant, and how it agrees with the canonical form the store enforces.
\<close>

record ManualGrantInput =
  mg_account_id :: int
  mg_games :: "string list"
  mg_stores :: string
  mg_modes :: "string list"
  mg_lookback :: int
  mg_until :: string
  mg_note :: string

text \<open>The field that failed, the offending game when it is the games, and the message.\<close>

datatype grant_message =
    GrantNoGames
  | GrantUnknownGame "string list"
  | GrantAccess access_error
  | GrantHistoryAlone
  | GrantHistoryStores
  | GrantLookbackSmall
  | GrantLookbackLarge
  | GrantLookbackNotHistory
  | GrantUntilFormat
  | GrantUntilPast

datatype GrantError = GrantError (ge_field: string) (ge_value: string) (ge_msg: grant_message)

definition grant_until ::
  "ManualGrantInput \<Rightarrow> time \<Rightarrow> Entitlement \<Rightarrow> GrantError + Entitlement" where
  "grant_until inp now e =
     (if mg_until inp \<noteq> [] then
        case parse_date (mg_until inp) of
          None \<Rightarrow> Inl (GrantError ''until'' [] GrantUntilFormat)
        | Some t \<Rightarrow> if t < now then Inl (GrantError ''until'' [] GrantUntilPast)
                    else Inr (e\<lparr>e_valid_until := Some t\<rparr>)
      else Inr e)"

definition ManualGrant ::
  "ManualGrantInput \<Rightarrow> string list \<Rightarrow> time \<Rightarrow> GrantError + Entitlement" where
  "ManualGrant inp games now =
     (if mg_games inp = [] then Inl (GrantError ''games'' [] GrantNoGames)
      else case find (\<lambda>g. g \<notin> set games) (mg_games inp) of
          Some g \<Rightarrow> Inl (GrantError ''games'' g (GrantUnknownGame games))
        | None \<Rightarrow>
      (case ValidateModes (mg_modes inp) of
          Inl err \<Rightarrow> Inl (GrantError ''modes'' [] (GrantAccess err))
        | Inr modes \<Rightarrow>
            let history = ModeHistory \<in> set modes in
            if history \<and> length modes \<noteq> 1 then Inl (GrantError ''modes'' [] GrantHistoryAlone)
            else if history \<and> trim_space (mg_stores inp) \<noteq> [] then Inl (GrantError ''stores'' [] GrantHistoryStores)
            else if history \<and> mg_lookback inp < 1 then Inl (GrantError ''lookback'' [] GrantLookbackSmall)
            else if history \<and> mg_lookback inp > MaxLookbackDays then Inl (GrantError ''lookback'' [] GrantLookbackLarge)
            else if \<not> history \<and> mg_lookback inp \<noteq> 0 then Inl (GrantError ''lookback'' [] GrantLookbackNotHistory)
            else case (if history then Inr [] else ValidateStoreScope (mg_stores inp)) of
                Inl err \<Rightarrow> Inl (GrantError ''stores'' [] (GrantAccess err))
              | Inr scope \<Rightarrow>
                  grant_until inp now
                    (empty_entitlement\<lparr>e_account_id := mg_account_id inp, e_source := SourceManual,
                       e_games := mg_games inp, e_store_scope := scope, e_modes := modes,
                       e_lookback_days := mg_lookback inp, e_note := mg_note inp\<rparr>)))"

definition GrantDetail :: "Entitlement \<Rightarrow> string" where
  "GrantDetail e =
     (let s = join '','' (e_games e) @ '' '' @ e_store_scope e @ '' '' @ join '','' (e_modes e) in
      if e_lookback_days e > 0 then s @ '' '' @ format_int (e_lookback_days e) @ ''d'' else s)"

definition KeyKindFor :: "Entitlement list \<Rightarrow> KeyKind" where
  "KeyKindFor ents = (if HasActiveStripePlan ents then KeyLive else KeyDemo)"

datatype WindowError = WindowSince | WindowUntil | WindowOrder

definition UsageWindow :: "string \<Rightarrow> string \<Rightarrow> time \<Rightarrow> WindowError + time \<times> time" where
  "UsageWindow since until now =
     (case (if since \<noteq> [] then parse_date since else Some (add_days now (-30))) of
        None \<Rightarrow> Inl WindowSince
      | Some from \<Rightarrow>
          (case (if until \<noteq> [] then parse_date until else Some (add_days now 1)) of
             None \<Rightarrow> Inl WindowUntil
           | Some to \<Rightarrow> if from > to then Inl WindowOrder else Inr (from, to)))"

definition SplitList :: "string \<Rightarrow> string list" where
  "SplitList s = filter (\<lambda>p. p \<noteq> []) (map trim_space (split_on comma s))"

section \<open>Lemmas\<close>

text \<open>The row the form describes before anything is canonicalized.\<close>

definition grant_row :: "ManualGrantInput \<Rightarrow> Entitlement" where
  "grant_row inp =
     empty_entitlement\<lparr>e_account_id := mg_account_id inp, e_source := SourceManual,
       e_games := mg_games inp, e_store_scope := mg_stores inp, e_modes := mg_modes inp,
       e_lookback_days := mg_lookback inp, e_note := mg_note inp\<rparr>"

definition grant_games_ok :: "ManualGrantInput \<Rightarrow> string list \<Rightarrow> bool" where
  "grant_games_ok inp games \<longleftrightarrow> mg_games inp \<noteq> [] \<and> set (mg_games inp) \<subseteq> set games"

lemma find_games: "find (\<lambda>g. g \<notin> set games) gs = None \<longleftrightarrow> set gs \<subseteq> set games"
  by (auto simp: find_None)

text \<open>Past the games, the form is accepted exactly when the store would accept its row.\<close>

lemma ManualGrant_canonical:
  "ManualGrant inp games now = Inr e \<longleftrightarrow>
     grant_games_ok inp games \<and>
     (\<exists>e0. CanonicalEntitlement (grant_row inp) = Inr e0 \<and> grant_until inp now e0 = Inr e)"
proof (cases "grant_games_ok inp games")
  case True
  then have g: "mg_games inp \<noteq> []" "find (\<lambda>g. g \<notin> set games) (mg_games inp) = None"
    by (simp_all add: grant_games_ok_def find_games)
  show ?thesis
  proof (cases "ValidateModes (mg_modes inp)")
    case (Inl err)
    then show ?thesis using g True by (simp add: ManualGrant_def CanonicalEntitlement_def grant_row_def)
  next
    case (Inr modes)
    then show ?thesis using g True
      by (auto simp: ManualGrant_def CanonicalEntitlement_def grant_row_def IsHistory_def
          ValidateStoreScope_def empty_entitlement_def Let_def split: sum.splits)
  qed
next
  case False
  have "mg_games inp = [] \<or> find (\<lambda>g. g \<notin> set games) (mg_games inp) \<noteq> None"
    using False by (auto simp: grant_games_ok_def find_games)
  then show ?thesis using False by (auto simp: ManualGrant_def)
qed

lemma grant_until_Inr:
  "grant_until inp now e0 = Inr e \<Longrightarrow>
     (mg_until inp = [] \<and> e = e0) \<or>
     (\<exists>t. parse_date (mg_until inp) = Some t \<and> now \<le> t \<and> e = e0\<lparr>e_valid_until := Some t\<rparr>)"
  by (auto simp: grant_until_def split: if_splits option.splits)

lemma CanonicalEntitlement_until:
  "CanonicalEntitlement (e\<lparr>e_valid_until := u\<rparr>) =
     (case CanonicalEntitlement e of Inl x \<Rightarrow> Inl x | Inr e' \<Rightarrow> Inr (e'\<lparr>e_valid_until := u\<rparr>))"
  by (auto simp: CanonicalEntitlement_def IsHistory_def Let_def split: sum.splits)

lemma HasActiveStripePlan_iff: "HasActiveStripePlan ents \<longleftrightarrow> (\<exists>e \<in> set ents. IsActiveStripePlan e)"
  by (induction ents) auto

lemma UsageWindow_Inr: "UsageWindow since until now = Inr (from, to) \<Longrightarrow> from \<le> to"
  by (auto simp: UsageWindow_def split: option.splits if_splits)

lemma set_SplitList: "set (SplitList s) = trim_space ` set (split_on comma s) - {[]}"
  by (auto simp: SplitList_def)

section \<open>Properties\<close>

text \<open>
  The manual-grant form and the store agree. A grant is accepted exactly when its games are
  configured ones (and at least one), the store's own canonical form accepts the row as typed,
  and the end date is empty or a real date not before now; what the form builds is then the
  canonical row with that end date, which the store takes unchanged and whose lookback check
  holds.
\<close>

theorem ManualGrant_agrees_with_store:
  assumes "ManualGrant inp games now = Inr e"
  shows "grant_games_ok inp games \<and> CanonicalEntitlement e = Inr e \<and> lookback_check e \<and>
    CanonicalEntitlement (grant_row inp) = Inr (e\<lparr>e_valid_until := None\<rparr>) \<and>
    e_games e = mg_games inp \<and> e_source e = SourceManual \<and>
    (case e_valid_until e of None \<Rightarrow> mg_until inp = []
     | Some t \<Rightarrow> parse_date (mg_until inp) = Some t \<and> now \<le> t)"
proof -
  obtain e0 where g: "grant_games_ok inp games" and c: "CanonicalEntitlement (grant_row inp) = Inr e0"
    and u: "grant_until inp now e0 = Inr e"
    using assms unfolding ManualGrant_canonical by blast
  have e0: "e0 = (grant_row inp)\<lparr>e_modes := e_modes e0, e_store_scope := e_store_scope e0\<rparr>"
    by (rule CanonicalEntitlement_keeps [OF c])
  have f: "e_valid_until e0 = None" "e_games e0 = mg_games inp" "e_source e0 = SourceManual"
    using arg_cong [OF e0, of e_valid_until] arg_cong [OF e0, of e_games] arg_cong [OF e0, of e_source]
    by (simp_all add: grant_row_def empty_entitlement_def)
  have u0: "e0\<lparr>e_valid_until := None\<rparr> = e0" using f(1) by (cases e0) simp
  have can: "CanonicalEntitlement e0 = Inr e0" by (rule CanonicalEntitlement_idem [OF c])
  from grant_until_Inr [OF u] show ?thesis
  proof
    assume "mg_until inp = [] \<and> e = e0"
    then show ?thesis using g c f u0 can CanonicalEntitlement_check [OF can] by simp
  next
    assume "\<exists>t. parse_date (mg_until inp) = Some t \<and> now \<le> t \<and> e = e0\<lparr>e_valid_until := Some t\<rparr>"
    then obtain t where t: "parse_date (mg_until inp) = Some t" "now \<le> t" "e = e0\<lparr>e_valid_until := Some t\<rparr>"
      by blast
    have "CanonicalEntitlement e = Inr e" using t(3) can CanonicalEntitlement_until by simp
    then show ?thesis using g c f u0 t CanonicalEntitlement_check by auto
  qed
qed

theorem ManualGrant_agrees_with_store_witness:
  "\<exists>e. ManualGrant \<lparr>mg_account_id = 7, mg_games = [''magic''], mg_stores = ''all_access'', mg_modes = [''retail''],
      mg_lookback = 0, mg_until = ''2030-02-28'', mg_note = []\<rparr> [''magic'', ''lorcana''] 0 = Inr e \<and>
     CanonicalEntitlement e = Inr e \<and> e_store_scope e = ScopeAll"
proof -
  let ?in = "\<lparr>mg_account_id = 7, mg_games = [''magic''], mg_stores = ''all_access'', mg_modes = [''retail''],
      mg_lookback = 0, mg_until = ''2030-02-28'', mg_note = []\<rparr>"
  let ?e = "empty_entitlement\<lparr>e_account_id := 7, e_source := SourceManual, e_games := [''magic''],
      e_store_scope := ScopeAll, e_modes := [''retail''], e_valid_until := Some (21973 * day)\<rparr>"
  have "ManualGrant ?in [''magic'', ''lorcana''] 0 = Inr ?e" by code_simp
  from ManualGrant_agrees_with_store [OF this] this show ?thesis by (intro exI [of _ ?e]) simp
qed

end
