(* ===== verification/Resolver.thy ===== *)
theory Resolver
  imports Keys
begin

text \<open>
  \<open>src/gateway/resolver.go\<close>: the cache of key lookups in front of the store. The operations are
  the code's critical sections; \<open>rstep\<close> interleaves any number of callers with fetches, deliveries,
  timeouts, invalidations, changes in the store and the passing of time. Deduplication of
  concurrent fetches (\<open>golang.org/x/sync/singleflight\<close>) enters through what it documents: a caller
  is handed the result of a fetch that was started under its own key.
\<close>

section \<open>The cache\<close>

definition empty_lookup :: Lookup where
  "empty_lookup =
     \<lparr>l_key = \<lparr>k_id = 0, k_account_id = 0, k_hash = [], k_prefix = [], k_label = [], k_kind = KeyOther [],
        k_created_at = zero_time, k_last_used_at = None, k_revoked_at = None\<rparr>,
      l_account = \<lparr>a_id = 0, a_email = [], a_status = AccountOther [], a_created_at = zero_time,
        a_note = [], a_stripe_customer_id = [], a_session_epoch = 0\<rparr>,
      l_entitlements = []\<rparr>"

datatype resolve_error = ErrUnknownKey | ErrUnavailable

definition DefaultMaxEntries :: int where "DefaultMaxEntries = 10000"
definition DefaultMaxUnknown :: int where "DefaultMaxUnknown = 1000"
definition DefaultStaleGrace :: duration where "DefaultStaleGrace = 10 * minute"
definition DefaultLookupTimeout :: duration where "DefaultLookupTimeout = 5 * second"

record cacheEntry =
  ce_lookup :: Lookup
  ce_unknown :: bool
  ce_fetched :: time

text \<open>What \<open>LookupKey\<close> gave: an error of the store or a lookup.\<close>

type_synonym fetchResult = "access_error + Lookup"

type_synonym entries = "(string \<times> cacheEntry) list"

record Resolver =
  rv_ttl :: duration
  rv_max_entries :: int
  rv_max_unknown :: int
  rv_stale_grace :: duration
  rv_lookup_timeout :: duration
  rv_cache :: entries
  rv_unknown :: entries
  rv_generation :: "64 word"

definition NewResolver :: "duration \<Rightarrow> Resolver" where
  "NewResolver ttl =
     \<lparr>rv_ttl = ttl, rv_max_entries = DefaultMaxEntries, rv_max_unknown = DefaultMaxUnknown,
      rv_stale_grace = DefaultStaleGrace, rv_lookup_timeout = DefaultLookupTimeout,
      rv_cache = [], rv_unknown = [], rv_generation = 0\<rparr>"

definition SetStaleGrace :: "Resolver \<Rightarrow> duration \<Rightarrow> Resolver" where
  "SetStaleGrace r d = r\<lparr>rv_stale_grace := (if d < 0 then DefaultStaleGrace else d)\<rparr>"

definition SetLookupTimeout :: "Resolver \<Rightarrow> duration \<Rightarrow> Resolver" where
  "SetLookupTimeout r d = r\<lparr>rv_lookup_timeout := (if d \<le> 0 then DefaultLookupTimeout else d)\<rparr>"

definition SetMaxEntries :: "Resolver \<Rightarrow> int \<Rightarrow> Resolver" where
  "SetMaxEntries r n = r\<lparr>rv_max_entries := (if n \<le> 0 then DefaultMaxEntries else n)\<rparr>"

definition SetMaxUnknown :: "Resolver \<Rightarrow> int \<Rightarrow> Resolver" where
  "SetMaxUnknown r n = r\<lparr>rv_max_unknown := (if n \<le> 0 then DefaultMaxUnknown else n)\<rparr>"

definition entry_result :: "cacheEntry \<Rightarrow> resolve_error + Lookup" where
  "entry_result e = (if ce_unknown e then Inl ErrUnknownKey else Inr (ce_lookup e))"

definition entryLocked :: "Resolver \<Rightarrow> string \<Rightarrow> cacheEntry option" where
  "entryLocked r hash =
     (case map_of (rv_cache r) hash of Some e \<Rightarrow> Some e | None \<Rightarrow> map_of (rv_unknown r) hash)"

text \<open>
  The order in which \<open>range\<close> visits a map is not specified: \<open>order\<close> is an arbitrary list of
  keys, those of the map are visited as they come in it, then the others.
\<close>

definition visit :: "string list \<Rightarrow> string list \<Rightarrow> string list" where
  "visit order keys = filter (\<lambda>k. k \<in> set keys) (remdups order) @ filter (\<lambda>k. k \<notin> set order) keys"

fun evict :: "int \<Rightarrow> string list \<Rightarrow> entries \<Rightarrow> entries" where
  "evict limit [] m = m"
| "evict limit (h # hs) m = (if int (length m) < limit then m else evict limit hs (AList.delete h m))"

definition makeRoomLocked :: "string list \<Rightarrow> Resolver \<Rightarrow> entries \<Rightarrow> int \<Rightarrow> time \<Rightarrow> entries" where
  "makeRoomLocked order r m limit now =
     (if int (length m) < limit then m
      else
        let m1 = filter (\<lambda>(h, e). \<not> now - ce_fetched e \<ge> rv_ttl r + rv_stale_grace r) m
        in evict limit (visit order (map fst m1)) m1)"

section \<open>Resolve\<close>

text \<open>
  The part before the fetch: an answer from a fresh entry, or the generation, the grace and the
  timeout the rest of the call works with.
\<close>

definition resolve_begin ::
  "Resolver \<Rightarrow> time \<Rightarrow> string \<Rightarrow> (resolve_error + Lookup) + (64 word \<times> duration \<times> duration)" where
  "resolve_begin r now hash =
     (case entryLocked r hash of
        Some e \<Rightarrow> if now - ce_fetched e < rv_ttl r then Inl (entry_result e)
                  else Inr (rv_generation r, rv_stale_grace r, rv_lookup_timeout r)
      | None \<Rightarrow> Inr (rv_generation r, rv_stale_grace r, rv_lookup_timeout r))"

definition flight_key :: "64 word \<Rightarrow> string \<Rightarrow> string" where
  "flight_key gen hash = nat_digits (unat gen) @ '':'' @ hash"

definition staleOrUnavailable ::
  "Resolver \<Rightarrow> time \<Rightarrow> string \<Rightarrow> 64 word \<Rightarrow> duration \<Rightarrow> resolve_error + Lookup" where
  "staleOrUnavailable r now hash gen grace =
     (if rv_generation r \<noteq> gen then Inl ErrUnavailable
      else case entryLocked r hash of
          Some e \<Rightarrow> if now - ce_fetched e \<le> rv_ttl r + grace then entry_result e else Inl ErrUnavailable
        | None \<Rightarrow> Inl ErrUnavailable)"

text \<open>The entry a fetch makes; none for an error other than \<open>ErrNotFound\<close>.\<close>

definition fetch_entry :: "fetchResult \<Rightarrow> time \<Rightarrow> cacheEntry option" where
  "fetch_entry res now =
     (case res of
        Inr lk \<Rightarrow> Some \<lparr>ce_lookup = lk, ce_unknown = False, ce_fetched = now\<rparr>
      | Inl err \<Rightarrow> if err = ErrNotFound then Some \<lparr>ce_lookup = empty_lookup, ce_unknown = True, ce_fetched = now\<rparr>
                   else None)"

definition store_entry :: "string list \<Rightarrow> Resolver \<Rightarrow> time \<Rightarrow> string \<Rightarrow> cacheEntry \<Rightarrow> Resolver" where
  "store_entry order r now hash e =
     (if ce_unknown e then
        let r1 = r\<lparr>rv_cache := AList.delete hash (rv_cache r)\<rparr>
        in r1\<lparr>rv_unknown :=
             AList.update hash e (makeRoomLocked order r1 (rv_unknown r1) (rv_max_unknown r1) now)\<rparr>
      else
        let r1 = r\<lparr>rv_unknown := AList.delete hash (rv_unknown r)\<rparr>
        in r1\<lparr>rv_cache :=
             AList.update hash e (makeRoomLocked order r1 (rv_cache r1) (rv_max_entries r1) now)\<rparr>)"

text \<open>\<open>now\<close> is read on entry, \<open>now'\<close> again when the fetch failed.\<close>

definition storeFetch ::
  "string list \<Rightarrow> Resolver \<Rightarrow> time \<Rightarrow> time \<Rightarrow> string \<Rightarrow> 64 word \<Rightarrow> duration \<Rightarrow> fetchResult \<Rightarrow>
     (resolve_error + Lookup) \<times> Resolver" where
  "storeFetch order r now now' hash gen grace res =
     (case fetch_entry res now of
        None \<Rightarrow> (staleOrUnavailable r now' hash gen grace, r)
      | Some e \<Rightarrow>
          if rv_generation r \<noteq> gen then (entry_result e, r)
          else (entry_result e, store_entry order r now hash e))"

definition Invalidate :: "Resolver \<Rightarrow> string \<Rightarrow> Resolver" where
  "Invalidate r hash =
     (let r1 = r\<lparr>rv_generation := rv_generation r + 1\<rparr> in
      if hash = [] then r1\<lparr>rv_cache := [], rv_unknown := []\<rparr>
      else r1\<lparr>rv_cache := AList.delete hash (rv_cache r1), rv_unknown := AList.delete hash (rv_unknown r1)\<rparr>)"

text \<open>
  A whole call with nothing between its critical sections: \<open>outcome\<close> is the fetch's result, or
  \<open>None\<close> when the caller's deadline passed first.
\<close>

definition Resolver_Resolve ::
  "string list \<Rightarrow> Resolver \<Rightarrow> time \<Rightarrow> string \<Rightarrow> fetchResult option \<Rightarrow> time \<Rightarrow> (resolve_error + Lookup) \<times> Resolver" where
  "Resolver_Resolve order r now hash outcome now' =
     (case resolve_begin r now hash of
        Inl ans \<Rightarrow> (ans, r)
      | Inr (gen, grace, timeout) \<Rightarrow>
          (case outcome of
             None \<Rightarrow> (staleOrUnavailable r now' hash gen grace, r)
           | Some res \<Rightarrow> storeFetch order r now' now' hash gen grace res))"

section \<open>Lemmas: maps\<close>

definition entries_ok :: "Resolver \<Rightarrow> bool" where
  "entries_ok r \<longleftrightarrow> distinct (map fst (rv_cache r)) \<and> distinct (map fst (rv_unknown r)) \<and>
     fst ` set (rv_cache r) \<inter> fst ` set (rv_unknown r) = {} \<and>
     (\<forall>(h, e) \<in> set (rv_cache r). \<not> ce_unknown e) \<and> (\<forall>(h, e) \<in> set (rv_unknown r). ce_unknown e)"

lemma length_delete_le: "length (AList.delete h m) \<le> length m"
  by (simp add: AList.delete_eq)

lemma set_delete: "set (AList.delete h m) = {p \<in> set m. fst p \<noteq> h}"
  by (auto simp: AList.delete_eq)

lemma set_visit [simp]: "set (visit order keys) = set keys"
  by (auto simp: visit_def)

lemma evict_subset: "set (evict limit hs m) \<subseteq> set m"
  by (induction limit hs m rule: evict.induct) (auto simp: set_delete)

lemma evict_distinct: "distinct (map fst m) \<Longrightarrow> distinct (map fst (evict limit hs m))"
  by (induction limit hs m rule: evict.induct) (auto simp: distinct_delete)

lemma evict_map_of: "map_of (evict limit hs m) h = Some e \<Longrightarrow> map_of m h = Some e"
  by (induction limit hs m rule: evict.induct) (auto simp: delete_conv split: if_splits)

lemma evict_below:
  "1 \<le> limit \<Longrightarrow> fst ` set m \<subseteq> set hs \<Longrightarrow> int (length (evict limit hs m)) < limit"
proof (induction limit hs m rule: evict.induct)
  case (2 limit h hs m)
  show ?case
  proof (cases "int (length m) < limit")
    case False
    have "fst ` set (AList.delete h m) \<subseteq> set hs" using 2(3) by (auto simp: set_delete)
    then show ?thesis using 2 False by simp
  qed simp
qed simp

lemma makeRoom_subset: "set (makeRoomLocked order r m limit now) \<subseteq> set m"
  unfolding makeRoomLocked_def Let_def by (auto dest: subsetD [OF evict_subset])

lemma makeRoom_distinct:
  "distinct (map fst m) \<Longrightarrow> distinct (map fst (makeRoomLocked order r m limit now))"
  unfolding makeRoomLocked_def Let_def by (simp add: evict_distinct distinct_map_filter)

lemma makeRoom_below: "1 \<le> limit \<Longrightarrow> int (length (makeRoomLocked order r m limit now)) < limit"
  unfolding makeRoomLocked_def Let_def by (simp add: evict_below)

lemma makeRoom_noop: "int (length m) < limit \<Longrightarrow> makeRoomLocked order r m limit now = m"
  by (simp add: makeRoomLocked_def)

lemma map_of_sub: "distinct (map fst m) \<Longrightarrow> set m' \<subseteq> set m \<Longrightarrow> map_of m' h = Some e \<Longrightarrow> map_of m h = Some e"
  by (meson map_of_SomeD map_of_is_SomeI subsetD)

lemma length_update_le: "length (AList.update k v m) \<le> Suc (length m)"
  by (induction m) auto

section \<open>Lemmas: the operations keep the maps apart\<close>

lemma entries_ok_New: "entries_ok (NewResolver ttl)"
  by (simp add: entries_ok_def NewResolver_def)

lemma entries_ok_Set [simp]:
  "entries_ok (SetStaleGrace r d) = entries_ok r" "entries_ok (SetLookupTimeout r d) = entries_ok r"
  "entries_ok (SetMaxEntries r n) = entries_ok r" "entries_ok (SetMaxUnknown r n) = entries_ok r"
  by (simp_all add: entries_ok_def SetStaleGrace_def SetLookupTimeout_def SetMaxEntries_def SetMaxUnknown_def)

lemma set_update: "distinct (map fst m) \<Longrightarrow> set (AList.update k v m) = insert (k, v) {p \<in> set m. fst p \<noteq> k}"
  by (induction m) force+

lemma entries_ok_store: "entries_ok r \<Longrightarrow> entries_ok (store_entry order r now hash e)"
proof -
  assume ok: "entries_ok r"
  show ?thesis
  proof (cases "ce_unknown e")
    case True
    define m where "m = makeRoomLocked order (r\<lparr>rv_cache := AList.delete hash (rv_cache r)\<rparr>) (rv_unknown r) (rv_max_unknown r) now"
    have m: "distinct (map fst m)" "set m \<subseteq> set (rv_unknown r)"
      unfolding m_def using ok by (simp_all add: entries_ok_def makeRoom_distinct makeRoom_subset)
    have s: "store_entry order r now hash e =
        r\<lparr>rv_cache := AList.delete hash (rv_cache r), rv_unknown := AList.update hash e m\<rparr>"
      using True by (simp add: store_entry_def m_def Let_def)
    show ?thesis using ok m True unfolding s
      by (auto simp: entries_ok_def set_delete set_update distinct_delete distinct_update)
  next
    case False
    define m where "m = makeRoomLocked order (r\<lparr>rv_unknown := AList.delete hash (rv_unknown r)\<rparr>) (rv_cache r) (rv_max_entries r) now"
    have m: "distinct (map fst m)" "set m \<subseteq> set (rv_cache r)"
      unfolding m_def using ok by (simp_all add: entries_ok_def makeRoom_distinct makeRoom_subset)
    have s: "store_entry order r now hash e =
        r\<lparr>rv_unknown := AList.delete hash (rv_unknown r), rv_cache := AList.update hash e m\<rparr>"
      using False by (simp add: store_entry_def m_def Let_def)
    show ?thesis using ok m False unfolding s
      by (auto simp: entries_ok_def set_delete set_update distinct_delete distinct_update)
  qed
qed

lemma entries_ok_storeFetch: "entries_ok r \<Longrightarrow> entries_ok (snd (storeFetch order r now now' hash gen grace res))"
  by (simp add: storeFetch_def entries_ok_store split: option.splits)

lemma entries_ok_Invalidate: "entries_ok r \<Longrightarrow> entries_ok (Invalidate r hash)"
  by (auto simp: entries_ok_def Invalidate_def Let_def set_delete distinct_delete)

subsection \<open>What an entry for a hash is after an operation\<close>

lemma entryLocked_unknown:
  assumes ok: "entries_ok r" and e: "entryLocked r h = Some e"
  shows "ce_unknown e \<longleftrightarrow> h \<in> fst ` set (rv_unknown r)"
proof (cases "map_of (rv_cache r) h")
  case None
  then have "(h, e) \<in> set (rv_unknown r)" using e by (simp add: entryLocked_def map_of_SomeD)
  then show ?thesis using ok by (force simp: entries_ok_def)
next
  case (Some e')
  then have "(h, e) \<in> set (rv_cache r)" using e by (auto simp: entryLocked_def dest: map_of_SomeD)
  then show ?thesis using ok by (force simp: entries_ok_def)
qed

lemma entryLocked_Invalidate:
  "entryLocked (Invalidate r hash) h = (if hash = [] \<or> h = hash then None else entryLocked r h)"
  by (simp add: entryLocked_def Invalidate_def Let_def delete_conv split: option.splits)

lemma generation_store [simp]: "rv_generation (store_entry order r now hash e) = rv_generation r"
  by (simp add: store_entry_def Let_def)

lemma generation_Invalidate [simp]: "rv_generation (Invalidate r hash) = rv_generation r + 1"
  by (simp add: Invalidate_def Let_def)

lemma entryLocked_store_same:
  "entries_ok r \<Longrightarrow> entryLocked (store_entry order r now hash e) hash = Some e"
  by (simp add: entryLocked_def store_entry_def Let_def update_conv delete_conv)

lemma entryLocked_store_other:
  assumes ok: "entries_ok r" and "h \<noteq> hash" and e': "entryLocked (store_entry order r now hash e) h = Some e'"
  shows "entryLocked r h = Some e'"
proof -
  have keep: "map_of (makeRoomLocked order r1 m limit now) h = Some x \<Longrightarrow> map_of m h = Some x"
    if "distinct (map fst m)" for r1 m limit x
    using map_of_sub [OF that makeRoom_subset] by blast
  have d: "distinct (map fst (rv_cache r))" "distinct (map fst (rv_unknown r))"
    using ok by (simp_all add: entries_ok_def)
  have one: "map_of (rv_cache r) h = None" if "map_of (rv_unknown r) h = Some x" for x
  proof -
    have "h \<in> fst ` set (rv_unknown r)" using that by (metis dom_map_of_conv_image_fst domI)
    then have "h \<notin> fst ` set (rv_cache r)" using ok by (auto simp: entries_ok_def)
    then show ?thesis by (simp add: map_of_eq_None_iff)
  qed
  show ?thesis
  proof (cases "ce_unknown e")
    case True
    then show ?thesis using e' \<open>h \<noteq> hash\<close> keep [OF d(2)] one
      by (auto simp: entryLocked_def store_entry_def Let_def update_conv delete_conv split: option.splits)
  next
    case False
    then show ?thesis using e' \<open>h \<noteq> hash\<close> keep [OF d(1)] one
      by (fastforce simp: entryLocked_def store_entry_def Let_def update_conv delete_conv split: option.splits)
  qed
qed

lemma flight_key_inject: "flight_key g h = flight_key g' h' \<Longrightarrow> g = g' \<and> h = h'"
proof -
  assume eq: "flight_key g h = flight_key g' h'"
  have nc: "CHR '':'' \<notin> set (nat_digits n)" for n
  proof -
    have "\<not> is_digit (CHR '':'')" by (simp add: is_digit_def)
    then show ?thesis using nat_digits_all_digit [of n] by (auto simp: list_all_iff)
  qed
  have "cut CHR '':'' (flight_key g h) = (nat_digits (unat g), h, True)"
    "cut CHR '':'' (flight_key g' h') = (nat_digits (unat g'), h', True)"
    using nc by (simp_all add: flight_key_def cut_found)
  then have "nat_digits (unat g) = nat_digits (unat g')" "h = h'" using eq by simp_all
  then show ?thesis using nat_digits_inject word_unat_eq_iff by blast
qed

lemma limit_update: "int (length m) < limit \<Longrightarrow> int (length (AList.update k v m)) \<le> limit"
  using length_update_le [of k v m] by linarith

section \<open>Properties\<close>

text \<open>
  Forged keys cannot push out real ones, and the cache stays bounded. Storing what a fetch
  found writes only the map the answer belongs to, keeps it within its limit whatever order the
  map is visited in, and of the other map drops at most the entry of the same hash; the stored
  hash then answers with what was fetched, and no other hash gains or changes an entry.
\<close>

theorem store_entry_bounded:
  assumes ok: "entries_ok r" and lim: "1 \<le> rv_max_entries r" "1 \<le> rv_max_unknown r"
  shows "let r' = store_entry order r now hash e in
    entries_ok r' \<and> entryLocked r' hash = Some e \<and>
    (\<forall>h e'. h \<noteq> hash \<longrightarrow> entryLocked r' h = Some e' \<longrightarrow> entryLocked r h = Some e') \<and>
    (if ce_unknown e
     then rv_cache r' = AList.delete hash (rv_cache r) \<and> int (length (rv_unknown r')) \<le> rv_max_unknown r
     else rv_unknown r' = AList.delete hash (rv_unknown r) \<and> int (length (rv_cache r')) \<le> rv_max_entries r)"
  unfolding Let_def
proof (intro conjI)
  show "if ce_unknown e
     then rv_cache (store_entry order r now hash e) = AList.delete hash (rv_cache r) \<and>
       int (length (rv_unknown (store_entry order r now hash e))) \<le> rv_max_unknown r
     else rv_unknown (store_entry order r now hash e) = AList.delete hash (rv_unknown r) \<and>
       int (length (rv_cache (store_entry order r now hash e))) \<le> rv_max_entries r"
    using lim by (simp add: store_entry_def Let_def makeRoom_below limit_update)
qed (use ok entries_ok_store entryLocked_store_same entryLocked_store_other in blast)+

definition full_resolver :: Resolver where
  "full_resolver =
     (NewResolver minute)\<lparr>rv_max_entries := 1,
       rv_cache := [(''a'', \<lparr>ce_lookup = empty_lookup, ce_unknown = False, ce_fetched = 0\<rparr>)]\<rparr>"

theorem store_entry_bounded_witness:
  "entryLocked (store_entry [] full_resolver 5 ''b'' \<lparr>ce_lookup = empty_lookup, ce_unknown = True, ce_fetched = 5\<rparr>) ''b'' \<noteq> None \<and>
   rv_cache (store_entry [] full_resolver 5 ''b'' \<lparr>ce_lookup = empty_lookup, ce_unknown = True, ce_fetched = 5\<rparr>) =
     rv_cache full_resolver"
proof -
  have "entries_ok full_resolver" "1 \<le> rv_max_entries full_resolver" "1 \<le> rv_max_unknown full_resolver"
    by (simp_all add: full_resolver_def NewResolver_def entries_ok_def DefaultMaxUnknown_def)
  from store_entry_bounded [OF this, of "[]" 5 "''b''" "\<lparr>ce_lookup = empty_lookup, ce_unknown = True, ce_fetched = 5\<rparr>"]
  show ?thesis by (simp add: Let_def full_resolver_def)
qed

text \<open>
  An invalidation that lands during a fetch wins. After \<open>Invalidate\<close> the hash is a miss, and
  a call that began before it neither stores its fetch nor is served a stale entry when its fetch
  fails; with no invalidation in between, a stale entry is served only up to the ttl plus the
  grace after it was fetched, and a fresh one only within the ttl.
\<close>

theorem Invalidate_wins:
  assumes gen: "resolve_begin r now hash = Inr (gen, grace, timeout)"
  shows "entryLocked (Invalidate r hash) hash = None \<and>
    (\<forall>order t t' res. snd (storeFetch order (Invalidate r hash') t t' hash gen grace res) = Invalidate r hash') \<and>
    (\<forall>t. staleOrUnavailable (Invalidate r hash') t hash gen grace = Inl ErrUnavailable) \<and>
    (\<forall>t lk. staleOrUnavailable r t hash gen grace = Inr lk \<longrightarrow>
       (\<exists>e. entryLocked r hash = Some e \<and> t - ce_fetched e \<le> rv_ttl r + grace \<and> ce_lookup e = lk)) \<and>
    (\<forall>t ans. resolve_begin r t hash = Inl ans \<longrightarrow>
       (\<exists>e. entryLocked r hash = Some e \<and> t - ce_fetched e < rv_ttl r \<and> ans = entry_result e))"
proof -
  have g: "gen = rv_generation r" using gen by (auto simp: resolve_begin_def split: option.splits if_splits)
  have "rv_generation r + 1 \<noteq> rv_generation r" by simp
  then have st: "staleOrUnavailable (Invalidate r hash') t hash gen grace = Inl ErrUnavailable" for t
    by (simp add: staleOrUnavailable_def g)
  have "snd (storeFetch order (Invalidate r hash') t t' hash gen grace res) = Invalidate r hash'" for order t t' res
    by (simp add: storeFetch_def g split: option.splits)
  moreover have "\<exists>e. entryLocked r hash = Some e \<and> t - ce_fetched e \<le> rv_ttl r + grace \<and> ce_lookup e = lk"
    if "staleOrUnavailable r t hash gen grace = Inr lk" for t lk
    using that by (auto simp: staleOrUnavailable_def entry_result_def split: option.splits if_splits)
  moreover have "\<exists>e. entryLocked r hash = Some e \<and> t - ce_fetched e < rv_ttl r \<and> ans = entry_result e"
    if "resolve_begin r t hash = Inl ans" for t ans
    using that by (auto simp: resolve_begin_def split: option.splits if_splits)
  ultimately show ?thesis using st by (simp add: entryLocked_Invalidate)
qed

theorem Invalidate_wins_witness:
  "resolve_begin (NewResolver minute) 0 ''k'' = Inr (0, DefaultStaleGrace, DefaultLookupTimeout) \<and>
   staleOrUnavailable (Invalidate (NewResolver minute) ''k'') 9 ''k'' 0 DefaultStaleGrace = Inl ErrUnavailable"
proof -
  have b: "resolve_begin (NewResolver minute) 0 ''k'' = Inr (0, DefaultStaleGrace, DefaultLookupTimeout)"
    by (simp add: resolve_begin_def NewResolver_def entryLocked_def)
  from Invalidate_wins [OF b, of "''k''"] b show ?thesis by blast
qed

end
