(* ===== verification/Resolver_System.thy ===== *)
theory Resolver_System
  imports Resolver
begin

text \<open>
  The resolver under concurrency (\<open>Resolve\<close>, \<open>storeFetch\<close>, \<open>staleOrUnavailable\<close> and \<open>Invalidate\<close> of
  \<open>src/gateway/resolver.go\<close>): any number of callers, each between its critical sections, the
  fetches they wait for, and a store that changes under them. The epoch counts the
  invalidations; \<open>sy_seen n h\<close> records every answer the store has had for \<open>h\<close> since invalidation
  number \<open>n\<close>, and \<open>sy_last_inv h\<close> the number of the last one that dropped \<open>h\<close>. None of the
  three is read by the code; they say what an answer is to be compared with.
\<close>

record flight =
  fl_key :: string
  fl_hash :: string
  fl_epoch :: nat
  fl_result :: "fetchResult option"

record call =
  cl_hash :: string
  cl_gen :: "64 word"
  cl_grace :: duration
  cl_flight :: "nat option"
  cl_epoch :: nat
  cl_since :: nat

record rsys =
  sy_clock :: time
  sy_res :: Resolver
  sy_store :: "string \<Rightarrow> Lookup option"
  sy_flights :: "flight list"
  sy_calls :: "call list"
  sy_epoch :: nat
  sy_seen :: "nat \<Rightarrow> string \<Rightarrow> Lookup option set"
  sy_last_inv :: "string \<Rightarrow> nat"
  sy_answers :: "(string \<times> nat \<times> (resolve_error + Lookup)) list"

definition store_result :: "Lookup option \<Rightarrow> fetchResult" where
  "store_result v = (case v of Some lk \<Rightarrow> Inr lk | None \<Rightarrow> Inl ErrNotFound)"

definition answer_of :: "Lookup option \<Rightarrow> resolve_error + Lookup" where
  "answer_of v = (case v of Some lk \<Rightarrow> Inr lk | None \<Rightarrow> Inl ErrUnknownKey)"

definition rsys_init :: "rsys \<Rightarrow> bool" where
  "rsys_init s \<longleftrightarrow> (\<exists>ttl. sy_res s = NewResolver ttl) \<and> sy_flights s = [] \<and> sy_calls s = [] \<and>
     sy_epoch s = 0 \<and> (\<forall>h. sy_seen s 0 h = {sy_store s h}) \<and> (\<forall>h. sy_last_inv s h = 0) \<and> sy_answers s = []"

definition note_change :: "rsys \<Rightarrow> string \<Rightarrow> Lookup option \<Rightarrow> rsys" where
  "note_change s h v =
     s\<lparr>sy_store := (sy_store s)(h := v),
       sy_seen := (\<lambda>n h'. if h' = h \<and> n \<le> sy_epoch s then insert v (sy_seen s n h') else sy_seen s n h')\<rparr>"

definition do_invalidate :: "rsys \<Rightarrow> string \<Rightarrow> rsys" where
  "do_invalidate s h =
     s\<lparr>sy_res := Invalidate (sy_res s) h, sy_epoch := Suc (sy_epoch s),
       sy_last_inv := (\<lambda>h'. if h = [] \<or> h' = h then Suc (sy_epoch s) else sy_last_inv s h'),
       sy_seen := (sy_seen s)(Suc (sy_epoch s) := (\<lambda>h'. {sy_store s h'}))\<rparr>"

definition drop_nth :: "nat \<Rightarrow> 'a list \<Rightarrow> 'a list" where
  "drop_nth i xs = take i xs @ drop (Suc i) xs"

inductive rstep :: "rsys \<Rightarrow> rsys \<Rightarrow> bool" where
  tick: "0 \<le> d \<Longrightarrow> rstep s (s\<lparr>sy_clock := sy_clock s + d\<rparr>)"
| change: "rstep s (note_change s h v)"
| invalidate: "rstep s (do_invalidate s h)"
| set_grace: "rstep s (s\<lparr>sy_res := SetStaleGrace (sy_res s) d\<rparr>)"
| set_timeout: "rstep s (s\<lparr>sy_res := SetLookupTimeout (sy_res s) d\<rparr>)"
| set_max: "rstep s (s\<lparr>sy_res := SetMaxEntries (sy_res s) m\<rparr>)"
| set_max_unknown: "rstep s (s\<lparr>sy_res := SetMaxUnknown (sy_res s) m\<rparr>)"
| hit: "resolve_begin (sy_res s) (sy_clock s) h = Inl ans \<Longrightarrow>
    rstep s (s\<lparr>sy_answers := (h, sy_last_inv s h, ans) # sy_answers s\<rparr>)"
| miss: "resolve_begin (sy_res s) (sy_clock s) h = Inr (gen, grace, timeout) \<Longrightarrow>
    rstep s (s\<lparr>sy_calls := \<lparr>cl_hash = h, cl_gen = gen, cl_grace = grace, cl_flight = None,
      cl_epoch = sy_epoch s, cl_since = sy_last_inv s h\<rparr> # sy_calls s\<rparr>)"
| start: "i < length (sy_calls s) \<Longrightarrow> c = sy_calls s ! i \<Longrightarrow> cl_flight c = None \<Longrightarrow>
    rstep s (s\<lparr>sy_flights := sy_flights s @ [\<lparr>fl_key = flight_key (cl_gen c) (cl_hash c), fl_hash = cl_hash c,
        fl_epoch = cl_epoch c, fl_result = None\<rparr>],
      sy_calls := (sy_calls s)[i := c\<lparr>cl_flight := Some (length (sy_flights s))\<rparr>]\<rparr>)"
| join_flight: "i < length (sy_calls s) \<Longrightarrow> c = sy_calls s ! i \<Longrightarrow> cl_flight c = None \<Longrightarrow>
    j < length (sy_flights s) \<Longrightarrow> fl_key (sy_flights s ! j) = flight_key (cl_gen c) (cl_hash c) \<Longrightarrow>
    fl_result (sy_flights s ! j) = None \<Longrightarrow>
    rstep s (s\<lparr>sy_calls := (sy_calls s)[i := c\<lparr>cl_flight := Some j\<rparr>]\<rparr>)"
| read: "j < length (sy_flights s) \<Longrightarrow> f = sy_flights s ! j \<Longrightarrow> fl_result f = None \<Longrightarrow>
    res = store_result (sy_store s (fl_hash f)) \<or> (\<exists>err. res = Inl err \<and> err \<noteq> ErrNotFound) \<Longrightarrow>
    rstep s (s\<lparr>sy_flights := (sy_flights s)[j := f\<lparr>fl_result := Some res\<rparr>]\<rparr>)"
| deliver: "i < length (sy_calls s) \<Longrightarrow> c = sy_calls s ! i \<Longrightarrow> cl_flight c = Some j \<Longrightarrow>
    fl_result (sy_flights s ! j) = Some res \<Longrightarrow> sy_clock s \<le> now' \<Longrightarrow>
    storeFetch order (sy_res s) (sy_clock s) now' (cl_hash c) (cl_gen c) (cl_grace c) res = (ans, r') \<Longrightarrow>
    rstep s (s\<lparr>sy_res := r', sy_calls := drop_nth i (sy_calls s),
      sy_answers := (cl_hash c, cl_since c, ans) # sy_answers s\<rparr>)"
| expire: "i < length (sy_calls s) \<Longrightarrow> c = sy_calls s ! i \<Longrightarrow>
    ans = staleOrUnavailable (sy_res s) (sy_clock s) (cl_hash c) (cl_gen c) (cl_grace c) \<Longrightarrow>
    rstep s (s\<lparr>sy_calls := drop_nth i (sy_calls s),
      sy_answers := (cl_hash c, cl_since c, ans) # sy_answers s\<rparr>)"

inductive_cases rstepE: "rstep s t"

section \<open>The invariant\<close>

definition entry_value :: "cacheEntry \<Rightarrow> Lookup option" where
  "entry_value e = (if ce_unknown e then None else Some (ce_lookup e))"

lemma entry_result_answer: "entry_result e = answer_of (entry_value e)"
  by (simp add: entry_result_def answer_of_def entry_value_def)

definition answer_ok :: "rsys \<Rightarrow> string \<times> nat \<times> (resolve_error + Lookup) \<Rightarrow> bool" where
  "answer_ok s a \<longleftrightarrow> (case a of (h, since, ans) \<Rightarrow>
     since \<le> sy_epoch s \<and> (ans = Inl ErrUnavailable \<or> (\<exists>v \<in> sy_seen s since h. ans = answer_of v)))"

definition flight_ok :: "rsys \<Rightarrow> flight \<Rightarrow> bool" where
  "flight_ok s f \<longleftrightarrow> fl_epoch f \<le> sy_epoch s \<and> fl_key f = flight_key (of_nat (fl_epoch f)) (fl_hash f) \<and>
     (\<forall>v. fl_result f = Some (store_result v) \<longrightarrow> v \<in> sy_seen s (fl_epoch f) (fl_hash f))"

definition call_ok :: "rsys \<Rightarrow> call \<Rightarrow> bool" where
  "call_ok s c \<longleftrightarrow> cl_epoch c \<le> sy_epoch s \<and> cl_gen c = of_nat (cl_epoch c) \<and> cl_since c \<le> cl_epoch c \<and>
     cl_since c \<le> sy_last_inv s (cl_hash c) \<and>
     (\<forall>j. cl_flight c = Some j \<longrightarrow> j < length (sy_flights s) \<and>
        fl_key (sy_flights s ! j) = flight_key (cl_gen c) (cl_hash c))"

definition cache_ok :: "rsys \<Rightarrow> bool" where
  "cache_ok s \<longleftrightarrow> (\<forall>h e. entryLocked (sy_res s) h = Some e \<longrightarrow> entry_value e \<in> sy_seen s (sy_last_inv s h) h)"

definition ghost_ok :: "rsys \<Rightarrow> bool" where
  "ghost_ok s \<longleftrightarrow> entries_ok (sy_res s) \<and> rv_generation (sy_res s) = of_nat (sy_epoch s) \<and>
     (\<forall>h. sy_last_inv s h \<le> sy_epoch s) \<and> (\<forall>n h. n \<le> sy_epoch s \<longrightarrow> sy_store s h \<in> sy_seen s n h) \<and>
     (\<forall>m n h. n \<le> m \<and> m \<le> sy_epoch s \<longrightarrow> sy_seen s m h \<subseteq> sy_seen s n h)"

definition rgood :: "rsys \<Rightarrow> bool" where
  "rgood s \<longleftrightarrow>
     ghost_ok s \<and> cache_ok s \<and> (\<forall>f \<in> set (sy_flights s). flight_ok s f) \<and>
     (\<forall>c \<in> set (sy_calls s). call_ok s c) \<and> (\<forall>a \<in> set (sy_answers s). answer_ok s a)"

text \<open>The generation is 64 bits wide: the invariant stands until it has wrapped around.\<close>

definition rinv :: "rsys \<Rightarrow> bool" where
  "rinv s \<longleftrightarrow> sy_epoch s < 2 ^ 64 \<longrightarrow> rgood s"

lemma of_nat_64_inject: "m < 2 ^ 64 \<Longrightarrow> n < 2 ^ 64 \<Longrightarrow> (of_nat m :: 64 word) = of_nat n \<Longrightarrow> m = n"
  by (simp add: word_of_nat_eq_iff take_bit_nat_eq_self_iff take_bit_nat_eq_self)

subsection \<open>What time and change leave true\<close>

definition grows :: "rsys \<Rightarrow> rsys \<Rightarrow> bool" where
  "grows s t \<longleftrightarrow> sy_epoch s \<le> sy_epoch t \<and> (\<forall>n h. n \<le> sy_epoch s \<longrightarrow> sy_seen s n h \<subseteq> sy_seen t n h)"

lemma grows_refl: "sy_epoch t = sy_epoch s \<Longrightarrow> sy_seen t = sy_seen s \<Longrightarrow> grows s t"
  by (simp add: grows_def)

lemma answer_ok_grows: "answer_ok s a \<Longrightarrow> grows s t \<Longrightarrow> answer_ok t a"
  by (auto simp: answer_ok_def grows_def)

lemma flight_ok_grows: "flight_ok s f \<Longrightarrow> grows s t \<Longrightarrow> flight_ok t f"
  by (auto simp: flight_ok_def grows_def)

lemma call_ok_grows:
  "call_ok s c \<Longrightarrow> grows s t \<Longrightarrow> sy_flights t = sy_flights s \<Longrightarrow>
     sy_last_inv s (cl_hash c) \<le> sy_last_inv t (cl_hash c) \<Longrightarrow> call_ok t c"
  by (auto simp: call_ok_def grows_def)

lemma grows_change: "grows s (note_change s h v)"
  by (auto simp: grows_def note_change_def)

lemma grows_invalidate: "grows s (do_invalidate s h)"
  by (auto simp: grows_def do_invalidate_def)

lemma rgood_same:
  assumes "rgood s" "sy_epoch t = sy_epoch s" "sy_seen t = sy_seen s" "sy_last_inv t = sy_last_inv s"
    "sy_flights t = sy_flights s" "ghost_ok t" "cache_ok t"
    "\<And>c. c \<in> set (sy_calls t) \<Longrightarrow> c \<in> set (sy_calls s) \<or> call_ok t c"
    "\<And>a. a \<in> set (sy_answers t) \<Longrightarrow> a \<in> set (sy_answers s) \<or> answer_ok t a"
  shows "rgood t"
proof -
  have g: "grows s t" using assms(2,3) by (rule grows_refl)
  show ?thesis unfolding rgood_def
  proof (intro conjI ballI)
    fix f assume "f \<in> set (sy_flights t)"
    then show "flight_ok t f" using assms(1,5) flight_ok_grows [OF _ g] by (simp add: rgood_def)
  next
    fix c assume "c \<in> set (sy_calls t)"
    then show "call_ok t c" using assms(1,4,5,8) call_ok_grows [OF _ g assms(5)] by (auto simp: rgood_def)
  next
    fix a assume "a \<in> set (sy_answers t)"
    from assms(9) [OF this] show "answer_ok t a"
      using assms(1) answer_ok_grows [OF _ g] unfolding rgood_def by blast
  qed (use assms in simp_all)
qed

lemma seen_last_inv: "ghost_ok s \<Longrightarrow> n \<le> sy_last_inv s h \<Longrightarrow> sy_seen s (sy_last_inv s h) h \<subseteq> sy_seen s n h"
  unfolding ghost_ok_def by blast

lemma rgood_ghost: "rgood s \<Longrightarrow> ghost_ok s"
  by (simp add: rgood_def)

lemma seen_mono: "ghost_ok s \<Longrightarrow> n \<le> m \<Longrightarrow> m \<le> sy_epoch s \<Longrightarrow> v \<in> sy_seen s m h \<Longrightarrow> v \<in> sy_seen s n h"
  unfolding ghost_ok_def by blast

lemma last_inv_le: "ghost_ok s \<Longrightarrow> sy_last_inv s h \<le> sy_epoch s"
  by (simp add: ghost_ok_def)

lemma rgood_change: "rgood s \<Longrightarrow> rgood (note_change s h v)"
proof -
  assume s: "rgood s"
  let ?t = "note_change s h v"
  have g: "grows s ?t" by (rule grows_change)
  have f: "sy_flights ?t = sy_flights s" "sy_calls ?t = sy_calls s" "sy_answers ?t = sy_answers s"
    "sy_last_inv ?t = sy_last_inv s" "sy_res ?t = sy_res s" by (simp_all add: note_change_def)
  have mono: "sy_seen s m h' \<subseteq> sy_seen s n h'" if "n \<le> m" "m \<le> sy_epoch s" for m n h'
    using s that by (simp add: rgood_def ghost_ok_def)
  have "sy_seen ?t m h' \<subseteq> sy_seen ?t n h'" if "n \<le> m" "m \<le> sy_epoch s" for m n h'
    using mono [OF that] that by (auto simp: note_change_def)
  then have "ghost_ok ?t" using s by (simp add: rgood_def ghost_ok_def) (simp add: note_change_def)
  moreover have "cache_ok ?t" using s by (auto simp: rgood_def ghost_ok_def cache_ok_def note_change_def)
  ultimately show ?thesis
    using s f g by (auto simp: rgood_def intro: flight_ok_grows call_ok_grows answer_ok_grows)
qed

lemma rgood_invalidate: "rgood s \<Longrightarrow> rgood (do_invalidate s h)"
proof -
  assume s: "rgood s"
  let ?t = "do_invalidate s h"
  have g: "grows s ?t" by (rule grows_invalidate)
  have f: "sy_flights ?t = sy_flights s" "sy_calls ?t = sy_calls s" "sy_answers ?t = sy_answers s"
    by (simp_all add: do_invalidate_def)
  have li: "sy_last_inv s h' \<le> sy_last_inv ?t h'" for h'
    using s by (auto simp: rgood_def ghost_ok_def do_invalidate_def intro: le_SucI)
  have "ghost_ok ?t" unfolding ghost_ok_def
  proof (intro conjI allI impI)
    show "entries_ok (sy_res ?t)" using s by (simp add: rgood_def ghost_ok_def do_invalidate_def entries_ok_Invalidate)
    show "rv_generation (sy_res ?t) = of_nat (sy_epoch ?t)"
      using s by (simp add: rgood_def ghost_ok_def do_invalidate_def)
    fix h' show "sy_last_inv ?t h' \<le> sy_epoch ?t"
      using s by (auto simp: rgood_def ghost_ok_def do_invalidate_def intro: le_SucI)
  next
    fix n h' assume "n \<le> sy_epoch ?t"
    then show "sy_store ?t h' \<in> sy_seen ?t n h'"
      using s by (cases "n = Suc (sy_epoch s)") (auto simp: rgood_def ghost_ok_def do_invalidate_def)
  next
    fix m n h' assume "n \<le> m \<and> m \<le> sy_epoch ?t"
    then show "sy_seen ?t m h' \<subseteq> sy_seen ?t n h'"
      using s by (cases "m = Suc (sy_epoch s)"; cases "n = Suc (sy_epoch s)")
        (auto simp: rgood_def ghost_ok_def do_invalidate_def)
  qed
  moreover have "cache_ok ?t" unfolding cache_ok_def
  proof (intro allI impI)
    fix h' e assume "entryLocked (sy_res ?t) h' = Some e"
    then have h': "\<not> (h = [] \<or> h' = h)" and e: "entryLocked (sy_res s) h' = Some e"
      by (auto simp: do_invalidate_def entryLocked_Invalidate split: if_splits)
    have "entry_value e \<in> sy_seen s (sy_last_inv s h') h'" "sy_last_inv s h' \<le> sy_epoch s"
      using s e by (auto simp: rgood_def cache_ok_def ghost_ok_def)
    then show "entry_value e \<in> sy_seen ?t (sy_last_inv ?t h') h'"
      using h' by (auto simp: do_invalidate_def)
  qed
  ultimately show ?thesis
    using s f g li by (auto simp: rgood_def intro: flight_ok_grows call_ok_grows answer_ok_grows)
qed

subsection \<open>What a call is answered\<close>

lemma entry_answer_ok:
  assumes "rgood s" "entryLocked (sy_res s) h = Some e" "n \<le> sy_last_inv s h"
  shows "answer_ok s (h, n, entry_result e)"
proof -
  have "entry_value e \<in> sy_seen s (sy_last_inv s h) h" using assms by (simp add: rgood_def cache_ok_def)
  then have "entry_value e \<in> sy_seen s n h" using seen_last_inv assms by (auto simp: rgood_def)
  moreover have "sy_last_inv s h \<le> sy_epoch s" using assms(1) by (simp add: rgood_def ghost_ok_def)
  then have "n \<le> sy_epoch s" using assms(3) by (rule le_trans [rotated])
  ultimately show ?thesis by (auto simp: answer_ok_def entry_result_answer)
qed

lemma stale_answer_ok:
  assumes s: "rgood s" and c: "call_ok s c"
  shows "answer_ok s (cl_hash c, cl_since c, staleOrUnavailable (sy_res s) now (cl_hash c) (cl_gen c) (cl_grace c))"
proof -
  have "cl_since c \<le> sy_epoch s" "cl_since c \<le> sy_last_inv s (cl_hash c)"
    using c by (auto simp: call_ok_def)
  then show ?thesis using entry_answer_ok [OF s]
    by (auto simp: staleOrUnavailable_def answer_ok_def split: option.splits)
qed

text \<open>A fetch made in the epoch of the call reflects the store of that epoch or a later one.\<close>

lemma flight_value_seen:
  assumes s: "rgood s" and b: "sy_epoch s < 2 ^ 64" and c: "call_ok s c" and j: "cl_flight c = Some j"
    and r: "fl_result (sy_flights s ! j) = Some (store_result v)"
  shows "v \<in> sy_seen s (cl_epoch c) (cl_hash c)"
proof -
  define f where "f = sy_flights s ! j"
  have jl: "j < length (sy_flights s)" and k: "fl_key f = flight_key (cl_gen c) (cl_hash c)"
    using c j by (auto simp: call_ok_def f_def)
  then have f: "flight_ok s f" using s by (simp add: rgood_def f_def)
  then have "flight_key (of_nat (fl_epoch f)) (fl_hash f) = flight_key (of_nat (cl_epoch c)) (cl_hash c)"
    using k c by (simp add: flight_ok_def call_ok_def)
  then have "(of_nat (fl_epoch f) :: 64 word) = of_nat (cl_epoch c)" and h: "fl_hash f = cl_hash c"
    using flight_key_inject by blast+
  moreover have "fl_epoch f < 2 ^ 64" "cl_epoch c < 2 ^ 64"
    using f c b by (auto simp: flight_ok_def call_ok_def)
  ultimately have "fl_epoch f = cl_epoch c" using of_nat_64_inject by blast
  then show ?thesis using f r h by (auto simp: flight_ok_def f_def)
qed

lemma fetch_entry_Some:
  "fetch_entry res now = Some e \<Longrightarrow> res = store_result (entry_value e)"
  by (auto simp: fetch_entry_def store_result_def entry_value_def split: sum.splits if_splits)

lemma deliver_answer_ok:
  assumes s: "rgood s" and b: "sy_epoch s < 2 ^ 64" and c: "call_ok s c" and j: "cl_flight c = Some j"
    and r: "fl_result (sy_flights s ! j) = Some res"
    and sf: "storeFetch order (sy_res s) now now' (cl_hash c) (cl_gen c) (cl_grace c) res = (ans, r')"
  shows "answer_ok s (cl_hash c, cl_since c, ans)"
proof (cases "fetch_entry res now")
  case None
  then show ?thesis using sf stale_answer_ok [OF s c] by (auto simp: storeFetch_def)
next
  case (Some e)
  then have "entry_value e \<in> sy_seen s (cl_epoch c) (cl_hash c)"
    using flight_value_seen [OF s b c j] r fetch_entry_Some by simp
  moreover have "cl_since c \<le> cl_epoch c" "cl_epoch c \<le> sy_epoch s" using c by (auto simp: call_ok_def)
  ultimately have "entry_value e \<in> sy_seen s (cl_since c) (cl_hash c)" "cl_since c \<le> sy_epoch s"
    using seen_mono [OF rgood_ghost [OF s]] by auto
  moreover have "ans = entry_result e" using sf Some by (auto simp: storeFetch_def split: if_splits)
  ultimately show ?thesis by (auto simp: answer_ok_def entry_result_answer)
qed

text \<open>What is stored is what the store held after the last invalidation.\<close>

lemma deliver_cache:
  assumes s: "rgood s" and b: "sy_epoch s < 2 ^ 64" and c: "call_ok s c" and j: "cl_flight c = Some j"
    and r: "fl_result (sy_flights s ! j) = Some res"
    and sf: "storeFetch order (sy_res s) now now' (cl_hash c) (cl_gen c) (cl_grace c) res = (ans, r')"
    and h: "entryLocked r' h = Some e"
  shows "entry_value e \<in> sy_seen s (sy_last_inv s h) h"
proof (cases "entryLocked (sy_res s) h = Some e")
  case True
  then show ?thesis using s by (simp add: rgood_def cache_ok_def)
next
  case False
  then obtain e' where e': "fetch_entry res now = Some e'" "rv_generation (sy_res s) = cl_gen c"
    and r': "r' = store_entry order (sy_res s) now (cl_hash c) e'"
    using sf h by (auto simp: storeFetch_def split: option.splits if_splits)
  have ok: "entries_ok (sy_res s)" using s by (simp add: rgood_def ghost_ok_def)
  have "h = cl_hash c" using False h entryLocked_store_other [OF ok] unfolding r' by blast
  moreover from this have "e = e'" using h entryLocked_store_same [OF ok] by (simp add: r')
  moreover have "cl_epoch c = sy_epoch s"
    using e'(2) s c b of_nat_64_inject [of "sy_epoch s" "cl_epoch c"]
    by (auto simp: rgood_def ghost_ok_def call_ok_def)
  moreover have "entry_value e' \<in> sy_seen s (cl_epoch c) (cl_hash c)"
    using flight_value_seen [OF s b c j] r e'(1) fetch_entry_Some by simp
  ultimately show ?thesis
    using seen_mono [OF rgood_ghost [OF s] last_inv_le [OF rgood_ghost [OF s]] order_refl] by simp
qed

lemma storeFetch_generation:
  "storeFetch order r now now' h gen grace res = (ans, r') \<Longrightarrow> rv_generation r' = rv_generation r"
  by (auto simp: storeFetch_def split: option.splits if_splits)

lemma in_drop_nth: "x \<in> set (drop_nth i xs) \<Longrightarrow> x \<in> set xs"
  by (auto simp: drop_nth_def dest: in_set_takeD in_set_dropD)

lemma in_set_update: "x \<in> set (xs[i := y]) \<Longrightarrow> x = y \<or> x \<in> set xs"
  by (meson insertE set_update_subset_insert subsetD)

lemma rgood_res_setting:
  assumes "rgood s" "rv_generation r = rv_generation (sy_res s)" "entries_ok r"
    "\<And>h. entryLocked r h = entryLocked (sy_res s) h"
  shows "rgood (s\<lparr>sy_res := r\<rparr>)"
  using assms by (intro rgood_same [OF assms(1)]) (auto simp: rgood_def ghost_ok_def cache_ok_def)

lemma rgood_deliver:
  assumes s: "rgood s" and b: "sy_epoch s < 2 ^ 64" and i: "i < length (sy_calls s)" "c = sy_calls s ! i"
    and j: "cl_flight c = Some j" and r: "fl_result (sy_flights s ! j) = Some res"
    and sf: "storeFetch order (sy_res s) now now' (cl_hash c) (cl_gen c) (cl_grace c) res = (ans, r')"
  shows "rgood (s\<lparr>sy_res := r', sy_calls := drop_nth i (sy_calls s),
    sy_answers := (cl_hash c, cl_since c, ans) # sy_answers s\<rparr>)" (is "rgood ?t")
proof -
  have c: "call_ok s c" using s i by (simp add: rgood_def)
  have "entries_ok r'" using entries_ok_storeFetch [of "sy_res s"] sf s
    by (metis ghost_ok_def rgood_def snd_conv)
  then have g: "ghost_ok ?t" using s storeFetch_generation [OF sf] by (simp add: rgood_def ghost_ok_def)
  have k: "cache_ok ?t" using deliver_cache [OF s b c j r sf] by (simp add: cache_ok_def)
  have a: "answer_ok ?t (cl_hash c, cl_since c, ans)"
    using deliver_answer_ok [OF s b c j r sf] by (simp add: answer_ok_def)
  show ?thesis
    by (rule rgood_same [OF s _ _ _ _ g k]) (use a in \<open>auto dest: in_drop_nth\<close>)
qed

lemma rgood_expire:
  assumes s: "rgood s" and i: "i < length (sy_calls s)" "c = sy_calls s ! i"
    and ans: "ans = staleOrUnavailable (sy_res s) now (cl_hash c) (cl_gen c) (cl_grace c)"
  shows "rgood (s\<lparr>sy_calls := drop_nth i (sy_calls s),
    sy_answers := (cl_hash c, cl_since c, ans) # sy_answers s\<rparr>)" (is "rgood ?t")
proof -
  have c: "call_ok s c" using s i by (simp add: rgood_def)
  have g: "ghost_ok ?t" "cache_ok ?t" using s by (simp_all add: rgood_def ghost_ok_def cache_ok_def)
  have a: "answer_ok ?t (cl_hash c, cl_since c, ans)"
    using stale_answer_ok [OF s c] ans by (simp add: answer_ok_def)
  show ?thesis by (rule rgood_same [OF s _ _ _ _ g]) (use a in \<open>auto dest: in_drop_nth\<close>)
qed

lemma rgood_hit:
  assumes s: "rgood s" and h: "resolve_begin (sy_res s) now h = Inl ans"
  shows "rgood (s\<lparr>sy_answers := (h, sy_last_inv s h, ans) # sy_answers s\<rparr>)" (is "rgood ?t")
proof -
  obtain e where e: "entryLocked (sy_res s) h = Some e" "ans = entry_result e"
    using h by (auto simp: resolve_begin_def split: option.splits if_splits)
  have a: "answer_ok ?t (h, sy_last_inv s h, ans)"
    using entry_answer_ok [OF s e(1)] e(2) by (simp add: answer_ok_def)
  have g: "ghost_ok ?t" "cache_ok ?t" using s by (simp_all add: rgood_def ghost_ok_def cache_ok_def)
  show ?thesis by (rule rgood_same [OF s _ _ _ _ g]) (use a in auto)
qed

lemma rgood_miss:
  assumes s: "rgood s" and h: "resolve_begin (sy_res s) now h = Inr (gen, grace, timeout)"
  shows "rgood (s\<lparr>sy_calls := \<lparr>cl_hash = h, cl_gen = gen, cl_grace = grace, cl_flight = None,
      cl_epoch = sy_epoch s, cl_since = sy_last_inv s h\<rparr> # sy_calls s\<rparr>)" (is "rgood ?t")
proof -
  have "gen = rv_generation (sy_res s)" using h by (auto simp: resolve_begin_def split: option.splits if_splits)
  then have c: "call_ok ?t (hd (sy_calls ?t))" using s by (simp add: call_ok_def rgood_def ghost_ok_def)
  have g: "ghost_ok ?t" "cache_ok ?t" using s by (simp_all add: rgood_def ghost_ok_def cache_ok_def)
  show ?thesis by (rule rgood_same [OF s _ _ _ _ g]) (use c in auto)
qed

lemma call_ok_more_flights:
  "call_ok s c \<Longrightarrow> call_ok (s\<lparr>sy_flights := sy_flights s @ fs, sy_calls := cs\<rparr>) c"
  by (auto simp: call_ok_def nth_append)

lemma rgood_start:
  assumes s: "rgood s" and i: "i < length (sy_calls s)" "c = sy_calls s ! i"
  shows "rgood (s\<lparr>sy_flights := sy_flights s @ [\<lparr>fl_key = flight_key (cl_gen c) (cl_hash c), fl_hash = cl_hash c,
        fl_epoch = cl_epoch c, fl_result = None\<rparr>],
      sy_calls := (sy_calls s)[i := c\<lparr>cl_flight := Some (length (sy_flights s))\<rparr>]\<rparr>)" (is "rgood ?t")
proof -
  have c: "call_ok s c" using s i by (simp add: rgood_def)
  have g: "grows s ?t" by (rule grows_refl) simp_all
  have "flight_ok ?t f" if "f \<in> set (sy_flights ?t)" for f
    using that s c flight_ok_grows [OF _ g] by (auto simp: rgood_def flight_ok_def call_ok_def)
  moreover have "call_ok ?t d" if "d \<in> set (sy_calls ?t)" for d
  proof -
    have "d = c\<lparr>cl_flight := Some (length (sy_flights s))\<rparr> \<or> d \<in> set (sy_calls s)"
      using that by (auto dest: in_set_update)
    then show ?thesis
      using s c call_ok_more_flights [of s d] by (auto simp: rgood_def call_ok_def nth_append)
  qed
  ultimately show ?thesis
    using s answer_ok_grows [OF _ g] by (simp add: rgood_def ghost_ok_def cache_ok_def)
qed

lemma rgood_join:
  assumes s: "rgood s" and i: "i < length (sy_calls s)" "c = sy_calls s ! i" and j: "j < length (sy_flights s)"
    and k: "fl_key (sy_flights s ! j) = flight_key (cl_gen c) (cl_hash c)"
  shows "rgood (s\<lparr>sy_calls := (sy_calls s)[i := c\<lparr>cl_flight := Some j\<rparr>]\<rparr>)" (is "rgood ?t")
proof -
  have c: "call_ok s c" using s i by (simp add: rgood_def)
  have g: "ghost_ok ?t" "cache_ok ?t" using s by (simp_all add: rgood_def ghost_ok_def cache_ok_def)
  have "call_ok ?t (c\<lparr>cl_flight := Some j\<rparr>)" using c j k by (simp add: call_ok_def)
  then show ?thesis
    by (intro rgood_same [OF s _ _ _ _ g]) (auto dest: in_set_update)
qed

lemma store_result_inject: "store_result v = store_result w \<Longrightarrow> v = w"
  by (auto simp: store_result_def split: option.splits)

lemma store_result_err: "store_result v = Inl err \<Longrightarrow> err = ErrNotFound"
  by (auto simp: store_result_def split: option.splits)

lemma rgood_read:
  assumes s: "rgood s" and j: "j < length (sy_flights s)" "f = sy_flights s ! j"
    and r: "res = store_result (sy_store s (fl_hash f)) \<or> (\<exists>err. res = Inl err \<and> err \<noteq> ErrNotFound)"
  shows "rgood (s\<lparr>sy_flights := (sy_flights s)[j := f\<lparr>fl_result := Some res\<rparr>]\<rparr>)" (is "rgood ?t")
proof -
  have f: "flight_ok s f" using s j by (simp add: rgood_def)
  have "sy_store s (fl_hash f) \<in> sy_seen s (fl_epoch f) (fl_hash f)"
    using f s by (simp add: flight_ok_def rgood_def ghost_ok_def)
  moreover have "v = sy_store s (fl_hash f)" if "res = store_result v" for v
    using r that store_result_inject store_result_err by metis
  ultimately have "v \<in> sy_seen s (fl_epoch f) (fl_hash f)" if "res = store_result v" for v
    using that by blast
  then have f': "flight_ok ?t (f\<lparr>fl_result := Some res\<rparr>)" using f by (simp add: flight_ok_def)
  have g: "grows s ?t" by (rule grows_refl) simp_all
  have "flight_ok ?t f'" if "f' \<in> set (sy_flights ?t)" for f'
  proof -
    have "f' = f\<lparr>fl_result := Some res\<rparr> \<or> f' \<in> set (sy_flights s)"
      using that by (auto dest: in_set_update)
    then show ?thesis using f' s flight_ok_grows [OF _ g] by (auto simp: rgood_def)
  qed
  moreover have "call_ok ?t c" if "c \<in> set (sy_calls s)" for c
    using that s j by (auto simp: rgood_def call_ok_def nth_list_update)
  ultimately show ?thesis using s answer_ok_grows [OF _ g] by (simp add: rgood_def ghost_ok_def cache_ok_def)
qed

lemma epoch_mono: "rstep s t \<Longrightarrow> sy_epoch s \<le> sy_epoch t"
  by (erule rstepE) (auto simp: note_change_def do_invalidate_def)

lemma entryLocked_settings [simp]:
  "entryLocked (SetStaleGrace r d) h = entryLocked r h" "entryLocked (SetLookupTimeout r d) h = entryLocked r h"
  "entryLocked (SetMaxEntries r n) h = entryLocked r h" "entryLocked (SetMaxUnknown r n) h = entryLocked r h"
  by (simp_all add: entryLocked_def SetStaleGrace_def SetLookupTimeout_def SetMaxEntries_def SetMaxUnknown_def cong: option.case_cong)

lemma generation_settings [simp]:
  "rv_generation (SetStaleGrace r d) = rv_generation r" "rv_generation (SetLookupTimeout r d) = rv_generation r"
  "rv_generation (SetMaxEntries r n) = rv_generation r" "rv_generation (SetMaxUnknown r n) = rv_generation r"
  by (simp_all add: SetStaleGrace_def SetLookupTimeout_def SetMaxEntries_def SetMaxUnknown_def)

lemma rgood_tick: "rgood s \<Longrightarrow> rgood (s\<lparr>sy_clock := t\<rparr>)"
  by (rule rgood_same) (auto simp: rgood_def ghost_ok_def cache_ok_def)

lemma rgood_step:
  assumes s: "rgood s" and b: "sy_epoch s < 2 ^ 64" and step: "rstep s t"
  shows "rgood t"
  using step
proof cases
  case deliver
  then show ?thesis using rgood_deliver [OF s b] by blast
next
  case expire
  then show ?thesis using rgood_expire [OF s] by blast
next
  case read
  then show ?thesis using rgood_read [OF s] by blast
next
  case start
  then show ?thesis using rgood_start [OF s] by blast
next
  case join_flight
  then show ?thesis using rgood_join [OF s] by blast
qed (use s rgood_ghost [OF s] in \<open>auto simp: ghost_ok_def intro: rgood_tick rgood_change rgood_invalidate
      rgood_res_setting rgood_hit rgood_miss\<close>)

lemma rgood_init: "rsys_init s \<Longrightarrow> rgood s"
  by (auto simp: rsys_init_def rgood_def ghost_ok_def cache_ok_def entries_ok_New)
     (simp_all add: NewResolver_def entryLocked_def)

interpretation resolver: invariant_system rsys_init rstep rinv
proof
  fix s t assume "rinv s" "rstep s t"
  then show "rinv t" unfolding rinv_def using rgood_step epoch_mono le_less_trans by blast
qed (simp add: rinv_def rgood_init)

section \<open>A run\<close>

text \<open>One caller misses, fetches, is answered and leaves an entry behind.\<close>

definition demo_sys :: rsys where
  "demo_sys =
     \<lparr>sy_clock = 0, sy_res = NewResolver minute, sy_store = (\<lambda>h. Some empty_lookup), sy_flights = [],
      sy_calls = [], sy_epoch = 0, sy_seen = (\<lambda>n h. {Some empty_lookup}), sy_last_inv = (\<lambda>h. 0),
      sy_answers = []\<rparr>"

lemma demo_run:
  "\<exists>s e. reachable rsys_init rstep s \<and> sy_epoch s = 0 \<and> sy_answers s = [(''k'', 0, Inr empty_lookup)] \<and>
     entryLocked (sy_res s) ''k'' = Some e \<and> sy_last_inv s ''k'' = 0"
proof -
  let ?c = "\<lparr>cl_hash = ''k'', cl_gen = 0, cl_grace = DefaultStaleGrace, cl_flight = None, cl_epoch = 0, cl_since = 0\<rparr>"
  let ?f = "\<lparr>fl_key = flight_key 0 ''k'', fl_hash = ''k'', fl_epoch = 0, fl_result = None\<rparr>"
  let ?e = "\<lparr>ce_lookup = empty_lookup, ce_unknown = False, ce_fetched = 0\<rparr>"
  let ?s1 = "demo_sys\<lparr>sy_calls := [?c]\<rparr>"
  let ?s2 = "demo_sys\<lparr>sy_calls := [?c\<lparr>cl_flight := Some 0\<rparr>], sy_flights := [?f]\<rparr>"
  let ?s3 = "?s2\<lparr>sy_flights := [?f\<lparr>fl_result := Some (Inr empty_lookup)\<rparr>]\<rparr>"
  let ?r = "store_entry [] (NewResolver minute) 0 ''k'' ?e"
  let ?s4 = "?s3\<lparr>sy_res := ?r, sy_calls := [], sy_answers := [(''k'', 0, Inr empty_lookup)]\<rparr>"
  have r0: "reachable rsys_init rstep demo_sys"
    by (rule reach_init) (auto simp: rsys_init_def demo_sys_def)
  have "rstep demo_sys ?s1"
    using rstep.miss [of demo_sys "''k''" 0 DefaultStaleGrace DefaultLookupTimeout]
    by (simp add: demo_sys_def resolve_begin_def entryLocked_def NewResolver_def)
  with r0 have r1: "reachable rsys_init rstep ?s1" by (rule reach_step)
  have "rstep ?s1 ?s2" using rstep.start [of 0 ?s1 ?c] by (simp add: demo_sys_def)
  with r1 have r2: "reachable rsys_init rstep ?s2" by (rule reach_step)
  have "rstep ?s2 ?s3" using rstep.read [of 0 ?s2 ?f "Inr empty_lookup"]
    by (simp add: demo_sys_def store_result_def)
  with r2 have r3: "reachable rsys_init rstep ?s3" by (rule reach_step)
  have "rstep ?s3 ?s4"
    using rstep.deliver [of 0 ?s3 "?c\<lparr>cl_flight := Some 0\<rparr>" 0 "Inr empty_lookup" 0 "[]" "Inr empty_lookup" ?r]
    by (simp add: demo_sys_def storeFetch_def fetch_entry_def NewResolver_def entry_result_def drop_nth_def)
  with r3 have r4: "reachable rsys_init rstep ?s4" by (rule reach_step)
  show ?thesis
    by (intro exI [of _ ?s4] exI [of _ ?e] conjI r4)
       (simp_all add: demo_sys_def entryLocked_store_same entries_ok_New)
qed

section \<open>Properties\<close>



text \<open>
  The cache holds nothing an invalidation overtook. In every reachable state the entry of a
  hash, known or unknown, is what the store answered at some moment after the last invalidation of
  that hash; a hash has an entry in at most one of the two maps, real keys only in the one and
  unknown ones only in the other.
\<close>

theorem resolver_cache_current:
  assumes "reachable rsys_init rstep s" and "sy_epoch s < 2 ^ 64" and "entryLocked (sy_res s) h = Some e"
  shows "entry_value e \<in> sy_seen s (sy_last_inv s h) h \<and>
    fst ` set (rv_cache (sy_res s)) \<inter> fst ` set (rv_unknown (sy_res s)) = {} \<and>
    (ce_unknown e \<longleftrightarrow> h \<in> fst ` set (rv_unknown (sy_res s)))"
proof -
  have g: "rgood s" using resolver.reachable_inv [OF assms(1)] assms(2) by (simp add: rinv_def)
  then have ok: "entries_ok (sy_res s)" by (simp add: rgood_def ghost_ok_def)
  have "ce_unknown e \<longleftrightarrow> h \<in> fst ` set (rv_unknown (sy_res s))"
    by (rule entryLocked_unknown [OF ok assms(3)])
  then show ?thesis using g ok assms(3) by (simp add: rgood_def cache_ok_def entries_ok_def)
qed

theorem resolver_cache_current_witness:
  "\<exists>s e. reachable rsys_init rstep s \<and> entryLocked (sy_res s) ''k'' = Some e \<and> entry_value e \<in> sy_seen s 0 ''k''"
proof -
  obtain s e where s: "reachable rsys_init rstep s" "sy_epoch s = 0" "entryLocked (sy_res s) ''k'' = Some e"
      "sy_last_inv s ''k'' = 0"
    using demo_run by blast
  have "sy_epoch s < 2 ^ 64" using s by simp
  from resolver_cache_current [OF s(1) this s(3)] s show ?thesis by auto
qed

end
