(* ===== verification/Route.thy ===== *)
theory Route
  imports Entitlements
begin

text \<open>
  \<open>src/gateway/route.go\<close>: the public paths the gateway forwards, the path each has on the game
  host, and the modes a plan must include for it.
\<close>

datatype route_error = ErrNoRoute

record Route =
  r_game :: string
  r_kind :: string
  r_rest :: string

text \<open>The pattern \<open>^[a-z0-9]+$\<close>.\<close>

definition game_char :: "char \<Rightarrow> bool" where
  "game_char c \<longleftrightarrow> (97 \<le> (of_char c :: nat) \<and> (of_char c :: nat) \<le> 122) \<or> is_digit c"

definition gameName :: "string \<Rightarrow> bool" where
  "gameName s \<longleftrightarrow> s \<noteq> [] \<and> list_all game_char s"

text \<open>The \<open>default\<close> arm: the first price kind whose file or directory the path names.\<close>

definition price_kind :: "string \<Rightarrow> string" where
  "price_kind sub =
     (case find (\<lambda>kind. sub = kind @ ''.json'' \<or> sub = kind @ ''.csv'' \<or> has_prefix sub (kind @ ''/''))
             [''retail'', ''buylist'', ''all'', ''sealed''] of
        Some kind \<Rightarrow> kind
      | None \<Rightarrow> [])"

definition route_kind :: "bool \<Rightarrow> string \<Rightarrow> string" where
  "route_kind v2 sub =
     (if has_prefix sub ''search/'' then ''search''
      else if sub = ''sets.json'' \<or> sub = ''sets.csv'' \<or> sub = ''stores.json'' \<or> sub = ''stores.csv'' then ''meta''
      else if v2 \<and> (sub = ''finishes.json'' \<or> sub = ''finishes.csv'') then ''meta''
      else if v2 \<and> has_prefix sub ''history/'' then ''history''
      else if v2 \<and> has_prefix sub ''newspaper/'' then ''newspaper''
      else price_kind sub)"

definition parse_rest :: "bool \<Rightarrow> string \<Rightarrow> route_error + Route" where
  "parse_rest v2 rest =
     (if list_ex (\<lambda>seg. contains_sub seg ''..'') (split_on CHR ''/'' rest) then Inl ErrNoRoute
      else case cut CHR ''/'' rest of (game, sub, ok) \<Rightarrow>
        if \<not> ok \<or> \<not> gameName game \<or> sub = [] then Inl ErrNoRoute
        else let kind = route_kind v2 sub in
          if kind = [] then Inl ErrNoRoute
          else Inr \<lparr>r_game = game, r_kind = kind,
                    r_rest = (if v2 then ''v2/'' @ sub else ''mtgban/'' @ sub)\<rparr>)"

definition ParseRoute :: "string \<Rightarrow> route_error + Route" where
  "ParseRoute path =
     (if has_prefix path ''/v1/'' then parse_rest False (drop (length ''/v1/'') path)
      else if has_prefix path ''/v2/'' then parse_rest True (drop (length ''/v2/'') path)
      else Inl ErrNoRoute)"

definition BackendPath :: "Route \<Rightarrow> string" where
  "BackendPath r = ''/api/'' @ r_rest r"

definition NeedsModes :: "Route \<Rightarrow> string list" where
  "NeedsModes r =
     (if r_kind r = ''all'' then [''retail'', ''buylist'']
      else if r_kind r \<in> {''retail'', ''buylist'', ''sealed'', ''history'', ''newspaper''} then [r_kind r]
      else [])"

section \<open>Lemmas\<close>

lemma hd_split_on_append: "c \<notin> set p \<Longrightarrow> hd (split_on c (p @ t)) = p @ hd (split_on c t)"
proof (induction p)
  case (Cons x p)
  then show ?case by (cases "split_on c (p @ t)") auto
qed simp

lemma contains_sub_hd: "has_prefix s p \<Longrightarrow> contains_sub s p"
  by (metis append_Nil contains_sub_iff has_prefix_iff)

lemma contains_sub_Cons: "contains_sub xs p \<Longrightarrow> contains_sub (x # xs) p"
  by simp

lemma split_on_contains:
  "c \<notin> set p \<Longrightarrow> contains_sub s p \<Longrightarrow> \<exists>q \<in> set (split_on c s). contains_sub q p"
proof (induction s)
  case (Cons x xs)
  obtain y ys where y: "split_on c xs = y # ys" by (metis neq_Nil_conv split_on_not_Nil)
  consider "has_prefix (x # xs) p" | "contains_sub xs p" using Cons.prems by auto
  then show ?case
  proof cases
    case 1
    then obtain t where "x # xs = p @ t" by (auto simp: has_prefix_iff)
    then have "hd (split_on c (x # xs)) = p @ hd (split_on c t)"
      using hd_split_on_append Cons.prems(1) by simp
    then have "contains_sub (hd (split_on c (x # xs))) p" by (simp add: contains_sub_hd)
    then show ?thesis using split_on_not_Nil by (meson hd_in_set)
  next
    case 2
    then obtain q where "q \<in> set (split_on c xs)" "contains_sub q p" using Cons by blast
    then show ?thesis using y by (auto simp del: contains_sub.simps intro: contains_sub_Cons)
  qed
qed auto

text \<open>What an accepted path is made of, and what the route keeps of it.\<close>

lemma parse_rest_Inr:
  assumes "parse_rest v2 rest = Inr r"
  obtains sub where "rest = r_game r @ ''/'' @ sub" "gameName (r_game r)" "sub \<noteq> []"
    "r_rest r = (if v2 then ''v2/'' else ''mtgban/'') @ sub" "r_kind r = route_kind v2 sub"
    "r_kind r \<noteq> []" "\<not> contains_sub sub ''..''"
proof -
  obtain game sub ok where c: "cut CHR ''/'' rest = (game, sub, ok)" by (cases "cut CHR ''/'' rest")
  have r: "ok" "gameName game" "sub \<noteq> []" "route_kind v2 sub \<noteq> []" "r_game r = game"
      "r_kind r = route_kind v2 sub" "r_rest r = (if v2 then ''v2/'' else ''mtgban/'') @ sub"
    and nd: "\<not> list_ex (\<lambda>seg. contains_sub seg ''..'') (split_on CHR ''/'' rest)"
    using assms c by (auto simp: parse_rest_def Let_def split: if_splits)
  have rest: "rest = game @ CHR ''/'' # sub" "CHR ''/'' \<notin> set game" using cut_spec [OF c] r(1) by auto
  then have "split_on CHR ''/'' rest = game # split_on CHR ''/'' sub" using split_on_append by simp
  then have "\<not> contains_sub sub ''..''"
    using nd split_on_contains [of "CHR ''/''" "''..''" sub] by (auto simp: list_ex_iff)
  then show ?thesis using that [of sub] r rest by simp
qed

lemma ParseRoute_cases:
  assumes "ParseRoute path = Inr r"
  obtains v2 rest where "path = (if v2 then ''/v2/'' else ''/v1/'') @ rest" "parse_rest v2 rest = Inr r"
proof -
  consider rest where "path = ''/v1/'' @ rest" "parse_rest False rest = Inr r"
    | rest where "path = ''/v2/'' @ rest" "parse_rest True rest = Inr r"
    using assms by (auto simp: ParseRoute_def has_prefix_iff split: if_splits)
  then show ?thesis
  proof cases
    case (1 rest)
    then show ?thesis using that [of False rest] by simp
  next
    case (2 rest)
    then show ?thesis using that [of True rest] by simp
  qed
qed

lemma price_kind_cases: "price_kind sub \<in> {[], ''retail'', ''buylist'', ''all'', ''sealed''}"
  by (auto simp: price_kind_def)

lemma route_kind_cases:
  "route_kind v2 sub \<in> {[], ''search'', ''meta'', ''history'', ''newspaper'', ''retail'', ''buylist'', ''all'', ''sealed''}"
  using price_kind_cases [of sub] by (auto simp: route_kind_def)

lemma route_kind_v2_only: "route_kind v2 sub \<in> {''history'', ''newspaper''} \<Longrightarrow> v2"
  using price_kind_cases [of sub] by (auto simp: route_kind_def split: if_splits)

lemma backend_dots:
  "contains_sub (''/api/v2/'' @ sub) ''..'' = contains_sub sub ''..''"
  "contains_sub (''/api/mtgban/'' @ sub) ''..'' = contains_sub sub ''..''"
  by (simp_all add: has_prefix_def)

lemma NeedsModes_valid: "set (NeedsModes r) \<subseteq> set ValidModes"
  by (auto simp: NeedsModes_def ValidModes_def ModeNewspaper_def ModeHistory_def)

lemma NeedsModes_Nil: "ParseRoute path = Inr r \<Longrightarrow> NeedsModes r = [] \<longleftrightarrow> r_kind r \<in> {''search'', ''meta''}"
proof (elim ParseRoute_cases parse_rest_Inr)
  fix v2 sub
  assume "r_kind r = route_kind v2 sub" "r_kind r \<noteq> []"
  then show ?thesis using route_kind_cases [of v2 sub] by (auto simp: NeedsModes_def)
qed

section \<open>Properties\<close>

text \<open>
  C33: an accepted path is \<open>/v1/\<close> or \<open>/v2/\<close>, a game of lower-case letters and digits, a slash and a
  non-empty rest, and the backend path is that rest under \<open>/api/mtgban/\<close> or \<open>/api/v2/\<close> with no
  \<open>..\<close> anywhere in it, so a request cannot climb out of the backend's API; its kind is one of
  the eight the backend serves, history and newspaper on v2 only, and the modes it needs are
  valid modes, none exactly for searches and metadata.
\<close>

theorem ParseRoute_sound:
  assumes "ParseRoute path = Inr r"
  shows "\<exists>v2 sub. path = (if v2 then ''/v2/'' else ''/v1/'') @ r_game r @ ''/'' @ sub \<and> sub \<noteq> [] \<and>
    gameName (r_game r) \<and> BackendPath r = (if v2 then ''/api/v2/'' else ''/api/mtgban/'') @ sub \<and>
    \<not> contains_sub (BackendPath r) ''..'' \<and>
    r_kind r \<in> {''search'', ''meta'', ''history'', ''newspaper'', ''retail'', ''buylist'', ''all'', ''sealed''} \<and>
    (r_kind r = ''history'' \<or> r_kind r = ''newspaper'' \<longrightarrow> v2) \<and>
    set (NeedsModes r) \<subseteq> set ValidModes \<and> (NeedsModes r = [] \<longleftrightarrow> r_kind r = ''search'' \<or> r_kind r = ''meta'')"
  using assms
proof (rule ParseRoute_cases)
  fix v2 rest
  assume path: "path = (if v2 then ''/v2/'' else ''/v1/'') @ rest" and pr: "parse_rest v2 rest = Inr r"
  obtain sub where s: "rest = r_game r @ ''/'' @ sub" "gameName (r_game r)" "sub \<noteq> []"
    "r_rest r = (if v2 then ''v2/'' else ''mtgban/'') @ sub" "r_kind r = route_kind v2 sub"
    "r_kind r \<noteq> []" "\<not> contains_sub sub ''..''"
    using pr by (rule parse_rest_Inr)
  have b: "BackendPath r = (if v2 then ''/api/v2/'' else ''/api/mtgban/'') @ sub"
    using s(4) by (simp add: BackendPath_def)
  have "\<not> contains_sub (BackendPath r) ''..''" using s(7) unfolding b by (cases v2) (simp_all only: backend_dots if_True if_False simp_thms)
  moreover have "r_kind r \<in> {''search'', ''meta'', ''history'', ''newspaper'', ''retail'', ''buylist'', ''all'', ''sealed''}"
    using s(5,6) route_kind_cases [of v2 sub] by auto
  moreover have "r_kind r = ''history'' \<or> r_kind r = ''newspaper'' \<longrightarrow> v2"
    using s(5) route_kind_v2_only [of v2 sub] by auto
  ultimately show ?thesis
    using path s(1-3) b NeedsModes_valid [of r] NeedsModes_Nil [OF assms] by (intro exI [of _ v2] exI [of _ sub]) simp
qed

theorem ParseRoute_sound_witness:
  "ParseRoute ''/v2/magic/history/abc.json'' =
     Inr \<lparr>r_game = ''magic'', r_kind = ''history'', r_rest = ''v2/history/abc.json''\<rparr> \<and>
   (\<exists>v2 sub. ''/v2/magic/history/abc.json'' = (if v2 then ''/v2/'' else ''/v1/'') @ ''magic'' @ ''/'' @ sub)"
proof -
  have r: "ParseRoute ''/v2/magic/history/abc.json'' =
     Inr \<lparr>r_game = ''magic'', r_kind = ''history'', r_rest = ''v2/history/abc.json''\<rparr>" by code_simp
  from ParseRoute_sound [OF r] r show ?thesis by fastforce
qed

end
