(* ===== verification/Access.thy ===== *)
theory Access
  imports Entitlements
begin

text \<open>
  \<open>src/gateway/access.go\<close>: what an account may do for one game, as the union of its active
  rows, and its specification over the set of those rows.
\<close>

record Access =
  ac_store_scope :: string
  ac_modes :: "string list"
  ac_lookback_days :: int

definition HasMode :: "Access \<Rightarrow> string \<Rightarrow> bool" where
  "HasMode a m \<longleftrightarrow> m \<in> set (ac_modes a)"

text \<open>The variables of the loop of \<open>Resolve\<close>.\<close>

record resolve_acc =
  ra_found :: bool
  ra_all :: bool
  ra_base :: bool
  ra_stores :: "string list"
  ra_modes :: "string list"
  ra_lookback :: int

definition resolve_init :: resolve_acc where
  "resolve_init = \<lparr>ra_found = False, ra_all = False, ra_base = False, ra_stores = [], ra_modes = [], ra_lookback = 0\<rparr>"

definition add_stores :: "string list \<Rightarrow> string list \<Rightarrow> string list" where
  "add_stores stores parts = foldl (\<lambda>st s. if s \<noteq> [] \<and> s \<notin> set st then st @ [s] else st) stores parts"

definition resolve_row :: "string \<Rightarrow> time \<Rightarrow> resolve_acc \<Rightarrow> Entitlement \<Rightarrow> resolve_acc" where
  "resolve_row game now acc e =
     (if \<not> ActiveAt e now \<or> game \<notin> set (e_games e) then acc
      else
        let acc1 = acc\<lparr>ra_found := True\<rparr>;
            acc2 = (if e_store_scope e = ScopeAll then acc1\<lparr>ra_all := True\<rparr>
                    else if e_store_scope e = ScopeBase then acc1\<lparr>ra_base := True\<rparr>
                    else if e_store_scope e = [] then acc1
                    else acc1\<lparr>ra_stores := add_stores (ra_stores acc1) (split_on comma (e_store_scope e))\<rparr>);
            acc3 = acc2\<lparr>ra_modes := foldl (\<lambda>ms m. add_new m ms) (ra_modes acc2) (e_modes e)\<rparr>
        in if IsHistory e \<and> e_lookback_days e > ra_lookback acc3
           then acc3\<lparr>ra_lookback := e_lookback_days e\<rparr> else acc3)"

text \<open>\<open>None\<close> is the result \<open>(Access{}, false)\<close>.\<close>

definition Resolve :: "Entitlement list \<Rightarrow> string \<Rightarrow> time \<Rightarrow> Access option" where
  "Resolve ents game now =
     (let acc = foldl (resolve_row game now) resolve_init ents in
      if \<not> ra_found acc then None
      else Some \<lparr>ac_store_scope =
                   (if ra_all acc then ScopeAll else if ra_base acc then ScopeBase
                    else join '','' (sort (ra_stores acc))),
                 ac_modes = filter (\<lambda>m. m \<in> set (ra_modes acc)) ValidModes,
                 ac_lookback_days = ra_lookback acc\<rparr>)"

section \<open>Specification\<close>

text \<open>The rows that count, and the union they grant, over the set of the rows.\<close>

definition granting :: "Entitlement set \<Rightarrow> string \<Rightarrow> time \<Rightarrow> Entitlement set" where
  "granting E game now = {e \<in> E. ActiveAt e now \<and> game \<in> set (e_games e)}"

definition scope_stores :: "string \<Rightarrow> string set" where
  "scope_stores scope =
     (if scope = ScopeAll \<or> scope = ScopeBase then {} else set (split_on comma scope) - {[]})"

definition resolve_spec :: "Entitlement set \<Rightarrow> string \<Rightarrow> time \<Rightarrow> Access option" where
  "resolve_spec E game now =
     (let G = granting E game now in
      if G = {} then None
      else Some \<lparr>ac_store_scope =
                   (if ScopeAll \<in> e_store_scope ` G then ScopeAll
                    else if ScopeBase \<in> e_store_scope ` G then ScopeBase
                    else join '','' (sorted_list_of_set (\<Union> (scope_stores ` e_store_scope ` G)))),
                 ac_modes = filter (\<lambda>m. m \<in> \<Union> (set ` e_modes ` G)) ValidModes,
                 ac_lookback_days = Max (insert 0 (e_lookback_days ` {e \<in> G. IsHistory e}))\<rparr>)"

section \<open>The loop computes the specification\<close>

lemma set_add_stores: "set (add_stores st parts) = set st \<union> (set parts - {[]})"
  unfolding add_stores_def by (induction parts arbitrary: st) auto

lemma distinct_add_stores: "distinct st \<Longrightarrow> distinct (add_stores st parts)"
  unfolding add_stores_def by (induction parts arbitrary: st) auto

lemma set_fold_add_new: "set (foldl (\<lambda>ms m. add_new m ms) ms xs) = set ms \<union> set xs"
  by (induction xs arbitrary: ms) auto

text \<open>What the accumulator holds after the rows in \<open>G\<close> have counted.\<close>

definition acc_for :: "resolve_acc \<Rightarrow> Entitlement set \<Rightarrow> bool" where
  "acc_for acc G \<longleftrightarrow>
     (ra_found acc \<longleftrightarrow> G \<noteq> {}) \<and> (ra_all acc \<longleftrightarrow> ScopeAll \<in> e_store_scope ` G) \<and>
     (ra_base acc \<longleftrightarrow> ScopeBase \<in> e_store_scope ` G) \<and> distinct (ra_stores acc) \<and>
     set (ra_stores acc) = \<Union> (scope_stores ` e_store_scope ` G) \<and>
     set (ra_modes acc) = \<Union> (set ` e_modes ` G) \<and>
     ra_lookback acc = Max (insert 0 (e_lookback_days ` {e \<in> G. IsHistory e}))"

lemma preset_ne [simp]: "ScopeAll \<noteq> ScopeBase" "ScopeBase \<noteq> ScopeAll" "ScopeAll \<noteq> []" "ScopeBase \<noteq> []"
  by (simp_all add: ScopeAll_def ScopeBase_def)

lemma Max_insert_step:
  "finite S \<Longrightarrow> Max (insert (0 :: int) (insert x S)) = (if x > Max (insert 0 S) then x else Max (insert 0 S))"
proof -
  assume "finite S"
  then have "Max (insert x (insert 0 S)) = max x (Max (insert 0 S))" by (intro Max_insert) auto
  then show ?thesis unfolding insert_commute [of 0 x] max_def by simp
qed

lemma resolve_row_step:
  assumes acc: "acc_for acc G" and fin: "finite G" and e: "ActiveAt e now" "game \<in> set (e_games e)"
  shows "acc_for (resolve_row game now acc e) (insert e G)"
proof -
  have look: "Max (insert 0 (e_lookback_days ` {x \<in> insert e G. IsHistory x})) =
      (if IsHistory e \<and> e_lookback_days e > ra_lookback acc then e_lookback_days e else ra_lookback acc)"
  proof (cases "IsHistory e")
    case True
    then have "e_lookback_days ` {x \<in> insert e G. IsHistory x} =
        insert (e_lookback_days e) (e_lookback_days ` {x \<in> G. IsHistory x})" by auto
    moreover have "finite (e_lookback_days ` {x \<in> G. IsHistory x})" using fin by simp
    moreover have "ra_lookback acc = Max (insert 0 (e_lookback_days ` {e \<in> G. IsHistory e}))"
      using acc by (simp only: acc_for_def)
    ultimately show ?thesis using True by (simp only: Max_insert_step simp_thms)
  next
    case False
    then have "{x \<in> insert e G. IsHistory x} = {x \<in> G. IsHistory x}" by auto
    then show ?thesis using acc False by (simp add: acc_for_def)
  qed
  show ?thesis unfolding acc_for_def look
    using acc e
    by (auto simp: acc_for_def resolve_row_def Let_def set_add_stores distinct_add_stores
        set_fold_add_new scope_stores_def)
qed

lemma resolve_rows:
  "acc_for acc G \<Longrightarrow> finite G \<Longrightarrow>
     acc_for (foldl (resolve_row game now) acc ents) (G \<union> granting (set ents) game now)"
proof (induction ents arbitrary: acc G)
  case (Cons e ents)
  show ?case
  proof (cases "ActiveAt e now \<and> game \<in> set (e_games e)")
    case True
    then have "acc_for (resolve_row game now acc e) (insert e G)" using resolve_row_step Cons.prems by blast
    from Cons.IH [OF this] Cons.prems(2)
    have "acc_for (foldl (resolve_row game now) acc (e # ents)) (insert e G \<union> granting (set ents) game now)"
      by simp
    moreover have "insert e G \<union> granting (set ents) game now = G \<union> granting (set (e # ents)) game now"
      using True by (auto simp: granting_def)
    ultimately show ?thesis by simp
  next
    case False
    then have "resolve_row game now acc e = acc" by (auto simp: resolve_row_def)
    moreover have "granting (set (e # ents)) game now = granting (set ents) game now"
      using False by (auto simp: granting_def)
    ultimately show ?thesis using Cons by simp
  qed
qed (simp add: granting_def)

lemma acc_for_init: "acc_for resolve_init {}"
  by (simp add: acc_for_def resolve_init_def)

lemma Resolve_eq_spec: "Resolve ents game now = resolve_spec (set ents) game now"
proof -
  define acc where "acc = foldl (resolve_row game now) resolve_init ents"
  define G where "G = granting (set ents) game now"
  have a: "acc_for acc G" unfolding acc_def G_def using resolve_rows [OF acc_for_init] by simp
  then have "sort (ra_stores acc) = sorted_list_of_set (\<Union> (scope_stores ` e_store_scope ` G))"
    unfolding acc_for_def by (metis sorted_list_of_set_sort_remdups distinct_remdups_id)
  then show ?thesis using a
    unfolding Resolve_def resolve_spec_def Let_def acc_def [symmetric] G_def [symmetric] acc_for_def
    by simp
qed

section \<open>Union of canonical rows\<close>

lemma scope_stores_tokens: "c = [] \<or> canonical_scope c \<Longrightarrow> t \<in> scope_stores c \<Longrightarrow> scope_token t"
  by (auto simp: scope_stores_def canonical_scope_def list_all_iff Let_def split: if_splits)

lemma tokens_canonical_scope:
  assumes "finite T" "T \<noteq> {}" "\<And>t. t \<in> T \<Longrightarrow> scope_token t"
  shows "canonical_scope (join [comma] (sorted_list_of_set T))"
proof -
  have "split_on comma (join [comma] (sorted_list_of_set T)) = sorted_list_of_set T"
    by (rule split_join) (use assms in \<open>auto simp: scope_token_def\<close>)
  then show ?thesis using assms by (simp add: canonical_scope_def list_all_iff)
qed

lemma Resolve_scope_canonical:
  assumes rows: "\<And>e. e \<in> set ents \<Longrightarrow> e_store_scope e = [] \<or> canonical_scope (e_store_scope e)"
    and res: "Resolve ents game now = Some a"
  shows "ac_store_scope a = [] \<or> canonical_scope (ac_store_scope a)"
proof -
  define G where "G = granting (set ents) game now"
  define T where "T = \<Union> (scope_stores ` e_store_scope ` G)"
  have GE: "G \<subseteq> set ents" by (auto simp: G_def granting_def)
  have fin: "finite T" unfolding T_def using finite_subset [OF GE] by (auto simp: scope_stores_def)
  have tok: "scope_token t" if "t \<in> T" for t
    using that GE rows scope_stores_tokens unfolding T_def by blast
  have "ac_store_scope a = (if ScopeAll \<in> e_store_scope ` G then ScopeAll
      else if ScopeBase \<in> e_store_scope ` G then ScopeBase else join [comma] (sorted_list_of_set T))"
    using res unfolding Resolve_eq_spec resolve_spec_def Let_def G_def [symmetric] T_def [symmetric]
    by (auto split: if_splits)
  moreover have "canonical_scope ScopeAll" "canonical_scope ScopeBase" by (simp_all add: canonical_scope_def)
  ultimately show ?thesis using tokens_canonical_scope [OF fin _ tok] by (cases "T = {}") auto
qed

lemma canonical_row_scope:
  "CanonicalEntitlement e = Inr e' \<Longrightarrow> e_store_scope e' = [] \<or> canonical_scope (e_store_scope e')"
  by (erule CanonicalEntitlement_cases) (auto dest: canonicalStoreScope_canonical)

section \<open>Properties\<close>

text \<open>
  C3: \<open>Resolve\<close> computes the union of the active rows that name the game, whatever their order and
  however often a row is repeated: no access without such a row; otherwise the scope is
  \<open>ALL_ACCESS\<close> if one of them has it, else \<open>BASE_ACCESS\<close> if one of them has it, else the sorted list
  of their stores; the modes are all of their modes in canonical order; and the lookback is the
  widest among their history rows, 0 without one.
\<close>

theorem Resolve_is_union: "Resolve ents game now = resolve_spec (set ents) game now"
  by (rule Resolve_eq_spec)

text \<open>
  When every row is in the form the store writes, the scope \<open>Resolve\<close> hands to the signature is
  empty or canonical itself: a preset, or a sorted list of distinct store shorthands none of which
  spells a preset, so \<open>DEV_ACCESS\<close> is never signed in any spelling.
\<close>

theorem Resolve_never_dev_access:
  assumes "list_all (\<lambda>e. CanonicalEntitlement e = Inr e) ents" and "Resolve ents game now = Some a"
  shows "(ac_store_scope a = [] \<or> canonical_scope (ac_store_scope a)) \<and>
    (\<forall>t. t \<in> set (split_on comma (ac_store_scope a)) \<longrightarrow> \<not> equal_fold t ''DEV_ACCESS'')"
proof -
  have "ac_store_scope a = [] \<or> canonical_scope (ac_store_scope a)"
    using Resolve_scope_canonical [OF _ assms(2)] canonical_row_scope assms(1) by (auto simp: list_all_iff)
  moreover have "\<not> equal_fold [] ''DEV_ACCESS''" by (simp add: equal_fold_def to_lower_def)
  ultimately show ?thesis using canonical_scope_no_dev by auto
qed

definition sample_row :: "string \<Rightarrow> string list \<Rightarrow> int \<Rightarrow> Entitlement" where
  "sample_row scope modes lookback =
     empty_entitlement\<lparr>e_games := [''magic''], e_store_scope := scope, e_modes := modes,
       e_lookback_days := lookback, e_status := EntitlementActive, e_valid_from := 0\<rparr>"

theorem Resolve_never_dev_access_witness:
  "Resolve [sample_row ''SCG,TCG'' [''retail''] 0, sample_row ''CK,TCG'' [''buylist''] 0,
      sample_row '''' [''history''] 90] ''magic'' 5 =
     Some \<lparr>ac_store_scope = ''CK,SCG,TCG'', ac_modes = [''retail'', ''buylist'', ''history''], ac_lookback_days = 90\<rparr> \<and>
   canonical_scope ''CK,SCG,TCG''"
proof -
  let ?ents = "[sample_row ''SCG,TCG'' [''retail''] 0, sample_row ''CK,TCG'' [''buylist''] 0,
      sample_row '''' [''history''] 90]"
  let ?a = "\<lparr>ac_store_scope = ''CK,SCG,TCG'', ac_modes = [''retail'', ''buylist'', ''history''], ac_lookback_days = 90\<rparr>"
  have c: "list_all (\<lambda>e. CanonicalEntitlement e = Inr e) ?ents" by code_simp
  have r: "Resolve ?ents ''magic'' 5 = Some ?a" by code_simp
  from Resolve_never_dev_access [OF c r] r show ?thesis by simp
qed

end
