(* ===== verification/Client_IP.thy ===== *)
theory Client_IP
  imports Gateway_Prelude
begin

text \<open>
  \<open>src/clientip/clientip.go\<close>, with what it uses of the standard library: \<open>net/netip\<close>'s
  \<open>ParseAddr\<close>, \<open>Zone\<close>, \<open>Unmap\<close> and \<open>String\<close>, \<open>net.SplitHostPort\<close>, and the multi-valued header map of
  \<open>net/http\<close>. Header names are compared without case, as their canonical form makes them.
\<close>

section \<open>Headers\<close>

type_synonym headers = "(string \<times> string list) list"

definition hdr_values :: "headers \<Rightarrow> string \<Rightarrow> string list" where
  "hdr_values hs k = concat (map snd (filter (\<lambda>(n, vs). equal_fold n k) hs))"

definition hdr_get :: "headers \<Rightarrow> string \<Rightarrow> string" where
  "hdr_get hs k = (case hdr_values hs k of [] \<Rightarrow> [] | v # vs \<Rightarrow> v)"

definition hdr_del :: "string \<Rightarrow> headers \<Rightarrow> headers" where
  "hdr_del k hs = filter (\<lambda>(n, vs). \<not> equal_fold n k) hs"

definition hdr_set :: "string \<Rightarrow> string \<Rightarrow> headers \<Rightarrow> headers" where
  "hdr_set k v hs = hdr_del k hs @ [(k, [v])]"

lemma equal_fold_refl [simp]: "equal_fold s s"
  by (simp add: equal_fold_def)

lemma equal_fold_sym: "equal_fold s t \<longleftrightarrow> equal_fold t s"
  by (auto simp: equal_fold_def)

lemma equal_fold_trans: "equal_fold s t \<Longrightarrow> equal_fold t u \<Longrightarrow> equal_fold s u"
  by (simp add: equal_fold_def)

lemma hdr_values_del: "hdr_values (hdr_del k hs) n = (if equal_fold n k then [] else hdr_values hs n)"
proof (cases "equal_fold n k")
  case True
  then have "filter (\<lambda>(m, vs). equal_fold m n) (hdr_del k hs) = []"
    by (auto simp: hdr_del_def filter_empty_conv dest: equal_fold_trans)
  then show ?thesis using True by (simp add: hdr_values_def)
next
  case False
  then have "filter (\<lambda>(m, vs). equal_fold m n) (hdr_del k hs) = filter (\<lambda>(m, vs). equal_fold m n) hs"
    unfolding hdr_del_def filter_filter
    by (intro filter_cong) (auto simp: equal_fold_def)
  then show ?thesis using False by (simp add: hdr_values_def)
qed

lemma hdr_values_set: "hdr_values (hdr_set k v hs) n = (if equal_fold n k then [v] else hdr_values hs n)"
proof -
  have "hdr_values (hs' @ [(k, [v])]) n = hdr_values hs' n @ (if equal_fold k n then [v] else [])" for hs'
    by (simp add: hdr_values_def)
  then show ?thesis by (auto simp: hdr_set_def hdr_values_del equal_fold_sym)
qed

section \<open>Addresses\<close>

text \<open>An address is its four bytes or its eight groups.\<close>

datatype addr = V4 "int list" | V6 "int list"

definition ipv4_field :: "string \<Rightarrow> int option" where
  "ipv4_field p =
     (if p = [] \<or> \<not> list_all is_digit p \<or> (1 < length p \<and> hd p = CHR ''0'') \<or> 255 < digits_value p
      then None else Some (int (digits_value p)))"

definition parse_ipv4 :: "string \<Rightarrow> int list option" where
  "parse_ipv4 s =
     (let parts = split_on CHR ''.'' s in
      if length parts = 4 \<and> list_all (\<lambda>p. ipv4_field p \<noteq> None) parts
      then Some (map (the \<circ> ipv4_field) parts) else None)"

definition hex_value :: "char \<Rightarrow> int option" where
  "hex_value c =
     (let n = of_char c :: int in
      if 48 \<le> n \<and> n \<le> 57 then Some (n - 48)
      else if 97 \<le> n \<and> n \<le> 102 then Some (n - 87)
      else if 65 \<le> n \<and> n \<le> 70 then Some (n - 55) else None)"

text \<open>The leading hexadecimal digits of a string, their number, and what follows them.\<close>

fun hex_run :: "string \<Rightarrow> int \<Rightarrow> nat \<Rightarrow> int \<times> nat \<times> string" where
  "hex_run [] acc off = (acc, off, [])"
| "hex_run (c # cs) acc off =
     (case hex_value c of None \<Rightarrow> (acc, off, c # cs) | Some d \<Rightarrow> hex_run cs (16 * acc + d) (Suc off))"

text \<open>
  The loop of \<open>parseIPv6\<close>: the groups so far, where the ellipsis stands among them, and the rest
  of the text. The fuel is the number of groups still to fill.
\<close>

fun ipv6_groups :: "nat \<Rightarrow> int list \<Rightarrow> nat option \<Rightarrow> string \<Rightarrow> (int list \<times> nat option \<times> string) option" where
  "ipv6_groups 0 gs ell s = Some (gs, ell, s)"
| "ipv6_groups (Suc n) gs ell s =
     (case hex_run s 0 0 of (acc, off, rest) \<Rightarrow>
        if off = 0 \<or> 4 < off then None
        else if rest \<noteq> [] \<and> hd rest = CHR ''.'' then
          (if (ell = None \<and> length gs \<noteq> 6) \<or> 6 < length gs then None
           else case parse_ipv4 s of
               Some [a, b, c, d] \<Rightarrow> Some (gs @ [256 * a + b, 256 * c + d], ell, [])
             | _ \<Rightarrow> None)
        else
          let gs' = gs @ [acc] in
          (case rest of
             [] \<Rightarrow> Some (gs', ell, [])
           | c # [] \<Rightarrow> None
           | c # d # rest' \<Rightarrow>
               if c \<noteq> CHR '':'' then None
               else if d = CHR '':'' then
                 (if ell \<noteq> None then None
                  else if rest' = [] then Some (gs', Some (length gs'), [])
                  else ipv6_groups n gs' (Some (length gs')) rest')
               else ipv6_groups n gs' ell (d # rest')))"

definition parse_ipv6 :: "string \<Rightarrow> int list option" where
  "parse_ipv6 s0 =
     (let lead = has_prefix s0 ''::'';
          s = (if lead then drop 2 s0 else s0)
      in if lead \<and> s = [] then Some (replicate 8 0)
         else case ipv6_groups 8 [] (if lead then Some 0 else None) s of
             None \<Rightarrow> None
           | Some (gs, ell, rest) \<Rightarrow>
               if rest \<noteq> [] then None
               else if length gs < 8 then
                 (case ell of None \<Rightarrow> None
                  | Some e \<Rightarrow> Some (take e gs @ replicate (8 - length gs) 0 @ drop e gs))
               else if ell \<noteq> None then None else Some gs)"

text \<open>
  \<open>ParseAddr\<close> of a literal without a zone; the sources use the address only then. A zone, even
  an empty one, makes the literal unusable for them.
\<close>

definition parse_addr :: "string \<Rightarrow> addr option" where
  "parse_addr s =
     (if CHR ''%'' \<in> set s then None
      else case find (\<lambda>c. c = CHR ''.'' \<or> c = CHR '':'') s of
          None \<Rightarrow> None
        | Some c \<Rightarrow> if c = CHR ''.'' then map_option V4 (parse_ipv4 s) else map_option V6 (parse_ipv6 s))"

definition unmap_addr :: "addr \<Rightarrow> addr" where
  "unmap_addr a =
     (case a of
        V6 [g0, g1, g2, g3, g4, g5, g6, g7] \<Rightarrow>
          if g0 = 0 \<and> g1 = 0 \<and> g2 = 0 \<and> g3 = 0 \<and> g4 = 0 \<and> g5 = 0xffff
          then V4 [g6 div 256, g6 mod 256, g7 div 256, g7 mod 256] else a
      | _ \<Rightarrow> a)"

fun hex_digits :: "nat \<Rightarrow> int \<Rightarrow> string" where
  "hex_digits 0 n = []"
| "hex_digits (Suc w) n =
     (if n < 16 then [] else hex_digits w (n div 16)) @
     [let d = n mod 16 in if d < 10 then char_of (48 + d) else char_of (87 + d)]"

text \<open>The first longest run of at least two zero groups: where it starts and ends.\<close>

fun zero_run_from :: "int list \<Rightarrow> nat" where
  "zero_run_from (g # gs) = (if g = 0 then Suc (zero_run_from gs) else 0)"
| "zero_run_from [] = 0"

definition zero_run :: "int list \<Rightarrow> (nat \<times> nat) option" where
  "zero_run gs =
     foldl (\<lambda>best i. let l = zero_run_from (drop i gs) in
         if 2 \<le> l \<and> (case best of None \<Rightarrow> True | Some (a, b) \<Rightarrow> b - a < l) then Some (i, i + l) else best)
       None [0..<length gs]"

definition addr_string :: "addr \<Rightarrow> string" where
  "addr_string a =
     (case a of
        V4 bs \<Rightarrow> join ''.'' (map format_int bs)
      | V6 gs \<Rightarrow>
          (case zero_run gs of
             None \<Rightarrow> join '':'' (map (hex_digits 4) gs)
           | Some (i, j) \<Rightarrow> join '':'' (map (hex_digits 4) (take i gs)) @ ''::'' @
               join '':'' (map (hex_digits 4) (drop j gs))))"

section \<open>The peer address\<close>

definition last_index :: "char \<Rightarrow> string \<Rightarrow> nat option" where
  "last_index c s = find (\<lambda>i. s ! i = c) (rev [0..<length s])"

definition first_index :: "char \<Rightarrow> string \<Rightarrow> nat option" where
  "first_index c s = find (\<lambda>i. s ! i = c) [0..<length s]"

text \<open>The host of \<open>net.SplitHostPort\<close>; \<open>None\<close> for its errors.\<close>

definition split_host :: "string \<Rightarrow> string option" where
  "split_host hp =
     (case last_index CHR '':'' hp of
        None \<Rightarrow> None
      | Some i \<Rightarrow>
          if hd hp = CHR ''['' then
            (case first_index CHR '']'' hp of
               None \<Rightarrow> None
             | Some e \<Rightarrow>
                 if e + 1 \<noteq> i then None
                 else if CHR ''['' \<in> set (drop 1 hp) \<or> CHR '']'' \<in> set (drop (e + 1) hp) then None
                 else Some (take (e - 1) (drop 1 hp)))
          else
            let host = take i hp in
            if CHR '':'' \<in> set host \<or> CHR ''['' \<in> set hp \<or> CHR '']'' \<in> set hp then None
            else Some host)"

definition usable_addr :: "string \<Rightarrow> string option" where
  "usable_addr s = map_option (addr_string \<circ> unmap_addr) (parse_addr s)"

definition peer_addr :: "string \<Rightarrow> string" where
  "peer_addr remote =
     (let host = (case split_host remote of Some h \<Rightarrow> h | None \<Rightarrow> remote)
      in case usable_addr host of Some a \<Rightarrow> a | None \<Rightarrow> [])"

definition FromRequest :: "headers \<Rightarrow> string \<Rightarrow> string \<Rightarrow> string" where
  "FromRequest hs remote header =
     (let vs = hdr_values hs header in
      if header \<noteq> [] \<and> vs \<noteq> [] then
        (case usable_addr (trim_space (last (split_on comma (last vs)))) of
           Some a \<Rightarrow> a
         | None \<Rightarrow> peer_addr remote)
      else peer_addr remote)"

section \<open>Lemmas\<close>

lemma split_on_sep: "split_on c (a @ c # b) = split_on c a @ split_on c b"
proof (induction a)
  case (Cons x a)
  then show ?case by (cases "split_on c a") auto
qed simp

lemma last_split_on: "c \<notin> set b \<Longrightarrow> last (split_on c (a @ c # b)) = b"
  by (simp add: split_on_sep split_on_no_sep)

text \<open>What the client sent before the edge's own element does not matter.\<close>

lemma FromRequest_last:
  assumes "header \<noteq> []" "hdr_values hs header \<noteq> []" "last (hdr_values hs header) = sent @ comma # edge"
    "comma \<notin> set edge" "usable_addr (trim_space edge) = Some a"
  shows "FromRequest hs remote header = a"
  using assms by (simp add: FromRequest_def Let_def last_split_on)

lemma hex_run_length: "hex_run s acc off = (acc', off', rest) \<Longrightarrow> off \<le> off'"
  by (induction s arbitrary: acc off) (fastforce split: option.splits)+

end
