(* ===== verification/Handler.thy ===== *)
theory Handler
  imports Complex_Main Resolver Route Access Client_IP
begin

text \<open>
  \<open>src/gateway/handler.go\<close>, \<open>sig.go\<close> and \<open>errors.go\<close>: one request from the method check to the
  usage row. What is outside the repository comes in as the environment: the rate limiter
  (\<open>mtgban-website/ratelimit\<close>), the signature (\<open>apisig.Mint\<close>), and the game backends. The standard
  library's reverse proxy is modelled by the three callbacks it is given and the order in which it
  calls them; what it does on its own to the headers it hands on (hop-by-hop headers) is an
  arbitrary function. A query is the list of its decoded parameters.
\<close>

section \<open>Configuration\<close>

record Upstream =
  up_url :: string
  up_secret :: string

text \<open>Rates are floating-point numbers in the code, rational numbers here.\<close>

record Options =
  op_games :: "(string \<times> Upstream) list"
  op_gateway_email :: string
  op_link :: string
  op_client_ip_header :: string
  op_per_key_rate :: rat
  op_per_key_burst :: int
  op_per_key_history_rate :: rat
  op_per_key_history_burst :: int
  op_per_ip_rate :: rat
  op_per_ip_burst :: int
  op_upstream_timeout :: duration
  op_sig_ttl :: duration

datatype option_error =
    BadUpstreamTimeout | BadSigTTL | BadPerKeyRate | BadPerKeyBurst
  | BadPerKeyHistoryRate | BadPerKeyHistoryBurst | BadPerIPRate | BadPerIPBurst

definition Options_validate :: "Options \<Rightarrow> option_error option" where
  "Options_validate o' =
     (if op_upstream_timeout o' \<le> 0 then Some BadUpstreamTimeout
      else if op_sig_ttl o' \<le> 0 then Some BadSigTTL
      else if op_per_key_rate o' \<le> 0 then Some BadPerKeyRate
      else if op_per_key_burst o' \<le> 0 then Some BadPerKeyBurst
      else if op_per_key_history_rate o' \<le> 0 then Some BadPerKeyHistoryRate
      else if op_per_key_history_burst o' \<le> 0 then Some BadPerKeyHistoryBurst
      else if op_per_ip_rate o' \<le> 0 then Some BadPerIPRate
      else if op_per_ip_burst o' \<le> 0 then Some BadPerIPBurst
      else None)"

text \<open>An account limiter: the limiter's own state and the rate for the header.\<close>

record 'l accountLimiter =
  al_limiter :: 'l
  al_per_sec :: int

definition newLimiter :: "(rat \<Rightarrow> int \<Rightarrow> 'l) \<Rightarrow> rat \<Rightarrow> int \<Rightarrow> 'l accountLimiter" where
  "newLimiter mk per_sec burst = \<lparr>al_limiter = mk per_sec burst, al_per_sec = \<lceil>per_sec\<rceil>\<rparr>"

text \<open>The handler with the state of what it holds; \<open>hd_usage\<close> is what its meter was handed.\<close>

record 'l Handler =
  hd_opts :: Options
  hd_games :: "(string \<times> Upstream) list"
  hd_proxies :: "(string \<times> Upstream) list"
  hd_res :: Resolver
  hd_usage :: "Usage list"
  hd_limiter :: "'l accountLimiter"
  hd_history_limiter :: "'l accountLimiter"
  hd_ip_limiter :: 'l

definition New :: "(rat \<Rightarrow> int \<Rightarrow> 'l) \<Rightarrow> Options \<Rightarrow> Resolver \<Rightarrow> option_error + 'l Handler" where
  "New mk opts res =
     (case Options_validate opts of
        Some err \<Rightarrow> Inl err
      | None \<Rightarrow>
          Inr \<lparr>hd_opts = opts, hd_games = op_games opts, hd_proxies = op_games opts, hd_res = res,
               hd_usage = [], hd_limiter = newLimiter mk (op_per_key_rate opts) (op_per_key_burst opts),
               hd_history_limiter = newLimiter mk (op_per_key_history_rate opts) (op_per_key_history_burst opts),
               hd_ip_limiter = mk (op_per_ip_rate opts) (op_per_ip_burst opts)\<rparr>)"

definition GameNames :: "'l Handler \<Rightarrow> string list" where
  "GameNames h = sort (map fst (hd_games h))"

section \<open>Signatures\<close>

type_synonym query = "(string \<times> string) list"

record Claims =
  cm_api :: string
  cm_fields :: query
  cm_expires :: int

type_synonym minter = "string \<Rightarrow> string \<Rightarrow> Claims \<Rightarrow> string"

definition unix_seconds :: "time \<Rightarrow> int" where
  "unix_seconds t = t div second"

definition mintSig ::
  "minter \<Rightarrow> Upstream \<Rightarrow> string \<Rightarrow> string \<Rightarrow> string \<Rightarrow> string list \<Rightarrow> int \<Rightarrow> time \<Rightarrow> string" where
  "mintSig Mint up link email scope modes lookback_days expires =
     (let fields = [(''APImode'', join '','' modes), (''UserEmail'', email)];
          fields' = (if lookback_days > 0 then fields @ [(''APIlookback'', format_int lookback_days)] else fields)
      in Mint (up_secret up) link \<lparr>cm_api = scope, cm_fields = fields', cm_expires = unix_seconds expires\<rparr>)"

section \<open>Requests and responses\<close>

record request =
  rq_method :: string
  rq_path :: string
  rq_query :: query
  rq_headers :: headers
  rq_remote :: string

text \<open>What a client is sent: an error of the gateway's own, or a body of the backend's.\<close>

datatype body = ErrorBody string string | UpstreamBody string

record response =
  rp_status :: int
  rp_headers :: headers
  rp_body :: body

record out_request =
  or_url :: string
  or_path :: string
  or_query :: query
  or_headers :: headers

datatype transport_error = TransportCanceled | TransportDeadline | TransportTimeout | TransportOther

datatype reply = Failed transport_error | Answered int headers string

text \<open>
  The JSON of \<open>writeError\<close>. The messages and the games it is called with hold nothing that JSON
  escapes.
\<close>

definition error_json :: "string \<Rightarrow> string \<Rightarrow> string" where
  "error_json msg game =
     ''{\"error\":\"'' @ msg @ ''\"'' @ (if game \<noteq> [] then '',\"game\":\"'' @ game @ ''\"'' else []) @ ''}\<newline>''"

definition writeError :: "headers \<Rightarrow> int \<Rightarrow> string \<Rightarrow> string \<Rightarrow> response" where
  "writeError hs status msg game =
     \<lparr>rp_status = status, rp_headers = hdr_set ''Content-Type'' ''application/json'' hs, rp_body = ErrorBody msg game\<rparr>"

section \<open>The proxy's callbacks\<close>

record proxyParams =
  pp_sig :: string
  pp_path :: string
  pp_client_ip :: string
  pp_game :: string
  pp_kind :: string

definition passStatus :: "proxyParams \<Rightarrow> bool" where
  "passStatus p \<longleftrightarrow> pp_kind p = ''history'' \<or> pp_kind p = ''newspaper''"

definition q_del :: "string \<Rightarrow> query \<Rightarrow> query" where
  "q_del k q = filter (\<lambda>(n, v). n \<noteq> k) q"

definition q_get :: "query \<Rightarrow> string \<Rightarrow> string" where
  "q_get q k = (case filter (\<lambda>(n, v). n = k) q of [] \<Rightarrow> [] | (n, v) # _ \<Rightarrow> v)"

text \<open>\<open>Encode\<close> sorts by name; the values of one name keep their order.\<close>

definition q_encode :: "query \<Rightarrow> query" where
  "q_encode q = sort_key fst q"

definition rewrite_request :: "Upstream \<Rightarrow> string \<Rightarrow> request \<Rightarrow> headers \<Rightarrow> proxyParams \<Rightarrow> out_request" where
  "rewrite_request up ip_header rq out_headers p =
     (let q = q_del ''key'' (q_del ''sig'' (rq_query rq));
          q' = q_del ''sig'' q @ [(''sig'', pp_sig p)];
          h1 = hdr_del ''Forwarded'' (hdr_del ''X-Real-Ip'' (hdr_del ''Authorization'' (hdr_del ''Cookie'' out_headers)));
          h2 = (if ip_header \<noteq> [] then hdr_del ip_header h1 else h1);
          h3 = (if pp_client_ip p \<noteq> [] then hdr_set ''X-Forwarded-For'' (pp_client_ip p) h2
                else hdr_del ''X-Forwarded-For'' h2)
      in \<lparr>or_url = up_url up, or_path = pp_path p, or_query = q_encode q',
          or_headers = hdr_set ''X-Forwarded-Proto'' ''https'' h3\<rparr>)"

definition directive_name :: "string \<Rightarrow> string" where
  "directive_name d = fst (cut CHR ''='' (to_lower d))"

definition privateCacheControl :: "string \<Rightarrow> string" where
  "privateCacheControl v =
     join '', '' (''private'' # filter (\<lambda>d. \<not> (d = [] \<or> directive_name d = ''public'' \<or>
         directive_name d = ''private'' \<or> directive_name d = ''s-maxage''))
       (map trim_space (split_on comma v)))"

definition sigRejected :: "string \<Rightarrow> bool" where
  "sigRejected head0 =
     (let head = trim_space head0 in
      list_ex (has_prefix head) [''{\"error\": \"invalid'', ''{\"error\":\"invalid''])"

datatype proxy_error = UpstreamStatus int | SigRejected | Transport transport_error

definition ModifyResponse :: "proxyParams \<Rightarrow> int \<Rightarrow> headers \<Rightarrow> string \<Rightarrow> proxy_error + headers" where
  "ModifyResponse p status hs0 upstream_body =
     (let h1 = hdr_del ''RateLimit-Limit'' hs0;
          h2 = (if passStatus p
                then hdr_set ''Cache-Control'' (privateCacheControl (join '','' (hdr_values h1 ''Cache-Control''))) h1
                else h1)
      in if status = 429 \<or> status = 304 then Inr h2
         else if passStatus p \<and> status \<noteq> 401 \<and> status \<noteq> 403 \<and> (400 \<le> status \<and> status < 500 \<or> status = 503)
         then Inr h2
         else if status < 200 \<or> 300 \<le> status then Inl (UpstreamStatus status)
         else if status = 200 \<and> has_prefix (hdr_get h2 ''Content-Type'') ''application/json'' \<and>
           sigRejected (take 300 upstream_body) then Inl SigRejected
         else Inr h2)"

text \<open>\<open>None\<close> when the client is gone and nothing is written.\<close>

definition ErrorHandler :: "headers \<Rightarrow> bool \<Rightarrow> string \<Rightarrow> proxy_error \<Rightarrow> response option" where
  "ErrorHandler hs client_gone game err =
     (if err = Transport TransportCanceled \<and> client_gone then None
      else Some (case err of
          SigRejected \<Rightarrow> writeError hs 502 ''upstream rejected gateway signature'' game
        | UpstreamStatus code \<Rightarrow> writeError hs 502 (''upstream returned '' @ format_int code) game
        | Transport TransportDeadline \<Rightarrow> writeError hs 504 ''upstream timed out'' game
        | Transport TransportTimeout \<Rightarrow> writeError hs 504 ''upstream timed out'' game
        | Transport _ \<Rightarrow> writeError hs 502 ''upstream unavailable'' game))"

section \<open>The environment of a request\<close>

record 'l env =
  en_allow :: "'l \<Rightarrow> string \<Rightarrow> bool \<times> 'l"
  en_mint :: minter
  en_backend :: "out_request \<Rightarrow> reply"
  en_out_headers :: "headers \<Rightarrow> headers"
  en_in_headers :: "headers \<Rightarrow> headers"

text \<open>
  What happens while the request is served: the fetch the resolver waits for, the clock readings,
  whether the client went away, and how many bytes of the body reached it.
\<close>

record moment =
  mo_fetch :: "fetchResult option"
  mo_order :: "string list"
  mo_resolve :: time
  mo_fetched :: time
  mo_now :: time
  mo_start :: time
  mo_elapsed :: duration
  mo_client_gone :: bool
  mo_copied :: int

text \<open>The outcome: what was sent upstream, if anything, and what was written to the client.\<close>

record outcome =
  oc_forwarded :: "out_request option"
  oc_response :: "response option"

definition refuse :: "'l Handler \<Rightarrow> response \<Rightarrow> outcome \<times> 'l Handler" where
  "refuse h rsp = (\<lparr>oc_forwarded = None, oc_response = Some rsp\<rparr>, h)"

definition proxy_serve ::
  "'l env \<Rightarrow> moment \<Rightarrow> Upstream \<Rightarrow> string \<Rightarrow> request \<Rightarrow> headers \<Rightarrow> proxyParams \<Rightarrow> out_request \<times> response option" where
  "proxy_serve en mo up ip_header rq own p =
     (let out = rewrite_request up ip_header rq (en_out_headers en (rq_headers rq)) p in
      (out,
       case en_backend en out of
         Failed err \<Rightarrow> ErrorHandler own (mo_client_gone mo) (pp_game p) (Transport err)
       | Answered status hs upstream_body \<Rightarrow>
           (case ModifyResponse p status (en_in_headers en hs) upstream_body of
              Inl err \<Rightarrow> ErrorHandler own (mo_client_gone mo) (pp_game p) err
            | Inr hs' \<Rightarrow> Some \<lparr>rp_status = status, rp_headers = own @ hs', rp_body = UpstreamBody upstream_body\<rparr>)))"

definition written_bytes :: "moment \<Rightarrow> response option \<Rightarrow> int" where
  "written_bytes mo rsp =
     (case rsp of
        None \<Rightarrow> 0
      | Some r \<Rightarrow> (case rp_body r of
            ErrorBody msg game \<Rightarrow> int (length (error_json msg game))
          | UpstreamBody _ \<Rightarrow> mo_copied mo))"

definition bearerKey :: "request \<Rightarrow> string" where
  "bearerKey rq =
     (let auth = hdr_get (rq_headers rq) ''Authorization'' in
      if auth \<noteq> [] then
        (case cut CHR '' '' auth of (a, b, ok) \<Rightarrow>
           let scheme = (if ok then a else auth); token = (if ok then b else []) in
           if equal_fold scheme ''Bearer'' then trim_space token
           else q_get (rq_query rq) ''key'')
      else q_get (rq_query rq) ''key'')"

section \<open>ServeHTTP\<close>

text \<open>The checks between the lookup and the account's limiter.\<close>

definition plan_check :: "Lookup \<Rightarrow> Route \<Rightarrow> time \<Rightarrow> response + Access" where
  "plan_check lk route now =
     (if k_revoked_at (l_key lk) \<noteq> None then Inl (writeError [] 401 ''revoked API key'' [])
      else if a_status (l_account lk) \<noteq> AccountActive then Inl (writeError [] 401 ''account suspended'' [])
      else case Resolve (l_entitlements lk) (r_game route) now of
          None \<Rightarrow> Inl (writeError [] 403 ''plan does not include game'' (r_game route))
        | Some access \<Rightarrow>
            let history = (r_kind route = ''history'') in
            if ac_store_scope access = ''DEV_ACCESS'' \<or> (\<not> history \<and> ac_store_scope access = [])
            then Inl (writeError [] 403 ''plan has no store scope'' (r_game route))
            else case find (\<lambda>m. \<not> HasMode access m) (NeedsModes route) of
                Some m \<Rightarrow> Inl (writeError [] 403 (''plan does not include mode '' @ m) (r_game route))
              | None \<Rightarrow>
                  if history \<and> ac_lookback_days access \<le> 0
                  then Inl (writeError [] 403 ''plan has no history lookback'' (r_game route))
                  else Inr access)"

text \<open>The request is forwarded and metered; the row is recorded whatever the proxy does.\<close>

definition serve_proxy ::
  "'l env \<Rightarrow> moment \<Rightarrow> 'l Handler \<Rightarrow> request \<Rightarrow> Route \<Rightarrow> Upstream \<Rightarrow> Upstream \<Rightarrow> string \<Rightarrow> Lookup \<Rightarrow> Access \<Rightarrow> headers \<Rightarrow>
     outcome \<times> 'l Handler" where
  "serve_proxy en mo h rq route up proxy ip lk access own =
     (let sig = mintSig (en_mint en) up (op_link (hd_opts h)) (op_gateway_email (hd_opts h))
                  (ac_store_scope access) (ac_modes access) (ac_lookback_days access)
                  (mo_now mo + op_sig_ttl (hd_opts h));
          p = \<lparr>pp_sig = sig, pp_path = BackendPath route, pp_client_ip = ip, pp_game = r_game route, pp_kind = r_kind route\<rparr>;
          own' = hdr_set ''X-MTGBAN-Account'' (format_int (a_id (l_account lk)))
                   (hdr_set ''X-MTGBAN-Game'' (r_game route) own)
      in case proxy_serve en mo proxy (op_client_ip_header (hd_opts h)) rq own' p of (out, rsp) \<Rightarrow>
        (\<lparr>oc_forwarded = Some out, oc_response = rsp\<rparr>,
         h\<lparr>hd_usage := hd_usage h @
             [\<lparr>us_ts = mo_start mo, us_key_id = k_id (l_key lk), us_account_id = a_id (l_account lk),
               us_game = r_game route, us_path = BackendPath route,
               us_status = (case rsp of None \<Rightarrow> 499 | Some r \<Rightarrow> rp_status r),
               us_bytes = written_bytes mo rsp, us_duration_ms = mo_elapsed mo div 1000000,
               us_client_ip = ip\<rparr>]\<rparr>))"

definition account_key :: "Lookup \<Rightarrow> string" where
  "account_key lk = ''account:'' @ format_int (a_id (l_account lk))"

text \<open>From a resolved key on. The history routes have a limiter of their own.\<close>

definition serve_lookup ::
  "'l env \<Rightarrow> moment \<Rightarrow> 'l Handler \<Rightarrow> request \<Rightarrow> Route \<Rightarrow> Upstream \<Rightarrow> Upstream \<Rightarrow> string \<Rightarrow> Lookup \<Rightarrow>
     outcome \<times> 'l Handler" where
  "serve_lookup en mo h rq route up proxy ip lk =
     (case plan_check lk route (mo_now mo) of
        Inl rsp \<Rightarrow> refuse h rsp
      | Inr access \<Rightarrow>
          let history = (r_kind route = ''history'');
              lim = (if history then hd_history_limiter h else hd_limiter h);
              own = hdr_set ''RateLimit-Limit'' (format_int (al_per_sec lim)) []
          in case en_allow en (al_limiter lim) (account_key lk) of (ok, l') \<Rightarrow>
            let h' = (if history then h\<lparr>hd_history_limiter := lim\<lparr>al_limiter := l'\<rparr>\<rparr>
                      else h\<lparr>hd_limiter := lim\<lparr>al_limiter := l'\<rparr>\<rparr>)
            in if \<not> ok then refuse h' (writeError own 429 ''too many requests'' [])
               else serve_proxy en mo h' rq route up proxy ip lk access own)"

text \<open>From the key of an address within its limit on.\<close>

definition serve_key ::
  "'l env \<Rightarrow> moment \<Rightarrow> 'l Handler \<Rightarrow> request \<Rightarrow> Route \<Rightarrow> Upstream \<Rightarrow> Upstream \<Rightarrow> string \<Rightarrow> outcome \<times> 'l Handler" where
  "serve_key en mo h rq route up proxy ip =
     (let plain = bearerKey rq in
      if plain = [] then refuse h (writeError [] 401 ''missing API key'' [])
      else if \<not> LooksLikeKey plain then refuse h (writeError [] 401 ''malformed API key'' [])
      else case Resolver_Resolve (mo_order mo) (hd_res h) (mo_resolve mo) (HashKey plain) (mo_fetch mo) (mo_fetched mo) of
          (Inl ErrUnknownKey, res') \<Rightarrow> refuse (h\<lparr>hd_res := res'\<rparr>) (writeError [] 401 ''unknown API key'' [])
        | (Inl ErrUnavailable, res') \<Rightarrow>
            refuse (h\<lparr>hd_res := res'\<rparr>)
              (writeError (hdr_set ''Retry-After'' ''30'' []) 503 ''key lookup unavailable, try again shortly'' [])
        | (Inr lk, res') \<Rightarrow> serve_lookup en mo (h\<lparr>hd_res := res'\<rparr>) rq route up proxy ip lk)"

definition ServeHTTP :: "'l env \<Rightarrow> moment \<Rightarrow> 'l Handler \<Rightarrow> request \<Rightarrow> outcome \<times> 'l Handler" where
  "ServeHTTP en mo h rq =
     (if rq_method rq \<noteq> ''GET'' then refuse h (writeError [] 405 ''method not allowed'' [])
      else case ParseRoute (rq_path rq) of
          Inl _ \<Rightarrow> refuse h (writeError [] 404 ''not found'' [])
        | Inr route \<Rightarrow>
            (case (map_of (hd_games h) (r_game route), map_of (hd_proxies h) (r_game route)) of
               (Some up, Some proxy) \<Rightarrow>
                 let ip = FromRequest (rq_headers rq) (rq_remote rq) (op_client_ip_header (hd_opts h)) in
                 (case en_allow en (hd_ip_limiter h) ip of (ok, l') \<Rightarrow>
                    if \<not> ok then
                      refuse (h\<lparr>hd_ip_limiter := l'\<rparr>)
                        (writeError (hdr_set ''Retry-After'' ''1'' []) 429 ''too many requests from this address'' [])
                    else serve_key en mo (h\<lparr>hd_ip_limiter := l'\<rparr>) rq route up proxy ip)
             | _ \<Rightarrow> refuse h (writeError [] 404 ''unknown game'' (r_game route))))"

section \<open>Lemmas: the callbacks\<close>

lemma q_encode_filter: "filter (\<lambda>(n, v). n = k) (q_encode q) = filter (\<lambda>(n, v). n = k) q"
proof -
  have eq: "(\<lambda>(n :: string, v :: string). n = k) = (\<lambda>x. fst x = k)" by auto
  show ?thesis unfolding q_encode_def eq by (rule sort_key_stable)
qed

lemma set_q_encode [simp]: "set (q_encode q) = set q"
  by (simp add: q_encode_def)

definition directives :: "string \<Rightarrow> string list" where
  "directives v = map trim_space (split_on comma v)"

definition kept_directive :: "string \<Rightarrow> bool" where
  "kept_directive d \<longleftrightarrow> \<not> (d = [] \<or> directive_name d = ''public'' \<or> directive_name d = ''private'' \<or> directive_name d = ''s-maxage'')"

lemma trim_space_lead: "trim_space (CHR '' '' # s) = trim_space s"
  by (simp add: trim_space_def is_space_def)

lemma split_on_space: "split_on comma (CHR '' '' # s) = (CHR '' '' # hd (split_on comma s)) # tl (split_on comma s)"
  by (cases "split_on comma s") auto

lemma directives_join:
  "ds \<noteq> [] \<Longrightarrow> \<forall>d \<in> set ds. comma \<notin> set d \<and> trim_space d = d \<Longrightarrow> directives (join '', '' ds) = ds"
proof (induction ds rule: induct_list012)
  case (2 d)
  then show ?case by (simp add: directives_def split_on_no_sep)
next
  case (3 d e ds)
  have IH: "directives (join '', '' (e # ds)) = e # ds" using 3 by simp
  have "split_on comma (d @ comma # CHR '' '' # join '', '' (e # ds)) =
      d # split_on comma (CHR '' '' # join '', '' (e # ds))"
    using 3 by (intro split_on_append) simp
  moreover have "map trim_space (split_on comma (CHR '' '' # s)) = directives s" for s
    unfolding split_on_space directives_def by (cases "split_on comma s") (simp_all add: trim_space_lead)
  ultimately show ?case using IH 3 by (simp add: directives_def)
qed simp

lemma directives_props: "d \<in> set (directives v) \<Longrightarrow> comma \<notin> set d \<and> trim_space d = d"
  unfolding directives_def using split_on_parts set_trim_space by fastforce

lemma privateCacheControl_eq:
  "privateCacheControl v = join '', '' (''private'' # filter kept_directive (directives v))"
  unfolding privateCacheControl_def kept_directive_def [abs_def] directives_def by (rule refl)

lemma trim_private: "trim_space ''private'' = ''private''" and no_comma_private: "comma \<notin> set ''private''"
  by code_simp+

lemma directives_private: "directives (privateCacheControl v) = ''private'' # filter kept_directive (directives v)"
  unfolding privateCacheControl_eq
  by (rule directives_join) (use directives_props trim_private no_comma_private in auto)

lemma not_kept_private: "\<not> kept_directive ''private''"
  by code_simp

section \<open>Lemmas: what is relayed\<close>

definition relayed_status :: "string \<Rightarrow> int \<Rightarrow> bool" where
  "relayed_status kind status \<longleftrightarrow> (200 \<le> status \<and> status < 300) \<or> status = 304 \<or> status = 429 \<or>
     ((kind = ''history'' \<or> kind = ''newspaper'') \<and>
       (400 \<le> status \<and> status < 500 \<and> status \<noteq> 401 \<and> status \<noteq> 403 \<or> status = 503))"

lemma ModifyResponse_status:
  "ModifyResponse p status hs b = Inr hs' \<Longrightarrow> relayed_status (pp_kind p) status"
  by (auto simp: ModifyResponse_def relayed_status_def passStatus_def Let_def split: if_splits)

lemma ModifyResponse_private:
  "ModifyResponse p status hs b = Inr hs' \<Longrightarrow> passStatus p \<Longrightarrow>
     hdr_values hs' ''Cache-Control'' = [privateCacheControl (join '','' (hdr_values (hdr_del ''RateLimit-Limit'' hs) ''Cache-Control''))]"
  by (auto simp: ModifyResponse_def hdr_values_set Let_def split: if_splits)

lemma ErrorHandler_status:
  "ErrorHandler own gone game err = Some r \<Longrightarrow>
     (rp_status r = 502 \<or> rp_status r = 504) \<and> (\<exists>msg. rp_body r = ErrorBody msg game)"
  by (auto simp: ErrorHandler_def writeError_def split: if_splits proxy_error.splits transport_error.splits)

lemma proxy_serve_fst: "fst (proxy_serve en mo up ih rq own p) = rewrite_request up ih rq (en_out_headers en (rq_headers rq)) p"
  by (simp add: proxy_serve_def Let_def)

lemma proxy_serve_status:
  assumes "snd (proxy_serve en mo up ih rq own p) = Some r"
  shows "rp_status r = 502 \<or> rp_status r = 504 \<or>
    (\<exists>status hs b. en_backend en (fst (proxy_serve en mo up ih rq own p)) = Answered status hs b \<and>
      rp_status r = status \<and> relayed_status (pp_kind p) status \<and> rp_body r = UpstreamBody b)"
proof (cases "en_backend en (rewrite_request up ih rq (en_out_headers en (rq_headers rq)) p)")
  case (Failed err)
  then show ?thesis using assms ErrorHandler_status by (fastforce simp: proxy_serve_def Let_def)
next
  case (Answered status hs b)
  show ?thesis
  proof (cases "ModifyResponse p status (en_in_headers en hs) b")
    case (Inl err)
    then show ?thesis using assms Answered ErrorHandler_status by (fastforce simp: proxy_serve_def Let_def)
  next
    case (Inr hs')
    then show ?thesis using assms Answered ModifyResponse_status [OF Inr] by (auto simp: proxy_serve_def Let_def)
  qed
qed

section \<open>Lemmas: which requests are forwarded\<close>

definition forwarded :: "outcome \<times> 'l Handler \<Rightarrow> bool" where
  "forwarded r \<longleftrightarrow> oc_forwarded (fst r) \<noteq> None"

lemma forwarded_refuse [simp]: "\<not> forwarded (refuse h r)"
  by (simp add: forwarded_def refuse_def)

lemma refuse_simps [simp]:
  "oc_forwarded (fst (refuse h r)) = None" "oc_response (fst (refuse h r)) = Some r" "snd (refuse h r) = h"
  by (simp_all add: refuse_def)

lemma plan_check_Inr:
  "plan_check lk route now = Inr access \<longleftrightarrow>
     k_revoked_at (l_key lk) = None \<and> a_status (l_account lk) = AccountActive \<and>
     Resolve (l_entitlements lk) (r_game route) now = Some access \<and>
     ac_store_scope access \<noteq> ''DEV_ACCESS'' \<and> (r_kind route = ''history'' \<or> ac_store_scope access \<noteq> []) \<and>
     (\<forall>m \<in> set (NeedsModes route). HasMode access m) \<and>
     (r_kind route = ''history'' \<longrightarrow> 0 < ac_lookback_days access)"
  by (auto simp: plan_check_def find_None Let_def split: option.splits)
     (auto simp: find_Some_iff)

text \<open>A refusal is never a success, and never a server error but 503.\<close>

lemma plan_check_Inl: "plan_check lk route now = Inl rsp \<Longrightarrow> rp_status rsp = 401 \<or> rp_status rsp = 403"
  by (auto simp: plan_check_def writeError_def Let_def split: if_splits option.splits)

lemma serve_proxy_forwarded:
  "\<exists>out rsp. serve_proxy en mo h rq route up proxy ip lk access own =
     (\<lparr>oc_forwarded = Some out, oc_response = rsp\<rparr>, h\<lparr>hd_usage := hd_usage h @
       [\<lparr>us_ts = mo_start mo, us_key_id = k_id (l_key lk), us_account_id = a_id (l_account lk),
         us_game = r_game route, us_path = BackendPath route,
         us_status = (case rsp of None \<Rightarrow> 499 | Some r \<Rightarrow> rp_status r),
         us_bytes = written_bytes mo rsp, us_duration_ms = mo_elapsed mo div 1000000, us_client_ip = ip\<rparr>]\<rparr>)"
  by (auto simp: serve_proxy_def Let_def split: prod.splits)

lemma forwarded_serve_proxy: "forwarded (serve_proxy en mo h rq route up proxy ip lk access own)"
  by (simp add: forwarded_def serve_proxy_def Let_def split: prod.splits)

lemma serve_lookup_forwarded:
  "forwarded (serve_lookup en mo h rq route up proxy ip lk) \<longleftrightarrow>
     (\<exists>access. plan_check lk route (mo_now mo) = Inr access) \<and>
     fst (en_allow en (al_limiter (if r_kind route = ''history'' then hd_history_limiter h else hd_limiter h)) (account_key lk))"
proof (cases "plan_check lk route (mo_now mo)")
  case (Inr access)
  let ?lim = "if r_kind route = ''history'' then hd_history_limiter h else hd_limiter h"
  obtain ok l' where a: "en_allow en (al_limiter ?lim) (account_key lk) = (ok, l')" by fastforce
  show ?thesis using Inr a unfolding serve_lookup_def Let_def by (simp add: forwarded_serve_proxy)
qed (simp add: serve_lookup_def)

definition forwards :: "'l env \<Rightarrow> moment \<Rightarrow> 'l Handler \<Rightarrow> request \<Rightarrow> bool" where
  "forwards en mo h rq \<longleftrightarrow> forwarded (ServeHTTP en mo h rq)"

text \<open>The answer of the resolver to the request's key.\<close>

definition key_answer :: "moment \<Rightarrow> 'l Handler \<Rightarrow> request \<Rightarrow> resolve_error + Lookup" where
  "key_answer mo h rq =
     fst (Resolver_Resolve (mo_order mo) (hd_res h) (mo_resolve mo) (HashKey (bearerKey rq)) (mo_fetch mo) (mo_fetched mo))"

lemma serve_key_forwarded:
  "forwarded (serve_key en mo h rq route up proxy ip) \<longleftrightarrow>
     LooksLikeKey (bearerKey rq) \<and> bearerKey rq \<noteq> [] \<and>
     (\<exists>lk access. key_answer mo h rq = Inr lk \<and> plan_check lk route (mo_now mo) = Inr access \<and>
        fst (en_allow en (al_limiter (if r_kind route = ''history'' then hd_history_limiter h else hd_limiter h)) (account_key lk)))"
proof -
  obtain ans res' where r: "Resolver_Resolve (mo_order mo) (hd_res h) (mo_resolve mo) (HashKey (bearerKey rq)) (mo_fetch mo) (mo_fetched mo) = (ans, res')"
    by fastforce
  have k: "key_answer mo h rq = ans" by (simp add: key_answer_def r)
  show ?thesis
  proof (cases ans)
    case (Inl err)
    then show ?thesis using r k by (cases err) (simp_all add: serve_key_def Let_def)
  next
    case (Inr lk)
    then have "serve_key en mo h rq route up proxy ip =
      (if bearerKey rq = [] then refuse h (writeError [] 401 ''missing API key'' [])
       else if \<not> LooksLikeKey (bearerKey rq) then refuse h (writeError [] 401 ''malformed API key'' [])
       else serve_lookup en mo (h\<lparr>hd_res := res'\<rparr>) rq route up proxy ip lk)"
      using r by (simp add: serve_key_def Let_def)
    then show ?thesis using k Inr by (auto simp: serve_lookup_forwarded)
  qed
qed

lemma LooksLikeKey_not_Nil: "LooksLikeKey s \<Longrightarrow> s \<noteq> []"
  using LooksLikeKey_no_comma_space by fastforce

lemma forwards_iff:
  "forwards en mo h rq \<longleftrightarrow>
     rq_method rq = ''GET'' \<and>
     (\<exists>route lk access. ParseRoute (rq_path rq) = Inr route \<and>
        map_of (hd_games h) (r_game route) \<noteq> None \<and> map_of (hd_proxies h) (r_game route) \<noteq> None \<and>
        fst (en_allow en (hd_ip_limiter h)
          (FromRequest (rq_headers rq) (rq_remote rq) (op_client_ip_header (hd_opts h)))) \<and>
        LooksLikeKey (bearerKey rq) \<and> key_answer mo h rq = Inr lk \<and>
        plan_check lk route (mo_now mo) = Inr access \<and>
        fst (en_allow en (al_limiter (if r_kind route = ''history'' then hd_history_limiter h else hd_limiter h)) (account_key lk)))"
proof (cases "ParseRoute (rq_path rq)")
  case (Inl err)
  then show ?thesis by (simp add: forwards_def ServeHTTP_def)
next
  case (Inr route)
  obtain ok l' where a: "en_allow en (hd_ip_limiter h)
      (FromRequest (rq_headers rq) (rq_remote rq) (op_client_ip_header (hd_opts h))) = (ok, l')" by fastforce
  have k: "key_answer mo (h\<lparr>hd_ip_limiter := l'\<rparr>) rq = key_answer mo h rq" by (simp add: key_answer_def)
  have ne: "LooksLikeKey (bearerKey rq) \<and> bearerKey rq \<noteq> [] \<longleftrightarrow> LooksLikeKey (bearerKey rq)"
    using LooksLikeKey_not_Nil by blast
  show ?thesis
  proof (cases "map_of (hd_games h) (r_game route) = None \<or> map_of (hd_proxies h) (r_game route) = None")
    case True
    then show ?thesis using Inr by (auto simp: forwards_def ServeHTTP_def split: option.splits)
  next
    case False
    then obtain up proxy where "map_of (hd_games h) (r_game route) = Some up" "map_of (hd_proxies h) (r_game route) = Some proxy"
      by auto
    then show ?thesis using Inr a k ne
      by (auto simp: forwards_def ServeHTTP_def Let_def serve_key_forwarded)
  qed
qed

section \<open>Lemmas: a request is refused or proxied\<close>

definition refusal :: "'l Handler \<Rightarrow> outcome \<times> 'l Handler \<Rightarrow> bool" where
  "refusal h result \<longleftrightarrow> (\<exists>h' r. result = refuse h' r \<and> hd_usage h' = hd_usage h \<and>
     rp_status r \<in> {401, 403, 404, 405, 429, 503} \<and> (\<exists>msg game. rp_body r = ErrorBody msg game))"

lemma writeError_simps [simp]:
  "rp_status (writeError hs st msg game) = st" "rp_body (writeError hs st msg game) = ErrorBody msg game"
  by (simp_all add: writeError_def)

lemma refusal_refuse:
  "hd_usage h' = hd_usage h \<Longrightarrow> st \<in> {401, 403, 404, 405, 429, 503} \<Longrightarrow> refusal h (refuse h' (writeError hs st msg game))"
  unfolding refusal_def by (metis writeError_simps)

lemma plan_check_writeError:
  "plan_check lk route now = Inl rsp \<Longrightarrow> \<exists>st msg game. rsp = writeError [] st msg game \<and> st \<in> {401, 403}"
  by (auto simp: plan_check_def Let_def split: if_splits option.splits)

text \<open>What is known of a request when it reaches the proxy.\<close>

definition proxied ::
  "'l env \<Rightarrow> moment \<Rightarrow> 'l Handler \<Rightarrow> request \<Rightarrow> Route \<Rightarrow> Upstream \<Rightarrow> Upstream \<Rightarrow> string \<Rightarrow> Lookup \<Rightarrow> outcome \<times> 'l Handler \<Rightarrow> bool" where
  "proxied en mo h rq route up proxy ip lk result \<longleftrightarrow>
     (\<exists>h' access own. result = serve_proxy en mo h' rq route up proxy ip lk access own \<and>
        plan_check lk route (mo_now mo) = Inr access \<and> hd_opts h' = hd_opts h \<and> hd_usage h' = hd_usage h)"

lemma serve_lookup_cases:
  "refusal h (serve_lookup en mo h rq route up proxy ip lk) \<or>
   proxied en mo h rq route up proxy ip lk (serve_lookup en mo h rq route up proxy ip lk)"
proof (cases "plan_check lk route (mo_now mo)")
  case (Inl rsp)
  then obtain st msg game where "rsp = writeError [] st msg game" "st \<in> {401, 403}"
    using plan_check_writeError by blast
  then show ?thesis using Inl refusal_refuse [of h h st "[]" msg game] by (auto simp: serve_lookup_def)
next
  case (Inr access)
  let ?lim = "if r_kind route = ''history'' then hd_history_limiter h else hd_limiter h"
  obtain ok l' where a: "en_allow en (al_limiter ?lim) (account_key lk) = (ok, l')" by fastforce
  define h' where "h' = (if r_kind route = ''history'' then h\<lparr>hd_history_limiter := ?lim\<lparr>al_limiter := l'\<rparr>\<rparr>
                      else h\<lparr>hd_limiter := ?lim\<lparr>al_limiter := l'\<rparr>\<rparr>)"
  define own where "own = hdr_set ''RateLimit-Limit'' (format_int (al_per_sec ?lim)) []"
  have h': "hd_opts h' = hd_opts h" "hd_usage h' = hd_usage h" by (simp_all add: h'_def)
  have "serve_lookup en mo h rq route up proxy ip lk =
      (if \<not> ok then refuse h' (writeError own 429 ''too many requests'' [])
       else serve_proxy en mo h' rq route up proxy ip lk access own)"
    using Inr a unfolding serve_lookup_def Let_def h'_def own_def by simp
  then show ?thesis using h' Inr refusal_refuse [of h' h 429 own "''too many requests''" "[]"]
    by (cases ok) (auto simp: proxied_def)
qed

lemma refusal_trans: "refusal h' result \<Longrightarrow> hd_usage h' = hd_usage h \<Longrightarrow> refusal h result"
  by (auto simp: refusal_def)

lemma proxied_trans:
  "proxied en mo h' rq route up proxy ip lk result \<Longrightarrow> hd_usage h' = hd_usage h \<Longrightarrow> hd_opts h' = hd_opts h \<Longrightarrow>
     proxied en mo h rq route up proxy ip lk result"
  by (auto simp: proxied_def)

lemma serve_key_cases:
  "refusal h (serve_key en mo h rq route up proxy ip) \<or>
   (\<exists>lk. key_answer mo h rq = Inr lk \<and>
      proxied en mo h rq route up proxy ip lk (serve_key en mo h rq route up proxy ip))"
proof -
  obtain ans res' where r: "Resolver_Resolve (mo_order mo) (hd_res h) (mo_resolve mo) (HashKey (bearerKey rq)) (mo_fetch mo) (mo_fetched mo) = (ans, res')"
    by fastforce
  have k: "key_answer mo h rq = ans" by (simp add: key_answer_def r)
  show ?thesis
  proof (cases "bearerKey rq = [] \<or> \<not> LooksLikeKey (bearerKey rq)")
    case True
    then show ?thesis by (auto simp: serve_key_def Let_def intro: refusal_refuse)
  next
    case False
    show ?thesis
    proof (cases ans)
      case (Inl err)
      then show ?thesis using r False by (cases err) (auto simp: serve_key_def Let_def intro!: refusal_refuse)
    next
      case (Inr lk)
      have "serve_key en mo h rq route up proxy ip = serve_lookup en mo (h\<lparr>hd_res := res'\<rparr>) rq route up proxy ip lk"
        using r False Inr by (simp add: serve_key_def Let_def)
      then show ?thesis
        using serve_lookup_cases [of "h\<lparr>hd_res := res'\<rparr>" en mo rq route up proxy ip lk] k Inr
        by (auto dest: refusal_trans [where h = h] proxied_trans [where h = h])
    qed
  qed
qed

lemma ServeHTTP_cases:
  obtains (refused) "refusal h (ServeHTTP en mo h rq)"
  | (proxied) route up proxy lk where "ParseRoute (rq_path rq) = Inr route"
      "map_of (hd_games h) (r_game route) = Some up" "map_of (hd_proxies h) (r_game route) = Some proxy"
      "key_answer mo h rq = Inr lk"
      "proxied en mo h rq route up proxy
        (FromRequest (rq_headers rq) (rq_remote rq) (op_client_ip_header (hd_opts h))) lk (ServeHTTP en mo h rq)"
proof (cases "rq_method rq \<noteq> ''GET'' \<or> (\<exists>e. ParseRoute (rq_path rq) = Inl e)")
  case True
  then have "refusal h (ServeHTTP en mo h rq)"
    by (auto simp: ServeHTTP_def intro!: refusal_refuse)
  then show ?thesis by (rule refused)
next
  case False
  then obtain route where route: "ParseRoute (rq_path rq) = Inr route" and get: "rq_method rq = ''GET''"
    by (cases "ParseRoute (rq_path rq)") auto
  define ip where "ip = FromRequest (rq_headers rq) (rq_remote rq) (op_client_ip_header (hd_opts h))"
  obtain ok l' where a: "en_allow en (hd_ip_limiter h) ip = (ok, l')" by fastforce
  show ?thesis
  proof (cases "map_of (hd_games h) (r_game route) = None \<or> map_of (hd_proxies h) (r_game route) = None")
    case True
    then have "refusal h (ServeHTTP en mo h rq)"
      using route get by (auto simp: ServeHTTP_def intro!: refusal_refuse split: option.splits)
    then show ?thesis by (rule refused)
  next
    case False
    then obtain up proxy where m: "map_of (hd_games h) (r_game route) = Some up" "map_of (hd_proxies h) (r_game route) = Some proxy"
      by auto
    have eq: "ServeHTTP en mo h rq = (if \<not> ok then refuse (h\<lparr>hd_ip_limiter := l'\<rparr>)
        (writeError (hdr_set ''Retry-After'' ''1'' []) 429 ''too many requests from this address'' [])
      else serve_key en mo (h\<lparr>hd_ip_limiter := l'\<rparr>) rq route up proxy ip)"
      using route get m a unfolding ServeHTTP_def ip_def by (simp add: Let_def)
    show ?thesis
    proof (cases ok)
      case False
      then have "refusal h (ServeHTTP en mo h rq)" unfolding eq by (auto intro!: refusal_refuse)
      then show ?thesis by (rule refused)
    next
      case True
      have k: "key_answer mo (h\<lparr>hd_ip_limiter := l'\<rparr>) rq = key_answer mo h rq" by (simp add: key_answer_def)
      from serve_key_cases [of "h\<lparr>hd_ip_limiter := l'\<rparr>" en mo rq route up proxy ip] show ?thesis
      proof
        assume "refusal (h\<lparr>hd_ip_limiter := l'\<rparr>) (serve_key en mo (h\<lparr>hd_ip_limiter := l'\<rparr>) rq route up proxy ip)"
        then have "refusal h (ServeHTTP en mo h rq)" using True unfolding eq by (auto intro: refusal_trans)
        then show ?thesis by (rule refused)
      next
        assume "\<exists>lk. key_answer mo (h\<lparr>hd_ip_limiter := l'\<rparr>) rq = Inr lk \<and> proxied en mo (h\<lparr>hd_ip_limiter := l'\<rparr>) rq route up proxy ip lk
            (serve_key en mo (h\<lparr>hd_ip_limiter := l'\<rparr>) rq route up proxy ip)"
        then obtain lk where l: "key_answer mo h rq = Inr lk" "proxied en mo (h\<lparr>hd_ip_limiter := l'\<rparr>) rq route up proxy ip lk
            (serve_key en mo (h\<lparr>hd_ip_limiter := l'\<rparr>) rq route up proxy ip)"
          using k by auto
        have "proxied en mo h rq route up proxy ip lk (ServeHTTP en mo h rq)"
          using proxied_trans [OF l(2), of h] True unfolding eq by simp
        then show ?thesis using proxied [OF route m l(1)] unfolding ip_def by blast
      qed
    qed
  qed
qed

lemma not_forwarded_refusal: "refusal h result \<Longrightarrow> \<not> forwarded result"
  by (auto simp: refusal_def)

lemma forwarded_proxied: "proxied en mo h rq route up proxy ip lk result \<Longrightarrow> forwarded result"
  by (auto simp: proxied_def forwarded_serve_proxy)

lemma rewrite_headers:
  fixes up ih rq hs p
  defines "out \<equiv> rewrite_request up ih rq hs p"
  shows "hdr_values (or_headers out) ''Cookie'' = []" "hdr_values (or_headers out) ''Authorization'' = []"
    "hdr_values (or_headers out) ''X-Real-Ip'' = []" "hdr_values (or_headers out) ''Forwarded'' = []"
    "hdr_values (or_headers out) ''X-Forwarded-For'' = (if pp_client_ip p = [] then [] else [pp_client_ip p])"
    "hdr_values (or_headers out) ''X-Forwarded-Proto'' = [''https'']"
proof -
  have ne: "\<not> equal_fold ''Cookie'' ''X-Forwarded-Proto''" "\<not> equal_fold ''Authorization'' ''X-Forwarded-Proto''"
    "\<not> equal_fold ''X-Real-Ip'' ''X-Forwarded-Proto''" "\<not> equal_fold ''Forwarded'' ''X-Forwarded-Proto''"
    "\<not> equal_fold ''X-Forwarded-For'' ''X-Forwarded-Proto''"
    "\<not> equal_fold ''Cookie'' ''X-Forwarded-For''" "\<not> equal_fold ''Authorization'' ''X-Forwarded-For''"
    "\<not> equal_fold ''X-Real-Ip'' ''X-Forwarded-For''" "\<not> equal_fold ''Forwarded'' ''X-Forwarded-For''"
    by code_simp+
  show "hdr_values (or_headers out) ''Cookie'' = []" "hdr_values (or_headers out) ''Authorization'' = []"
    "hdr_values (or_headers out) ''X-Real-Ip'' = []" "hdr_values (or_headers out) ''Forwarded'' = []"
    "hdr_values (or_headers out) ''X-Forwarded-For'' = (if pp_client_ip p = [] then [] else [pp_client_ip p])"
    "hdr_values (or_headers out) ''X-Forwarded-Proto'' = [''https'']"
    using ne by (simp_all add: out_def rewrite_request_def Let_def hdr_values_set hdr_values_del)
qed

lemma rewrite_query:
  "filter (\<lambda>(n, v). n = ''sig'') (or_query (rewrite_request up ih rq hs p)) = [(''sig'', pp_sig p)]"
  "filter (\<lambda>(n, v). n = ''key'') (or_query (rewrite_request up ih rq hs p)) = []"
  "n \<noteq> ''sig'' \<Longrightarrow> n \<noteq> ''key'' \<Longrightarrow>
     filter (\<lambda>(m, v). m = n) (or_query (rewrite_request up ih rq hs p)) = filter (\<lambda>(m, v). m = n) (rq_query rq)"
proof -
  have sig: "filter (\<lambda>(n, v). n = ''sig'') (q_del ''sig'' q) = []" for q
    by (auto simp: q_del_def filter_empty_conv)
  show "filter (\<lambda>(n, v). n = ''sig'') (or_query (rewrite_request up ih rq hs p)) = [(''sig'', pp_sig p)]"
    by (simp add: rewrite_request_def Let_def q_encode_filter sig)
  show "filter (\<lambda>(n, v). n = ''key'') (or_query (rewrite_request up ih rq hs p)) = []"
    by (auto simp: rewrite_request_def Let_def q_encode_filter q_del_def filter_empty_conv)
  assume n: "n \<noteq> ''sig''" "n \<noteq> ''key''"
  have "filter (\<lambda>(m, v). m = n) (q_del k q) = filter (\<lambda>(m, v). m = n) q" if "k \<noteq> n" for k q
    unfolding q_del_def filter_filter by (rule filter_cong) (use that in auto)
  then show "filter (\<lambda>(m, v). m = n) (or_query (rewrite_request up ih rq hs p)) = filter (\<lambda>(m, v). m = n) (rq_query rq)"
    using n by (simp add: rewrite_request_def Let_def q_encode_filter)
qed

section \<open>Properties\<close>

text \<open>
  C1: which requests reach a backend. A request is forwarded exactly when it is a \<open>GET\<close> for a
  route of a configured game, its address is within its limit, its key has the shape of one and
  resolves to a key that is not revoked on an active account, the union of the account's active
  rows for the game includes every mode the route needs and a store scope other than
  \<open>DEV_ACCESS\<close> (a lookback instead of a scope on history routes), and the account is within the
  limit of that kind of route.
\<close>

theorem ServeHTTP_forwards_iff:
  "forwards en mo h rq \<longleftrightarrow>
     rq_method rq = ''GET'' \<and>
     (\<exists>route lk access. ParseRoute (rq_path rq) = Inr route \<and>
        map_of (hd_games h) (r_game route) \<noteq> None \<and> map_of (hd_proxies h) (r_game route) \<noteq> None \<and>
        fst (en_allow en (hd_ip_limiter h)
          (FromRequest (rq_headers rq) (rq_remote rq) (op_client_ip_header (hd_opts h)))) \<and>
        LooksLikeKey (bearerKey rq) \<and> key_answer mo h rq = Inr lk \<and>
        k_revoked_at (l_key lk) = None \<and> a_status (l_account lk) = AccountActive \<and>
        resolve_spec (set (l_entitlements lk)) (r_game route) (mo_now mo) = Some access \<and>
        ac_store_scope access \<noteq> ''DEV_ACCESS'' \<and> set (NeedsModes route) \<subseteq> set (ac_modes access) \<and>
        (if r_kind route = ''history'' then 0 < ac_lookback_days access else ac_store_scope access \<noteq> []) \<and>
        fst (en_allow en (al_limiter (if r_kind route = ''history'' then hd_history_limiter h else hd_limiter h))
          (account_key lk)))"
  unfolding forwards_iff plan_check_Inr Resolve_eq_spec HasMode_def subset_eq by (auto split: if_splits)

text \<open>
  C27: what reaches a backend carries exactly one signature, the one minted for this request from
  the access of the account and expiring with the configured time to live, and no key; every
  other parameter is the client's own. The client's cookies, credentials and address headers are
  gone, the address forwarded is the resolved one or none, and the path is the route's backend
  path.
\<close>

theorem ServeHTTP_outgoing:
  assumes "oc_forwarded (fst (ServeHTTP en mo h rq)) = Some out"
  shows "\<exists>route up proxy lk access sig ip.
    ParseRoute (rq_path rq) = Inr route \<and> map_of (hd_games h) (r_game route) = Some up \<and>
    map_of (hd_proxies h) (r_game route) = Some proxy \<and> key_answer mo h rq = Inr lk \<and>
    Resolve (l_entitlements lk) (r_game route) (mo_now mo) = Some access \<and>
    sig = mintSig (en_mint en) up (op_link (hd_opts h)) (op_gateway_email (hd_opts h)) (ac_store_scope access)
            (ac_modes access) (ac_lookback_days access) (mo_now mo + op_sig_ttl (hd_opts h)) \<and>
    ip = FromRequest (rq_headers rq) (rq_remote rq) (op_client_ip_header (hd_opts h)) \<and>
    or_url out = up_url proxy \<and> or_path out = BackendPath route \<and>
    filter (\<lambda>(n, v). n = ''sig'') (or_query out) = [(''sig'', sig)] \<and>
    filter (\<lambda>(n, v). n = ''key'') (or_query out) = [] \<and>
    (\<forall>n. n \<noteq> ''sig'' \<and> n \<noteq> ''key'' \<longrightarrow> filter (\<lambda>(m, v). m = n) (or_query out) = filter (\<lambda>(m, v). m = n) (rq_query rq)) \<and>
    hdr_values (or_headers out) ''Cookie'' = [] \<and> hdr_values (or_headers out) ''Authorization'' = [] \<and>
    hdr_values (or_headers out) ''X-Forwarded-For'' = (if ip = [] then [] else [ip])"
proof (cases rule: ServeHTTP_cases [of h en mo rq])
  case refused
  then show ?thesis using assms not_forwarded_refusal by (fastforce simp: forwarded_def)
next
  case (proxied route up proxy lk)
  define ip where "ip = FromRequest (rq_headers rq) (rq_remote rq) (op_client_ip_header (hd_opts h))"
  obtain h' access own where r: "ServeHTTP en mo h rq = serve_proxy en mo h' rq route up proxy ip lk access own"
    and pc: "plan_check lk route (mo_now mo) = Inr access" and h': "hd_opts h' = hd_opts h"
    using proxied(5) by (auto simp: proxied_def ip_def)
  define sig where "sig = mintSig (en_mint en) up (op_link (hd_opts h)) (op_gateway_email (hd_opts h)) (ac_store_scope access)
            (ac_modes access) (ac_lookback_days access) (mo_now mo + op_sig_ttl (hd_opts h))"
  define p where "p = \<lparr>pp_sig = sig, pp_path = BackendPath route, pp_client_ip = ip, pp_game = r_game route, pp_kind = r_kind route\<rparr>"
  have out: "out = rewrite_request proxy (op_client_ip_header (hd_opts h)) rq (en_out_headers en (rq_headers rq)) p"
    using assms unfolding r serve_proxy_def Let_def p_def sig_def h'
    by (auto simp: proxy_serve_def Let_def)
  have "or_url out = up_url proxy" "or_path out = BackendPath route"
    by (simp_all add: out rewrite_request_def Let_def p_def)
  then show ?thesis
    using proxied(1-4) pc unfolding out plan_check_Inr
    by (intro exI [of _ route] exI [of _ up] exI [of _ proxy] exI [of _ lk] exI [of _ access] exI [of _ sig] exI [of _ ip])
       (simp add: rewrite_query rewrite_headers p_def sig_def ip_def)
qed

subsection \<open>A sample gateway\<close>

definition sample_key :: string where
  "sample_key = ''ban_live_aaaaaaaabbbbbbbbccccccccdddddddd''"

definition sample_lookup :: Lookup where
  "sample_lookup =
     \<lparr>l_key = (l_key empty_lookup)\<lparr>k_id := 3, k_account_id := 7\<rparr>,
      l_account = (l_account empty_lookup)\<lparr>a_id := 7, a_status := AccountActive\<rparr>,
      l_entitlements = [empty_entitlement\<lparr>e_games := [''magic''], e_store_scope := ''ALL_ACCESS'',
        e_modes := [''retail''], e_status := EntitlementActive, e_valid_from := 0\<rparr>]\<rparr>"

definition sample_env :: "reply \<Rightarrow> unit env" where
  "sample_env rep =
     \<lparr>en_allow = (\<lambda>l k. (True, l)), en_mint = (\<lambda>secret link c. cm_api c), en_backend = (\<lambda>out. rep),
      en_out_headers = (\<lambda>hs. hs), en_in_headers = (\<lambda>hs. hs)\<rparr>"

definition sample_moment :: moment where
  "sample_moment =
     \<lparr>mo_fetch = Some (Inr sample_lookup), mo_order = [], mo_resolve = 1, mo_fetched = 2, mo_now = 3, mo_start = 4,
      mo_elapsed = 5000000, mo_client_gone = False, mo_copied = 2\<rparr>"

definition sample_options :: Options where
  "sample_options =
     \<lparr>op_games = [(''magic'', \<lparr>up_url = ''http://magic'', up_secret = ''s''\<rparr>)], op_gateway_email = [], op_link = [],
      op_client_ip_header = [], op_per_key_rate = 1, op_per_key_burst = 1, op_per_key_history_rate = 1,
      op_per_key_history_burst = 1, op_per_ip_rate = 1, op_per_ip_burst = 1, op_upstream_timeout = 1, op_sig_ttl = 1\<rparr>"

definition sample_handler :: "unit Handler" where
  "sample_handler =
     \<lparr>hd_opts = sample_options, hd_games = op_games sample_options, hd_proxies = op_games sample_options,
      hd_res = NewResolver minute, hd_usage = [], hd_limiter = \<lparr>al_limiter = (), al_per_sec = 1\<rparr>,
      hd_history_limiter = \<lparr>al_limiter = (), al_per_sec = 1\<rparr>, hd_ip_limiter = ()\<rparr>"

definition sample_request :: request where
  "sample_request =
     \<lparr>rq_method = ''GET'', rq_path = ''/v1/magic/retail.json'', rq_query = [(''key'', sample_key), (''sig'', ''forged'')],
      rq_headers = [], rq_remote = ''10.0.0.1:99''\<rparr>"

lemma sample_bearer: "bearerKey sample_request = sample_key"
  by (simp add: bearerKey_def sample_request_def hdr_get_def hdr_values_def q_get_def)

lemma sample_answer: "key_answer sample_moment sample_handler sample_request = Inr sample_lookup"
  by (simp add: key_answer_def sample_moment_def sample_handler_def Resolver_Resolve_def resolve_begin_def
      entryLocked_def NewResolver_def storeFetch_def fetch_entry_def entry_result_def)

lemma sample_plan:
  "plan_check sample_lookup \<lparr>r_game = ''magic'', r_kind = ''retail'', r_rest = ''mtgban/retail.json''\<rparr> 3 =
     Inr \<lparr>ac_store_scope = ''ALL_ACCESS'', ac_modes = [''retail''], ac_lookback_days = 0\<rparr>"
  by code_simp

lemma sample_route:
  "ParseRoute ''/v1/magic/retail.json'' = Inr \<lparr>r_game = ''magic'', r_kind = ''retail'', r_rest = ''mtgban/retail.json''\<rparr>"
  by code_simp

lemma sample_looks: "LooksLikeKey sample_key"
  by code_simp

lemma sample_forwards: "forwards (sample_env rep) sample_moment sample_handler sample_request"
  unfolding forwards_iff sample_bearer sample_answer
  by (intro conjI exI [of _ "\<lparr>r_game = ''magic'', r_kind = ''retail'', r_rest = ''mtgban/retail.json''\<rparr>"]
        exI [of _ sample_lookup] exI [of _ "\<lparr>ac_store_scope = ''ALL_ACCESS'', ac_modes = [''retail''], ac_lookback_days = 0\<rparr>"])
     (simp_all add: sample_request_def sample_handler_def sample_options_def sample_env_def sample_route sample_looks
        sample_plan sample_moment_def)

theorem ServeHTTP_outgoing_witness:
  "\<exists>out sig. oc_forwarded (fst (ServeHTTP (sample_env (Answered 200 [] ''{}'')) sample_moment sample_handler sample_request)) = Some out \<and>
     filter (\<lambda>(n, v). n = ''sig'') (or_query out) = [(''sig'', sig)] \<and> filter (\<lambda>(n, v). n = ''key'') (or_query out) = []"
proof -
  obtain out where out: "oc_forwarded (fst (ServeHTTP (sample_env (Answered 200 [] ''{}'')) sample_moment sample_handler sample_request)) = Some out"
    using sample_forwards by (auto simp: forwards_def forwarded_def)
  from ServeHTTP_outgoing [OF this] out show ?thesis by blast
qed

text \<open>
  C28: metering is exact. A forwarded request leaves exactly one usage row, for the key, the account,
  the game and the path that were used, with the status the client was sent, or 499 when the
  client went away before anything was written; a refused request leaves none.
\<close>

theorem ServeHTTP_meters:
  "if forwards en mo h rq then
     (\<exists>u out lk. hd_usage (snd (ServeHTTP en mo h rq)) = hd_usage h @ [u] \<and>
        oc_forwarded (fst (ServeHTTP en mo h rq)) = Some out \<and> us_path u = or_path out \<and>
        key_answer mo h rq = Inr lk \<and> us_key_id u = k_id (l_key lk) \<and> us_account_id u = a_id (l_account lk) \<and>
        (\<exists>route. ParseRoute (rq_path rq) = Inr route \<and> us_game u = r_game route) \<and>
        us_status u = (case oc_response (fst (ServeHTTP en mo h rq)) of None \<Rightarrow> 499 | Some r \<Rightarrow> rp_status r) \<and>
        us_bytes u = written_bytes mo (oc_response (fst (ServeHTTP en mo h rq))))
   else hd_usage (snd (ServeHTTP en mo h rq)) = hd_usage h"
proof (cases rule: ServeHTTP_cases [of h en mo rq])
  case refused
  then have "\<not> forwards en mo h rq" unfolding forwards_def by (rule not_forwarded_refusal)
  then show ?thesis using refused by (auto simp: refusal_def)
next
  case (proxied route up proxy lk)
  have f: "forwards en mo h rq" unfolding forwards_def by (rule forwarded_proxied [OF proxied(5)])
  obtain h' access own ip where r: "ServeHTTP en mo h rq = serve_proxy en mo h' rq route up proxy ip lk access own"
    and h': "hd_usage h' = hd_usage h"
    using proxied(5) by (auto simp: proxied_def)
  show ?thesis using f h' proxied(1,4) unfolding r serve_proxy_def Let_def
    by (auto simp: proxy_serve_def Let_def rewrite_request_def)
qed



text \<open>
  An address over its limit drives nothing. Whatever key it presents, the request is answered
  429 before the key is read: the resolver, and with it the store, is not asked, no account is
  charged, nothing is forwarded and nothing is metered.
\<close>

theorem ServeHTTP_throttled_address:
  assumes route: "ParseRoute (rq_path rq) = Inr route" and get: "rq_method rq = ''GET''"
    and known: "map_of (hd_games h) (r_game route) = Some up" "map_of (hd_proxies h) (r_game route) = Some proxy"
    and over: "en_allow en (hd_ip_limiter h)
      (FromRequest (rq_headers rq) (rq_remote rq) (op_client_ip_header (hd_opts h))) = (False, l')"
  shows "snd (ServeHTTP en mo h rq) = h\<lparr>hd_ip_limiter := l'\<rparr> \<and> \<not> forwards en mo h rq \<and>
    (\<exists>r. oc_response (fst (ServeHTTP en mo h rq)) = Some r \<and> rp_status r = 429 \<and>
       hdr_get (rp_headers r) ''Retry-After'' = ''1'')"
proof -
  have "\<not> equal_fold ''Retry-After'' ''Content-Type''" by code_simp
  then show ?thesis using assms
    by (simp add: ServeHTTP_def forwards_def Let_def writeError_def hdr_get_def hdr_values_set)
qed

theorem ServeHTTP_throttled_address_witness:
  "snd (ServeHTTP ((sample_env (Failed TransportOther))\<lparr>en_allow := \<lambda>l k. (False, l)\<rparr>) sample_moment sample_handler sample_request) =
     sample_handler"
proof -
  let ?route = "\<lparr>r_game = ''magic'', r_kind = ''retail'', r_rest = ''mtgban/retail.json''\<rparr>"
  let ?up = "\<lparr>up_url = ''http://magic'', up_secret = ''s''\<rparr>"
  have h: "ParseRoute (rq_path sample_request) = Inr ?route" "rq_method sample_request = ''GET''"
    "map_of (hd_games sample_handler) (r_game ?route) = Some ?up" "map_of (hd_proxies sample_handler) (r_game ?route) = Some ?up"
    by (simp_all add: sample_request_def sample_route sample_handler_def sample_options_def)
  have "en_allow ((sample_env (Failed TransportOther))\<lparr>en_allow := \<lambda>l k. (False, l)\<rparr>) (hd_ip_limiter sample_handler)
      (FromRequest (rq_headers sample_request) (rq_remote sample_request) (op_client_ip_header (hd_opts sample_handler))) = (False, ())"
    by simp
  from ServeHTTP_throttled_address [OF h this] show ?thesis by (simp add: sample_handler_def)
qed

text \<open>
  The history and newspaper answers are private. The rewritten \<open>Cache-Control\<close> has
  \<open>private\<close> as its first directive and, after it and in their order, exactly the directives the
  backend sent other than \<open>public\<close>, \<open>private\<close> and \<open>s-maxage\<close> in any case and with any value;
  rewriting it again changes nothing.
\<close>

theorem privateCacheControl_sound:
  "directives (privateCacheControl v) = ''private'' # filter kept_directive (directives v) \<and>
   privateCacheControl (privateCacheControl v) = privateCacheControl v"
proof -
  have "filter kept_directive (directives (privateCacheControl v)) = filter kept_directive (directives v)"
    unfolding directives_private using not_kept_private by simp
  then have "privateCacheControl (privateCacheControl v) = privateCacheControl v"
    unfolding privateCacheControl_eq [of "privateCacheControl v"] by (simp only: privateCacheControl_eq [symmetric])
  then show ?thesis using directives_private by blast
qed

end
