(* ===== verification/Meter.thy ===== *)
theory Meter
  imports Handler
begin

text \<open>
  \<open>src/gateway/meter.go\<close>: the usage meter as a state machine. A step is one critical section or
  one turn of the flushing goroutine's loop. The sink's two calls are arbitrary functions of the
  sink's state (\<open>ins\<close> and \<open>touch\<close>), which say whether they reported success. Three ghost fields record
  the rows handed to \<open>Record\<close>, those a flush reported stored and those given up.
\<close>

record Event =
  ev_ts :: time
  ev_path :: string
  ev_tier :: string
  ev_device :: string
  ev_visitor :: string
  ev_instance :: string

record 's UsageMeter =
  mt_sink :: 's
  mt_events :: "Event list option"
  mt_instance :: string
  mt_batch :: int
  mt_in :: "Usage list"
  mt_pending :: "Usage list"
  mt_closed :: bool
  mt_stopped :: bool
  mt_dropped :: int
  mt_recorded :: "Usage list"
  mt_stored :: "Usage list"
  mt_lost :: "Usage list"

type_synonym 's inserter = "'s \<Rightarrow> Usage list \<Rightarrow> bool \<times> 's"
type_synonym 's toucher = "'s \<Rightarrow> (int \<times> time) list \<Rightarrow> bool \<times> 's"

definition NewUsageMeter :: "'s \<Rightarrow> bool \<Rightarrow> string \<Rightarrow> int \<Rightarrow> 's UsageMeter" where
  "NewUsageMeter sink has_events inst batch =
     \<lparr>mt_sink = sink, mt_events = (if has_events then Some [] else None), mt_instance = inst,
      mt_batch = (if batch \<le> 0 then 100 else batch), mt_in = [], mt_pending = [], mt_closed = False,
      mt_stopped = False, mt_dropped = 0, mt_recorded = [], mt_stored = [], mt_lost = []\<rparr>"

definition usage_event :: "string \<Rightarrow> Usage \<Rightarrow> Event" where
  "usage_event inst u =
     \<lparr>ev_ts = us_ts u, ev_path = us_path u, ev_tier = ''api'', ev_device = ''api'',
      ev_visitor = format_int (us_account_id u), ev_instance = inst\<rparr>"

definition drop_rows :: "'s UsageMeter \<Rightarrow> Usage list \<Rightarrow> 's UsageMeter" where
  "drop_rows m rows = m\<lparr>mt_dropped := mt_dropped m + int (length rows), mt_lost := mt_lost m @ rows\<rparr>"

text \<open>The channel holds \<open>4 * batch\<close> rows; a send that would block takes the default arm.\<close>

definition Record :: "'s UsageMeter \<Rightarrow> Usage \<Rightarrow> 's UsageMeter" where
  "Record m0 u =
     (let m = m0\<lparr>mt_events := map_option (\<lambda>evs. evs @ [usage_event (mt_instance m0) u]) (mt_events m0),
                 mt_recorded := mt_recorded m0 @ [u]\<rparr>
      in if mt_closed m then drop_rows m [u]
         else if int (length (mt_in m)) < 4 * mt_batch m then m\<lparr>mt_in := mt_in m @ [u]\<rparr>
         else drop_rows m [u])"

text \<open>Up to \<open>n\<close> more attempts to insert the rows.\<close>

fun insert_attempts :: "'s inserter \<Rightarrow> nat \<Rightarrow> 's \<Rightarrow> Usage list \<Rightarrow> bool \<times> 's" where
  "insert_attempts ins 0 s rows = (False, s)"
| "insert_attempts ins (Suc n) s rows =
     (case ins s rows of (ok, s') \<Rightarrow> if ok then (True, s') else insert_attempts ins n s' rows)"

definition note_seen :: "(int \<times> time) list \<Rightarrow> Usage \<Rightarrow> (int \<times> time) list" where
  "note_seen seen u =
     (if us_ts u > (case map_of seen (us_key_id u) of Some t \<Rightarrow> t | None \<Rightarrow> zero_time)
      then AList.update (us_key_id u) (us_ts u) seen else seen)"

definition seen_times :: "Usage list \<Rightarrow> (int \<times> time) list" where
  "seen_times rows = foldl note_seen [] rows"

definition flush :: "'s inserter \<Rightarrow> 's toucher \<Rightarrow> 's UsageMeter \<Rightarrow> Usage list \<Rightarrow> 's UsageMeter" where
  "flush ins touch m rows =
     (case insert_attempts ins 3 (mt_sink m) rows of
        (False, s) \<Rightarrow> drop_rows (m\<lparr>mt_sink := s\<rparr>) rows
      | (True, s) \<Rightarrow> m\<lparr>mt_sink := snd (touch s (seen_times rows)), mt_stored := mt_stored m @ rows\<rparr>)"

text \<open>The arms of the goroutine's loop: a row, the ticker, and the end, which drains the channel.\<close>

definition receive :: "'s inserter \<Rightarrow> 's toucher \<Rightarrow> 's UsageMeter \<Rightarrow> 's UsageMeter" where
  "receive ins touch m =
     (case mt_in m of
        [] \<Rightarrow> m
      | u # us \<Rightarrow>
          let p = mt_pending m @ [u]; m' = m\<lparr>mt_in := us\<rparr> in
          if int (length p) \<ge> mt_batch m then (flush ins touch (m'\<lparr>mt_pending := []\<rparr>) p) else m'\<lparr>mt_pending := p\<rparr>)"

definition tick_flush :: "'s inserter \<Rightarrow> 's toucher \<Rightarrow> 's UsageMeter \<Rightarrow> 's UsageMeter" where
  "tick_flush ins touch m =
     (if mt_pending m \<noteq> [] then flush ins touch (m\<lparr>mt_pending := []\<rparr>) (mt_pending m) else m)"

definition drain :: "'s inserter \<Rightarrow> 's toucher \<Rightarrow> 's UsageMeter \<Rightarrow> 's UsageMeter" where
  "drain ins touch m =
     (let p = mt_pending m @ mt_in m; m' = m\<lparr>mt_in := [], mt_pending := []\<rparr>;
          m'' = (if p \<noteq> [] then flush ins touch m' p else m')
      in m''\<lparr>mt_stopped := True\<rparr>)"

definition Close_begin :: "'s UsageMeter \<Rightarrow> 's UsageMeter" where
  "Close_begin m = m\<lparr>mt_closed := True\<rparr>"

inductive mstep :: "'s inserter \<Rightarrow> 's toucher \<Rightarrow> 's UsageMeter \<Rightarrow> 's UsageMeter \<Rightarrow> bool"
  for ins :: "'s inserter" and touch :: "'s toucher" where
  m_record: "mstep ins touch m (Record m u)"
| m_receive: "\<not> mt_stopped m \<Longrightarrow> mt_in m \<noteq> [] \<Longrightarrow> mstep ins touch m (receive ins touch m)"
| m_tick: "\<not> mt_stopped m \<Longrightarrow> mstep ins touch m (tick_flush ins touch m)"
| m_close: "mstep ins touch m (Close_begin m)"
| m_drain: "\<not> mt_stopped m \<Longrightarrow> mt_closed m \<Longrightarrow> mstep ins touch m (drain ins touch m)"

section \<open>Lemmas\<close>

definition meter_init :: "'s UsageMeter \<Rightarrow> bool" where
  "meter_init m \<longleftrightarrow> (\<exists>sink ev inst batch. m = NewUsageMeter sink ev inst batch)"

definition meter_inv :: "'s UsageMeter \<Rightarrow> bool" where
  "meter_inv m \<longleftrightarrow>
     mset (mt_recorded m) = mset (mt_stored m) + mset (mt_lost m) + mset (mt_in m) + mset (mt_pending m) \<and>
     mt_dropped m = int (length (mt_lost m)) \<and> 0 < mt_batch m \<and>
     int (length (mt_in m)) \<le> 4 * mt_batch m \<and> int (length (mt_pending m)) < mt_batch m \<and>
     (mt_stopped m \<longrightarrow> mt_closed m \<and> mt_in m = [] \<and> mt_pending m = []) \<and>
     (case mt_events m of None \<Rightarrow> True | Some evs \<Rightarrow> evs = map (usage_event (mt_instance m)) (mt_recorded m))"

lemma flush_accounts:
  "mset (mt_stored (flush ins touch m rows)) + mset (mt_lost (flush ins touch m rows)) =
     mset (mt_stored m) + mset (mt_lost m) + mset rows"
  "mt_dropped m = int (length (mt_lost m)) \<Longrightarrow>
     mt_dropped (flush ins touch m rows) = int (length (mt_lost (flush ins touch m rows)))"
  by (auto simp: flush_def drop_rows_def split: prod.splits bool.splits)

lemma flush_keeps [simp]:
  "mt_recorded (flush ins touch m rows) = mt_recorded m" "mt_in (flush ins touch m rows) = mt_in m"
  "mt_pending (flush ins touch m rows) = mt_pending m" "mt_batch (flush ins touch m rows) = mt_batch m"
  "mt_closed (flush ins touch m rows) = mt_closed m" "mt_stopped (flush ins touch m rows) = mt_stopped m"
  "mt_events (flush ins touch m rows) = mt_events m" "mt_instance (flush ins touch m rows) = mt_instance m"
  by (simp_all add: flush_def drop_rows_def split: prod.splits bool.splits)

lemma meter_inv_init: "meter_init m \<Longrightarrow> meter_inv m"
  by (auto simp: meter_init_def NewUsageMeter_def meter_inv_def)

lemma meter_inv_record: "meter_inv m \<Longrightarrow> meter_inv (Record m u)"
  by (auto simp: meter_inv_def Record_def drop_rows_def Let_def split: option.splits)

lemma meter_inv_receive: "meter_inv m \<Longrightarrow> mt_in m \<noteq> [] \<Longrightarrow> meter_inv (receive ins touch m)"
proof -
  assume inv: "meter_inv m" and "mt_in m \<noteq> []"
  then obtain u us where u: "mt_in m = u # us" by (cases "mt_in m") auto
  define m' where "m' = m\<lparr>mt_in := us, mt_pending := []\<rparr>"
  define p where "p = mt_pending m @ [u]"
  have acc: "mset (mt_stored (flush ins touch m' p)) + mset (mt_lost (flush ins touch m' p)) =
      mset (mt_stored m) + mset (mt_lost m) + mset p"
    using flush_accounts(1) [of ins touch m' p] by (simp add: m'_def)
  have drp: "mt_dropped (flush ins touch m' p) = int (length (mt_lost (flush ins touch m' p)))"
    by (rule flush_accounts(2)) (use inv in \<open>simp add: m'_def meter_inv_def\<close>)
  have e: "receive ins touch m = (if int (length p) \<ge> mt_batch m then flush ins touch m' p else m\<lparr>mt_in := us, mt_pending := p\<rparr>)"
    by (simp add: receive_def u p_def m'_def Let_def)
  show ?thesis
  proof (cases "int (length p) \<ge> mt_batch m")
    case True
    then show ?thesis using inv acc drp u unfolding e
      by (auto simp: meter_inv_def m'_def p_def split: option.splits)
  next
    case False
    then show ?thesis using inv u unfolding e by (auto simp: meter_inv_def p_def split: option.splits)
  qed
qed

lemma meter_inv_tick: "meter_inv m \<Longrightarrow> meter_inv (tick_flush ins touch m)"
proof -
  assume inv: "meter_inv m"
  define m' where "m' = m\<lparr>mt_pending := []\<rparr>"
  have acc: "mset (mt_stored (flush ins touch m' (mt_pending m))) + mset (mt_lost (flush ins touch m' (mt_pending m))) =
      mset (mt_stored m) + mset (mt_lost m) + mset (mt_pending m)"
    using flush_accounts(1) [of ins touch m'] by (simp add: m'_def)
  have drp: "mt_dropped (flush ins touch m' (mt_pending m)) = int (length (mt_lost (flush ins touch m' (mt_pending m))))"
    by (rule flush_accounts(2)) (use inv in \<open>simp add: m'_def meter_inv_def\<close>)
  show ?thesis using inv acc drp unfolding tick_flush_def m'_def [symmetric]
    by (auto simp: meter_inv_def m'_def split: option.splits)
qed

lemma meter_inv_drain: "meter_inv m \<Longrightarrow> mt_closed m \<Longrightarrow> meter_inv (drain ins touch m)"
proof -
  assume inv: "meter_inv m" and c: "mt_closed m"
  define m' where "m' = m\<lparr>mt_in := [], mt_pending := []\<rparr>"
  define p where "p = mt_pending m @ mt_in m"
  have acc: "mset (mt_stored (flush ins touch m' p)) + mset (mt_lost (flush ins touch m' p)) =
      mset (mt_stored m) + mset (mt_lost m) + mset p"
    using flush_accounts(1) [of ins touch m' p] by (simp add: m'_def)
  have drp: "mt_dropped (flush ins touch m' p) = int (length (mt_lost (flush ins touch m' p)))"
    by (rule flush_accounts(2)) (use inv in \<open>simp add: m'_def meter_inv_def\<close>)
  have e: "drain ins touch m = (if p \<noteq> [] then flush ins touch m' p else m')\<lparr>mt_stopped := True\<rparr>"
    by (simp add: drain_def p_def m'_def Let_def)
  show ?thesis using inv acc drp c unfolding e
    by (auto simp: meter_inv_def m'_def p_def split: option.splits)
qed

lemma meter_inv_close: "meter_inv m \<Longrightarrow> meter_inv (Close_begin m)"
  by (auto simp: Close_begin_def meter_inv_def split: option.splits)

lemma meter_inv_step: "meter_inv m \<Longrightarrow> mstep ins touch m m' \<Longrightarrow> meter_inv m'"
  by (erule mstep.cases)
     (auto intro: meter_inv_record meter_inv_receive meter_inv_tick meter_inv_drain meter_inv_close)

interpretation meter: invariant_system meter_init "mstep ins touch" meter_inv for ins touch
  by unfold_locales (auto intro: meter_inv_init meter_inv_step)

subsection \<open>Flushing\<close>

lemma insert_attempts_ok:
  "fst (insert_attempts ins n s rows) \<longleftrightarrow>
     (\<exists>k < n. fst (ins (((\<lambda>s. snd (ins s rows)) ^^ k) s) rows))"
proof (induction n arbitrary: s)
  case (Suc n)
  obtain ok s' where i: "ins s rows = (ok, s')" by fastforce
  have shift: "((\<lambda>s. snd (ins s rows)) ^^ Suc k) s = ((\<lambda>s. snd (ins s rows)) ^^ k) s'" for k
    using i by (simp add: funpow_Suc_right del: funpow.simps)
  show ?case
  proof (cases ok)
    case True
    then show ?thesis using i by (auto intro!: exI [of _ 0])
  next
    case False
    then have "fst (insert_attempts ins (Suc n) s rows) \<longleftrightarrow> (\<exists>k < n. fst (ins (((\<lambda>s. snd (ins s rows)) ^^ k) s') rows))"
      using i Suc by simp
    also have "\<dots> \<longleftrightarrow> (\<exists>k < Suc n. fst (ins (((\<lambda>s. snd (ins s rows)) ^^ k) s) rows))"
      unfolding Ex_less_Suc2 shift using False i by simp
    finally show ?thesis .
  qed
qed simp

definition key_times :: "Usage list \<Rightarrow> int \<Rightarrow> time set" where
  "key_times rows k = us_ts ` {u \<in> set rows. us_key_id u = k \<and> zero_time < us_ts u}"

definition seen_ok :: "(int \<times> time) list \<Rightarrow> Usage list \<Rightarrow> bool" where
  "seen_ok seen rows \<longleftrightarrow> (\<forall>k. map_of seen k =
     (if key_times rows k = {} then None else Some (Max (key_times rows k))))"

lemma finite_key_times [simp]: "finite (key_times rows k)"
  by (simp add: key_times_def)

lemma key_times_pos: "t \<in> key_times rows k \<Longrightarrow> zero_time < t"
  by (auto simp: key_times_def)

lemma key_times_snoc:
  "key_times (rows @ [u]) k =
     (if us_key_id u = k \<and> zero_time < us_ts u then insert (us_ts u) (key_times rows k) else key_times rows k)"
  by (auto simp: key_times_def)

lemma seen_ok_snoc: "seen_ok seen rows \<Longrightarrow> seen_ok (note_seen seen u) (rows @ [u])"
proof -
  assume s: "seen_ok seen rows"
  let ?K = "key_times rows (us_key_id u)"
  have cur: "map_of seen (us_key_id u) = (if ?K = {} then None else Some (Max ?K))"
    using s by (simp add: seen_ok_def)
  have pos: "zero_time < Max ?K" if "?K \<noteq> {}"
    using Max_in [OF finite_key_times that] key_times_pos by blast
  show ?thesis unfolding seen_ok_def
  proof
    fix k
    have old: "map_of seen k = (if key_times rows k = {} then None else Some (Max (key_times rows k)))"
      using s by (simp add: seen_ok_def)
    show "map_of (note_seen seen u) k = (if key_times (rows @ [u]) k = {} then None else Some (Max (key_times (rows @ [u]) k)))"
    proof (cases "k = us_key_id u")
      case False
      then show ?thesis using old by (simp add: note_seen_def update_conv key_times_snoc)
    next
      case True
      consider "us_ts u \<le> zero_time" | "zero_time < us_ts u" "?K = {}" | "zero_time < us_ts u" "?K \<noteq> {}" by linarith
      then show ?thesis
      proof cases
        case 1
        have "\<not> us_ts u > (case map_of seen (us_key_id u) of Some t \<Rightarrow> t | None \<Rightarrow> zero_time)"
        proof (cases "?K = {}")
          case False
          then have "map_of seen (us_key_id u) = Some (Max ?K)" "us_ts u \<le> Max ?K"
            using cur 1 pos by (simp, linarith)
          then show ?thesis by (simp del: Max_less_iff Max_ge_iff)
        qed (use 1 cur in simp)
        then have "map_of (note_seen seen u) k = map_of seen k" unfolding note_seen_def by simp
        then show ?thesis using old 1 by (simp add: key_times_snoc)
      next
        case 2
        then show ?thesis using cur True by (simp add: note_seen_def update_conv key_times_snoc)
      next
        case 3
        define M where "M = Max ?K"
        have "Max (insert (us_ts u) ?K) = max (us_ts u) M"
          unfolding M_def by (rule Max_insert [OF finite_key_times 3(2)])
        moreover have "map_of seen (us_key_id u) = Some M" using cur 3(2) by (simp add: M_def)
        moreover have "key_times (rows @ [u]) k = insert (us_ts u) ?K" using True 3(1) by (simp add: key_times_snoc)
        ultimately show ?thesis using True unfolding note_seen_def by (simp add: update_conv max_def)
      qed
    qed
  qed
qed

lemma seen_times_ok: "seen_ok (seen_times rows) rows"
proof (induction rows rule: rev_induct)
  case Nil
  then show ?case by (simp add: seen_times_def seen_ok_def key_times_def)
next
  case (snoc u rows)
  then show ?case using seen_ok_snoc by (simp add: seen_times_def)
qed

section \<open>Properties\<close>

text \<open>
  C4: no usage row goes missing uncounted. In every reachable state the rows handed to \<open>Record\<close>
  are, one for one, those stored, those counted as dropped, those in the channel and those
  pending; the channel never holds more than four batches nor the goroutine a whole one; and once
  the goroutine has stopped nothing is left in either, so every row was stored or counted.
\<close>

theorem meter_conserves:
  assumes "reachable meter_init (mstep ins touch) m"
  shows "mset (mt_recorded m) = mset (mt_stored m) + mset (mt_lost m) + mset (mt_in m) + mset (mt_pending m) \<and>
    mt_dropped m = int (length (mt_lost m)) \<and>
    int (length (mt_in m)) \<le> 4 * mt_batch m \<and> int (length (mt_pending m)) < mt_batch m \<and>
    (mt_stopped m \<longrightarrow> mset (mt_recorded m) = mset (mt_stored m) + mset (mt_lost m))"
  using meter.reachable_inv [OF assms] by (auto simp: meter_inv_def)

definition sample_usage :: "int \<Rightarrow> time \<Rightarrow> Usage" where
  "sample_usage key ts =
     \<lparr>us_ts = ts, us_key_id = key, us_account_id = 1, us_game = ''magic'', us_path = [], us_status = 200, us_bytes = 0,
      us_duration_ms = 0, us_client_ip = []\<rparr>"

theorem meter_conserves_witness:
  "\<exists>m. reachable meter_init (mstep (\<lambda>s rows. (s, \<not> s)) (\<lambda>s seen. (True, s))) m \<and> mt_stopped m \<and>
     mset (mt_recorded m) = mset (mt_stored m) + mset (mt_lost m)"
proof -
  let ?ins = "\<lambda>s rows. (s, \<not> s)" and ?touch = "\<lambda>s seen. (True, s)"
  let ?m0 = "NewUsageMeter False True ''gw'' 2"
  let ?m1 = "Record ?m0 (sample_usage 1 5)"
  let ?m2 = "Close_begin ?m1"
  let ?m3 = "drain ?ins ?touch ?m2"
  have r0: "reachable meter_init (mstep ?ins ?touch) ?m0" by (rule reach_init) (auto simp: meter_init_def)
  have r1: "reachable meter_init (mstep ?ins ?touch) ?m1" by (rule reach_step [OF r0 m_record])
  have r2: "reachable meter_init (mstep ?ins ?touch) ?m2" by (rule reach_step [OF r1 m_close])
  have "\<not> mt_stopped ?m2" "mt_closed ?m2"
    by (simp_all add: Close_begin_def Record_def NewUsageMeter_def Let_def drop_rows_def)
  then have r3: "reachable meter_init (mstep ?ins ?touch) ?m3" by (intro reach_step [OF r2] m_drain)
  have "mt_stopped ?m3" by (simp add: drain_def Let_def)
  then show ?thesis using meter_conserves [OF r3] r3 by blast
qed

text \<open>
  C38: a flush stores its rows exactly when one of at most three attempts reports success, each
  made on the sink the one before left; then every key of the batch is marked used at the latest
  time it has in it, and otherwise all its rows are counted as dropped and no key is marked.
\<close>

theorem flush_three_attempts:
  "(if \<exists>k < 3. fst (ins (((\<lambda>s. snd (ins s rows)) ^^ k) (mt_sink m)) rows)
    then mt_stored (flush ins touch m rows) = mt_stored m @ rows \<and> mt_dropped (flush ins touch m rows) = mt_dropped m \<and>
      mt_sink (flush ins touch m rows) = snd (touch (snd (insert_attempts ins 3 (mt_sink m) rows)) (seen_times rows)) \<and>
      seen_ok (seen_times rows) rows
    else mt_stored (flush ins touch m rows) = mt_stored m \<and>
      mt_dropped (flush ins touch m rows) = mt_dropped m + int (length rows) \<and>
      mt_sink (flush ins touch m rows) = snd (insert_attempts ins 3 (mt_sink m) rows))"
  unfolding insert_attempts_ok [symmetric]
  by (auto simp: flush_def drop_rows_def seen_times_ok split: prod.splits bool.splits)

end
