(* ===== verification/Probe.thy ===== *)
theory Probe
  imports Handler
begin

text \<open>
  \<open>src/gateway/probe.go\<close>: the prober that checks each game with the signature live traffic gets,
  pings the database, and alerts on a change of state. A backend's body is its parsed JSON,
  \<open>None\<close> when it does not parse; the ping and the backends are the environment.
\<close>

datatype probe_reply = ProbeFailed string | ProbeAnswered int "json option"

datatype probe_error =
    NoRoute string
  | RequestFailed string string
  | BadStatus string int
  | UnexpectedBody string
  | PingFailed string

record Prober =
  pb_games :: "(string \<times> Upstream) list"
  pb_email :: string
  pb_link :: string
  pb_ttl :: duration
  pb_failing :: "string \<Rightarrow> bool"

definition dbProbeName :: string where "dbProbeName = ''database''"

definition NewProber :: "(string \<times> Upstream) list \<Rightarrow> string \<Rightarrow> string \<Rightarrow> duration \<Rightarrow> Prober" where
  "NewProber games email link ttl =
     \<lparr>pb_games = games, pb_email = email, pb_link = link, pb_ttl = ttl, pb_failing = (\<lambda>_. False)\<rparr>"

definition probeVersions :: "string list" where
  "probeVersions = [''v1'', ''v2'']"

definition storesPath :: "string \<Rightarrow> string \<Rightarrow> string" where
  "storesPath version game = ''/'' @ version @ ''/'' @ game @ ''/stores.json''"

definition probeRoute :: "string \<Rightarrow> string \<Rightarrow> route_error + Route" where
  "probeRoute version game = ParseRoute (storesPath version game)"

text \<open>
  \<open>json.Unmarshal\<close> of an object into the two slices: members are matched to a field without case,
  a null leaves a nil slice, an array a slice, anything else is an error; a later member
  overwrites an earlier one.
\<close>

definition slice_of :: "json \<Rightarrow> (bool \<times> bool)" where
  "slice_of j = (case j of JArray _ \<Rightarrow> (True, True) | JNull \<Rightarrow> (True, False) | _ \<Rightarrow> (False, False))"

definition field_slice :: "string \<Rightarrow> (string \<times> json) list \<Rightarrow> bool" where
  "field_slice name ms = (case rev (filter (\<lambda>(n, v). equal_fold n name) ms) of [] \<Rightarrow> False | (n, v) # _ \<Rightarrow> snd (slice_of v))"

definition fields_ok :: "(string \<times> json) list \<Rightarrow> bool" where
  "fields_ok ms \<longleftrightarrow> list_all (\<lambda>(n, v). equal_fold n ''sellers'' \<or> equal_fold n ''vendors'' \<longrightarrow> fst (slice_of v)) ms"

definition isStoresList :: "string \<Rightarrow> json option \<Rightarrow> bool" where
  "isStoresList version body =
     (case body of
        None \<Rightarrow> False
      | Some j \<Rightarrow>
          if version = ''v1'' then (case j of JArray _ \<Rightarrow> True | _ \<Rightarrow> False)
          else (case j of JObject ms \<Rightarrow> fields_ok ms \<and> field_slice ''sellers'' ms \<and> field_slice ''vendors'' ms | _ \<Rightarrow> False))"

type_synonym probe_backend = "string \<Rightarrow> string \<Rightarrow> query \<Rightarrow> probe_reply"

definition probeVersion ::
  "minter \<Rightarrow> probe_backend \<Rightarrow> Prober \<Rightarrow> time \<Rightarrow> string \<Rightarrow> string \<Rightarrow> Upstream \<Rightarrow> probe_error option" where
  "probeVersion Mint backend p now version game up =
     (case probeRoute version game of
        Inl _ \<Rightarrow> Some (NoRoute version)
      | Inr route \<Rightarrow>
          let sig = mintSig Mint up (pb_link p) (pb_email p) ''BASE_ACCESS'' [''retail''] 0 (now + pb_ttl p) in
          (case backend (up_url up) (BackendPath route) [(''sig'', sig)] of
             ProbeFailed err \<Rightarrow> Some (RequestFailed version err)
           | ProbeAnswered status body \<Rightarrow>
               if status \<noteq> 200 then Some (BadStatus version status)
               else if \<not> isStoresList version body then Some (UnexpectedBody version)
               else None))"

fun probe_versions ::
  "minter \<Rightarrow> probe_backend \<Rightarrow> Prober \<Rightarrow> time \<Rightarrow> string \<Rightarrow> Upstream \<Rightarrow> string list \<Rightarrow> probe_error option" where
  "probe_versions Mint backend p now game up [] = None"
| "probe_versions Mint backend p now game up (v # vs) =
     (case probeVersion Mint backend p now v game up of
        Some err \<Rightarrow> Some err
      | None \<Rightarrow> probe_versions Mint backend p now game up vs)"

definition probe :: "minter \<Rightarrow> probe_backend \<Rightarrow> Prober \<Rightarrow> time \<Rightarrow> string \<Rightarrow> Upstream \<Rightarrow> probe_error option" where
  "probe Mint backend p now game up = probe_versions Mint backend p now game up probeVersions"

definition Check :: "minter \<Rightarrow> probe_backend \<Rightarrow> Prober \<Rightarrow> time \<Rightarrow> (string \<times> probe_error option) list" where
  "Check Mint backend p now = map (\<lambda>(name, up). (name, probe Mint backend p now name up)) (pb_games p)"

datatype alert = Failing string probe_error | Recovered string

text \<open>The loop over the sorted names: the messages and the new states.\<close>

fun note_states ::
  "(string \<times> probe_error option) list \<Rightarrow> string list \<Rightarrow> (string \<Rightarrow> bool) \<Rightarrow> alert list \<times> (string \<Rightarrow> bool)" where
  "note_states results [] failing = ([], failing)"
| "note_states results (name # names) failing =
     (let err = (case map_of results name of Some e \<Rightarrow> e | None \<Rightarrow> None);
          was = failing name;
          now = (err \<noteq> None)
      in case note_states results names (failing(name := now)) of (msgs, f) \<Rightarrow>
        ((if now \<and> \<not> was then [Failing name (the err)]
          else if \<not> now \<and> was then [Recovered name] else []) @ msgs, f))"

definition probe_tick ::
  "minter \<Rightarrow> probe_backend \<Rightarrow> probe_error option \<Rightarrow> Prober \<Rightarrow> time \<Rightarrow> alert list \<times> Prober" where
  "probe_tick Mint backend ping p now =
     (let results = AList.update dbProbeName ping (Check Mint backend p now);
          names = sort (map fst results)
      in case note_states results names (pb_failing p) of (msgs, f) \<Rightarrow> (msgs, p\<lparr>pb_failing := f\<rparr>))"

section \<open>Lemmas\<close>

definition result_of :: "(string \<times> probe_error option) list \<Rightarrow> string \<Rightarrow> probe_error option" where
  "result_of results name = (case map_of results name of Some e \<Rightarrow> e | None \<Rightarrow> None)"

definition state_alerts :: "(string \<times> probe_error option) list \<Rightarrow> bool \<Rightarrow> string \<Rightarrow> alert list" where
  "state_alerts results was name =
     (case result_of results name of
        Some e \<Rightarrow> if was then [] else [Failing name e]
      | None \<Rightarrow> if was then [Recovered name] else [])"

fun alert_name :: "alert \<Rightarrow> string" where
  "alert_name (Failing n e) = n"
| "alert_name (Recovered n) = n"

lemma note_states_Cons:
  "note_states results (name # names) failing =
     (let rest = note_states results names (failing(name := (result_of results name \<noteq> None)))
      in (state_alerts results (failing name) name @ fst rest, snd rest))"
  by (cases "result_of results name")
     (simp_all add: Let_def case_prod_beta state_alerts_def result_of_def [symmetric])

declare note_states.simps(2) [simp del]

lemma note_states_failing:
  "distinct names \<Longrightarrow>
     snd (note_states results names failing) name =
       (if name \<in> set names then result_of results name \<noteq> None else failing name)"
  by (induction names arbitrary: failing) (auto simp: note_states_Cons Let_def)

lemma note_states_msgs:
  "distinct names \<Longrightarrow> fst (note_states results names failing) = concat (map (\<lambda>n. state_alerts results (failing n) n) names)"
proof (induction names arbitrary: failing)
  case (Cons n names)
  have d: "distinct names" using Cons.prems by simp
  have eq: "map (\<lambda>m. state_alerts results ((failing(n := b)) m) m) names = map (\<lambda>m. state_alerts results (failing m) m) names" for b
    using Cons.prems by (intro map_cong) auto
  have "fst (note_states results names (failing(n := b))) = concat (map (\<lambda>m. state_alerts results (failing m) m) names)" for b
    unfolding Cons.IH [OF d] eq by (rule refl)
  then show ?case by (simp add: note_states_Cons Let_def)
qed simp

text \<open>What stands under the updated key does not matter.\<close>

lemma update_masks:
  assumes "distinct (map fst gs)" "\<And>n up. (n, up) \<in> set gs \<Longrightarrow> n \<noteq> k \<Longrightarrow> f n up = g n up"
  shows "AList.update k v (map (\<lambda>(n, up). (n, f n up)) gs) = AList.update k v (map (\<lambda>(n, up). (n, g n up)) gs)"
  using assms
proof (induction gs)
  case (Cons p gs)
  obtain n up where p: "p = (n, up)" by fastforce
  show ?case
  proof (cases "n = k")
    case True
    have "map (\<lambda>(n, up). (n, f n up)) gs = map (\<lambda>(n, up). (n, g n up)) gs"
    proof (rule map_cong [OF refl])
      fix q assume q: "q \<in> set gs"
      then have "fst q \<noteq> k" using Cons.prems(1) True p by (metis distinct.simps(2) fst_conv image_eqI list.simps(9) set_map)
      then show "(case q of (n, up) \<Rightarrow> (n, f n up)) = (case q of (n, up) \<Rightarrow> (n, g n up))"
        using Cons.prems(2) q by (cases q) auto
    qed
    then show ?thesis using True p by simp
  next
    case False
    then show ?thesis using Cons p by simp
  qed
qed simp

lemma alert_name_state: "a \<in> set (state_alerts results was name) \<Longrightarrow> alert_name a = name"
  by (auto simp: state_alerts_def split: option.splits if_splits)

lemma distinct_results: "distinct (map fst (pb_games p)) \<Longrightarrow> distinct (map fst (AList.update dbProbeName ping (Check Mint backend p now)))"
  by (auto simp: Check_def comp_def case_prod_beta intro!: distinct_update)

section \<open>Properties\<close>

text \<open>
  One alert per change of state and none otherwise. A tick alerts, in the order of the names
  and at most once each, that a game or the database is failing when its probe failed and it was
  not failing before, and that it recovered when its probe passed and it was; afterwards exactly
  the probed names whose probe failed are failing.
\<close>

theorem probe_tick_alerts_on_change:
  assumes "distinct (map fst (pb_games p))"
  shows "let results = AList.update dbProbeName ping (Check Mint backend p now);
             names = sort (map fst results); (msgs, p') = probe_tick Mint backend ping p now in
     msgs = concat (map (\<lambda>n. state_alerts results (pb_failing p n) n) names) \<and>
     (\<forall>n. pb_failing p' n = (if n \<in> fst ` set results then result_of results n \<noteq> None else pb_failing p n))"
proof -
  let ?r = "AList.update dbProbeName ping (Check Mint backend p now)"
  let ?names = "sort (map fst ?r)"
  have d: "distinct ?names" using distinct_results [OF assms] by simp
  have r: "probe_tick Mint backend ping p now =
      (fst (note_states ?r ?names (pb_failing p)), p\<lparr>pb_failing := snd (note_states ?r ?names (pb_failing p))\<rparr>)"
    by (simp add: probe_tick_def Let_def case_prod_beta)
  have "snd (note_states ?r ?names (pb_failing p)) n =
      (if n \<in> fst ` set ?r then result_of ?r n \<noteq> None else pb_failing p n)" for n
    unfolding note_states_failing [OF d] by simp
  then show ?thesis unfolding r Let_def using note_states_msgs [OF d] by simp
qed

definition sample_prober :: Prober where
  "sample_prober = NewProber [(''magic'', \<lparr>up_url = [], up_secret = []\<rparr>)] [] [] 1"

theorem probe_tick_alerts_on_change_witness:
  "fst (probe_tick (\<lambda>s l c. []) (\<lambda>u pa q. ProbeAnswered 500 None) None sample_prober 0) = [Failing ''magic'' (BadStatus ''v1'' 500)]"
proof -
  have d: "distinct (map fst (pb_games sample_prober))" by (simp add: sample_prober_def NewProber_def)
  let ?r = "AList.update dbProbeName None (Check (\<lambda>s l c. []) (\<lambda>u pa q. ProbeAnswered 500 None) sample_prober 0)"
  have "?r = [(''magic'', Some (BadStatus ''v1'' 500)), (''database'', None)]" by code_simp
  moreover have "sort (map fst [(''magic'', Some (BadStatus ''v1'' 500)), (''database'', None)]) = [''database'', ''magic'']" by code_simp
  ultimately show ?thesis
    using probe_tick_alerts_on_change [OF d, of None "\<lambda>s l c. []" "\<lambda>u pa q. ProbeAnswered 500 None" 0]
    by (simp add: Let_def case_prod_beta state_alerts_def result_of_def sample_prober_def NewProber_def)
qed

text \<open>
  The name of the database hides a game. When a game is configured under the name
  \<open>database\<close> (which the configuration accepts), its probe has no effect: whatever the game
  answers, the tick alerts and remembers only what the ping said.
\<close>

theorem probe_database_game_masked:
  assumes "distinct (map fst (pb_games p))"
    and "\<And>n up. (n, up) \<in> set (pb_games p) \<Longrightarrow> n \<noteq> ''database'' \<Longrightarrow>
      probe Mint backend p now n up = probe Mint backend' p now n up"
  shows "probe_tick Mint backend ping p now = probe_tick Mint backend' ping p now"
proof -
  have "AList.update dbProbeName ping (Check Mint backend p now) = AList.update dbProbeName ping (Check Mint backend' p now)"
    unfolding Check_def dbProbeName_def by (rule update_masks [OF assms])
  then show ?thesis by (simp add: probe_tick_def)
qed

theorem probe_database_game_masked_witness:
  "probe_tick (\<lambda>s l c. []) (\<lambda>u pa q. ProbeAnswered 500 None) None (NewProber [(''database'', \<lparr>up_url = [], up_secret = []\<rparr>)] [] [] 1) 0 =
   probe_tick (\<lambda>s l c. []) (\<lambda>u pa q. ProbeFailed []) None (NewProber [(''database'', \<lparr>up_url = [], up_secret = []\<rparr>)] [] [] 1) 0"
  by (rule probe_database_game_masked) (auto simp: NewProber_def)

end
