(* ===== verification/Portal_Limiter.thy ===== *)
theory Portal_Limiter
  imports Gateway_Prelude
begin

text \<open>
  \<open>src/portal/limiter.go\<close>: the limiter of the portal's forms, a count per key over a sliding
  hour, and the specification it refines: the log of every event it let through.
\<close>

record limiter =
  lm_hits :: "(string \<times> time list) list"
  lm_calls :: int

definition new_limiter :: limiter where
  "new_limiter = \<lparr>lm_hits = [], lm_calls = 0\<rparr>"

definition sweep :: "limiter \<Rightarrow> time \<Rightarrow> limiter" where
  "sweep l now =
     (let cutoff = now - hour in
      l\<lparr>lm_hits := filter (\<lambda>(k, hits). \<not> (hits = [] \<or> last hits < cutoff)) (lm_hits l)\<rparr>)"

definition hits_of :: "limiter \<Rightarrow> string \<Rightarrow> time list" where
  "hits_of l key = (case map_of (lm_hits l) key of Some hits \<Rightarrow> hits | None \<Rightarrow> [])"

definition allow :: "limiter \<Rightarrow> string \<Rightarrow> int \<Rightarrow> time \<Rightarrow> bool \<times> limiter" where
  "allow l0 key limit now =
     (let l1 = l0\<lparr>lm_calls := lm_calls l0 + 1\<rparr>;
          l2 = (if lm_calls l1 mod 256 = 0 then sweep l1 now else l1);
          cutoff = now - hour;
          kept = filter (\<lambda>t. t > cutoff) (hits_of l2 key)
      in if int (length kept) \<ge> limit then (False, l2)
         else (True, l2\<lparr>lm_hits := AList.update key (kept @ [now]) (lm_hits l2)\<rparr>))"

fun allow_run :: "limiter \<Rightarrow> (string \<times> int \<times> time) list \<Rightarrow> bool list" where
  "allow_run l [] = []"
| "allow_run l ((key, limit, now) # calls) =
     (case allow l key limit now of (ok, l') \<Rightarrow> ok # allow_run l' calls)"

section \<open>Specification\<close>

text \<open>The log of the events let through, oldest first.\<close>

definition recent :: "(string \<times> time) list \<Rightarrow> string \<Rightarrow> time \<Rightarrow> time list" where
  "recent log key now = filter (\<lambda>t. t > now - hour) (map snd (filter (\<lambda>e. fst e = key) log))"

definition allow_spec :: "(string \<times> time) list \<Rightarrow> string \<Rightarrow> int \<Rightarrow> time \<Rightarrow> bool \<times> (string \<times> time) list" where
  "allow_spec log key limit now =
     (if int (length (recent log key now)) < limit then (True, log @ [(key, now)]) else (False, log))"

fun spec_run :: "(string \<times> time) list \<Rightarrow> (string \<times> int \<times> time) list \<Rightarrow> bool list" where
  "spec_run log [] = []"
| "spec_run log ((key, limit, now) # calls) =
     (case allow_spec log key limit now of (ok, log') \<Rightarrow> ok # spec_run log' calls)"

section \<open>Simulation\<close>

definition sim :: "limiter \<Rightarrow> (string \<times> time) list \<Rightarrow> time \<Rightarrow> bool" where
  "sim l log now \<longleftrightarrow> distinct (map fst (lm_hits l)) \<and>
     (\<forall>key. sorted (hits_of l key) \<and> (\<forall>t \<in> set (hits_of l key). t \<le> now) \<and>
        filter (\<lambda>t. t > now - hour) (hits_of l key) = recent log key now)"

lemma filter_later: "(now :: int) \<le> now' \<Longrightarrow> filter (\<lambda>t. t > now' - d) xs = filter (\<lambda>t. t > now' - d) (filter (\<lambda>t. t > now - d) xs)"
  unfolding filter_filter by (rule filter_cong) auto

lemma recent_later: "now \<le> now' \<Longrightarrow> recent log key now' = filter (\<lambda>t. t > now' - hour) (recent log key now)"
  unfolding recent_def by (rule filter_later)

lemma sim_later: "sim l log now \<Longrightarrow> now \<le> now' \<Longrightarrow> sim l log now'"
  unfolding sim_def
proof (intro conjI allI)
  fix key
  assume s: "distinct (map fst (lm_hits l)) \<and> (\<forall>key. sorted (hits_of l key) \<and> (\<forall>t \<in> set (hits_of l key). t \<le> now) \<and>
        filter (\<lambda>t. t > now - hour) (hits_of l key) = recent log key now)" and le: "now \<le> now'"
  then show "sorted (hits_of l key)" "\<forall>t \<in> set (hits_of l key). t \<le> now'" "distinct (map fst (lm_hits l))" by fastforce+
  have "filter (\<lambda>t. t > now' - hour) (hits_of l key) =
      filter (\<lambda>t. t > now' - hour) (filter (\<lambda>t. t > now - hour) (hits_of l key))"
    by (rule filter_later [OF le])
  also have "filter (\<lambda>t. t > now - hour) (hits_of l key) = recent log key now" using s by blast
  also have "filter (\<lambda>t. t > now' - hour) (recent log key now) = recent log key now'"
    by (rule recent_later [OF le, symmetric])
  finally show "filter (\<lambda>t. t > now' - hour) (hits_of l key) = recent log key now'" .
qed

lemma sorted_last_le: "sorted xs \<Longrightarrow> x \<in> set xs \<Longrightarrow> x \<le> last (xs :: int list)"
  by (induction xs) (auto split: if_splits)

lemma map_of_filter_snd:
  "distinct (map fst m) \<Longrightarrow> map_of (filter (\<lambda>(k, v). P v) m) key = (case map_of m key of Some v \<Rightarrow> if P v then Some v else None | None \<Rightarrow> None)"
proof (induction m)
  case (Cons p m)
  obtain k v where p: "p = (k, v)" by fastforce
  have "map_of m k = None" using Cons.prems p by (auto simp: map_of_eq_None_iff)
  then show ?case using Cons p by (auto split: option.splits)
qed simp

lemma hits_of_sweep:
  assumes "distinct (map fst (lm_hits l))"
  shows "hits_of (sweep l now) key =
    (if hits_of l key \<noteq> [] \<and> last (hits_of l key) < now - hour then [] else hits_of l key)"
proof -
  have "map_of (lm_hits (sweep l now)) key = (case map_of (lm_hits l) key of
      Some v \<Rightarrow> if \<not> (v = [] \<or> last v < now - hour) then Some v else None | None \<Rightarrow> None)"
    using map_of_filter_snd [OF assms, of "\<lambda>hits. \<not> (hits = [] \<or> last hits < now - hour)" key]
    by (simp add: sweep_def Let_def)
  then show ?thesis by (auto simp: hits_of_def split: option.splits)
qed

lemma sim_sweep: "sim l log now \<Longrightarrow> sim (sweep l now) log now"
proof -
  assume s: "sim l log now"
  then have d: "distinct (map fst (lm_hits l))" by (simp add: sim_def)
  have "distinct (map fst (lm_hits (sweep l now)))" using d by (simp add: sweep_def Let_def distinct_map_filter)
  moreover have "filter (\<lambda>t. t > now - hour) (hits_of l key) = []"
    if "last (hits_of l key) < now - hour" for key
    unfolding filter_empty_conv
  proof
    fix t assume "t \<in> set (hits_of l key)"
    moreover have "sorted (hits_of l key)" using s by (simp add: sim_def)
    ultimately have "t \<le> last (hits_of l key)" by (simp add: sorted_last_le)
    then show "\<not> now - hour < t" using that by linarith
  qed
  ultimately show ?thesis using s unfolding sim_def hits_of_sweep [OF d] by auto
qed

lemma hits_of_update: "hits_of (l\<lparr>lm_hits := AList.update key hits (lm_hits l)\<rparr>) k = (if k = key then hits else hits_of l k)"
  by (simp add: hits_of_def update_conv)

lemma hits_of_calls [simp]: "hits_of (l\<lparr>lm_calls := n\<rparr>) k = hits_of l k"
  by (simp add: hits_of_def)

lemma sim_calls [simp]: "sim (l\<lparr>lm_calls := n\<rparr>) log now = sim l log now"
  by (simp add: sim_def)

lemma recent_snoc:
  "recent (log @ [(key, now)]) k now = (if k = key then recent log k now @ [now] else recent log k now)"
  by (simp add: recent_def)

lemma sim_allow:
  assumes s: "sim l log now"
  shows "fst (allow l key limit now) = fst (allow_spec log key limit now) \<and>
    sim (snd (allow l key limit now)) (snd (allow_spec log key limit now)) now"
proof -
  define l2 where "l2 = (if (lm_calls l + 1) mod 256 = 0 then sweep (l\<lparr>lm_calls := lm_calls l + 1\<rparr>) now else l\<lparr>lm_calls := lm_calls l + 1\<rparr>)"
  have s2: "sim l2 log now" unfolding l2_def using s sim_sweep by simp
  define kept where "kept = filter (\<lambda>t. t > now - hour) (hits_of l2 key)"
  have k: "kept = recent log key now" using s2 by (simp add: sim_def kept_def)
  have a: "allow l key limit now = (if int (length kept) \<ge> limit then (False, l2)
      else (True, l2\<lparr>lm_hits := AList.update key (kept @ [now]) (lm_hits l2)\<rparr>))"
    by (simp add: allow_def Let_def l2_def kept_def)
  show ?thesis
  proof (cases "int (length kept) \<ge> limit")
    case True
    then show ?thesis using a k s2 by (simp add: allow_spec_def)
  next
    case False
    have h: "sorted (hits_of l2 key)" "\<forall>t \<in> set (hits_of l2 key). t \<le> now" using s2 by (auto simp: sim_def)
    have "sorted kept" unfolding kept_def using h(1) by (rule sorted_wrt_filter)
    moreover have "\<forall>t \<in> set kept. t \<le> now \<and> t > now - hour" using h(2) by (auto simp: kept_def)
    ultimately have "sorted (kept @ [now])" "\<forall>t \<in> set (kept @ [now]). t \<le> now"
      "filter (\<lambda>t. t > now - hour) (kept @ [now]) = kept @ [now]"
      by (auto simp: sorted_append filter_id_conv)
    moreover have "distinct (map fst (AList.update key (kept @ [now]) (lm_hits l2)))"
      using s2 by (simp add: sim_def distinct_update)
    ultimately have "sim (l2\<lparr>lm_hits := AList.update key (kept @ [now]) (lm_hits l2)\<rparr>) (log @ [(key, now)]) now"
      using s2 unfolding sim_def hits_of_update recent_snoc k by auto
    then show ?thesis using a k False by (simp add: allow_spec_def)
  qed
qed

lemma allow_run_spec:
  "sim l log now0 \<Longrightarrow> sorted (now0 # map (snd \<circ> snd) calls) \<Longrightarrow> allow_run l calls = spec_run log calls"
proof (induction calls arbitrary: l log now0)
  case (Cons c calls)
  obtain key limit now where c: "c = (key, limit, now)" by (metis prod_cases3)
  have "sim l log now" using Cons.prems c sim_later by auto
  note sa = sim_allow [OF this, of key limit]
  obtain ok l' where a: "allow l key limit now = (ok, l')" by fastforce
  obtain ok' log' where a': "allow_spec log key limit now = (ok', log')" by fastforce
  have "ok' = ok" "sim l' log' now" using sa a a' by simp_all
  then show ?case using Cons c a a' by auto
qed simp

section \<open>Properties\<close>

text \<open>
  C36: the limiter is exact. As long as its clock does not go back, its answers over any sequence
  of calls for any keys and limits are those of the log that forgets nothing: an event is let
  through exactly when fewer than the limit were let through for its key within the hour before
  it. Neither the sweep every 256th call nor the trimming of old hits changes an answer.
\<close>

theorem limiter_exact:
  assumes "sorted (map (snd \<circ> snd) calls)"
  shows "allow_run new_limiter calls = spec_run [] calls"
proof (cases calls)
  case (Cons c cs)
  have "sim new_limiter [] (snd (snd c))" by (simp add: sim_def new_limiter_def hits_of_def recent_def)
  moreover have "sorted (snd (snd c) # map (snd \<circ> snd) calls)" using assms Cons by simp
  ultimately show ?thesis by (rule allow_run_spec)
qed simp

theorem limiter_exact_witness:
  "allow_run new_limiter [(''a'', 1, 0), (''a'', 1, 5), (''b'', 1, 6), (''a'', 1, hour)] = [True, False, True, True]"
proof -
  have "sorted (map (snd \<circ> snd) [(''a'', 1, 0), (''a'', 1, 5), (''b'', 1, 6), (''a'', 1 :: int, hour)])" by simp
  from limiter_exact [OF this] show ?thesis by (simp add: allow_spec_def recent_def)
qed

end
