(* ===== verification/Store.thy ===== *)
theory Store
  imports Keys
begin

text \<open>
  The tables of \<open>src/apiaccess/migrations.go\<close> and how a statement runs on them. A table is the list
  of its rows in the order of their insertion. A statement first meets the driver, which may fail
  it (\<open>db_faults\<close> says for each statement to come whether and how), and then either changes the
  tables or is refused by a constraint, in PostgreSQL's order: not null, check, unique, foreign
  key. Identity columns advance on every attempted insert. \<open>db_now\<close> is the server's \<open>now()\<close>.
  A usage row's null address is the empty string, which no address is written as.
\<close>

section \<open>Rows\<close>

text \<open>The customer id is a nullable column; \<open>scanAccount\<close> reads a null as the empty string.\<close>

record account_row =
  ar_id :: int
  ar_email :: string
  ar_status :: AccountStatus
  ar_created_at :: time
  ar_note :: string
  ar_stripe :: "string option"
  ar_epoch :: int

definition scanAccount :: "account_row \<Rightarrow> Account" where
  "scanAccount r =
     \<lparr>a_id = ar_id r, a_email = ar_email r, a_status = ar_status r, a_created_at = ar_created_at r,
      a_note = ar_note r, a_stripe_customer_id = (case ar_stripe r of Some c \<Rightarrow> c | None \<Rightarrow> []),
      a_session_epoch = ar_epoch r\<rparr>"

record Invite =
  iv_token_hash :: string
  iv_interval_key :: string
  iv_email :: string
  iv_expires_at :: time
  iv_used_at :: "time option"
  iv_created_at :: time
  iv_note :: string

record magic_link =
  ml_token_hash :: string
  ml_account_id :: int
  ml_expires_at :: time
  ml_used_at :: "time option"
  ml_created_at :: time

record stripe_event =
  se_id :: string
  se_type :: string
  se_received_at :: time
  se_processed_at :: "time option"

record Trial =
  tr_id :: int
  tr_patreon_email :: string
  tr_account_id :: int
  tr_granted_at :: time
  tr_ends_at :: time
  tr_reminder_sent_at :: "time option"

record AdminAction =
  aa_id :: int
  aa_at :: time
  aa_actor :: string
  aa_action :: string
  aa_account_id :: int
  aa_target :: string
  aa_detail :: string

record db =
  db_now :: time
  db_faults :: "string option list"
  db_accounts :: "account_row list"
  db_account_seq :: int
  db_keys :: "Key list"
  db_key_seq :: int
  db_entitlements :: "Entitlement list"
  db_entitlement_seq :: int
  db_invites :: "Invite list"
  db_links :: "magic_link list"
  db_nonces :: "(string \<times> time) list"
  db_events :: "stripe_event list"
  db_trials :: "Trial list"
  db_trial_seq :: int
  db_actions :: "AdminAction list"
  db_action_seq :: int
  db_usage :: "Usage list"

definition empty_db :: "time \<Rightarrow> db" where
  "empty_db now =
     \<lparr>db_now = now, db_faults = [], db_accounts = [], db_account_seq = 1, db_keys = [], db_key_seq = 1,
      db_entitlements = [], db_entitlement_seq = 1, db_invites = [], db_links = [], db_nonces = [], db_events = [],
      db_trials = [], db_trial_seq = 1, db_actions = [], db_action_seq = 1, db_usage = []\<rparr>"

section \<open>Statements\<close>

type_synonym 'a op = "db \<Rightarrow> (access_error + 'a) \<times> db"

definition stmt :: "'a op \<Rightarrow> 'a op" where
  "stmt f d =
     (case db_faults d of
        [] \<Rightarrow> f d
      | None # fs \<Rightarrow> f (d\<lparr>db_faults := fs\<rparr>)
      | Some msg # fs \<Rightarrow> (Inl (DriverError msg), d\<lparr>db_faults := fs\<rparr>))"

definition and_then :: "'a op \<Rightarrow> ('a \<Rightarrow> 'b op) \<Rightarrow> 'b op" where
  "and_then f g d = (case f d of (Inl e, d') \<Rightarrow> (Inl e, d') | (Inr x, d') \<Rightarrow> g x d')"

definition give :: "'a \<Rightarrow> 'a op" where
  "give x d = (Inr x, d)"

definition fail :: "access_error \<Rightarrow> 'a op" where
  "fail e d = (Inl e, d)"

text \<open>\<open>UPDATE ... WHERE P\<close> on a table, and the rows it changed, as they are afterwards.\<close>

definition update_where :: "('r \<Rightarrow> bool) \<Rightarrow> ('r \<Rightarrow> 'r) \<Rightarrow> 'r list \<Rightarrow> 'r list \<times> 'r list" where
  "update_where P f rows = (map (\<lambda>r. if P r then f r else r) rows, map f (filter P rows))"

text \<open>The first row a query that expects one reads, else \<open>ErrNotFound\<close>.\<close>

definition one_row :: "'r list \<Rightarrow> access_error + 'r" where
  "one_row rows = (case rows of [] \<Rightarrow> Inl ErrNotFound | r # _ \<Rightarrow> Inr r)"

section \<open>Invariant\<close>

text \<open>
  What the constraints and the code's own canonical forms make of the tables: the checks of
  migrations 2 and 3, the unique keys, the references, and entitlement rows in canonical form.
\<close>

definition accounts_ok :: "account_row list \<Rightarrow> int \<Rightarrow> bool" where
  "accounts_ok as seq \<longleftrightarrow>
     distinct (map ar_id as) \<and> distinct (map ar_email as) \<and> (\<forall>a \<in> set as. ar_id a < seq) \<and>
     (\<forall>a \<in> set as. account_status_valid (ar_status a) \<and> NormalizeEmail (ar_email a) = ar_email a) \<and>
     distinct (map ar_stripe (filter (\<lambda>a. ar_stripe a \<noteq> None) as))"

definition keys_ok :: "Key list \<Rightarrow> int \<Rightarrow> bool" where
  "keys_ok ks seq \<longleftrightarrow>
     distinct (map k_id ks) \<and> distinct (map k_hash ks) \<and> (\<forall>k \<in> set ks. k_id k < seq) \<and>
     (\<forall>k \<in> set ks. key_kind_valid (k_kind k)) \<and>
     distinct (map k_prefix (filter (\<lambda>k. k_revoked_at k = None) ks))"

definition entitlement_ok :: "Entitlement \<Rightarrow> bool" where
  "entitlement_ok e \<longleftrightarrow> canonical_row e \<and> e_games e \<noteq> [] \<and>
     (e_status e = EntitlementActive \<or> e_status e = EntitlementEnded) \<and>
     (e_source e = SourceStripe \<or> e_source e = SourceManual \<or> e_source e = SourceTrial)"

definition entitlements_ok :: "Entitlement list \<Rightarrow> int \<Rightarrow> bool" where
  "entitlements_ok es seq \<longleftrightarrow>
     distinct (map e_id es) \<and> (\<forall>e \<in> set es. e_id e < seq \<and> entitlement_ok e) \<and>
     distinct (map e_external_ref (filter (\<lambda>e. e_external_ref e \<noteq> []) es))"

definition refs_ok :: "db \<Rightarrow> bool" where
  "refs_ok d \<longleftrightarrow>
     k_account_id ` set (db_keys d) \<union> e_account_id ` set (db_entitlements d) \<union>
     ml_account_id ` set (db_links d) \<union> tr_account_id ` set (db_trials d) \<subseteq> ar_id ` set (db_accounts d)"

definition tokens_ok :: "db \<Rightarrow> bool" where
  "tokens_ok d \<longleftrightarrow> distinct (map iv_token_hash (db_invites d)) \<and> distinct (map ml_token_hash (db_links d)) \<and>
     distinct (map fst (db_nonces d)) \<and> distinct (map se_id (db_events d))"

definition db_ok :: "db \<Rightarrow> bool" where
  "db_ok d \<longleftrightarrow> accounts_ok (db_accounts d) (db_account_seq d) \<and> keys_ok (db_keys d) (db_key_seq d) \<and>
     entitlements_ok (db_entitlements d) (db_entitlement_seq d) \<and> refs_ok d \<and> tokens_ok d"

text \<open>An operation keeps the invariant.\<close>

definition keeps :: "'a op \<Rightarrow> bool" where
  "keeps f \<longleftrightarrow> (\<forall>d. db_ok d \<longrightarrow> db_ok (snd (f d)))"

named_theorems keeps_intros \<open>operations that keep the invariant of the tables\<close>

lemma keepsI: "(\<And>d. db_ok d \<Longrightarrow> db_ok (snd (f d))) \<Longrightarrow> keeps f"
  by (simp add: keeps_def)

lemma keepsD: "keeps f \<Longrightarrow> db_ok d \<Longrightarrow> db_ok (snd (f d))"
  by (simp add: keeps_def)

lemma db_ok_faults [simp]: "db_ok (d\<lparr>db_faults := fs\<rparr>) = db_ok d"
  by (simp add: db_ok_def refs_ok_def tokens_ok_def)

lemma db_ok_empty: "db_ok (empty_db now)"
  by (simp add: db_ok_def empty_db_def accounts_ok_def keys_ok_def entitlements_ok_def refs_ok_def tokens_ok_def)

lemma keeps_stmt [keeps_intros]: "keeps f \<Longrightarrow> keeps (stmt f)"
  by (rule keepsI) (auto simp: stmt_def keepsD split: list.splits option.splits)

lemma keeps_and_then [keeps_intros]: "keeps f \<Longrightarrow> (\<And>x. keeps (g x)) \<Longrightarrow> keeps (and_then f g)"
proof (rule keepsI)
  fix d assume f: "keeps f" and g: "\<And>x. keeps (g x)" and d: "db_ok d"
  obtain r d' where r: "f d = (r, d')" by fastforce
  then have "db_ok d'" using keepsD [OF f d] by simp
  then show "db_ok (snd (and_then f g d))" using r keepsD [OF g] by (cases r) (simp_all add: and_then_def)
qed

lemma keeps_give [keeps_intros]: "keeps (give x)" and keeps_fail [keeps_intros]: "keeps (fail e)"
  by (simp_all add: keeps_def give_def fail_def)

lemma set_update_where: "set (fst (update_where P f rows)) = {r \<in> set rows. \<not> P r} \<union> f ` {r \<in> set rows. P r}"
  by (auto simp: update_where_def)

lemma map_update_where: "(\<And>r. P r \<Longrightarrow> g (f r) = g r) \<Longrightarrow> map g (fst (update_where P f rows)) = map g rows"
  by (auto simp: update_where_def)

lemma map_filter_update_where:
  "(\<And>r. P r \<Longrightarrow> g (f r) = g r \<and> Q (f r) = Q r) \<Longrightarrow>
     map g (filter Q (fst (update_where P f rows))) = map g (filter Q rows)"
  by (induction rows) (auto simp: update_where_def)

lemma keeps_query [keeps_intros]: "keeps (stmt (\<lambda>d. (F d, d)))"
  by (intro keeps_stmt keepsI) simp

text \<open>A row read from a table is one of its rows.\<close>

lemma one_row_in: "one_row rows = Inr r \<Longrightarrow> r \<in> set rows"
  by (cases rows) (auto simp: one_row_def)

lemma distinct_map_filter_mono:
  "distinct (map g (filter P xs)) \<Longrightarrow> (\<And>x. x \<in> set xs \<Longrightarrow> Q x \<Longrightarrow> P x) \<Longrightarrow> distinct (map g (filter Q xs))"
  by (induction xs) (auto split: if_splits)

end
