(* ===== verification/Store_Accounts.thy ===== *)
theory Store_Accounts
  imports Store
begin

text \<open>
  The accounts of the store: every operation of \<open>src/apiaccess/accounts.go\<close>, with PostgreSQL's
  \<open>LIKE\<close> for the search, and what each keeps of the invariant.
\<close>

section \<open>Operations\<close>

text \<open>\<open>btrim\<close> takes off spaces only; the check of migration 2 on the email column.\<close>

definition btrim :: "string \<Rightarrow> string" where
  "btrim s = rev (dropWhile (\<lambda>c. c = CHR '' '') (rev (dropWhile (\<lambda>c. c = CHR '' '') s)))"

definition email_check :: "string \<Rightarrow> bool" where
  "email_check e \<longleftrightarrow> e = to_lower (btrim e)"

definition new_account :: "db \<Rightarrow> string \<Rightarrow> string \<Rightarrow> account_row" where
  "new_account d email note =
     \<lparr>ar_id = db_account_seq d, ar_email = email, ar_status = AccountActive, ar_created_at = db_now d, ar_note = note,
      ar_stripe = None, ar_epoch = 0\<rparr>"

definition CreateAccount :: "string \<Rightarrow> string \<Rightarrow> Account op" where
  "CreateAccount email note =
     stmt (\<lambda>d.
       let e = NormalizeEmail email; row = new_account d e note; d' = d\<lparr>db_account_seq := db_account_seq d + 1\<rparr> in
       if \<not> email_check e then (Inl CheckViolation, d')
       else if e \<in> set (map ar_email (db_accounts d)) then (Inl UniqueViolation, d')
       else (Inr (scanAccount row), d'\<lparr>db_accounts := db_accounts d @ [row]\<rparr>))"

definition select_account :: "(account_row \<Rightarrow> bool) \<Rightarrow> Account op" where
  "select_account P =
     stmt (\<lambda>d. (map_sum id scanAccount (one_row (filter P (db_accounts d))), d))"

definition GetAccountByEmail :: "string \<Rightarrow> Account op" where
  "GetAccountByEmail email = select_account (\<lambda>r. ar_email r = NormalizeEmail email)"

definition GetAccount :: "int \<Rightarrow> Account op" where
  "GetAccount aid = select_account (\<lambda>r. ar_id r = aid)"

definition GetAccountByStripeCustomer :: "string \<Rightarrow> Account op" where
  "GetAccountByStripeCustomer customer = select_account (\<lambda>r. ar_stripe r = Some customer)"

definition update_accounts :: "(account_row \<Rightarrow> bool) \<Rightarrow> (account_row \<Rightarrow> account_row) \<Rightarrow> account_row list op" where
  "update_accounts P f =
     stmt (\<lambda>d. case update_where P f (db_accounts d) of (rows, changed) \<Rightarrow> (Inr changed, d\<lparr>db_accounts := rows\<rparr>))"

definition need_row :: "'r list \<Rightarrow> 'r op" where
  "need_row rows = (case one_row rows of Inl e \<Rightarrow> fail e | Inr r \<Rightarrow> give r)"

definition SetAccountStatus :: "int \<Rightarrow> AccountStatus \<Rightarrow> unit op" where
  "SetAccountStatus aid status =
     (if \<not> account_status_valid status then fail BadAccountStatus
      else and_then (update_accounts (\<lambda>r. ar_id r = aid) (\<lambda>r. r\<lparr>ar_status := status\<rparr>))
             (\<lambda>rows. and_then (need_row rows) (\<lambda>_. give ())))"

text \<open>The customer id is set once; the column is unique, so a taken id refuses the update.\<close>

definition SetStripeCustomerID :: "int \<Rightarrow> string \<Rightarrow> string op" where
  "SetStripeCustomerID account_id customer =
     and_then
       (stmt (\<lambda>d.
          let P = (\<lambda>r. ar_id r = account_id);
              f = (\<lambda>r. r\<lparr>ar_stripe := Some (case ar_stripe r of Some c \<Rightarrow> c | None \<Rightarrow> customer)\<rparr>)
          in if list_ex (\<lambda>r. P r \<and> ar_stripe r = None) (db_accounts d) \<and> list_ex (\<lambda>r. ar_stripe r = Some customer) (db_accounts d)
             then (Inl UniqueViolation, d)
             else case update_where P f (db_accounts d) of (rows, changed) \<Rightarrow> (Inr changed, d\<lparr>db_accounts := rows\<rparr>)))
       (\<lambda>rows. and_then (need_row rows) (\<lambda>r. give (case ar_stripe r of Some c \<Rightarrow> c | None \<Rightarrow> [])))"

definition GetOrCreateAccount :: "string \<Rightarrow> string \<Rightarrow> Account op" where
  "GetOrCreateAccount email note =
     stmt (\<lambda>d.
       let e = NormalizeEmail email; row = new_account d e note; d' = d\<lparr>db_account_seq := db_account_seq d + 1\<rparr> in
       if \<not> email_check e then (Inl CheckViolation, d')
       else case filter (\<lambda>r. ar_email r = e) (db_accounts d) of
           r # _ \<Rightarrow> (Inr (scanAccount r), d')
         | [] \<Rightarrow> (Inr (scanAccount row), d'\<lparr>db_accounts := db_accounts d @ [row]\<rparr>))"

definition SetAccountNote :: "int \<Rightarrow> string \<Rightarrow> unit op" where
  "SetAccountNote aid note =
     and_then (update_accounts (\<lambda>r. ar_id r = aid) (\<lambda>r. r\<lparr>ar_note := note\<rparr>))
       (\<lambda>rows. and_then (need_row rows) (\<lambda>_. give ()))"

text \<open>\<open>LIKE\<close> with the backslash as its escape; \<open>ILIKE\<close> compares without case.\<close>

function like :: "string \<Rightarrow> string \<Rightarrow> bool" where
  "like [] s = (s = [])"
| "like (p # ps) s =
     (if p = CHR ''%'' then like ps s \<or> (case s of [] \<Rightarrow> False | x # xs \<Rightarrow> like (p # ps) xs)
      else if p = CHR ''_'' then (case s of [] \<Rightarrow> False | x # xs \<Rightarrow> like ps xs)
      else if p = CHR 0x5C then
        (case ps of [] \<Rightarrow> False | q # qs \<Rightarrow> (case s of [] \<Rightarrow> False | x # xs \<Rightarrow> lower_char x = lower_char q \<and> like qs xs))
      else (case s of [] \<Rightarrow> False | x # xs \<Rightarrow> lower_char x = lower_char p \<and> like ps xs))"
  by pat_completeness auto
termination by (relation "measure (\<lambda>(p, s). length p + length s)") auto

declare like.simps(2) [simp del]

text \<open>The \<open>strings.NewReplacer\<close> of the search.\<close>

definition escape_char :: "char \<Rightarrow> string" where
  "escape_char c = (if c = CHR 0x5C \<or> c = CHR ''%'' \<or> c = CHR ''_'' then [CHR 0x5C, c] else [c])"

definition like_pattern :: "string \<Rightarrow> string" where
  "like_pattern q = ''%'' @ concat (map escape_char (trim_space q)) @ ''%''"

definition SearchAccounts :: "string \<Rightarrow> Account list op" where
  "SearchAccounts q =
     stmt (\<lambda>d. (Inr (take 200 (map scanAccount (sort_key ar_email
        (filter (\<lambda>r. like (like_pattern q) (ar_email r)) (db_accounts d))))), d))"

definition ListAccounts :: "Account list op" where
  "ListAccounts = stmt (\<lambda>d. (Inr (map scanAccount (sort_key ar_id (db_accounts d))), d))"

definition BumpSessionEpoch :: "int \<Rightarrow> int op" where
  "BumpSessionEpoch account_id =
     and_then (update_accounts (\<lambda>r. ar_id r = account_id) (\<lambda>r. r\<lparr>ar_epoch := ar_epoch r + 1\<rparr>))
       (\<lambda>rows. and_then (need_row rows) (\<lambda>r. give (ar_epoch r)))"

section \<open>Lemmas\<close>

lemma btrim_trimmed: "\<not> is_space (hd s) \<Longrightarrow> \<not> is_space (last s) \<Longrightarrow> btrim s = s"
proof (cases s)
  case (Cons x xs)
  assume h: "\<not> is_space (hd s)" and l: "\<not> is_space (last s)"
  have sp: "is_space (CHR '' '')" by (simp add: is_space_def)
  have d: "dropWhile (\<lambda>c. c = CHR '' '') s = s" using h sp Cons by auto
  obtain z zs where z: "rev s = z # zs" using Cons by (cases "rev s") auto
  then have "last s = z" by (metis last_snoc rev.simps(2) rev_rev_ident)
  then have "dropWhile (\<lambda>c. c = CHR '' '') (rev s) = rev s" using l sp z by auto
  then show ?thesis by (simp add: btrim_def d)
qed (simp add: btrim_def)

lemma to_lower_hd_last: "s \<noteq> [] \<Longrightarrow> is_space (hd (to_lower s)) = is_space (hd s) \<and> is_space (last (to_lower s)) = is_space (last s)"
  by (simp add: to_lower_def hd_map last_map)

text \<open>The check never refuses a normalized email.\<close>

lemma email_check_normalized: "email_check (NormalizeEmail e)"
proof (cases "trim_space e = []")
  case True
  then show ?thesis by (simp add: email_check_def NormalizeEmail_def btrim_def)
next
  case False
  then have "btrim (NormalizeEmail e) = NormalizeEmail e"
    unfolding NormalizeEmail_def using hd_trim_space [OF False] last_trim_space [OF False] to_lower_hd_last [OF False]
    by (intro btrim_trimmed) auto
  then show ?thesis by (simp add: email_check_def NormalizeEmail_def)
qed

lemma accounts_ok_new:
  assumes "accounts_ok as seq" "e \<notin> set (map ar_email as)" "NormalizeEmail e = e"
  shows "accounts_ok (as @ [\<lparr>ar_id = seq, ar_email = e, ar_status = AccountActive, ar_created_at = t, ar_note = n, ar_stripe = None, ar_epoch = 0\<rparr>]) (seq + 1)"
  using assms by (auto simp: accounts_ok_def account_status_valid_def)

lemma accounts_ok_seq: "accounts_ok as seq \<Longrightarrow> accounts_ok as (seq + 1)"
  by (auto simp: accounts_ok_def intro: less_trans)

lemma db_ok_account_seq: "db_ok d \<Longrightarrow> db_ok (d\<lparr>db_account_seq := db_account_seq d + 1\<rparr>)"
  by (simp add: db_ok_def refs_ok_def tokens_ok_def accounts_ok_seq)

lemma db_ok_new_account:
  assumes "db_ok d" "e \<notin> set (map ar_email (db_accounts d))" "NormalizeEmail e = e"
  shows "db_ok (d\<lparr>db_account_seq := db_account_seq d + 1, db_accounts := db_accounts d @ [new_account d e note]\<rparr>)"
  using assms accounts_ok_new [of "db_accounts d" "db_account_seq d" e]
  by (auto simp: db_ok_def new_account_def refs_ok_def tokens_ok_def)

lemma keeps_CreateAccount [keeps_intros]: "keeps (CreateAccount email note)"
  unfolding CreateAccount_def
  by (intro keeps_stmt keepsI) (auto simp: Let_def db_ok_account_seq db_ok_new_account [simplified])

lemma email_not_in: "filter (\<lambda>r. ar_email r = e) as = [] \<longleftrightarrow> e \<notin> set (map ar_email as)"
  by (induction as) auto

lemma keeps_GetOrCreateAccount [keeps_intros]: "keeps (GetOrCreateAccount email note)"
  unfolding GetOrCreateAccount_def
  by (intro keeps_stmt keepsI)
     (auto simp: Let_def db_ok_account_seq email_not_in intro!: db_ok_new_account split: list.splits)

lemma keeps_select_account [keeps_intros]: "keeps (select_account P)"
  unfolding select_account_def by (rule keeps_query)

lemma keeps_need_row [keeps_intros]: "keeps (need_row rows)"
  by (simp add: need_row_def keeps_give keeps_fail split: sum.splits)

text \<open>An update that leaves the keys of the rows alone and the status valid.\<close>

definition account_update_ok :: "(account_row \<Rightarrow> account_row) \<Rightarrow> bool" where
  "account_update_ok f \<longleftrightarrow> (\<forall>r. ar_id (f r) = ar_id r \<and> ar_email (f r) = ar_email r \<and> ar_stripe (f r) = ar_stripe r \<and>
     (account_status_valid (ar_status r) \<longrightarrow> account_status_valid (ar_status (f r))))"

lemma accounts_ok_update:
  assumes f: "account_update_ok f" and ok: "accounts_ok as seq"
  shows "accounts_ok (fst (update_where P f as)) seq"
proof -
  have m: "map ar_id (fst (update_where P f as)) = map ar_id as" "map ar_email (fst (update_where P f as)) = map ar_email as"
    using f by (auto intro!: map_update_where simp: account_update_ok_def)
  have "map ar_stripe (filter (\<lambda>a. ar_stripe a \<noteq> None) (fst (update_where P f as))) =
      map ar_stripe (filter (\<lambda>a. ar_stripe a \<noteq> None) as)"
    using f by (intro map_filter_update_where) (simp add: account_update_ok_def)
  moreover have "\<forall>a \<in> set (fst (update_where P f as)). ar_id a < seq \<and> account_status_valid (ar_status a) \<and> NormalizeEmail (ar_email a) = ar_email a"
    unfolding set_update_where using f ok by (auto simp: accounts_ok_def account_update_ok_def)
  ultimately show ?thesis using ok m by (simp add: accounts_ok_def)
qed

lemma update_where_ids: "(\<And>r. ar_id (f r) = ar_id r) \<Longrightarrow> ar_id ` set (fst (update_where P f as)) = ar_id ` set as"
  using map_update_where [of P ar_id f as] by (metis set_map)

lemma keeps_update_accounts [keeps_intros]:
  assumes "account_update_ok f"
  shows "keeps (update_accounts P f)"
  unfolding update_accounts_def
proof (intro keeps_stmt keepsI)
  fix d assume d: "db_ok d"
  have "ar_id ` set (fst (update_where P f (db_accounts d))) = ar_id ` set (db_accounts d)"
    using assms by (intro update_where_ids) (simp add: account_update_ok_def)
  then show "db_ok (snd (case update_where P f (db_accounts d) of (rows, changed) \<Rightarrow> (Inr changed, d\<lparr>db_accounts := rows\<rparr>)))"
    using d accounts_ok_update [OF assms] by (auto simp: db_ok_def refs_ok_def tokens_ok_def case_prod_beta)
qed

lemma keeps_account_ops [keeps_intros]:
  "keeps (SetAccountStatus aid status)" "keeps (SetAccountNote aid note)" "keeps (BumpSessionEpoch aid)"
  "keeps (GetAccount aid)" "keeps (GetAccountByEmail email)" "keeps (GetAccountByStripeCustomer c)"
  "keeps (SearchAccounts q)" "keeps ListAccounts"
  unfolding SetAccountStatus_def SetAccountNote_def BumpSessionEpoch_def GetAccount_def GetAccountByEmail_def
    GetAccountByStripeCustomer_def SearchAccounts_def ListAccounts_def
  by (auto intro!: keeps_intros simp: account_update_ok_def)

text \<open>The one update of the customer id: from null to an id nobody has.\<close>

lemma stripe_set_distinct:
  assumes "distinct (map ar_id as)" "distinct (map ar_stripe (filter (\<lambda>a. ar_stripe a \<noteq> None) as))"
    and "\<not> (list_ex (\<lambda>r. ar_id r = i \<and> ar_stripe r = None) as \<and> list_ex (\<lambda>r. ar_stripe r = Some c) as)"
  shows "distinct (map ar_stripe (filter (\<lambda>a. ar_stripe a \<noteq> None)
    (fst (update_where (\<lambda>r. ar_id r = i) (\<lambda>r. r\<lparr>ar_stripe := Some (case ar_stripe r of Some c \<Rightarrow> c | None \<Rightarrow> c)\<rparr>) as))))"
  using assms
proof (induction as)
  case (Cons a as)
  let ?f = "\<lambda>r. r\<lparr>ar_stripe := Some (case ar_stripe r of Some c \<Rightarrow> c | None \<Rightarrow> c)\<rparr>"
  have IH: "distinct (map ar_stripe (filter (\<lambda>a. ar_stripe a \<noteq> None) (fst (update_where (\<lambda>r. ar_id r = i) ?f as))))"
    using Cons by (auto split: if_splits)
  show ?case
  proof (cases "ar_id a = i")
    case True
    then have "\<forall>r \<in> set as. ar_id r \<noteq> i" using Cons.prems(1) by (auto simp: image_iff)
    then have same: "fst (update_where (\<lambda>r. ar_id r = i) ?f as) = as" by (simp add: update_where_def map_idI)
    show ?thesis
    proof (cases "ar_stripe a")
      case None
      then have "Some c \<notin> ar_stripe ` set as" using Cons.prems(3) True by (auto simp: list_ex_iff)
      then show ?thesis using IH True None same unfolding update_where_def by (auto simp: image_iff)
    next
      case (Some x)
      then show ?thesis using Cons.prems(2) True same unfolding update_where_def by auto
    qed
  next
    case False
    have "ar_stripe a \<noteq> None \<Longrightarrow> ar_stripe a \<notin> ar_stripe ` set (filter (\<lambda>a. ar_stripe a \<noteq> None) (fst (update_where (\<lambda>r. ar_id r = i) ?f as)))"
      using Cons.prems(2,3) False unfolding set_filter set_update_where
      by (auto simp: list_ex_iff image_iff split: option.splits)
    then show ?thesis using IH False unfolding update_where_def by auto
  qed
qed (simp add: update_where_def)

lemma keeps_SetStripeCustomerID [keeps_intros]: "keeps (SetStripeCustomerID aid c)"
proof -
  let ?P = "\<lambda>r. ar_id r = aid" and ?f = "\<lambda>r. r\<lparr>ar_stripe := Some (case ar_stripe r of Some c \<Rightarrow> c | None \<Rightarrow> c)\<rparr>"
  have "db_ok (d\<lparr>db_accounts := fst (update_where ?P ?f (db_accounts d))\<rparr>)"
    if d: "db_ok d" and free: "\<not> (list_ex (\<lambda>r. ?P r \<and> ar_stripe r = None) (db_accounts d) \<and> list_ex (\<lambda>r. ar_stripe r = Some c) (db_accounts d))" for d
  proof -
    let ?as = "fst (update_where ?P ?f (db_accounts d))"
    have m: "map ar_id ?as = map ar_id (db_accounts d)" "map ar_email ?as = map ar_email (db_accounts d)"
      by (auto intro!: map_update_where)
    have "distinct (map ar_stripe (filter (\<lambda>a. ar_stripe a \<noteq> None) ?as))"
      using d free by (intro stripe_set_distinct) (auto simp: db_ok_def accounts_ok_def)
    moreover have "\<forall>a \<in> set ?as. ar_id a < db_account_seq d \<and> account_status_valid (ar_status a) \<and> NormalizeEmail (ar_email a) = ar_email a"
      unfolding set_update_where using d by (auto simp: db_ok_def accounts_ok_def)
    ultimately have "accounts_ok ?as (db_account_seq d)" using d m by (simp add: db_ok_def accounts_ok_def)
    moreover have "ar_id ` set ?as = ar_id ` set (db_accounts d)" by (rule update_where_ids) simp
    ultimately show ?thesis using d by (simp add: db_ok_def refs_ok_def tokens_ok_def)
  qed
  then have k: "keeps (stmt (\<lambda>d. if list_ex (\<lambda>r. ?P r \<and> ar_stripe r = None) (db_accounts d) \<and> list_ex (\<lambda>r. ar_stripe r = Some c) (db_accounts d)
             then (Inl UniqueViolation, d)
             else case update_where ?P ?f (db_accounts d) of (rows, changed) \<Rightarrow> (Inr changed, d\<lparr>db_accounts := rows\<rparr>)))"
    by (intro keeps_stmt keepsI) (auto simp: case_prod_beta)
  show ?thesis unfolding SetStripeCustomerID_def Let_def
    by (rule keeps_and_then [OF k]) (intro keeps_and_then keeps_need_row keeps_give)
qed

subsection \<open>The search pattern\<close>

lemma like_escape:
  "like (concat (map escape_char q) @ ps) s \<longleftrightarrow>
     (\<exists>t u. s = t @ u \<and> to_lower t = to_lower q \<and> like ps u)"
proof (induction q arbitrary: s)
  case (Cons c q)
  have bs: "CHR 0x5C \<noteq> CHR ''%''" "CHR 0x5C \<noteq> CHR ''_''" by simp_all
  have step: "like (escape_char c @ r) s \<longleftrightarrow> (case s of [] \<Rightarrow> False | x # xs \<Rightarrow> lower_char x = lower_char c \<and> like r xs)" for r
    using bs by (auto simp: escape_char_def like.simps(2) split: list.splits)
  show ?case unfolding concat.simps list.map append_assoc step
  proof (cases s)
    case (Cons x xs)
    have "(\<exists>t u. x # xs = t @ u \<and> to_lower t = to_lower (c # q) \<and> like ps u) \<longleftrightarrow>
        lower_char x = lower_char c \<and> (\<exists>t u. xs = t @ u \<and> to_lower t = to_lower q \<and> like ps u)"
    proof
      assume "lower_char x = lower_char c \<and> (\<exists>t u. xs = t @ u \<and> to_lower t = to_lower q \<and> like ps u)"
      then obtain t u where "x # xs = (x # t) @ u" "to_lower (x # t) = to_lower (c # q)" "like ps u"
        by (auto simp: to_lower_def)
      then show "\<exists>t u. x # xs = t @ u \<and> to_lower t = to_lower (c # q) \<and> like ps u" by blast
    qed (auto simp: to_lower_def Cons_eq_append_conv)
    then show "(case s of [] \<Rightarrow> False | x # xs \<Rightarrow> lower_char x = lower_char c \<and> like (concat (map escape_char q) @ ps) xs) =
        (\<exists>t u. s = t @ u \<and> to_lower t = to_lower (c # q) \<and> like ps u)"
      using Cons.IH [of xs] \<open>s = x # xs\<close> by simp
  qed (simp add: to_lower_def)
qed (auto simp: to_lower_def)

lemma like_percent: "like (CHR ''%'' # ps) s \<longleftrightarrow> (\<exists>t u. s = t @ u \<and> like ps u)"
proof (induction s)
  case Nil
  then show ?case by (simp add: like.simps(2))
next
  case (Cons x xs)
  have "like (CHR ''%'' # ps) (x # xs) \<longleftrightarrow> like ps (x # xs) \<or> (\<exists>t u. xs = t @ u \<and> like ps u)"
    using Cons by (simp add: like.simps(2))
  also have "\<dots> \<longleftrightarrow> (\<exists>t u. x # xs = t @ u \<and> like ps u)" by (auto simp: Cons_eq_append_conv)
  finally show ?case .
qed

lemma like_pattern_iff:
  "like (like_pattern q) s \<longleftrightarrow> contains_sub (to_lower s) (to_lower (trim_space q))"
proof -
  have any: "like ''%'' u" for u using like_percent [of "[]" u] by auto
  have "like (like_pattern q) s \<longleftrightarrow> (\<exists>a t u. s = a @ t @ u \<and> to_lower t = to_lower (trim_space q))"
    unfolding like_pattern_def append_Cons append_Nil like_percent like_escape by (auto simp: any)
  also have "\<dots> \<longleftrightarrow> (\<exists>u v. to_lower s = u @ to_lower (trim_space q) @ v)"
  proof
    assume "\<exists>a t u. s = a @ t @ u \<and> to_lower t = to_lower (trim_space q)"
    then obtain a t u where "s = a @ t @ u" "to_lower t = to_lower (trim_space q)" by blast
    then have "to_lower s = to_lower a @ to_lower (trim_space q) @ to_lower u" by (simp add: to_lower_def)
    then show "\<exists>u v. to_lower s = u @ to_lower (trim_space q) @ v" by blast
  next
    assume "\<exists>u v. to_lower s = u @ to_lower (trim_space q) @ v"
    then obtain u v where "map lower_char s = u @ to_lower (trim_space q) @ v" by (auto simp: to_lower_def)
    then obtain a t b where "s = a @ t @ b" "map lower_char t = to_lower (trim_space q)"
      by (metis map_eq_append_conv)
    then show "\<exists>a t u. s = a @ t @ u \<and> to_lower t = to_lower (trim_space q)" by (auto simp: to_lower_def)
  qed
  finally show ?thesis unfolding contains_sub_iff .
qed

end
