(* ===== verification/Store_Keys.thy ===== *)
theory Store_Keys
  imports Store_Accounts
begin

text \<open>
  The keys and the entitlements of the store: the statements of \<open>src/apiaccess/keys.go\<close> and
  \<open>src/apiaccess/entitlements.go\<close>.
\<close>

section \<open>Keys\<close>

definition insert_key :: "int \<Rightarrow> string \<Rightarrow> string \<Rightarrow> string \<Rightarrow> KeyKind \<Rightarrow> Key op" where
  "insert_key account_id hash prefix label kind =
     stmt (\<lambda>d.
       let row = \<lparr>k_id = db_key_seq d, k_account_id = account_id, k_hash = hash, k_prefix = prefix, k_label = label,
                  k_kind = kind, k_created_at = db_now d, k_last_used_at = None, k_revoked_at = None\<rparr>;
           d' = d\<lparr>db_key_seq := db_key_seq d + 1\<rparr>
       in if \<not> key_kind_valid kind then (Inl CheckViolation, d')
          else if hash \<in> set (map k_hash (db_keys d)) \<or>
            prefix \<in> set (map k_prefix (filter (\<lambda>k. k_revoked_at k = None) (db_keys d)))
          then (Inl UniqueViolation, d')
          else if account_id \<notin> set (map ar_id (db_accounts d)) then (Inl ForeignKeyViolation, d')
          else (Inr row, d'\<lparr>db_keys := db_keys d @ [row]\<rparr>))"

definition createKeyAttempts :: nat where "createKeyAttempts = 4"

text \<open>
  The loop of \<open>CreateKey\<close>: \<open>rands\<close> holds what the random source gives each attempt; the last
  unique violation is the error when none of them found a free prefix.
\<close>

fun create_key_loop ::
  "nat \<Rightarrow> (nat \<Rightarrow> string option) \<Rightarrow> int \<Rightarrow> string \<Rightarrow> KeyKind \<Rightarrow> (string \<times> Key) op" where
  "create_key_loop 0 rands account_id label kind = fail UniqueViolation"
| "create_key_loop (Suc n) rands account_id label kind = (\<lambda>d.
     case GenerateKey kind (rands n) of
       Inl err \<Rightarrow> (Inl err, d)
     | Inr (plaintext, hash, prefix) \<Rightarrow>
         (case insert_key account_id hash prefix label kind d of
            (Inr k, d') \<Rightarrow> (Inr (plaintext, k), d')
          | (Inl err, d') \<Rightarrow>
              if err \<noteq> UniqueViolation then (Inl err, d')
              else create_key_loop n rands account_id label kind d'))"

definition CreateKey :: "(nat \<Rightarrow> string option) \<Rightarrow> int \<Rightarrow> string \<Rightarrow> KeyKind \<Rightarrow> (string \<times> Key) op" where
  "CreateKey rands account_id label kind = create_key_loop createKeyAttempts rands account_id label kind"

definition update_keys :: "(db \<Rightarrow> Key \<Rightarrow> bool) \<Rightarrow> (db \<Rightarrow> Key \<Rightarrow> Key) \<Rightarrow> Key list op" where
  "update_keys P f =
     stmt (\<lambda>d. case update_where (P d) (f d) (db_keys d) of (rows, changed) \<Rightarrow> (Inr changed, d\<lparr>db_keys := rows\<rparr>))"

definition RevokeKey :: "int \<Rightarrow> int \<Rightarrow> Key op" where
  "RevokeKey kid account_id =
     and_then (update_keys (\<lambda>d k. k_id k = kid \<and> k_revoked_at k = None \<and> (account_id = 0 \<or> k_account_id k = account_id))
         (\<lambda>d k. k\<lparr>k_revoked_at := Some (db_now d)\<rparr>)) need_row"

definition RevokeKeyByPrefix :: "string \<Rightarrow> Key op" where
  "RevokeKeyByPrefix prefix =
     and_then (update_keys (\<lambda>d k. k_prefix k = prefix \<and> k_revoked_at k = None) (\<lambda>d k. k\<lparr>k_revoked_at := Some (db_now d)\<rparr>))
       need_row"

definition ListKeys :: "int \<Rightarrow> Key list op" where
  "ListKeys account_id = stmt (\<lambda>d. (Inr (sort_key k_id (filter (\<lambda>k. k_account_id k = account_id) (db_keys d))), d))"

definition KeysCreatedBetween :: "time \<Rightarrow> time \<Rightarrow> Key list op" where
  "KeysCreatedBetween from to =
     stmt (\<lambda>d. (Inr (sort_key k_id (filter (\<lambda>k. from \<le> k_created_at k \<and> k_created_at k < to) (db_keys d))), d))"

text \<open>\<open>GREATEST\<close> ignores a null.\<close>

definition TouchKeys :: "(int \<times> time) list \<Rightarrow> unit op" where
  "TouchKeys seen =
     (if seen = [] then give ()
      else and_then (update_keys (\<lambda>d k. map_of seen (k_id k) \<noteq> None)
             (\<lambda>d k. k\<lparr>k_last_used_at := Some (case k_last_used_at k of None \<Rightarrow> the (map_of seen (k_id k))
                                               | Some t \<Rightarrow> max t (the (map_of seen (k_id k))))\<rparr>))
           (\<lambda>_. give ()))"

section \<open>Entitlements\<close>

definition status_check :: "EntitlementStatus \<Rightarrow> bool" where
  "status_check s \<longleftrightarrow> s = EntitlementActive \<or> s = EntitlementEnded"

definition source_check :: "Source \<Rightarrow> bool" where
  "source_check s \<longleftrightarrow> s = SourceStripe \<or> s = SourceManual \<or> s = SourceTrial"

text \<open>The violation, if any, that does not depend on the other rows. No games are a null.\<close>

definition row_violation :: "Entitlement \<Rightarrow> access_error option" where
  "row_violation e =
     (if e_games e = [] then Some NotNullViolation
      else if \<not> status_check (e_status e) \<or> \<not> source_check (e_source e) \<or> \<not> lookback_check e then Some CheckViolation
      else None)"

definition entitlement_row :: "db \<Rightarrow> Entitlement \<Rightarrow> time option \<Rightarrow> string option \<Rightarrow> Entitlement" where
  "entitlement_row d e until ext =
     e\<lparr>e_id := db_entitlement_seq d, e_created_at := db_now d, e_valid_until := until,
       e_external_ref := (case ext of Some s \<Rightarrow> s | None \<Rightarrow> [])\<rparr>"

definition insertEntitlement :: "Entitlement \<times> time option \<times> string option \<Rightarrow> Entitlement op" where
  "insertEntitlement p =
     stmt (\<lambda>d. case p of (e, until, ext) \<Rightarrow>
       let row = entitlement_row d e until ext; d' = d\<lparr>db_entitlement_seq := db_entitlement_seq d + 1\<rparr> in
       (case row_violation row of
          Some err \<Rightarrow> (Inl err, d')
        | None \<Rightarrow>
            if ext \<noteq> None \<and> e_external_ref row \<in> set (map e_external_ref (filter (\<lambda>x. e_external_ref x \<noteq> []) (db_entitlements d)))
            then (Inl UniqueViolation, d')
            else if e_account_id row \<notin> set (map ar_id (db_accounts d)) then (Inl ForeignKeyViolation, d')
            else (Inr row, d'\<lparr>db_entitlements := db_entitlements d @ [row]\<rparr>)))"

definition prepared :: "time \<Rightarrow> Entitlement \<Rightarrow> (Entitlement \<times> time option \<times> string option) op" where
  "prepared now e = (case prepareEntitlement now e of Inl err \<Rightarrow> fail err | Inr p \<Rightarrow> give p)"

definition AddEntitlement :: "time \<Rightarrow> Entitlement \<Rightarrow> Entitlement op" where
  "AddEntitlement now e = and_then (prepared now e) insertEntitlement"

text \<open>What the conflicting row becomes: everything follows the new one but its id, its start, its
  reference and its creation.\<close>

definition upsert_row :: "Entitlement \<Rightarrow> Entitlement \<Rightarrow> Entitlement" where
  "upsert_row new old =
     new\<lparr>e_id := e_id old, e_valid_from := e_valid_from old, e_external_ref := e_external_ref old, e_created_at := e_created_at old\<rparr>"

definition upsertEntitlement :: "Entitlement \<times> time option \<times> string option \<Rightarrow> Entitlement op" where
  "upsertEntitlement p =
     stmt (\<lambda>d. case p of (e, until, ext) \<Rightarrow>
       let row = entitlement_row d e until ext; d' = d\<lparr>db_entitlement_seq := db_entitlement_seq d + 1\<rparr>;
           P = (\<lambda>x. ext \<noteq> None \<and> e_external_ref x = e_external_ref row)
       in (case row_violation row of
          Some err \<Rightarrow> (Inl err, d')
        | None \<Rightarrow>
            if e_account_id row \<notin> set (map ar_id (db_accounts d)) then (Inl ForeignKeyViolation, d')
            else case filter P (db_entitlements d) of
                old # _ \<Rightarrow> (Inr (upsert_row row old), d'\<lparr>db_entitlements := fst (update_where P (upsert_row row) (db_entitlements d))\<rparr>)
              | [] \<Rightarrow> (Inr row, d'\<lparr>db_entitlements := db_entitlements d @ [row]\<rparr>)))"

definition UpsertStripeEntitlement :: "time \<Rightarrow> Entitlement \<Rightarrow> Entitlement op" where
  "UpsertStripeEntitlement now e =
     (if e_external_ref e = [] then fail ExternalRefRequired
      else and_then (prepared now e) upsertEntitlement)"

definition ListActiveStripeRefs :: "(int \<times> string) list op" where
  "ListActiveStripeRefs =
     stmt (\<lambda>d. (Inr (sort_key fst (sort_key snd
        (map (\<lambda>e. (e_account_id e, e_external_ref e))
          (filter (\<lambda>e. e_source e = SourceStripe \<and> e_status e = EntitlementActive \<and> e_external_ref e \<noteq> []) (db_entitlements d))))), d))"

definition EndEntitlement :: "int \<Rightarrow> int \<Rightarrow> time \<Rightarrow> Entitlement op" where
  "EndEntitlement eid account_id at = (\<lambda>d0.
     case stmt (\<lambda>d.
         case update_where
             (\<lambda>e. e_id e = eid \<and> e_status e \<noteq> EntitlementEnded \<and> e_source e \<noteq> SourceStripe \<and> (account_id = 0 \<or> e_account_id e = account_id))
             (\<lambda>e. e\<lparr>e_status := EntitlementEnded, e_valid_until := Some at\<rparr>) (db_entitlements d) of
           (rows, changed) \<Rightarrow> (one_row changed, d\<lparr>db_entitlements := rows\<rparr>)) d0 of
       (Inr e, d1) \<Rightarrow> (Inr e, d1)
     | (Inl err, d1) \<Rightarrow>
         if err \<noteq> ErrNotFound then (Inl err, d1)
         else case stmt (\<lambda>d. (one_row (filter (\<lambda>e. e_id e = eid \<and> (account_id = 0 \<or> e_account_id e = account_id)) (db_entitlements d)), d)) d1 of
             (Inl err', d2) \<Rightarrow> (Inl err', d2)
           | (Inr row, d2) \<Rightarrow> (Inl (if e_source row = SourceStripe then ErrStripeEntitlement else ErrNotFound), d2))"

definition listEntitlements :: "int \<Rightarrow> bool \<Rightarrow> Entitlement list op" where
  "listEntitlements account_id active_only =
     stmt (\<lambda>d. (Inr (sort_key e_id (filter (\<lambda>e. e_account_id e = account_id \<and> (active_only \<longrightarrow> e_status e = EntitlementActive))
        (db_entitlements d))), d))"

definition ListEntitlements :: "int \<Rightarrow> Entitlement list op" where
  "ListEntitlements account_id = listEntitlements account_id False"

text \<open>The lookup reads only the columns the gateway decides by: no customer id and no session epoch.\<close>

definition lookup_account :: "account_row \<Rightarrow> Account" where
  "lookup_account r = (scanAccount r)\<lparr>a_stripe_customer_id := [], a_session_epoch := 0\<rparr>"

definition LookupKey :: "string \<Rightarrow> Lookup op" where
  "LookupKey hash =
     and_then
       (stmt (\<lambda>d. (one_row (concat (map (\<lambda>k. map (\<lambda>a. (k, a)) (filter (\<lambda>a. ar_id a = k_account_id k) (db_accounts d)))
          (filter (\<lambda>k. k_hash k = hash) (db_keys d)))), d)))
       (\<lambda>(k, a). and_then (listEntitlements (ar_id a) True)
          (\<lambda>es. give \<lparr>l_key = k, l_account = lookup_account a, l_entitlements = es\<rparr>))"

section \<open>Lemmas: keys\<close>

lemma keys_ok_seq: "keys_ok ks seq \<Longrightarrow> keys_ok ks (seq + 1)"
  by (auto simp: keys_ok_def intro: less_trans)

lemma keys_ok_insert:
  assumes "keys_ok ks seq" "key_kind_valid (k_kind k)" "k_id k = seq" "k_hash k \<notin> set (map k_hash ks)"
    "k_prefix k \<notin> set (map k_prefix (filter (\<lambda>k. k_revoked_at k = None) ks))"
  shows "keys_ok (ks @ [k]) (seq + 1)"
  using assms by (auto simp: keys_ok_def)

lemma keeps_insert_key [keeps_intros]: "keeps (insert_key account_id hash prefix label kind)"
  unfolding insert_key_def
proof (intro keeps_stmt keepsI)
  fix d assume d: "db_ok d"
  then have "db_ok (d\<lparr>db_key_seq := db_key_seq d + 1\<rparr>)" by (simp add: db_ok_def refs_ok_def tokens_ok_def keys_ok_seq)
  then show "db_ok (snd (let row = \<lparr>k_id = db_key_seq d, k_account_id = account_id, k_hash = hash, k_prefix = prefix, k_label = label,
                  k_kind = kind, k_created_at = db_now d, k_last_used_at = None, k_revoked_at = None\<rparr>;
           d' = d\<lparr>db_key_seq := db_key_seq d + 1\<rparr>
       in if \<not> key_kind_valid kind then (Inl CheckViolation, d')
          else if hash \<in> set (map k_hash (db_keys d)) \<or>
            prefix \<in> set (map k_prefix (filter (\<lambda>k. k_revoked_at k = None) (db_keys d)))
          then (Inl UniqueViolation, d')
          else if account_id \<notin> set (map ar_id (db_accounts d)) then (Inl ForeignKeyViolation, d')
          else (Inr row, d'\<lparr>db_keys := db_keys d @ [row]\<rparr>)))"
    using d by (auto simp: Let_def db_ok_def refs_ok_def tokens_ok_def intro!: keys_ok_insert)
qed

lemma keeps_create_key_loop: "keeps (create_key_loop n rands account_id label kind)"
proof (induction n)
  case (Suc n)
  show ?case
  proof (rule keepsI)
    fix d assume d: "db_ok d"
    show "db_ok (snd (create_key_loop (Suc n) rands account_id label kind d))"
    proof (cases "GenerateKey kind (rands n)")
      case (Inr p)
      obtain pt h pre where p: "p = (pt, h, pre)" by (metis prod_cases3)
      obtain r d' where i: "insert_key account_id h pre label kind d = (r, d')" by fastforce
      then have "db_ok d'" using keepsD [OF keeps_insert_key d] by (metis snd_conv)
      then show ?thesis using Inr p i keepsD [OF Suc] by (cases r) auto
    qed (simp add: d)
  qed
qed (simp add: keeps_fail)

lemma keeps_CreateKey [keeps_intros]: "keeps (CreateKey rands account_id label kind)"
  by (simp add: CreateKey_def keeps_create_key_loop)

text \<open>An update of keys that only revokes or touches them.\<close>

definition key_update_ok :: "(db \<Rightarrow> Key \<Rightarrow> Key) \<Rightarrow> bool" where
  "key_update_ok f \<longleftrightarrow> (\<forall>d k. k_id (f d k) = k_id k \<and> k_account_id (f d k) = k_account_id k \<and> k_hash (f d k) = k_hash k \<and>
     k_prefix (f d k) = k_prefix k \<and> k_kind (f d k) = k_kind k \<and> (k_revoked_at (f d k) = None \<longrightarrow> k_revoked_at k = None))"

lemma live_prefixes_update:
  assumes "\<And>k. k_prefix (f k) = k_prefix k \<and> (k_revoked_at (f k) = None \<longrightarrow> k_revoked_at k = None)"
    and "distinct (map k_prefix (filter (\<lambda>k. k_revoked_at k = None) ks))"
  shows "distinct (map k_prefix (filter (\<lambda>k. k_revoked_at k = None) (fst (update_where P f ks)))) \<and>
    k_prefix ` set (filter (\<lambda>k. k_revoked_at k = None) (fst (update_where P f ks))) \<subseteq>
      k_prefix ` set (filter (\<lambda>k. k_revoked_at k = None) ks)"
  using assms(2)
proof (induction ks)
  case (Cons k ks)
  then show ?case using assms(1) [of k] by (auto simp: update_where_def split: if_splits)
qed (simp add: update_where_def)

lemma keeps_update_keys:
  assumes f: "key_update_ok f"
  shows "keeps (update_keys P f)"
  unfolding update_keys_def
proof (intro keeps_stmt keepsI)
  fix d assume d: "db_ok d"
  let ?ks = "fst (update_where (P d) (f d) (db_keys d))"
  have m: "map k_id ?ks = map k_id (db_keys d)" "map k_hash ?ks = map k_hash (db_keys d)"
    "map k_account_id ?ks = map k_account_id (db_keys d)"
    using f by (auto intro!: map_update_where simp: key_update_ok_def)
  have "distinct (map k_prefix (filter (\<lambda>k. k_revoked_at k = None) ?ks))"
    using live_prefixes_update [of "f d" "db_keys d"] f d by (simp add: key_update_ok_def db_ok_def keys_ok_def)
  moreover have "\<forall>k \<in> set ?ks. k_id k < db_key_seq d \<and> key_kind_valid (k_kind k)"
    unfolding set_update_where using f d by (auto simp: key_update_ok_def db_ok_def keys_ok_def)
  ultimately have "keys_ok ?ks (db_key_seq d)" using d m by (simp add: db_ok_def keys_ok_def)
  moreover have "k_account_id ` set ?ks = k_account_id ` set (db_keys d)" using m(3) by (metis set_map)
  ultimately show "db_ok (snd (case update_where (P d) (f d) (db_keys d) of (rows, changed) \<Rightarrow> (Inr changed, d\<lparr>db_keys := rows\<rparr>)))"
    using d by (simp add: db_ok_def refs_ok_def tokens_ok_def case_prod_beta)
qed

lemma keeps_key_ops [keeps_intros]:
  "keeps (RevokeKey kid account_id)" "keeps (RevokeKeyByPrefix prefix)" "keeps (ListKeys account_id)"
  "keeps (KeysCreatedBetween from to)" "keeps (TouchKeys seen)"
  unfolding RevokeKey_def RevokeKeyByPrefix_def ListKeys_def KeysCreatedBetween_def TouchKeys_def
  by (auto intro!: keeps_intros keeps_update_keys simp: key_update_ok_def)

section \<open>Lemmas: entitlements\<close>

lemma entitlements_ok_seq: "entitlements_ok es seq \<Longrightarrow> entitlements_ok es (seq + 1)"
  by (auto simp: entitlements_ok_def intro: less_trans)

lemma db_ok_entitlement_seq: "db_ok d \<Longrightarrow> db_ok (d\<lparr>db_entitlement_seq := db_entitlement_seq d + 1\<rparr>)"
  by (simp add: db_ok_def refs_ok_def tokens_ok_def entitlements_ok_seq)

text \<open>A canonical row always passes the lookback check of migration 3.\<close>

lemma canonical_row_check: "canonical_row e \<Longrightarrow> lookback_check e"
  by (auto simp: canonical_row_def lookback_check_def split: if_splits)

lemma row_ok: "canonical_row e \<Longrightarrow> row_violation e = None \<Longrightarrow> entitlement_ok e"
  by (auto simp: row_violation_def entitlement_ok_def status_check_def source_check_def split: if_splits)

lemma entitlement_row_fields [simp]:
  "canonical_row (entitlement_row d e until ext) = canonical_row e"
  "e_id (entitlement_row d e until ext) = db_entitlement_seq d"
  "e_account_id (entitlement_row d e until ext) = e_account_id e"
  "e_external_ref (entitlement_row d e until ext) = (case ext of Some s \<Rightarrow> s | None \<Rightarrow> [])"
  by (simp_all add: entitlement_row_def canonical_row_def)

lemma db_ok_new_entitlement:
  assumes d: "db_ok d" and row: "entitlement_ok row" "e_id row = db_entitlement_seq d"
    "e_account_id row \<in> set (map ar_id (db_accounts d))"
    "e_external_ref row = [] \<or> e_external_ref row \<notin> set (map e_external_ref (filter (\<lambda>x. e_external_ref x \<noteq> []) (db_entitlements d)))"
  shows "db_ok (d\<lparr>db_entitlement_seq := db_entitlement_seq d + 1, db_entitlements := db_entitlements d @ [row]\<rparr>)"
proof -
  have "entitlements_ok (db_entitlements d @ [row]) (db_entitlement_seq d + 1)"
    using d row by (auto simp: db_ok_def entitlements_ok_def)
  then show ?thesis using d row(3) by (auto simp: db_ok_def refs_ok_def tokens_ok_def)
qed

lemma keeps_insertEntitlement:
  assumes "canonical_row e"
  shows "keeps (insertEntitlement (e, until, ext))"
  unfolding insertEntitlement_def
proof (intro keeps_stmt keepsI)
  fix d assume d: "db_ok d"
  let ?row = "entitlement_row d e until ext"
  have "db_ok (d\<lparr>db_entitlement_seq := db_entitlement_seq d + 1, db_entitlements := db_entitlements d @ [?row]\<rparr>)"
    if "row_violation ?row = None" "e_account_id ?row \<in> set (map ar_id (db_accounts d))"
      "\<not> (ext \<noteq> None \<and> e_external_ref ?row \<in> set (map e_external_ref (filter (\<lambda>x. e_external_ref x \<noteq> []) (db_entitlements d))))"
    using d assms that by (intro db_ok_new_entitlement row_ok) auto
  then show "db_ok (snd (case (e, until, ext) of (e, until, ext) \<Rightarrow>
       let row = entitlement_row d e until ext; d' = d\<lparr>db_entitlement_seq := db_entitlement_seq d + 1\<rparr> in
       (case row_violation row of
          Some err \<Rightarrow> (Inl err, d')
        | None \<Rightarrow>
            if ext \<noteq> None \<and> e_external_ref row \<in> set (map e_external_ref (filter (\<lambda>x. e_external_ref x \<noteq> []) (db_entitlements d)))
            then (Inl UniqueViolation, d')
            else if e_account_id row \<notin> set (map ar_id (db_accounts d)) then (Inl ForeignKeyViolation, d')
            else (Inr row, d'\<lparr>db_entitlements := db_entitlements d @ [row]\<rparr>))))"
    using db_ok_entitlement_seq [OF d] by (auto simp: Let_def split: option.splits)
qed

lemma prepared_cases:
  obtains (err) err where "prepared now e = fail err"
  | (ok) e' until ext where "prepared now e = give (e', until, ext)" "prepareEntitlement now e = Inr (e', until, ext)"
  by (cases "prepareEntitlement now e") (auto simp: prepared_def)

lemma and_then_give [simp]: "and_then (give x) g = g x" and and_then_fail [simp]: "and_then (fail e) g = fail e"
  by (rule ext, simp add: and_then_def give_def fail_def)+

lemma keeps_AddEntitlement [keeps_intros]: "keeps (AddEntitlement now e)"
proof (cases rule: prepared_cases [of now e])
  case (err err)
  then show ?thesis by (simp add: AddEntitlement_def keeps_fail)
next
  case (ok e' until ext)
  then show ?thesis using prepareEntitlement_Inr(1) [OF ok(2)] by (simp add: AddEntitlement_def keeps_insertEntitlement)
qed

lemma upsert_row_fields [simp]:
  "e_id (upsert_row new old) = e_id old" "e_external_ref (upsert_row new old) = e_external_ref old"
  "e_account_id (upsert_row new old) = e_account_id new" "entitlement_ok (upsert_row new old) = entitlement_ok new"
  by (simp_all add: upsert_row_def entitlement_ok_def canonical_row_def)

lemma db_ok_upsert:
  assumes d: "db_ok d" and row: "entitlement_ok row" "e_account_id row \<in> set (map ar_id (db_accounts d))"
  shows "db_ok (d\<lparr>db_entitlement_seq := db_entitlement_seq d + 1,
    db_entitlements := fst (update_where P (upsert_row row) (db_entitlements d))\<rparr>)"
proof -
  let ?es = "fst (update_where P (upsert_row row) (db_entitlements d))"
  have "map e_id ?es = map e_id (db_entitlements d)"
    "map e_external_ref (filter (\<lambda>x. e_external_ref x \<noteq> []) ?es) = map e_external_ref (filter (\<lambda>x. e_external_ref x \<noteq> []) (db_entitlements d))"
    by (rule map_update_where, simp) (rule map_filter_update_where, simp)
  moreover have "\<forall>e \<in> set ?es. e_id e < db_entitlement_seq d + 1 \<and> entitlement_ok e"
    unfolding set_update_where using d row by (auto simp: db_ok_def entitlements_ok_def intro: less_trans)
  ultimately have "entitlements_ok ?es (db_entitlement_seq d + 1)" using d by (simp add: db_ok_def entitlements_ok_def)
  moreover have "e_account_id ` set ?es \<subseteq> ar_id ` set (db_accounts d)"
    unfolding set_update_where using d row(2) by (auto simp: db_ok_def refs_ok_def)
  ultimately show ?thesis using d by (auto simp: db_ok_def refs_ok_def tokens_ok_def)
qed

lemma keeps_upsertEntitlement:
  assumes "canonical_row e" "ext \<noteq> Some []"
  shows "keeps (upsertEntitlement (e, until, ext))"
  unfolding upsertEntitlement_def
proof (intro keeps_stmt keepsI)
  fix d assume d: "db_ok d"
  let ?row = "entitlement_row d e until ext"
  let ?P = "\<lambda>x. ext \<noteq> None \<and> e_external_ref x = e_external_ref ?row"
  have ins: "db_ok (d\<lparr>db_entitlement_seq := db_entitlement_seq d + 1, db_entitlements := db_entitlements d @ [?row]\<rparr>)"
    if "row_violation ?row = None" "e_account_id ?row \<in> set (map ar_id (db_accounts d))" "filter ?P (db_entitlements d) = []"
    using d assms that by (intro db_ok_new_entitlement row_ok) (auto simp: filter_empty_conv split: option.splits)
  have upd: "db_ok (d\<lparr>db_entitlement_seq := db_entitlement_seq d + 1,
      db_entitlements := fst (update_where ?P (upsert_row ?row) (db_entitlements d))\<rparr>)"
    if "row_violation ?row = None" "e_account_id ?row \<in> set (map ar_id (db_accounts d))"
    using d assms that by (intro db_ok_upsert row_ok) auto
  show "db_ok (snd (case (e, until, ext) of (e, until, ext) \<Rightarrow>
       let row = entitlement_row d e until ext; d' = d\<lparr>db_entitlement_seq := db_entitlement_seq d + 1\<rparr>;
           P = (\<lambda>x. ext \<noteq> None \<and> e_external_ref x = e_external_ref row)
       in (case row_violation row of
          Some err \<Rightarrow> (Inl err, d')
        | None \<Rightarrow>
            if e_account_id row \<notin> set (map ar_id (db_accounts d)) then (Inl ForeignKeyViolation, d')
            else case filter P (db_entitlements d) of
                old # _ \<Rightarrow> (Inr (upsert_row row old), d'\<lparr>db_entitlements := fst (update_where P (upsert_row row) (db_entitlements d))\<rparr>)
              | [] \<Rightarrow> (Inr row, d'\<lparr>db_entitlements := db_entitlements d @ [row]\<rparr>))))"
  proof (cases "row_violation ?row")
    case None
    show ?thesis
      by (cases "e_account_id e \<in> set (map ar_id (db_accounts d))"; cases "filter ?P (db_entitlements d)")
         (use None ins upd db_ok_entitlement_seq [OF d] in \<open>simp_all only: Let_def prod.case option.case list.case snd_conv entitlement_row_fields
            not_True_eq_False not_False_eq_True if_True if_False\<close>)
  qed (use db_ok_entitlement_seq [OF d] in \<open>simp only: Let_def prod.case option.case snd_conv\<close>)
qed

lemma keeps_UpsertStripeEntitlement [keeps_intros]: "keeps (UpsertStripeEntitlement now e)"
proof (cases rule: prepared_cases [of now e])
  case (err err)
  then show ?thesis by (simp add: UpsertStripeEntitlement_def keeps_fail)
next
  case (ok e' until ext)
  have "ext \<noteq> Some []" using prepareEntitlement_Inr(4) [OF ok(2)] by auto
  then show ?thesis using ok prepareEntitlement_Inr(1) [OF ok(2)]
    by (simp add: UpsertStripeEntitlement_def keeps_upsertEntitlement keeps_fail)
qed

lemma db_ok_end:
  assumes d: "db_ok d"
  shows "db_ok (d\<lparr>db_entitlements := fst (update_where P (\<lambda>e. e\<lparr>e_status := EntitlementEnded, e_valid_until := Some at\<rparr>) (db_entitlements d))\<rparr>)"
proof -
  let ?f = "\<lambda>e. e\<lparr>e_status := EntitlementEnded, e_valid_until := Some at\<rparr>"
  let ?es = "fst (update_where P ?f (db_entitlements d))"
  have "map e_id ?es = map e_id (db_entitlements d)" "map e_account_id ?es = map e_account_id (db_entitlements d)"
    "map e_external_ref (filter (\<lambda>x. e_external_ref x \<noteq> []) ?es) = map e_external_ref (filter (\<lambda>x. e_external_ref x \<noteq> []) (db_entitlements d))"
    by (rule map_update_where, simp)+ (rule map_filter_update_where, simp)
  moreover have "\<forall>e \<in> set ?es. e_id e < db_entitlement_seq d \<and> entitlement_ok e"
    unfolding set_update_where using d by (auto simp: db_ok_def entitlements_ok_def entitlement_ok_def canonical_row_def)
  moreover from calculation(2) have "e_account_id ` set ?es = e_account_id ` set (db_entitlements d)" by (metis set_map)
  ultimately show ?thesis using d by (simp add: db_ok_def entitlements_ok_def refs_ok_def tokens_ok_def)
qed

lemma keeps_EndEntitlement [keeps_intros]: "keeps (EndEntitlement eid account_id at)"
proof (rule keepsI)
  fix d0 assume d0: "db_ok d0"
  let ?P = "\<lambda>e. e_id e = eid \<and> e_status e \<noteq> EntitlementEnded \<and> e_source e \<noteq> SourceStripe \<and> (account_id = 0 \<or> e_account_id e = account_id)"
  let ?f = "\<lambda>e. e\<lparr>e_status := EntitlementEnded, e_valid_until := Some at\<rparr>"
  let ?u = "stmt (\<lambda>d. case update_where ?P ?f (db_entitlements d) of (rows, changed) \<Rightarrow> (one_row changed, d\<lparr>db_entitlements := rows\<rparr>))"
  let ?s = "stmt (\<lambda>d. (one_row (filter (\<lambda>e. e_id e = eid \<and> (account_id = 0 \<or> e_account_id e = account_id)) (db_entitlements d)), d))"
  have "keeps ?u" by (intro keeps_stmt keepsI) (simp add: case_prod_beta db_ok_end)
  then have u: "db_ok (snd (?u d0))" by (rule keepsD [OF _ d0])
  have s: "db_ok d1 \<Longrightarrow> db_ok (snd (?s d1))" for d1 by (rule keepsD [OF keeps_query])
  show "db_ok (snd (EndEntitlement eid account_id at d0))"
  proof (cases "?u d0")
    case (Pair r d1)
    obtain r2 d2 where s2: "?s d1 = (r2, d2)" by fastforce
    have ok: "db_ok d1" using u Pair by simp
    then have "db_ok d2" using s [of d1] s2 by simp
    then have "db_ok (snd (case r of Inr e \<Rightarrow> (Inr e, d1) | Inl err \<Rightarrow>
         if err \<noteq> ErrNotFound then (Inl err, d1)
         else case r2 of Inl err' \<Rightarrow> (Inl err', d2)
           | Inr row \<Rightarrow> (Inl (if e_source row = SourceStripe then ErrStripeEntitlement else ErrNotFound), d2)))"
      using ok by (cases r; cases r2) simp_all
    then show ?thesis unfolding EndEntitlement_def Pair prod.case s2 .
  qed
qed

lemma keeps_entitlement_queries [keeps_intros]:
  "keeps ListActiveStripeRefs" "keeps (listEntitlements account_id active_only)" "keeps (ListEntitlements account_id)"
  "keeps (LookupKey hash)"
proof -
  show "keeps ListActiveStripeRefs" unfolding ListActiveStripeRefs_def by (rule keeps_query)
  show l: "keeps (listEntitlements i b)" for i b unfolding listEntitlements_def by (rule keeps_query)
  then show "keeps (ListEntitlements account_id)" unfolding ListEntitlements_def .
  show "keeps (LookupKey hash)" unfolding LookupKey_def
    by (intro keeps_and_then keeps_query) (simp add: case_prod_beta keeps_and_then keeps_give l)
qed

end
