(* ===== verification/Store_Tokens.thy ===== *)
theory Store_Tokens
  imports Store_Keys
begin

text \<open>
  The one-time rows of the store: invites, magic links, handoff nonces and Stripe events, from
  \<open>src/apiaccess/invites.go\<close>, \<open>magiclinks.go\<close>, \<open>nonces.go\<close> and \<open>events.go\<close>. Each is claimed by one
  conditional statement; the locale of single-use claims gives what that means for any
  interleaving of clients.
\<close>

section \<open>Operations\<close>

text \<open>\<open>DELETE ... WHERE\<close> and the rows it removed.\<close>

definition delete_where :: "(db \<Rightarrow> 'r list) \<Rightarrow> ('r list \<Rightarrow> db \<Rightarrow> db) \<Rightarrow> ('r \<Rightarrow> bool) \<Rightarrow> int op" where
  "delete_where rows put P =
     stmt (\<lambda>d. (Inr (int (length (filter P (rows d)))), put (filter (\<lambda>r. \<not> P r) (rows d)) d))"

definition put_invites :: "Invite list \<Rightarrow> db \<Rightarrow> db" where "put_invites rows d = d\<lparr>db_invites := rows\<rparr>"
definition put_links :: "magic_link list \<Rightarrow> db \<Rightarrow> db" where "put_links rows d = d\<lparr>db_links := rows\<rparr>"
definition put_nonces :: "(string \<times> time) list \<Rightarrow> db \<Rightarrow> db" where "put_nonces rows d = d\<lparr>db_nonces := rows\<rparr>"
definition put_events :: "stripe_event list \<Rightarrow> db \<Rightarrow> db" where "put_events rows d = d\<lparr>db_events := rows\<rparr>"

text \<open>A fresh token from 32 random bytes, \<open>None\<close> when the random source failed.\<close>

definition new_token :: "string option \<Rightarrow> string op" where
  "new_token rand = (case rand of None \<Rightarrow> fail (DriverError ''rand'') | Some buf \<Rightarrow> give (b64url_encode buf))"

definition insert_invite :: "string \<Rightarrow> string \<Rightarrow> string \<Rightarrow> time \<Rightarrow> string \<Rightarrow> Invite op" where
  "insert_invite hash interval email expires note =
     stmt (\<lambda>d.
       let row = \<lparr>iv_token_hash = hash, iv_interval_key = interval, iv_email = email, iv_expires_at = expires,
                  iv_used_at = None, iv_created_at = db_now d, iv_note = note\<rparr>
       in if hash \<in> set (map iv_token_hash (db_invites d)) then (Inl UniqueViolation, d)
          else (Inr row, d\<lparr>db_invites := db_invites d @ [row]\<rparr>))"

definition CreateInvite :: "string option \<Rightarrow> time \<Rightarrow> string \<Rightarrow> string \<Rightarrow> int \<Rightarrow> string \<Rightarrow> (string \<times> Invite) op" where
  "CreateInvite rand now interval email ttl note =
     and_then (new_token rand) (\<lambda>token.
     and_then (insert_invite (HashKey token) interval (NormalizeEmail email) (now + ttl) note)
       (\<lambda>inv. give (token, inv)))"

definition invite_live :: "string \<Rightarrow> string \<Rightarrow> time \<Rightarrow> Invite \<Rightarrow> bool" where
  "invite_live token email now i \<longleftrightarrow> iv_token_hash i = HashKey token \<and> iv_used_at i = None \<and> now < iv_expires_at i \<and>
     (iv_email i = [] \<or> iv_email i = NormalizeEmail email)"

definition ConsumeInvite :: "string \<Rightarrow> string \<Rightarrow> time \<Rightarrow> Invite op" where
  "ConsumeInvite token email now d0 =
     (case stmt (\<lambda>d. case update_where (invite_live token email now) (\<lambda>i. i\<lparr>iv_used_at := Some now\<rparr>) (db_invites d) of
             (rows, changed) \<Rightarrow> (one_row changed, put_invites rows d)) d0 of
        (Inl err, d1) \<Rightarrow> (Inl (if err = ErrNotFound then ErrInviteInvalid else err), d1)
      | (Inr i, d1) \<Rightarrow> (Inr i, d1))"

definition ReleaseInvite :: "string \<Rightarrow> unit op" where
  "ReleaseInvite token =
     stmt (\<lambda>d. (Inr (), put_invites
       (fst (update_where (\<lambda>i. iv_token_hash i = HashKey token) (\<lambda>i. i\<lparr>iv_used_at := None\<rparr>) (db_invites d))) d))"

definition PruneInvites :: "time \<Rightarrow> int op" where
  "PruneInvites before = delete_where db_invites put_invites (\<lambda>i. iv_expires_at i < before)"

definition insert_link :: "string \<Rightarrow> int \<Rightarrow> time \<Rightarrow> unit op" where
  "insert_link hash account_id expires =
     stmt (\<lambda>d.
       let row = \<lparr>ml_token_hash = hash, ml_account_id = account_id, ml_expires_at = expires, ml_used_at = None, ml_created_at = db_now d\<rparr>
       in if hash \<in> set (map ml_token_hash (db_links d)) then (Inl UniqueViolation, d)
          else if account_id \<notin> set (map ar_id (db_accounts d)) then (Inl ForeignKeyViolation, d)
          else (Inr (), d\<lparr>db_links := db_links d @ [row]\<rparr>))"

definition CreateMagicLink :: "string option \<Rightarrow> time \<Rightarrow> int \<Rightarrow> int \<Rightarrow> string op" where
  "CreateMagicLink rand now account_id ttl =
     and_then (delete_where db_links put_links (\<lambda>l. ml_expires_at l < now)) (\<lambda>_.
     and_then (new_token rand) (\<lambda>token.
     and_then (insert_link (HashKey token) account_id (now + ttl)) (\<lambda>_. give token)))"

definition link_live :: "string \<Rightarrow> time \<Rightarrow> magic_link \<Rightarrow> bool" where
  "link_live token now l \<longleftrightarrow> ml_token_hash l = HashKey token \<and> ml_used_at l = None \<and> now < ml_expires_at l"

definition ConsumeMagicLink :: "string \<Rightarrow> time \<Rightarrow> Account op" where
  "ConsumeMagicLink token now =
     stmt (\<lambda>d. case update_where (link_live token now) (\<lambda>l. l\<lparr>ml_used_at := Some now\<rparr>) (db_links d) of
       (rows, used) \<Rightarrow>
         (map_sum id scanAccount (one_row (filter (\<lambda>a. ar_id a \<in> set (map ml_account_id used)) (db_accounts d))), put_links rows d))"

definition DeleteMagicLink :: "string \<Rightarrow> unit op" where
  "DeleteMagicLink token = and_then (delete_where db_links put_links (\<lambda>l. ml_token_hash l = HashKey token)) (\<lambda>_. give ())"

definition insert_nonce :: "string \<Rightarrow> time \<Rightarrow> int op" where
  "insert_nonce nonce expires =
     stmt (\<lambda>d. if nonce \<in> set (map fst (db_nonces d)) then (Inr 0, d) else (Inr 1, d\<lparr>db_nonces := db_nonces d @ [(nonce, expires)]\<rparr>))"

definition ConsumeNonce :: "string \<Rightarrow> time \<Rightarrow> time \<Rightarrow> unit op" where
  "ConsumeNonce nonce expires now =
     and_then (delete_where db_nonces put_nonces (\<lambda>n. snd n < now)) (\<lambda>_.
     and_then (insert_nonce nonce expires) (\<lambda>n. if n = 0 then fail ErrNonceUsed else give ()))"

definition eventReclaimAfter :: int where "eventReclaimAfter = 5 * 60 * 1000000000"

definition BeginStripeEvent :: "string \<Rightarrow> string \<Rightarrow> bool op" where
  "BeginStripeEvent eid kind =
     stmt (\<lambda>d.
       if eid \<notin> set (map se_id (db_events d)) then
         (Inr True, put_events (db_events d @ [\<lparr>se_id = eid, se_type = kind, se_received_at = db_now d, se_processed_at = None\<rparr>]) d)
       else case update_where (\<lambda>e. se_id e = eid \<and> se_processed_at e = None \<and> se_received_at e < db_now d - eventReclaimAfter)
              (\<lambda>e. e\<lparr>se_received_at := db_now d\<rparr>) (db_events d) of
           (rows, changed) \<Rightarrow> (Inr (length changed = 1), put_events rows d))"

definition FinishStripeEvent :: "string \<Rightarrow> unit op" where
  "FinishStripeEvent eid =
     stmt (\<lambda>d. (Inr (), put_events
       (fst (update_where (\<lambda>e. se_id e = eid) (\<lambda>e. e\<lparr>se_processed_at := Some (db_now d)\<rparr>) (db_events d))) d))"

definition DeleteStripeEvent :: "string \<Rightarrow> unit op" where
  "DeleteStripeEvent eid = and_then (delete_where db_events put_events (\<lambda>e. se_id e = eid)) (\<lambda>_. give ())"

definition PruneStripeEvents :: "time \<Rightarrow> int op" where
  "PruneStripeEvents before = delete_where db_events put_events (\<lambda>e. se_received_at e < before)"

section \<open>The invariant\<close>

lemmas put_defs = put_invites_def put_links_def put_nonces_def put_events_def

lemma db_ok_put_invites: "db_ok d \<Longrightarrow> db_ok (put_invites rows d) = distinct (map iv_token_hash rows)"
  by (auto simp: put_defs db_ok_def refs_ok_def tokens_ok_def)

lemma db_ok_put_nonces: "db_ok d \<Longrightarrow> db_ok (put_nonces rows d) = distinct (map fst rows)"
  by (auto simp: put_defs db_ok_def refs_ok_def tokens_ok_def)

lemma db_ok_put_events: "db_ok d \<Longrightarrow> db_ok (put_events rows d) = distinct (map se_id rows)"
  by (auto simp: put_defs db_ok_def refs_ok_def tokens_ok_def)

lemma db_ok_put_links:
  "db_ok d \<Longrightarrow> db_ok (put_links rows d) = (distinct (map ml_token_hash rows) \<and> ml_account_id ` set rows \<subseteq> ar_id ` set (db_accounts d))"
  by (auto simp: put_defs db_ok_def refs_ok_def tokens_ok_def)

lemma db_ok_tokens:
  "db_ok d \<Longrightarrow> distinct (map iv_token_hash (db_invites d))" "db_ok d \<Longrightarrow> distinct (map ml_token_hash (db_links d))"
  "db_ok d \<Longrightarrow> distinct (map fst (db_nonces d))" "db_ok d \<Longrightarrow> distinct (map se_id (db_events d))"
  "db_ok d \<Longrightarrow> ml_account_id ` set (db_links d) \<subseteq> ar_id ` set (db_accounts d)"
  by (auto simp: db_ok_def refs_ok_def tokens_ok_def)

lemma keeps_delete_where:
  assumes "\<And>d. db_ok d \<Longrightarrow> db_ok (put (filter (\<lambda>r. \<not> P r) (rows d)) d)"
  shows "keeps (delete_where rows put P)"
  unfolding delete_where_def by (intro keeps_stmt keepsI) (simp add: assms)

lemma keeps_deletes [keeps_intros]:
  "keeps (delete_where db_invites put_invites P)" "keeps (delete_where db_links put_links Q)"
  "keeps (delete_where db_nonces put_nonces R)" "keeps (delete_where db_events put_events S)"
proof -
  show "keeps (delete_where db_invites put_invites P)"
    by (rule keeps_delete_where) (simp add: db_ok_put_invites db_ok_tokens distinct_map_filter)
  show "keeps (delete_where db_links put_links Q)"
    by (rule keeps_delete_where) (use db_ok_tokens in \<open>fastforce simp: db_ok_put_links distinct_map_filter\<close>)
  show "keeps (delete_where db_nonces put_nonces R)"
    by (rule keeps_delete_where) (simp add: db_ok_put_nonces db_ok_tokens distinct_map_filter)
  show "keeps (delete_where db_events put_events S)"
    by (rule keeps_delete_where) (simp add: db_ok_put_events db_ok_tokens distinct_map_filter)
qed

lemma keeps_new_token [keeps_intros]: "keeps (new_token rand)"
  by (cases rand) (simp_all add: new_token_def keeps_fail keeps_give)

lemma keeps_inserts [keeps_intros]:
  "keeps (insert_invite hash interval email expires note)" "keeps (insert_link hash account_id expires)"
  "keeps (insert_nonce nonce expires)"
  unfolding insert_invite_def insert_link_def insert_nonce_def
  by (rule keeps_stmt, rule keepsI, auto simp: Let_def db_ok_def refs_ok_def tokens_ok_def)+

lemma keeps_ConsumeInvite [keeps_intros]: "keeps (ConsumeInvite token email now)"
proof (rule keepsI)
  fix d0 assume d0: "db_ok d0"
  let ?s = "stmt (\<lambda>d. case update_where (invite_live token email now) (\<lambda>i. i\<lparr>iv_used_at := Some now\<rparr>) (db_invites d) of
             (rows, changed) \<Rightarrow> (one_row changed, put_invites rows d))"
  have "keeps ?s"
    by (intro keeps_stmt keepsI) (simp add: case_prod_beta db_ok_put_invites map_update_where db_ok_tokens)
  then have "db_ok (snd (?s d0))" by (rule keepsD [OF _ d0])
  then show "db_ok (snd (ConsumeInvite token email now d0))"
    unfolding ConsumeInvite_def by (cases "?s d0"; cases "fst (?s d0)") simp_all
qed

lemma keeps_ConsumeMagicLink [keeps_intros]: "keeps (ConsumeMagicLink token now)"
proof -
  have "db_ok (put_links (fst (update_where (link_live token now) (\<lambda>l. l\<lparr>ml_used_at := Some now\<rparr>) (db_links d))) d)" if "db_ok d" for d
  proof -
    let ?ls = "fst (update_where (link_live token now) (\<lambda>l. l\<lparr>ml_used_at := Some now\<rparr>) (db_links d))"
    have "map ml_token_hash ?ls = map ml_token_hash (db_links d)" by (rule map_update_where) simp
    moreover have "map ml_account_id ?ls = map ml_account_id (db_links d)" by (rule map_update_where) simp
    then have "ml_account_id ` set ?ls = ml_account_id ` set (db_links d)" by (metis set_map)
    ultimately show ?thesis using that db_ok_tokens(2,5) [OF that] by (simp add: db_ok_put_links)
  qed
  then show ?thesis unfolding ConsumeMagicLink_def by (intro keeps_stmt keepsI) (simp add: case_prod_beta)
qed

lemma keeps_event_ops [keeps_intros]: "keeps (BeginStripeEvent eid kind)" "keeps (FinishStripeEvent eid)" "keeps (ReleaseInvite token)"
  unfolding BeginStripeEvent_def FinishStripeEvent_def ReleaseInvite_def
  by (rule keeps_stmt, rule keepsI, simp add: case_prod_beta db_ok_put_events db_ok_put_invites map_update_where db_ok_tokens)+

lemma keeps_token_ops [keeps_intros]:
  "keeps (CreateInvite rand now interval email ttl note)" "keeps (PruneInvites before)"
  "keeps (CreateMagicLink rand now account_id ttl)" "keeps (DeleteMagicLink token)"
  "keeps (ConsumeNonce nonce expires now)" "keeps (DeleteStripeEvent eid)" "keeps (PruneStripeEvents before)"
  unfolding CreateInvite_def PruneInvites_def CreateMagicLink_def DeleteMagicLink_def ConsumeNonce_def DeleteStripeEvent_def PruneStripeEvents_def
  by (intro keeps_and_then keeps_deletes keeps_new_token keeps_inserts keeps_give; simp add: keeps_fail keeps_give)+

section \<open>Single use\<close>

definition succeeded :: "(access_error + 'a) \<times> db \<Rightarrow> bool \<times> db" where
  "succeeded r = (\<not> isl (fst r), snd r)"

definition link_claim :: "db \<Rightarrow> string \<Rightarrow> time \<Rightarrow> bool \<times> db" where
  "link_claim d token now = succeeded (ConsumeMagicLink token now d)"

definition link_taken :: "db \<Rightarrow> string \<Rightarrow> bool" where
  "link_taken d token \<longleftrightarrow> list_ex (\<lambda>l. ml_token_hash l = HashKey token \<and> ml_used_at l \<noteq> None) (db_links d)"

definition invite_claim :: "db \<Rightarrow> string \<Rightarrow> string \<times> time \<Rightarrow> bool \<times> db" where
  "invite_claim d token c = succeeded (ConsumeInvite token (fst c) (snd c) d)"

definition invite_taken :: "db \<Rightarrow> string \<Rightarrow> bool" where
  "invite_taken d token \<longleftrightarrow> list_ex (\<lambda>i. iv_token_hash i = HashKey token \<and> iv_used_at i \<noteq> None) (db_invites d)"

text \<open>A statement either meets a driver error and changes no table, or runs.\<close>

lemma stmt_cases:
  obtains (error) msg fs where "stmt f d = (Inl (DriverError msg), d\<lparr>db_faults := fs\<rparr>)"
  | (runs) fs where "stmt f d = f (d\<lparr>db_faults := fs\<rparr>)"
proof (cases "db_faults d")
  case Nil
  then have e: "d\<lparr>db_faults := []\<rparr> = d" by (cases d) simp
  show ?thesis by (rule runs [of "[]"]) (simp add: e, simp add: stmt_def Nil)
next
  case (Cons x fs)
  show ?thesis
  proof (cases x)
    case None
    then show ?thesis using Cons runs [of fs] by (simp add: stmt_def)
  next
    case (Some msg)
    then show ?thesis using Cons error [of msg fs] by (simp add: stmt_def)
  qed
qed

lemma list_ex_updated:
  "filter P rows \<noteq> [] \<Longrightarrow> (\<And>r. P r \<Longrightarrow> Q (f r)) \<Longrightarrow> list_ex Q (fst (update_where P f rows))"
  by (induction rows) (auto simp: update_where_def)

lemma list_ex_update_stays:
  "list_ex Q rows \<Longrightarrow> (\<And>r. Q r \<Longrightarrow> Q (f r)) \<Longrightarrow> list_ex Q (fst (update_where P f rows))"
  by (induction rows) (auto simp: update_where_def)

text \<open>Unique hashes leave no live row beside a used one.\<close>

lemma used_not_live:
  assumes "distinct (map h rows)" "list_ex (\<lambda>r. h r = x \<and> \<not> fresh r) rows"
  shows "filter (\<lambda>r. h r = x \<and> fresh r \<and> Q r) rows = []"
proof -
  obtain r where r: "r \<in> set rows" "h r = x" "\<not> fresh r" using assms(2) by (auto simp: list_ex_iff)
  have "\<not> (h r' = x \<and> fresh r' \<and> Q r')" if "r' \<in> set rows" for r'
    using assms(1) r that unfolding distinct_map by (metis inj_onD)
  then show ?thesis unfolding filter_empty_conv by blast
qed

lemma link_live_filter: "link_taken d token \<Longrightarrow> db_ok d \<Longrightarrow> filter (link_live token now) (db_links d) = []"
  unfolding link_taken_def link_live_def [abs_def]
  by (rule used_not_live) (simp_all add: db_ok_tokens)

lemma invite_live_filter: "invite_taken d token \<Longrightarrow> db_ok d \<Longrightarrow> filter (invite_live token email now) (db_invites d) = []"
  unfolding invite_taken_def invite_live_def [abs_def]
  by (rule used_not_live) (simp_all add: db_ok_tokens)


lemma db_faults_tables [simp]:
  "link_taken (d\<lparr>db_faults := fs\<rparr>) token = link_taken d token" "invite_taken (d\<lparr>db_faults := fs\<rparr>) token = invite_taken d token"
  by (simp_all add: link_taken_def invite_taken_def)

lemma isl_one_row: "isl (map_sum id g (one_row rows)) \<longleftrightarrow> rows = []"
  by (cases rows) (simp_all add: one_row_def)

lemma link_claim_effect:
  obtains (error) fs where "link_claim d token now = (False, d\<lparr>db_faults := fs\<rparr>)"
  | (runs) fs where "snd (link_claim d token now) = put_links (fst (update_where (link_live token now)
        (\<lambda>l. l\<lparr>ml_used_at := Some now\<rparr>) (db_links d))) (d\<lparr>db_faults := fs\<rparr>)"
      "fst (link_claim d token now) \<Longrightarrow> filter (link_live token now) (db_links d) \<noteq> []"
proof (cases rule: stmt_cases [of "\<lambda>d. case update_where (link_live token now) (\<lambda>l. l\<lparr>ml_used_at := Some now\<rparr>) (db_links d) of
       (rows, used) \<Rightarrow>
         (map_sum id scanAccount (one_row (filter (\<lambda>a. ar_id a \<in> set (map ml_account_id used)) (db_accounts d))), put_links rows d)" d])
  case (error msg fs)
  then show ?thesis using that(1) [of fs] by (simp add: link_claim_def ConsumeMagicLink_def succeeded_def)
next
  case (runs fs)
  show ?thesis
    by (rule that(2) [of fs])
       (unfold link_claim_def ConsumeMagicLink_def runs, auto simp: succeeded_def update_where_def isl_one_row filter_empty_conv)
qed

lemma invite_claim_effect:
  obtains (error) fs where "invite_claim d token (email, now) = (False, d\<lparr>db_faults := fs\<rparr>)"
  | (runs) fs where "snd (invite_claim d token (email, now)) = put_invites (fst (update_where (invite_live token email now)
        (\<lambda>i. i\<lparr>iv_used_at := Some now\<rparr>) (db_invites d))) (d\<lparr>db_faults := fs\<rparr>)"
      "fst (invite_claim d token (email, now)) = (filter (invite_live token email now) (db_invites d) \<noteq> [])"
proof (cases rule: stmt_cases [of "\<lambda>d. case update_where (invite_live token email now) (\<lambda>i. i\<lparr>iv_used_at := Some now\<rparr>) (db_invites d) of
             (rows, changed) \<Rightarrow> (one_row changed, put_invites rows d)" d])
  case (error msg fs)
  then show ?thesis using that(1) [of fs] by (simp add: invite_claim_def ConsumeInvite_def succeeded_def)
next
  case (runs fs)
  show ?thesis
    by (rule that(2) [of fs])
       (unfold invite_claim_def ConsumeInvite_def fst_conv snd_conv runs,
        auto simp: succeeded_def update_where_def one_row_def split: list.splits)
qed

interpretation link: single_use link_claim link_taken db_ok
proof unfold_locales
  fix d k now d' assume "link_claim d k now = (True, d')"
  then show "link_taken d' k"
    by (cases rule: link_claim_effect [of d k now]) (auto simp: link_taken_def put_links_def link_live_def intro!: list_ex_updated)
next
  fix d k now assume ok: "db_ok d" and t: "link_taken d k"
  then show "\<not> fst (link_claim d k now)"
    using link_live_filter [OF t ok] by (cases rule: link_claim_effect [of d k now]) auto
next
  fix d k j now assume "link_taken d k"
  then show "link_taken (snd (link_claim d j now)) k"
    by (cases rule: link_claim_effect [of d j now]) (auto simp: link_taken_def put_links_def intro!: list_ex_update_stays)
next
  fix d j now assume "db_ok d"
  then show "db_ok (snd (link_claim d j now))"
    using keepsD [OF keeps_ConsumeMagicLink, of d j now] by (simp add: link_claim_def succeeded_def)
qed

interpretation invite: single_use invite_claim invite_taken db_ok
proof unfold_locales
  fix d k and c :: "string \<times> time" and d' assume "invite_claim d k c = (True, d')"
  then show "invite_taken d' k"
    by (cases c, cases rule: invite_claim_effect [of d k "fst c" "snd c"])
       (auto simp: invite_taken_def put_invites_def invite_live_def intro!: list_ex_updated)
next
  fix d k and c :: "string \<times> time" assume ok: "db_ok d" and t: "invite_taken d k"
  then show "\<not> fst (invite_claim d k c)"
    using invite_live_filter [OF t ok] by (cases c, cases rule: invite_claim_effect [of d k "fst c" "snd c"]) auto
next
  fix d k j and c :: "string \<times> time" assume "invite_taken d k"
  then show "invite_taken (snd (invite_claim d j c)) k"
    by (cases c, cases rule: invite_claim_effect [of d j "fst c" "snd c"]) (auto simp: invite_taken_def put_invites_def intro!: list_ex_update_stays)
next
  fix d j and c :: "string \<times> time" assume "db_ok d"
  then show "db_ok (snd (invite_claim d j c))"
    using keepsD [OF keeps_ConsumeInvite, of d j "fst c" "snd c"] by (simp add: invite_claim_def succeeded_def)
qed


text \<open>
  A handoff token carries its expiry, and the portal refuses it once expired, before it asks the
  store; \<open>E\<close> is the expiry of each nonce. The state has the time of the last attempt beside the
  tables, since the store's clocks only move on.
\<close>

definition nonce_claim :: "(string \<Rightarrow> time) \<Rightarrow> db \<times> time \<Rightarrow> string \<Rightarrow> time \<Rightarrow> bool \<times> db \<times> time" where
  "nonce_claim E s nonce at =
     (let now = max (snd s) at in
      if E nonce < now then (False, fst s, now)
      else case succeeded (ConsumeNonce nonce (E nonce) now (fst s)) of (b, d) \<Rightarrow> (b, d, now))"

definition nonce_taken :: "(string \<Rightarrow> time) \<Rightarrow> db \<times> time \<Rightarrow> string \<Rightarrow> bool" where
  "nonce_taken E s nonce \<longleftrightarrow> (nonce, E nonce) \<in> set (db_nonces (fst s)) \<or> E nonce < snd s"

lemma ConsumeNonce_effect:
  obtains (swept) msg fs where "ConsumeNonce nonce expires now d = (Inl (DriverError msg), d\<lparr>db_faults := fs\<rparr>)"
  | (failed) msg fs where "ConsumeNonce nonce expires now d =
      (Inl (DriverError msg), d\<lparr>db_faults := fs, db_nonces := filter (\<lambda>n. \<not> snd n < now) (db_nonces d)\<rparr>)"
  | (used) fs where "nonce \<in> fst ` set (filter (\<lambda>n. \<not> snd n < now) (db_nonces d))" "ConsumeNonce nonce expires now d =
      (Inl ErrNonceUsed, d\<lparr>db_faults := fs, db_nonces := filter (\<lambda>n. \<not> snd n < now) (db_nonces d)\<rparr>)"
  | (claimed) fs where "nonce \<notin> fst ` set (filter (\<lambda>n. \<not> snd n < now) (db_nonces d))" "ConsumeNonce nonce expires now d =
      (Inr (), d\<lparr>db_faults := fs, db_nonces := filter (\<lambda>n. \<not> snd n < now) (db_nonces d) @ [(nonce, expires)]\<rparr>)"
proof -
  let ?del = "\<lambda>d. (Inr (int (length (filter (\<lambda>n. snd n < now) (db_nonces d)))) :: access_error + int,
    put_nonces (filter (\<lambda>n. \<not> snd n < now) (db_nonces d)) d)"
  let ?ins = "\<lambda>d. if nonce \<in> set (map fst (db_nonces d)) then (Inr 0 :: access_error + int, d)
    else (Inr 1, d\<lparr>db_nonces := db_nonces d @ [(nonce, expires)]\<rparr>)"
  have c: "ConsumeNonce nonce expires now d =
      and_then (stmt ?del) (\<lambda>_. and_then (stmt ?ins) (\<lambda>n. if n = 0 then fail ErrNonceUsed else give ())) d"
    by (simp add: ConsumeNonce_def delete_where_def insert_nonce_def)
  show ?thesis
  proof (cases rule: stmt_cases [of ?del d])
    case (error msg fs)
    show ?thesis by (rule swept [of msg fs]) (simp only: c and_then_def error prod.case sum.case)
  next
    case (runs fs)
    let ?d1 = "put_nonces (filter (\<lambda>n. \<not> snd n < now) (db_nonces d)) (d\<lparr>db_faults := fs\<rparr>)"
    have c1: "ConsumeNonce nonce expires now d = and_then (stmt ?ins) (\<lambda>n. if n = 0 then fail ErrNonceUsed else give ()) ?d1"
      unfolding c and_then_def [of "stmt ?del"] runs by simp
    show ?thesis
    proof (cases rule: stmt_cases [of ?ins ?d1])
      case (error msg fs)
      show ?thesis by (rule failed [of msg fs]) (simp only: c1 and_then_def error prod.case sum.case, simp add: put_nonces_def)
    next
      case runs2: (runs fs2)
      have c2: "ConsumeNonce nonce expires now d =
          (case ?ins (?d1\<lparr>db_faults := fs2\<rparr>) of (Inl e, d') \<Rightarrow> (Inl e, d') | (Inr n, d') \<Rightarrow> (if n = 0 then fail ErrNonceUsed else give ()) d')"
        unfolding c1 and_then_def runs2 ..
      show ?thesis
      proof (cases "nonce \<in> fst ` set (filter (\<lambda>n. \<not> snd n < now) (db_nonces d))")
        case True
        show ?thesis by (rule used [of fs2, OF True]) (use True in \<open>simp add: c2 put_nonces_def fail_def\<close>)
      next
        case False
        show ?thesis by (rule claimed [of fs2, OF False]) (use False in \<open>simp add: c2 put_nonces_def give_def\<close>)
      qed
    qed
  qed
qed

lemma nonce_claim_taken: "nonce_claim E s k at = (True, s') \<Longrightarrow> nonce_taken E s' k"
  by (cases rule: ConsumeNonce_effect [of k "E k" "max (snd s) at" "fst s"])
     (auto simp: nonce_claim_def nonce_taken_def succeeded_def Let_def split: if_splits)

lemma nonce_claim_refuses: "nonce_taken E s k \<Longrightarrow> \<not> fst (nonce_claim E s k at)"
  by (cases rule: ConsumeNonce_effect [of k "E k" "max (snd s) at" "fst s"])
     (force simp: nonce_claim_def nonce_taken_def succeeded_def Let_def split: if_splits)+

lemma nonce_claim_stays: "nonce_taken E s k \<Longrightarrow> nonce_taken E (snd (nonce_claim E s j at)) k"
  by (cases rule: ConsumeNonce_effect [of j "E j" "max (snd s) at" "fst s"])
     (auto simp: nonce_claim_def nonce_taken_def succeeded_def Let_def)

interpretation nonce: single_use "nonce_claim E" "nonce_taken E" "\<lambda>_. True" for E
  by unfold_locales (auto intro: nonce_claim_taken nonce_claim_stays dest: nonce_claim_refuses)


lemma link_claim_live:
  assumes ok: "db_ok d" and nf: "db_faults d = []"
  shows "fst (link_claim d token now) \<longleftrightarrow> list_ex (link_live token now) (db_links d)"
proof -
  have "\<exists>a \<in> set (db_accounts d). ar_id a = ml_account_id l" if "l \<in> set (db_links d)" for l
    using subsetD [OF db_ok_tokens(5) [OF ok], of "ml_account_id l"] that by auto
  then have "filter (\<lambda>a. ar_id a \<in> ml_account_id ` {l \<in> set (db_links d). link_live token now l}) (db_accounts d) = [] \<longleftrightarrow>
      \<not> list_ex (link_live token now) (db_links d)"
    unfolding filter_empty_conv list_ex_iff by (auto simp: image_iff)
  then show ?thesis
    by (simp add: link_claim_def ConsumeMagicLink_def stmt_def nf succeeded_def update_where_def isl_one_row image_image)
qed

lemma invite_claim_live:
  "db_faults d = [] \<Longrightarrow> fst (invite_claim d token (email, now)) \<longleftrightarrow> list_ex (invite_live token email now) (db_invites d)"
  by (cases rule: invite_claim_effect [of d token email now])
     (auto simp: invite_claim_def ConsumeInvite_def stmt_def succeeded_def update_where_def one_row_def list_ex_iff filter_empty_conv split: list.splits)

lemma nonce_claim_live:
  "db_faults (fst s) = [] \<Longrightarrow> fst (nonce_claim E s nonce at) \<longleftrightarrow>
     max (snd s) at \<le> E nonce \<and> \<not> list_ex (\<lambda>n. fst n = nonce \<and> max (snd s) at \<le> snd n) (db_nonces (fst s))"
  by (auto simp: nonce_claim_def ConsumeNonce_def delete_where_def insert_nonce_def and_then_def stmt_def succeeded_def put_nonces_def
      fail_def give_def Let_def list_ex_iff not_less)

section \<open>Properties\<close>

text \<open>However many clients present sign-in tokens, in whatever order and at whatever times, each
  token signs in at most once, driver errors in between or not; and without a driver error it does
  sign in exactly while its row is unused and not expired.\<close>

theorem magic_link_once:
  assumes "db_ok d"
  shows "wins link_claim d token attempts \<le> 1 \<and>
    (db_faults d = [] \<longrightarrow> fst (link_claim d token now) = list_ex (link_live token now) (db_links d))"
  using link.at_most_one_win [OF assms] link_claim_live [OF assms] by blast

text \<open>An invite authorizes at most one checkout between two releases of it, whatever emails present
  it and when; and without a driver error it is accepted exactly while its row is unused, not
  expired, and bound to the presenting email or to none.\<close>

theorem invite_once:
  assumes "db_ok d"
  shows "wins invite_claim d token attempts \<le> 1 \<and>
    (db_faults d = [] \<longrightarrow> fst (invite_claim d token (email, now)) = list_ex (invite_live token email now) (db_invites d))"
  using invite.at_most_one_win [OF assms] invite_claim_live by blast

text \<open>A handoff token is accepted at most once in its life: while its row is kept the insert
  conflicts, and the sweep drops the row only after the token expired, when the portal refuses it.
  Without a driver error it is accepted exactly while it has not expired and no unexpired row
  holds its nonce.\<close>

theorem handoff_nonce_once:
  "wins (nonce_claim E) s nonce attempts \<le> 1 \<and>
   (db_faults (fst s) = [] \<longrightarrow> fst (nonce_claim E s nonce at) =
      (max (snd s) at \<le> E nonce \<and> \<not> list_ex (\<lambda>n. fst n = nonce \<and> max (snd s) at \<le> snd n) (db_nonces (fst s))))"
  using nonce.at_most_one_win [of E s nonce attempts] nonce_claim_live [of s E nonce at] by blast

text \<open>An event may be claimed when it is new, or when its last claim is old and was never finished.\<close>

definition claimable :: "db \<Rightarrow> string \<Rightarrow> bool" where
  "claimable d eid \<longleftrightarrow> list_all (\<lambda>e. se_id e = eid \<longrightarrow> se_processed_at e = None \<and> se_received_at e + eventReclaimAfter < db_now d) (db_events d)"

lemma distinct_key_filter:
  "distinct (map h rows) \<Longrightarrow> r \<in> set rows \<Longrightarrow> filter (\<lambda>x. h x = h r \<and> P x) rows = (if P r then [r] else [])"
proof (induction rows)
  case (Cons a rows)
  show ?case
  proof (cases "r = a")
    case True
    have "filter (\<lambda>x. h x = h a \<and> P x) rows = []" using Cons.prems(1) unfolding filter_empty_conv by (metis distinct.simps(2) image_eqI list.map(2) list.set_map)
    then show ?thesis using True by simp
  next
    case False
    then have "r \<in> set rows" "h a \<noteq> h r" using Cons.prems by auto
    then show ?thesis using Cons by simp
  qed
qed simp

lemma BeginStripeEvent_result:
  assumes ok: "db_ok d" and nf: "db_faults d = []"
  shows "fst (BeginStripeEvent eid kind d) = Inr (claimable d eid)"
proof (cases "eid \<in> set (map se_id (db_events d))")
  case True
  then obtain e where e: "e \<in> set (db_events d)" "se_id e = eid" by auto
  have dist: "distinct (map se_id (db_events d))" using db_ok_tokens(4) [OF ok] .
  have only: "x = e" if "x \<in> set (db_events d)" "se_id x = eid" for x
    using dist e that by (metis distinct_map inj_onD)
  have "claimable d eid \<longleftrightarrow> se_processed_at e = None \<and> se_received_at e < db_now d - eventReclaimAfter"
    unfolding claimable_def list_all_iff using e only by (metis less_diff_eq)
  then show ?thesis using True distinct_key_filter [OF dist e(1)] e(2) nf
    by (simp add: BeginStripeEvent_def stmt_def update_where_def)
next
  case False
  then have "claimable d eid" by (auto simp: claimable_def list_all_iff)
  then show ?thesis using False nf by (simp add: BeginStripeEvent_def stmt_def)
qed

lemma Begin_claims:
  assumes ok: "db_ok d" and nf: "db_faults d = []" and c: "claimable d eid"
  shows "\<exists>e \<in> set (db_events (snd (BeginStripeEvent eid kind d))). se_id e = eid \<and> se_received_at e = db_now d"
proof (cases "eid \<in> set (map se_id (db_events d))")
  case True
  then obtain e where e: "e \<in> set (db_events d)" "se_id e = eid" by auto
  have "se_processed_at e = None \<and> se_received_at e < db_now d - eventReclaimAfter"
    using c e unfolding claimable_def list_all_iff by (simp add: less_diff_eq)
  then have "e\<lparr>se_received_at := db_now d\<rparr> \<in> set (db_events (snd (BeginStripeEvent eid kind d)))"
    using True e nf by (force simp: BeginStripeEvent_def stmt_def update_where_def put_events_def)
  then show ?thesis using e(2) by (intro bexI) auto
next
  case False
  then show ?thesis using nf by (simp add: BeginStripeEvent_def stmt_def put_events_def)
qed

text \<open>A webhook event is claimed exactly when it is new or its last claim is more than five
  minutes old and unfinished; a claim then holds off every other for five minutes, and a finished
  event is never claimed again, however much later.\<close>

theorem stripe_event_claims:
  assumes "db_ok d" "db_faults d = []"
  shows "fst (BeginStripeEvent eid kind d) = Inr (claimable d eid) \<and>
    (claimable d eid \<longrightarrow> (\<forall>t \<le> db_now d + eventReclaimAfter. \<not> claimable ((snd (BeginStripeEvent eid kind d))\<lparr>db_now := t\<rparr>) eid)) \<and>
    (eid \<in> set (map se_id (db_events d)) \<longrightarrow> (\<forall>t. \<not> claimable ((snd (FinishStripeEvent eid d))\<lparr>db_now := t\<rparr>) eid))"
proof (intro conjI impI allI)
  show "fst (BeginStripeEvent eid kind d) = Inr (claimable d eid)" by (rule BeginStripeEvent_result [OF assms])
next
  fix t assume c: "claimable d eid" and t: "t \<le> db_now d + eventReclaimAfter"
  show "\<not> claimable ((snd (BeginStripeEvent eid kind d))\<lparr>db_now := t\<rparr>) eid"
    using Begin_claims [OF assms c, of kind] t by (auto simp: claimable_def list_all_iff)
next
  fix t assume "eid \<in> set (map se_id (db_events d))"
  then obtain e where e: "e \<in> set (db_events d)" "se_id e = eid" by auto
  then have "e\<lparr>se_processed_at := Some (db_now d)\<rparr> \<in> set (db_events (snd (FinishStripeEvent eid d)))"
    using assms(2) by (simp add: FinishStripeEvent_def stmt_def put_events_def set_update_where)
  then show "\<not> claimable ((snd (FinishStripeEvent eid d))\<lparr>db_now := t\<rparr>) eid"
    using e(2) unfolding claimable_def list_all_iff
    by (auto intro!: bexI [where x = "e\<lparr>se_processed_at := Some (db_now d)\<rparr>"])
qed

definition demo_db :: db where
  "demo_db = (empty_db 100)\<lparr>db_accounts := [new_account (empty_db 100) ''a@b.c'' []], db_account_seq := 2,
     db_links := [\<lparr>ml_token_hash = HashKey ''tok'', ml_account_id = 1, ml_expires_at = 200, ml_used_at = None, ml_created_at = 100\<rparr>],
     db_invites := [\<lparr>iv_token_hash = HashKey ''inv'', iv_interval_key = ''month'', iv_email = [], iv_expires_at = 200, iv_used_at = None,
       iv_created_at = 100, iv_note = []\<rparr>]\<rparr>"

lemma demo_db_ok: "db_ok demo_db"
proof -
  have "NormalizeEmail ''a@b.c'' = ''a@b.c''" by code_simp
  then show ?thesis
    by (simp add: demo_db_def empty_db_def new_account_def db_ok_def accounts_ok_def keys_ok_def entitlements_ok_def
        refs_ok_def tokens_ok_def account_status_valid_def)
qed

theorem stripe_event_claims_witness:
  "fst (BeginStripeEvent ''evt_1'' ''t'' demo_db) = Inr True \<and>
     \<not> claimable ((snd (BeginStripeEvent ''evt_1'' ''t'' demo_db))\<lparr>db_now := 100 + eventReclaimAfter\<rparr>) ''evt_1''"
proof -
  have d: "db_faults demo_db = []" "claimable demo_db ''evt_1''" "db_now demo_db = 100"
    by (simp_all add: demo_db_def empty_db_def claimable_def)
  show ?thesis using stripe_event_claims [OF demo_db_ok d(1), of "''evt_1''" "''t''"] d by simp
qed

theorem magic_link_once_witness:
  "wins link_claim demo_db ''tok'' [(''tok'', 150), (''tok'', 160)] \<le> 1 \<and> fst (link_claim demo_db ''tok'' 150)"
  using magic_link_once [OF demo_db_ok, of "''tok''" "[(''tok'', 150), (''tok'', 160)]" 150]
  by (simp add: demo_db_def link_live_def empty_db_def)

theorem invite_once_witness:
  "wins invite_claim demo_db ''inv'' [(''inv'', ''x@y.z'', 150), (''inv'', ''u@v.w'', 160)] \<le> 1 \<and>
     fst (invite_claim demo_db ''inv'' (''x@y.z'', 150))"
  using invite_once [OF demo_db_ok, of "''inv''" "[(''inv'', ''x@y.z'', 150), (''inv'', ''u@v.w'', 160)]" "''x@y.z''" 150]
  by (simp add: demo_db_def invite_live_def empty_db_def)

theorem handoff_nonce_once_witness:
  "wins (nonce_claim (\<lambda>_. 200)) (demo_db, 100) ''n'' [(''n'', 150), (''n'', 160)] \<le> 1 \<and>
     fst (nonce_claim (\<lambda>_. 200) (demo_db, 100) ''n'' 150)"
  using handoff_nonce_once [of "\<lambda>_. 200" "(demo_db, 100)" "''n''" "[(''n'', 150), (''n'', 160)]" 150]
  by (simp add: demo_db_def empty_db_def)

end
