(* ===== verification/Store_Trials.thy ===== *)
theory Store_Trials
  imports Store_Tokens Client_IP "HOL-Library.Multiset"
begin

text \<open>
  The rest of the store: trials, the operators' log, usage and its summaries, and the list of demo
  access, from \<open>src/apiaccess/trials.go\<close>, \<open>audit.go\<close>, \<open>usage.go\<close> and \<open>demo.go\<close>. Strings are ordered
  by their bytes; rows a query leaves in no order come in the order of their insertion.
\<close>

section \<open>Transactions\<close>

text \<open>
  A transaction begins, runs, and commits. An error anywhere rolls the tables back to where it
  began; the identity sequences do not roll back.
\<close>

definition rollback :: "db \<Rightarrow> db \<Rightarrow> db" where
  "rollback d0 d = d0\<lparr>db_faults := db_faults d, db_account_seq := db_account_seq d, db_key_seq := db_key_seq d,
     db_entitlement_seq := db_entitlement_seq d, db_trial_seq := db_trial_seq d, db_action_seq := db_action_seq d\<rparr>"

definition driver_call :: "unit op" where
  "driver_call = stmt (\<lambda>d. (Inr (), d))"

definition transaction :: "'a op \<Rightarrow> 'a op" where
  "transaction body =
     and_then driver_call (\<lambda>_ d0.
       case and_then body (\<lambda>x. and_then driver_call (\<lambda>_. give x)) d0 of
         (Inl e, d) \<Rightarrow> (Inl e, rollback d0 d)
       | (Inr x, d) \<Rightarrow> (Inr x, d))"

section \<open>Trials\<close>

definition insert_trial :: "string \<Rightarrow> int \<Rightarrow> time \<Rightarrow> time \<Rightarrow> Trial op" where
  "insert_trial email account_id ends not_before =
     stmt (\<lambda>d.
       if list_ex (\<lambda>t. tr_patreon_email t = email \<and> not_before < tr_granted_at t) (db_trials d) then (Inl ErrNotFound, d)
       else let row = \<lparr>tr_id = db_trial_seq d, tr_patreon_email = email, tr_account_id = account_id, tr_granted_at = db_now d,
                       tr_ends_at = ends, tr_reminder_sent_at = None\<rparr>;
                d' = d\<lparr>db_trial_seq := db_trial_seq d + 1\<rparr>
         in if account_id \<notin> set (map ar_id (db_accounts d)) then (Inl ForeignKeyViolation, d')
            else (Inr row, d'\<lparr>db_trials := db_trials d @ [row]\<rparr>))"

text \<open>
  An insert that selected no row is a trial too soon. The advisory lock is one more call to the
  driver; it serializes the transactions of one email.
\<close>

definition too_soon :: "'a op \<Rightarrow> 'a op" where
  "too_soon f d =
     (case f d of
        (Inl err, d') \<Rightarrow> (Inl (if err = ErrNotFound then ErrTrialTooSoon else err), d')
      | (Inr t, d') \<Rightarrow> (Inr t, d'))"

definition CreateTrial :: "time \<Rightarrow> string \<Rightarrow> time \<Rightarrow> time \<Rightarrow> Entitlement \<Rightarrow> Trial op" where
  "CreateTrial now email ends not_before ent =
     and_then (prepared now (ent\<lparr>e_valid_until := Some ends\<rparr>)) (\<lambda>p.
       transaction
         (and_then driver_call (\<lambda>_.
          and_then (too_soon (insert_trial (NormalizeEmail email) (e_account_id (fst p)) ends not_before)) (\<lambda>t.
          and_then (insertEntitlement p) (\<lambda>_. give t)))))"

definition LastTrial :: "string \<Rightarrow> Trial op" where
  "LastTrial email =
     stmt (\<lambda>d. (one_row (sort_key (\<lambda>t. - tr_granted_at t) (filter (\<lambda>t. tr_patreon_email t = NormalizeEmail email) (db_trials d))), d))"

definition TrialsToRemind :: "time \<Rightarrow> time \<Rightarrow> Trial list op" where
  "TrialsToRemind from to =
     stmt (\<lambda>d. (Inr (sort_key tr_ends_at (filter (\<lambda>t. from \<le> tr_ends_at t \<and> tr_ends_at t < to \<and> tr_reminder_sent_at t = None) (db_trials d))), d))"

definition MarkTrialReminded :: "int \<Rightarrow> time \<Rightarrow> unit op" where
  "MarkTrialReminded tid at =
     and_then (stmt (\<lambda>d. case update_where (\<lambda>t. tr_id t = tid) (\<lambda>t. t\<lparr>tr_reminder_sent_at := Some at\<rparr>) (db_trials d) of
         (rows, changed) \<Rightarrow> (Inr changed, d\<lparr>db_trials := rows\<rparr>)))
       (\<lambda>rows. and_then (need_row rows) (\<lambda>_. give ()))"

section \<open>The operators' log\<close>

definition RecordAdminAction :: "string \<Rightarrow> string \<Rightarrow> int \<Rightarrow> string \<Rightarrow> string \<Rightarrow> unit op" where
  "RecordAdminAction actor action account_id target detail =
     stmt (\<lambda>d. (Inr (), d\<lparr>db_action_seq := db_action_seq d + 1, db_actions := db_actions d @
       [\<lparr>aa_id = db_action_seq d, aa_at = db_now d, aa_actor = NormalizeEmail actor, aa_action = action, aa_account_id = account_id,
         aa_target = target, aa_detail = detail\<rparr>]\<rparr>))"

definition limited :: "int \<Rightarrow> 'a list \<Rightarrow> access_error + 'a list" where
  "limited limit rows = (if limit < 0 then Inl (DriverError ''LIMIT must not be negative'') else Inr (take (nat limit) rows))"

definition ListAdminActions :: "int \<Rightarrow> int \<Rightarrow> AdminAction list op" where
  "ListAdminActions account_id limit =
     stmt (\<lambda>d. (limited limit (sort_key (\<lambda>a. - aa_at a) (sort_key (\<lambda>a. - aa_id a)
        (filter (\<lambda>a. account_id = 0 \<or> aa_account_id a = account_id) (db_actions d)))), d))"

definition PruneAdminActions :: "time \<Rightarrow> int op" where
  "PruneAdminActions before = delete_where db_actions (\<lambda>rows d. d\<lparr>db_actions := rows\<rparr>) (\<lambda>a. aa_at a < before)"

section \<open>Usage\<close>

text \<open>The column is an \<open>inet\<close>: an address that does not parse, or has a zone, is written as null.\<close>

definition usage_ip :: "string \<Rightarrow> string" where
  "usage_ip s = (case parse_addr s of Some a \<Rightarrow> addr_string (unmap_addr a) | None \<Rightarrow> [])"

fun copy_rows :: "Usage list \<Rightarrow> Usage list op" where
  "copy_rows [] = give []"
| "copy_rows (u # us) =
     and_then driver_call (\<lambda>_. and_then (copy_rows us) (\<lambda>rest. give (u\<lparr>us_client_ip := usage_ip (us_client_ip u)\<rparr> # rest)))"

definition InsertUsage :: "Usage list \<Rightarrow> unit op" where
  "InsertUsage rows =
     (if rows = [] then give ()
      else transaction
        (and_then driver_call (\<lambda>_.
         and_then (copy_rows rows) (\<lambda>us.
         and_then (stmt (\<lambda>d. (Inr (), d\<lparr>db_usage := db_usage d @ us\<rparr>))) (\<lambda>_. driver_call)))))"

definition PruneUsage :: "time \<Rightarrow> int op" where
  "PruneUsage before = delete_where db_usage (\<lambda>rows d. d\<lparr>db_usage := rows\<rparr>) (\<lambda>u. us_ts u < before)"

text \<open>\<open>GROUP BY\<close>: each group with its rows, in an order the sort that follows replaces.\<close>

definition group_by :: "('r \<Rightarrow> 'k) \<Rightarrow> 'r list \<Rightarrow> ('k \<times> 'r list) list" where
  "group_by g rows = map (\<lambda>k. (k, filter (\<lambda>r. g r = k) rows)) (remdups (map g rows))"

record UsageRow =
  ur_account_id :: int
  ur_email :: string
  ur_game :: string
  ur_requests :: int
  ur_bytes :: int
  ur_errors :: int

record KeyUsageRow =
  ku_key_id :: int
  ku_prefix :: string
  ku_label :: string
  ku_day :: time
  ku_requests :: int
  ku_bytes :: int
  ku_errors :: int

record PathUsageRow =
  pu_path :: string
  pu_requests :: int
  pu_errors :: int

definition total_bytes :: "Usage list \<Rightarrow> int" where "total_bytes us = sum_list (map us_bytes us)"
definition total_errors :: "Usage list \<Rightarrow> int" where "total_errors us = int (length (filter (\<lambda>u. 400 \<le> us_status u) us))"

definition usage_window :: "db \<Rightarrow> time \<Rightarrow> time \<Rightarrow> int \<Rightarrow> Usage list" where
  "usage_window d since until account_id =
     filter (\<lambda>u. since \<le> us_ts u \<and> us_ts u < until \<and> (account_id = 0 \<or> us_account_id u = account_id)) (db_usage d)"

definition SummarizeUsage :: "time \<Rightarrow> time \<Rightarrow> int \<Rightarrow> UsageRow list op" where
  "SummarizeUsage since until account_id =
     stmt (\<lambda>d.
       let joined = concat (map (\<lambda>u. map (\<lambda>a. (u, ar_email a)) (filter (\<lambda>a. ar_id a = us_account_id u) (db_accounts d)))
             (usage_window d since until account_id));
           row = (\<lambda>((aid, email, game), us). \<lparr>ur_account_id = aid, ur_email = email, ur_game = game, ur_requests = int (length us),
             ur_bytes = total_bytes (map fst us), ur_errors = total_errors (map fst us)\<rparr>)
       in (Inr (sort_key ur_email (sort_key ur_game
            (map row (group_by (\<lambda>(u, email). (us_account_id u, email, us_game u)) joined)))), d))"

definition UsageByKey :: "time \<Rightarrow> time \<Rightarrow> int \<Rightarrow> KeyUsageRow list op" where
  "UsageByKey since until account_id =
     stmt (\<lambda>d.
       let joined = concat (map (\<lambda>u. map (\<lambda>k. (u, k)) (filter (\<lambda>k. k_id k = us_key_id u) (db_keys d)))
             (usage_window d since until account_id));
           row = (\<lambda>((kid, prefix, label, day), us). \<lparr>ku_key_id = kid, ku_prefix = prefix, ku_label = label, ku_day = day,
             ku_requests = int (length us), ku_bytes = total_bytes (map fst us), ku_errors = total_errors (map fst us)\<rparr>)
       in (Inr (sort_key ku_key_id (sort_key ku_day
            (map row (group_by (\<lambda>(u, k). (us_key_id u, k_prefix k, k_label k, us_ts u div day * day)) joined)))), d))"

definition TopPaths :: "time \<Rightarrow> time \<Rightarrow> int \<Rightarrow> int \<Rightarrow> PathUsageRow list op" where
  "TopPaths since until key_id limit =
     stmt (\<lambda>d.
       let us = filter (\<lambda>u. since \<le> us_ts u \<and> us_ts u < until \<and> us_key_id u = key_id) (db_usage d);
           row = (\<lambda>(p, us). \<lparr>pu_path = p, pu_requests = int (length us), pu_errors = total_errors us\<rparr>)
       in (limited (if limit \<le> 0 then 10 else limit)
            (sort_key (\<lambda>r. - pu_requests r) (sort_key pu_path (map row (group_by us_path us)))), d))"

section \<open>Demo access\<close>

record DemoAccess =
  da_account_id :: int
  da_email :: string
  da_source :: Source
  da_requester :: string
  da_note :: string
  da_granted_at :: time
  da_ends_at :: "time option"
  da_keys :: int
  da_last_used :: "time option"

definition max_time :: "time option list \<Rightarrow> time option" where
  "max_time ts = (case map the (filter (\<lambda>t. t \<noteq> None) ts) of [] \<Rightarrow> None | x # xs \<Rightarrow> Some (foldl max x xs))"

definition ListDemoAccess :: "DemoAccess list op" where
  "ListDemoAccess =
     stmt (\<lambda>d.
       let live = (\<lambda>aid. filter (\<lambda>k. k_account_id k = aid \<and> k_revoked_at k = None) (db_keys d));
           requester = (\<lambda>aid. case sort_key (\<lambda>t. - tr_granted_at t) (filter (\<lambda>t. tr_account_id t = aid) (db_trials d)) of
               [] \<Rightarrow> [] | t # _ \<Rightarrow> tr_patreon_email t);
           rows = filter (\<lambda>e. e_status e = EntitlementActive \<and> (e_source e = SourceTrial \<or> e_source e = SourceManual) \<and>
               (case e_valid_until e of None \<Rightarrow> True | Some u \<Rightarrow> db_now d < u)) (db_entitlements d);
           row = (\<lambda>e a. \<lparr>da_account_id = e_account_id e, da_email = ar_email a, da_source = e_source e,
               da_requester = (if e_source e = SourceTrial then requester (e_account_id e) else []), da_note = e_note e,
               da_granted_at = e_valid_from e, da_ends_at = e_valid_until e, da_keys = int (length (live (e_account_id e))),
               da_last_used = max_time (map k_last_used_at (live (e_account_id e)))\<rparr>)
       in (Inr (sort_key (\<lambda>r. - da_granted_at r)
            (concat (map (\<lambda>e. map (row e) (filter (\<lambda>a. ar_id a = e_account_id e) (db_accounts d))) rows))), d))"

section \<open>Lemmas: transactions\<close>

text \<open>Identity sequences only move on, in any operation, committed or not.\<close>

definition seqs_le :: "db \<Rightarrow> db \<Rightarrow> bool" where
  "seqs_le d d' \<longleftrightarrow> db_account_seq d \<le> db_account_seq d' \<and> db_key_seq d \<le> db_key_seq d' \<and> db_entitlement_seq d \<le> db_entitlement_seq d'"

definition moves_on :: "'a op \<Rightarrow> bool" where
  "moves_on f \<longleftrightarrow> (\<forall>d. seqs_le d (snd (f d)))"

lemma moves_onI: "(\<And>d. seqs_le d (snd (f d))) \<Longrightarrow> moves_on f"
  by (simp add: moves_on_def)

lemma moves_on_stmt: "moves_on f \<Longrightarrow> moves_on (stmt f)"
proof (rule moves_onI)
  fix d assume f: "moves_on f"
  have "seqs_le (d\<lparr>db_faults := fs\<rparr>) (snd (f (d\<lparr>db_faults := fs\<rparr>)))" for fs using f by (simp add: moves_on_def)
  then show "seqs_le d (snd (stmt f d))"
    by (cases rule: stmt_cases [of f d]) (simp_all add: seqs_le_def)
qed

lemma moves_on_and_then: "moves_on f \<Longrightarrow> (\<And>x. moves_on (g x)) \<Longrightarrow> moves_on (and_then f g)"
proof (rule moves_onI)
  fix d assume f: "moves_on f" and g: "\<And>x. moves_on (g x)"
  obtain r d' where r: "f d = (r, d')" by fastforce
  have "seqs_le d d'" using f r by (metis moves_on_def snd_conv)
  moreover have "seqs_le d' (snd (g x d'))" for x using g by (simp add: moves_on_def)
  ultimately show "seqs_le d (snd (and_then f g d))"
    using r by (cases r) (auto simp: and_then_def seqs_le_def intro: order_trans)
qed

lemma moves_on_give: "moves_on (give x)" and moves_on_fail: "moves_on (fail e)" and moves_on_driver_call: "moves_on driver_call"
  by (auto simp: moves_on_def give_def fail_def driver_call_def seqs_le_def intro!: moves_on_stmt [unfolded moves_on_def seqs_le_def, rule_format])

lemma keeps_driver_call [keeps_intros]: "keeps driver_call"
  unfolding driver_call_def by (rule keeps_query)

lemma db_ok_rollback: "db_ok d0 \<Longrightarrow> seqs_le d0 d \<Longrightarrow> db_ok (rollback d0 d)"
  by (auto simp: db_ok_def refs_ok_def tokens_ok_def accounts_ok_def keys_ok_def entitlements_ok_def rollback_def seqs_le_def
      intro: less_le_trans)

lemma keeps_transaction:
  assumes "keeps body" "moves_on body"
  shows "keeps (transaction body)"
  unfolding transaction_def
proof (rule keeps_and_then [OF keeps_driver_call], rule keepsI)
  fix d0 assume d0: "db_ok d0"
  let ?b = "and_then body (\<lambda>x. and_then driver_call (\<lambda>_. give x))"
  have k: "keeps ?b" by (intro keeps_and_then assms(1) keeps_driver_call keeps_give)
  have m: "moves_on ?b" by (intro moves_on_and_then assms(2) moves_on_driver_call moves_on_give)
  obtain r d where r: "?b d0 = (r, d)" by fastforce
  have "db_ok d" using keepsD [OF k d0] r by simp
  moreover have "db_ok (rollback d0 d)"
    using m r db_ok_rollback [OF d0] by (metis moves_on_def snd_conv)
  ultimately show "db_ok (snd (case ?b d0 of (Inl e, d) \<Rightarrow> (Inl e, rollback d0 d) | (Inr x, d) \<Rightarrow> (Inr x, d)))"
    unfolding r by (cases r) simp_all
qed

lemma driver_call_cases:
  obtains (error) msg fs where "driver_call d = (Inl (DriverError msg), d\<lparr>db_faults := fs\<rparr>)"
  | (runs) fs where "driver_call d = (Inr (), d\<lparr>db_faults := fs\<rparr>)"
  unfolding driver_call_def by (cases rule: stmt_cases [of "\<lambda>d. (Inr (), d)" d]) auto

lemma transaction_cases:
  obtains (begin_error) msg fs where "transaction body d = (Inl (DriverError msg), d\<lparr>db_faults := fs\<rparr>)"
  | (body_error) e fs d1 where "body (d\<lparr>db_faults := fs\<rparr>) = (Inl e, d1)" "transaction body d = (Inl e, rollback (d\<lparr>db_faults := fs\<rparr>) d1)"
  | (commit_error) msg fs fs1 d1 where "transaction body d = (Inl (DriverError msg), rollback (d\<lparr>db_faults := fs\<rparr>) (d1\<lparr>db_faults := fs1\<rparr>))"
  | (commit) x fs fs1 d1 where "body (d\<lparr>db_faults := fs\<rparr>) = (Inr x, d1)" "transaction body d = (Inr x, d1\<lparr>db_faults := fs1\<rparr>)"
proof (cases rule: driver_call_cases [of d])
  case (error msg fs)
  show ?thesis by (rule that(1) [of msg fs]) (simp add: transaction_def and_then_def error)
next
  case (runs fs)
  let ?d = "d\<lparr>db_faults := fs\<rparr>"
  obtain r d1 where r: "body ?d = (r, d1)" by fastforce
  show ?thesis
  proof (cases r)
    case (Inl e)
    show ?thesis by (rule that(2) [of fs e d1]) (simp_all add: transaction_def and_then_def runs r Inl)
  next
    case (Inr x)
    show ?thesis
    proof (cases rule: driver_call_cases [of d1])
      case (error msg fs1)
      show ?thesis by (rule that(3) [of msg fs fs1 d1]) (simp add: transaction_def and_then_def runs r Inr error)
    next
      case run1: (runs fs1)
      show ?thesis by (rule that(4) [of fs x d1 fs1]) (simp_all add: transaction_def and_then_def runs r Inr run1 give_def)
    qed
  qed
qed

section \<open>Lemmas: the invariant\<close>

lemma insert_trial_ok: "keeps (insert_trial email account_id ends nb)" "moves_on (insert_trial email account_id ends nb)"
  unfolding insert_trial_def
  by (rule keeps_stmt, rule keepsI, auto simp: Let_def db_ok_def refs_ok_def tokens_ok_def)
     (rule moves_on_stmt, rule moves_onI, auto simp: Let_def seqs_le_def)

lemma moves_on_insertEntitlement: "moves_on (insertEntitlement p)"
  unfolding insertEntitlement_def
  by (rule moves_on_stmt, rule moves_onI) (auto simp: Let_def seqs_le_def split: prod.splits option.splits)

lemma snd_too_soon [simp]: "snd (too_soon f d) = snd (f d)"
  by (auto simp: too_soon_def split: prod.split sum.split)

lemma keeps_CreateTrial [keeps_intros]: "keeps (CreateTrial now email ends nb ent)"
proof (cases rule: prepared_cases [of now "ent\<lparr>e_valid_until := Some ends\<rparr>"])
  case (err err)
  then show ?thesis by (simp add: CreateTrial_def keeps_fail)
next
  case (ok e until ext)
  let ?i = "too_soon (insert_trial (NormalizeEmail email) (e_account_id e) ends nb)"
  have "keeps ?i" "moves_on ?i" using insert_trial_ok by (simp_all add: keeps_def moves_on_def)
  then have "keeps (transaction (and_then driver_call (\<lambda>_. and_then ?i (\<lambda>t. and_then (insertEntitlement (e, until, ext)) (\<lambda>_. give t)))))"
    by (intro keeps_transaction keeps_and_then moves_on_and_then keeps_driver_call moves_on_driver_call keeps_give moves_on_give
        keeps_insertEntitlement moves_on_insertEntitlement prepareEntitlement_Inr(1) [OF ok(2)])
  then show ?thesis unfolding CreateTrial_def ok(1) and_then_give fst_conv .
qed


lemma keeps_MarkTrialReminded [keeps_intros]: "keeps (MarkTrialReminded tid at)"
proof -
  have "db_ok (d\<lparr>db_trials := fst (update_where P (\<lambda>t. t\<lparr>tr_reminder_sent_at := Some at\<rparr>) (db_trials d))\<rparr>)" if "db_ok d" for d P
  proof -
    have "map tr_account_id (fst (update_where P (\<lambda>t. t\<lparr>tr_reminder_sent_at := Some at\<rparr>) (db_trials d))) = map tr_account_id (db_trials d)"
      by (rule map_update_where) simp
    then have "tr_account_id ` set (fst (update_where P (\<lambda>t. t\<lparr>tr_reminder_sent_at := Some at\<rparr>) (db_trials d))) = tr_account_id ` set (db_trials d)"
      by (metis set_map)
    then show ?thesis using that by (simp add: db_ok_def refs_ok_def tokens_ok_def)
  qed
  then have "keeps (stmt (\<lambda>d. case update_where (\<lambda>t. tr_id t = tid) (\<lambda>t. t\<lparr>tr_reminder_sent_at := Some at\<rparr>) (db_trials d) of
         (rows, changed) \<Rightarrow> (Inr changed, d\<lparr>db_trials := rows\<rparr>)))"
    by (intro keeps_stmt keepsI) (simp add: case_prod_beta)
  then show ?thesis unfolding MarkTrialReminded_def by (intro keeps_and_then) (auto intro!: keeps_and_then keeps_intros)
qed

lemma keeps_free_tables [keeps_intros]:
  "keeps (RecordAdminAction actor action account_id target detail)" "keeps (PruneAdminActions before)" "keeps (PruneUsage before)"
  unfolding RecordAdminAction_def PruneAdminActions_def PruneUsage_def delete_where_def
  by (rule keeps_stmt, rule keepsI, simp add: db_ok_def refs_ok_def tokens_ok_def)+

lemma keeps_store_queries [keeps_intros]:
  "keeps (LastTrial email)" "keeps (TrialsToRemind from to)" "keeps (ListAdminActions account_id limit)"
  "keeps (SummarizeUsage since until account_id)" "keeps (UsageByKey since until account_id)" "keeps (TopPaths since until kid limit)"
  "keeps ListDemoAccess"
  unfolding LastTrial_def TrialsToRemind_def ListAdminActions_def SummarizeUsage_def UsageByKey_def TopPaths_def ListDemoAccess_def Let_def
  by (rule keeps_query)+

lemma copy_rows_result:
  "copy_rows us d = (r, d') \<Longrightarrow> (\<exists>fs. d' = d\<lparr>db_faults := fs\<rparr>) \<and>
     (\<forall>rows. r = Inr rows \<longrightarrow> rows = map (\<lambda>u. u\<lparr>us_client_ip := usage_ip (us_client_ip u)\<rparr>) us)"
proof (induction us arbitrary: d r d')
  case Nil
  have "d\<lparr>db_faults := db_faults d\<rparr> = d" by simp
  then show ?case using Nil by (metis copy_rows.simps(1) give_def list.simps(8) prod.inject sum.inject(2))
next
  case (Cons u us)
  show ?case
  proof (cases rule: driver_call_cases [of d])
    case (error msg fs)
    then show ?thesis using Cons.prems by (auto simp: and_then_def)
  next
    case (runs fs)
    obtain r1 d1 where c: "copy_rows us (d\<lparr>db_faults := fs\<rparr>) = (r1, d1)" by fastforce
    then show ?thesis using Cons.prems Cons.IH [OF c] runs by (cases r1) (auto simp: and_then_def give_def)
  qed
qed

lemma copy_rows_ok: "keeps (copy_rows us)" "moves_on (copy_rows us)"
  by (induction us) (auto intro!: keeps_and_then keeps_give keeps_driver_call moves_on_and_then moves_on_give moves_on_driver_call)

lemma keeps_InsertUsage [keeps_intros]: "keeps (InsertUsage rows)"
proof -
  have i: "keeps (stmt (\<lambda>d. (Inr (), d\<lparr>db_usage := db_usage d @ us\<rparr>)))" "moves_on (stmt (\<lambda>d. (Inr (), d\<lparr>db_usage := db_usage d @ us\<rparr>)))" for us
    by (rule keeps_stmt, rule keepsI, simp add: db_ok_def refs_ok_def tokens_ok_def)
       (rule moves_on_stmt, rule moves_onI, simp add: seqs_le_def)
  show ?thesis unfolding InsertUsage_def
    by (auto intro!: keeps_transaction keeps_and_then moves_on_and_then keeps_driver_call moves_on_driver_call keeps_give copy_rows_ok i)
qed

section \<open>Lemmas: groups\<close>

lemma group_by_sum: "sum_list (map (\<lambda>(k, rs). int (length rs)) (group_by g rows)) = int (length rows)"
proof -
  have "sum_list (map (\<lambda>k. int (length (filter (\<lambda>r. g r = k) rows))) ks) = int (length (filter (\<lambda>r. g r \<in> set ks) rows))"
    if "distinct ks" for ks
    using that
  proof (induction ks)
    case (Cons k ks)
    have "int (length (filter (\<lambda>r. g r \<in> set (k # ks)) rows)) =
        int (length (filter (\<lambda>r. g r = k) rows)) + int (length (filter (\<lambda>r. g r \<in> set ks) rows))"
      using Cons.prems by (induction rows) auto
    then show ?case using Cons by simp
  qed simp
  from this [of "remdups (map g rows)"] show ?thesis by (simp add: group_by_def comp_def cong: filter_cong)
qed

lemma sum_list_sort_key: "sum_list (map f (sort_key g xs)) = (sum_list (map f xs) :: int)"
  by (metis mset_map mset_sort sum_mset_sum_list)


text \<open>A join on a unique column keeps each row at most once.\<close>

lemma join_length:
  assumes "distinct (map h as)"
  shows "length (concat (map (\<lambda>u. map (\<lambda>a. (u, f a)) (filter (\<lambda>a. h a = g u) as)) us)) = length (filter (\<lambda>u. g u \<in> set (map h as)) us)"
proof (induction us)
  case (Cons u us)
  have "length (filter (\<lambda>a. h a = g u) as) = (if g u \<in> set (map h as) then 1 else 0)"
    using assms by (induction as) auto
  then show ?case using Cons by simp
qed simp

lemma SummarizeUsage_total:
  assumes "db_ok d" "db_faults d = []"
  shows "\<exists>rows. fst (SummarizeUsage since until aid d) = Inr rows \<and>
    sum_list (map ur_requests rows) = int (length (filter (\<lambda>u. us_account_id u \<in> set (map ar_id (db_accounts d))) (usage_window d since until aid)))"
proof -
  have dist: "distinct (map ar_id (db_accounts d))" using assms(1) by (simp add: db_ok_def accounts_ok_def)
  let ?j = "concat (map (\<lambda>u. map (\<lambda>a. (u, ar_email a)) (filter (\<lambda>a. ar_id a = us_account_id u) (db_accounts d))) (usage_window d since until aid))"
  let ?g = "\<lambda>(u, email). (us_account_id u, email, us_game u)"
  let ?row = "\<lambda>((aid, email, game), us). \<lparr>ur_account_id = aid, ur_email = email, ur_game = game, ur_requests = int (length us),
             ur_bytes = total_bytes (map fst us), ur_errors = total_errors (map fst us)\<rparr>"
  have "ur_requests \<circ> ?row = (\<lambda>(k :: int \<times> string \<times> string, rs :: (Usage \<times> string) list). int (length rs))"
    by (rule ext) (auto simp: comp_def)
  then have "sum_list (map ur_requests (map ?row (group_by ?g ?j))) = int (length ?j)"
    by (simp only: map_map group_by_sum)
  then have "sum_list (map ur_requests (sort_key ur_email (sort_key ur_game (map ?row (group_by ?g ?j))))) = int (length ?j)"
    by (simp only: sum_list_sort_key)
  then show ?thesis using join_length [OF dist, of ar_email us_account_id "usage_window d since until aid"] assms(2)
    by (simp add: SummarizeUsage_def stmt_def Let_def)
qed

lemma InsertUsage_rows:
  "(\<forall>u. fst (InsertUsage us d) = Inr u \<longrightarrow> db_usage (snd (InsertUsage us d)) =
       db_usage d @ map (\<lambda>u. u\<lparr>us_client_ip := usage_ip (us_client_ip u)\<rparr>) us) \<and>
   (\<forall>e. fst (InsertUsage us d) = Inl e \<longrightarrow> db_usage (snd (InsertUsage us d)) = db_usage d)"
proof (cases "us = []")
  case True
  then show ?thesis by (simp add: InsertUsage_def give_def)
next
  case False
  let ?b = "and_then driver_call (\<lambda>_. and_then (copy_rows us) (\<lambda>us.
         and_then (stmt (\<lambda>d. (Inr (), d\<lparr>db_usage := db_usage d @ us\<rparr>))) (\<lambda>_. driver_call)))"
  have b: "db_usage d2 = db_usage d1 @ map (\<lambda>u. u\<lparr>us_client_ip := usage_ip (us_client_ip u)\<rparr>) us" if r: "?b d1 = (Inr x, d2)" for d1 d2 x
  proof (cases rule: driver_call_cases [of d1])
    case (error msg fs)
    then show ?thesis using r by (simp add: and_then_def)
  next
    case (runs fs)
    obtain r1 d3 where c: "copy_rows us (d1\<lparr>db_faults := fs\<rparr>) = (r1, d3)" by fastforce
    obtain rows where rows: "r1 = Inr rows" using r runs c by (cases r1) (auto simp: and_then_def)
    obtain fs3 where d3: "d3 = d1\<lparr>db_faults := fs3\<rparr>" and rs: "rows = map (\<lambda>u. u\<lparr>us_client_ip := usage_ip (us_client_ip u)\<rparr>) us"
      using copy_rows_result [OF c] rows by auto
    have r2: "and_then (stmt (\<lambda>d. (Inr (), d\<lparr>db_usage := db_usage d @ rows\<rparr>))) (\<lambda>_. driver_call) d3 = (Inr x, d2)"
      using r runs c rows by (simp add: and_then_def)
    show ?thesis
    proof (cases rule: stmt_cases [of "\<lambda>d. (Inr (), d\<lparr>db_usage := db_usage d @ rows\<rparr>)" d3])
      case (error msg fs)
      then show ?thesis using r2 by (simp add: and_then_def)
    next
      case run4: (runs fs4)
      show ?thesis using r2 run4 d3 rs
        by (cases rule: driver_call_cases [of "d3\<lparr>db_faults := fs4, db_usage := db_usage d3 @ rows\<rparr>"]) (auto simp: and_then_def)
    qed
  qed
  show ?thesis using False b unfolding InsertUsage_def
    by (cases rule: transaction_cases [of ?b d]) (auto simp: rollback_def)
qed

section \<open>Properties\<close>

text \<open>A usage batch is stored whole or not at all, with every address in canonical form or null; and
  the summary of any window counts every stored request of a known account exactly once.\<close>

theorem usage_stored_and_summarized:
  assumes "db_ok d"
  shows "db_usage (snd (InsertUsage us d)) = db_usage d @
      (if isl (fst (InsertUsage us d)) then [] else map (\<lambda>u. u\<lparr>us_client_ip := usage_ip (us_client_ip u)\<rparr>) us) \<and>
    (db_faults d = [] \<longrightarrow> (\<exists>rows. fst (SummarizeUsage since until aid d) = Inr rows \<and>
       sum_list (map ur_requests rows) =
         int (length (filter (\<lambda>u. us_account_id u \<in> set (map ar_id (db_accounts d))) (usage_window d since until aid)))))"
  using InsertUsage_rows [of us d] SummarizeUsage_total [OF assms, of since until aid]
  by (cases "fst (InsertUsage us d)") auto

theorem usage_stored_and_summarized_witness:
  "\<exists>rows. fst (SummarizeUsage 0 10 0 (demo_db\<lparr>db_usage :=
       [\<lparr>us_ts = 5, us_key_id = 1, us_account_id = 1, us_game = ''mtg'', us_path = ''/'', us_status = 200, us_bytes = 7, us_duration_ms = 1, us_client_ip = []\<rparr>]\<rparr>)) = Inr rows \<and>
     sum_list (map ur_requests rows) = 1"
proof -
  let ?d = "demo_db\<lparr>db_usage := [\<lparr>us_ts = 5, us_key_id = 1, us_account_id = 1, us_game = ''mtg'', us_path = ''/'', us_status = 200,
    us_bytes = 7, us_duration_ms = 1, us_client_ip = []\<rparr>]\<rparr>"
  have "db_ok ?d" using demo_db_ok by (simp add: db_ok_def refs_ok_def tokens_ok_def)
  from usage_stored_and_summarized [OF this, of "[]" 0 10 0] show ?thesis
    by (simp add: demo_db_def empty_db_def new_account_def usage_window_def)
qed


lemma insertEntitlement_Inr:
  assumes "insertEntitlement (e, until, ext) d = (Inr row, d')"
  shows "\<exists>fs. d' = d\<lparr>db_faults := fs, db_entitlement_seq := db_entitlement_seq d + 1, db_entitlements := db_entitlements d @ [row]\<rparr> \<and>
    row = entitlement_row d e until ext"
proof -
  let ?f = "\<lambda>d. case (e, until, ext) of (e, until, ext) \<Rightarrow>
       let row = entitlement_row d e until ext; d' = d\<lparr>db_entitlement_seq := db_entitlement_seq d + 1\<rparr> in
       (case row_violation row of
          Some err \<Rightarrow> (Inl err, d')
        | None \<Rightarrow>
            if ext \<noteq> None \<and> e_external_ref row \<in> set (map e_external_ref (filter (\<lambda>x. e_external_ref x \<noteq> []) (db_entitlements d)))
            then (Inl UniqueViolation, d')
            else if e_account_id row \<notin> set (map ar_id (db_accounts d)) then (Inl ForeignKeyViolation, d')
            else (Inr row, d'\<lparr>db_entitlements := db_entitlements d @ [row]\<rparr>))"
  have s: "stmt ?f d = (Inr row, d')" using assms by (simp only: insertEntitlement_def)
  show ?thesis
  proof (cases rule: stmt_cases [of ?f d])
    case (error msg fs)
    then show ?thesis using s by simp
  next
    case (runs fs)
    have er: "entitlement_row (d\<lparr>db_faults := fs\<rparr>) e until ext = entitlement_row d e until ext" by (simp add: entitlement_row_def)
    have "?f (d\<lparr>db_faults := fs\<rparr>) = (Inr row, d')" using s runs by simp
    then show ?thesis unfolding Let_def prod.case er
      by (intro exI [of _ fs]) (auto split: option.splits if_splits)
  qed
qed

lemma insert_trial_Inr:
  assumes "insert_trial email aid ends nb d = (Inr t, d')"
  shows "(\<exists>fs. d' = d\<lparr>db_faults := fs, db_trial_seq := db_trial_seq d + 1, db_trials := db_trials d @ [t]\<rparr>) \<and>
    \<not> list_ex (\<lambda>t. tr_patreon_email t = email \<and> nb < tr_granted_at t) (db_trials d) \<and>
    tr_patreon_email t = email \<and> tr_account_id t = aid \<and> tr_ends_at t = ends \<and> tr_granted_at t = db_now d"
proof -
  let ?f = "\<lambda>d. if list_ex (\<lambda>t. tr_patreon_email t = email \<and> nb < tr_granted_at t) (db_trials d) then (Inl ErrNotFound, d)
       else let row = \<lparr>tr_id = db_trial_seq d, tr_patreon_email = email, tr_account_id = aid, tr_granted_at = db_now d,
                       tr_ends_at = ends, tr_reminder_sent_at = None\<rparr>;
                d' = d\<lparr>db_trial_seq := db_trial_seq d + 1\<rparr>
         in if aid \<notin> set (map ar_id (db_accounts d)) then (Inl ForeignKeyViolation, d')
            else (Inr row, d'\<lparr>db_trials := db_trials d @ [row]\<rparr>)"
  have s: "stmt ?f d = (Inr t, d')" using assms by (simp only: insert_trial_def)
  show ?thesis
  proof (cases rule: stmt_cases [of ?f d])
    case (error msg fs)
    then show ?thesis using s by simp
  next
    case (runs fs)
    then have "?f (d\<lparr>db_faults := fs\<rparr>) = (Inr t, d')" using s by simp
    then show ?thesis by (auto simp: Let_def split: if_splits)
  qed
qed

definition trial_granted :: "string \<Rightarrow> time \<Rightarrow> time \<Rightarrow> db \<Rightarrow> db \<Rightarrow> Trial \<Rightarrow> bool" where
  "trial_granted email ends nb d d' t \<longleftrightarrow>
     db_trials d' = db_trials d @ [t] \<and> tr_patreon_email t = NormalizeEmail email \<and> tr_granted_at t = db_now d \<and> tr_ends_at t = ends \<and>
     \<not> list_ex (\<lambda>t. tr_patreon_email t = NormalizeEmail email \<and> nb < tr_granted_at t) (db_trials d) \<and>
     (\<exists>e. db_entitlements d' = db_entitlements d @ [e] \<and> e_account_id e = tr_account_id t \<and> e_valid_until e = Some ends \<and> canonical_row e)"

lemma trial_body:
  assumes p: "prepareEntitlement now (ent\<lparr>e_valid_until := Some ends\<rparr>) = Inr (e, until, ext)"
    and b: "and_then driver_call (\<lambda>_. and_then (too_soon (insert_trial (NormalizeEmail email) (e_account_id e) ends nb)) (\<lambda>t.
          and_then (insertEntitlement (e, until, ext)) (\<lambda>_. give t))) d = (Inr t, d')"
  shows "trial_granted email ends nb d d' t"
proof -
  obtain fs where fs: "driver_call d = (Inr (), d\<lparr>db_faults := fs\<rparr>)"
    using b by (cases rule: driver_call_cases [of d]) (auto simp: and_then_def)
  let ?d = "d\<lparr>db_faults := fs\<rparr>"
  obtain r1 d1 where i: "insert_trial (NormalizeEmail email) (e_account_id e) ends nb ?d = (r1, d1)" by fastforce
  obtain t1 where t1: "r1 = Inr t1" using b fs i by (cases r1) (auto simp: and_then_def too_soon_def)
  obtain r2 d2 where j: "insertEntitlement (e, until, ext) d1 = (r2, d2)" by fastforce
  obtain row where row: "r2 = Inr row" using b fs i t1 j by (cases r2) (auto simp: and_then_def too_soon_def)
  have td: "t = t1" "d' = d2" using b fs i t1 j row by (auto simp: and_then_def too_soon_def give_def)
  note tr = insert_trial_Inr [OF i [unfolded t1]]
  have er: "\<exists>fs. d2 = d1\<lparr>db_faults := fs, db_entitlement_seq := db_entitlement_seq d1 + 1, db_entitlements := db_entitlements d1 @ [row]\<rparr> \<and>
    row = entitlement_row d1 e until ext" by (rule insertEntitlement_Inr) (use j row in simp)
  have u: "until = Some ends" "canonical_row e" using prepareEntitlement_Inr(1,3) [OF p] by simp_all
  have "canonical_row row \<and> e_account_id row = e_account_id e \<and> e_valid_until row = Some ends"
    using er u by (auto simp: entitlement_row_def canonical_row_def)
  then show ?thesis using er tr td unfolding trial_granted_def by auto
qed

text \<open>C29: A trial is granted whole or not at all: either the trial row and its entitlement, canonical
  and ending with the trial, are both there and the email had no trial since the cooldown began,
  or neither table changed. A second trial inside the cooldown is refused, under any spelling of
  the email that normalizes alike.\<close>

theorem CreateTrial_atomic:
  "case CreateTrial now email ends nb ent d of
     (Inr t, d') \<Rightarrow> trial_granted email ends nb d d' t
   | (Inl err, d') \<Rightarrow> db_trials d' = db_trials d \<and> db_entitlements d' = db_entitlements d"
proof (cases rule: prepared_cases [of now "ent\<lparr>e_valid_until := Some ends\<rparr>"])
  case (err err)
  then show ?thesis by (simp add: CreateTrial_def fail_def)
next
  case (ok e until ext)
  let ?b = "and_then driver_call (\<lambda>_. and_then (too_soon (insert_trial (NormalizeEmail email) (e_account_id e) ends nb)) (\<lambda>t.
          and_then (insertEntitlement (e, until, ext)) (\<lambda>_. give t)))"
  have c: "CreateTrial now email ends nb ent d = transaction ?b d" unfolding CreateTrial_def ok(1) and_then_give fst_conv ..
  show ?thesis unfolding c
  proof (cases rule: transaction_cases [of ?b d])
    case (commit x fs fs1 d1)
    have "trial_granted email ends nb (d\<lparr>db_faults := fs\<rparr>) d1 x" by (rule trial_body [OF ok(2) commit(1)])
    then show "case transaction ?b d of (Inr t, d') \<Rightarrow> trial_granted email ends nb d d' t
      | (Inl err, d') \<Rightarrow> db_trials d' = db_trials d \<and> db_entitlements d' = db_entitlements d"
      unfolding commit(2) by (simp add: trial_granted_def)
  qed (simp_all add: rollback_def)
qed

end
