(* ===== verification/Store_System.thy ===== *)
theory Store_System
  imports Store_Trials Access
begin

text \<open>
  The store as a whole: every call a client can make, in any order and with any driver errors, and
  what holds of the tables however they came to be. The gateway and the portal read what these
  states hold.
\<close>

section \<open>Calls\<close>

datatype store_call =
    call_CreateAccount string string
  | call_GetOrCreateAccount string string
  | call_SetAccountStatus int AccountStatus
  | call_SetStripeCustomerID int string
  | call_SetAccountNote int string
  | call_BumpSessionEpoch int
  | call_CreateKey "nat \<Rightarrow> string option" int string KeyKind
  | call_RevokeKey int int
  | call_RevokeKeyByPrefix string
  | call_TouchKeys "(int \<times> time) list"
  | call_AddEntitlement time Entitlement
  | call_UpsertStripeEntitlement time Entitlement
  | call_EndEntitlement int int time
  | call_CreateInvite "string option" time string string int string
  | call_ConsumeInvite string string time
  | call_ReleaseInvite string
  | call_PruneInvites time
  | call_CreateMagicLink "string option" time int int
  | call_ConsumeMagicLink string time
  | call_DeleteMagicLink string
  | call_ConsumeNonce string time time
  | call_BeginStripeEvent string string
  | call_FinishStripeEvent string
  | call_DeleteStripeEvent string
  | call_PruneStripeEvents time
  | call_CreateTrial time string time time Entitlement
  | call_MarkTrialReminded int time
  | call_RecordAdminAction string string int string string
  | call_PruneAdminActions time
  | call_InsertUsage "Usage list"
  | call_PruneUsage time

definition effect :: "'a op \<Rightarrow> db \<Rightarrow> db" where
  "effect f d = snd (f d)"

text \<open>The tables after a call; the calls that only read leave them as they are.\<close>

fun run_call :: "store_call \<Rightarrow> db \<Rightarrow> db" where
  "run_call (call_CreateAccount email note) = effect (CreateAccount email note)"
| "run_call (call_GetOrCreateAccount email note) = effect (GetOrCreateAccount email note)"
| "run_call (call_SetAccountStatus aid status) = effect (SetAccountStatus aid status)"
| "run_call (call_SetStripeCustomerID aid customer) = effect (SetStripeCustomerID aid customer)"
| "run_call (call_SetAccountNote aid note) = effect (SetAccountNote aid note)"
| "run_call (call_BumpSessionEpoch aid) = effect (BumpSessionEpoch aid)"
| "run_call (call_CreateKey rands aid label kind) = effect (CreateKey rands aid label kind)"
| "run_call (call_RevokeKey kid aid) = effect (RevokeKey kid aid)"
| "run_call (call_RevokeKeyByPrefix prefix) = effect (RevokeKeyByPrefix prefix)"
| "run_call (call_TouchKeys seen) = effect (TouchKeys seen)"
| "run_call (call_AddEntitlement now e) = effect (AddEntitlement now e)"
| "run_call (call_UpsertStripeEntitlement now e) = effect (UpsertStripeEntitlement now e)"
| "run_call (call_EndEntitlement eid aid at) = effect (EndEntitlement eid aid at)"
| "run_call (call_CreateInvite rand now interval email ttl note) = effect (CreateInvite rand now interval email ttl note)"
| "run_call (call_ConsumeInvite token email now) = effect (ConsumeInvite token email now)"
| "run_call (call_ReleaseInvite token) = effect (ReleaseInvite token)"
| "run_call (call_PruneInvites before) = effect (PruneInvites before)"
| "run_call (call_CreateMagicLink rand now aid ttl) = effect (CreateMagicLink rand now aid ttl)"
| "run_call (call_ConsumeMagicLink token now) = effect (ConsumeMagicLink token now)"
| "run_call (call_DeleteMagicLink token) = effect (DeleteMagicLink token)"
| "run_call (call_ConsumeNonce nonce expires now) = effect (ConsumeNonce nonce expires now)"
| "run_call (call_BeginStripeEvent eid kind) = effect (BeginStripeEvent eid kind)"
| "run_call (call_FinishStripeEvent eid) = effect (FinishStripeEvent eid)"
| "run_call (call_DeleteStripeEvent eid) = effect (DeleteStripeEvent eid)"
| "run_call (call_PruneStripeEvents before) = effect (PruneStripeEvents before)"
| "run_call (call_CreateTrial now email ends nb ent) = effect (CreateTrial now email ends nb ent)"
| "run_call (call_MarkTrialReminded tid at) = effect (MarkTrialReminded tid at)"
| "run_call (call_RecordAdminAction actor action aid target detail) = effect (RecordAdminAction actor action aid target detail)"
| "run_call (call_PruneAdminActions before) = effect (PruneAdminActions before)"
| "run_call (call_InsertUsage us) = effect (InsertUsage us)"
| "run_call (call_PruneUsage before) = effect (PruneUsage before)"

lemmas keeps_calls = keeps_CreateAccount keeps_GetOrCreateAccount keeps_account_ops keeps_SetStripeCustomerID keeps_CreateKey keeps_key_ops
  keeps_AddEntitlement keeps_UpsertStripeEntitlement keeps_EndEntitlement keeps_ConsumeInvite keeps_ConsumeMagicLink keeps_event_ops
  keeps_token_ops keeps_CreateTrial keeps_MarkTrialReminded keeps_free_tables keeps_InsertUsage

lemma run_call_ok: "db_ok d \<Longrightarrow> db_ok (run_call c d)"
  by (cases c) (simp_all only: run_call.simps effect_def keeps_calls [THEN keepsD])

text \<open>A step is a call, time passing, or the driver about to fail some of the statements to come.\<close>

inductive store_step :: "db \<Rightarrow> db \<Rightarrow> bool" where
  call: "store_step d (run_call c d)"
| tick: "db_now d \<le> t \<Longrightarrow> store_step d (d\<lparr>db_now := t\<rparr>)"
| faults: "store_step d (d\<lparr>db_faults := fs\<rparr>)"

definition store_init :: "db \<Rightarrow> bool" where
  "store_init d \<longleftrightarrow> d = empty_db (db_now d)"

interpretation store: invariant_system store_init store_step db_ok
proof unfold_locales
  fix d assume "store_init d"
  then show "db_ok d" using db_ok_empty [of "db_now d"] by (simp add: store_init_def)
next
  fix d d' assume ok: "db_ok d" and "store_step d d'"
  from this(2) show "db_ok d'"
  proof cases
    case (call c)
    then show ?thesis using run_call_ok [OF ok] by simp
  next
    case (tick t)
    then show ?thesis using ok by (simp add: db_ok_def refs_ok_def tokens_ok_def)
  next
    case (faults fs)
    then show ?thesis using ok by simp
  qed
qed

section \<open>Lemmas\<close>

lemma stmt_no_fault: "db_faults d = [] \<Longrightarrow> stmt f d = f d"
  by (simp add: stmt_def)

lemma insert_key_no_fault:
  assumes "db_faults d = []" "insert_key aid hash prefix label kind d = (r, d')"
  shows "(\<exists>k seq. r = Inr k \<and> d' = d\<lparr>db_key_seq := seq, db_keys := db_keys d @ [k]\<rparr> \<and> k_hash k = hash \<and> k_account_id k = aid \<and>
      k_revoked_at k = None \<and> k_label k = label \<and> k_kind k = kind \<and> k_prefix k = prefix \<and> k_id k = db_key_seq d \<and>
      aid \<in> set (map ar_id (db_accounts d)) \<and> hash \<notin> set (map k_hash (db_keys d))) \<or>
    (\<exists>err. r = Inl err \<and> d' = d\<lparr>db_key_seq := db_key_seq d + 1\<rparr>)"
  using assms by (auto simp: insert_key_def stmt_no_fault Let_def split: if_splits)

lemma create_key_loop_no_fault:
  assumes "db_faults d = []" "create_key_loop n rands aid label kind d = (Inr (pt, k), d')"
    and rands: "\<And>i buf. rands i = Some buf \<Longrightarrow> length buf = 32"
  shows "\<exists>seq. d' = d\<lparr>db_key_seq := seq, db_keys := db_keys d @ [k]\<rparr> \<and> k_hash k = HashKey pt \<and> LooksLikeKey pt \<and> k_account_id k = aid \<and>
    k_revoked_at k = None \<and> k_label k = label \<and> k_kind k = kind \<and> aid \<in> set (map ar_id (db_accounts d)) \<and>
    HashKey pt \<notin> set (map k_hash (db_keys d))"
  using assms(1,2)
proof (induction n arbitrary: d)
  case 0
  then show ?case by (simp add: fail_def)
next
  case (Suc n)
  obtain p h pre where g: "GenerateKey kind (rands n) = Inr (p, h, pre)"
    using Suc.prems(2) by (cases "GenerateKey kind (rands n)") auto
  obtain buf where buf: "rands n = Some buf" using g by (cases "rands n") (auto simp: GenerateKey_def split: if_splits)
  have hp: "LooksLikeKey p" "h = HashKey p" using GenerateKey_Inr(1,2) [OF g [unfolded buf] rands [OF buf]] by simp_all
  obtain r d1 where i: "insert_key aid h pre label kind d = (r, d1)" by fastforce
  from insert_key_no_fault [OF Suc.prems(1) i] show ?case
  proof (elim disjE exE conjE, goal_cases)
    case (1 k' seq)
    then show ?thesis using Suc.prems(2) g i hp by auto
  next
    case (2 err)
    then have l: "create_key_loop n rands aid label kind d1 = (Inr (pt, k), d')"
      using Suc.prems(2) g i by (auto split: if_splits)
    have "db_faults d1 = []" using 2 Suc.prems(1) by simp
    from Suc.IH [OF this l] show ?thesis using 2 by auto
  qed
qed

lemma unique_filter:
  "distinct (map h rows) \<Longrightarrow> r \<in> set rows \<Longrightarrow> filter (\<lambda>x. h x = h r) rows = [r]"
  using distinct_key_filter [of h rows r "\<lambda>_. True"] by simp

lemma LookupKey_no_fault:
  assumes ok: "db_ok d" and nf: "db_faults d = []" and k: "k \<in> set (db_keys d)"
  obtains a where "a \<in> set (db_accounts d)" "ar_id a = k_account_id k"
    "LookupKey (k_hash k) d = (Inr \<lparr>l_key = k, l_account = lookup_account a,
       l_entitlements = sort_key e_id (filter (\<lambda>e. e_account_id e = ar_id a \<and> e_status e = EntitlementActive) (db_entitlements d))\<rparr>, d)"
proof -
  have d: "distinct (map k_hash (db_keys d))" "distinct (map ar_id (db_accounts d))"
    using ok by (simp_all add: db_ok_def keys_ok_def accounts_ok_def)
  have "k_account_id k \<in> ar_id ` set (db_accounts d)" using ok k by (auto simp: db_ok_def refs_ok_def)
  then obtain a where a: "a \<in> set (db_accounts d)" "ar_id a = k_account_id k" by force
  have "LookupKey (k_hash k) d = (Inr \<lparr>l_key = k, l_account = lookup_account a,
       l_entitlements = sort_key e_id (filter (\<lambda>e. e_account_id e = ar_id a \<and> e_status e = EntitlementActive) (db_entitlements d))\<rparr>, d)"
    unfolding LookupKey_def listEntitlements_def and_then_def stmt_no_fault [OF nf] unique_filter [OF d(1) k]
    using unique_filter [OF d(2) a(1)] by (simp add: a(2) one_row_def stmt_no_fault [OF nf] give_def)
  then show ?thesis using a that by blast
qed

lemma RevokeKey_no_fault:
  assumes ok: "db_ok d" and nf: "db_faults d = []" and k: "k \<in> set (db_keys d)" "k_revoked_at k = None" "aid = 0 \<or> k_account_id k = aid"
  shows "fst (RevokeKey (k_id k) aid d) = Inr (k\<lparr>k_revoked_at := Some (db_now d)\<rparr>)"
    "k\<lparr>k_revoked_at := Some (db_now d)\<rparr> \<in> set (db_keys (snd (RevokeKey (k_id k) aid d)))"
    "db_faults (snd (RevokeKey (k_id k) aid d)) = []"
proof -
  let ?P = "\<lambda>x. k_id x = k_id k \<and> k_revoked_at x = None \<and> (aid = 0 \<or> k_account_id x = aid)"
  let ?f = "\<lambda>x. x\<lparr>k_revoked_at := Some (db_now d)\<rparr>"
  have "distinct (map k_id (db_keys d))" using ok by (simp add: db_ok_def keys_ok_def)
  from distinct_key_filter [OF this k(1), of "\<lambda>x. k_revoked_at x = None \<and> (aid = 0 \<or> k_account_id x = aid)"]
  have f: "filter ?P (db_keys d) = [k]" using k by simp
  have r: "RevokeKey (k_id k) aid d = (Inr (?f k), d\<lparr>db_keys := fst (update_where ?P ?f (db_keys d))\<rparr>)"
    unfolding RevokeKey_def update_keys_def and_then_def stmt_no_fault [OF nf] update_where_def f
    by (simp add: need_row_def one_row_def give_def)
  show "fst (RevokeKey (k_id k) aid d) = Inr (?f k)" "?f k \<in> set (db_keys (snd (RevokeKey (k_id k) aid d)))"
    "db_faults (snd (RevokeKey (k_id k) aid d)) = []"
    unfolding r using k nf by (auto simp: set_update_where)
qed

lemma LookupKey_Inr:
  assumes "LookupKey hash d = (Inr l, d')"
  shows "l_key l \<in> set (db_keys d)" "k_hash (l_key l) = hash" "a_id (l_account l) = k_account_id (l_key l)"
    "\<forall>e \<in> set (l_entitlements l). e \<in> set (db_entitlements d) \<and> e_account_id e = a_id (l_account l) \<and> e_status e = EntitlementActive"
proof -
  let ?q = "\<lambda>d. (one_row (concat (map (\<lambda>k. map (\<lambda>a. (k, a)) (filter (\<lambda>a. ar_id a = k_account_id k) (db_accounts d)))
          (filter (\<lambda>k. k_hash k = hash) (db_keys d)))), d)"
  let ?l = "\<lambda>aid d. (Inr (sort_key e_id (filter (\<lambda>e. e_account_id e = aid \<and> e_status e = EntitlementActive)
        (db_entitlements d))) :: access_error + Entitlement list, d)"
  have c: "LookupKey hash d = and_then (stmt ?q) (\<lambda>(k, a). and_then (stmt (?l (ar_id a)))
          (\<lambda>es. give \<lparr>l_key = k, l_account = lookup_account a, l_entitlements = es\<rparr>)) d"
    by (simp add: LookupKey_def listEntitlements_def)
  obtain fs where q: "stmt ?q d = ?q (d\<lparr>db_faults := fs\<rparr>)"
    using assms c by (cases rule: stmt_cases [of ?q d]) (auto simp: and_then_def)
  obtain k a where ka: "one_row (concat (map (\<lambda>k. map (\<lambda>a. (k, a)) (filter (\<lambda>a. ar_id a = k_account_id k) (db_accounts d)))
          (filter (\<lambda>k. k_hash k = hash) (db_keys d)))) = Inr (k, a)"
    using assms unfolding c and_then_def q by (auto split: sum.splits)
  then have m: "k \<in> set (db_keys d)" "k_hash k = hash" "ar_id a = k_account_id k" by (auto dest!: one_row_in)
  obtain fs2 where q2: "stmt (?l (ar_id a)) (d\<lparr>db_faults := fs\<rparr>) = ?l (ar_id a) (d\<lparr>db_faults := fs2\<rparr>)"
    using assms ka unfolding c and_then_def q by (cases rule: stmt_cases [of "?l (ar_id a)" "d\<lparr>db_faults := fs\<rparr>"]) (auto simp: and_then_def)
  have "l = \<lparr>l_key = k, l_account = lookup_account a,
      l_entitlements = sort_key e_id (filter (\<lambda>e. e_account_id e = ar_id a \<and> e_status e = EntitlementActive) (db_entitlements d))\<rparr>"
    using assms ka q2 unfolding c and_then_def q by (simp add: give_def)
  then show "l_key l \<in> set (db_keys d)" "k_hash (l_key l) = hash" "a_id (l_account l) = k_account_id (l_key l)"
    "\<forall>e \<in> set (l_entitlements l). e \<in> set (db_entitlements d) \<and> e_account_id e = a_id (l_account l) \<and> e_status e = EntitlementActive"
    using m by (auto simp: lookup_account_def scanAccount_def)
qed


section \<open>Properties\<close>

text \<open>C5: Whatever calls were made, in whatever order and with whatever driver errors, the tables meet
  the schema's constraints: unique ids, emails, customers, key hashes, live prefixes, external
  references and token hashes; references that resolve; valid statuses, sources and kinds;
  normalized emails; and every entitlement in canonical form.\<close>

theorem store_reachable_ok:
  assumes "reachable store_init store_step d"
  shows "db_ok d"
  by (rule store.reachable_inv [OF assms])

theorem store_reachable_ok_witness:
  "db_ok (run_call (call_GetOrCreateAccount ''Ann@Example.com '' ''note'') (empty_db 5))"
proof (rule store_reachable_ok)
  have "reachable store_init store_step (empty_db 5)" by (rule reach_init) (simp add: store_init_def empty_db_def)
  then show "reachable store_init store_step (run_call (call_GetOrCreateAccount ''Ann@Example.com '' ''note'') (empty_db 5))"
    by (rule reach_step) (rule call)
qed

text \<open>C6: What the gateway reads of a key is its own: the row with that hash, its account, and that
  account's active entitlements; and whatever access the resolution grants from them signs no
  scope that names \<open>DEV_ACCESS\<close>, in any state the store can reach.\<close>

theorem reachable_lookup_safe:
  assumes "reachable store_init store_step d" "LookupKey hash d = (Inr l, d')" "Resolve (l_entitlements l) game now = Some a"
  shows "k_hash (l_key l) = hash \<and> l_key l \<in> set (db_keys d) \<and> a_id (l_account l) = k_account_id (l_key l) \<and>
    (\<forall>e \<in> set (l_entitlements l). e_account_id e = a_id (l_account l) \<and> e_status e = EntitlementActive) \<and>
    (\<forall>t \<in> set (split_on comma (ac_store_scope a)). \<not> equal_fold t ''DEV_ACCESS'')"
proof -
  have ok: "db_ok d" by (rule store.reachable_inv [OF assms(1)])
  note l = LookupKey_Inr [OF assms(2)]
  have "\<forall>e \<in> set (l_entitlements l). canonical_row e"
    using l(4) ok by (auto simp: db_ok_def entitlements_ok_def entitlement_ok_def)
  then have "ac_store_scope a = [] \<or> canonical_scope (ac_store_scope a)"
    using Resolve_scope_canonical [OF _ assms(3)] canonical_row_scope canonical_row_iff by (auto simp: list_all_iff)
  moreover have "\<not> equal_fold [] ''DEV_ACCESS''" by (simp add: equal_fold_def to_lower_def)
  ultimately have "\<forall>t \<in> set (split_on comma (ac_store_scope a)). \<not> equal_fold t ''DEV_ACCESS''" using canonical_scope_no_dev by auto
  then show ?thesis using l by blast
qed

text \<open>C7: A key that was created is found by the hash of its plaintext, with its account and not
  revoked; once its account or an operator revokes it, the lookup finds it revoked.\<close>

theorem CreateKey_LookupKey:
  assumes "db_ok d" "db_faults d = []" "\<forall>i buf. rands i = Some buf \<longrightarrow> length buf = 32"
    "CreateKey rands aid label kind d = (Inr (pt, k), d')"
  shows "\<exists>l d2. LookupKey (HashKey pt) d' = (Inr l, d') \<and> l_key l = k \<and> a_id (l_account l) = aid \<and> k_revoked_at k = None \<and>
    k_label k = label \<and> k_kind k = kind \<and> LooksLikeKey pt \<and>
    RevokeKey (k_id k) aid d' = (Inr (k\<lparr>k_revoked_at := Some (db_now d)\<rparr>), d2) \<and>
    (\<exists>l2. LookupKey (HashKey pt) d2 = (Inr l2, d2) \<and> k_revoked_at (l_key l2) = Some (db_now d))"
proof -
  obtain seq where d': "d' = d\<lparr>db_key_seq := seq, db_keys := db_keys d @ [k]\<rparr>" and k: "k_hash k = HashKey pt" "LooksLikeKey pt"
    "k_account_id k = aid" "k_revoked_at k = None" "k_label k = label" "k_kind k = kind"
    using create_key_loop_no_fault [OF assms(2) assms(4) [unfolded CreateKey_def]] assms(3) by blast
  have ok: "db_ok d'" using keepsD [OF keeps_CreateKey assms(1), of rands aid label kind] assms(4) by simp
  have nf: "db_faults d' = []" using d' assms(2) by simp
  have kin: "k \<in> set (db_keys d')" using d' by simp
  obtain a where a: "ar_id a = k_account_id k" and l: "LookupKey (k_hash k) d' = (Inr \<lparr>l_key = k, l_account = lookup_account a,
       l_entitlements = sort_key e_id (filter (\<lambda>e. e_account_id e = ar_id a \<and> e_status e = EntitlementActive) (db_entitlements d'))\<rparr>, d')"
    by (rule LookupKey_no_fault [OF ok nf kin])
  let ?d2 = "snd (RevokeKey (k_id k) aid d')"
  have rv: "RevokeKey (k_id k) aid d' = (Inr (k\<lparr>k_revoked_at := Some (db_now d)\<rparr>), ?d2)"
    "k\<lparr>k_revoked_at := Some (db_now d)\<rparr> \<in> set (db_keys ?d2)" "db_faults ?d2 = []"
    using RevokeKey_no_fault [OF ok nf kin k(4), of aid] k(3) d' nf by (simp_all add: prod_eq_iff)
  have ok2: "db_ok ?d2" by (rule keepsD [OF keeps_key_ops(1) ok])
  obtain l2 where l2: "LookupKey (k_hash k) ?d2 = (Inr l2, ?d2)" "l_key l2 = k\<lparr>k_revoked_at := Some (db_now d)\<rparr>"
    by (rule LookupKey_no_fault [OF ok2 rv(3,2)]) auto
  have "a_id (lookup_account a) = aid" using a k(3) by (simp add: lookup_account_def scanAccount_def)
  then show ?thesis using l k rv(1) l2 by fastforce
qed


lemma create_key_first:
  assumes "insert_key aid hash prefix label kind d = (Inr k, d')" "GenerateKey kind (rands n) = Inr (pt, hash, prefix)"
  shows "create_key_loop (Suc n) rands aid label kind d = (Inr (pt, k), d')"
  using assms by simp

text \<open>A store with one account, for the witnesses.\<close>

definition one_account :: db where
  "one_account = run_call (call_GetOrCreateAccount ''ann@example.com'' ''note'') (empty_db 5)"

lemma one_account_eq:
  "one_account = (empty_db 5)\<lparr>db_account_seq := 2, db_accounts := [new_account (empty_db 5) ''ann@example.com'' ''note'']\<rparr>"
proof -
  have "NormalizeEmail ''ann@example.com'' = ''ann@example.com''" by code_simp
  moreover have "email_check ''ann@example.com''" by code_simp
  ultimately show ?thesis
    by (simp add: one_account_def effect_def GetOrCreateAccount_def stmt_def empty_db_def Let_def new_account_def)
qed

lemma one_account_reachable: "reachable store_init store_step one_account"
proof -
  have "reachable store_init store_step (empty_db 5)" by (rule reach_init) (simp add: store_init_def empty_db_def)
  then show ?thesis unfolding one_account_def by (rule reach_step) (rule call)
qed

lemma one_account_fields [simp]:
  "db_faults one_account = []" "db_keys one_account = []" "db_entitlements one_account = []" "db_now one_account = 5"
  "map ar_id (db_accounts one_account) = [1]" "db_key_seq one_account = 1" "db_entitlement_seq one_account = 1"
  unfolding one_account_eq by (simp_all add: empty_db_def new_account_def)

theorem CreateKey_LookupKey_witness:
  "\<exists>pt k d' l. CreateKey (\<lambda>_. Some (replicate 32 CHR ''x'')) 1 ''laptop'' KeyLive one_account = (Inr (pt, k), d') \<and>
     LookupKey (HashKey pt) d' = (Inr l, d') \<and> l_key l = k"
proof -
  let ?rands = "\<lambda>_ :: nat. Some (replicate 32 CHR ''x'')"
  obtain pt h pre where g: "GenerateKey KeyLive (Some (replicate 32 CHR ''x'')) = Inr (pt, h, pre)"
    by (simp add: GenerateKey_def key_kind_valid_def Let_def)
  have n: "createKeyAttempts = Suc 3" by (simp add: createKeyAttempts_def)
  obtain k d' where i: "insert_key 1 h pre ''laptop'' KeyLive one_account = (Inr k, d')"
    by (simp add: insert_key_def stmt_no_fault Let_def key_kind_valid_def)
  have "CreateKey ?rands 1 ''laptop'' KeyLive one_account = (Inr (pt, k), d')"
    unfolding CreateKey_def n by (rule create_key_first [OF i]) (rule g)
  with CreateKey_LookupKey [OF store.reachable_inv [OF one_account_reachable] _ _ this] show ?thesis by (simp, blast)
qed

section \<open>Billing rows\<close>

lemma prepared_Inr: "prepareEntitlement now e = Inr p \<Longrightarrow> prepared now e = give p"
  by (simp add: prepared_def)

definition by_ref :: "string \<Rightarrow> db \<Rightarrow> Entitlement list" where
  "by_ref ref d = filter (\<lambda>x. e_external_ref x = ref) (db_entitlements d)"

lemma filter_update_where_other:
  "(\<And>x. Q x \<Longrightarrow> \<not> P x) \<Longrightarrow> (\<And>x. P x \<Longrightarrow> \<not> Q (f x)) \<Longrightarrow> filter Q (fst (update_where P f rows)) = filter Q rows"
  by (induction rows) (auto simp: update_where_def)

lemma filter_update_where_same:
  "(\<And>x. P x \<Longrightarrow> P (f x)) \<Longrightarrow> filter P (fst (update_where P f rows)) = map f (filter P rows)"
  by (induction rows) (auto simp: update_where_def)

lemma Upsert_no_fault:
  assumes nf: "db_faults d = []" and p: "prepareEntitlement now e = Inr (e', until, ext)" and ref: "e_external_ref e \<noteq> []"
    and u: "UpsertStripeEntitlement now e d = (Inr row, d')"
  shows "db_entitlements d' = (if by_ref (e_external_ref e) d = [] then db_entitlements d @ [entitlement_row d e' until ext]
      else fst (update_where (\<lambda>x. e_external_ref x = e_external_ref e) (upsert_row (entitlement_row d e' until ext)) (db_entitlements d)))"
    "db_faults d' = []" "db_now d' = db_now d" "db_accounts d' = db_accounts d"
    "row_violation (entitlement_row d e' until ext) = None" "e_account_id e' \<in> set (map ar_id (db_accounts d))"
proof -
  have ext: "ext = Some (e_external_ref e)" using prepareEntitlement_Inr(4) [OF p] ref by simp
  let ?row = "entitlement_row d e' until ext"
  have r: "e_external_ref ?row = e_external_ref e" by (simp add: ext)
  have P: "(\<lambda>x. ext \<noteq> None \<and> e_external_ref x = e_external_ref e) = (\<lambda>x. e_external_ref x = e_external_ref e)" using ext by simp
  let ?body = "case row_violation ?row of
          Some err \<Rightarrow> (Inl err, d\<lparr>db_entitlement_seq := db_entitlement_seq d + 1\<rparr>)
        | None \<Rightarrow>
            if e_account_id e' \<notin> set (map ar_id (db_accounts d)) then (Inl ForeignKeyViolation, d\<lparr>db_entitlement_seq := db_entitlement_seq d + 1\<rparr>)
            else case by_ref (e_external_ref e) d of
                old # _ \<Rightarrow> (Inr (upsert_row ?row old), d\<lparr>db_entitlement_seq := db_entitlement_seq d + 1,
                  db_entitlements := fst (update_where (\<lambda>x. e_external_ref x = e_external_ref e) (upsert_row ?row) (db_entitlements d))\<rparr>)
              | [] \<Rightarrow> (Inr ?row, d\<lparr>db_entitlement_seq := db_entitlement_seq d + 1, db_entitlements := db_entitlements d @ [?row]\<rparr>)"
  have "UpsertStripeEntitlement now e d = upsertEntitlement (e', until, ext) d"
    using ref by (simp add: UpsertStripeEntitlement_def prepared_Inr [OF p])
  also have "\<dots> = ?body"
    unfolding upsertEntitlement_def stmt_no_fault [OF nf] Let_def prod.case r by_ref_def P by simp
  finally have "?body = (Inr row, d')" using u by simp
  then show "db_entitlements d' = (if by_ref (e_external_ref e) d = [] then db_entitlements d @ [?row]
      else fst (update_where (\<lambda>x. e_external_ref x = e_external_ref e) (upsert_row ?row) (db_entitlements d)))"
    "db_faults d' = []" "db_now d' = db_now d" "db_accounts d' = db_accounts d"
    "row_violation ?row = None" "e_account_id e' \<in> set (map ar_id (db_accounts d))"
    using nf by (auto split: option.splits if_splits list.splits)
qed


text \<open>What an upsert leaves under its reference: the rewritten rows, else the new one.\<close>

lemma Upsert_by_ref:
  assumes nf: "db_faults d = []" and p: "prepareEntitlement now e = Inr (e', until, ext)" and ref: "e_external_ref e \<noteq> []"
    and u: "UpsertStripeEntitlement now e d = (Inr row, d')"
  shows "by_ref (e_external_ref e) d' = (if by_ref (e_external_ref e) d = [] then [entitlement_row d e' until ext]
      else map (upsert_row (entitlement_row d e' until ext)) (by_ref (e_external_ref e) d))"
    "ref' \<noteq> e_external_ref e \<Longrightarrow> by_ref ref' d' = by_ref ref' d"
proof -
  have ext: "ext = Some (e_external_ref e)" using prepareEntitlement_Inr(4) [OF p] ref by simp
  note d' = Upsert_no_fault(1) [OF assms]
  show "by_ref (e_external_ref e) d' = (if by_ref (e_external_ref e) d = [] then [entitlement_row d e' until ext]
      else map (upsert_row (entitlement_row d e' until ext)) (by_ref (e_external_ref e) d))"
    unfolding by_ref_def d' using filter_update_where_same [of "\<lambda>x. e_external_ref x = e_external_ref e" "upsert_row (entitlement_row d e' until ext)"]
    by (simp add: by_ref_def ext)
  show "by_ref ref' d' = by_ref ref' d" if "ref' \<noteq> e_external_ref e"
    unfolding by_ref_def d' using that filter_update_where_other [of "\<lambda>x. e_external_ref x = ref'" "\<lambda>x. e_external_ref x = e_external_ref e" "upsert_row (entitlement_row d e' until ext)"]
    by (simp add: by_ref_def ext)
qed

lemma filter_key_length:
  "distinct (map h (filter Q xs)) \<Longrightarrow> (\<And>x. h x = r \<Longrightarrow> Q x) \<Longrightarrow> length (filter (\<lambda>x. h x = r) xs) \<le> 1"
proof (induction xs)
  case (Cons x xs)
  show ?case
  proof (cases "h x = r")
    case True
    then have "r \<notin> set (map h (filter Q xs))" using Cons.prems by simp
    then have "filter (\<lambda>x. h x = r) xs = []" using Cons.prems(2) by (force simp: filter_empty_conv)
    then show ?thesis using True by simp
  next
    case False
    then show ?thesis using Cons by (cases "Q x") simp_all
  qed
qed simp

lemma upsert_row_twice: "upsert_row (entitlement_row d2 e u x) (upsert_row (entitlement_row d1 e u x) old) = upsert_row (entitlement_row d1 e u x) old"
  "upsert_row (entitlement_row d2 e u x) (entitlement_row d1 e u x) = entitlement_row d1 e u x"
  by (simp_all add: upsert_row_def entitlement_row_def)

text \<open>C8: A Stripe subscription has one row per reference however often it is reconciled: the first
  upsert adds a row, a later one rewrites it but keeps its id, start and creation, replaying the
  same upsert changes nothing more, and no other reference's rows are touched.\<close>

theorem UpsertStripeEntitlement_replay:
  assumes "db_ok d" "db_faults d = []" "UpsertStripeEntitlement now e d = (Inr row, d1)" "UpsertStripeEntitlement now e d1 = (Inr row2, d2)"
  shows "length (by_ref (e_external_ref e) d1) = 1 \<and> by_ref (e_external_ref e) d2 = by_ref (e_external_ref e) d1 \<and>
    (\<forall>old \<in> set (by_ref (e_external_ref e) d). \<forall>new \<in> set (by_ref (e_external_ref e) d1).
       e_id new = e_id old \<and> e_valid_from new = e_valid_from old \<and> e_created_at new = e_created_at old) \<and>
    (\<forall>ref. ref \<noteq> e_external_ref e \<longrightarrow> by_ref ref d2 = by_ref ref d)"
proof -
  have ref: "e_external_ref e \<noteq> []" using assms(3) by (auto simp: UpsertStripeEntitlement_def fail_def)
  obtain e' until ext where p: "prepareEntitlement now e = Inr (e', until, ext)"
    using assms(3) ref by (cases "prepareEntitlement now e") (auto simp: UpsertStripeEntitlement_def prepared_def fail_def and_then_def)
  note u1 = Upsert_by_ref [OF assms(2) p ref assms(3)]
  have nf1: "db_faults d1 = []" using Upsert_no_fault(2) [OF assms(2) p ref assms(3)] .
  note u2 = Upsert_by_ref [OF nf1 p ref assms(4)]
  have "length (by_ref (e_external_ref e) d) \<le> 1" unfolding by_ref_def
    by (rule filter_key_length [where Q = "\<lambda>x. e_external_ref x \<noteq> []"]) (use assms(1) ref in \<open>auto simp: db_ok_def entitlements_ok_def\<close>)
  then consider "by_ref (e_external_ref e) d = []" | old where "by_ref (e_external_ref e) d = [old]"
    by (cases "by_ref (e_external_ref e) d" rule: remdups_adj.cases) auto
  then show ?thesis
  proof cases
    case 1
    then show ?thesis using u1 u2 by (simp add: upsert_row_twice)
  next
    case 2
    then show ?thesis using u1 u2 by (simp add: upsert_row_twice) (simp add: upsert_row_def)
  qed
qed


definition sample_grant :: Entitlement where
  "sample_grant = (sample_row ''SCG,TCG'' [''retail''] 0)\<lparr>e_account_id := 1, e_source := SourceManual\<rparr>"

definition with_grant :: db where
  "with_grant = run_call (call_AddEntitlement 5 sample_grant) one_account"

lemma with_grant_reachable: "reachable store_init store_step with_grant"
  unfolding with_grant_def by (rule reach_step [OF one_account_reachable]) (rule call)

lemma with_grant_fields:
  "db_faults with_grant = []" "db_keys with_grant = []" "map ar_id (db_accounts with_grant) = [1]"
  "db_entitlements with_grant = [sample_grant\<lparr>e_id := 1, e_created_at := 5\<rparr>]"
  by code_simp+

theorem reachable_lookup_safe_witness:
  "\<exists>hash l a. LookupKey hash (run_call (call_CreateKey (\<lambda>_. Some (replicate 32 CHR ''x'')) 1 [] KeyLive) with_grant) =
       (Inr l, run_call (call_CreateKey (\<lambda>_. Some (replicate 32 CHR ''x'')) 1 [] KeyLive) with_grant) \<and>
     Resolve (l_entitlements l) ''magic'' 7 = Some a \<and> ac_store_scope a = ''SCG,TCG'' \<and>
     list_all (\<lambda>t. \<not> equal_fold t ''DEV_ACCESS'') (split_on comma (ac_store_scope a))"
proof -
  let ?rands = "\<lambda>_ :: nat. Some (replicate 32 CHR ''x'')"
  let ?d = "run_call (call_CreateKey ?rands 1 [] KeyLive) with_grant"
  have r: "reachable store_init store_step ?d" by (rule reach_step [OF with_grant_reachable]) (rule call)
  obtain pt h pre where g: "GenerateKey KeyLive (Some (replicate 32 CHR ''x'')) = Inr (pt, h, pre)"
    by (simp add: GenerateKey_def key_kind_valid_def Let_def)
  obtain k d' where i: "insert_key 1 h pre [] KeyLive with_grant = (Inr k, d')"
    by (simp add: insert_key_def stmt_no_fault Let_def key_kind_valid_def with_grant_fields)
  have n: "createKeyAttempts = Suc 3" by (simp add: createKeyAttempts_def)
  have c: "CreateKey ?rands 1 [] KeyLive with_grant = (Inr (pt, k), d')"
    unfolding CreateKey_def n by (rule create_key_first [OF i]) (rule g)
  have d: "?d = d'" by (simp add: effect_def c)
  from insert_key_no_fault [OF with_grant_fields(1) i] obtain seq where
    d': "d' = with_grant\<lparr>db_key_seq := seq, db_keys := db_keys with_grant @ [k]\<rparr>" and k1: "k_account_id k = 1" by auto
  have nf: "db_faults d' = []" using d' by (simp add: with_grant_fields)
  obtain a where a: "ar_id a = k_account_id k" and l: "LookupKey (k_hash k) d' = (Inr \<lparr>l_key = k, l_account = lookup_account a,
       l_entitlements = sort_key e_id (filter (\<lambda>e. e_account_id e = ar_id a \<and> e_status e = EntitlementActive) (db_entitlements d'))\<rparr>, d')"
    by (rule LookupKey_no_fault [OF store.reachable_inv [OF r, unfolded d] nf, of k]) (auto simp: d')
  have es: "sort_key e_id (filter (\<lambda>e. e_account_id e = ar_id a \<and> e_status e = EntitlementActive) (db_entitlements d')) =
      [sample_grant\<lparr>e_id := 1, e_created_at := 5\<rparr>]"
    using a k1 by (simp add: d' with_grant_fields sample_grant_def sample_row_def)
  have res: "Resolve [sample_grant\<lparr>e_id := 1, e_created_at := 5\<rparr>] ''magic'' 7 =
      Some \<lparr>ac_store_scope = ''SCG,TCG'', ac_modes = [''retail''], ac_lookback_days = 0\<rparr>" by code_simp
  from reachable_lookup_safe [OF r [unfolded d] l, of "''magic''" 7] l res es show ?thesis unfolding d list_all_iff by fastforce
qed

definition sample_plan :: Entitlement where
  "sample_plan = sample_grant\<lparr>e_source := SourceStripe, e_external_ref := ''sub_1''\<rparr>"

theorem UpsertStripeEntitlement_replay_witness:
  "\<exists>row d1 row2 d2. UpsertStripeEntitlement 5 sample_plan one_account = (Inr row, d1) \<and> UpsertStripeEntitlement 5 sample_plan d1 = (Inr row2, d2) \<and>
     length (by_ref ''sub_1'' d1) = 1 \<and> by_ref ''sub_1'' d2 = by_ref ''sub_1'' d1"
proof -
  let ?r1 = "UpsertStripeEntitlement 5 sample_plan one_account"
  let ?r2 = "UpsertStripeEntitlement 5 sample_plan (snd ?r1)"
  have "\<not> isl (fst ?r1)" "\<not> isl (fst ?r2)" by code_simp+
  then obtain row row2 where r: "?r1 = (Inr row, snd ?r1)" "?r2 = (Inr row2, snd ?r2)"
    by (metis isl_def prod.collapse sum.exhaust)
  have "e_external_ref sample_plan = ''sub_1''" by (simp add: sample_plan_def)
  with UpsertStripeEntitlement_replay [OF store.reachable_inv [OF one_account_reachable] _ r] r show ?thesis by (simp, blast)
qed

end
