(* ===== verification/Billing_Plan.thy ===== *)
theory Billing_Plan
  imports Admin_Rules "HOL-Library.Signed_Division"
begin

text \<open>
  The plans of \<open>src/billing/plan.go\<close> and how \<open>stores.go\<close> resolves one against the game sites. The
  catalog (\<open>mtgban-website/apiproductlist\<close>) is a parameter: the record \<open>ProductList\<close> has one field
  for each thing the code asks of it, a lookup giving the entry and whether it is there. Money is in
  cents, as an unbounded integer.
\<close>

section \<open>The catalog\<close>

record Package =
  pk_key :: string
  pk_name :: string
  pk_store_scope :: string
  pk_included_stores :: int
  pk_monthly :: int
  pk_modes :: "string list"
  pk_lookback_days :: int
  pk_history :: bool

record Interval =
  in_key :: string
  in_interval :: string
  in_count :: int
  in_public :: bool
  in_amount :: "int \<Rightarrow> string + int"

record Addon =
  ad_key :: string
  ad_name :: string
  ad_grants_mode :: string
  ad_monthly :: int
  ad_stepped :: bool
  ad_first_monthly :: int
  ad_applies_to :: "string list"
  ad_applies :: "string \<Rightarrow> bool"
  ad_amount :: "Interval \<Rightarrow> int \<Rightarrow> string + int"

record ProductList =
  ct_package :: "string \<Rightarrow> Package \<times> bool"
  ct_interval :: "string \<Rightarrow> Interval \<times> bool"
  ct_addon :: "string \<Rightarrow> Addon \<times> bool"
  ct_packages :: "Package list"
  ct_intervals :: "Interval list"
  ct_addons :: "Addon list"
  ct_currency :: string
  ct_included_games :: int
  ct_lookup_key :: "string \<Rightarrow> string \<Rightarrow> string"
  ct_scope_explicit :: string

section \<open>Plans\<close>

definition AddonExtraStore :: string where "AddonExtraStore = ''extra_store''"
definition AddonExtraGame :: string where "AddonExtraGame = ''extra_game''"

record Plan =
  pl_package :: string
  pl_interval :: string
  pl_games :: "string list"
  pl_stores :: "string list"
  pl_mode_addons :: "string list"

record LineItem =
  li_key :: string
  li_lookup_key :: string
  li_quantity :: int
  li_monthly :: int

text \<open>A validation error is named by its message; \<open>TotalError\<close> is an error of the catalog's amounts.\<close>

datatype validation =
    UnknownPackage string
  | UnknownInterval string
  | PickGame
  | PickStore
  | TakesNoStores string
  | UnknownAddon string
  | AddonNotAlone string
  | ModeNotServed string string
  | CannotAdd string string
  | UnknownGame string
  | StoreNotAvailable string

datatype billing_error =
    ValidationError validation
  | ErrInviteRequired
  | ErrNoPlan
  | ErrNoAccount
  | ErrStoresUnavailable string
  | ErrPriceNotSeeded string
  | ErrHasPlan
  | ErrNoCustomer
  | ErrChangeNotReconciled
  | ErrManySubscriptions
  | NoSubscription
  | NotOwner string int
  | AccountNotActive int
  | WrongInviteInterval string string
  | SessionNotExpired string
  | StoreError access_error
  | ApiError string

definition IsValidation :: "billing_error \<Rightarrow> bool" where
  "IsValidation e = (case e of ValidationError _ \<Rightarrow> True | _ \<Rightarrow> False)"

definition dedupe :: "(string \<Rightarrow> string) \<Rightarrow> string list \<Rightarrow> string list" where
  "dedupe canon xs =
     foldl (\<lambda>out s. let t = canon (trim_space s) in if t \<noteq> [] \<and> t \<notin> set out then out @ [t] else out) [] xs"

definition addonItem :: "ProductList \<Rightarrow> Plan \<Rightarrow> string \<Rightarrow> int \<Rightarrow> LineItem" where
  "addonItem cat p key qty =
     \<lparr>li_key = key, li_lookup_key = ct_lookup_key cat key (pl_interval p), li_quantity = qty,
      li_monthly = ad_monthly (fst (ct_addon cat key))\<rparr>"

definition LineItems :: "ProductList \<Rightarrow> Plan \<Rightarrow> LineItem list" where
  "LineItems cat p =
     (let pkg = fst (ct_package cat (pl_package p));
          extra = int (length (pl_stores p)) - pk_included_stores pkg;
          games = int (length (pl_games p)) - ct_included_games cat
      in [\<lparr>li_key = pk_key pkg, li_lookup_key = ct_lookup_key cat (pk_key pkg) (pl_interval p), li_quantity = 1, li_monthly = pk_monthly pkg\<rparr>] @
         (if pk_store_scope pkg = ct_scope_explicit cat \<and> extra > 0 then [addonItem cat p AddonExtraStore extra] else []) @
         (if games > 0 then [addonItem cat p AddonExtraGame games] else []) @
         map (\<lambda>k. addonItem cat p k 1) (pl_mode_addons p))"

text \<open>The first complaint about a mode add-on, and about the add-ons the plan bills.\<close>

definition addon_problem :: "ProductList \<Rightarrow> Package \<Rightarrow> string \<Rightarrow> validation option" where
  "addon_problem cat pkg k =
     (case ct_addon cat k of (addon, ok) \<Rightarrow>
        if \<not> ok then Some (UnknownAddon k)
        else if ad_grants_mode addon = [] then Some (AddonNotAlone k)
        else if ad_grants_mode addon \<notin> set ValidModes then Some (ModeNotServed k (ad_grants_mode addon))
        else if \<not> ad_applies addon (pk_key pkg) then Some (CannotAdd (pk_key pkg) k)
        else None)"

definition item_problem :: "ProductList \<Rightarrow> Package \<Rightarrow> LineItem \<Rightarrow> validation option" where
  "item_problem cat pkg li =
     (if li_key li = pk_key pkg then None
      else case ct_addon cat (li_key li) of (addon, ok) \<Rightarrow>
        if \<not> ok \<or> \<not> ad_applies addon (pk_key pkg) then Some (CannotAdd (pk_key pkg) (li_key li)) else None)"

fun first_problem :: "('a \<Rightarrow> validation option) \<Rightarrow> 'a list \<Rightarrow> validation option" where
  "first_problem f [] = None"
| "first_problem f (x # xs) = (case f x of Some v \<Rightarrow> Some v | None \<Rightarrow> first_problem f xs)"

definition Normalize :: "ProductList \<Rightarrow> Plan \<Rightarrow> billing_error + Plan" where
  "Normalize cat p =
     (case ct_package cat (pl_package p) of (pkg, ok) \<Rightarrow>
        if \<not> ok then Inl (ValidationError (UnknownPackage (pl_package p)))
        else if \<not> snd (ct_interval cat (pl_interval p)) then Inl (ValidationError (UnknownInterval (pl_interval p)))
        else let games = dedupe to_lower (pl_games p) in
          if games = [] then Inl (ValidationError PickGame)
          else let stores = sort (dedupe to_lower (pl_stores p));
                   mode_addons = sort (dedupe to_lower (pl_mode_addons p));
                   out = \<lparr>pl_package = pk_key pkg, pl_interval = pl_interval p, pl_games = sort games, pl_stores = stores, pl_mode_addons = mode_addons\<rparr>
            in if pk_store_scope pkg = ct_scope_explicit cat \<and> stores = [] then Inl (ValidationError PickStore)
               else if pk_store_scope pkg \<noteq> ct_scope_explicit cat \<and> stores \<noteq> [] then Inl (ValidationError (TakesNoStores (pk_key pkg)))
               else case first_problem (addon_problem cat pkg) mode_addons of
                   Some v \<Rightarrow> Inl (ValidationError v)
                 | None \<Rightarrow> (case first_problem (item_problem cat pkg) (LineItems cat out) of
                       Some v \<Rightarrow> Inl (ValidationError v)
                     | None \<Rightarrow> Inr out))"

definition Validate :: "ProductList \<Rightarrow> string list \<Rightarrow> bool \<Rightarrow> Plan \<Rightarrow> billing_error + Plan" where
  "Validate cat known_games have_invite p0 =
     (case Normalize cat p0 of
        Inl e \<Rightarrow> Inl e
      | Inr p \<Rightarrow>
          (case find (\<lambda>g. g \<notin> set known_games) (pl_games p) of
             Some g \<Rightarrow> Inl (ValidationError (UnknownGame g))
           | None \<Rightarrow> if \<not> in_public (fst (ct_interval cat (pl_interval p))) \<and> \<not> have_invite then Inl ErrInviteRequired else Inr p))"

definition item_amount :: "ProductList \<Rightarrow> Plan \<Rightarrow> LineItem \<Rightarrow> string + int" where
  "item_amount cat p li =
     (let iv = fst (ct_interval cat (pl_interval p)); pkg = fst (ct_package cat (pl_package p)) in
      if li_key li = pk_key pkg then in_amount iv (pk_monthly pkg)
      else ad_amount (fst (ct_addon cat (li_key li))) iv (li_quantity li))"

fun sum_amounts :: "(LineItem \<Rightarrow> string + int) \<Rightarrow> int \<Rightarrow> LineItem list \<Rightarrow> string + int" where
  "sum_amounts f acc [] = Inr acc"
| "sum_amounts f acc (li # lis) = (case f li of Inl e \<Rightarrow> Inl e | Inr amount \<Rightarrow> sum_amounts f (acc + amount) lis)"

definition Total :: "ProductList \<Rightarrow> Plan \<Rightarrow> string + int" where
  "Total cat p = sum_amounts (item_amount cat p) 0 (LineItems cat p)"

text \<open>Metadata: a map, as an association list.\<close>

definition Metadata :: "Plan \<Rightarrow> int \<Rightarrow> (string \<times> string) list" where
  "Metadata p account_id =
     [(''package'', pl_package p), (''interval'', pl_interval p), (''games'', join '','' (pl_games p)),
      (''stores'', join '','' (pl_stores p)), (''addons'', join '','' (pl_mode_addons p)), (''account_id'', format_int account_id)]"

definition meta :: "(string \<times> string) list \<Rightarrow> string \<Rightarrow> string" where
  "meta m k = (case map_of m k of Some v \<Rightarrow> v | None \<Rightarrow> [])"

definition PlanFromMetadata :: "(string \<times> string) list \<Rightarrow> billing_error + Plan \<times> int" where
  "PlanFromMetadata m =
     (if meta m ''package'' = [] \<or> meta m ''interval'' = [] then Inl ErrNoPlan
      else Inr (\<lparr>pl_package = meta m ''package'', pl_interval = meta m ''interval'', pl_games = SplitList (meta m ''games''),
                 pl_stores = SplitList (meta m ''stores''), pl_mode_addons = SplitList (meta m ''addons'')\<rparr>,
                fst (parse_int (meta m ''account_id''))))"

definition planModes :: "ProductList \<Rightarrow> Package \<Rightarrow> string list \<Rightarrow> string list" where
  "planModes cat pkg mode_addons =
     (let granted = pk_modes pkg @ concat (map (\<lambda>k. case ct_addon cat k of (addon, ok) \<Rightarrow>
            if ok \<and> ad_grants_mode addon \<noteq> [] then [ad_grants_mode addon] else []) mode_addons)
      in filter (\<lambda>m. m \<in> set granted) ValidModes)"

definition Addons :: "ProductList \<Rightarrow> Plan \<Rightarrow> string list" where
  "Addons cat p = map (\<lambda>li. li_key li @ '':'' @ format_int (li_quantity li)) (filter (\<lambda>li. li_key li \<noteq> pl_package p) (LineItems cat p))"

text \<open>Go's division truncates; the loop of \<open>Dollars\<close> puts a comma before every third digit from the end.\<close>

function insert_commas :: "int \<Rightarrow> string \<Rightarrow> string" where
  "insert_commas i s = (if i > 0 then insert_commas (i - 3) (take (nat i) s @ '','' @ drop (nat i) s) else s)"
  by pat_completeness auto
termination by (relation "measure (\<lambda>(i, s). nat i)") auto

declare insert_commas.simps [simp del]

definition Dollars :: "int \<Rightarrow> string" where
  "Dollars cents =
     (let digits = format_int (cents sdiv 100);
          dollars = insert_commas (int (length digits) - 3) digits
      in if cents smod 100 = 0 then ''$'' @ dollars
         else ''$'' @ dollars @ ''.'' @ tl (format_int (100 + cents smod 100)))"

definition Describe :: "ProductList \<Rightarrow> Plan \<Rightarrow> string" where
  "Describe cat p =
     (let pkg = fst (ct_package cat (pl_package p)) in
      pk_name pkg @ '', games '' @ join '','' (pl_games p) @
      (if pk_store_scope pkg = ct_scope_explicit cat then '', stores '' @ join '','' (pl_stores p) else []) @
      concat (map (\<lambda>k. case ct_addon cat k of (addon, ok) \<Rightarrow> if ok then '', with '' @ to_lower (ad_name addon) else []) (pl_mode_addons p)) @
      '', '' @ pl_interval p @
      (case Total cat p of Inl _ \<Rightarrow> [] | Inr cents \<Rightarrow> '', '' @ Dollars cents @ '' per period''))"

section \<open>Resolving the stores\<close>

record StoreFamily =
  sf_key :: string
  sf_name :: string
  sf_shorthands :: "string list"

record SiteStores =
  ss_game :: string
  ss_implied :: "StoreFamily list"
  ss_stores :: "StoreFamily list"

record ResolvedPlan =
  rz_plan :: Plan
  rz_scope :: string
  rz_modes :: "string list"
  rz_implied :: "string list"
  rz_names :: "(string \<times> string) list"

definition StoreNames :: "ResolvedPlan \<Rightarrow> string list" where
  "StoreNames r = rz_implied r @ filter (\<lambda>n. n \<noteq> []) (map (meta (rz_names r)) (pl_stores (rz_plan r)))"

text \<open>One site's families, added to the names and shorthands found so far.\<close>

definition add_site :: "Plan \<Rightarrow> SiteStores \<Rightarrow> string list \<times> (string \<times> string) list \<times> string list \<Rightarrow>
    string list \<times> (string \<times> string) list \<times> string list" where
  "add_site p site acc =
     (case acc of (implied, names, shorthands) \<Rightarrow>
        let picked = filter (\<lambda>f. sf_key f \<in> set (pl_stores p)) (ss_stores site) in
        (foldl (\<lambda>out f. if sf_name f \<in> set out then out else out @ [sf_name f]) implied (ss_implied site),
         foldl (\<lambda>m f. if sf_key f \<in> set (map fst m) then m else m @ [(sf_key f, sf_name f)]) names picked,
         shorthands @ concat (map sf_shorthands (ss_implied site)) @ concat (map sf_shorthands picked)))"

text \<open>The sites are asked in the order of the games; the first failure ends it.\<close>

fun ask_sites :: "(string \<Rightarrow> string + SiteStores) \<Rightarrow> Plan \<Rightarrow> string list \<Rightarrow> string list \<times> (string \<times> string) list \<times> string list \<Rightarrow>
    billing_error + (string list \<times> (string \<times> string) list \<times> string list)" where
  "ask_sites lister p [] acc = Inr acc"
| "ask_sites lister p (g # gs) acc =
     (case lister g of Inl _ \<Rightarrow> Inl (ErrStoresUnavailable g) | Inr site \<Rightarrow> ask_sites lister p gs (add_site p site acc))"

definition Plan_Resolve :: "ProductList \<Rightarrow> (string \<Rightarrow> string + SiteStores) option \<Rightarrow> Plan \<Rightarrow> billing_error + ResolvedPlan" where
  "Plan_Resolve cat lister p =
     (case ct_package cat (pl_package p) of (pkg, ok) \<Rightarrow>
        let r = \<lparr>rz_plan = p, rz_scope = pk_store_scope pkg, rz_modes = planModes cat pkg (pl_mode_addons p), rz_implied = [], rz_names = []\<rparr> in
        if \<not> ok then Inl (ValidationError (UnknownPackage (pl_package p)))
        else if pk_store_scope pkg \<noteq> ct_scope_explicit cat then Inr r
        else case lister of
            None \<Rightarrow> Inl (ErrStoresUnavailable [])
          | Some ask \<Rightarrow>
              (case ask_sites ask p (pl_games p) ([], [], []) of
                 Inl e \<Rightarrow> Inl e
               | Inr (implied, names, shorthands) \<Rightarrow>
                   (case find (\<lambda>k. k \<notin> set (map fst names)) (pl_stores p) of
                      Some k \<Rightarrow> Inl (ValidationError (StoreNotAvailable k))
                    | None \<Rightarrow>
                        let sh = dedupe (\<lambda>s. s) shorthands in
                        if sh = [] then Inl (ErrStoresUnavailable [])
                        else Inr (r\<lparr>rz_scope := join '','' (sort sh), rz_implied := implied, rz_names := names\<rparr>))))"

section \<open>Lemmas: lists\<close>

lemma dedupe_acc:
  assumes "\<And>s. canon (canon s) = canon s"
  shows "distinct out \<Longrightarrow> [] \<notin> set out \<Longrightarrow>
    distinct (foldl (\<lambda>out s. let t = canon (trim_space s) in if t \<noteq> [] \<and> t \<notin> set out then out @ [t] else out) out xs) \<and>
    set (foldl (\<lambda>out s. let t = canon (trim_space s) in if t \<noteq> [] \<and> t \<notin> set out then out @ [t] else out) out xs) =
      set out \<union> ((\<lambda>s. canon (trim_space s)) ` set xs - {[]})"
  by (induction xs arbitrary: out) (auto simp: Let_def)

lemma distinct_dedupe: "(\<And>s. canon (canon s) = canon s) \<Longrightarrow> distinct (dedupe canon xs)"
  using dedupe_acc [of canon "[]" xs] by (simp add: dedupe_def)

lemma set_dedupe: "(\<And>s. canon (canon s) = canon s) \<Longrightarrow> set (dedupe canon xs) = (\<lambda>s. canon (trim_space s)) ` set xs - {[]}"
  using dedupe_acc [of canon "[]" xs] by (simp add: dedupe_def)

lemma dedupe_fixed:
  assumes "distinct xs" "\<forall>x \<in> set xs. canon (trim_space x) = x \<and> x \<noteq> []"
  shows "dedupe canon xs = xs"
proof -
  have "foldl (\<lambda>out s. let t = canon (trim_space s) in if t \<noteq> [] \<and> t \<notin> set out then out @ [t] else out) out xs = out @ xs"
    if "distinct (out @ xs)" "\<forall>x \<in> set xs. canon (trim_space x) = x \<and> x \<noteq> []" for out
    using that by (induction xs arbitrary: out) (auto simp: Let_def)
  from this [of "[]"] assms show ?thesis by (simp add: dedupe_def)
qed

text \<open>A sorted deduplicated list of lowercase names is its own normal form.\<close>

definition name_list :: "string list \<Rightarrow> bool" where
  "name_list xs \<longleftrightarrow> sorted xs \<and> distinct xs \<and> list_all (\<lambda>x. x \<noteq> [] \<and> trim_space x = x \<and> to_lower x = x) xs"

lemma name_list_Nil [simp]: "name_list []"
  by (simp add: name_list_def)

lemma name_list_dedupe: "name_list (sort (dedupe to_lower xs))"
proof -
  have "list_all (\<lambda>x. x \<noteq> [] \<and> trim_space x = x \<and> to_lower x = x) (dedupe to_lower xs)"
    unfolding list_all_iff set_dedupe [of to_lower xs, OF to_lower_idem] by auto
  then show ?thesis unfolding name_list_def using distinct_dedupe [of to_lower xs, OF to_lower_idem] by (auto simp: list_all_iff)
qed

lemma name_list_fixed: "name_list xs \<Longrightarrow> sort (dedupe to_lower xs) = xs"
  by (subst dedupe_fixed) (auto simp: name_list_def list_all_iff sorted_sort_id)

lemma SplitList_join:
  assumes "list_all (\<lambda>x. x \<noteq> [] \<and> trim_space x = x \<and> comma \<notin> set x) xs"
  shows "SplitList (join '','' xs) = xs"
proof (cases "xs = []")
  case True
  then show ?thesis by (simp add: SplitList_def)
next
  case False
  have "split_on comma (join '','' xs) = xs" using assms False by (intro split_join) (auto simp: list_all_iff)
  moreover have "map trim_space xs = xs" using assms by (induction xs) auto
  moreover have "filter (\<lambda>p. p \<noteq> []) xs = xs" using assms by (induction xs) auto
  ultimately show ?thesis by (simp add: SplitList_def)
qed

section \<open>Lemmas: plans\<close>

definition normal_plan :: "Plan \<Rightarrow> bool" where
  "normal_plan p \<longleftrightarrow> name_list (pl_games p) \<and> pl_games p \<noteq> [] \<and> name_list (pl_stores p) \<and> name_list (pl_mode_addons p)"

text \<open>The catalog finds a package again by the key it gave.\<close>

definition catalog_keys :: "ProductList \<Rightarrow> bool" where
  "catalog_keys cat \<longleftrightarrow> (\<forall>k pkg. ct_package cat k = (pkg, True) \<longrightarrow> ct_package cat (pk_key pkg) = (pkg, True))"

lemma Normalize_Inr:
  assumes "Normalize cat p = Inr q"
  obtains pkg where "ct_package cat (pl_package p) = (pkg, True)" "snd (ct_interval cat (pl_interval p))"
    "q = \<lparr>pl_package = pk_key pkg, pl_interval = pl_interval p, pl_games = sort (dedupe to_lower (pl_games p)),
          pl_stores = sort (dedupe to_lower (pl_stores p)), pl_mode_addons = sort (dedupe to_lower (pl_mode_addons p))\<rparr>"
    "normal_plan q" "pk_store_scope pkg = ct_scope_explicit cat \<longleftrightarrow> pl_stores q \<noteq> []"
    "first_problem (addon_problem cat pkg) (pl_mode_addons q) = None" "first_problem (item_problem cat pkg) (LineItems cat q) = None"
proof -
  obtain pkg ok where p: "ct_package cat (pl_package p) = (pkg, ok)" by fastforce
  show ?thesis
    by (rule that [of pkg]) (use assms p in \<open>auto simp: Normalize_def Let_def normal_plan_def name_list_dedupe split: if_splits option.splits\<close>)
qed

lemma Normalize_idem:
  assumes "catalog_keys cat" "Normalize cat p = Inr q"
  shows "Normalize cat q = Inr q"
proof -
  obtain pkg where n: "ct_package cat (pl_package p) = (pkg, True)" "snd (ct_interval cat (pl_interval p))"
    "q = \<lparr>pl_package = pk_key pkg, pl_interval = pl_interval p, pl_games = sort (dedupe to_lower (pl_games p)),
          pl_stores = sort (dedupe to_lower (pl_stores p)), pl_mode_addons = sort (dedupe to_lower (pl_mode_addons p))\<rparr>"
    "normal_plan q" "pk_store_scope pkg = ct_scope_explicit cat \<longleftrightarrow> pl_stores q \<noteq> []"
    "first_problem (addon_problem cat pkg) (pl_mode_addons q) = None" "first_problem (item_problem cat pkg) (LineItems cat q) = None"
    by (rule Normalize_Inr [OF assms(2)])
  have pk: "ct_package cat (pl_package q) = (pkg, True)" using assms(1) n(1,3) by (auto simp: catalog_keys_def)
  have l: "sort (dedupe to_lower (pl_games q)) = pl_games q" "sort (dedupe to_lower (pl_stores q)) = pl_stores q"
    "sort (dedupe to_lower (pl_mode_addons q)) = pl_mode_addons q" using n(4) by (simp_all add: normal_plan_def name_list_fixed)
  have g: "dedupe to_lower (pl_games q) \<noteq> []" using l(1) n(4) by (auto simp: normal_plan_def)
  have q: "\<lparr>pl_package = pk_key pkg, pl_interval = pl_interval q, pl_games = pl_games q, pl_stores = pl_stores q, pl_mode_addons = pl_mode_addons q\<rparr> = q"
    using n(3) by simp
  have "pl_interval q = pl_interval p" using n(3) by simp
  then show ?thesis unfolding Normalize_def pk prod.case Let_def l q using g n(2,5,6,7) by simp
qed

lemma PlanFromMetadata_Metadata:
  assumes "pl_package p \<noteq> []" "pl_interval p \<noteq> []" "is_int64 a" "normal_plan p"
    "list_all (\<lambda>x. comma \<notin> set x) (pl_games p @ pl_stores p @ pl_mode_addons p)"
  shows "PlanFromMetadata (Metadata p a) = Inr (p, a)"
proof -
  have l: "SplitList (join '','' xs) = xs" if "name_list xs" "list_all (\<lambda>x. comma \<notin> set x) xs" for xs
    using that by (intro SplitList_join) (auto simp: name_list_def list_all_iff)
  have m: "meta (Metadata p a) ''package'' = pl_package p" "meta (Metadata p a) ''interval'' = pl_interval p"
    "meta (Metadata p a) ''games'' = join '','' (pl_games p)" "meta (Metadata p a) ''stores'' = join '','' (pl_stores p)"
    "meta (Metadata p a) ''addons'' = join '','' (pl_mode_addons p)" "meta (Metadata p a) ''account_id'' = format_int a"
    by (simp_all add: meta_def Metadata_def)
  show ?thesis unfolding PlanFromMetadata_def m
    using assms by (simp add: l normal_plan_def parse_format_int)
qed


section \<open>Lemmas: amounts\<close>

lemma insert_commas_digits: "filter (\<lambda>c. c \<noteq> comma) (insert_commas i s) = filter (\<lambda>c. c \<noteq> comma) s"
proof (induction i s rule: insert_commas.induct)
  case (1 i s)
  have "filter (\<lambda>c. c \<noteq> comma) (take (nat i) s @ '','' @ drop (nat i) s) = filter (\<lambda>c. c \<noteq> comma) (take (nat i) s @ drop (nat i) s)"
    by (simp only: filter_append) simp
  then have e: "filter (\<lambda>c. c \<noteq> comma) (take (nat i) s @ '','' @ drop (nat i) s) = filter (\<lambda>c. c \<noteq> comma) s"
    by (simp only: append_take_drop_id)
  show ?case
  proof (cases "i > 0")
    case True
    have "insert_commas i s = insert_commas (i - 3) (take (nat i) s @ '','' @ drop (nat i) s)"
      using True insert_commas.simps [of i s] by simp
    then show ?thesis using 1 [OF True] e by (simp only:)
  next
    case False
    then show ?thesis using insert_commas.simps [of i s] by simp
  qed
qed

lemma digits_no_mark: "list_all is_digit s \<Longrightarrow> comma \<notin> set s \<and> CHR ''.'' \<notin> set s"
  by (auto simp: list_all_iff is_digit_def)

lemma digit_chars:
  "digit_char 0 = CHR ''0''" "digit_char 1 = CHR ''1''" "digit_char 2 = CHR ''2''" "digit_char 3 = CHR ''3''" "digit_char 4 = CHR ''4''"
  "digit_char 5 = CHR ''5''" "digit_char 6 = CHR ''6''" "digit_char 7 = CHR ''7''" "digit_char 8 = CHR ''8''" "digit_char 9 = CHR ''9''"
  by code_simp+

lemma hundreds_digits: "m < 100 \<Longrightarrow> nat_digits (100 + m) = CHR ''1'' # [digit_char (m div 10), digit_char (m mod 10)]"
proof -
  assume m: "m < 100"
  have "(100 + m) div 10 = 10 + m div 10" "(10 + m div 10) div 10 = 1" "(10 + m div 10) mod 10 = m div 10"
    using m by (simp_all add: div_add1_eq mod_add_eq)
  moreover have "(100 + m) mod 10 = m mod 10" using mod_mult_self2 [of m 10 10] by (simp add: add.commute)
  moreover note digit_chars(2)
  ultimately show ?thesis using nat_digits.simps [of "100 + m"] nat_digits.simps [of "10 + m div 10"] nat_digits.simps [of 1] by simp
qed

lemma digits_value_two: "d < 10 \<Longrightarrow> e < 10 \<Longrightarrow> digits_value [digit_char d, digit_char e] = 10 * d + e"
  by (simp add: digits_value_def of_char_digit_char)

text \<open>What a reader makes of an amount: the commas dropped, the cents after the point.\<close>

definition read_dollars :: "string \<Rightarrow> int" where
  "read_dollars s =
     (case cut CHR ''.'' (filter (\<lambda>c. c \<noteq> comma) (tl s)) of (whole, frac, found) \<Rightarrow>
        int (100 * digits_value whole + (if found then digits_value frac else 0)))"

lemma read_Dollars:
  assumes "0 \<le> cents"
  shows "read_dollars (Dollars cents) = cents"
proof -
  define n where "n = nat cents"
  have c: "cents = int n" using assms by (simp add: n_def)
  have q: "cents sdiv 100 = int (n div 100)" "cents smod 100 = int (n mod 100)"
    by (cases "n = 0"; simp add: c signed_divide_int_def signed_modulo_int_def zdiv_int zmod_int)+
  let ?w = "nat_digits (n div 100)"
  have w: "format_int (cents sdiv 100) = ?w" unfolding q by (simp add: format_int_def)
  have nc: "comma \<notin> set ?w" "CHR ''.'' \<notin> set ?w" using digits_no_mark [OF nat_digits_all_digit] by auto
  have f: "filter (\<lambda>c. c \<noteq> comma) (insert_commas i ?w) = ?w" for i
    unfolding insert_commas_digits using nc(1) by (intro filter_True) auto
  show ?thesis
  proof (cases "n mod 100 = 0")
    case True
    then have "tl (Dollars cents) = insert_commas (int (length ?w) - 3) ?w" unfolding Dollars_def w Let_def using q(2) by simp
    then show ?thesis unfolding read_dollars_def using True
      using mult_div_mod_eq [of 100 n] by (simp add: f cut_not_found [OF nc(2)] digits_value_nat_digits c)
  next
    case False
    let ?m = "n mod 100"
    have fm: "format_int (100 + cents smod 100) = nat_digits (100 + ?m)" unfolding q by (simp add: format_int_def nat_add_distrib)
    have h: "tl (format_int (100 + cents smod 100)) = [digit_char (?m div 10), digit_char (?m mod 10)]"
      unfolding fm by (subst hundreds_digits) simp_all
    have d: "?m div 10 < 10" "?m mod 10 < 10" by auto
    have "tl (Dollars cents) = insert_commas (int (length ?w) - 3) ?w @ ''.'' @ [digit_char (?m div 10), digit_char (?m mod 10)]"
      unfolding Dollars_def w Let_def h using False q(2) by simp
    moreover have "comma \<notin> set [digit_char (?m div 10), digit_char (?m mod 10)]" using digits_no_mark [of "[digit_char (?m div 10), digit_char (?m mod 10)]"] d by simp
    ultimately have "filter (\<lambda>c. c \<noteq> comma) (tl (Dollars cents)) = ?w @ CHR ''.'' # [digit_char (?m div 10), digit_char (?m mod 10)]"
      by (auto simp: f)
    then have "read_dollars (Dollars cents) = int (100 * (n div 100) + ?m)"
      unfolding read_dollars_def using cut_found [OF nc(2)] digits_value_two [OF d] by (simp only: digits_value_nat_digits prod.case if_True mult_div_mod_eq)
    then show ?thesis unfolding c mult_div_mod_eq .
  qed
qed


section \<open>Lemmas: resolution\<close>

definition picked_families :: "Plan \<Rightarrow> SiteStores \<Rightarrow> StoreFamily list" where
  "picked_families p site = ss_implied site @ filter (\<lambda>f. sf_key f \<in> set (pl_stores p)) (ss_stores site)"

lemma names_fold:
  "fst ` set (foldl (\<lambda>m f. if sf_key f \<in> set (map fst m) then m else m @ [(sf_key f, sf_name f)]) names fs) = fst ` set names \<union> sf_key ` set fs"
  by (induction fs arbitrary: names) (auto split: if_splits)

lemma add_site_names:
  "fst ` set (fst (snd (add_site p site acc))) = fst ` set (fst (snd acc)) \<union> sf_key ` {f \<in> set (ss_stores site). sf_key f \<in> set (pl_stores p)}"
  "set (snd (snd (add_site p site acc))) = set (snd (snd acc)) \<union> (\<Union>f \<in> set (picked_families p site). set (sf_shorthands f))"
  unfolding add_site_def case_prod_beta Let_def fst_conv snd_conv names_fold set_filter
  by (simp_all add: picked_families_def)

lemma ask_sites_Inr:
  "ask_sites ask p gs acc = Inr (implied, names, shorthands) \<Longrightarrow>
     \<exists>sites. map ask gs = map Inr sites \<and>
       fst ` set names = fst ` set (fst (snd acc)) \<union> (\<Union>site \<in> set sites. sf_key ` {f \<in> set (ss_stores site). sf_key f \<in> set (pl_stores p)}) \<and>
       set shorthands = set (snd (snd acc)) \<union> (\<Union>site \<in> set sites. \<Union>f \<in> set (picked_families p site). set (sf_shorthands f))"
proof (induction gs arbitrary: acc)
  case Nil
  then show ?case by (auto intro!: exI [of _ "[]"])
next
  case (Cons g gs)
  obtain site where site: "ask g = Inr site" using Cons.prems by (cases "ask g") auto
  obtain sites where s: "map ask gs = map Inr sites"
    "fst ` set names = fst ` set (fst (snd (add_site p site acc))) \<union> (\<Union>site \<in> set sites. sf_key ` {f \<in> set (ss_stores site). sf_key f \<in> set (pl_stores p)})"
    "set shorthands = set (snd (snd (add_site p site acc))) \<union> (\<Union>site \<in> set sites. \<Union>f \<in> set (picked_families p site). set (sf_shorthands f))"
    using Cons.IH [of "add_site p site acc"] Cons.prems site by auto
  show ?case
    by (rule exI [of _ "site # sites"])
       (use s site in \<open>simp add: add_site_names Un_assoc\<close>)
qed

lemma find_None_all: "find P xs = None \<longleftrightarrow> list_all (\<lambda>x. \<not> P x) xs"
  by (induction xs) auto

lemma Plan_Resolve_explicit:
  assumes "Plan_Resolve cat (Some ask) p = Inr r" "pk_store_scope (fst (ct_package cat (pl_package p))) = ct_scope_explicit cat"
  obtains sites where "map ask (pl_games p) = map Inr sites"
    "\<forall>k \<in> set (pl_stores p). \<exists>site \<in> set sites. k \<in> sf_key ` set (ss_stores site)"
    "\<exists>sh. rz_scope r = join '','' sh \<and> sorted sh \<and> distinct sh \<and> sh \<noteq> [] \<and>
      set sh = trim_space ` (\<Union>site \<in> set sites. \<Union>f \<in> set (picked_families p site). set (sf_shorthands f)) - {[]}"
proof -
  obtain implied names shorthands where a: "ask_sites ask p (pl_games p) ([], [], []) = Inr (implied, names, shorthands)"
    using assms by (cases "ask_sites ask p (pl_games p) ([], [], [])") (auto simp: Plan_Resolve_def Let_def split: prod.splits if_splits)
  have f: "list_all (\<lambda>k. k \<in> set (map fst names)) (pl_stores p)" and sh: "dedupe (\<lambda>s. s) shorthands \<noteq> []"
    "rz_scope r = join '','' (sort (dedupe (\<lambda>s. s) shorthands))"
    using assms a find_None_all [of "\<lambda>k. k \<notin> set (map fst names)" "pl_stores p"]
    by (auto simp: Plan_Resolve_def Let_def split: prod.splits if_splits option.splits)
  obtain sites where s: "map ask (pl_games p) = map Inr sites"
    "fst ` set names = (\<Union>site \<in> set sites. sf_key ` {f \<in> set (ss_stores site). sf_key f \<in> set (pl_stores p)})"
    "set shorthands = (\<Union>site \<in> set sites. \<Union>f \<in> set (picked_families p site). set (sf_shorthands f))"
    using ask_sites_Inr [OF a] by auto
  show ?thesis
  proof (rule that [OF s(1)])
    show "\<forall>k \<in> set (pl_stores p). \<exists>site \<in> set sites. k \<in> sf_key ` set (ss_stores site)"
      using f s(2) unfolding list_all_iff set_map by blast
    show "\<exists>sh. rz_scope r = join '','' sh \<and> sorted sh \<and> distinct sh \<and> sh \<noteq> [] \<and>
        set sh = trim_space ` (\<Union>site \<in> set sites. \<Union>f \<in> set (picked_families p site). set (sf_shorthands f)) - {[]}"
      by (rule exI [of _ "sort (dedupe (\<lambda>s. s) shorthands)"])
         (use sh s(3) in \<open>simp add: distinct_dedupe set_dedupe\<close>)
  qed
qed

section \<open>Properties\<close>

text \<open>C39: What checkout writes on a subscription is what reconcile reads back: the metadata of a
  normalized plan gives back that plan and its account, and the plan normalizes to itself. The
  names are taken to hold no comma, as the games of the configuration and the keys of the catalog
  and the sites do, and the catalog to find a package by its own key.\<close>

theorem Plan_metadata_roundtrip:
  assumes "catalog_keys cat" "Normalize cat p0 = Inr p" "pl_package p \<noteq> []" "pl_interval p \<noteq> []" "is_int64 a"
    "list_all (\<lambda>x. comma \<notin> set x) (pl_games p @ pl_stores p @ pl_mode_addons p)"
  shows "PlanFromMetadata (Metadata p a) = Inr (p, a) \<and> Normalize cat p = Inr p"
proof -
  have "normal_plan p" by (rule Normalize_Inr [OF assms(2)]) auto
  then show ?thesis using PlanFromMetadata_Metadata [OF assms(3,4,5)] assms(6) Normalize_idem [OF assms(1,2)] by simp
qed

text \<open>An amount is shown so that dropping the commas and reading the cents after the point gives
  the amount back; so two different amounts are never shown alike.\<close>

theorem Dollars_reads_back:
  assumes "0 \<le> cents"
  shows "read_dollars (Dollars cents) = cents"
  by (rule read_Dollars [OF assms])

theorem Dollars_reads_back_witness: "Dollars 1234567 = ''$12,345.67'' \<and> read_dollars (Dollars 1234567) = 1234567"
proof -
  have "Dollars 1234567 = ''$12,345.67''"
    by (simp add: Dollars_def Let_def format_int_def nat_digits.simps insert_commas.simps digit_chars digit_chars(2) [simplified] signed_divide_int_def signed_modulo_int_def)
  then show ?thesis using Dollars_reads_back [of 1234567] by simp
qed

text \<open>A plan with picked stores resolves to exactly the shorthands its games' sites list for their
  implied families and for the picked ones, sorted and without repeats, and only when every picked
  store is sold by a site of one of the games.\<close>

theorem Plan_Resolve_scope:
  assumes "Plan_Resolve cat (Some ask) p = Inr r" "pk_store_scope (fst (ct_package cat (pl_package p))) = ct_scope_explicit cat"
  shows "\<exists>sites sh. map ask (pl_games p) = map Inr sites \<and>
    (\<forall>k \<in> set (pl_stores p). \<exists>site \<in> set sites. k \<in> sf_key ` set (ss_stores site)) \<and>
    rz_scope r = join '','' sh \<and> sorted sh \<and> distinct sh \<and> sh \<noteq> [] \<and>
    set sh = trim_space ` (\<Union>site \<in> set sites. \<Union>f \<in> set (picked_families p site). set (sf_shorthands f)) - {[]}"
  by (rule Plan_Resolve_explicit [OF assms]) blast

text \<open>A small catalog, for the witnesses.\<close>

definition sample_catalog :: ProductList where
  "sample_catalog =
     \<lparr>ct_package = (\<lambda>k. (\<lparr>pk_key = ''pro'', pk_name = ''Pro'', pk_store_scope = ''explicit'', pk_included_stores = 1, pk_monthly = 5000,
        pk_modes = [''retail''], pk_lookback_days = 0, pk_history = False\<rparr>, k = ''pro'')),
      ct_interval = (\<lambda>k. (\<lparr>in_key = k, in_interval = ''month'', in_count = 1, in_public = True, in_amount = Inr\<rparr>, k = ''month'')),
      ct_addon = (\<lambda>k. (\<lparr>ad_key = k, ad_name = k, ad_grants_mode = (if k = ''buylist_mode'' then ''buylist'' else []), ad_monthly = 1000, ad_stepped = False, ad_first_monthly = 0, ad_applies_to = [],
        ad_applies = (\<lambda>_. True), ad_amount = (\<lambda>_ q. Inr (1000 * q))\<rparr>, k \<in> {''extra_store'', ''extra_game'', ''buylist_mode''})),
      ct_packages = [], ct_intervals = [], ct_addons = [], ct_currency = ''usd'', ct_included_games = 1, ct_lookup_key = (\<lambda>k iv. k @ ''_'' @ iv), ct_scope_explicit = ''explicit''\<rparr>"

definition sample_choice :: Plan where
  "sample_choice = \<lparr>pl_package = ''pro'', pl_interval = ''month'', pl_games = [''Magic '', ''lorcana''], pl_stores = [''tcg'', ''CK''],
     pl_mode_addons = [''buylist_mode'']\<rparr>"

lemma sample_catalog_keys: "catalog_keys sample_catalog"
  by (simp add: catalog_keys_def sample_catalog_def)

lemma sample_normal:
  "Normalize sample_catalog sample_choice = Inr \<lparr>pl_package = ''pro'', pl_interval = ''month'', pl_games = [''lorcana'', ''magic''],
     pl_stores = [''ck'', ''tcg''], pl_mode_addons = [''buylist_mode'']\<rparr>"
  by code_simp

theorem Plan_metadata_roundtrip_witness:
  "\<exists>p. Normalize sample_catalog sample_choice = Inr p \<and> PlanFromMetadata (Metadata p 7) = Inr (p, 7)"
  using Plan_metadata_roundtrip [OF sample_catalog_keys sample_normal, of 7] sample_normal by (simp add: is_int64_def)

definition sample_site :: "string \<Rightarrow> string + SiteStores" where
  "sample_site g = Inr \<lparr>ss_game = g, ss_implied = [\<lparr>sf_key = ''mkm'', sf_name = ''MKM'', sf_shorthands = [''MKMTrend'', ''MKMLow'']\<rparr>],
     ss_stores = [\<lparr>sf_key = ''ck'', sf_name = ''Card Kingdom'', sf_shorthands = [''CK'']\<rparr>, \<lparr>sf_key = ''tcg'', sf_name = ''TCG'', sf_shorthands = [''TCGLow'']\<rparr>]\<rparr>"

theorem Plan_Resolve_scope_witness:
  "\<exists>p r. Normalize sample_catalog sample_choice = Inr p \<and> Plan_Resolve sample_catalog (Some sample_site) p = Inr r \<and>
     rz_scope r = ''CK,MKMLow,MKMTrend,TCGLow'' \<and> (\<exists>sh. rz_scope r = join '','' sh \<and> sorted sh)"
proof -
  let ?p = "\<lparr>pl_package = ''pro'', pl_interval = ''month'', pl_games = [''lorcana'', ''magic''], pl_stores = [''ck'', ''tcg''], pl_mode_addons = [''buylist_mode'']\<rparr>"
  have "map_sum id rz_scope (Plan_Resolve sample_catalog (Some sample_site) ?p) = Inr ''CK,MKMLow,MKMTrend,TCGLow''" by code_simp
  then obtain r where r: "Plan_Resolve sample_catalog (Some sample_site) ?p = Inr r" "rz_scope r = ''CK,MKMLow,MKMTrend,TCGLow''"
    by (cases "Plan_Resolve sample_catalog (Some sample_site) ?p") auto
  have "pk_store_scope (fst (ct_package sample_catalog (pl_package ?p))) = ct_scope_explicit sample_catalog" by (simp add: sample_catalog_def)
  from Plan_Resolve_scope [OF r(1) this] obtain sh where "rz_scope r = join '','' sh" "sorted sh" by (elim exE conjE)
  then show ?thesis using r sample_normal by (intro exI [of _ ?p] exI [of _ r] conjI exI [of _ sh]) assumption+
qed

end
