(* ===== verification/Billing_Reconcile.thy ===== *)
theory Billing_Reconcile
  imports Store_System Billing_Plan
begin

text \<open>
  \<open>src/billing/reconcile.go\<close>: how a Stripe subscription becomes an entitlement row, one at a time and
  in a full pass, and \<open>subscription.go\<close>. Stripe is a parameter: what it answers for a subscription
  and for the listing. The per-subscription lock makes each fetch and its upsert one step, so the
  steps of different subscriptions are a sequence. Alerts and reload notifications are recorded in
  the state; the log is left out.
\<close>

section \<open>Stripe's data\<close>

datatype SubscriptionStatus = SubscriptionActive | SubscriptionTrialing | SubscriptionPastDue | SubscriptionStatusOther string

record Price =
  pr_id :: string
  pr_lookup_key :: string
  pr_active :: bool
  pr_metadata :: "(string \<times> string) list"

record SubscriptionItem =
  si_id :: string
  si_price :: "Price option"
  si_quantity :: int
  si_period_start :: int

record Subscription =
  sb_id :: string
  sb_status :: SubscriptionStatus
  sb_metadata :: "(string \<times> string) list"
  sb_customer :: "string option"
  sb_items :: "SubscriptionItem list"
  sb_ended_at :: int

section \<open>The reconciler\<close>

datatype billing_alert =
    AlertFailed string billing_error
  | AlertItems string "(string \<times> int) list" "(string \<times> int) list"
  | AlertStores string billing_error
  | AlertDuplicates int "string list"
  | AlertDuplicateCheck billing_error

record Reconciler =
  rc_catalog :: ProductList
  rc_stores :: "(string \<Rightarrow> string + SiteStores) option"
  rc_grace :: duration

text \<open>The tables, what was alerted, and how many reload notifications went out. \<open>bs_now\<close> is the clock.\<close>

record bstate =
  bs_db :: db
  bs_now :: time
  bs_alerts :: "billing_alert list"
  bs_reloads :: nat

type_synonym 'a bop = "bstate \<Rightarrow> (billing_error + 'a) \<times> bstate"

definition in_store :: "'a op \<Rightarrow> 'a bop" where
  "in_store f s = (case f (bs_db s) of (Inl e, d) \<Rightarrow> (Inl (StoreError e), s\<lparr>bs_db := d\<rparr>) | (Inr x, d) \<Rightarrow> (Inr x, s\<lparr>bs_db := d\<rparr>))"

definition alertf :: "billing_alert \<Rightarrow> bstate \<Rightarrow> bstate" where
  "alertf a s = s\<lparr>bs_alerts := bs_alerts s @ [a]\<rparr>"

text \<open>A reload notification is one statement; its failure is only logged.\<close>

definition reload :: "bstate \<Rightarrow> bstate" where
  "reload s = (case in_store driver_call s of (Inl _, s') \<Rightarrow> s' | (Inr _, s') \<Rightarrow> s'\<lparr>bs_reloads := bs_reloads s' + 1\<rparr>)"

definition isPermanent :: "billing_error \<Rightarrow> bool" where
  "isPermanent e \<longleftrightarrow> (case e of ErrStoresUnavailable _ \<Rightarrow> False | _ \<Rightarrow> e = ErrNoPlan \<or> e = ErrNoAccount \<or> IsValidation e)"

definition failed :: "Subscription \<Rightarrow> billing_error \<Rightarrow> bool \<Rightarrow> 'a bop" where
  "failed sub err pass s = (Inl err, if pass then s else alertf (AlertFailed (sb_id sub) err) s)"

definition MapStatus :: "SubscriptionStatus \<Rightarrow> time \<Rightarrow> time \<Rightarrow> duration \<Rightarrow> time \<Rightarrow> EntitlementStatus \<times> time option" where
  "MapStatus status period_start ended_at grace now =
     (case status of
        SubscriptionActive \<Rightarrow> (EntitlementActive, None)
      | SubscriptionTrialing \<Rightarrow> (EntitlementActive, None)
      | SubscriptionPastDue \<Rightarrow> (EntitlementActive, Some (period_start + grace))
      | SubscriptionStatusOther _ \<Rightarrow> (EntitlementEnded, Some (if ended_at = zero_time then now else ended_at)))"

definition subPeriodStart :: "Subscription \<Rightarrow> time \<Rightarrow> time \<times> bool" where
  "subPeriodStart sub now =
     (let start = foldl max 0 (map si_period_start (sb_items sub)) in
      if start = 0 then (now, False) else (start * second, True))"

definition subEndedAt :: "Subscription \<Rightarrow> time" where
  "subEndedAt sub = (if sb_ended_at sub = 0 then zero_time else sb_ended_at sub * second)"

definition priceLookupKey :: "ProductList \<Rightarrow> Price \<Rightarrow> string" where
  "priceLookupKey cat p =
     (if pr_lookup_key p \<noteq> [] then pr_lookup_key p
      else let item = (if meta (pr_metadata p) ''package'' \<noteq> [] then meta (pr_metadata p) ''package'' else meta (pr_metadata p) ''addon'');
               iv = meta (pr_metadata p) ''interval_key''
           in if item = [] \<or> iv = [] then [] else ct_lookup_key cat item iv)"

definition planItems :: "ProductList \<Rightarrow> Plan \<Rightarrow> (string \<times> int) list" where
  "planItems cat plan = foldl (\<lambda>m li. AList.update (li_lookup_key li) (li_quantity li) m) [] (LineItems cat plan)"

definition count_item :: "ProductList \<Rightarrow> (string \<times> int) list \<Rightarrow> SubscriptionItem \<Rightarrow> (string \<times> int) list" where
  "count_item cat m it =
     (case si_price it of
        None \<Rightarrow> m
      | Some p \<Rightarrow> let k = priceLookupKey cat p in
          AList.update k ((case map_of m k of Some n \<Rightarrow> n | None \<Rightarrow> 0) + si_quantity it) m)"

text \<open>\<open>None\<close> when the items match; else the items found and the ones the plan wants.\<close>

definition itemMismatch :: "ProductList \<Rightarrow> Plan \<Rightarrow> Subscription \<Rightarrow> ((string \<times> int) list \<times> (string \<times> int) list) option" where
  "itemMismatch cat plan sub =
     (let want = planItems cat plan; got = foldl (count_item cat) [] (sb_items sub) in
      if set want = set got then None else Some (got, want))"

definition by_customer :: "Subscription \<Rightarrow> Account bop" where
  "by_customer sub s =
     (case sb_customer sub of
        Some c \<Rightarrow>
          if c = [] then (Inl ErrNoAccount, s)
          else (case in_store (GetAccountByStripeCustomer c) s of
              (Inl (StoreError ErrNotFound), s') \<Rightarrow> (Inl ErrNoAccount, s')
            | r \<Rightarrow> r)
      | None \<Rightarrow> (Inl ErrNoAccount, s))"

definition findAccount :: "int \<Rightarrow> Subscription \<Rightarrow> Account bop" where
  "findAccount account_id sub s =
     (if account_id \<noteq> 0 then
        (case in_store (GetAccount account_id) s of
           (Inl (StoreError ErrNotFound), s') \<Rightarrow> by_customer sub s'
         | r \<Rightarrow> r)
      else by_customer sub s)"

text \<open>
  The scope and modes of the row: the resolved ones, or for an ended subscription with picked
  stores the store keys themselves when the sites cannot be asked.
\<close>

definition plan_scope :: "Reconciler \<Rightarrow> Plan \<Rightarrow> EntitlementStatus \<Rightarrow> Subscription \<Rightarrow> bool \<Rightarrow> (string \<times> string list) bop" where
  "plan_scope rc plan status sub pass s =
     (case Plan_Resolve (rc_catalog rc) (rc_stores rc) plan of
        Inr r \<Rightarrow> (Inr (rz_scope r, rz_modes r), s)
      | Inl err \<Rightarrow>
          if status \<noteq> EntitlementEnded \<or> pl_stores plan = [] then failed sub err pass s
          else (Inr (join '','' (pl_stores plan),
                     planModes (rc_catalog rc) (fst (ct_package (rc_catalog rc) (pl_package plan))) (pl_mode_addons plan)),
                alertf (AlertStores (sb_id sub) err) s))"

definition status_of :: "Reconciler \<Rightarrow> Subscription \<Rightarrow> time \<Rightarrow> EntitlementStatus \<times> time option" where
  "status_of rc sub now =
     (case subPeriodStart sub now of (start, has_start) \<Rightarrow>
        MapStatus (sb_status sub) start (subEndedAt sub) (if has_start then rc_grace rc else 0) now)"

definition plan_row :: "Reconciler \<Rightarrow> Subscription \<Rightarrow> Plan \<Rightarrow> Account \<Rightarrow> string \<times> string list \<Rightarrow> time \<Rightarrow> Entitlement" where
  "plan_row rc sub plan account sm now =
     empty_entitlement\<lparr>e_account_id := a_id account, e_source := SourceStripe, e_games := pl_games plan, e_store_scope := fst sm,
       e_modes := snd sm, e_addons := Addons (rc_catalog rc) plan, e_status := fst (status_of rc sub now),
       e_valid_until := snd (status_of rc sub now), e_external_ref := sb_id sub, e_note := Describe (rc_catalog rc) plan,
       e_lookback_days := pk_lookback_days (fst (ct_package (rc_catalog rc) (pl_package plan)))\<rparr>"

definition note_items :: "Reconciler \<Rightarrow> Plan \<Rightarrow> Subscription \<Rightarrow> bstate \<Rightarrow> bstate" where
  "note_items rc plan sub s =
     (case itemMismatch (rc_catalog rc) plan sub of
        None \<Rightarrow> s
      | Some (got, want) \<Rightarrow> alertf (AlertItems (sb_id sub) got want) s)"

definition apply_sub :: "Reconciler \<Rightarrow> Subscription \<Rightarrow> bool \<Rightarrow> unit bop" where
  "apply_sub rc sub pass s0 =
     (case PlanFromMetadata (sb_metadata sub) of
        Inl err \<Rightarrow> failed sub err pass s0
      | Inr (plan0, account_id) \<Rightarrow>
          (case findAccount account_id sub s0 of
             (Inl err, s1) \<Rightarrow> failed sub err pass s1
           | (Inr account, s1) \<Rightarrow>
               (case Normalize (rc_catalog rc) plan0 of
                  Inl err \<Rightarrow> failed sub err pass s1
                | Inr plan \<Rightarrow>
                    let s2 = note_items rc plan sub s1; now = bs_now s2 in
                    (case plan_scope rc plan (fst (status_of rc sub now)) sub pass s2 of
                       (Inl err, s3) \<Rightarrow> (Inl err, s3)
                     | (Inr sm, s3) \<Rightarrow>
                         (case in_store (UpsertStripeEntitlement now (plan_row rc sub plan account sm now)) s3 of
                            (Inl err, s4) \<Rightarrow> (Inl err, s4)
                          | (Inr row, s4) \<Rightarrow> (Inr (), if pass then s4 else reload s4))))))"

definition fetchAndApply :: "Reconciler \<Rightarrow> (string \<Rightarrow> string + Subscription) \<Rightarrow> string \<Rightarrow> bool \<Rightarrow> unit bop" where
  "fetchAndApply rc get sub_id pass s =
     (case get sub_id of Inl err \<Rightarrow> (Inl (ApiError err), s) | Inr sub \<Rightarrow> apply_sub rc sub pass s)"

definition Reconcile_Subscription :: "Reconciler \<Rightarrow> (string \<Rightarrow> string + Subscription) \<Rightarrow> string \<Rightarrow> unit bop" where
  "Reconcile_Subscription rc get sub_id = fetchAndApply rc get sub_id False"

section \<open>A full pass\<close>

record Result =
  rs_checked :: int
  rs_failed :: int
  rs_errors :: "billing_error list"
  rs_duplicates :: int

definition maxSummaryErrors :: nat where "maxSummaryErrors = 5"

definition record_result :: "Result \<Rightarrow> billing_error + unit \<Rightarrow> Result" where
  "record_result res r =
     (let res1 = res\<lparr>rs_checked := rs_checked res + 1\<rparr> in
      case r of Inr _ \<Rightarrow> res1 | Inl err \<Rightarrow> res1\<lparr>rs_failed := rs_failed res1 + 1, rs_errors := rs_errors res1 @ [err]\<rparr>)"

fun apply_each :: "Reconciler \<Rightarrow> (string \<Rightarrow> string + Subscription) \<Rightarrow> string list \<Rightarrow> Result \<Rightarrow> bstate \<Rightarrow> Result \<times> bstate" where
  "apply_each rc get [] res s = (res, s)"
| "apply_each rc get (i # is) res s =
     (case fetchAndApply rc get i True s of (r, s') \<Rightarrow> apply_each rc get is (record_result res r) s')"

text \<open>The accounts with more than one active row, in order, and an alert for each.\<close>

definition duplicate_alerts :: "(int \<times> string) list \<Rightarrow> billing_alert list" where
  "duplicate_alerts refs =
     map (\<lambda>a. AlertDuplicates a (sort (map snd (filter (\<lambda>r. fst r = a) refs))))
       (filter (\<lambda>a. 1 < length (filter (\<lambda>r. fst r = a) refs)) (sort (remdups (map fst refs))))"

definition alertDuplicates :: "(int \<times> string) list \<Rightarrow> bstate \<Rightarrow> int \<times> bstate" where
  "alertDuplicates refs s =
     (int (length (duplicate_alerts refs)), foldl (\<lambda>s a. alertf a s) s (duplicate_alerts refs))"

definition Reconcile_All :: "Reconciler \<Rightarrow> (string \<Rightarrow> string + Subscription) \<Rightarrow> string + Subscription list \<Rightarrow> bstate \<Rightarrow>
    Result \<times> billing_error option \<times> bstate" where
  "Reconcile_All rc get listing s0 =
     (let res0 = \<lparr>rs_checked = 0, rs_failed = 0, rs_errors = [], rs_duplicates = 0\<rparr> in
      case listing of
        Inl err \<Rightarrow> (res0, Some (ApiError err), s0)
      | Inr subs \<Rightarrow>
          (case apply_each rc get (map sb_id subs) res0 s0 of (res1, s1) \<Rightarrow>
             (case in_store ListActiveStripeRefs s1 of
                (Inl err, s2) \<Rightarrow> (res1, Some err, s2)
              | (Inr refs, s2) \<Rightarrow>
                  (case apply_each rc get (filter (\<lambda>i. i \<notin> set (map sb_id subs)) (map snd refs)) res1 s2 of (res2, s3) \<Rightarrow>
                     let s4 = (if rs_checked res2 > 0 then reload s3 else s3) in
                     (case in_store ListActiveStripeRefs s4 of
                        (Inl err, s5) \<Rightarrow> (res2, None, alertf (AlertDuplicateCheck err) s5)
                      | (Inr refs2, s5) \<Rightarrow>
                          (case alertDuplicates refs2 s5 of (n, s6) \<Rightarrow> (res2\<lparr>rs_duplicates := n\<rparr>, None, s6)))))))"

section \<open>The subscription of an account\<close>

definition SubscriptionFor :: "Entitlement list \<Rightarrow> billing_error + string" where
  "SubscriptionFor ents =
     (case map e_external_ref (filter (\<lambda>e. IsActiveStripePlan e \<and> e_external_ref e \<noteq> []) ents) of
        [] \<Rightarrow> Inl NoSubscription
      | [ref] \<Rightarrow> Inr ref
      | _ \<Rightarrow> Inl ErrManySubscriptions)"

section \<open>Lemmas: the store\<close>

lemma prepareEntitlement_keeps:
  assumes "prepareEntitlement now e = Inr (e', until, ext)"
  shows "e_account_id e' = e_account_id e" "e_source e' = e_source e" "e_games e' = e_games e"
    "e_status e = EntitlementActive \<or> e_status e = EntitlementEnded \<Longrightarrow> e_status e' = e_status e"
proof -
  obtain e1 where c: "CanonicalEntitlement e = Inr e1" using assms by (auto simp: prepareEntitlement_def split: sum.splits)
  have "e_account_id e1 = e_account_id e" "e_source e1 = e_source e" "e_games e1 = e_games e" "e_status e1 = e_status e"
    using arg_cong [OF CanonicalEntitlement_keeps [OF c], of e_account_id] arg_cong [OF CanonicalEntitlement_keeps [OF c], of e_source]
      arg_cong [OF CanonicalEntitlement_keeps [OF c], of e_games] arg_cong [OF CanonicalEntitlement_keeps [OF c], of e_status] by simp_all
  then show "e_account_id e' = e_account_id e" "e_source e' = e_source e" "e_games e' = e_games e"
    "e_status e = EntitlementActive \<or> e_status e = EntitlementEnded \<Longrightarrow> e_status e' = e_status e"
    using assms c by (auto simp: prepareEntitlement_def Let_def split: if_splits)
qed

lemma Upsert_Inr_prepared:
  assumes "UpsertStripeEntitlement now e d = (Inr row, d')"
  obtains e' until ext where "prepareEntitlement now e = Inr (e', until, ext)" "e_external_ref e \<noteq> []"
proof -
  have ref: "e_external_ref e \<noteq> []" using assms by (auto simp: UpsertStripeEntitlement_def fail_def)
  then obtain p where "prepareEntitlement now e = Inr p"
    using assms by (cases "prepareEntitlement now e") (auto simp: UpsertStripeEntitlement_def prepared_def fail_def and_then_def)
  then show ?thesis using that ref by (cases p) auto
qed

text \<open>The rows of one reference after its upsert follow the new row; the others are as they were.\<close>

lemma Upsert_effect:
  assumes nf: "db_faults d = []" and st: "e_status e = EntitlementActive \<or> e_status e = EntitlementEnded"
    and u: "UpsertStripeEntitlement now e d = (Inr row, d')"
  shows "\<forall>r \<in> set (by_ref (e_external_ref e) d'). e_status r = e_status e \<and> e_valid_until r = e_valid_until e \<and>
      e_account_id r = e_account_id e \<and> e_source r = e_source e \<and> e_games r = e_games e"
    "by_ref (e_external_ref e) d' \<noteq> []"
    "ref \<noteq> e_external_ref e \<Longrightarrow> by_ref ref d' = by_ref ref d" "db_faults d' = []"
proof -
  obtain e' until ext where p: "prepareEntitlement now e = Inr (e', until, ext)" "e_external_ref e \<noteq> []"
    by (rule Upsert_Inr_prepared [OF u])
  note k = prepareEntitlement_keeps [OF p(1)] and b = Upsert_by_ref [OF nf p u]
  have v: "until = e_valid_until e" using prepareEntitlement_Inr(3) [OF p(1)] .
  show "\<forall>r \<in> set (by_ref (e_external_ref e) d'). e_status r = e_status e \<and> e_valid_until r = e_valid_until e \<and>
      e_account_id r = e_account_id e \<and> e_source r = e_source e \<and> e_games r = e_games e"
    unfolding b(1) using k st v by (auto simp: entitlement_row_def upsert_row_def)
  show "by_ref (e_external_ref e) d' \<noteq> []" unfolding b(1) by simp
  show "ref \<noteq> e_external_ref e \<Longrightarrow> by_ref ref d' = by_ref ref d" by (rule b(2))
  show "db_faults d' = []" by (rule Upsert_no_fault(2) [OF nf p u])
qed

section \<open>Lemmas: one subscription\<close>

lemma in_store_query_no_fault: "db_faults (bs_db s) = [] \<Longrightarrow> snd (in_store (stmt (\<lambda>d. (F d, d))) s) = s"
  by (cases "F (bs_db s)") (simp_all add: in_store_def stmt_no_fault)

lemma in_store_GetAccount: "db_faults (bs_db s) = [] \<Longrightarrow> snd (in_store (GetAccount i) s) = s"
  "db_faults (bs_db s) = [] \<Longrightarrow> snd (in_store (GetAccountByStripeCustomer c) s) = s"
  unfolding GetAccount_def GetAccountByStripeCustomer_def select_account_def by (rule in_store_query_no_fault, assumption)+

lemma by_customer_no_fault: "db_faults (bs_db s) = [] \<Longrightarrow> snd (by_customer sub s) = s"
proof (cases "sb_customer sub")
  case (Some c)
  assume nf: "db_faults (bs_db s) = []"
  obtain r s' where g: "in_store (GetAccountByStripeCustomer c) s = (r, s')" by fastforce
  then have "s' = s" using in_store_GetAccount(2) [OF nf, of c] by simp
  then show ?thesis using Some g by (auto simp: by_customer_def split: sum.splits billing_error.splits access_error.splits)
qed (simp add: by_customer_def)

lemma findAccount_no_fault: "db_faults (bs_db s) = [] \<Longrightarrow> snd (findAccount i sub s) = s"
proof -
  assume nf: "db_faults (bs_db s) = []"
  obtain r s' where g: "in_store (GetAccount i) s = (r, s')" by fastforce
  then have "s' = s" using in_store_GetAccount(1) [OF nf, of i] by simp
  then show ?thesis using g by_customer_no_fault [OF nf, of sub]
    by (auto simp: findAccount_def split: sum.splits billing_error.splits access_error.splits)
qed

lemma reload_no_fault: "db_faults (bs_db s) = [] \<Longrightarrow> bs_db (reload s) = bs_db s \<and> bs_now (reload s) = bs_now s"
  by (simp add: reload_def in_store_def driver_call_def stmt_no_fault)

lemma note_items_db [simp]: "bs_db (note_items rc plan sub s) = bs_db s" "bs_now (note_items rc plan sub s) = bs_now s"
  by (simp_all add: note_items_def alertf_def split: option.splits)

lemma plan_scope_db: "plan_scope rc plan st sub pass s = (r, s') \<Longrightarrow> bs_db s' = bs_db s \<and> bs_now s' = bs_now s"
  by (auto simp: plan_scope_def failed_def alertf_def split: sum.splits if_splits)

text \<open>A subscription that was applied: what the plan, the account and the scope were, and the upsert.\<close>

lemma apply_sub_Inr:
  assumes nf: "db_faults (bs_db s) = []" and a: "apply_sub rc sub pass s = (Inr (), s')"
  obtains plan0 account_id plan account sm row where
    "PlanFromMetadata (sb_metadata sub) = Inr (plan0, account_id)" "Normalize (rc_catalog rc) plan0 = Inr plan"
    "fst (findAccount account_id sub s) = Inr account" "bs_now s' = bs_now s"
    "UpsertStripeEntitlement (bs_now s) (plan_row rc sub plan account sm (bs_now s)) (bs_db s) = (Inr row, bs_db s')"
proof -
  obtain plan0 account_id where p: "PlanFromMetadata (sb_metadata sub) = Inr (plan0, account_id)"
    using a by (cases "PlanFromMetadata (sb_metadata sub)") (auto simp: apply_sub_def failed_def)
  obtain ra s1 where f: "findAccount account_id sub s = (ra, s1)" by fastforce
  have s1: "s1 = s" using findAccount_no_fault [OF nf, of account_id sub] f by simp
  obtain account where ra: "ra = Inr account" using a p f by (cases ra) (auto simp: apply_sub_def failed_def)
  obtain plan where n: "Normalize (rc_catalog rc) plan0 = Inr plan"
    using a p f ra by (cases "Normalize (rc_catalog rc) plan0") (auto simp: apply_sub_def failed_def)
  let ?s2 = "note_items rc plan sub s"
  obtain rs s3 where ps: "plan_scope rc plan (fst (status_of rc sub (bs_now s))) sub pass ?s2 = (rs, s3)" by fastforce
  obtain sm where sm: "rs = Inr sm" using a p f s1 ra n ps by (cases rs) (auto simp: apply_sub_def Let_def)
  have s3: "bs_db s3 = bs_db s" "bs_now s3 = bs_now s" using plan_scope_db [OF ps] by simp_all
  let ?u = "UpsertStripeEntitlement (bs_now s) (plan_row rc sub plan account sm (bs_now s))"
  obtain ru d where u: "?u (bs_db s) = (ru, d)" by fastforce
  obtain row where row: "ru = Inr row" using a p f s1 ra n ps sm s3 u by (cases ru) (auto simp: apply_sub_def Let_def in_store_def)
  have nf4: "db_faults d = []"
  proof -
    obtain e' until ext where q: "prepareEntitlement (bs_now s) (plan_row rc sub plan account sm (bs_now s)) = Inr (e', until, ext)"
      "e_external_ref (plan_row rc sub plan account sm (bs_now s)) \<noteq> []" by (rule Upsert_Inr_prepared [OF u [unfolded row]])
    show ?thesis by (rule Upsert_no_fault(2) [OF nf q u [unfolded row]])
  qed
  have "s' = (if pass then s3\<lparr>bs_db := d\<rparr> else reload (s3\<lparr>bs_db := d\<rparr>))"
    using a p f s1 ra n ps sm s3 u row by (auto simp: apply_sub_def Let_def in_store_def)
  then have "bs_db s' = d" "bs_now s' = bs_now s" using reload_no_fault [of "s3\<lparr>bs_db := d\<rparr>"] nf4 s3 by auto
  then show ?thesis using that p n f s1 ra u row by auto
qed


lemma status_of_cases: "fst (status_of rc sub now) = EntitlementActive \<or> fst (status_of rc sub now) = EntitlementEnded"
  by (auto simp: status_of_def MapStatus_def split: prod.splits SubscriptionStatus.splits)

lemma plan_row_fields [simp]:
  "e_external_ref (plan_row rc sub plan account sm now) = sb_id sub" "e_status (plan_row rc sub plan account sm now) = fst (status_of rc sub now)"
  "e_valid_until (plan_row rc sub plan account sm now) = snd (status_of rc sub now)" "e_account_id (plan_row rc sub plan account sm now) = a_id account"
  "e_source (plan_row rc sub plan account sm now) = SourceStripe" "e_games (plan_row rc sub plan account sm now) = pl_games plan"
  by (simp_all add: plan_row_def)

lemma apply_sub_effect:
  assumes nf: "db_faults (bs_db s) = []" and a: "apply_sub rc sub pass s = (Inr (), s')"
  shows "by_ref (sb_id sub) (bs_db s') \<noteq> []" "db_faults (bs_db s') = []" "bs_now s' = bs_now s"
    "\<forall>e \<in> set (by_ref (sb_id sub) (bs_db s')). e_source e = SourceStripe \<and> e_status e = fst (status_of rc sub (bs_now s)) \<and>
       e_valid_until e = snd (status_of rc sub (bs_now s))"
    "ref \<noteq> sb_id sub \<Longrightarrow> by_ref ref (bs_db s') = by_ref ref (bs_db s)"
proof -
  obtain plan0 account_id plan account sm row where "bs_now s' = bs_now s" and
    u: "UpsertStripeEntitlement (bs_now s) (plan_row rc sub plan account sm (bs_now s)) (bs_db s) = (Inr row, bs_db s')"
    by (rule apply_sub_Inr [OF assms])
  moreover note Upsert_effect [OF nf _ u, simplified, OF status_of_cases]
  ultimately show "by_ref (sb_id sub) (bs_db s') \<noteq> []" "db_faults (bs_db s') = []" "bs_now s' = bs_now s"
    "\<forall>e \<in> set (by_ref (sb_id sub) (bs_db s')). e_source e = SourceStripe \<and> e_status e = fst (status_of rc sub (bs_now s)) \<and>
       e_valid_until e = snd (status_of rc sub (bs_now s))"
    "ref \<noteq> sb_id sub \<Longrightarrow> by_ref ref (bs_db s') = by_ref ref (bs_db s)" by auto
qed

text \<open>What a subscription's status gives its holder at a time \<open>t\<close>, when it was read at \<open>now\<close>.\<close>

definition sub_access :: "Reconciler \<Rightarrow> Subscription \<Rightarrow> time \<Rightarrow> time \<Rightarrow> bool" where
  "sub_access rc sub now t =
     (case sb_status sub of
        SubscriptionActive \<Rightarrow> True
      | SubscriptionTrialing \<Rightarrow> True
      | SubscriptionPastDue \<Rightarrow>
          (if foldl max 0 (map si_period_start (sb_items sub)) = 0 then t < now
           else t < foldl max 0 (map si_period_start (sb_items sub)) * second + rc_grace rc)
      | SubscriptionStatusOther _ \<Rightarrow> False)"

lemma status_access:
  assumes "e_status e = fst (status_of rc sub now)" "e_valid_until e = snd (status_of rc sub now)"
  shows "ActiveAt e t \<longleftrightarrow> e_valid_from e \<le> t \<and> sub_access rc sub now t"
  using assms by (auto simp: ActiveAt_def status_of_def MapStatus_def subPeriodStart_def sub_access_def Let_def
      split: SubscriptionStatus.splits if_splits)

section \<open>Lemmas: a pass\<close>

definition over :: "Subscription \<Rightarrow> bool" where
  "over sub \<longleftrightarrow> (case sb_status sub of SubscriptionStatusOther _ \<Rightarrow> True | _ \<Rightarrow> False)"

lemma over_ended: "over sub \<longleftrightarrow> fst (status_of rc sub now) = EntitlementEnded"
  by (auto simp: over_def status_of_def MapStatus_def split: SubscriptionStatus.splits prod.splits)

text \<open>Every active Stripe row whose reference is among those given is one that Stripe does not say is over.\<close>

definition settled :: "(string \<Rightarrow> string + Subscription) \<Rightarrow> string set \<Rightarrow> db \<Rightarrow> bool" where
  "settled get ids d \<longleftrightarrow> (\<forall>i \<in> ids. \<forall>e \<in> set (by_ref i d). e_status e = EntitlementActive \<longrightarrow>
     (\<exists>sub. get i = Inr sub \<and> \<not> over sub))"

lemma record_result_failed: "rs_failed (record_result res r) = rs_failed res + (if isl r then 1 else 0)"
  by (cases r) (simp_all add: record_result_def Let_def)

lemma apply_each_failed_mono: "rs_failed res \<le> rs_failed (fst (apply_each rc get is res s))"
proof (induction "is" arbitrary: res s)
  case (Cons i "is")
  obtain r s' where f: "fetchAndApply rc get i True s = (r, s')" by fastforce
  show ?case using Cons.IH [of "record_result res r" s'] f by (simp add: record_result_failed split: if_splits)
qed simp

lemma apply_each_settles:
  assumes ids: "\<forall>i sub. get i = Inr sub \<longrightarrow> sb_id sub = i"
  shows "db_faults (bs_db s) = [] \<Longrightarrow> settled get seen (bs_db s) \<Longrightarrow> rs_failed (fst (apply_each rc get xs res s)) = rs_failed res \<Longrightarrow>
    settled get (seen \<union> set xs) (bs_db (snd (apply_each rc get xs res s))) \<and> db_faults (bs_db (snd (apply_each rc get xs res s))) = [] \<and>
    (\<forall>ref. ref \<notin> set xs \<longrightarrow> by_ref ref (bs_db (snd (apply_each rc get xs res s))) = by_ref ref (bs_db s))"
proof (induction xs arbitrary: res s seen)
  case (Cons i xs)
  obtain r s' where f: "fetchAndApply rc get i True s = (r, s')" by fastforce
  have step: "apply_each rc get (i # xs) res s = apply_each rc get xs (record_result res r) s'" by (simp add: f)
  have fl: "rs_failed res = rs_failed (record_result res r)"
    using apply_each_failed_mono [of "record_result res r" rc get xs s'] Cons.prems(3) unfolding step
    by (simp add: record_result_failed split: if_splits)
  then have "r = Inr ()" by (cases r) (simp_all add: record_result_failed)
  then obtain sub where g: "get i = Inr sub" and a: "apply_sub rc sub True s = (Inr (), s')"
    using f by (cases "get i") (auto simp: fetchAndApply_def)
  have i: "sb_id sub = i" using ids g by blast
  note e = apply_sub_effect [OF Cons.prems(1) a, unfolded i]
  have "settled get ({i} \<union> seen) (bs_db s')"
    unfolding settled_def
  proof (intro ballI impI)
    fix j x assume j: "j \<in> {i} \<union> seen" and x: "x \<in> set (by_ref j (bs_db s'))" "e_status x = EntitlementActive"
    show "\<exists>sub. get j = Inr sub \<and> \<not> over sub"
    proof (cases "j = i")
      case True
      then have "fst (status_of rc sub (bs_now s)) = EntitlementActive" using e(4) x by auto
      then show ?thesis using True g over_ended [of sub rc "bs_now s"] by auto
    next
      case False
      then show ?thesis using j x e(5) [of j] Cons.prems(2) unfolding settled_def by auto
    qed
  qed
  from Cons.IH [OF e(2) this, of "record_result res r"] Cons.prems(3) fl e(5) show ?case unfolding step by auto
qed simp


definition active_refs :: "db \<Rightarrow> (int \<times> string) list" where
  "active_refs d = sort_key fst (sort_key snd (map (\<lambda>e. (e_account_id e, e_external_ref e))
     (filter (\<lambda>e. e_source e = SourceStripe \<and> e_status e = EntitlementActive \<and> e_external_ref e \<noteq> []) (db_entitlements d))))"

lemma in_store_ListActiveStripeRefs: "db_faults (bs_db s) = [] \<Longrightarrow> in_store ListActiveStripeRefs s = (Inr (active_refs (bs_db s)), s)"
  by (simp add: in_store_def ListActiveStripeRefs_def stmt_no_fault active_refs_def)

lemma active_refs_iff:
  "i \<in> set (map snd (active_refs d)) \<longleftrightarrow> (\<exists>e \<in> set (by_ref i d). e_source e = SourceStripe \<and> e_status e = EntitlementActive \<and> i \<noteq> [])"
  by (auto simp: active_refs_def by_ref_def image_iff)

lemma foldl_alertf_db [simp]: "bs_db (foldl (\<lambda>s a. alertf a s) s as) = bs_db s"
  by (induction as arbitrary: s) (simp_all add: alertf_def)

lemma Reconcile_All_phases:
  assumes ids: "\<forall>i sub. get i = Inr sub \<longrightarrow> sb_id sub = i" and nf: "db_faults (bs_db s) = []"
    and r: "Reconcile_All rc get (Inr subs) s = (res, err, s')" and f: "rs_failed res = 0"
  shows "err = None" "settled get (set (map sb_id subs) \<union> set (map snd (active_refs (bs_db s')))) (bs_db s')"
    "rs_duplicates res = int (length (duplicate_alerts (active_refs (bs_db s'))))"
proof -
  let ?l = "map sb_id subs" and ?res0 = "\<lparr>rs_checked = 0, rs_failed = 0, rs_errors = [], rs_duplicates = 0\<rparr>"
  obtain res1 s1 where a1: "apply_each rc get ?l ?res0 s = (res1, s1)" by fastforce
  have le1: "0 \<le> rs_failed res1" using apply_each_failed_mono [of ?res0 rc get ?l s] a1 by simp
  show "err = None" "settled get (set ?l \<union> set (map snd (active_refs (bs_db s')))) (bs_db s')"
    "rs_duplicates res = int (length (duplicate_alerts (active_refs (bs_db s'))))"
  proof -
    obtain rr s2 where q: "in_store ListActiveStripeRefs s1 = (rr, s2)" by fastforce
    have f1: "rs_failed res1 = 0"
    proof (cases rr)
      case (Inl e)
      then show ?thesis using r a1 q f by (simp add: Reconcile_All_def Let_def)
    next
      case (Inr refs)
      have "rs_failed res1 \<le> rs_failed (fst (apply_each rc get (filter (\<lambda>i. i \<notin> set ?l) (map snd refs)) res1 s2))"
        by (rule apply_each_failed_mono)
      moreover have "rs_failed res = rs_failed (fst (apply_each rc get (filter (\<lambda>i. i \<notin> set ?l) (map snd refs)) res1 s2))"
        using r a1 q Inr unfolding Reconcile_All_def Let_def by (auto split: prod.splits sum.splits)
      ultimately show ?thesis using f le1 by simp
    qed
    have se1: "settled get (set ?l) (bs_db s1)" "db_faults (bs_db s1) = []"
      using apply_each_settles [OF ids nf, where seen = "{}" and rc = rc and xs = ?l and res = ?res0] a1 f1 by (simp_all add: settled_def)
    let ?ids2 = "filter (\<lambda>i. i \<notin> set ?l) (map snd (active_refs (bs_db s1)))"
    obtain res2 s3 where a2: "apply_each rc get ?ids2 res1 s1 = (res2, s3)" by fastforce
    have rs: "rs_failed res = rs_failed res2"
      using r a1 in_store_ListActiveStripeRefs [OF se1(2)] a2 unfolding Reconcile_All_def Let_def by (auto split: prod.splits sum.splits)
    have se2: "settled get (set ?l \<union> set ?ids2) (bs_db s3)" "db_faults (bs_db s3) = []"
      and keep: "\<forall>ref. ref \<notin> set ?ids2 \<longrightarrow> by_ref ref (bs_db s3) = by_ref ref (bs_db s1)"
      using apply_each_settles [OF ids se1(2,1), where rc = rc and xs = ?ids2 and res = res1] a2 rs f f1 by simp_all
    let ?s4 = "if rs_checked res2 > 0 then reload s3 else s3"
    have s4: "bs_db ?s4 = bs_db s3" using reload_no_fault [OF se2(2)] by simp
    then have q2: "in_store ListActiveStripeRefs ?s4 = (Inr (active_refs (bs_db s3)), ?s4)"
      using in_store_ListActiveStripeRefs [of ?s4] se2(2) by simp
    have end_: "res = res2\<lparr>rs_duplicates := int (length (duplicate_alerts (active_refs (bs_db s3))))\<rparr>" "err = None" "bs_db s' = bs_db s3"
      using r a1 in_store_ListActiveStripeRefs [OF se1(2)] a2 q2 s4 unfolding Reconcile_All_def Let_def alertDuplicates_def by auto
    have "i \<in> set ?l \<union> set ?ids2" if "i \<in> set (map snd (active_refs (bs_db s3)))" for i
    proof (rule ccontr)
      assume n: "i \<notin> set ?l \<union> set ?ids2"
      then have "by_ref i (bs_db s3) = by_ref i (bs_db s1)" using keep by blast
      then have "i \<in> set (map snd (active_refs (bs_db s1)))" using that unfolding active_refs_iff by simp
      then show False using n by auto
    qed
    then have "settled get (set ?l \<union> set (map snd (active_refs (bs_db s3)))) (bs_db s3)" using se2(1) unfolding settled_def by blast
    then show "err = None" "settled get (set ?l \<union> set (map snd (active_refs (bs_db s')))) (bs_db s')"
      "rs_duplicates res = int (length (duplicate_alerts (active_refs (bs_db s'))))" using end_ by simp_all
  qed
qed

section \<open>Properties\<close>

text \<open>C22: A reconciled subscription's row grants access exactly as its status says: an active or
  trialing one without end, a past-due one until the grace after the start of the unpaid period
  (or not at all from now on when no item carries a period start), and any other never. No other
  reference's rows change.\<close>

theorem reconciled_access:
  assumes "db_faults (bs_db s) = []" "apply_sub rc sub pass s = (Inr (), s')"
  shows "by_ref (sb_id sub) (bs_db s') \<noteq> [] \<and>
    (\<forall>e \<in> set (by_ref (sb_id sub) (bs_db s')). e_source e = SourceStripe \<and>
       (\<forall>t. ActiveAt e t \<longleftrightarrow> e_valid_from e \<le> t \<and> sub_access rc sub (bs_now s) t)) \<and>
    (\<forall>ref. ref \<noteq> sb_id sub \<longrightarrow> by_ref ref (bs_db s') = by_ref ref (bs_db s))"
  using apply_sub_effect [OF assms] status_access by blast

text \<open>C23: After a full pass without failures no active Stripe row is left for a subscription that
  Stripe says is over, whether the listing named it or only the store did, and the number of
  accounts reported with more than one subscription is the number there are.\<close>

theorem Reconcile_All_ends_missed:
  assumes "\<forall>i sub. get i = Inr sub \<longrightarrow> sb_id sub = i" "db_faults (bs_db s) = []"
    "Reconcile_All rc get (Inr subs) s = (res, err, s')" "rs_failed res = 0"
  shows "err = None \<and>
    (\<forall>e \<in> set (db_entitlements (bs_db s')). e_source e = SourceStripe \<and> e_status e = EntitlementActive \<and> e_external_ref e \<noteq> [] \<longrightarrow>
       (\<exists>sub. get (e_external_ref e) = Inr sub \<and> \<not> over sub)) \<and>
    rs_duplicates res = int (length (filter (\<lambda>a. 1 < length (filter (\<lambda>r. fst r = a) (active_refs (bs_db s'))))
      (sort (remdups (map fst (active_refs (bs_db s')))))))"
proof -
  note p = Reconcile_All_phases [OF assms]
  have "\<exists>sub. get (e_external_ref e) = Inr sub \<and> \<not> over sub"
    if e: "e \<in> set (db_entitlements (bs_db s'))" "e_source e = SourceStripe" "e_status e = EntitlementActive" "e_external_ref e \<noteq> []" for e
  proof -
    have b: "e \<in> set (by_ref (e_external_ref e) (bs_db s'))" using e(1) by (simp add: by_ref_def)
    then have "e_external_ref e \<in> set (map snd (active_refs (bs_db s')))" unfolding active_refs_iff using e by auto
    then show ?thesis using p(2) b e(3) unfolding settled_def by blast
  qed
  then show ?thesis using p(1,3) by (simp add: duplicate_alerts_def)
qed


text \<open>One account, and a past-due subscription of it that the sample catalog sells.\<close>

definition sample_reconciler :: Reconciler where
  "sample_reconciler = \<lparr>rc_catalog = sample_catalog, rc_stores = Some sample_site, rc_grace = 3\<rparr>"

definition sample_sub :: "SubscriptionStatus \<Rightarrow> Subscription" where
  "sample_sub st =
     \<lparr>sb_id = ''sub_1'', sb_status = st,
      sb_metadata = [(''package'', ''pro''), (''interval'', ''month''), (''games'', ''magic''), (''stores'', ''ck''), (''account_id'', ''1'')],
      sb_customer = None,
      sb_items = [\<lparr>si_id = ''si_1'', si_price = Some \<lparr>pr_id = ''price_1'', pr_lookup_key = ''pro_month'', pr_active = True, pr_metadata = []\<rparr>,
                    si_quantity = 1, si_period_start = 0\<rparr>], sb_ended_at = 0\<rparr>"

definition sample_bstate :: bstate where
  "sample_bstate = \<lparr>bs_db = one_account, bs_now = 5, bs_alerts = [], bs_reloads = 0\<rparr>"


theorem reconciled_access_witness:
  "\<exists>e s'. apply_sub sample_reconciler (sample_sub SubscriptionActive) False sample_bstate = (Inr (), s') \<and>
     by_ref ''sub_1'' (bs_db s') = [e] \<and> ActiveAt e 9"
proof -
  let ?a = "apply_sub sample_reconciler (sample_sub SubscriptionActive) False sample_bstate"
  have c: "(isl (fst ?a), map e_valid_from (by_ref ''sub_1'' (bs_db (snd ?a)))) = (False, [5])" by code_simp
  have a: "?a = (Inr (), snd ?a)" using c by (cases ?a; cases "fst ?a") auto
  obtain e where e: "by_ref ''sub_1'' (bs_db (snd ?a)) = [e]" "e_valid_from e = 5" using c by auto
  have nf: "db_faults (bs_db sample_bstate) = []" by (simp add: sample_bstate_def)
  have "sb_id (sample_sub SubscriptionActive) = ''sub_1''" by (simp add: sample_sub_def)
  moreover have "sub_access sample_reconciler (sample_sub SubscriptionActive) (bs_now sample_bstate) 9"
    by (simp add: sub_access_def sample_sub_def)
  ultimately have "ActiveAt e 9" using reconciled_access [OF nf a] e by simp
  then show ?thesis using a e by blast
qed

text \<open>The store still holds the row of a subscription that was cancelled and that Stripe no longer lists.\<close>

definition missed_bstate :: bstate where
  "missed_bstate = sample_bstate\<lparr>bs_db := one_account\<lparr>db_entitlements := [sample_plan\<lparr>e_id := 1\<rparr>], db_entitlement_seq := 2\<rparr>\<rparr>"

definition cancelled_at_stripe :: "string \<Rightarrow> string + Subscription" where
  "cancelled_at_stripe i = (if i = ''sub_1'' then Inr (sample_sub (SubscriptionStatusOther ''canceled'')) else Inl ''no such subscription'')"

theorem Reconcile_All_ends_missed_witness:
  "\<exists>s' res e. map e_status (by_ref ''sub_1'' (bs_db missed_bstate)) = [EntitlementActive] \<and>
     Reconcile_All sample_reconciler cancelled_at_stripe (Inr []) missed_bstate = (res, None, s') \<and> rs_checked res = 1 \<and>
     by_ref ''sub_1'' (bs_db s') = [e] \<and> e_status e \<noteq> EntitlementActive"
proof -
  let ?r = "Reconcile_All sample_reconciler cancelled_at_stripe (Inr []) missed_bstate"
  obtain res err s' where r: "?r = (res, err, s')" by (cases ?r) auto
  have "(rs_failed (fst ?r), rs_checked (fst ?r), map e_source (by_ref ''sub_1'' (bs_db (snd (snd ?r))))) = (0, 1, [SourceStripe])"
    by code_simp
  then have c: "rs_failed res = 0" "rs_checked res = 1" "map e_source (by_ref ''sub_1'' (bs_db s')) = [SourceStripe]" using r by simp_all
  have b: "db_faults (bs_db missed_bstate) = []" "map e_status (by_ref ''sub_1'' (bs_db missed_bstate)) = [EntitlementActive]"
    by (simp_all add: missed_bstate_def sample_bstate_def by_ref_def sample_plan_def sample_grant_def sample_row_def)
  have ids: "\<forall>i sub. cancelled_at_stripe i = Inr sub \<longrightarrow> sb_id sub = i" by (simp add: cancelled_at_stripe_def sample_sub_def)
  note p = Reconcile_All_ends_missed [OF ids b(1) r c(1)]
  obtain e where e: "by_ref ''sub_1'' (bs_db s') = [e]" "e_source e = SourceStripe" using c(3) by auto
  have "e \<in> set (by_ref ''sub_1'' (bs_db s'))" by (simp add: e(1))
  then have "e \<in> set (db_entitlements (bs_db s'))" "e_external_ref e = ''sub_1''" by (simp_all add: by_ref_def)
  moreover have "over sub" if "cancelled_at_stripe ''sub_1'' = Inr sub" for sub
    using that by (auto simp: cancelled_at_stripe_def over_def sample_sub_def)
  ultimately have "e_status e \<noteq> EntitlementActive" using p e(2) by force
  then show ?thesis using r conjunct1 [OF p] c(2) b(2) e(1) by (intro exI [of _ s'] exI [of _ res] exI [of _ e]) simp
qed

end
