(* ===== verification/Billing_Webhook.thy ===== *)
theory Billing_Webhook
  imports Billing_Reconcile
begin

text \<open>
  \<open>src/billing/webhook.go\<close>: what the webhook reads of an event, and its handler. As in the code the
  handler is over an interface, the ledger, and a reconcile function; the record \<open>Webhook\<close> has both
  as functions on a state. The locale \<open>ledger\<close> states what the handler relies on, and its lemmas say
  what becomes of an event; it is interpreted on the store and the reconciler. The check of
  Stripe's signature (\<open>webhook.ConstructEventWithOptions\<close>) is a field of the record.
\<close>

section \<open>Events\<close>

text \<open>\<open>ev_data\<close> is \<open>Data.Raw\<close>, parsed; \<open>None\<close> when there is none or it does not parse.\<close>

record stripe_Event =
  ev_id :: string
  ev_type :: string
  ev_data :: "json option"

definition handledEvents :: "string list" where
  "handledEvents =
     [''checkout.session.completed'', ''customer.subscription.created'', ''customer.subscription.updated'',
      ''customer.subscription.deleted'', ''invoice.paid'', ''invoice.payment_failed'']"

definition maxWebhookBody :: nat where "maxWebhookBody = 1048576"

text \<open>
  \<open>json.Unmarshal\<close> of an object goes through the members in order; a member sets the field its name
  matches without case, and \<open>None\<close> is a type mismatch, which fails the whole. A null leaves a
  string as it is and clears a pointer; a raw message takes any value.
\<close>

definition string_field :: "string \<Rightarrow> json \<Rightarrow> string option" where
  "string_field cur j = (case j of JString s \<Rightarrow> Some s | JNull \<Rightarrow> Some cur | _ \<Rightarrow> None)"

fun members :: "(string \<Rightarrow> json \<Rightarrow> 'a \<Rightarrow> 'a option) \<Rightarrow> (string \<times> json) list \<Rightarrow> 'a \<Rightarrow> 'a option" where
  "members f [] x = Some x"
| "members f ((k, j) # ms) x = (case f k j x of None \<Rightarrow> None | Some y \<Rightarrow> members f ms y)"

definition pointer_field :: "(string \<Rightarrow> json \<Rightarrow> 'a \<Rightarrow> 'a option) \<Rightarrow> 'a \<Rightarrow> 'a option \<Rightarrow> json \<Rightarrow> 'a option option" where
  "pointer_field f zero cur j =
     (case j of
        JNull \<Rightarrow> Some None
      | JObject ms \<Rightarrow> map_option Some (members f ms (case cur of Some x \<Rightarrow> x | None \<Rightarrow> zero))
      | _ \<Rightarrow> None)"

record event_object =
  eo_object :: string
  eo_id :: string
  eo_subscription :: "json option"
  eo_parent :: "json option option option"

definition details_member :: "string \<Rightarrow> json \<Rightarrow> json option \<Rightarrow> json option option" where
  "details_member k j x = (if equal_fold k ''subscription'' then Some (Some j) else Some x)"

definition parent_member :: "string \<Rightarrow> json \<Rightarrow> json option option \<Rightarrow> json option option option" where
  "parent_member k j x = (if equal_fold k ''subscription_details'' then pointer_field details_member None x j else Some x)"

definition event_member :: "string \<Rightarrow> json \<Rightarrow> event_object \<Rightarrow> event_object option" where
  "event_member k j x =
     (if equal_fold k ''object'' then map_option (\<lambda>s. x\<lparr>eo_object := s\<rparr>) (string_field (eo_object x) j)
      else if equal_fold k ''id'' then map_option (\<lambda>s. x\<lparr>eo_id := s\<rparr>) (string_field (eo_id x) j)
      else if equal_fold k ''subscription'' then Some (x\<lparr>eo_subscription := Some j\<rparr>)
      else if equal_fold k ''parent'' then map_option (\<lambda>p. x\<lparr>eo_parent := p\<rparr>) (pointer_field parent_member None (eo_parent x) j)
      else Some x)"

definition id_member :: "string \<Rightarrow> json \<Rightarrow> string \<Rightarrow> string option" where
  "id_member k j x = (if equal_fold k ''id'' then string_field x j else Some x)"

definition rawID :: "json option \<Rightarrow> string" where
  "rawID raw =
     (case raw of
        None \<Rightarrow> []
      | Some j \<Rightarrow> (case string_field [] j of
            Some s \<Rightarrow> s
          | None \<Rightarrow> (case j of JObject ms \<Rightarrow> (case members id_member ms [] of Some s \<Rightarrow> s | None \<Rightarrow> []) | _ \<Rightarrow> [])))"

definition SubscriptionID :: "stripe_Event \<Rightarrow> string" where
  "SubscriptionID ev =
     (case ev_data ev of
        Some (JObject ms) \<Rightarrow>
          (case members event_member ms \<lparr>eo_object = [], eo_id = [], eo_subscription = None, eo_parent = None\<rparr> of
             None \<Rightarrow> []
           | Some x \<Rightarrow>
               if eo_object x = ''subscription'' then eo_id x
               else if eo_object x = ''checkout.session'' then rawID (eo_subscription x)
               else if eo_object x = ''invoice'' then
                 (if rawID (eo_subscription x) \<noteq> [] then rawID (eo_subscription x)
                  else case eo_parent x of Some (Some raw) \<Rightarrow> rawID raw | _ \<Rightarrow> [])
               else [])
      | _ \<Rightarrow> [])"

section \<open>The handler\<close>

text \<open>\<open>wr_body\<close> is the whole body, or \<open>None\<close> when reading it failed.\<close>

record webhook_request =
  wr_method :: string
  wr_body :: "string option"
  wr_signature :: string

record 's Webhook =
  wh_construct :: "string \<Rightarrow> string \<Rightarrow> stripe_Event option"
  wh_begin :: "string \<Rightarrow> string \<Rightarrow> 's \<Rightarrow> (billing_error + bool) \<times> 's"
  wh_finish :: "string \<Rightarrow> 's \<Rightarrow> (billing_error + unit) \<times> 's"
  wh_delete :: "string \<Rightarrow> 's \<Rightarrow> (billing_error + unit) \<times> 's"
  wh_reconcile :: "string \<Rightarrow> 's \<Rightarrow> (billing_error + unit) \<times> 's"

definition webhook_finish :: "'s Webhook \<Rightarrow> string \<Rightarrow> 's \<Rightarrow> 's" where
  "webhook_finish h eid s = snd (wh_finish h eid s)"

definition webhook_event :: "'s Webhook \<Rightarrow> stripe_Event \<Rightarrow> 's \<Rightarrow> (int \<times> string) \<times> 's" where
  "webhook_event h ev s0 =
     (case wh_begin h (ev_id ev) (ev_type ev) s0 of
        (Inl err, s1) \<Rightarrow> ((500, ''ledger unavailable''), s1)
      | (Inr False, s1) \<Rightarrow> ((200, []), s1)
      | (Inr True, s1) \<Rightarrow>
          let sub_id = SubscriptionID ev in
          if sub_id = [] then ((200, []), webhook_finish h (ev_id ev) s1)
          else case wh_reconcile h sub_id s1 of
              (Inl err, s2) \<Rightarrow>
                if isPermanent err then ((200, []), webhook_finish h (ev_id ev) s2)
                else ((500, ''reconcile failed''), snd (wh_delete h (ev_id ev) s2))
            | (Inr _, s2) \<Rightarrow> ((200, []), webhook_finish h (ev_id ev) s2))"

definition Webhook_ServeHTTP :: "'s Webhook \<Rightarrow> webhook_request \<Rightarrow> 's \<Rightarrow> (int \<times> string) \<times> 's" where
  "Webhook_ServeHTTP h r s =
     (if wr_method r \<noteq> ''POST'' then ((405, []), s)
      else case wr_body r of
          None \<Rightarrow> ((413, ''body too large''), s)
        | Some body \<Rightarrow>
            if maxWebhookBody < length body then ((413, ''body too large''), s)
            else case wh_construct h body (wr_signature r) of
                None \<Rightarrow> ((400, ''bad signature''), s)
              | Some ev \<Rightarrow> if ev_type ev \<notin> set handledEvents then ((200, []), s) else webhook_event h ev s)"

text \<open>The request carries a verified event of a type the handler takes.\<close>

definition delivers :: "'s Webhook \<Rightarrow> webhook_request \<Rightarrow> stripe_Event \<Rightarrow> bool" where
  "delivers h r ev \<longleftrightarrow> wr_method r = ''POST'' \<and> ev_type ev \<in> set handledEvents \<and>
     (case wr_body r of None \<Rightarrow> False | Some body \<Rightarrow> length body \<le> maxWebhookBody \<and> wh_construct h body (wr_signature r) = Some ev)"

text \<open>What came of the event's subscription: \<open>None\<close> when it names none.\<close>

definition retried :: "(billing_error + unit) option \<Rightarrow> bool" where
  "retried r \<longleftrightarrow> (case r of Some (Inl err) \<Rightarrow> \<not> isPermanent err | _ \<Rightarrow> False)"

definition event_result :: "'s Webhook \<Rightarrow> stripe_Event \<Rightarrow> 's \<Rightarrow> (billing_error + unit) option" where
  "event_result h ev s =
     (if SubscriptionID ev = [] then None
      else Some (fst (wh_reconcile h (SubscriptionID ev) (snd (wh_begin h (ev_id ev) (ev_type ev) s)))))"

section \<open>The ledger's contract\<close>

text \<open>
  \<open>up\<close>: the ledger answers. An event is \<open>free\<close> when it may be claimed, \<open>held\<close> when its row is there,
  and \<open>over\<close> when it is finished.
\<close>

locale ledger =
  fixes h :: "'s Webhook" and up :: "'s \<Rightarrow> bool" and free held finished :: "'s \<Rightarrow> string \<Rightarrow> bool"
  assumes begin_free: "up s \<Longrightarrow> fst (wh_begin h i t s) = Inr (free s i)"
    and begin_up: "up s \<Longrightarrow> up (snd (wh_begin h i t s))"
    and begin_held: "up s \<Longrightarrow> free s i \<Longrightarrow> held (snd (wh_begin h i t s)) i"
    and begin_taken: "up s \<Longrightarrow> \<not> free s i \<Longrightarrow> snd (wh_begin h i t s) = s"
    and reconcile_up: "up s \<Longrightarrow> up (snd (wh_reconcile h x s))"
    and reconcile_held: "up s \<Longrightarrow> held s i \<Longrightarrow> held (snd (wh_reconcile h x s)) i"
    and finish_finishes: "up s \<Longrightarrow> held s i \<Longrightarrow> finished (snd (wh_finish h i s)) i"
    and delete_frees: "up s \<Longrightarrow> free (snd (wh_delete h i s)) i"
begin

lemma repeated_event:
  "up s \<Longrightarrow> \<not> free s (ev_id ev) \<Longrightarrow> webhook_event h ev s = ((200, []), s)"
  using begin_free [of s "ev_id ev" "ev_type ev"] begin_taken [of s "ev_id ev" "ev_type ev"]
  by (cases "wh_begin h (ev_id ev) (ev_type ev) s") (simp add: webhook_event_def)

lemma claimed_event:
  assumes "up s" "free s (ev_id ev)"
  shows "if retried (event_result h ev s)
    then fst (fst (webhook_event h ev s)) = 500 \<and> free (snd (webhook_event h ev s)) (ev_id ev)
    else fst (fst (webhook_event h ev s)) = 200 \<and> finished (snd (webhook_event h ev s)) (ev_id ev)"
proof -
  obtain s1 where b: "wh_begin h (ev_id ev) (ev_type ev) s = (Inr True, s1)"
    using begin_free [OF assms(1), of "ev_id ev" "ev_type ev"] assms(2) by (metis prod.collapse)
  then have s1: "up s1" "held s1 (ev_id ev)"
    using begin_up [OF assms(1)] begin_held [OF assms] by (metis snd_conv)+
  obtain r s2 where q: "wh_reconcile h (SubscriptionID ev) s1 = (r, s2)" by fastforce
  then have s2: "up s2" "held s2 (ev_id ev)" using reconcile_up [OF s1(1)] reconcile_held [OF s1] by (metis snd_conv)+
  show ?thesis using b q finish_finishes [OF s1] finish_finishes [OF s2] delete_frees [OF s2(1)]
    by (cases r) (auto simp: webhook_event_def event_result_def retried_def webhook_finish_def Let_def)
qed

end


section \<open>The ledger in the store\<close>

definition store_webhook :: "(string \<Rightarrow> string \<Rightarrow> stripe_Event option) \<Rightarrow> Reconciler \<Rightarrow> (string \<Rightarrow> string + Subscription) \<Rightarrow> bstate Webhook" where
  "store_webhook construct rc get =
     \<lparr>wh_construct = construct, wh_begin = (\<lambda>i t. in_store (BeginStripeEvent i t)), wh_finish = (\<lambda>i. in_store (FinishStripeEvent i)),
      wh_delete = (\<lambda>i. in_store (DeleteStripeEvent i)), wh_reconcile = Reconcile_Subscription rc get\<rparr>"

definition store_up :: "bstate \<Rightarrow> bool" where
  "store_up s \<longleftrightarrow> db_ok (bs_db s) \<and> db_faults (bs_db s) = []"

definition event_held :: "bstate \<Rightarrow> string \<Rightarrow> bool" where
  "event_held s i \<longleftrightarrow> i \<in> set (map se_id (db_events (bs_db s)))"

definition event_finished :: "bstate \<Rightarrow> string \<Rightarrow> bool" where
  "event_finished s i \<longleftrightarrow> list_ex (\<lambda>e. se_id e = i \<and> se_processed_at e \<noteq> None) (db_events (bs_db s))"

text \<open>An operation that, while the database answers, keeps it so and leaves the events alone.\<close>

definition calm :: "'a op \<Rightarrow> bool" where
  "calm f \<longleftrightarrow> (\<forall>d. db_faults d = [] \<longrightarrow> db_faults (snd (f d)) = [] \<and> db_events (snd (f d)) = db_events d)"

definition quiet :: "'a bop \<Rightarrow> bool" where
  "quiet f \<longleftrightarrow> (\<forall>s. store_up s \<longrightarrow> store_up (snd (f s)) \<and> db_events (bs_db (snd (f s))) = db_events (bs_db s))"

named_theorems quiet_intros \<open>Operations that leave the events alone.\<close>

lemma calm_stmt: "calm f \<Longrightarrow> calm (stmt f)"
  by (simp add: calm_def stmt_no_fault)

lemma calm_and_then: "calm f \<Longrightarrow> (\<And>x. calm (g x)) \<Longrightarrow> calm (and_then f g)"
  unfolding calm_def and_then_def by (auto split: prod.splits sum.splits)

lemma calm_read: "calm (\<lambda>d. (F d, d))"
  by (simp add: calm_def)

lemma calm_reads: "calm (GetAccount aid)" "calm (GetAccountByStripeCustomer c)" "calm driver_call"
  unfolding GetAccount_def GetAccountByStripeCustomer_def select_account_def driver_call_def by (intro calm_stmt calm_read)+

lemma calm_Upsert: "calm (UpsertStripeEntitlement now e)"
proof -
  have "calm (upsertEntitlement p)" for p
    unfolding upsertEntitlement_def
    by (intro calm_stmt) (auto simp: calm_def Let_def split: prod.splits option.splits list.splits)
  moreover have "calm (prepared now e)" by (simp add: prepared_def calm_def fail_def give_def split: sum.splits)
  ultimately show ?thesis by (simp add: UpsertStripeEntitlement_def calm_and_then) (simp add: calm_def fail_def)
qed

lemma quiet_in_store: "keeps f \<Longrightarrow> calm f \<Longrightarrow> quiet (in_store f)"
  unfolding quiet_def calm_def store_up_def in_store_def by (auto dest: keepsD split: prod.splits sum.splits)

lemma quiet_ops [quiet_intros]:
  "quiet (in_store (GetAccount aid))" "quiet (in_store (GetAccountByStripeCustomer c))"
  "quiet (in_store driver_call)" "quiet (in_store (UpsertStripeEntitlement now e))"
  by (intro quiet_in_store calm_reads calm_Upsert keeps_intros; simp add: driver_call_def keeps_query)+

lemma quiet_case:
  assumes "quiet f" "\<And>e. quiet (g e)" "\<And>x. quiet (k x)"
  shows "quiet (\<lambda>s. case f s of (Inl e, s') \<Rightarrow> g e s' | (Inr x, s') \<Rightarrow> k x s')"
  using assms unfolding quiet_def by (auto split: prod.splits sum.splits)

lemma quiet_pure [quiet_intros]: "quiet (\<lambda>s. (F s, s))" "quiet (\<lambda>s. (F s, alertf a s))" "quiet (failed sub err pass)"
  by (simp_all add: quiet_def alertf_def store_up_def failed_def)

lemma quiet_snd: "quiet f \<Longrightarrow> (\<And>s. snd (g s) = snd (f s)) \<Longrightarrow> quiet g"
  by (simp add: quiet_def)

lemma quiet_by_customer [quiet_intros]: "quiet (by_customer sub)"
proof (cases "\<exists>c. sb_customer sub = Some c \<and> c \<noteq> []")
  case True
  then obtain c where "sb_customer sub = Some c" "c \<noteq> []" by blast
  then have "snd (by_customer sub s) = snd (in_store (GetAccountByStripeCustomer c) s)" for s
    by (auto simp: by_customer_def split: prod.splits sum.splits billing_error.splits access_error.splits)
  then show ?thesis by (rule quiet_snd [OF quiet_ops(2)])
next
  case False
  then have "snd (by_customer sub s) = s" for s by (auto simp: by_customer_def split: option.splits)
  then show ?thesis by (simp add: quiet_def)
qed

lemma quiet_findAccount [quiet_intros]: "quiet (findAccount account_id sub)"
proof -
  let ?f = "\<lambda>s. case in_store (GetAccount account_id) s of (Inl e, s') \<Rightarrow> (if e = StoreError ErrNotFound then by_customer sub else Pair (Inl e)) s' | (Inr x, s') \<Rightarrow> (Inr x, s')"
  have "quiet ?f" by (rule quiet_case) (simp_all add: quiet_intros)
  moreover have "findAccount account_id sub = (if account_id \<noteq> 0 then ?f else by_customer sub)"
    by (rule ext) (auto simp: findAccount_def split: prod.splits sum.splits billing_error.splits access_error.splits)
  ultimately show ?thesis by (simp add: quiet_by_customer)
qed


lemma quietI: "(\<And>s. store_up s \<Longrightarrow> store_up (snd (f s)) \<and> db_events (bs_db (snd (f s))) = db_events (bs_db s)) \<Longrightarrow> quiet f"
  by (simp add: quiet_def)

lemma quietD: "quiet f \<Longrightarrow> f s = (r, s') \<Longrightarrow> store_up s \<Longrightarrow> store_up s' \<and> db_events (bs_db s') = db_events (bs_db s)"
  unfolding quiet_def by (metis snd_conv)

lemma quiet_plan_scope [quiet_intros]: "quiet (plan_scope rc plan st sub pass)"
  unfolding plan_scope_def by (rule quietI) (auto simp: failed_def alertf_def store_up_def split: sum.splits)

lemma quiet_reload: "store_up s \<Longrightarrow> store_up (reload s) \<and> db_events (bs_db (reload s)) = db_events (bs_db s)"
  using quietD [OF quiet_ops(3)] unfolding reload_def store_up_def by (auto split: prod.splits sum.splits)

lemma quiet_note_items: "store_up s \<Longrightarrow> store_up (note_items rc plan sub s) \<and> db_events (bs_db (note_items rc plan sub s)) = db_events (bs_db s)"
  by (simp add: note_items_def alertf_def store_up_def split: option.splits prod.splits)

lemma quiet_failed: "store_up s \<Longrightarrow> store_up (snd (failed sub err pass s)) \<and> db_events (bs_db (snd (failed sub err pass s))) = db_events (bs_db s)"
  by (simp add: failed_def alertf_def store_up_def)

lemma quiet_apply_sub [quiet_intros]: "quiet (apply_sub rc sub pass)"
proof (rule quietI)
  fix s0 assume up: "store_up s0"
  have ups: "quiet (\<lambda>s. case in_store (UpsertStripeEntitlement now row) s of (Inl err, s4) \<Rightarrow> (Inl err, s4) | (Inr row, s4) \<Rightarrow> (Inr (), if pass then s4 else reload s4))"
    for now row by (rule quiet_case [OF quiet_ops(4)]) (auto simp: quiet_def quiet_reload)
  have sc: "quiet (\<lambda>s. case plan_scope rc plan st sub pass s of (Inl err, s3) \<Rightarrow> (Inl err, s3)
      | (Inr sm, s3) \<Rightarrow> (case in_store (UpsertStripeEntitlement now (plan_row rc sub plan account sm now)) s3 of
           (Inl err, s4) \<Rightarrow> (Inl err, s4) | (Inr row, s4) \<Rightarrow> (Inr (), if pass then s4 else reload s4)))" for plan st account now
    by (rule quiet_case [OF quiet_plan_scope]) (simp_all add: quiet_intros ups)
  show "store_up (snd (apply_sub rc sub pass s0)) \<and> db_events (bs_db (snd (apply_sub rc sub pass s0))) = db_events (bs_db s0)"
  proof (cases "PlanFromMetadata (sb_metadata sub)")
    case (Inl err)
    then show ?thesis using quiet_failed [OF up] by (simp add: apply_sub_def)
  next
    case (Inr p)
    obtain plan0 aid where p: "p = (plan0, aid)" by fastforce
    obtain r s1 where f: "findAccount aid sub s0 = (r, s1)" by fastforce
    have s1: "store_up s1 \<and> db_events (bs_db s1) = db_events (bs_db s0)" by (rule quietD [OF quiet_findAccount f up])
    show ?thesis
    proof (cases r)
      case e: (Inl err)
      then show ?thesis using Inr p f quiet_failed [of s1] s1 by (simp add: apply_sub_def)
    next
      case a: (Inr account)
      show ?thesis
      proof (cases "Normalize (rc_catalog rc) plan0")
        case e: (Inl err)
        then show ?thesis using Inr p f a quiet_failed [of s1] s1 by (simp add: apply_sub_def)
      next
        case n: (Inr plan)
        show ?thesis using Inr p f a n s1 quiet_note_items [of s1 rc plan sub]
            sc [unfolded quiet_def, rule_format, of "note_items rc plan sub s1"] by (simp add: apply_sub_def Let_def)
      qed
    qed
  qed
qed

lemma quiet_Reconcile_Subscription: "quiet (Reconcile_Subscription rc get sub_id)"
  unfolding Reconcile_Subscription_def by (cases "get sub_id") (simp_all add: fetchAndApply_def [abs_def] quiet_intros)


lemma in_store_no_fault: "f (bs_db s) = (r, d) \<Longrightarrow> in_store f s = (case r of Inl e \<Rightarrow> Inl (StoreError e) | Inr x \<Rightarrow> Inr x, s\<lparr>bs_db := d\<rparr>)"
  by (simp add: in_store_def split: sum.splits)

lemma in_store_snd [simp]: "bs_db (snd (in_store f s)) = snd (f (bs_db s))"
  by (simp add: in_store_def split: prod.splits sum.splits)

lemma Begin_calm:
  assumes "db_faults d = []"
  shows "db_faults (snd (BeginStripeEvent i t d)) = []"
  using assms by (simp add: BeginStripeEvent_def stmt_no_fault put_events_def split: prod.splits)

lemma Begin_not_claimable:
  assumes "db_ok d" "db_faults d = []" "\<not> claimable d i"
  shows "snd (BeginStripeEvent i t d) = d"
proof -
  obtain e where e: "e \<in> set (db_events d)" "se_id e = i" "\<not> (se_processed_at e = None \<and> se_received_at e < db_now d - eventReclaimAfter)"
    using assms(3) by (auto simp: claimable_def list_all_iff)
  have "x = e" if "x \<in> set (db_events d)" "se_id x = i" for x
    using db_ok_tokens(4) [OF assms(1)] e(1,2) that by (metis distinct_map inj_onD)
  then have "map (\<lambda>r. if se_id r = i \<and> se_processed_at r = None \<and> se_received_at r < db_now d - eventReclaimAfter
      then r\<lparr>se_received_at := db_now d\<rparr> else r) (db_events d) = db_events d"
    using e(3) by (intro map_idI) auto
  moreover have "i \<in> set (map se_id (db_events d))" using e by auto
  ultimately show ?thesis using assms(2) by (simp add: BeginStripeEvent_def stmt_no_fault update_where_def put_events_def)
qed

lemma DeleteStripeEvent_frees:
  "db_faults d = [] \<Longrightarrow> claimable (snd (DeleteStripeEvent i d)) i"
  by (auto simp: DeleteStripeEvent_def delete_where_def and_then_def stmt_no_fault give_def put_events_def claimable_def list_all_iff)

lemma FinishStripeEvent_finishes:
  "db_faults d = [] \<Longrightarrow> i \<in> set (map se_id (db_events d)) \<Longrightarrow>
     list_ex (\<lambda>e. se_id e = i \<and> se_processed_at e \<noteq> None) (db_events (snd (FinishStripeEvent i d)))"
  by (simp add: FinishStripeEvent_def stmt_no_fault put_events_def) (rule list_ex_updated; force simp: filter_empty_conv)

interpretation events: ledger "store_webhook construct rc get" store_up "\<lambda>s. claimable (bs_db s)" event_held event_finished
  for construct rc get
proof unfold_locales
  fix s i t assume up: "store_up s"
  let ?h = "store_webhook construct rc get"
  show "fst (wh_begin ?h i t s) = Inr (claimable (bs_db s) i)"
    using BeginStripeEvent_result [of "bs_db s" i t] up by (auto simp: store_webhook_def in_store_def store_up_def split: prod.splits)
  show "store_up (snd (wh_begin ?h i t s))"
    using up Begin_calm keepsD [OF keeps_event_ops(1)] by (simp add: store_webhook_def store_up_def)
  show "event_held (snd (wh_begin ?h i t s)) i" if "claimable (bs_db s) i"
    using Begin_claims [OF _ _ that, of t] up by (auto simp: store_webhook_def store_up_def event_held_def)
  show "snd (wh_begin ?h i t s) = s" if "\<not> claimable (bs_db s) i"
    using Begin_not_claimable [OF _ _ that, of t] up by (cases s) (auto simp: store_webhook_def store_up_def in_store_def split: prod.splits sum.splits)
  show "claimable (bs_db (snd (wh_delete ?h i s))) i"
    using DeleteStripeEvent_frees [of "bs_db s" i] up by (simp add: store_webhook_def store_up_def)
  show "store_up (snd (wh_reconcile ?h i s))"
    using quiet_Reconcile_Subscription [of rc get i] up by (simp add: store_webhook_def quiet_def)
next
  fix s i x assume up: "store_up s" "event_held s i"
  let ?h = "store_webhook construct rc get"
  show "event_held (snd (wh_reconcile ?h x s)) i"
    using quiet_Reconcile_Subscription [of rc get x] up by (simp add: store_webhook_def quiet_def event_held_def)
  show "event_finished (snd (wh_finish ?h i s)) i"
    using FinishStripeEvent_finishes [of "bs_db s" i] up by (simp add: store_webhook_def store_up_def event_held_def event_finished_def)
qed


lemma finished_forever: "event_finished s i \<Longrightarrow> \<not> claimable ((bs_db s)\<lparr>db_now := t\<rparr>) i"
  by (auto simp: event_finished_def claimable_def list_ex_iff list_all_iff)

lemma Webhook_delivers: "delivers h r ev \<Longrightarrow> Webhook_ServeHTTP h r s = webhook_event h ev s"
  by (auto simp: delivers_def Webhook_ServeHTTP_def split: option.splits)

lemma Webhook_rejects: "\<nexists>ev. delivers h r ev \<Longrightarrow> snd (Webhook_ServeHTTP h r s) = s"
  by (auto simp: delivers_def Webhook_ServeHTTP_def not_less split: option.splits)

section \<open>Properties\<close>

text \<open>C24: While the database answers, a delivery of an event is handled once: a request that carries
  no verified event of a handled type changes nothing; an event that is being handled, or was, is
  answered 200 and changes nothing; any other is reconciled, and is then either finished for good
  and answered 200, or, when the reconcile failed in a way a retry may mend, answered 500 and left
  free for Stripe's next delivery.\<close>

theorem webhook_handles_once:
  assumes "db_ok (bs_db s)" "db_faults (bs_db s) = []"
  shows "let h = store_webhook construct rc get; res = Webhook_ServeHTTP h r s in
    ((\<nexists>ev. delivers h r ev) \<longrightarrow> snd res = s) \<and>
    (\<forall>ev. delivers h r ev \<longrightarrow>
       (if \<not> claimable (bs_db s) (ev_id ev) then res = ((200, []), s)
        else if retried (event_result h ev s) then fst (fst res) = 500 \<and> claimable (bs_db (snd res)) (ev_id ev)
        else fst (fst res) = 200 \<and> (\<forall>t. \<not> claimable ((bs_db (snd res))\<lparr>db_now := t\<rparr>) (ev_id ev))))"
proof -
  have up: "store_up s" using assms by (simp add: store_up_def)
  show ?thesis
    using Webhook_rejects [of "store_webhook construct rc get" r s] events.repeated_event [OF up, of _ construct rc get]
      events.claimed_event [OF up, of _ construct rc get] finished_forever
    by (auto simp: Let_def Webhook_delivers split: if_splits)
qed

text \<open>An invoice that could not be reconciled because Stripe did not answer.\<close>

definition sample_event :: stripe_Event where
  "sample_event = \<lparr>ev_id = ''evt_1'', ev_type = ''invoice.paid'', ev_data = Some (JObject [(''object'', JString ''invoice''), (''id'', JString ''in_1''),
     (''parent'', JObject [(''subscription_details'', JObject [(''subscription'', JObject [(''id'', JString ''sub_1'')])])])])\<rparr>"

lemma sample_event_subscription: "SubscriptionID sample_event = ''sub_1''"
  by code_simp

theorem webhook_handles_once_witness:
  "let h = store_webhook (\<lambda>_ _. Some sample_event) sample_reconciler (\<lambda>_. Inl ''timeout'');
       res = Webhook_ServeHTTP h \<lparr>wr_method = ''POST'', wr_body = Some ''{}'', wr_signature = ''sig''\<rparr> sample_bstate
   in fst (fst res) = 500 \<and> claimable (bs_db (snd res)) ''evt_1''"
proof -
  let ?h = "store_webhook (\<lambda>_ _. Some sample_event) sample_reconciler (\<lambda>_. Inl ''timeout'')"
  let ?r = "\<lparr>wr_method = ''POST'', wr_body = Some ''{}'', wr_signature = ''sig''\<rparr>"
  have ok: "db_ok (bs_db sample_bstate)" "db_faults (bs_db sample_bstate) = []"
    using store.reachable_inv [OF one_account_reachable] by (simp_all add: sample_bstate_def)
  have d: "delivers ?h ?r sample_event"
    by (simp add: delivers_def store_webhook_def sample_event_def handledEvents_def maxWebhookBody_def)
  have c: "claimable (bs_db sample_bstate) (ev_id sample_event)"
    by (simp add: sample_bstate_def one_account_eq empty_db_def claimable_def)
  have r: "retried (event_result ?h sample_event sample_bstate)"
    by (simp add: event_result_def sample_event_subscription store_webhook_def Reconcile_Subscription_def fetchAndApply_def retried_def
        isPermanent_def IsValidation_def)
  have "ev_id sample_event = ''evt_1''" by (simp add: sample_event_def)
  moreover note conjunct2 [OF webhook_handles_once [OF ok, of "\<lambda>_ _. Some sample_event" sample_reconciler "\<lambda>_. Inl ''timeout''" ?r, unfolded Let_def],
      rule_format, OF d]
  ultimately show ?thesis using c r by (simp add: Let_def)
qed

end
