(* ===== verification/Billing_Change.thy ===== *)
theory Billing_Change
  imports Billing_Reconcile
begin

text \<open>
  \<open>src/billing/planchange.go\<close> and \<open>priceIDs\<close> of \<open>stripe.go\<close>: moving a subscription onto another plan.
  Stripe's answers are parameters. What Stripe does with an update, as its API documents it, is
  \<open>stripe_update\<close>, so that the update sent can be read back as a subscription.
\<close>

section \<open>Operations\<close>

definition priceIDs :: "string + Price list \<Rightarrow> string + (string \<times> string) list" where
  "priceIDs listing =
     (case listing of
        Inl err \<Rightarrow> Inl err
      | Inr prices \<Rightarrow> Inr (foldl (\<lambda>ids p. if pr_active p \<and> pr_lookup_key p \<noteq> [] then AList.update (pr_lookup_key p) (pr_id p) ids else ids) [] prices))"

text \<open>An item of an update: an existing one by its id, deleted or with a quantity, or a new one by its price.\<close>

record UpdateItem =
  ui_id :: "string option"
  ui_price :: "string option"
  ui_quantity :: "int option"
  ui_deleted :: bool

record SubscriptionUpdate =
  su_items :: "UpdateItem list"
  su_metadata :: "(string \<times> string) list"
  su_proration :: string
  su_payment :: "string option"

definition item_key :: "ProductList \<Rightarrow> SubscriptionItem \<Rightarrow> string" where
  "item_key cat it = (case si_price it of None \<Rightarrow> [] | Some p \<Rightarrow> priceLookupKey cat p)"

definition delete_item :: "string \<Rightarrow> UpdateItem" where
  "delete_item i = \<lparr>ui_id = Some i, ui_price = None, ui_quantity = None, ui_deleted = True\<rparr>"

definition resize_item :: "string \<Rightarrow> int \<Rightarrow> UpdateItem" where
  "resize_item i q = \<lparr>ui_id = Some i, ui_price = None, ui_quantity = Some q, ui_deleted = False\<rparr>"

definition add_item :: "string \<Rightarrow> int \<Rightarrow> UpdateItem" where
  "add_item price q = \<lparr>ui_id = None, ui_price = Some price, ui_quantity = Some q, ui_deleted = False\<rparr>"

text \<open>The updates of the existing items, and what of the wanted items they leave over.\<close>

fun item_updates :: "ProductList \<Rightarrow> SubscriptionItem list \<Rightarrow> (string \<times> int) list \<Rightarrow> UpdateItem list \<times> (string \<times> int) list" where
  "item_updates cat [] want = ([], want)"
| "item_updates cat (it # its) want =
     (let key = item_key cat it;
          ups = (case map_of want key of
                   None \<Rightarrow> [delete_item (si_id it)]
                 | Some q \<Rightarrow> if q \<noteq> si_quantity it then [resize_item (si_id it) q] else [])
      in case item_updates cat its (AList.delete key want) of (rest, left) \<Rightarrow> (ups @ rest, left))"

fun new_items :: "(string \<times> string) list \<Rightarrow> (string \<times> int) list \<Rightarrow> string list \<Rightarrow> billing_error + UpdateItem list" where
  "new_items ids want [] = Inr []"
| "new_items ids want (k # ks) =
     (case map_of ids k of
        None \<Rightarrow> Inl (ErrPriceNotSeeded k)
      | Some price \<Rightarrow> (case new_items ids want ks of
            Inl err \<Rightarrow> Inl err
          | Inr rest \<Rightarrow> Inr (add_item price (case map_of want k of Some q \<Rightarrow> q | None \<Rightarrow> 0) # rest)))"

definition prorationBehavior :: "Plan \<Rightarrow> Plan \<Rightarrow> ProductList \<Rightarrow> string" where
  "prorationBehavior current nxt cat =
     (case Total cat current of
        Inl _ \<Rightarrow> ''create_prorations''
      | Inr current_total \<Rightarrow> (case Total cat nxt of
            Inl _ \<Rightarrow> ''create_prorations''
          | Inr next_total \<Rightarrow> if next_total > current_total then ''always_invoice'' else ''create_prorations''))"

definition plan_update :: "ProductList \<Rightarrow> Account \<Rightarrow> Plan \<Rightarrow> Plan \<Rightarrow> UpdateItem list \<Rightarrow> SubscriptionUpdate" where
  "plan_update cat account current plan items =
     (let proration = prorationBehavior current plan cat in
      \<lparr>su_items = items, su_metadata = Metadata plan (a_id account), su_proration = proration,
       su_payment = (if proration = ''always_invoice'' then Some ''error_if_incomplete'' else None)\<rparr>)"

definition owns :: "Account \<Rightarrow> Subscription \<Rightarrow> int \<Rightarrow> bool" where
  "owns account sub account_id \<longleftrightarrow>
     account_id = a_id account \<or>
     (case sb_customer sub of Some c \<Rightarrow> a_stripe_customer_id account \<noteq> [] \<and> c = a_stripe_customer_id account | None \<Rightarrow> False)"

text \<open>
  The result has the resolved plan (\<open>None\<close> for the zero value of the early returns), the error, and
  the update that was sent to Stripe, if the code got that far.
\<close>

record change_result =
  cr_resolved :: "ResolvedPlan option"
  cr_error :: "billing_error option"
  cr_sent :: "SubscriptionUpdate option"

definition refused :: "billing_error \<Rightarrow> change_result" where
  "refused err = \<lparr>cr_resolved = None, cr_error = Some err, cr_sent = None\<rparr>"

definition change_items :: "ProductList \<Rightarrow> string + Price list \<Rightarrow> Subscription \<Rightarrow> Plan \<Rightarrow> billing_error + UpdateItem list" where
  "change_items cat prices sub plan =
     (case priceIDs prices of
        Inl err \<Rightarrow> Inl (ApiError err)
      | Inr ids \<Rightarrow>
          (case item_updates cat (sb_items sub) (planItems cat plan) of (ups, left) \<Rightarrow>
             (case new_items ids left (sort (map fst left)) of Inl err \<Rightarrow> Inl err | Inr news \<Rightarrow> Inr (ups @ news))))"

definition ChangePlan :: "(string \<Rightarrow> string + Subscription) \<Rightarrow> string + Price list \<Rightarrow> (string \<Rightarrow> SubscriptionUpdate \<Rightarrow> string option) \<Rightarrow>
    ProductList \<Rightarrow> (string \<Rightarrow> string + SiteStores) option \<Rightarrow> string list \<Rightarrow> Account \<Rightarrow> string \<Rightarrow> Plan \<Rightarrow> (string \<Rightarrow> unit bop) \<Rightarrow>
    bstate \<Rightarrow> change_result \<times> bstate" where
  "ChangePlan get prices update cat stores games account sub_id new_plan reconcile s =
     (case get sub_id of
        Inl err \<Rightarrow> (refused (ApiError err), s)
      | Inr sub \<Rightarrow>
          (case PlanFromMetadata (sb_metadata sub) of
             Inl err \<Rightarrow> (refused err, s)
           | Inr (current, account_id) \<Rightarrow>
               if \<not> owns account sub account_id then (refused (NotOwner sub_id (a_id account)), s)
               else (case Validate cat games True (new_plan\<lparr>pl_interval := pl_interval current\<rparr>) of
                   Inl err \<Rightarrow> (refused err, s)
                 | Inr plan \<Rightarrow>
                     (case Plan_Resolve cat stores plan of
                        Inl err \<Rightarrow> (refused err, s)
                      | Inr resolved \<Rightarrow>
                          (case change_items cat prices sub plan of
                             Inl err \<Rightarrow> (\<lparr>cr_resolved = Some resolved, cr_error = Some err, cr_sent = None\<rparr>, s)
                           | Inr items \<Rightarrow>
                               let upd = plan_update cat account current plan items;
                                   res = \<lparr>cr_resolved = Some resolved, cr_error = None, cr_sent = Some upd\<rparr>
                               in case update sub_id upd of
                                    Some err \<Rightarrow> (res\<lparr>cr_error := Some (ApiError err)\<rparr>, s)
                                  | None \<Rightarrow>
                                      (case reconcile sub_id s of
                                         (Inl _, s') \<Rightarrow> (res\<lparr>cr_error := Some ErrChangeNotReconciled\<rparr>, s')
                                       | (Inr _, s') \<Rightarrow> (res, s')))))))"

section \<open>What Stripe does with an update\<close>

text \<open>
  An item named by its id is deleted or resized, an item with a price is added; metadata is merged
  key by key, and an empty value removes its key.
\<close>

definition updated_item :: "UpdateItem list \<Rightarrow> SubscriptionItem \<Rightarrow> SubscriptionItem list" where
  "updated_item ups it =
     (case find (\<lambda>u. ui_id u = Some (si_id it)) ups of
        None \<Rightarrow> [it]
      | Some u \<Rightarrow> if ui_deleted u then [] else [case ui_quantity u of Some q \<Rightarrow> it\<lparr>si_quantity := q\<rparr> | None \<Rightarrow> it])"

definition added_item :: "Price list \<Rightarrow> UpdateItem \<Rightarrow> SubscriptionItem list" where
  "added_item prices u =
     (case ui_price u of
        None \<Rightarrow> []
      | Some i \<Rightarrow> [\<lparr>si_id = ''new_'' @ i, si_price = find (\<lambda>p. pr_id p = i) prices,
                     si_quantity = (case ui_quantity u of Some q \<Rightarrow> q | None \<Rightarrow> 1), si_period_start = 0\<rparr>])"

definition merge_metadata :: "(string \<times> string) list \<Rightarrow> (string \<times> string) list \<Rightarrow> (string \<times> string) list" where
  "merge_metadata new old = foldl (\<lambda>m (k, v). if v = [] then AList.delete k m else AList.update k v m) old new"

definition stripe_update :: "Price list \<Rightarrow> SubscriptionUpdate \<Rightarrow> Subscription \<Rightarrow> Subscription" where
  "stripe_update prices u sub =
     sub\<lparr>sb_items := concat (map (updated_item (su_items u)) (sb_items sub)) @ concat (map (added_item prices) (su_items u)),
         sb_metadata := merge_metadata (su_metadata u) (sb_metadata sub)\<rparr>"

section \<open>Lemmas\<close>

lemma distinct_foldl_update: "distinct (map fst m) \<Longrightarrow> distinct (map fst (foldl (\<lambda>m x. AList.update (f x) (g x) m) m xs))"
  by (induction xs arbitrary: m) (simp_all add: distinct_update)

lemma distinct_planItems: "distinct (map fst (planItems cat plan))"
  unfolding planItems_def by (rule distinct_foldl_update) simp

lemma set_update_new: "k \<notin> fst ` set m \<Longrightarrow> set (AList.update k v m) = insert (k, v) (set m)"
  by (induction m) auto

text \<open>With distinct keys, the items found are just the items.\<close>

lemma count_items_set:
  assumes "\<forall>it \<in> set its. si_price it \<noteq> None" "distinct (map (item_key cat) its)" "item_key cat ` set its \<inter> fst ` set m = {}"
  shows "set (foldl (count_item cat) m its) = set m \<union> (\<lambda>it. (item_key cat it, si_quantity it)) ` set its"
  using assms
proof (induction its arbitrary: m)
  case (Cons it its)
  obtain p where p: "si_price it = Some p" using Cons.prems(1) by auto
  have n: "item_key cat it \<notin> fst ` set m" using Cons.prems(3) by auto
  then have "map_of m (item_key cat it) = None" by (simp add: map_of_eq_None_iff)
  then have c: "count_item cat m it = AList.update (item_key cat it) (si_quantity it) m"
    by (simp add: count_item_def p item_key_def Let_def)
  have "set (foldl (count_item cat) (count_item cat m it) its) =
      set (count_item cat m it) \<union> (\<lambda>it. (item_key cat it, si_quantity it)) ` set its"
    using Cons.prems n by (intro Cons.IH) (auto simp: c set_update_new)
  then show ?case using n by (simp add: c set_update_new)
qed simp

lemma item_updates_ids: "u \<in> set (fst (item_updates cat its want)) \<Longrightarrow> ui_price u = None \<and> (\<exists>it \<in> set its. ui_id u = Some (si_id it))"
  by (induction cat its want rule: item_updates.induct)
     (auto simp: Let_def delete_item_def resize_item_def split: option.splits if_splits prod.splits)

lemma updated_item_append:
  assumes "\<forall>u \<in> set us. ui_id u \<noteq> Some (si_id it)"
  shows "updated_item (us @ vs) it = updated_item vs it" "updated_item (vs @ us) it = updated_item vs it"
proof -
  have n: "find (\<lambda>u. ui_id u = Some (si_id it)) us = None" using assms by (auto simp: find_None_iff)
  have a: "find P (xs @ ys) = (case find P xs of Some x \<Rightarrow> Some x | None \<Rightarrow> find P ys)" for P and xs ys :: "UpdateItem list"
    by (induction xs) auto
  show "updated_item (us @ vs) it = updated_item vs it" "updated_item (vs @ us) it = updated_item vs it"
    unfolding updated_item_def a n by (simp_all split: option.splits)
qed

lemma item_key_updated [simp]: "item_key cat (it\<lparr>si_quantity := q\<rparr>) = item_key cat it"
  by (simp add: item_key_def)

text \<open>The existing items after their updates, with what is left over, are the wanted items.\<close>

definition items_match :: "ProductList \<Rightarrow> SubscriptionItem list \<Rightarrow> (string \<times> int) list \<Rightarrow> (string \<times> int) list \<Rightarrow> bool" where
  "items_match cat kept left want \<longleftrightarrow> distinct (map fst left) \<and>
     (\<lambda>it. (item_key cat it, si_quantity it)) ` set kept \<union> set left = set want \<and>
     distinct (map (item_key cat) kept) \<and> item_key cat ` set kept \<inter> fst ` set left = {} \<and> (\<forall>it \<in> set kept. si_price it \<noteq> None)"

lemma items_match_Cons:
  assumes m: "items_match cat kept left (AList.delete k want)" and w: "map_of want k = Some q" "distinct (map fst want)"
    and it: "item_key cat it = k" "si_quantity it = q" "si_price it \<noteq> None"
  shows "items_match cat (it # kept) left want"
proof -
  have "(k, q) \<in> set want" using w(1) by (rule map_of_SomeD)
  then have s: "set want = insert (k, q) (set (AList.delete k want))"
    using w(2) by (auto simp: AList.delete_eq eq_key_imp_eq_value)
  have k: "k \<notin> fst ` set (AList.delete k want)" by (auto simp: AList.delete_eq)
  moreover have "fst ` ((\<lambda>it. (item_key cat it, si_quantity it)) ` set kept \<union> set left) = fst ` set (AList.delete k want)"
    using m by (simp only: items_match_def)
  then have "item_key cat ` set kept \<union> fst ` set left = fst ` set (AList.delete k want)" by (simp only: image_Un image_image fst_conv)
  ultimately have "k \<notin> item_key cat ` set kept" "k \<notin> fst ` set left" by blast+
  then show ?thesis using m it unfolding items_match_def s by auto
qed

lemma item_updates_match:
  assumes "distinct (map si_id its)" "distinct (map fst want)" "[] \<notin> fst ` set want"
  shows "items_match cat (concat (map (updated_item (fst (item_updates cat its want))) its)) (snd (item_updates cat its want)) want"
  using assms
proof (induction cat its want rule: item_updates.induct)
  case (1 cat want)
  then show ?case by (simp add: items_match_def)
next
  case (2 cat it its want)
  let ?k = "item_key cat it"
  obtain rest left where r: "item_updates cat its (AList.delete ?k want) = (rest, left)" by fastforce
  have IH: "items_match cat (concat (map (updated_item rest) its)) left (AList.delete ?k want)"
  proof -
    have "distinct (map fst (AList.delete ?k want))" "[] \<notin> fst ` set (AList.delete ?k want)"
      using distinct_delete [OF "2.prems"(2), of ?k] "2.prems"(3) by (simp, auto simp: AList.delete_eq)
    then show ?thesis using "2.IH" [OF refl refl] "2.prems"(1) r by simp
  qed
  have rest: "\<forall>u \<in> set rest. ui_id u \<noteq> Some (si_id it)"
  proof
    fix u assume "u \<in> set rest"
    then obtain it' where "it' \<in> set its" "ui_id u = Some (si_id it')" using item_updates_ids [of u cat its "AList.delete ?k want"] r by auto
    then show "ui_id u \<noteq> Some (si_id it)" using "2.prems"(1) by (force simp: image_iff)
  qed
  have tail: "concat (map (updated_item (h @ rest)) its) = concat (map (updated_item rest) its)" if "\<forall>u \<in> set h. ui_id u = Some (si_id it)" for h
    using that "2.prems"(1) by (intro arg_cong [where f = concat] map_cong refl updated_item_append) force
  show ?case
  proof (cases "map_of want ?k")
    case None
    then have d: "AList.delete ?k want = want" by (intro delete_id) (simp add: map_of_eq_None_iff)
    have "updated_item (delete_item (si_id it) # rest) it = []" by (simp add: updated_item_def delete_item_def)
    moreover have "concat (map (updated_item (delete_item (si_id it) # rest)) its) = concat (map (updated_item rest) its)"
      using tail [of "[delete_item (si_id it)]"] by (simp add: delete_item_def)
    moreover have "item_updates cat (it # its) want = (delete_item (si_id it) # rest, left)" using None r by (simp add: Let_def)
    ultimately show ?thesis using IH by (simp add: d)
  next
    case (Some q)
    have p: "si_price it \<noteq> None" using Some "2.prems"(3) map_of_SomeD [OF Some] by (force simp: item_key_def split: option.splits)
    show ?thesis
    proof (cases "q = si_quantity it")
      case True
      have "updated_item rest it = [it]" using updated_item_append(1) [OF rest, of "[]"] by (simp add: updated_item_def)
      then show ?thesis using items_match_Cons [OF IH Some "2.prems"(2) refl _ p] True Some r by (simp add: Let_def)
    next
      case False
      have "updated_item (resize_item (si_id it) q # rest) it = [it\<lparr>si_quantity := q\<rparr>]" by (simp add: updated_item_def resize_item_def)
      moreover have "concat (map (updated_item (resize_item (si_id it) q # rest)) its) = concat (map (updated_item rest) its)"
        using tail [of "[resize_item (si_id it) q]"] by (simp add: resize_item_def)
      moreover have "item_updates cat (it # its) want = (resize_item (si_id it) q # rest, left)" using False Some r by (simp add: Let_def)
      ultimately show ?thesis using items_match_Cons [OF IH Some "2.prems"(2), of "it\<lparr>si_quantity := q\<rparr>"] p by simp
    qed
  qed
qed

lemma new_items_added:
  assumes "new_items ids want ks = Inr news"
  shows "map ui_price news = map (map_of ids) ks" "\<forall>u \<in> set news. ui_id u = None"
    "map ui_quantity news = map (\<lambda>k. Some (case map_of want k of Some q \<Rightarrow> q | None \<Rightarrow> 0)) ks" "\<forall>k \<in> set ks. map_of ids k \<noteq> None"
  using assms by (induction ids want ks arbitrary: news rule: new_items.induct) (auto simp: add_item_def split: option.splits sum.splits)


lemma priceIDs_sound:
  assumes "priceIDs (Inr prices) = Inr ids" "map_of ids k = Some i"
  shows "\<exists>p \<in> set prices. pr_id p = i \<and> pr_lookup_key p = k \<and> k \<noteq> []"
proof -
  let ?step = "\<lambda>ids p. if pr_active p \<and> pr_lookup_key p \<noteq> [] then AList.update (pr_lookup_key p) (pr_id p) ids else ids"
  have "map_of (foldl ?step m ps) k = Some i \<Longrightarrow> map_of m k = Some i \<or> (\<exists>p \<in> set ps. pr_id p = i \<and> pr_lookup_key p = k \<and> k \<noteq> [])" for m ps
    by (induction ps arbitrary: m) (fastforce simp: update_conv split: if_splits)+
  then show ?thesis using assms by (fastforce simp: priceIDs_def)
qed

lemma find_price: "distinct (map pr_id prices) \<Longrightarrow> p \<in> set prices \<Longrightarrow> find (\<lambda>x. pr_id x = pr_id p) prices = Some p"
  by (induction prices) (auto simp: image_iff)

text \<open>The new items have the prices of the keys they are for.\<close>

lemma added_items:
  assumes n: "new_items ids left ks = Inr news" and ids: "priceIDs (Inr prices) = Inr ids" and d: "distinct (map pr_id prices)"
    and l: "\<forall>k \<in> set ks. map_of left k = Some (q k)"
  shows "map (\<lambda>it. (item_key cat it, si_quantity it)) (concat (map (added_item prices) news)) = map (\<lambda>k. (k, q k)) ks \<and>
    (\<forall>it \<in> set (concat (map (added_item prices) news)). si_price it \<noteq> None)"
  using n l
proof (induction ks arbitrary: news)
  case (Cons k ks)
  obtain i rest where k: "map_of ids k = Some i" "new_items ids left ks = Inr rest" "news = add_item i (q k) # rest"
    using Cons.prems by (auto split: option.splits sum.splits)
  obtain p where p: "p \<in> set prices" "pr_id p = i" "pr_lookup_key p = k" "k \<noteq> []" using priceIDs_sound [OF ids k(1)] by blast
  have f: "find (\<lambda>x. pr_id x = i) prices = Some p" using find_price [OF d p(1)] p(2) by simp
  show ?case using Cons.IH [OF k(2)] Cons.prems(2) by (simp add: k(3) added_item_def add_item_def f item_key_def priceLookupKey_def p(3,4))
qed simp

lemma items_match_complete:
  assumes m: "items_match cat kept left want" and w: "distinct (map fst want)"
    and a: "map (\<lambda>it. (item_key cat it, si_quantity it)) new = map (\<lambda>k. (k, the (map_of left k))) (sort (map fst left))"
      "\<forall>it \<in> set new. si_price it \<noteq> None"
  shows "set (foldl (count_item cat) [] (kept @ new)) = set want"
proof -
  have l: "distinct (map fst left)" using m by (simp add: items_match_def)
  have k: "map (item_key cat) new = sort (map fst left)" using arg_cong [OF a(1), of "map fst"] by (simp add: comp_def)
  then have kn: "item_key cat ` set new = fst ` set left" by (metis set_map set_sort)
  have "(\<lambda>k. (k, the (map_of left k))) ` fst ` set left = set left"
  proof -
    have "(fst x, the (map_of left (fst x))) = x" if "x \<in> set left" for x using map_of_is_SomeI [OF l, of "fst x" "snd x"] that by simp
    then show ?thesis by (simp add: image_image)
  qed
  then have nw: "(\<lambda>it. (item_key cat it, si_quantity it)) ` set new = set left"
    using arg_cong [OF a(1), of set] by simp
  have "set (foldl (count_item cat) [] (kept @ new)) = set ([] :: (string \<times> int) list) \<union> (\<lambda>it. (item_key cat it, si_quantity it)) ` set (kept @ new)"
  proof (rule count_items_set)
    show "\<forall>it \<in> set (kept @ new). si_price it \<noteq> None" using m a(2) by (auto simp: items_match_def)
    show "distinct (map (item_key cat) (kept @ new))" using m l k kn by (simp add: items_match_def)
  qed simp
  then show ?thesis using m nw by (simp add: items_match_def image_Un)
qed

lemma change_items_match:
  assumes c: "change_items cat (Inr prices) sub plan = Inr items" and d: "distinct (map si_id (sb_items sub))" "distinct (map pr_id prices)"
    and k: "\<forall>k iv. ct_lookup_key cat k iv \<noteq> []"
  shows "set (foldl (count_item cat) [] (concat (map (updated_item items) (sb_items sub)) @ concat (map (added_item prices) items))) = set (planItems cat plan)"
proof -
  let ?want = "planItems cat plan"
  obtain ids where ids: "priceIDs (Inr prices) = Inr ids" by (simp add: priceIDs_def)
  obtain ups left where u: "item_updates cat (sb_items sub) ?want = (ups, left)" by fastforce
  obtain news where n: "new_items ids left (sort (map fst left)) = Inr news" "items = ups @ news"
    using c ids u by (auto simp: change_items_def split: sum.splits)
  have w: "[] \<notin> fst ` set ?want"
  proof -
    have "[] \<notin> fst ` set (foldl (\<lambda>m li. AList.update (li_lookup_key li) (li_quantity li) m) m lis)"
      if "[] \<notin> fst ` set m" "\<forall>li \<in> set lis. li_lookup_key li \<noteq> []" for m and lis :: "LineItem list"
      using that
    proof (induction lis arbitrary: m)
      case (Cons li lis)
      then have "[] \<notin> fst ` set (AList.update (li_lookup_key li) (li_quantity li) m)" unfolding dom_update by auto
      then show ?case using Cons by simp
    qed simp
    moreover have "\<forall>li \<in> set (LineItems cat plan). li_lookup_key li \<noteq> []" using k by (auto simp: LineItems_def Let_def addonItem_def)
    ultimately show ?thesis by (simp add: planItems_def)
  qed
  have m: "items_match cat (concat (map (updated_item ups) (sb_items sub))) left ?want"
    using item_updates_match [OF d(1) distinct_planItems w, of cat] u by simp
  have "distinct (map fst left)" using m by (simp add: items_match_def)
  then have l: "\<forall>k \<in> set (sort (map fst left)). map_of left k = Some (the (map_of left k))" by (auto simp: map_of_eq_Some_iff)
  have "updated_item items = updated_item ups"
    unfolding n(2) by (rule ext, rule updated_item_append) (simp add: new_items_added(2) [OF n(1)])
  moreover have "concat (map (added_item prices) items) = concat (map (added_item prices) news)"
    using item_updates_ids [of _ cat "sb_items sub" ?want] u by (auto simp: added_item_def n(2))
  moreover note items_match_complete [OF m distinct_planItems, OF conjunct1 conjunct2, OF added_items [OF n(1) ids d(2) l, of cat] added_items [OF n(1) ids d(2) l, of cat]]
  ultimately show ?thesis by simp
qed


lemma Plan_Resolve_plan: "Plan_Resolve cat stores p = Inr r \<Longrightarrow> rz_plan r = p"
  by (auto simp: Plan_Resolve_def Let_def split: prod.splits if_splits option.splits sum.splits)

lemma Validate_interval: "Validate cat games ok p = Inr q \<Longrightarrow> pl_interval q = pl_interval p"
  by (auto simp: Validate_def split: sum.splits option.splits if_splits elim!: Normalize_Inr)

lemma meta_merge:
  assumes "distinct (map fst new)" "distinct (map fst old)" "k \<in> fst ` set new"
  shows "meta (merge_metadata new old) k = meta new k"
proof -
  have "map_of (foldl (\<lambda>m (k, v). if v = [] then AList.delete k m else AList.update k v m) old new) k =
      (case map_of new k of None \<Rightarrow> map_of old k | Some v \<Rightarrow> if v = [] then None else Some v)" if "distinct (map fst new)" for new
    using that
  proof (induction new arbitrary: old)
    case (Cons x new)
    obtain k' v where x: "x = (k', v)" by fastforce
    have n: "map_of new k' = None" using Cons.prems by (simp add: x map_of_eq_None_iff)
    show ?case using Cons n by (auto simp: x update_conv delete_conv split: option.splits)
  qed simp
  then show ?thesis using assms(1,3) by (auto simp: meta_def merge_metadata_def map_of_eq_None_iff split: option.splits)
qed

lemma ChangePlan_sent:
  assumes "ChangePlan get prices update cat stores games account sub_id new_plan reconcile s = (res, s')" "cr_sent res = Some upd"
  obtains sub current aid plan resolved items where "get sub_id = Inr sub" "PlanFromMetadata (sb_metadata sub) = Inr (current, aid)"
    "owns account sub aid" "Validate cat games True (new_plan\<lparr>pl_interval := pl_interval current\<rparr>) = Inr plan"
    "Plan_Resolve cat stores plan = Inr resolved" "change_items cat prices sub plan = Inr items"
    "upd = plan_update cat account current plan items" "cr_resolved res = Some resolved"
  using assms by (auto simp: ChangePlan_def refused_def Let_def split: sum.splits if_splits option.splits prod.splits)

section \<open>Properties\<close>

text \<open>C25: A plan change that reaches Stripe is for a subscription of the account, keeps its billing
  interval, and is complete: once Stripe has applied the update, the subscription's items are
  exactly those the new plan bills, each once and at its quantity, whatever items it had, and the
  metadata reads back as the new plan's. The charge is immediate exactly when the price rises.
  Stripe's item ids and price ids are taken to be unique, and no lookup key to be empty.\<close>

theorem ChangePlan_complete:
  assumes "ChangePlan get (Inr prices) update cat stores games account sub_id new_plan reconcile s = (res, s')" "cr_sent res = Some upd"
    "get sub_id = Inr sub" "distinct (map si_id (sb_items sub))" "distinct (map pr_id prices)" "distinct (map fst (sb_metadata sub))"
    "\<forall>k iv. ct_lookup_key cat k iv \<noteq> []"
  shows "\<exists>current aid r. PlanFromMetadata (sb_metadata sub) = Inr (current, aid) \<and> owns account sub aid \<and>
    cr_resolved res = Some r \<and> pl_interval (rz_plan r) = pl_interval current \<and>
    itemMismatch cat (rz_plan r) (stripe_update prices upd sub) = None \<and>
    PlanFromMetadata (sb_metadata (stripe_update prices upd sub)) = PlanFromMetadata (Metadata (rz_plan r) (a_id account)) \<and>
    (su_proration upd = ''always_invoice'' \<longleftrightarrow>
       (\<exists>a b. Total cat current = Inr a \<and> Total cat (rz_plan r) = Inr b \<and> a < b)) \<and>
    (su_payment upd = Some ''error_if_incomplete'' \<longleftrightarrow> su_proration upd = ''always_invoice'')"
proof -
  obtain current aid plan r items where c: "PlanFromMetadata (sb_metadata sub) = Inr (current, aid)" "owns account sub aid"
    "Validate cat games True (new_plan\<lparr>pl_interval := pl_interval current\<rparr>) = Inr plan" "Plan_Resolve cat stores plan = Inr r"
    "change_items cat (Inr prices) sub plan = Inr items" "upd = plan_update cat account current plan items" "cr_resolved res = Some r"
    by (rule ChangePlan_sent [OF assms(1,2)]) (simp add: assms(3))
  have p: "rz_plan r = plan" by (rule Plan_Resolve_plan [OF c(4)])
  have "itemMismatch cat plan (stripe_update prices upd sub) = None"
    using change_items_match [OF c(5) assms(4,5,7)] by (simp add: itemMismatch_def Let_def stripe_update_def c(6) plan_update_def)
  moreover have "PlanFromMetadata (sb_metadata (stripe_update prices upd sub)) = PlanFromMetadata (Metadata plan (a_id account))"
    using assms(6) by (simp add: PlanFromMetadata_def stripe_update_def c(6) plan_update_def Let_def meta_merge Metadata_def)
  moreover have "su_proration upd = prorationBehavior current plan cat" "su_payment upd = (if su_proration upd = ''always_invoice'' then Some ''error_if_incomplete'' else None)"
    by (simp_all add: c(6) plan_update_def Let_def)
  moreover have "prorationBehavior current plan cat = ''always_invoice'' \<longleftrightarrow> (\<exists>a b. Total cat current = Inr a \<and> Total cat plan = Inr b \<and> a < b)"
    by (auto simp: prorationBehavior_def split: sum.splits)
  ultimately show ?thesis using c(1,2,7) Validate_interval [OF c(3)] p by simp
qed


text \<open>The sample subscription moved to two games, two stores and a mode.\<close>

definition sample_prices :: "Price list" where
  "sample_prices = map (\<lambda>k. \<lparr>pr_id = ''price_'' @ k, pr_lookup_key = k @ ''_month'', pr_active = True, pr_metadata = []\<rparr>)
     [''pro'', ''extra_store'', ''extra_game'', ''buylist_mode'']"

definition sample_account :: Account where
  "sample_account = \<lparr>a_id = 1, a_email = ''ann@example.com'', a_status = AccountActive, a_created_at = 5, a_note = [], a_stripe_customer_id = [],
     a_session_epoch = 0\<rparr>"

definition sample_change :: "bstate \<Rightarrow> change_result \<times> bstate" where
  "sample_change = ChangePlan (\<lambda>_. Inr (sample_sub SubscriptionActive)) (Inr sample_prices) (\<lambda>_ _. None) sample_catalog (Some sample_site)
     [''lorcana'', ''magic''] sample_account ''sub_1'' sample_choice (\<lambda>_. Pair (Inr ()))"

theorem ChangePlan_complete_witness:
  "\<exists>res s' upd r. sample_change sample_bstate = (res, s') \<and> cr_sent res = Some upd \<and> cr_resolved res = Some r \<and>
     itemMismatch sample_catalog (rz_plan r) (stripe_update sample_prices upd (sample_sub SubscriptionActive)) = None"
proof -
  obtain res s' where c: "sample_change sample_bstate = (res, s')" by fastforce
  have "map_option (\<lambda>u. length (su_items u)) (cr_sent (fst (sample_change sample_bstate))) = Some 3" by code_simp
  then obtain upd where u: "cr_sent res = Some upd" using c by auto
  have "distinct (map si_id (sb_items (sample_sub SubscriptionActive)))" "distinct (map fst (sb_metadata (sample_sub SubscriptionActive)))"
    "distinct (map pr_id sample_prices)" "\<forall>k iv. ct_lookup_key sample_catalog k iv \<noteq> []"
    by (simp_all add: sample_sub_def sample_prices_def sample_catalog_def)
  from ChangePlan_complete [OF c [unfolded sample_change_def] u refl this(1,3,2,4)] show ?thesis using c u by blast
qed

end
