(* ===== verification/Billing_Checkout.thy ===== *)
theory Billing_Checkout
  imports Billing_Change
begin

text \<open>
  \<open>src/billing/checkout.go\<close> and \<open>portal.go\<close>: hosted checkout sessions. Stripe's answers are the
  fields of \<open>stripe_api\<close>; the calls made to it that change something there are recorded in order.
\<close>

section \<open>Stripe\<close>

record SessionParams =
  sp_customer :: string
  sp_client_reference :: string
  sp_success_url :: string
  sp_cancel_url :: string
  sp_line_items :: "(string \<times> int) list"
  sp_metadata :: "(string \<times> string) list"

record Session =
  cs_id :: string
  cs_url :: string

datatype stripe_call = CreateCustomerCall string "(string \<times> string) list" | ExpireSessionCall string | is_CreateSessionCall: CreateSessionCall SessionParams

record stripe_api =
  sa_prices :: "string + Price list"
  sa_customer :: "string \<Rightarrow> string + string"
  sa_open :: "string \<Rightarrow> string + string list"
  sa_expire :: "string \<Rightarrow> string + string"
  sa_session :: "SessionParams \<Rightarrow> string + Session"
  sa_portal :: "string \<Rightarrow> string \<Rightarrow> string + string"

record checkout_state =
  co_db :: db
  co_calls :: "stripe_call list"

type_synonym 'a cop = "checkout_state \<Rightarrow> (billing_error + 'a) \<times> checkout_state"

definition co_store :: "'a op \<Rightarrow> 'a cop" where
  "co_store f s = (case f (co_db s) of (r, d) \<Rightarrow> (case r of Inl e \<Rightarrow> Inl (StoreError e) | Inr x \<Rightarrow> Inr x, s\<lparr>co_db := d\<rparr>))"

definition co_call :: "stripe_call \<Rightarrow> string + 'a \<Rightarrow> 'a cop" where
  "co_call c answer s = (case answer of Inl e \<Rightarrow> Inl (ApiError e) | Inr x \<Rightarrow> Inr x, s\<lparr>co_calls := co_calls s @ [c]\<rparr>)"

definition co_then :: "'a cop \<Rightarrow> ('a \<Rightarrow> 'b cop) \<Rightarrow> 'b cop" where
  "co_then f g s = (case f s of (Inl e, s') \<Rightarrow> (Inl e, s') | (Inr x, s') \<Rightarrow> g x s')"

definition co_give :: "billing_error + 'a \<Rightarrow> 'a cop" where
  "co_give r s = (r, s)"

section \<open>Checkout\<close>

record Checkout =
  ck_catalog :: ProductList
  ck_stores :: "(string \<Rightarrow> string + SiteStores) option"
  ck_games :: "string list"
  ck_success_url :: string
  ck_cancel_url :: string

record Request =
  rq_account :: Account
  rq_plan :: Plan
  rq_invite :: string
  rq_resolved :: "ResolvedPlan option"

fun price_items :: "(string \<times> string) list \<Rightarrow> LineItem list \<Rightarrow> billing_error + (string \<times> int) list" where
  "price_items ids [] = Inr []"
| "price_items ids (li # lis) =
     (case map_of ids (li_lookup_key li) of
        None \<Rightarrow> Inl (ErrPriceNotSeeded (li_lookup_key li))
      | Some i \<Rightarrow> (case price_items ids lis of Inl e \<Rightarrow> Inl e | Inr rest \<Rightarrow> Inr ((i, li_quantity li) # rest)))"

definition lineItems :: "Checkout \<Rightarrow> stripe_api \<Rightarrow> Plan \<Rightarrow> billing_error + (string \<times> int) list" where
  "lineItems c api plan =
     (case priceIDs (sa_prices api) of Inl e \<Rightarrow> Inl (ApiError e) | Inr ids \<Rightarrow> price_items ids (LineItems (ck_catalog c) plan))"

definition ensureCustomer :: "stripe_api \<Rightarrow> Account \<Rightarrow> (string \<times> bool) cop" where
  "ensureCustomer api a =
     (if a_stripe_customer_id a \<noteq> [] then co_give (Inr (a_stripe_customer_id a, False))
      else co_then (co_call (CreateCustomerCall (a_email a) [(''account_id'', format_int (a_id a))]) (sa_customer api (a_email a))) (\<lambda>cust.
           co_then (co_store (SetStripeCustomerID (a_id a) cust)) (\<lambda>i. co_give (Inr (i, i = cust)))))"

text \<open>A failed expire is only logged.\<close>

fun expire_each :: "stripe_api \<Rightarrow> string list \<Rightarrow> checkout_state \<Rightarrow> checkout_state" where
  "expire_each api [] s = s"
| "expire_each api (i # is) s = expire_each api is (snd (co_call (ExpireSessionCall i) (sa_expire api i) s))"

definition expireOpenSessions :: "stripe_api \<Rightarrow> string \<Rightarrow> unit cop" where
  "expireOpenSessions api customer s =
     (case sa_open api customer of Inl e \<Rightarrow> (Inl (ApiError e), s) | Inr ids \<Rightarrow> (Inr (), expire_each api ids s))"

definition session_params :: "Checkout \<Rightarrow> Account \<Rightarrow> Plan \<Rightarrow> string \<Rightarrow> (string \<times> int) list \<Rightarrow> SessionParams" where
  "session_params c a plan customer items =
     \<lparr>sp_customer = customer, sp_client_reference = format_int (a_id a), sp_success_url = ck_success_url c, sp_cancel_url = ck_cancel_url c,
      sp_line_items = items, sp_metadata = Metadata plan (a_id a)\<rparr>"

definition checkout_session :: "Checkout \<Rightarrow> stripe_api \<Rightarrow> Account \<Rightarrow> Plan \<Rightarrow> Session cop" where
  "checkout_session c api a plan =
     co_then (co_give (lineItems c api plan)) (\<lambda>items.
     co_then (ensureCustomer api a) (\<lambda>(customer, created).
     co_then (if created then co_give (Inr ()) else expireOpenSessions api customer) (\<lambda>_.
     let params = session_params c a plan customer items in co_call (CreateSessionCall params) (sa_session api params))))"

text \<open>The deferred release runs whenever what follows the claim of the invite fails; its own failure is only logged.\<close>

definition with_invite :: "Request \<Rightarrow> time \<Rightarrow> Plan \<Rightarrow> Session cop \<Rightarrow> Session cop" where
  "with_invite rq now plan rest =
     co_then (co_store (ConsumeInvite (rq_invite rq) (a_email (rq_account rq)) now)) (\<lambda>inv s.
       case (if iv_interval_key inv \<noteq> pl_interval plan then co_give (Inl (WrongInviteInterval (iv_interval_key inv) (pl_interval plan))) else rest) s of
         (Inr sess, s') \<Rightarrow> (Inr sess, s')
       | (Inl e, s') \<Rightarrow> (Inl e, snd (co_store (ReleaseInvite (rq_invite rq)) s')))"

definition Checkout_Create :: "Checkout \<Rightarrow> stripe_api \<Rightarrow> time \<Rightarrow> Request \<Rightarrow> Session cop" where
  "Checkout_Create c api now rq =
     (if a_status (rq_account rq) \<noteq> AccountActive then co_give (Inl (AccountNotActive (a_id (rq_account rq))))
      else co_then (co_store (ListEntitlements (a_id (rq_account rq)))) (\<lambda>ents.
        if HasActiveStripePlan ents then co_give (Inl ErrHasPlan)
        else co_then (co_give (Validate (ck_catalog c) (ck_games c) (rq_invite rq \<noteq> []) (rq_plan rq))) (\<lambda>plan.
          co_then (if map_option rz_plan (rq_resolved rq) = Some plan then co_give (Inr ())
                   else co_give (map_sum id (\<lambda>_. ()) (Plan_Resolve (ck_catalog c) (ck_stores c) plan))) (\<lambda>_.
            let rest = checkout_session c api (rq_account rq) plan in
            if in_public (fst (ct_interval (ck_catalog c) (pl_interval plan))) then rest else with_invite rq now plan rest))))"

definition Abandon :: "stripe_api \<Rightarrow> string \<Rightarrow> string \<Rightarrow> unit cop" where
  "Abandon api session_id invite =
     co_then (co_call (ExpireSessionCall session_id) (sa_expire api session_id)) (\<lambda>status.
       if status \<noteq> ''expired'' then co_give (Inl (SessionNotExpired session_id))
       else if invite = [] then co_give (Inr ()) else co_store (ReleaseInvite invite))"

section \<open>The customer portal\<close>

definition PortalURL :: "stripe_api \<Rightarrow> Account \<Rightarrow> string \<Rightarrow> billing_error + string" where
  "PortalURL api a return_url =
     (if a_stripe_customer_id a = [] then Inl ErrNoCustomer
      else case sa_portal api (a_stripe_customer_id a) return_url of Inl e \<Rightarrow> Inl (ApiError e) | Inr url \<Rightarrow> Inr url)"


section \<open>Lemmas: invites\<close>

text \<open>An operation that, while the database answers, keeps it so and leaves the invites alone.\<close>

definition spares :: "'a cop \<Rightarrow> bool" where
  "spares f \<longleftrightarrow> (\<forall>s. db_faults (co_db s) = [] \<longrightarrow>
     db_faults (co_db (snd (f s))) = [] \<and> db_invites (co_db (snd (f s))) = db_invites (co_db s))"

lemma sparesD: "spares f \<Longrightarrow> f s = (r, s') \<Longrightarrow> db_faults (co_db s) = [] \<Longrightarrow> db_faults (co_db s') = [] \<and> db_invites (co_db s') = db_invites (co_db s)"
  unfolding spares_def by (metis snd_conv)

lemma spares_give: "spares (co_give r)" and spares_call: "spares (co_call c ans)"
  by (simp_all add: spares_def co_give_def co_call_def)

lemma spares_then: "spares f \<Longrightarrow> (\<And>x. spares (g x)) \<Longrightarrow> spares (co_then f g)"
  unfolding spares_def co_then_def by (auto split: prod.splits sum.splits)

lemma spares_SetStripeCustomerID: "spares (co_store (SetStripeCustomerID aid cust))"
  by (auto simp: spares_def co_store_def SetStripeCustomerID_def and_then_def stmt_no_fault need_row_def one_row_def fail_def give_def Let_def
      split: prod.splits list.splits option.splits sum.splits if_splits)

lemma expire_each_db [simp]: "co_db (expire_each api is s) = co_db s"
  by (induction api "is" s rule: expire_each.induct) (simp_all add: co_call_def)

lemma spares_expireOpenSessions: "spares (expireOpenSessions api customer)"
  by (simp add: spares_def expireOpenSessions_def split: sum.splits)

lemma spares_checkout_session: "spares (checkout_session c api a plan)"
  unfolding checkout_session_def ensureCustomer_def Let_def
  by (auto intro!: spares_then spares_give spares_call spares_SetStripeCustomerID spares_expireOpenSessions split: prod.splits)

lemma release_undoes_consume:
  assumes d: "distinct (map iv_token_hash rows)" and l: "filter (invite_live token email now) rows \<noteq> []"
  shows "fst (update_where (\<lambda>i. iv_token_hash i = HashKey token) (\<lambda>i. i\<lparr>iv_used_at := None\<rparr>)
    (fst (update_where (invite_live token email now) (\<lambda>i. i\<lparr>iv_used_at := Some now\<rparr>) rows))) = rows"
proof -
  obtain r where r: "r \<in> set rows" "invite_live token email now r" using l by (auto simp: filter_empty_conv)
  have "i = r" if "i \<in> set rows" "iv_token_hash i = HashKey token" for i
    using d r that unfolding distinct_map invite_live_def by (metis inj_onD)
  then have other: "\<not> invite_live token email now i \<and> iv_token_hash i \<noteq> HashKey token" if "i \<in> set rows" "i \<noteq> r" for i
    using that unfolding invite_live_def by blast
  have used: "iv_used_at r = None" "iv_token_hash r = HashKey token" using r(2) by (simp_all add: invite_live_def)
  let ?use = "\<lambda>i. if invite_live token email now i then i\<lparr>iv_used_at := Some now\<rparr> else i"
  let ?drop = "\<lambda>i. if iv_token_hash i = HashKey token then i\<lparr>iv_used_at := None\<rparr> else i"
  have "?drop (?use i) = i" if "i \<in> set rows" for i
  proof (cases "i = r")
    case True
    then show ?thesis using r(2) used by (simp only: if_True Invite.simps) simp
  next
    case False
    then show ?thesis using other [OF that False] by (simp only: if_False)
  qed
  then show ?thesis unfolding update_where_def fst_conv map_map comp_def by (intro map_idI)
qed

lemma ConsumeInvite_no_fault:
  assumes "db_faults d = []"
  shows "ConsumeInvite token email now d =
    (case filter (invite_live token email now) (db_invites d) of
       [] \<Rightarrow> (Inl ErrInviteInvalid, d)
     | i # _ \<Rightarrow> (Inr (i\<lparr>iv_used_at := Some now\<rparr>), put_invites (fst (update_where (invite_live token email now) (\<lambda>i. i\<lparr>iv_used_at := Some now\<rparr>) (db_invites d))) d))"
proof (cases "filter (invite_live token email now) (db_invites d)")
  case Nil
  then have "map (\<lambda>r. if invite_live token email now r then r\<lparr>iv_used_at := Some now\<rparr> else r) (db_invites d) = db_invites d"
    by (auto simp: filter_empty_conv intro: map_idI)
  then show ?thesis using assms Nil by (simp add: ConsumeInvite_def stmt_no_fault update_where_def one_row_def put_invites_def)
next
  case (Cons i "is")
  then show ?thesis using assms by (simp add: ConsumeInvite_def stmt_no_fault update_where_def one_row_def)
qed

lemma with_invite_outcome:
  assumes ok: "db_ok (co_db s)" and nf: "db_faults (co_db s) = []" and sp: "spares rest" and w: "with_invite rq now plan rest s = (r, s')"
  shows "case r of
      Inl _ \<Rightarrow> db_invites (co_db s') = db_invites (co_db s)
    | Inr sess \<Rightarrow> list_ex (\<lambda>i. invite_live (rq_invite rq) (a_email (rq_account rq)) now i \<and> iv_interval_key i = pl_interval plan) (db_invites (co_db s)) \<and>
        invite_taken (co_db s') (rq_invite rq) \<and> (\<exists>s1. co_calls s1 = co_calls s \<and> rest s1 = (Inr sess, s'))"
proof (cases "filter (invite_live (rq_invite rq) (a_email (rq_account rq)) now) (db_invites (co_db s))")
  case Nil
  then show ?thesis using w nf by (auto simp: with_invite_def co_then_def co_store_def ConsumeInvite_no_fault)
next
  case (Cons i "is")
  let ?rows = "fst (update_where (invite_live (rq_invite rq) (a_email (rq_account rq)) now) (\<lambda>i. i\<lparr>iv_used_at := Some now\<rparr>) (db_invites (co_db s)))"
  let ?s1 = "s\<lparr>co_db := put_invites ?rows (co_db s)\<rparr>"
  have live: "i \<in> set (db_invites (co_db s))" "invite_live (rq_invite rq) (a_email (rq_account rq)) now i"
    using arg_cong [OF Cons, of set] by auto
  have f1: "db_faults (co_db ?s1) = []" "db_invites (co_db ?s1) = ?rows" using nf by (simp_all add: put_invites_def)
  have undo: "db_invites (co_db (snd (co_store (ReleaseInvite (rq_invite rq)) s2))) = db_invites (co_db s)"
    if "db_faults (co_db s2) = []" "db_invites (co_db s2) = ?rows" for s2
    using that release_undoes_consume [OF db_ok_tokens(1) [OF ok], of "rq_invite rq" "a_email (rq_account rq)" now] Cons
    by (simp add: co_store_def ReleaseInvite_def stmt_no_fault put_invites_def)
  have c: "co_store (ConsumeInvite (rq_invite rq) (a_email (rq_account rq)) now) s = (Inr (i\<lparr>iv_used_at := Some now\<rparr>), ?s1)"
    using Cons nf by (simp add: co_store_def ConsumeInvite_no_fault)
  let ?i = "i\<lparr>iv_used_at := Some now\<rparr>"
  obtain q s2 where q: "(if iv_interval_key ?i \<noteq> pl_interval plan then co_give (Inl (WrongInviteInterval (iv_interval_key ?i) (pl_interval plan))) else rest) ?s1 = (q, s2)"
    by fastforce
  then have f2: "db_faults (co_db s2) = []" "db_invites (co_db s2) = ?rows"
    using f1 sparesD [OF sp, of ?s1] by (auto simp: co_give_def split: if_splits)
  have w': "(r, s') = (case q of Inr sess \<Rightarrow> (Inr sess, s2) | Inl e \<Rightarrow> (Inl e, snd (co_store (ReleaseInvite (rq_invite rq)) s2)))"
    using w unfolding with_invite_def co_then_def c prod.case sum.case q by (cases q) auto
  show ?thesis
  proof (cases q)
    case (Inl e)
    then show ?thesis using w' undo [OF f2] by simp
  next
    case (Inr sess)
    then have k: "iv_interval_key i = pl_interval plan" "rest ?s1 = (Inr sess, s2)" using q by (auto simp: co_give_def split: if_splits)
    have "invite_taken (co_db s2) (rq_invite rq)"
      unfolding invite_taken_def f2(2) by (rule list_ex_updated) (auto simp: Cons invite_live_def)
    then show ?thesis using w' Inr k live by (auto simp: list_ex_iff intro!: exI [of _ ?s1])
  qed
qed


section \<open>Lemmas: the calls to Stripe\<close>

lemma co_then_Inr: "co_then f g s = (Inr y, s') \<longleftrightarrow> (\<exists>x s1. f s = (Inr x, s1) \<and> g x s1 = (Inr y, s'))"
  by (auto simp: co_then_def split: prod.splits sum.splits)

lemma co_call_Inr: "co_call c ans s = (Inr x, s') \<longleftrightarrow> ans = Inr x \<and> s' = s\<lparr>co_calls := co_calls s @ [c]\<rparr>"
  by (auto simp: co_call_def split: sum.splits)

lemma co_give_Inr: "co_give r s = (Inr x, s') \<longleftrightarrow> r = Inr x \<and> s' = s"
  by (auto simp: co_give_def)

lemma co_store_calls: "co_store f s = (r, s') \<Longrightarrow> co_calls s' = co_calls s"
  by (auto simp: co_store_def split: prod.splits)

lemma expire_each_calls: "co_calls (expire_each api is s) = co_calls s @ map ExpireSessionCall is"
  by (induction api "is" s rule: expire_each.induct) (simp_all add: co_call_def)

text \<open>A successful session is the last call, and the only one that creates a session; an existing customer's open ones are expired before it.\<close>

lemma checkout_session_calls:
  assumes "checkout_session c api a plan s = (Inr sess, s')"
  shows "\<exists>items customer pre. lineItems c api plan = Inr items \<and>
    co_calls s' = co_calls s @ pre @ [CreateSessionCall (session_params c a plan customer items)] \<and>
    sa_session api (session_params c a plan customer items) = Inr sess \<and> list_all (\<lambda>x. \<not> is_CreateSessionCall x) pre \<and>
    (a_stripe_customer_id a \<noteq> [] \<longrightarrow> customer = a_stripe_customer_id a \<and>
       (\<exists>ids. sa_open api customer = Inr ids \<and> pre = map ExpireSessionCall ids))"
proof -
  obtain items customer created s1 s2 where c: "lineItems c api plan = Inr items" "ensureCustomer api a s = (Inr (customer, created), s1)"
    "(if created then co_give (Inr ()) else expireOpenSessions api customer) s1 = (Inr (), s2)"
    "co_call (CreateSessionCall (session_params c a plan customer items)) (sa_session api (session_params c a plan customer items)) s2 = (Inr sess, s')"
    using assms by (auto simp: checkout_session_def co_then_Inr co_give_Inr Let_def)
  have e: "\<exists>es. co_calls s2 = co_calls s1 @ map ExpireSessionCall es \<and> (created \<or> sa_open api customer = Inr es)"
    using c(3) by (auto simp: co_give_Inr expireOpenSessions_def expire_each_calls split: if_splits sum.splits intro: exI [of _ "[]"])
  show ?thesis
  proof (cases "a_stripe_customer_id a = []")
    case True
    then have "co_calls s1 = co_calls s @ [CreateCustomerCall (a_email a) [(''account_id'', format_int (a_id a))]]"
      using c(2) by (auto simp: ensureCustomer_def co_then_Inr co_call_Inr co_give_Inr dest: co_store_calls)
    then show ?thesis using True c(1,4) e by (auto simp: co_call_Inr list_all_iff intro!: exI [of _ customer])
  next
    case False
    then have "s1 = s" "customer = a_stripe_customer_id a" "\<not> created" using c(2) by (auto simp: ensureCustomer_def co_give_Inr)
    then show ?thesis using c(1,4) e by (auto simp: co_call_Inr list_all_iff intro!: exI [of _ customer])
  qed
qed


section \<open>Properties\<close>

text \<open>What a created session shows: the account may buy, the plan is one the catalog sells, Stripe was asked for
  one session, last, for the account's customer and with the plan's items and metadata.\<close>

definition session_bought :: "Checkout \<Rightarrow> stripe_api \<Rightarrow> Request \<Rightarrow> checkout_state \<Rightarrow> Plan \<Rightarrow> Session \<Rightarrow> checkout_state \<Rightarrow> bool" where
  "session_bought c api rq s plan sess s' \<longleftrightarrow>
     a_status (rq_account rq) = AccountActive \<and>
     \<not> HasActiveStripePlan (filter (\<lambda>e. e_account_id e = a_id (rq_account rq)) (db_entitlements (co_db s))) \<and>
     Validate (ck_catalog c) (ck_games c) (rq_invite rq \<noteq> []) (rq_plan rq) = Inr plan \<and>
     (\<exists>items customer pre. lineItems c api plan = Inr items \<and>
        co_calls s' = co_calls s @ pre @ [CreateSessionCall (session_params c (rq_account rq) plan customer items)] \<and>
        sa_session api (session_params c (rq_account rq) plan customer items) = Inr sess \<and> list_all (\<lambda>x. \<not> is_CreateSessionCall x) pre \<and>
        (a_stripe_customer_id (rq_account rq) \<noteq> [] \<longrightarrow> customer = a_stripe_customer_id (rq_account rq) \<and>
           (\<exists>ids. sa_open api customer = Inr ids \<and> pre = map ExpireSessionCall ids)))"


lemma HasActiveStripePlan_sorted: "HasActiveStripePlan (sort_key e_id es) = HasActiveStripePlan es"
  by (simp add: HasActiveStripePlan_iff)

lemma Checkout_Create_cases:
  assumes nf: "db_faults (co_db s) = []" and r: "Checkout_Create c api now rq s = (r, s')"
  obtains (refused) e where "r = Inl e" "s' = s"
  | (public) plan where "in_public (fst (ct_interval (ck_catalog c) (pl_interval plan)))" "checkout_session c api (rq_account rq) plan s = (r, s')"
      "a_status (rq_account rq) = AccountActive" "\<not> HasActiveStripePlan (filter (\<lambda>e. e_account_id e = a_id (rq_account rq)) (db_entitlements (co_db s)))"
      "Validate (ck_catalog c) (ck_games c) (rq_invite rq \<noteq> []) (rq_plan rq) = Inr plan"
  | (invited) plan where "\<not> in_public (fst (ct_interval (ck_catalog c) (pl_interval plan)))"
      "with_invite rq now plan (checkout_session c api (rq_account rq) plan) s = (r, s')"
      "a_status (rq_account rq) = AccountActive" "\<not> HasActiveStripePlan (filter (\<lambda>e. e_account_id e = a_id (rq_account rq)) (db_entitlements (co_db s)))"
      "Validate (ck_catalog c) (ck_games c) (rq_invite rq \<noteq> []) (rq_plan rq) = Inr plan"
proof -
  let ?es = "filter (\<lambda>e. e_account_id e = a_id (rq_account rq)) (db_entitlements (co_db s))"
  have l: "co_store (ListEntitlements (a_id (rq_account rq))) s = (Inr (sort_key e_id ?es), s)"
    using nf by (simp add: co_store_def ListEntitlements_def listEntitlements_def stmt_no_fault)
  let ?v = "Validate (ck_catalog c) (ck_games c) (rq_invite rq \<noteq> []) (rq_plan rq)"
  show ?thesis
  proof (cases "a_status (rq_account rq) = AccountActive \<and> \<not> HasActiveStripePlan ?es")
    case False
    then show ?thesis using r l refused
      by (auto simp: Checkout_Create_def co_give_def co_then_def HasActiveStripePlan_sorted split: if_splits)
  next
    case True
    show ?thesis
    proof (cases ?v)
      case (Inl e)
      then show ?thesis using True r l refused by (auto simp: Checkout_Create_def co_give_def co_then_def HasActiveStripePlan_sorted)
    next
      case (Inr plan)
      then show ?thesis using True r l refused public [of plan] invited [of plan]
        by (auto simp: Checkout_Create_def co_give_def co_then_def HasActiveStripePlan_sorted Let_def split: if_splits sum.splits)
    qed
  qed
qed

text \<open>C26: While the database answers, a checkout that fails leaves the invites as they were, so the
  invite can be used again, whichever step failed; and one that succeeds asked Stripe for exactly one session,
  after expiring the customer's open ones, for an active account without a Stripe plan and a
  plan the catalog sells, and took a live invite for that interval when the interval is not public.\<close>

theorem Checkout_Create_outcome:
  assumes "db_ok (co_db s)" "db_faults (co_db s) = []" "Checkout_Create c api now rq s = (r, s')"
  shows "case r of
      Inl _ \<Rightarrow> db_invites (co_db s') = db_invites (co_db s)
    | Inr sess \<Rightarrow> \<exists>plan. session_bought c api rq s plan sess s' \<and>
        (in_public (fst (ct_interval (ck_catalog c) (pl_interval plan))) \<or>
         list_ex (\<lambda>i. invite_live (rq_invite rq) (a_email (rq_account rq)) now i \<and> iv_interval_key i = pl_interval plan) (db_invites (co_db s)) \<and>
         invite_taken (co_db s') (rq_invite rq))"
  using assms(2,3)
proof (cases rule: Checkout_Create_cases)
  case (refused e)
  then show ?thesis by simp
next
  case (public plan)
  show ?thesis
  proof (cases r)
    case (Inl e)
    then show ?thesis using sparesD [OF spares_checkout_session public(2) assms(2)] by simp
  next
    case (Inr sess)
    show ?thesis using checkout_session_calls [OF public(2) [unfolded Inr]] public(1,3,4,5) unfolding Inr session_bought_def by auto
  qed
next
  case (invited plan)
  note w = with_invite_outcome [OF assms(1,2) spares_checkout_session invited(2)]
  show ?thesis
  proof (cases r)
    case (Inl e)
    then show ?thesis using w by simp
  next
    case (Inr sess)
    then obtain s1 where s1: "co_calls s1 = co_calls s" "checkout_session c api (rq_account rq) plan s1 = (Inr sess, s')" using w by auto
    have "session_bought c api rq s plan sess s'"
      using checkout_session_calls [OF s1(2)] invited(3,4,5) unfolding session_bought_def s1(1) by auto
    then show ?thesis using w Inr by auto
  qed
qed


definition sample_api :: stripe_api where
  "sample_api = \<lparr>sa_prices = Inr sample_prices, sa_customer = (\<lambda>_. Inr ''cus_1''), sa_open = (\<lambda>_. Inr []), sa_expire = (\<lambda>_. Inr ''expired''),
     sa_session = (\<lambda>_. Inr \<lparr>cs_id = ''cs_1'', cs_url = ''https://pay.example''\<rparr>), sa_portal = (\<lambda>_ _. Inl ''not asked'')\<rparr>"

definition sample_checkout :: "checkout_state \<Rightarrow> (billing_error + Session) \<times> checkout_state" where
  "sample_checkout = Checkout_Create
     \<lparr>ck_catalog = sample_catalog, ck_stores = Some sample_site, ck_games = [''lorcana'', ''magic''], ck_success_url = ''/ok'', ck_cancel_url = ''/no''\<rparr>
     sample_api 5 \<lparr>rq_account = sample_account, rq_plan = sample_choice, rq_invite = [], rq_resolved = None\<rparr>"

theorem Checkout_Create_outcome_witness:
  "\<exists>sess s' plan. sample_checkout \<lparr>co_db = one_account, co_calls = []\<rparr> = (Inr sess, s') \<and>
     session_bought \<lparr>ck_catalog = sample_catalog, ck_stores = Some sample_site, ck_games = [''lorcana'', ''magic''], ck_success_url = ''/ok'', ck_cancel_url = ''/no''\<rparr>
       sample_api \<lparr>rq_account = sample_account, rq_plan = sample_choice, rq_invite = [], rq_resolved = None\<rparr>
       \<lparr>co_db = one_account, co_calls = []\<rparr> plan sess s'"
proof -
  let ?s = "\<lparr>co_db = one_account, co_calls = []\<rparr>"
  have "isl (fst (sample_checkout ?s)) = False" by code_simp
  then obtain sess s' where r: "sample_checkout ?s = (Inr sess, s')" by (cases "sample_checkout ?s"; cases "fst (sample_checkout ?s)") auto
  have "db_ok (co_db ?s)" "db_faults (co_db ?s) = []" using store.reachable_inv [OF one_account_reachable] by simp_all
  from Checkout_Create_outcome [OF this r [unfolded sample_checkout_def]] show ?thesis using r by auto
qed

end
