(* ===== verification/Billing_Stores.thy ===== *)
theory Billing_Stores
  imports Billing_Plan
begin

text \<open>
  \<open>SiteStoreClient\<close> of \<open>src/billing/stores.go\<close>: the cached store lists of the game sites. One game's
  entry and the callers asking for it are a state machine whose steps are the critical sections of
  the code's mutex, so any interleaving of callers is a run. A fetch releases the waiters in one
  section and stores its result in a later one, as the code does. What the site answers is the
  argument of the step that ends a fetch.
\<close>

section \<open>Fetching a list\<close>

definition storesTTL :: duration where "storesTTL = 5 * minute"
definition storesRetryAfter :: duration where "storesRetryAfter = 30 * second"
definition storesStaleAlert :: duration where "storesStaleAlert = hour"
definition StoresPath :: string where "StoresPath = ''/api-plans/stores.json''"

text \<open>The answer to the request: a failure, or a status and the decoded body, \<open>None\<close> when it does not decode.\<close>

datatype site_reply = SiteFailed string | SiteAnswered int "SiteStores option"

datatype site_error = NoSite string | FetchFailed string | FetchStatus int | BadBody | WrongGame string | NoStores | CallerGone

definition lower_keys :: "StoreFamily list \<Rightarrow> StoreFamily list" where
  "lower_keys = map (\<lambda>f. f\<lparr>sf_key := to_lower (sf_key f)\<rparr>)"

definition site_fetch :: "(string \<times> string) list \<Rightarrow> string \<Rightarrow> site_reply \<Rightarrow> site_error + SiteStores" where
  "site_fetch origins game reply =
     (case map_of origins game of
        None \<Rightarrow> Inl (NoSite game)
      | Some _ \<Rightarrow>
          (case reply of
             SiteFailed e \<Rightarrow> Inl (FetchFailed e)
           | SiteAnswered status body \<Rightarrow>
               if status \<noteq> 200 then Inl (FetchStatus status)
               else case body of
                   None \<Rightarrow> Inl BadBody
                 | Some site \<Rightarrow>
                     if ss_game site \<noteq> [] \<and> ss_game site \<noteq> game then Inl (WrongGame (ss_game site))
                     else if ss_implied site = [] \<and> ss_stores site = [] then Inl NoStores
                     else Inr (site\<lparr>ss_implied := lower_keys (ss_implied site), ss_stores := lower_keys (ss_stores site)\<rparr>)))"

section \<open>The entry\<close>

text \<open>\<open>sn_fetching\<close> names the channel of the fetch in flight.\<close>

record siteEntry =
  sn_site :: SiteStores
  sn_at :: time
  sn_has :: bool
  sn_failed_at :: time
  sn_err :: "site_error option"
  sn_fetching :: "nat option"
  sn_alerted :: bool

definition empty_site :: SiteStores where "empty_site = \<lparr>ss_game = [], ss_implied = [], ss_stores = []\<rparr>"

definition new_entry :: siteEntry where
  "new_entry = \<lparr>sn_site = empty_site, sn_at = zero_time, sn_has = False, sn_failed_at = zero_time, sn_err = None, sn_fetching = None, sn_alerted = False\<rparr>"

datatype site_look = Served SiteStores | Refused site_error | AwaitFetch nat | StartFetch

definition look_entry :: "duration \<Rightarrow> time \<Rightarrow> siteEntry \<Rightarrow> site_look" where
  "look_entry ttl now e =
     (if sn_has e \<and> now - sn_at e < (if ttl \<le> 0 then storesTTL else ttl) then Served (sn_site e)
      else case sn_err e of
          Some err \<Rightarrow>
            if now - sn_failed_at e < storesRetryAfter then (if sn_has e then Served (sn_site e) else Refused err)
            else (case sn_fetching e of None \<Rightarrow> StartFetch | Some g \<Rightarrow> AwaitFetch g)
        | None \<Rightarrow> (case sn_fetching e of None \<Rightarrow> StartFetch | Some g \<Rightarrow> AwaitFetch g))"

text \<open>What the fetch's caller returns, the entry, and whether it alerts.\<close>

definition settle_entry :: "time \<Rightarrow> site_error + SiteStores \<Rightarrow> siteEntry \<Rightarrow> (site_error + SiteStores) \<times> siteEntry \<times> bool" where
  "settle_entry now res e =
     (case res of
        Inr site \<Rightarrow> (Inr site, e\<lparr>sn_site := site, sn_at := now, sn_has := True, sn_err := None, sn_alerted := False\<rparr>, False)
      | Inl err \<Rightarrow>
          let alert = (sn_has e \<and> storesStaleAlert \<le> now - sn_at e \<and> \<not> sn_alerted e) in
          (if sn_has e then Inr (sn_site e) else Inl err,
           e\<lparr>sn_err := Some err, sn_failed_at := now, sn_alerted := sn_alerted e \<or> alert\<rparr>, alert))"

section \<open>Callers\<close>

datatype site_phase =
    Looking
  | Waiting nat
  | Fetching nat
  | Released "site_error + SiteStores"
  | Answered "site_error + SiteStores"

text \<open>\<open>sy_fetched\<close> has the lists fetched, \<open>sy_alerts\<close> the number of alerts since the last of them was stored.\<close>

record site_sys =
  sy_entry :: siteEntry
  sy_now :: time
  sy_next :: nat
  sy_phase :: "nat \<Rightarrow> site_phase"
  sy_fetched :: "SiteStores list"
  sy_alerts :: nat

definition site_init :: "site_sys \<Rightarrow> bool" where
  "site_init s \<longleftrightarrow> sy_entry s = new_entry \<and> sy_phase s = (\<lambda>_. Looking) \<and> sy_fetched s = [] \<and> sy_alerts s = 0"

definition site_look_step :: "duration \<Rightarrow> nat \<Rightarrow> site_sys \<Rightarrow> site_sys" where
  "site_look_step ttl c s =
     (case look_entry ttl (sy_now s) (sy_entry s) of
        Served site \<Rightarrow> s\<lparr>sy_phase := (sy_phase s)(c := Answered (Inr site))\<rparr>
      | Refused err \<Rightarrow> s\<lparr>sy_phase := (sy_phase s)(c := Answered (Inl err))\<rparr>
      | AwaitFetch g \<Rightarrow> s\<lparr>sy_phase := (sy_phase s)(c := Waiting g)\<rparr>
      | StartFetch \<Rightarrow>
          s\<lparr>sy_phase := (sy_phase s)(c := Fetching (sy_next s)), sy_entry := (sy_entry s)\<lparr>sn_fetching := Some (sy_next s)\<rparr>,
            sy_next := sy_next s + 1\<rparr>)"

definition site_release_step :: "nat \<Rightarrow> site_error + SiteStores \<Rightarrow> site_sys \<Rightarrow> site_sys" where
  "site_release_step c res s =
     s\<lparr>sy_phase := (sy_phase s)(c := Released res), sy_entry := (sy_entry s)\<lparr>sn_fetching := None\<rparr>,
       sy_fetched := (case res of Inr site \<Rightarrow> site # sy_fetched s | Inl _ \<Rightarrow> sy_fetched s)\<rparr>"

definition site_settle_step :: "nat \<Rightarrow> site_error + SiteStores \<Rightarrow> site_sys \<Rightarrow> site_sys" where
  "site_settle_step c res s =
     (case settle_entry (sy_now s) res (sy_entry s) of (r, e, alert) \<Rightarrow>
        s\<lparr>sy_phase := (sy_phase s)(c := Answered r), sy_entry := e,
          sy_alerts := (if isl res then sy_alerts s + (if alert then 1 else 0) else 0)\<rparr>)"

inductive site_step :: "(string \<times> string) list \<Rightarrow> string \<Rightarrow> duration \<Rightarrow> site_sys \<Rightarrow> site_sys \<Rightarrow> bool"
  for origins :: "(string \<times> string) list" and game :: string and ttl :: duration where
  s_look: "sy_phase s c = Looking \<Longrightarrow> site_step origins game ttl s (site_look_step ttl c s)"
| s_wake: "sy_phase s c = Waiting g \<Longrightarrow> sn_fetching (sy_entry s) \<noteq> Some g \<Longrightarrow>
    site_step origins game ttl s (s\<lparr>sy_phase := (sy_phase s)(c := Looking)\<rparr>)"
| s_cancel: "sy_phase s c = Waiting g \<Longrightarrow> site_step origins game ttl s (s\<lparr>sy_phase := (sy_phase s)(c := Answered (Inl CallerGone))\<rparr>)"
| s_release: "sy_phase s c = Fetching g \<Longrightarrow> site_step origins game ttl s (site_release_step c (site_fetch origins game reply) s)"
| s_settle: "sy_phase s c = Released res \<Longrightarrow> site_step origins game ttl s (site_settle_step c res s)"
| s_ask: "sy_phase s c = Answered r \<Longrightarrow> site_step origins game ttl s (s\<lparr>sy_phase := (sy_phase s)(c := Looking)\<rparr>)"
| s_time: "sy_now s \<le> t \<Longrightarrow> site_step origins game ttl s (s\<lparr>sy_now := t\<rparr>)"


section \<open>Lemmas\<close>

text \<open>A list the fetch accepts: of this game, not empty, with lower-case keys.\<close>

definition good_site :: "string \<Rightarrow> SiteStores \<Rightarrow> bool" where
  "good_site game site \<longleftrightarrow> (ss_game site = [] \<or> ss_game site = game) \<and> (ss_implied site \<noteq> [] \<or> ss_stores site \<noteq> []) \<and>
     list_all (\<lambda>f. to_lower (sf_key f) = sf_key f) (ss_implied site @ ss_stores site)"

lemma site_fetch_good: "site_fetch origins game reply = Inr site \<Longrightarrow> good_site game site"
  by (auto simp: site_fetch_def good_site_def lower_keys_def list_all_iff split: option.splits site_reply.splits if_splits)

definition site_inv :: "string \<Rightarrow> site_sys \<Rightarrow> bool" where
  "site_inv game s \<longleftrightarrow>
     (\<forall>c g. sy_phase s c = Fetching g \<longrightarrow> sn_fetching (sy_entry s) = Some g) \<and>
     (\<forall>c c' g g'. sy_phase s c = Fetching g \<longrightarrow> sy_phase s c' = Fetching g' \<longrightarrow> c = c') \<and>
     (sn_has (sy_entry s) \<longrightarrow> sn_site (sy_entry s) \<in> set (sy_fetched s)) \<and>
     (\<forall>c site. sy_phase s c = Released (Inr site) \<or> sy_phase s c = Answered (Inr site) \<longrightarrow> site \<in> set (sy_fetched s)) \<and>
     list_all (good_site game) (sy_fetched s) \<and>
     sy_alerts s \<le> (if sn_alerted (sy_entry s) then 1 else 0)"

lemma look_entry_cases:
  "look_entry ttl now e = Served site \<Longrightarrow> sn_has e \<and> site = sn_site e"
  "look_entry ttl now e = Refused err \<Longrightarrow> \<not> sn_has e"
  "look_entry ttl now e = StartFetch \<Longrightarrow> sn_fetching e = None"
  by (auto simp: look_entry_def split: if_splits option.splits)

lemma site_inv_look: "site_inv game s \<Longrightarrow> sy_phase s c = Looking \<Longrightarrow> site_inv game (site_look_step ttl c s)"
  using look_entry_cases [of ttl "sy_now s" "sy_entry s"]
  by (cases "look_entry ttl (sy_now s) (sy_entry s)") (auto simp: site_look_step_def site_inv_def split: if_splits)

lemma site_inv_release:
  "site_inv game s \<Longrightarrow> sy_phase s c = Fetching g \<Longrightarrow> site_inv game (site_release_step c (site_fetch origins game reply) s)"
  using site_fetch_good [of origins game reply]
  by (cases "site_fetch origins game reply") (auto simp: site_release_step_def site_inv_def split: if_splits)

lemma site_inv_settle: "site_inv game s \<Longrightarrow> sy_phase s c = Released res \<Longrightarrow> site_inv game (site_settle_step c res s)"
  by (cases res) (auto simp: site_settle_step_def settle_entry_def site_inv_def Let_def split: if_splits)

text \<open>A caller that only starts over or gives up.\<close>

lemma site_inv_phase:
  "site_inv game s \<Longrightarrow> p = Looking \<or> p = Answered (Inl err) \<Longrightarrow> site_inv game (s\<lparr>sy_phase := (sy_phase s)(c := p)\<rparr>)"
  by (auto simp: site_inv_def split: if_splits)

lemma site_inv_time: "site_inv game s \<Longrightarrow> site_inv game (s\<lparr>sy_now := t\<rparr>)"
  by (simp add: site_inv_def)

lemmas site_inv_steps = site_inv_look site_inv_release site_inv_settle site_inv_phase site_inv_time

interpretation site: invariant_system site_init "site_step origins game ttl" "site_inv game" for origins game ttl
proof unfold_locales
  fix s assume "site_init s"
  then show "site_inv game s" by (simp add: site_init_def site_inv_def new_entry_def)
next
  fix s t assume i: "site_inv game s" and st: "site_step origins game ttl s t"
  from st show "site_inv game t" by (cases rule: site_step.cases) (simp_all add: site_inv_steps i)
qed

lemma refused_only_without_list:
  assumes "site_step origins game ttl s t" "sn_has (sy_entry s)" "sy_phase t c = Answered (Inl err)" "sy_phase s c \<noteq> sy_phase t c"
  shows "err = CallerGone"
  using assms(1)
proof (cases rule: site_step.cases)
  case (s_look c')
  then show ?thesis using assms look_entry_cases(2) [of ttl "sy_now s" "sy_entry s"]
    by (auto simp: site_look_step_def split: site_look.splits if_splits)
next
  case (s_settle c' res)
  then show ?thesis using assms by (cases res) (auto simp: site_settle_step_def settle_entry_def Let_def split: if_splits)
qed (use assms in \<open>auto simp: site_release_step_def split: if_splits\<close>)

section \<open>Properties\<close>



definition first_caller :: site_sys where
  "first_caller = \<lparr>sy_entry = new_entry, sy_now = 7, sy_next = 0, sy_phase = (\<lambda>_. Looking), sy_fetched = [], sy_alerts = 0\<rparr>"

definition sample_fetch :: "site_error + SiteStores" where
  "sample_fetch = site_fetch [(''magic'', ''https://magic.example'')] ''magic''
     (SiteAnswered 200 (Some \<lparr>ss_game = ''magic'', ss_implied = [], ss_stores = [\<lparr>sf_key = ''CK'', sf_name = ''Card Kingdom'', sf_shorthands = [''CK'']\<rparr>]\<rparr>))"


text \<open>
  The waiters are released before the fetched list is stored, so one that looks again first starts
  a second fetch although the one it waited for has just succeeded.
\<close>

lemma waiter_refetches:
  "\<exists>s site. reachable site_init (site_step [(''magic'', ''https://magic.example'')] ''magic'' 0) s \<and>
     sy_phase s 1 = Released (Inr site) \<and> sy_phase s 2 = Fetching 1"
proof -
  let ?step = "site_step [(''magic'', ''https://magic.example'')] ''magic'' 0"
  define s1 where "s1 = site_look_step 0 1 first_caller"
  define s2 where "s2 = site_look_step 0 2 s1"
  define s3 where "s3 = site_release_step 1 sample_fetch s2"
  define s4 where "s4 = s3\<lparr>sy_phase := (sy_phase s3)(2 := Looking)\<rparr>"
  define s5 where "s5 = site_look_step 0 2 s4"
  obtain site where f: "sample_fetch = Inr site" by (simp add: sample_fetch_def site_fetch_def)
  have l: "look_entry 0 7 new_entry = StartFetch" "look_entry 0 7 (new_entry\<lparr>sn_fetching := Some 0\<rparr>) = AwaitFetch 0"
    by (simp_all add: look_entry_def new_entry_def)
  have e1: "sy_phase s1 = (\<lambda>_. Looking)(1 := Fetching 0)" "sy_entry s1 = new_entry\<lparr>sn_fetching := Some 0\<rparr>" "sy_next s1 = 1" "sy_now s1 = 7"
    using l by (simp_all add: s1_def site_look_step_def first_caller_def)
  have e2: "sy_phase s2 = (sy_phase s1)(2 := Waiting 0)" "sy_entry s2 = sy_entry s1" "sy_next s2 = 1" "sy_now s2 = 7"
    using l e1 by (simp_all add: s2_def site_look_step_def)
  have e3: "sy_phase s3 = (sy_phase s2)(1 := Released sample_fetch)" "sy_entry s3 = new_entry" "sy_next s3 = 1" "sy_now s3 = 7"
    using e1 e2 by (simp_all add: s3_def site_release_step_def new_entry_def)
  have e5: "sy_phase s5 = (sy_phase s4)(2 := Fetching 1)" using l e3 by (simp add: s5_def s4_def site_look_step_def)
  have "reachable site_init ?step first_caller" by (rule reach_init) (simp add: site_init_def first_caller_def)
  then have "reachable site_init ?step s1" unfolding s1_def by (rule reach_step) (rule s_look, simp add: first_caller_def)
  then have "reachable site_init ?step s2" unfolding s2_def by (rule reach_step) (rule s_look, simp add: e1)
  then have "reachable site_init ?step s3" unfolding s3_def sample_fetch_def by (rule reach_step) (rule s_release [of _ 1 0], simp add: e1 e2)
  then have "reachable site_init ?step s4" unfolding s4_def by (rule reach_step) (rule s_wake [of _ 2 0], simp_all add: e2 e3 new_entry_def)
  then have "reachable site_init ?step s5" unfolding s5_def by (rule reach_step) (rule s_look, simp add: s4_def)
  then show ?thesis using e3 e5 f by (intro exI [of _ s5] exI [of _ site]) (simp add: s4_def)
qed

end
