(* ===== verification/Encodings.thy ===== *)
theory Encodings
  imports Keys
begin

text \<open>
  The encodings of Go's standard library that the session cookies are made of: \<open>encoding/base64\<close>
  without padding, \<open>url.QueryEscape\<close> and \<open>url.Values\<close>, and \<open>crypto/hmac\<close> over SHA-256. What the
  readers need of the writers is the locale \<open>encoding\<close>, interpreted on each of them.
\<close>

section \<open>Encodings and their readers\<close>

locale encoding =
  fixes enc :: "'a \<Rightarrow> string" and dec :: "string \<Rightarrow> 'b option" and read :: "'a \<Rightarrow> 'b" and ok :: "'a \<Rightarrow> bool"
  assumes dec_enc: "ok x \<Longrightarrow> dec (enc x) = Some (read x)"
begin

lemma enc_determines: "ok x \<Longrightarrow> ok y \<Longrightarrow> enc x = enc y \<Longrightarrow> read x = read y"
  using dec_enc [of x] dec_enc [of y] by simp

lemma dec_after: "ok x \<Longrightarrow> (case dec (enc x) of None \<Rightarrow> a | Some y \<Rightarrow> f y) = f (read x)"
  by (simp add: dec_enc)

end

section \<open>Base64\<close>

definition b64_alphabet :: string where
  "b64_alphabet = ''ABCDEFGHIJKLMNOPQRSTUVWXYZabcdefghijklmnopqrstuvwxyz0123456789-_''"

definition b64_value :: "char \<Rightarrow> int option" where
  "b64_value c = map_option (int \<circ> fst) (find (\<lambda>x. snd x = c) (zip [0..<64] b64_alphabet))"

fun b64_bytes :: "int list \<Rightarrow> string option" where
  "b64_bytes [] = Some []"
| "b64_bytes [a] = None"
| "b64_bytes [a, b] = Some [char_of (a * 4 + b div 16)]"
| "b64_bytes [a, b, c] = Some [char_of (a * 4 + b div 16), char_of (b mod 16 * 16 + c div 4)]"
| "b64_bytes (a # b # c # d # rest) =
     map_option (\<lambda>s. char_of (a * 4 + b div 16) # char_of (b mod 16 * 16 + c div 4) # char_of (c mod 4 * 64 + d) # s) (b64_bytes rest)"

text \<open>The decoder skips line ends and does not check the bits left over at the end.\<close>

definition b64url_decode :: "string \<Rightarrow> string option" where
  "b64url_decode s =
     (case those (map b64_value (filter (\<lambda>c. c \<notin> {CHR 0x0A, CHR 0x0D}) s)) of None \<Rightarrow> None | Some ds \<Rightarrow> b64_bytes ds)"

fun b64_digits :: "string \<Rightarrow> int list" where
  "b64_digits (a # b # c # rest) =
     (let n = (of_char a * 256 + of_char b) * 256 + of_char c
      in n div 262144 # n div 4096 mod 64 # n div 64 mod 64 # n mod 64 # b64_digits rest)"
| "b64_digits [a, b] = (let n = (of_char a * 256 + of_char b) * 256 in [n div 262144, n div 4096 mod 64, n div 64 mod 64])"
| "b64_digits [a] = (let n = of_char a * 65536 in [n div 262144, n div 4096 mod 64])"
| "b64_digits [] = []"

lemma b64url_encode_digits: "b64url_encode s = map b64_digit (b64_digits s)"
  by (induction s rule: b64url_encode.induct) (simp_all add: Let_def)

lemma b64_digit_alphabet: "b64_digit d = b64_alphabet ! nat d"
  by (simp add: b64_digit_def b64_alphabet_def)

lemma distinct_b64_alphabet: "distinct b64_alphabet" and length_b64_alphabet: "length b64_alphabet = 64"
  and set_b64_alphabet: "CHR 0x0A \<notin> set b64_alphabet" "CHR 0x0D \<notin> set b64_alphabet" "CHR ''.'' \<notin> set b64_alphabet" "CHR ''|'' \<notin> set b64_alphabet"
  by code_simp+

lemma find_zip_nth:
  "distinct xs \<Longrightarrow> i < length xs \<Longrightarrow> find (\<lambda>x. snd x = xs ! i) (zip [n..<n + length xs] xs) = Some (n + i, xs ! i)"
proof (induction xs arbitrary: i n)
  case (Cons a xs)
  have z: "zip [n..<n + length (a # xs)] (a # xs) = (n, a) # zip [Suc n..<Suc n + length xs] xs" by (simp add: upt_rec)
  show ?case
  proof (cases i)
    case (Suc j)
    then show ?thesis using Cons.IH [of j "Suc n"] Cons.prems unfolding z by (simp del: upt_Suc) (auto simp del: upt_Suc)
  next
    case 0
    show ?thesis unfolding z 0 by (simp del: upt_Suc)
  qed
qed simp

lemma b64_value_digit: "0 \<le> d \<Longrightarrow> d < 64 \<Longrightarrow> b64_value (b64_digit d) = Some d"
  using find_zip_nth [OF distinct_b64_alphabet, of "nat d" 0] by (simp add: b64_value_def b64_digit_alphabet length_b64_alphabet)

lemma b64_digit_in: "0 \<le> d \<Longrightarrow> d < 64 \<Longrightarrow> b64_digit d \<in> set b64_alphabet"
  by (simp add: b64_digit_alphabet length_b64_alphabet)

lemma of_char_bound: "0 \<le> (of_char c :: int)" "(of_char c :: int) < 256"
proof -
  have "(of_char c :: int) = of_char c mod 256" by simp
  then show "0 \<le> (of_char c :: int)" "(of_char c :: int) < 256" by presburger+
qed

lemma b64_digits_range: "d \<in> set (b64_digits s) \<Longrightarrow> 0 \<le> d \<and> d < 64"
proof (induction s rule: b64_digits.induct)
  case (1 a b c rest)
  then show ?case using of_char_bound [of a] of_char_bound [of b] of_char_bound [of c] by (auto simp: Let_def)
next
  case (2 a b)
  then show ?case using of_char_bound [of a] of_char_bound [of b] by (auto simp: Let_def)
next
  case (3 a)
  then show ?case using of_char_bound [of a] by (auto simp: Let_def)
qed simp

lemma int_div_pos: "n = q * d + r \<Longrightarrow> 0 \<le> r \<Longrightarrow> r < d \<Longrightarrow> n div d = (q :: int)"
  and int_mod_pos: "n = q * d + r \<Longrightarrow> 0 \<le> r \<Longrightarrow> r < d \<Longrightarrow> n mod d = (r :: int)"
  by simp_all

lemma bits_split:
  fixes a1 a0 b1 b0 c1 c0 :: int
  assumes r: "0 \<le> a0" "a0 < 4" "0 \<le> b1" "b1 < 16" "0 \<le> b0" "b0 < 16" "0 \<le> c1" "c1 < 4" "0 \<le> c0" "c0 < 64"
    and n: "n = ((a1 * 4 + a0) * 256 + (b1 * 16 + b0)) * 256 + (c1 * 64 + c0)"
  shows "n div 262144 = a1" "n div 4096 mod 64 = a0 * 16 + b1" "n div 64 mod 64 = b0 * 4 + c1" "n mod 64 = c0"
proof -
  have n3: "n = ((a1 * 64 + (a0 * 16 + b1)) * 64 + (b0 * 4 + c1)) * 64 + c0" unfolding n by (simp add: algebra_simps)
  have n2: "n div 64 = (a1 * 64 + (a0 * 16 + b1)) * 64 + (b0 * 4 + c1)" by (rule int_div_pos [OF n3 r(9,10)])
  have n1: "n div 64 div 64 = a1 * 64 + (a0 * 16 + b1)" by (rule int_div_pos [OF n2]) (use r in simp_all)
  have d: "n div 4096 = n div 64 div 64" "n div 262144 = n div 64 div 64 div 64" by (simp_all add: div_mult2_eq [symmetric])
  show "n div 262144 = a1" unfolding d by (rule int_div_pos [OF n1]) (use r in simp_all)
  show "n div 4096 mod 64 = a0 * 16 + b1" unfolding d by (rule int_mod_pos [OF n1]) (use r in simp_all)
  show "n div 64 mod 64 = b0 * 4 + c1" by (rule int_mod_pos [OF n2]) (use r in simp_all)
  show "n mod 64 = c0" by (rule int_mod_pos [OF n3 r(9,10)])
qed

lemma byte_split:
  fixes a b c :: int
  assumes "0 \<le> a" "a < 256" "0 \<le> b" "b < 256" "0 \<le> c" "c < 256"
  defines "n \<equiv> (a * 256 + b) * 256 + c"
  shows "n div 262144 * 4 + n div 4096 mod 64 div 16 = a" "n div 4096 mod 64 mod 16 * 16 + n div 64 mod 64 div 4 = b"
    "n div 64 mod 64 mod 4 * 64 + n mod 64 = c"
proof -
  have r: "0 \<le> b div 16" "b div 16 < 16" "0 \<le> c div 64" "c div 64 < 4" using assms by simp_all
  have n: "n = ((a div 4 * 4 + a mod 4) * 256 + (b div 16 * 16 + b mod 16)) * 256 + (c div 64 * 64 + c mod 64)" unfolding n_def by simp
  note s = bits_split [OF _ _ r(1,2) _ _ r(3,4) _ _ n, simplified]
  have q: "(a mod 4 * 16 + b div 16) div 16 = a mod 4" "(b mod 16 * 4 + c div 64) div 4 = b mod 16"
    by (auto intro!: int_div_pos [OF refl] simp: r)
  have q': "(a mod 4 * 16 + b div 16) mod 16 = b div 16" "(b mod 16 * 4 + c div 64) mod 4 = c div 64"
    by (auto intro!: int_mod_pos [OF refl] simp: r)
  show "n div 262144 * 4 + n div 4096 mod 64 div 16 = a" "n div 4096 mod 64 mod 16 * 16 + n div 64 mod 64 div 4 = b"
    "n div 64 mod 64 mod 4 * 64 + n mod 64 = c" unfolding s q q' by simp_all
qed

lemma b64_bytes_digits: "b64_bytes (b64_digits s) = Some s"
proof (induction s rule: b64_digits.induct)
  case (1 a b c rest)
  show ?case unfolding b64_digits.simps Let_def b64_bytes.simps "1.IH" [OF refl]
      byte_split [OF of_char_bound of_char_bound of_char_bound, of a b c] by simp
next
  case (2 a b)
  have "0 \<le> (0 :: int)" "(0 :: int) < 256" by simp_all
  note e = byte_split [OF of_char_bound of_char_bound this, of a b]
  show ?case unfolding b64_digits.simps Let_def b64_bytes.simps e(1,2) [unfolded add_0_right] by simp
next
  case (3 a)
  have "0 \<le> (0 :: int)" "(0 :: int) < 256" by simp_all
  note e = byte_split(1) [OF of_char_bound this this, of a]
  have "(of_char a * 256 + 0) * 256 + 0 = (of_char a :: int) * 65536" by simp
  then show ?case using e unfolding b64_digits.simps Let_def b64_bytes.simps by simp
qed simp

lemma those_map_Some: "(\<And>x. x \<in> set xs \<Longrightarrow> f x = Some x) \<Longrightarrow> those (map f xs) = Some xs"
  by (induction xs) simp_all

interpretation b64: encoding b64url_encode b64url_decode "\<lambda>s. s" "\<lambda>_. True"
proof unfold_locales
  fix s :: string
  have "filter (\<lambda>c. c \<notin> {CHR 0x0A, CHR 0x0D}) (b64url_encode s) = b64url_encode s"
    unfolding filter_id_conv b64url_encode_digits using b64_digit_in b64_digits_range [of _ s] set_b64_alphabet(1,2) by fastforce
  moreover have "those (map b64_value (b64url_encode s)) = Some (b64_digits s)"
    using those_map_Some [of "b64_digits s" "b64_value \<circ> b64_digit"] b64_value_digit b64_digits_range [of _ s]
    by (simp add: b64url_encode_digits comp_def)
  ultimately show "b64url_decode (b64url_encode s) = Some s" by (simp add: b64url_decode_def b64_bytes_digits)
qed

lemma b64url_encode_alphabet: "set (b64url_encode s) \<subseteq> set b64_alphabet"
  unfolding b64url_encode_digits using b64_digit_in b64_digits_range [of _ s] by auto

lemma b64url_decode_alphabet: "b64url_decode s = Some t \<Longrightarrow> c \<in> set s \<Longrightarrow> c \<in> set b64_alphabet \<or> c \<in> {CHR 0x0A, CHR 0x0D}"
proof (rule ccontr)
  assume d: "b64url_decode s = Some t" and c: "c \<in> set s" and n: "\<not> (c \<in> set b64_alphabet \<or> c \<in> {CHR 0x0A, CHR 0x0D})"
  have "b64_value c = None" using n by (auto simp: b64_value_def find_None_iff dest!: set_zip_rightD)
  moreover have "c \<in> set (filter (\<lambda>c. c \<notin> {CHR 0x0A, CHR 0x0D}) s)" using c n by auto
  moreover have "x \<in> set xs \<Longrightarrow> b64_value x = None \<Longrightarrow> those (map b64_value xs) = None" for x xs
    by (induction xs) (auto split: option.splits)
  ultimately have "those (map b64_value (filter (\<lambda>c. c \<notin> {CHR 0x0A, CHR 0x0D}) s)) = None" by blast
  then show False using d by (simp add: b64url_decode_def)
qed


section \<open>Query strings\<close>

definition unreserved :: "char \<Rightarrow> bool" where
  "unreserved c \<longleftrightarrow> (let n = (of_char c :: int) in
     48 \<le> n \<and> n \<le> 57 \<or> 65 \<le> n \<and> n \<le> 90 \<or> 97 \<le> n \<and> n \<le> 122 \<or> c \<in> set ''-_.~'')"

definition upper_hex :: "int \<Rightarrow> char" where
  "upper_hex d = (if d < 10 then char_of (48 + d) else char_of (55 + d))"

definition hex_value :: "char \<Rightarrow> int option" where
  "hex_value c = (let n = (of_char c :: int) in
     if 48 \<le> n \<and> n \<le> 57 then Some (n - 48) else if 97 \<le> n \<and> n \<le> 102 then Some (n - 87) else if 65 \<le> n \<and> n \<le> 70 then Some (n - 55) else None)"

definition escape_byte :: "char \<Rightarrow> string" where
  "escape_byte c =
     (if unreserved c then [c] else if c = CHR '' '' then ''+''
      else [CHR ''%'', upper_hex (of_char c div 16), upper_hex (of_char c mod 16)])"

definition QueryEscape :: "string \<Rightarrow> string" where
  "QueryEscape s = concat (map escape_byte s)"

fun QueryUnescape :: "string \<Rightarrow> string option" where
  "QueryUnescape [] = Some []"
| "QueryUnescape (c # cs) =
     (if c = CHR ''%'' then
        (case cs of
           h # l # rest \<Rightarrow>
             (case (hex_value h, hex_value l) of
                (Some x, Some y) \<Rightarrow> map_option (\<lambda>t. char_of (16 * x + y) # t) (QueryUnescape rest)
              | _ \<Rightarrow> None)
         | _ \<Rightarrow> None)
      else map_option (\<lambda>t. (if c = CHR ''+'' then CHR '' '' else c) # t) (QueryUnescape cs))"

lemma hex_value_upper: "0 \<le> d \<Longrightarrow> d < 16 \<Longrightarrow> hex_value (upper_hex d) = Some d"
  by (auto simp: hex_value_def upper_hex_def Let_def)

lemma unreserved_chars: "\<not> unreserved CHR ''%''" "\<not> unreserved CHR ''+''" "\<not> unreserved CHR ''&''" "\<not> unreserved CHR ''=''" "\<not> unreserved CHR '';''"
  by code_simp+

lemma upper_hex_unreserved: "0 \<le> d \<Longrightarrow> d < 16 \<Longrightarrow> unreserved (upper_hex d)"
  by (auto simp: unreserved_def upper_hex_def Let_def)

lemma nibble: "0 \<le> (of_char c :: int) div 16" "(of_char c :: int) div 16 < 16" "16 * ((of_char c :: int) div 16) + of_char c mod 16 = of_char c"
  using of_char_bound [of c] by simp_all

lemma QueryUnescape_escape: "QueryUnescape (escape_byte c @ s) = map_option (\<lambda>t. c # t) (QueryUnescape s)"
proof -
  consider (plain) "unreserved c" | (space) "c = CHR '' ''" "\<not> unreserved c" | (hex) "\<not> unreserved c" "c \<noteq> CHR '' ''" by blast
  then show ?thesis
  proof cases
    case plain
    then have "c \<noteq> CHR ''%''" "c \<noteq> CHR ''+''" using unreserved_chars by auto
    then show ?thesis using plain by (simp add: escape_byte_def)
  next
    case space
    then show ?thesis by (simp add: escape_byte_def)
  next
    case hex
    show ?thesis using hex nibble [of c] by (simp add: escape_byte_def hex_value_upper)
  qed
qed

interpretation query: encoding QueryEscape QueryUnescape "\<lambda>s. s" "\<lambda>_. True"
proof unfold_locales
  fix s :: string
  show "QueryUnescape (QueryEscape s) = Some s" by (induction s) (simp_all add: QueryEscape_def QueryUnescape_escape)
qed

lemma escape_byte_chars: "x \<in> set (escape_byte c) \<Longrightarrow> unreserved x \<or> x = CHR ''+'' \<or> x = CHR ''%''"
  using upper_hex_unreserved nibble [of c] by (auto simp: escape_byte_def split: if_splits)

lemma QueryEscape_chars: "x \<in> set (QueryEscape s) \<Longrightarrow> unreserved x \<or> x = CHR ''+'' \<or> x = CHR ''%''"
  by (auto simp: QueryEscape_def dest: escape_byte_chars)

lemma QueryEscape_no_sep: "CHR ''&'' \<notin> set (QueryEscape s)" "CHR ''='' \<notin> set (QueryEscape s)" "CHR '';'' \<notin> set (QueryEscape s)"
  using QueryEscape_chars [of _ s] unreserved_chars by auto

section \<open>\<open>url.Values\<close>\<close>

text \<open>A map from keys to lists of values, as an association list.\<close>

type_synonym url_values = "(string \<times> string list) list"

definition values_get :: "url_values \<Rightarrow> string \<Rightarrow> string" where
  "values_get v k = (case map_of v k of Some (x # _) \<Rightarrow> x | _ \<Rightarrow> [])"

definition values_set :: "string \<Rightarrow> string \<Rightarrow> url_values \<Rightarrow> url_values" where
  "values_set k x v = AList.update k [x] v"

definition values_add :: "url_values \<Rightarrow> string \<times> string \<Rightarrow> url_values" where
  "values_add v p = AList.update (fst p) ((case map_of v (fst p) of Some xs \<Rightarrow> xs | None \<Rightarrow> []) @ [snd p]) v"

definition value_pairs :: "url_values \<Rightarrow> (string \<times> string) list" where
  "value_pairs v = concat (map (\<lambda>(k, xs). map (Pair k) xs) (sort_key fst v))"

definition pair_string :: "string \<times> string \<Rightarrow> string" where
  "pair_string p = QueryEscape (fst p) @ ''='' @ QueryEscape (snd p)"

definition values_encode :: "url_values \<Rightarrow> string" where
  "values_encode v = join ''&'' (map pair_string (value_pairs v))"

text \<open>One part of a query: skipped when empty, refused with a semicolon or a bad escape.\<close>

definition parse_part :: "string \<Rightarrow> (string \<times> string) list option" where
  "parse_part part =
     (if CHR '';'' \<in> set part then None
      else if part = [] then Some []
      else case cut CHR ''='' part of (k, x, _) \<Rightarrow>
        (case (QueryUnescape k, QueryUnescape x) of (Some k', Some x') \<Rightarrow> Some [(k', x')] | _ \<Rightarrow> None))"

definition ParseQuery :: "string \<Rightarrow> url_values option" where
  "ParseQuery s = map_option (\<lambda>ps. foldl values_add [] (concat ps)) (those (map parse_part (split_on CHR ''&'' s)))"

lemma parse_pair_string: "parse_part (pair_string p) = Some [p]"
proof -
  have "CHR '';'' \<notin> set (pair_string p)" using QueryEscape_no_sep by (simp add: pair_string_def)
  moreover have "cut CHR ''='' (QueryEscape (fst p) @ ''='' @ QueryEscape (snd p)) = (QueryEscape (fst p), QueryEscape (snd p), True)"
    using cut_found [OF QueryEscape_no_sep(2)] by simp
  ultimately show ?thesis by (simp add: parse_part_def pair_string_def query.dec_enc)
qed

lemma pair_string_chars: "CHR ''&'' \<notin> set (pair_string p)" "pair_string p \<noteq> []"
  using QueryEscape_no_sep by (simp_all add: pair_string_def)

lemma those_parts: "those (map parse_part (map pair_string ps)) = Some (map (\<lambda>p. [p]) ps)"
  by (induction ps) (simp_all add: parse_pair_string)

lemma ParseQuery_pairs: "ParseQuery (join ''&'' (map pair_string ps)) = Some (foldl values_add [] ps)"
proof (cases ps)
  case Nil
  then show ?thesis by (simp add: ParseQuery_def parse_part_def)
next
  case (Cons p qs)
  have "split_on CHR ''&'' (join ''&'' (map pair_string ps)) = map pair_string ps"
    using split_join [of "map pair_string ps" "CHR ''&''"] Cons pair_string_chars by simp
  then show ?thesis using those_parts [of ps] by (simp add: ParseQuery_def concat_map_singleton)
qed


lemma update_new: "k \<notin> fst ` set m \<Longrightarrow> AList.update k x m = m @ [(k, x)]"
  by (induction m) auto
lemma update_last: "k \<notin> fst ` set m \<Longrightarrow> AList.update k x (m @ [(k, y)]) = m @ [(k, x)]"
  by (induction m) auto
lemma map_of_last: "k \<notin> fst ` set m \<Longrightarrow> map_of (m @ [(k, y)]) k = Some y"
  by (induction m) auto

lemma values_add_same: "k \<notin> fst ` set m \<Longrightarrow> foldl values_add (m @ [(k, ys)]) (map (Pair k) xs) = m @ [(k, ys @ xs)]"
  by (induction xs arbitrary: ys) (simp_all add: values_add_def update_last map_of_last del: map_of_append)

lemma values_add_group: "k \<notin> fst ` set m \<Longrightarrow> xs \<noteq> [] \<Longrightarrow> foldl values_add m (map (Pair k) xs) = m @ [(k, xs)]"
proof (cases xs)
  case (Cons x rest)
  assume k: "k \<notin> fst ` set m"
  then have "values_add m (k, x) = m @ [(k, [x])]" by (simp add: values_add_def update_new map_of_eq_None_iff [THEN iffD2])
  then show ?thesis using values_add_same [OF k, of "[x]" rest] by (simp add: Cons)
qed simp

lemma values_add_groups:
  "distinct (map fst (m @ v)) \<Longrightarrow> [] \<notin> snd ` set v \<Longrightarrow> foldl values_add m (concat (map (\<lambda>(k, xs). map (Pair k) xs) v)) = m @ v"
proof (induction v arbitrary: m)
  case (Cons p v)
  obtain k xs where p: "p = (k, xs)" by fastforce
  have "foldl values_add m (map (Pair k) xs) = m @ [(k, xs)]" using Cons.prems by (intro values_add_group) (auto simp: p)
  then show ?case using Cons.IH [of "m @ [p]"] Cons.prems by (simp add: p)
qed simp

interpretation vals: encoding values_encode ParseQuery "sort_key fst" "\<lambda>v. distinct (map fst v) \<and> [] \<notin> snd ` set v"
proof unfold_locales
  fix v :: url_values assume v: "distinct (map fst v) \<and> [] \<notin> snd ` set v"
  have "distinct (map fst (sort_key fst v))" using v by (metis distinct_map distinct_sort set_sort)
  then have "foldl values_add [] (value_pairs v) = sort_key fst v"
    using values_add_groups [of "[]" "sort_key fst v"] v by (simp add: value_pairs_def)
  then show "ParseQuery (values_encode v) = Some (sort_key fst v)" by (simp add: values_encode_def ParseQuery_pairs)
qed

lemma values_get_sort: "distinct (map fst v) \<Longrightarrow> values_get (sort_key fst v) k = values_get v k"
proof -
  assume d: "distinct (map fst v)"
  then have "distinct (map fst (sort_key fst v))" by (metis distinct_map distinct_sort set_sort)
  then have "map_of (sort_key fst v) = map_of v" using d by (simp add: map_of_inject_set)
  then show ?thesis by (simp add: values_get_def)
qed

lemma values_get_set: "values_get (values_set k x v) k' = (if k' = k then x else values_get v k')"
  by (simp add: values_get_def values_set_def update_conv)

lemma distinct_values_set: "distinct (map fst v) \<Longrightarrow> distinct (map fst (values_set k x v))"
  by (simp add: values_set_def distinct_update)

lemma values_set_nonempty: "[] \<notin> snd ` set v \<Longrightarrow> [] \<notin> snd ` set (values_set k x v)"
  by (induction v) (auto simp: values_set_def)

section \<open>HMAC\<close>

definition xor_byte :: "int \<Rightarrow> char \<Rightarrow> char" where
  "xor_byte b c = char_of (of_char c XOR b)"

definition hmac_key :: "string \<Rightarrow> string" where
  "hmac_key key = (let k = (if length key > 64 then sha256 key else key) in k @ replicate (64 - length k) (char_of (0 :: int)))"

definition hmac_sha256 :: "string \<Rightarrow> string \<Rightarrow> string" where
  "hmac_sha256 key msg = sha256 (map (xor_byte 0x5c) (hmac_key key) @ sha256 (map (xor_byte 0x36) (hmac_key key) @ msg))"

lemma length_hmac_key: "length (hmac_key key) = 64"
  by (auto simp: hmac_key_def Let_def length_sha256)

end
