(* ===== verification/Go_Url.thy ===== *)
theory Go_Url
  imports Client_IP Encodings
begin

text \<open>
  What the sources use of Go's \<open>net/url\<close> (as of Go 1.26): \<open>Parse\<close>, \<open>URL.Hostname\<close>, \<open>URL.String\<close> and
  \<open>PathEscape\<close>. Bracketed hosts are IPv6 literals, checked with the address parser of \<open>Client_IP\<close>. The lemmas
  say where the host of a parsed URL can come from and how \<open>String\<close> prints it.
\<close>

section \<open>Escaping\<close>

datatype enc_mode = encodePath | encodePathSegment | encodeHost | encodeZone | encodeUserPassword | encodeFragment

definition alphanumeric :: "char \<Rightarrow> bool" where
  "alphanumeric c \<longleftrightarrow> (let n = (of_char c :: int) in 48 \<le> n \<and> n \<le> 57 \<or> 65 \<le> n \<and> n \<le> 90 \<or> 97 \<le> n \<and> n \<le> 122)"

definition reserved_escaped :: "enc_mode \<Rightarrow> string" where
  "reserved_escaped m =
     (case m of
        encodePath \<Rightarrow> ''?''
      | encodePathSegment \<Rightarrow> ''/;,?''
      | encodeUserPassword \<Rightarrow> ''@/?:''
      | encodeFragment \<Rightarrow> []
      | _ \<Rightarrow> ''$&+,/:;=?@'')"

definition shouldEscape :: "char \<Rightarrow> enc_mode \<Rightarrow> bool" where
  "shouldEscape c m =
     (if alphanumeric c then False
      else if m \<in> {encodeHost, encodeZone} \<and> c \<in> set ''!$&()*+,;=:[]<>'' \<union> {CHR 0x27, CHR 0x22} then False
      else if c \<in> set ''-_.~'' then False
      else if c \<in> set ''$&+,/:;=?@'' then c \<in> set (reserved_escaped m)
      else \<not> (m = encodeFragment \<and> c \<in> set ''!()*''))"

definition url_escape_char :: "enc_mode \<Rightarrow> char \<Rightarrow> string" where
  "url_escape_char m c =
     (if shouldEscape c m then [CHR ''%'', upper_hex (of_char c div 16), upper_hex (of_char c mod 16)] else [c])"

definition escape :: "enc_mode \<Rightarrow> string \<Rightarrow> string" where
  "escape m s = concat (map (url_escape_char m) s)"

definition PathEscape :: "string \<Rightarrow> string" where
  "PathEscape s = escape encodePathSegment s"

text \<open>What an escape may stand for in a host or a zone.\<close>

definition escape_allowed :: "enc_mode \<Rightarrow> char \<Rightarrow> char \<Rightarrow> int \<Rightarrow> int \<Rightarrow> bool" where
  "escape_allowed m a b x y \<longleftrightarrow>
     [a, b] = ''25'' \<or>
     (if m = encodeHost then x \<ge> 8
      else if m = encodeZone then 16 * x + y = 32 \<or> \<not> shouldEscape (char_of (16 * x + y)) encodeHost
      else True)"

fun unescape :: "enc_mode \<Rightarrow> string \<Rightarrow> string option" where
  "unescape m [] = Some []"
| "unescape m (c # s) =
     (if c = CHR ''%'' then
        (case s of
           a # b # r \<Rightarrow>
             (case (Encodings.hex_value a, Encodings.hex_value b) of
                (Some x, Some y) \<Rightarrow>
                  if escape_allowed m a b x y then map_option ((#) (char_of (16 * x + y))) (unescape m r) else None
              | _ \<Rightarrow> None)
         | _ \<Rightarrow> None)
      else if m \<in> {encodeHost, encodeZone} \<and> (of_char c :: int) < 128 \<and> shouldEscape c m then None
      else map_option ((#) c) (unescape m s))"

definition validEncoded :: "string \<Rightarrow> enc_mode \<Rightarrow> bool" where
  "validEncoded s m = list_all (\<lambda>c. c \<in> set ''!$&()*+,;=:@[]%'' \<union> {CHR 0x27} \<or> \<not> shouldEscape c m) s"

section \<open>Parsing\<close>

record URL =
  ur_scheme :: string
  ur_opaque :: string
  ur_user :: "(string \<times> string option) option"
  ur_host :: string
  ur_path :: string
  ur_raw_path :: string
  ur_omit_host :: bool
  ur_force_query :: bool
  ur_raw_query :: string
  ur_fragment :: string
  ur_raw_fragment :: string

definition empty_url :: URL where
  "empty_url = \<lparr>ur_scheme = [], ur_opaque = [], ur_user = None, ur_host = [], ur_path = [], ur_raw_path = [], ur_omit_host = False,
     ur_force_query = False, ur_raw_query = [], ur_fragment = [], ur_raw_fragment = []\<rparr>"

text \<open>Around the last separator: what is before, what is after, and whether there is one.\<close>

definition cut_last :: "char \<Rightarrow> string \<Rightarrow> string \<times> string \<times> bool" where
  "cut_last c s = (case cut c (rev s) of (b, a, found) \<Rightarrow> if found then (rev a, rev b, True) else (s, [], False))"

text \<open>\<open>getScheme\<close>: the characters scanned so far, and the rest of the text.\<close>

fun scan_scheme :: "string \<Rightarrow> string \<Rightarrow> (string \<times> string) option" where
  "scan_scheme raw [] = Some ([], raw)"
| "scan_scheme raw (c # rest) =
     (let i = length raw - length (c # rest); n = (of_char c :: int) in
      if 65 \<le> n \<and> n \<le> 90 \<or> 97 \<le> n \<and> n \<le> 122 then scan_scheme raw rest
      else if 48 \<le> n \<and> n \<le> 57 \<or> c \<in> set ''+-.'' then (if i = 0 then Some ([], raw) else scan_scheme raw rest)
      else if c = CHR '':'' then (if i = 0 then None else Some (take i raw, rest))
      else Some ([], raw))"

definition getScheme :: "string \<Rightarrow> (string \<times> string) option" where
  "getScheme raw = scan_scheme raw raw"

definition validOptionalPort :: "string \<Rightarrow> bool" where
  "validOptionalPort p = (case p of [] \<Rightarrow> True | c # ds \<Rightarrow> c = CHR '':'' \<and> list_all is_digit ds)"

definition validUserinfo :: "string \<Rightarrow> bool" where
  "validUserinfo s = list_all (\<lambda>c. alphanumeric c \<or> c \<in> set ''-._:~!$&()*+,;=%@'' \<union> {CHR 0x27}) s"

text \<open>\<open>netip.ParseAddr\<close> takes the text for an IPv6 address, with a zone or without.\<close>

definition ipv6_literal :: "string \<Rightarrow> bool" where
  "ipv6_literal s =
     (case cut CHR ''%'' s of (a, z, zoned) \<Rightarrow>
        \<not> (zoned \<and> z = []) \<and> (case parse_addr a of Some (V6 _) \<Rightarrow> True | _ \<Rightarrow> False))"

fun index_sub :: "string \<Rightarrow> string \<Rightarrow> nat option" where
  "index_sub [] p = (if p = [] then Some 0 else None)"
| "index_sub (x # xs) p = (if has_prefix (x # xs) p then Some 0 else map_option Suc (index_sub xs p))"

definition unescape_literal :: "string \<Rightarrow> string option" where
  "unescape_literal s =
     (case index_sub s ''%25'' of
        None \<Rightarrow> unescape encodeHost s
      | Some i \<Rightarrow>
          (case (unescape encodeHost (take i s), unescape encodeZone (drop i s)) of
             (Some a, Some z) \<Rightarrow> Some (a @ z) | _ \<Rightarrow> None))"

definition parseHost :: "string \<Rightarrow> string option" where
  "parseHost host =
     (if CHR ''['' \<in> set (drop 1 host) then None
      else if has_prefix host ''['' then
        (case cut_last CHR '']'' host of (opened, port, closed) \<Rightarrow>
           if \<not> closed \<or> \<not> validOptionalPort port then None
           else (case (unescape encodeHost port, unescape_literal (drop 1 opened)) of
               (Some p, Some h) \<Rightarrow> if ipv6_literal h then Some (''['' @ h @ '']'' @ p) else None
             | _ \<Rightarrow> None))
      else (case cut CHR '':'' host of (_, port, colon) \<Rightarrow>
          if colon \<and> \<not> list_all is_digit port then None else unescape encodeHost host))"

definition parseAuthority :: "string \<Rightarrow> ((string \<times> string option) option \<times> string) option" where
  "parseAuthority authority =
     (case cut_last CHR ''@'' authority of (userinfo, after, found) \<Rightarrow>
        (case parseHost (if found then after else authority) of
           None \<Rightarrow> None
         | Some host \<Rightarrow>
             if \<not> found then Some (None, host)
             else if \<not> validUserinfo userinfo then None
             else (case cut CHR '':'' userinfo of (name, pw, colon) \<Rightarrow>
               if \<not> colon then map_option (\<lambda>u. (Some (u, None), host)) (unescape encodeUserPassword userinfo)
               else (case (unescape encodeUserPassword name, unescape encodeUserPassword pw) of
                   (Some u, Some p) \<Rightarrow> Some (Some (u, Some p), host) | _ \<Rightarrow> None))))"

definition setPath :: "string \<Rightarrow> URL \<Rightarrow> URL option" where
  "setPath p u = map_option (\<lambda>path. u\<lparr>ur_path := path, ur_raw_path := (if p = escape encodePath path then [] else p)\<rparr>) (unescape encodePath p)"

definition setFragment :: "string \<Rightarrow> URL \<Rightarrow> URL option" where
  "setFragment f u = map_option (\<lambda>frag. u\<lparr>ur_fragment := frag, ur_raw_fragment := (if f = escape encodeFragment frag then [] else f)\<rparr>) (unescape encodeFragment f)"

definition contains_ctl :: "string \<Rightarrow> bool" where
  "contains_ctl s = list_ex (\<lambda>c. (of_char c :: int) < 32 \<or> c = CHR 0x7F) s"

definition split_query :: "string \<Rightarrow> string \<times> bool \<times> string" where
  "split_query rest =
     (case cut CHR ''?'' rest of (before, after, found) \<Rightarrow> (before, found \<and> after = [], after))"

definition parse_url :: "string \<Rightarrow> URL option" where
  "parse_url raw =
     (if contains_ctl raw then None
      else if raw = ''*'' then Some (empty_url\<lparr>ur_path := ''*''\<rparr>)
      else case getScheme raw of
          None \<Rightarrow> None
        | Some (sch, rest0) \<Rightarrow>
            (case split_query rest0 of (rest, force, query) \<Rightarrow>
               let u = empty_url\<lparr>ur_scheme := to_lower sch, ur_force_query := force, ur_raw_query := query\<rparr> in
               if \<not> has_prefix rest ''/'' \<and> sch \<noteq> [] then Some (u\<lparr>ur_opaque := rest\<rparr>)
               else if \<not> has_prefix rest ''/'' \<and> CHR '':'' \<in> set (fst (cut CHR ''/'' rest)) then None
               else if (sch \<noteq> [] \<or> \<not> has_prefix rest ''///'') \<and> has_prefix rest ''//'' then
                 (case parseAuthority (takeWhile (\<lambda>c. c \<noteq> CHR ''/'') (drop 2 rest)) of
                    None \<Rightarrow> None
                  | Some (user, host) \<Rightarrow> setPath (dropWhile (\<lambda>c. c \<noteq> CHR ''/'') (drop 2 rest)) (u\<lparr>ur_user := user, ur_host := host\<rparr>))
               else if sch \<noteq> [] \<and> has_prefix rest ''/'' then setPath rest (u\<lparr>ur_omit_host := True\<rparr>)
               else setPath rest u))"

definition Parse :: "string \<Rightarrow> URL option" where
  "Parse raw =
     (case cut CHR ''#'' raw of (u, frag, _) \<Rightarrow>
        (case parse_url u of
           None \<Rightarrow> None
         | Some p \<Rightarrow> if frag = [] then Some p else setFragment frag p))"

section \<open>Reading and printing\<close>

definition Hostname :: "URL \<Rightarrow> string" where
  "Hostname u =
     (let host = (case cut_last CHR '':'' (ur_host u) of (before, port, found) \<Rightarrow>
            if found \<and> list_all is_digit port then before else ur_host u)
      in if has_prefix host ''['' \<and> has_suffix host '']'' then butlast (tl host) else host)"

definition escaped_as :: "enc_mode \<Rightarrow> string \<Rightarrow> string \<Rightarrow> string" where
  "escaped_as m raw s = (if raw \<noteq> [] \<and> validEncoded raw m \<and> unescape m raw = Some s then raw else escape m s)"

definition EscapedPath :: "URL \<Rightarrow> string" where
  "EscapedPath u =
     (if ur_path u = ''*'' \<and> ur_raw_path u = [] then ''*'' else escaped_as encodePath (ur_raw_path u) (ur_path u))"

definition user_string :: "string \<times> string option \<Rightarrow> string" where
  "user_string ui = escape encodeUserPassword (fst ui) @ (case snd ui of None \<Rightarrow> [] | Some p \<Rightarrow> '':'' @ escape encodeUserPassword p)"

definition URL_authority :: "URL \<Rightarrow> string" where
  "URL_authority u =
     (if ur_omit_host u \<and> ur_host u = [] \<and> ur_user u = None then []
      else (if ur_host u \<noteq> [] \<or> ur_path u \<noteq> [] \<or> ur_user u \<noteq> None then ''//'' else []) @
           (case ur_user u of None \<Rightarrow> [] | Some ui \<Rightarrow> user_string ui @ ''@'') @
           escape encodeHost (ur_host u))"

definition URL_String :: "URL \<Rightarrow> string" where
  "URL_String u =
     (let start = (if ur_scheme u = [] then [] else ur_scheme u @ '':'');
          body =
            (if ur_opaque u \<noteq> [] then ur_opaque u
             else let auth = (if ur_scheme u \<noteq> [] \<or> ur_host u \<noteq> [] \<or> ur_user u \<noteq> None then URL_authority u else []);
                      path = EscapedPath u
                  in auth @ (if path \<noteq> [] \<and> hd path \<noteq> CHR ''/'' \<and> ur_host u \<noteq> [] then ''/'' else []) @
                     (if start = [] \<and> auth = [] \<and> CHR '':'' \<in> set (fst (cut CHR ''/'' path)) then ''./'' else []) @ path)
      in start @ body @ (if ur_force_query u \<or> ur_raw_query u \<noteq> [] then ''?'' @ ur_raw_query u else []) @
         (if ur_fragment u \<noteq> [] then ''#'' @ escaped_as encodeFragment (ur_raw_fragment u) (ur_fragment u) else []))"

section \<open>What a host can be\<close>

lemma upper_hex_alphanumeric: "0 \<le> d \<Longrightarrow> d < 16 \<Longrightarrow> alphanumeric (upper_hex d)"
  by (auto simp: alphanumeric_def upper_hex_def Let_def)

lemma alphanumeric_not_escaped: "alphanumeric c \<Longrightarrow> \<not> shouldEscape c m"
  by (simp add: shouldEscape_def)

lemma url_escape_char_chars: "x \<in> set (url_escape_char m c) \<Longrightarrow> x = CHR ''%'' \<or> alphanumeric x \<or> x = c \<and> \<not> shouldEscape x m"
  using upper_hex_alphanumeric nibble [of c] by (auto simp: url_escape_char_def split: if_splits)

lemma url_escape_chars: "x \<in> set (escape m s) \<Longrightarrow> x = CHR ''%'' \<or> alphanumeric x \<or> x \<in> set s \<and> \<not> shouldEscape x m"
  by (auto simp: escape_def dest: url_escape_char_chars)

lemma escape_append: "escape m (a @ b) = escape m a @ escape m b" and escape_Nil [simp]: "escape m [] = []"
  by (simp_all add: escape_def)

lemma escape_plain: "list_all (\<lambda>c. \<not> shouldEscape c m) s \<Longrightarrow> escape m s = s"
  by (induction s) (simp_all add: escape_def url_escape_char_def)

lemma is_digit_alphanumeric: "is_digit c \<Longrightarrow> alphanumeric c"
proof -
  assume "is_digit c"
  moreover have "(of_char c :: int) = int (of_char c)" by (simp add: of_nat_of_char)
  ultimately show "alphanumeric c" unfolding is_digit_def alphanumeric_def Let_def by linarith
qed

lemma alphanumeric_char: "\<not> alphanumeric CHR '':''" "\<not> alphanumeric CHR ''/''" "\<not> alphanumeric CHR ''?''" "\<not> alphanumeric CHR ''#''"
  "\<not> alphanumeric CHR ''@''" "\<not> alphanumeric CHR ''[''" "\<not> alphanumeric CHR 0x5C" "\<not> alphanumeric CHR ''%''"
  by code_simp+

lemma shouldEscape_host: "shouldEscape CHR ''/'' encodeHost" "shouldEscape CHR ''?'' encodeHost" "shouldEscape CHR ''#'' encodeHost"
  "shouldEscape CHR ''@'' encodeHost" "shouldEscape CHR 0x5C encodeHost" "\<not> shouldEscape CHR '':'' encodeHost"
  by code_simp+

text \<open>Printing a host never writes a character that would end it.\<close>

lemma escape_host_chars: "x \<in> set (escape encodeHost s) \<Longrightarrow> x \<notin> {CHR ''/'', CHR ''?'', CHR ''#'', CHR ''@'', CHR 0x5C}"
  using url_escape_chars [of x encodeHost s] alphanumeric_char shouldEscape_host by auto

lemma escape_host_keeps: "c \<in> {CHR '':'', CHR ''[''} \<Longrightarrow> c \<in> set (escape encodeHost s) \<Longrightarrow> c \<in> set s"
  using url_escape_chars [of c encodeHost s] alphanumeric_char by auto

text \<open>Reading one keeps a separator that is neither a digit nor a percent sign where it stands.\<close>

lemma unescape_sep:
  assumes "Encodings.hex_value c = None" "c \<noteq> CHR ''%''" "\<not> shouldEscape c m"
  shows "unescape m (a @ c # b) = (case unescape m a of None \<Rightarrow> None | Some x \<Rightarrow> map_option (\<lambda>y. x @ c # y) (unescape m b))"
  using assms
proof (induction m a rule: unescape.induct)
  case (2 m d s)
  show ?case
  proof (cases "d = CHR ''%''")
    case True
    consider "s = []" | x where "s = [x]" | x y r where "s = x # y # r" by (metis neq_Nil_conv)
    then show ?thesis
    proof cases
      case (3 x y r)
      then show ?thesis using True 2 by (auto simp: option.map_comp comp_def split: option.splits)
    qed (use True 2 in \<open>auto split: option.splits list.splits\<close>)
  next
    case False
    then show ?thesis using 2 by (auto simp: option.map_comp comp_def split: option.splits)
  qed
qed simp

lemma unescape_host_chars:
  "unescape encodeHost s = Some h \<Longrightarrow> c \<in> set h \<Longrightarrow> c \<in> set s \<or> c = CHR ''%'' \<or> 128 \<le> (of_char c :: int)"
proof (induction encodeHost s arbitrary: h rule: unescape.induct)
  case (2 d s)
  show ?case
  proof (cases "d = CHR ''%''")
    case True
    from 2(3) True obtain a b r x y t where s: "s = a # b # r"
      and v: "Encodings.hex_value a = Some x" "Encodings.hex_value b = Some y" "escape_allowed encodeHost a b x y"
      and t: "unescape encodeHost r = Some t" "h = char_of (16 * x + y) # t"
      by (auto split: list.splits option.splits if_splits)
    have range: "0 \<le> x" "x < 16" "0 \<le> y" "y < 16" using v(1,2) by (auto simp: Encodings.hex_value_def Let_def split: if_splits)
    have "char_of (16 * x + y) = CHR ''%'' \<or> 128 \<le> (of_char (char_of (16 * x + y)) :: int)"
    proof (cases "[a, b] = ''25''")
      case True
      then have "x = 2" "y = 5" using v by (auto simp: Encodings.hex_value_def Let_def)
      moreover have "char_of (37 :: int) = CHR ''%''" by code_simp
      ultimately show ?thesis by simp
    next
      case False
      then have "8 \<le> x" using v(3) by (auto simp: escape_allowed_def)
      then have "(16 * x + y) mod 256 = 16 * x + y" "128 \<le> 16 * x + y" using range by simp_all
      then show ?thesis by simp
    qed
    moreover have "c \<in> set t \<Longrightarrow> c \<in> set r \<or> c = CHR ''%'' \<or> 128 \<le> (of_char c :: int)"
      using 2(1) [OF True s _ _ _ _ _ t(1)] v by fastforce
    ultimately show ?thesis using 2(4) t(2) s by auto
  next
    case False
    then show ?thesis using 2 by (auto split: if_splits)
  qed
qed simp

lemma unescape_digits: "list_all is_digit p \<Longrightarrow> unescape encodeHost p = Some p"
proof (induction p)
  case (Cons c p)
  then have "\<not> shouldEscape c encodeHost" using is_digit_alphanumeric alphanumeric_not_escaped by simp
  moreover have "c \<noteq> CHR ''%''" using Cons.prems is_digit_alphanumeric alphanumeric_char by auto
  ultimately show ?case using Cons by simp
qed simp

text \<open>A host is a bracketed literal, or a name with at most one colon, before a numeric port.\<close>

lemma parseHost_cases:
  assumes "parseHost s = Some h"
  obtains (literal) l p where "h = ''['' @ l @ '']'' @ p" "ipv6_literal l" "validOptionalPort p"
    | (name) "CHR ''['' \<notin> set h" "CHR '':'' \<notin> set h"
    | (port) n p where "h = n @ '':'' @ p" "CHR ''['' \<notin> set n" "CHR '':'' \<notin> set n" "list_all is_digit p"
proof (cases "has_prefix s ''[''")
  case True
  obtain opened q closed where c: "cut_last CHR '']'' s = (opened, q, closed)" by (metis prod_cases3)
  with assms True obtain p l where "unescape encodeHost q = Some p" "ipv6_literal l" "h = ''['' @ l @ '']'' @ p" "validOptionalPort q"
    by (auto simp: parseHost_def split: if_splits option.splits)
  moreover have "p = q" using calculation(1,4) unescape_digits
    by (cases q) (auto simp: validOptionalPort_def shouldEscape_host)
  ultimately show ?thesis using literal by blast
next
  case False
  obtain n q colon where c: "cut CHR '':'' s = (n, q, colon)" by (metis prod_cases3)
  with assms False have h: "unescape encodeHost s = Some h" and dig: "colon \<Longrightarrow> list_all is_digit q" and nb: "CHR ''['' \<notin> set (drop 1 s)"
    by (auto simp: parseHost_def split: if_splits)
  have nb: "CHR ''['' \<notin> set s" using nb False by (cases s) (auto simp: has_prefix_def)
  have no: "c \<notin> set s \<Longrightarrow> c \<noteq> CHR ''%'' \<Longrightarrow> \<not> 128 \<le> (of_char c :: int) \<Longrightarrow> c \<notin> set h" for c
    using unescape_host_chars [OF h] by blast
  show ?thesis
  proof (cases colon)
    case True
    have s: "s = n @ CHR '':'' # q" "CHR '':'' \<notin> set n" using cut_spec [OF c] True by auto
    have hv: "Encodings.hex_value CHR '':'' = None" by code_simp
    obtain n' where n': "unescape encodeHost n = Some n'" "h = n' @ CHR '':'' # q"
      using h unescape_sep [OF hv, of encodeHost n q] s(1) dig [OF True] shouldEscape_host
      by (auto simp: unescape_digits split: option.splits)
    have "CHR '':'' \<notin> set n'" "CHR ''['' \<notin> set n'" using unescape_host_chars [OF n'(1)] s nb by fastforce+
    then show ?thesis using port [of n' q] n'(2) dig [OF True] by simp
  next
    case False
    then have "CHR '':'' \<notin> set s" using cut_spec [OF c] by auto
    then show ?thesis using name no [of "CHR '':''"] no [of "CHR ''[''"] nb by simp
  qed
qed

lemma setPath_fields: "setPath p u = Some v \<Longrightarrow> ur_host v = ur_host u \<and> ur_opaque v = ur_opaque u"
  and setFragment_fields: "setFragment f u = Some v \<Longrightarrow> ur_host v = ur_host u \<and> ur_opaque v = ur_opaque u"
  by (auto simp: setPath_def setFragment_def)

lemma parseAuthority_host: "parseAuthority a = Some (user, host) \<Longrightarrow> \<exists>b. parseHost b = Some host"
  by (auto simp: parseAuthority_def split: prod.splits option.splits if_splits)

lemma parse_url_host: "parse_url raw = Some u \<Longrightarrow> ur_host u \<noteq> [] \<Longrightarrow> ur_opaque u = [] \<and> (\<exists>b. parseHost b = Some (ur_host u))"
  by (auto simp: parse_url_def empty_url_def Let_def dest!: setPath_fields parseAuthority_host split: prod.splits option.splits if_splits)

lemma Parse_host: "Parse raw = Some u \<Longrightarrow> ur_host u \<noteq> [] \<Longrightarrow> ur_opaque u = [] \<and> (\<exists>b. parseHost b = Some (ur_host u))"
  using parse_url_host by (auto simp: Parse_def dest!: setFragment_fields split: prod.splits option.splits if_splits)

text \<open>How \<open>String\<close> prints a URL with a host and no user.\<close>

lemma String_host:
  assumes "ur_host u \<noteq> []" "ur_opaque u = []" "ur_user u = None" "ur_scheme u \<noteq> []"
  obtains rest where "URL_String u = ur_scheme u @ ''://'' @ escape encodeHost (ur_host u) @ rest" "rest = [] \<or> hd rest \<in> set ''/?#''"
proof -
  let ?path = "EscapedPath u"
  let ?tail = "(if ?path \<noteq> [] \<and> hd ?path \<noteq> CHR ''/'' then ''/'' else []) @ ?path @
    (if ur_force_query u \<or> ur_raw_query u \<noteq> [] then ''?'' @ ur_raw_query u else []) @
    (if ur_fragment u \<noteq> [] then ''#'' @ escaped_as encodeFragment (ur_raw_fragment u) (ur_fragment u) else [])"
  have "URL_String u = ur_scheme u @ ''://'' @ escape encodeHost (ur_host u) @ ?tail"
    using assms by (simp add: URL_String_def URL_authority_def Let_def)
  moreover have "?tail = [] \<or> hd ?tail \<in> set ''/?#''" by (cases ?path) auto
  ultimately show ?thesis using that by blast
qed

text \<open>An IPv6 literal without a zone is made of hexadecimal digits, colons and dots.\<close>

definition ipv6_char :: "char \<Rightarrow> bool" where
  "ipv6_char c \<longleftrightarrow> Client_IP.hex_value c \<noteq> None \<or> c = CHR '':'' \<or> c = CHR ''.''"

lemma hex_run_chars: "hex_run s acc off = (acc', off', rest) \<Longrightarrow> c \<in> set s \<Longrightarrow> ipv6_char c \<or> c \<in> set rest"
  by (induction s acc off rule: hex_run.induct) (auto simp: ipv6_char_def split: option.splits)

lemma digit_hex_value: "is_digit c \<Longrightarrow> ipv6_char c"
proof -
  assume "is_digit c"
  moreover have "(of_char c :: int) = int (of_char c)" by (simp add: of_nat_of_char)
  ultimately have "48 \<le> (of_char c :: int)" "(of_char c :: int) \<le> 57" unfolding is_digit_def by linarith+
  then show "ipv6_char c" by (simp add: ipv6_char_def Client_IP.hex_value_def Let_def)
qed

lemma in_split_on: "c \<in> set s \<Longrightarrow> c = d \<or> (\<exists>p \<in> set (split_on d s). c \<in> set p)"
proof (induction s)
  case (Cons x s)
  then show ?case by (cases "split_on d s") auto
qed simp

lemma parse_ipv4_chars: "parse_ipv4 s = Some bs \<Longrightarrow> c \<in> set s \<Longrightarrow> ipv6_char c"
proof -
  assume p: "parse_ipv4 s = Some bs" and c: "c \<in> set s"
  have "list_all (\<lambda>p. ipv4_field p \<noteq> None) (split_on CHR ''.'' s)" using p by (auto simp: parse_ipv4_def Let_def split: if_splits)
  then have "\<forall>p \<in> set (split_on CHR ''.'' s). list_all is_digit p" by (auto simp: list_all_iff ipv4_field_def split: if_splits)
  then show "ipv6_char c" using in_split_on [OF c, of "CHR ''.''"] digit_hex_value by (auto simp: list_all_iff ipv6_char_def)
qed

lemma ipv6_groups_chars:
  "ipv6_groups n gs ell s = Some (gs', ell', rest) \<Longrightarrow> c \<in> set s \<Longrightarrow> ipv6_char c \<or> c \<in> set rest"
proof (induction n gs ell s rule: ipv6_groups.induct)
  case (2 n gs ell s)
  obtain acc off r where h: "hex_run s 0 0 = (acc, off, r)" by (metis prod_cases3)
  show ?case
  proof (cases "c \<in> set r")
    case False
    then show ?thesis using hex_run_chars [OF h 2(4)] by blast
  next
    case True
    then obtain x r' where r: "r = x # r'" by (cases r) auto
    show ?thesis
    proof (cases "x = CHR ''.''")
      case True
      then have "\<exists>bs. parse_ipv4 s = Some bs" using 2(3) h r by (auto split: if_splits option.splits)
      then show ?thesis using parse_ipv4_chars 2(4) by blast
    next
      case dot: False
      then obtain y r'' where r': "r' = y # r''" "x = CHR '':''" using 2(3) h r by (auto simp: Let_def split: if_splits list.splits)
      have c: "c = CHR '':'' \<or> c = y \<or> c \<in> set r''" using True r r' by simp
      have off: "\<not> (off = 0 \<or> 4 < off)" using 2(3) h by (auto split: if_splits)
      show ?thesis
      proof (cases "y = CHR '':''")
        case True
        have "ipv6_groups n (gs @ [acc]) (Some (length (gs @ [acc]))) r'' = Some (gs', ell', rest)" if "r'' \<noteq> []"
          using 2(3) h r r' off True that by (auto simp: Let_def split: if_splits)
        then show ?thesis using 2(1) [OF h [symmetric] refl off] r r' True c dot 2(3) h off
          by (cases "r'' = []") (auto simp: ipv6_char_def Let_def split: if_splits)
      next
        case False
        have "ipv6_groups n (gs @ [acc]) ell (y # r'') = Some (gs', ell', rest)"
          using 2(3) h r r' off False by (auto simp: Let_def split: if_splits)
        then show ?thesis using 2(2) [OF h [symmetric] refl off] r r' False c dot by (auto simp: ipv6_char_def)
      qed
    qed
  qed
qed simp

lemma parse_ipv6_chars: "parse_ipv6 s = Some gs \<Longrightarrow> c \<in> set s \<Longrightarrow> ipv6_char c"
proof -
  assume p: "parse_ipv6 s = Some gs" and c: "c \<in> set s"
  show "ipv6_char c"
  proof (cases "has_prefix s ''::''")
    case True
    then obtain t where s: "s = ''::'' @ t" by (auto simp: has_prefix_iff)
    show ?thesis
    proof (cases "t = []")
      case True
      then show ?thesis using c s by (auto simp: ipv6_char_def)
    next
      case False
      then obtain gs' ell rest where "ipv6_groups 8 [] (Some 0) t = Some (gs', ell, rest)" "rest = []"
        using p s True by (auto simp: parse_ipv6_def Let_def split: option.splits if_splits)
      then show ?thesis using ipv6_groups_chars [of 8 "[]" "Some 0" t gs' ell rest c] c s by (auto simp: ipv6_char_def)
    qed
  next
    case False
    then obtain gs' ell rest where "ipv6_groups 8 [] None s = Some (gs', ell, rest)" "rest = []"
      using p by (auto simp: parse_ipv6_def Let_def split: option.splits if_splits)
    then show ?thesis using ipv6_groups_chars [of 8 "[]" None s gs' ell rest c] c by auto
  qed
qed

lemma ipv6_literal_zone: "ipv6_literal l \<Longrightarrow> c \<in> set l \<Longrightarrow> \<not> ipv6_char c \<Longrightarrow> CHR ''%'' \<in> set l"
  using parse_ipv6_chars [of l _ c] cut_not_found [of "CHR ''%''" l]
  by (cases "CHR ''%'' \<in> set l") (auto simp: ipv6_literal_def parse_addr_def split: option.splits if_splits addr.splits)

end
