(* ===== verification/Portal_Session.thy ===== *)
theory Portal_Session
  imports Encodings "HOL-Library.Signed_Division"
begin

text \<open>
  \<open>src/session/session.go\<close>: the portal's signed cookies. A token is \<open>url.Values\<close> in base64, a dot,
  and its HMAC. The clock is an argument of each operation that reads it.
\<close>

section \<open>Tokens\<close>

definition CookieName :: string where "CookieName = ''ban_session''"
definition PendingName :: string where "PendingName = ''ban_pending''"
definition DefaultTTL :: duration where "DefaultTTL = 30 * 24 * hour"
definition minSecretLen :: nat where "minSecretLen = 32"

datatype session_error = ErrInvalid | SecretTooShort

datatype Purpose = PurposeSession | PurposePending | PurposeOther string

definition purpose_string :: "Purpose \<Rightarrow> string" where
  "purpose_string p = (case p of PurposeSession \<Rightarrow> ''session'' | PurposePending \<Rightarrow> ''pending'' | PurposeOther s \<Rightarrow> s)"

record portal_session =
  ps_account_id :: int
  ps_email :: string
  ps_epoch :: int
  ps_issued_at :: time
  ps_expires_at :: time

record Codec =
  cd_secret :: string
  cd_ttl :: duration
  cd_secure :: bool

definition codec_ttl :: "Codec \<Rightarrow> duration" where
  "codec_ttl c = (if cd_ttl c > 0 then cd_ttl c else DefaultTTL)"

definition NewCodec :: "string \<Rightarrow> duration \<Rightarrow> bool \<Rightarrow> session_error + Codec" where
  "NewCodec secret ttl secure =
     (if length secret < minSecretLen then Inl SecretTooShort else Inr \<lparr>cd_secret = secret, cd_ttl = ttl, cd_secure = secure\<rparr>)"

definition unix :: "time \<Rightarrow> int" where
  "unix t = t div second"

definition sign :: "Codec \<Rightarrow> string \<Rightarrow> string" where
  "sign c body = b64url_encode (hmac_sha256 (cd_secret c) body)"

definition sealed_values :: "url_values \<Rightarrow> time \<Rightarrow> Purpose \<Rightarrow> url_values" where
  "sealed_values v expires purpose = values_set ''_p'' (purpose_string purpose) (values_set ''_exp'' (format_int (unix expires)) v)"

definition Seal :: "Codec \<Rightarrow> time \<Rightarrow> url_values \<Rightarrow> duration \<Rightarrow> Purpose \<Rightarrow> string" where
  "Seal c now v ttl purpose =
     (let body = b64url_encode (values_encode (sealed_values v (now + ttl) purpose)) in body @ ''.'' @ sign c body)"

definition Open :: "Codec \<Rightarrow> time \<Rightarrow> string \<Rightarrow> Purpose \<Rightarrow> session_error + url_values" where
  "Open c now token purpose =
     (case cut CHR ''.'' token of (body, sig, ok) \<Rightarrow>
        if \<not> ok \<or> sig \<noteq> sign c body then Inl ErrInvalid
        else case b64url_decode body of
            None \<Rightarrow> Inl ErrInvalid
          | Some raw \<Rightarrow>
              (case ParseQuery raw of
                 None \<Rightarrow> Inl ErrInvalid
               | Some v \<Rightarrow>
                   if purpose_string purpose = [] \<or> values_get v ''_p'' \<noteq> purpose_string purpose then Inl ErrInvalid
                   else case parse_int (values_get v ''_exp'') of (expires, ok) \<Rightarrow>
                     if \<not> ok \<or> \<not> now < expires * second then Inl ErrInvalid else Inr v))"

section \<open>Sessions\<close>

definition session_values :: "portal_session \<Rightarrow> url_values" where
  "session_values s =
     values_set ''ep'' (format_int (ps_epoch s)) (values_set ''iat'' (format_int (unix (ps_issued_at s)))
       (values_set ''e'' (ps_email s) (values_set ''a'' (format_int (ps_account_id s)) [])))"

definition stamped :: "Codec \<Rightarrow> time \<Rightarrow> portal_session \<Rightarrow> portal_session" where
  "stamped c now s = s\<lparr>ps_issued_at := unix now * second, ps_expires_at := unix now * second + codec_ttl c\<rparr>"

definition Encode :: "Codec \<Rightarrow> time \<Rightarrow> portal_session \<Rightarrow> string \<times> portal_session" where
  "Encode c now s0 = (let s = stamped c now s0 in (Seal c now (session_values s) (codec_ttl c) PurposeSession, s))"

definition Decode :: "Codec \<Rightarrow> time \<Rightarrow> string \<Rightarrow> session_error + portal_session" where
  "Decode c now token =
     (case Open c now token PurposeSession of
        Inl e \<Rightarrow> Inl e
      | Inr v \<Rightarrow>
          (case (parse_int (values_get v ''a''), parse_int (values_get v ''iat'')) of ((aid, ok1), (iat, ok2)) \<Rightarrow>
             if \<not> ok1 \<or> \<not> ok2 \<or> aid \<le> 0 \<or> values_get v ''e'' = [] then Inl ErrInvalid
             else Inr \<lparr>ps_account_id = aid, ps_email = values_get v ''e'', ps_epoch = fst (parse_int (values_get v ''ep'')),
                       ps_issued_at = iat * second, ps_expires_at = fst (parse_int (values_get v ''_exp'')) * second\<rparr>))"

section \<open>Cookies\<close>

text \<open>The cookies the operations set; every one is for the whole site, \<open>HttpOnly\<close> and \<open>SameSite=Lax\<close>.\<close>

record Cookie =
  ck_name :: string
  ck_value :: string
  ck_max_age :: int
  ck_secure :: bool

definition cookie :: "Codec \<Rightarrow> string \<Rightarrow> string \<Rightarrow> int \<Rightarrow> Cookie" where
  "cookie c name x max_age = \<lparr>ck_name = name, ck_value = x, ck_max_age = max_age, ck_secure = cd_secure c\<rparr>"

definition request_cookie :: "(string \<times> string) list \<Rightarrow> string \<Rightarrow> session_error + string" where
  "request_cookie cookies name = (case map_of cookies name of None \<Rightarrow> Inl ErrInvalid | Some x \<Rightarrow> Inr x)"

definition Issue :: "Codec \<Rightarrow> time \<Rightarrow> portal_session \<Rightarrow> Cookie \<times> portal_session" where
  "Issue c now s = (case Encode c now s of (token, s') \<Rightarrow> (cookie c CookieName token (codec_ttl c sdiv second), s'))"

definition Read :: "Codec \<Rightarrow> time \<Rightarrow> (string \<times> string) list \<Rightarrow> session_error + portal_session" where
  "Read c now cookies = (case request_cookie cookies CookieName of Inl e \<Rightarrow> Inl e | Inr x \<Rightarrow> Decode c now x)"

definition Clear :: "Codec \<Rightarrow> Cookie" where
  "Clear c = cookie c CookieName [] (-1)"

definition SetPending :: "Codec \<Rightarrow> time \<Rightarrow> url_values \<Rightarrow> duration \<Rightarrow> Cookie" where
  "SetPending c now v ttl = cookie c PendingName (Seal c now v ttl PurposePending) (ttl sdiv second)"

definition Pending :: "Codec \<Rightarrow> time \<Rightarrow> (string \<times> string) list \<Rightarrow> session_error + url_values" where
  "Pending c now cookies = (case request_cookie cookies PendingName of Inl e \<Rightarrow> Inl e | Inr x \<Rightarrow> Open c now x PurposePending)"

definition ClearPending :: "Codec \<Rightarrow> Cookie" where
  "ClearPending c = cookie c PendingName [] (-1)"

section \<open>The form token\<close>

definition csrf_message :: "portal_session \<Rightarrow> string" where
  "csrf_message s = ''csrf|'' @ format_int (ps_account_id s) @ ''|'' @ format_int (unix (ps_issued_at s))"

definition CSRF :: "Codec \<Rightarrow> portal_session \<Rightarrow> string" where
  "CSRF c s = sign c (csrf_message s)"

definition CheckCSRF :: "Codec \<Rightarrow> portal_session \<Rightarrow> string \<Rightarrow> bool" where
  "CheckCSRF c s token \<longleftrightarrow> token \<noteq> [] \<and> token = CSRF c s"

section \<open>Lemmas\<close>

definition values_ok :: "url_values \<Rightarrow> bool" where
  "values_ok v \<longleftrightarrow> distinct (map fst v) \<and> [] \<notin> snd ` set v"

lemma values_ok_Nil: "values_ok []" and values_ok_set: "values_ok v \<Longrightarrow> values_ok (values_set k x v)"
  by (simp_all add: values_ok_def distinct_values_set values_set_nonempty)

lemma no_dot: "CHR ''.'' \<notin> set (b64url_encode s)"
  using b64url_encode_alphabet set_b64_alphabet(3) by blast

text \<open>What opening a sealed token gives, at any time and for any purpose.\<close>

lemma Open_Seal:
  assumes v: "values_ok v" and e: "is_int64 (unix (now + ttl))"
  shows "Open c t (Seal c now v ttl p) q =
    (if purpose_string q \<noteq> [] \<and> purpose_string p = purpose_string q \<and> t < unix (now + ttl) * second
     then Inr (sort_key fst (sealed_values v (now + ttl) p)) else Inl ErrInvalid)"
proof -
  let ?sv = "sealed_values v (now + ttl) p" and ?body = "b64url_encode (values_encode (sealed_values v (now + ttl) p))"
  have ok: "values_ok ?sv" unfolding sealed_values_def by (intro values_ok_set v)
  have cut: "cut CHR ''.'' (Seal c now v ttl p) = (?body, sign c ?body, True)"
    using cut_found [OF no_dot] by (simp add: Seal_def Let_def)
  have parse: "ParseQuery (values_encode ?sv) = Some (sort_key fst ?sv)" by (rule vals.dec_enc [OF ok [unfolded values_ok_def]])
  have get: "values_get (sort_key fst ?sv) k = values_get ?sv k" for k by (rule values_get_sort) (use ok in \<open>simp add: values_ok_def\<close>)
  have p: "values_get ?sv ''_p'' = purpose_string p" "values_get ?sv ''_exp'' = format_int (unix (now + ttl))"
    by (simp_all add: sealed_values_def values_get_set)
  show ?thesis unfolding Open_def cut by (simp add: b64.dec_enc parse get p parse_format_int [OF e])
qed

lemma stamped_fields [simp]:
  "ps_account_id (stamped c now s) = ps_account_id s" "ps_email (stamped c now s) = ps_email s" "ps_epoch (stamped c now s) = ps_epoch s"
  "ps_issued_at (stamped c now s) = unix now * second" "ps_expires_at (stamped c now s) = unix now * second + codec_ttl c"
  by (simp_all add: stamped_def)

lemma unix_second [simp]: "unix (n * second) = n"
  by (simp add: unix_def)

lemma unix_add_whole: "d mod second = 0 \<Longrightarrow> unix (t + d) * second = unix t * second + d"
proof -
  assume "d mod second = 0"
  then obtain k where "d = k * second" by (metis mod_0_imp_dvd dvd_def mult.commute)
  then show ?thesis by (simp add: unix_def distrib_right)
qed

lemma session_values_ok: "values_ok (session_values s)"
  unfolding session_values_def by (intro values_ok_set values_ok_Nil)

lemma session_values_get:
  "values_get (sort_key fst (sealed_values (session_values s) e p)) k = values_get (sealed_values (session_values s) e p) k"
  by (rule values_get_sort) (use values_ok_set [OF values_ok_set [OF session_values_ok]] in \<open>simp add: values_ok_def sealed_values_def\<close>)

lemma csrf_not_sealed: "CHR ''|'' \<in> set (csrf_message s)"
  by (simp add: csrf_message_def)

lemma Open_signed: "Open c t token p = Inr v \<Longrightarrow> \<exists>raw body. token = body @ ''.'' @ sign c body \<and> b64url_decode body = Some raw \<and> ParseQuery raw = Some v"
  using cut_spec [of "CHR ''.''" token] by (auto simp: Open_def split: prod.splits if_splits option.splits)

lemma format_int_chars: "x \<in> set (format_int i) \<Longrightarrow> is_digit x \<or> x = CHR ''-''"
  using nat_digits_all_digit by (auto simp: format_int_def list_all_iff split: if_splits)

lemma format_int_clean: "CHR ''.'' \<notin> set (format_int i)" "CHR ''|'' \<notin> set (format_int i)"
proof -
  have "\<not> is_digit CHR ''.''" "\<not> is_digit CHR ''|''" by code_simp+
  then show "CHR ''.'' \<notin> set (format_int i)" "CHR ''|'' \<notin> set (format_int i)" using format_int_chars by force+
qed

lemma csrf_message_inject: "csrf_message s = csrf_message s' \<longleftrightarrow> ps_account_id s = ps_account_id s' \<and> unix (ps_issued_at s) = unix (ps_issued_at s')"
proof
  assume e: "csrf_message s = csrf_message s'"
  have sp: "split_on CHR ''|'' (format_int a @ CHR ''|'' # format_int b) = [format_int a, format_int b]" for a b
    using format_int_clean(2) by (simp add: split_on_append split_on_no_sep)
  have "format_int (ps_account_id s) @ CHR ''|'' # format_int (unix (ps_issued_at s)) =
      format_int (ps_account_id s') @ CHR ''|'' # format_int (unix (ps_issued_at s'))"
    using e by (simp add: csrf_message_def)
  from arg_cong [OF this, of "split_on CHR ''|''"]
  have "format_int (ps_account_id s) = format_int (ps_account_id s')" "format_int (unix (ps_issued_at s)) = format_int (unix (ps_issued_at s'))"
    by (simp_all add: sp)
  then show "ps_account_id s = ps_account_id s' \<and> unix (ps_issued_at s) = unix (ps_issued_at s')" by (simp add: format_int_inject)
qed (simp add: csrf_message_def)

lemma csrf_token_not_open: "Open c t (csrf_message s @ ''.'' @ CSRF c s) p = Inl ErrInvalid"
proof -
  have "CHR ''.'' \<notin> set (csrf_message s)" using format_int_clean(1) by (simp add: csrf_message_def)
  from cut_found [OF this] have cut: "cut CHR ''.'' (csrf_message s @ ''.'' @ CSRF c s) = (csrf_message s, CSRF c s, True)" by simp
  have "b64url_decode (csrf_message s) = None"
    using b64url_decode_alphabet [of "csrf_message s" _ "CHR ''|''"] csrf_not_sealed [of s] set_b64_alphabet(4)
    by (cases "b64url_decode (csrf_message s)") auto
  then show ?thesis unfolding Open_def cut by simp
qed

lemma Decode_Encode:
  assumes "0 < ps_account_id s" "ps_email s \<noteq> []" "is_int64 (ps_account_id s)" "is_int64 (ps_epoch s)" "is_int64 (unix now)"
    "is_int64 (unix (now + codec_ttl c))" "codec_ttl c mod second = 0"
  shows "Decode c t (fst (Encode c now s)) =
    (if t < ps_expires_at (snd (Encode c now s)) then Inr (snd (Encode c now s)) else Inl ErrInvalid)"
proof -
  let ?s = "stamped c now s" and ?sv = "sealed_values (session_values (stamped c now s)) (now + codec_ttl c) PurposeSession"
  have o: "Open c t (fst (Encode c now s)) PurposeSession = (if t < ps_expires_at ?s then Inr (sort_key fst ?sv) else Inl ErrInvalid)"
    unfolding Encode_def Let_def fst_conv Open_Seal [OF session_values_ok assms(6)]
    using unix_add_whole [OF assms(7), of now] by (simp add: purpose_string_def)
  have g: "values_get ?sv ''a'' = format_int (ps_account_id s)" "values_get ?sv ''e'' = ps_email s"
    "values_get ?sv ''iat'' = format_int (unix now)" "values_get ?sv ''ep'' = format_int (ps_epoch s)"
    "values_get ?sv ''_exp'' = format_int (unix (now + codec_ttl c))"
    by (simp_all add: sealed_values_def session_values_def values_get_set)
  have "Inr (snd (Encode c now s)) = (Inr \<lparr>ps_account_id = ps_account_id s, ps_email = ps_email s, ps_epoch = ps_epoch s, ps_issued_at = unix now * second,
      ps_expires_at = unix (now + codec_ttl c) * second\<rparr> :: session_error + portal_session)"
    using unix_add_whole [OF assms(7), of now] by (simp add: Encode_def Let_def stamped_def)
  then show ?thesis
    using assms(1,2) unfolding Decode_def o
    using unix_add_whole [OF assms(7), of now]
    by (simp add: session_values_get g parse_format_int assms(3,4,5,6))
qed

section \<open>Properties\<close>

text \<open>C30: A session cookie reads back as the session it was issued for, stamped to the second, at
  every time before its expiry, and as nothing from then on. The lifetime is a whole number of
  seconds, and the numbers fit in 64 bits.\<close>

theorem session_roundtrip:
  assumes "0 < ps_account_id s" "ps_email s \<noteq> []" "is_int64 (ps_account_id s)" "is_int64 (ps_epoch s)" "is_int64 (unix now)"
    "is_int64 (unix (now + codec_ttl c))" "codec_ttl c mod second = 0"
  shows "Decode c t (fst (Encode c now s)) =
    (if t < ps_expires_at (snd (Encode c now s)) then Inr (snd (Encode c now s)) else Inl ErrInvalid)"
  by (rule Decode_Encode [OF assms])

text \<open>C31: A token is good only for what it was sealed for: a pending checkout never reads as a
  session nor a session as a pending checkout, and a form token, sent back as the signature of what it signs, opens as
  nothing. A form token is tied to its session: two sessions share the signed text only when their
  account and second of issue agree. A token opens only when it carries the signature of its own
  body.\<close>

theorem session_tokens_separate:
  assumes "values_ok v" "is_int64 (unix (now + ttl))"
  shows "Decode c t (Seal c now v ttl PurposePending) = Inl ErrInvalid \<and>
    Open c t (Seal c now v ttl PurposeSession) PurposePending = Inl ErrInvalid \<and>
    Open c t (csrf_message s @ ''.'' @ CSRF c s) p = Inl ErrInvalid \<and>
    (csrf_message s = csrf_message s' \<longleftrightarrow> ps_account_id s = ps_account_id s' \<and> unix (ps_issued_at s) = unix (ps_issued_at s')) \<and>
    (\<forall>token. \<not> isl (Open c t token p) \<longrightarrow> (\<exists>body. token = body @ ''.'' @ sign c body))"
proof -
  have "Open c t (Seal c now v ttl PurposePending) PurposeSession = Inl ErrInvalid" "Open c t (Seal c now v ttl PurposeSession) PurposePending = Inl ErrInvalid"
    unfolding Open_Seal [OF assms] by (simp_all add: purpose_string_def)
  moreover have "\<exists>body. token = body @ ''.'' @ sign c body" if "\<not> isl (Open c t token p)" for token
    using that Open_signed [of c t token p] by (cases "Open c t token p") auto
  ultimately show ?thesis using csrf_token_not_open csrf_message_inject by (simp add: Decode_def)
qed

definition sample_session :: portal_session where
  "sample_session = \<lparr>ps_account_id = 7, ps_email = ''ann@example.com'', ps_epoch = 2, ps_issued_at = 0, ps_expires_at = 0\<rparr>"

definition sample_codec :: Codec where
  "sample_codec = \<lparr>cd_secret = replicate 32 CHR ''k'', cd_ttl = 60 * second, cd_secure = True\<rparr>"

theorem session_roundtrip_witness:
  "Decode sample_codec (50 * second) (fst (Encode sample_codec (3 * second) sample_session)) = Inr (stamped sample_codec (3 * second) sample_session) \<and>
   Decode sample_codec (63 * second) (fst (Encode sample_codec (3 * second) sample_session)) = Inl ErrInvalid"
proof -
  have "0 < ps_account_id sample_session" "ps_email sample_session \<noteq> []" "is_int64 (ps_account_id sample_session)" "is_int64 (ps_epoch sample_session)"
    "is_int64 (unix (3 * second))" "is_int64 (unix (3 * second + codec_ttl sample_codec))" "codec_ttl sample_codec mod second = 0"
    by (simp_all add: sample_session_def sample_codec_def codec_ttl_def is_int64_def unix_def)
  note r = session_roundtrip [OF this]
  have e: "snd (Encode sample_codec (3 * second) sample_session) = stamped sample_codec (3 * second) sample_session"
    "ps_expires_at (stamped sample_codec (3 * second) sample_session) = 63 * second"
    by (simp_all add: Encode_def Let_def sample_codec_def codec_ttl_def unix_def)
  show ?thesis unfolding r e by simp
qed

theorem session_tokens_separate_witness:
  "Decode sample_codec 5 (Seal sample_codec 3 (values_set ''plan'' ''pro'' []) second PurposePending) = Inl ErrInvalid \<and>
   Open sample_codec 5 (csrf_message sample_session @ ''.'' @ CSRF sample_codec sample_session) PurposeSession = Inl ErrInvalid"
proof -
  have "values_ok (values_set ''plan'' ''pro'' [])" "is_int64 (unix (3 + second))"
    by (simp_all add: values_ok_set values_ok_Nil is_int64_def unix_def)
  from session_tokens_separate [OF this, of sample_codec 5 sample_session PurposeSession sample_session] show ?thesis by simp
qed

end
