(* ===== verification/Portal.thy ===== *)
theory Portal
  imports Go_Url Portal_Session Portal_Limiter Billing_Checkout
begin

text \<open>
  \<open>src/portal/portal.go\<close>: the portal's server, its pages, sessions, guards, origins and return targets. A page is
  its template, its frame and its payload; dates in a payload stay times. What happens in a request beside the
  store is recorded in the state: mails, notifications, calls to Stripe. \<open>net/mail\<close>'s address parser, the
  template engine, the website's handoff package and the Stripe library are fields of the server, random bytes and the
  clock those of \<open>portal_env\<close>; a request reads the clock once. The log is left out.
\<close>

section \<open>What the pages show\<close>

record entitlementView =
  ev_source :: string
  ev_package :: string
  ev_games :: string
  ev_stores :: string
  ev_modes :: string
  ev_until :: "time option"
  ev_trial :: bool

record keyView =
  kv_id :: int
  kv_prefix :: string
  kv_kind :: KeyKind
  kv_label :: string
  kv_created :: time
  kv_last_used :: "time option"

record accountData =
  ac_account :: Account
  ac_entitlements :: "entitlementView list"
  ac_ents_failed :: bool
  ac_keys :: "keyView list"
  ac_keys_failed :: bool
  ac_new_key :: string
  ac_usage :: "UsageRow list"
  ac_month :: time
  ac_has_stripe :: bool
  ac_change_url :: string
  ac_trial_ends :: "time option"
  ac_return_to :: string

record confirmData =
  cf_package :: string
  cf_games :: string
  cf_stores :: string
  cf_addons :: string
  cf_interval :: string
  cf_total :: string
  cf_change :: bool
  cf_invite :: string
  cf_return_to :: string
  cf_action :: string
  cf_fields :: url_values
  cf_billing_off :: bool
  cf_has_plan :: bool
  cf_switch :: string

record successData =
  sd_entitlements :: "entitlementView list"
  sd_has_keys :: bool
  sd_return_to :: string

record adminHomeData =
  ah_query :: string
  ah_accounts :: "Account list"
  ah_demo :: "DemoAccess list"
  ah_has_stripe :: bool
  ah_actions :: "AdminAction list"

record adminAccountData =
  ad_account :: Account
  ad_keys :: "Key list"
  ad_entitlements :: "(Entitlement \<times> entitlementView) list"
  ad_games :: "string list"
  ad_modes :: "string list"
  ad_intervals :: "Interval list"
  ad_new_invite :: string
  ad_stripe_url :: string
  ad_actions :: "AdminAction list"
  ad_usage :: "KeyUsageRow list"

text \<open>A date as the form gave it, or the one the page fills in.\<close>

datatype shown_date = GivenDate string | DefaultDate time

record adminUsageData =
  au_since :: shown_date
  au_until :: shown_date
  au_email :: string
  au_game :: string
  au_key_prefix :: string
  au_rows :: "UsageRow list"
  au_by_account :: bool
  au_by_key :: "KeyUsageRow list"
  au_paths :: "PathUsageRow list"

datatype page_data =
    NoData
  | ErrorData string string
  | LoginData string string
  | SentData string int
  | LoginConfirmData string
  | TrialDeniedData "time option"
  | TrialConfirmData string string string int string
  | SessionConfirmData string string string string
  | AccountPage accountData
  | ConfirmPage confirmData
  | SuccessPage successData
  | AdminHomePage adminHomeData
  | AdminAccountPage adminAccountData
  | AdminUsagePage adminUsageData

record page =
  pg_title :: string
  pg_session :: "portal_session option"
  pg_csrf :: string
  pg_error :: string
  pg_notice :: string
  pg_pricing_url :: string
  pg_privacy_url :: string
  pg_guide_url :: string
  pg_public_url :: string
  pg_wide :: bool
  pg_data :: page_data

section \<open>Server, requests and replies\<close>

text \<open>The claims of a handoff token (\<open>apihandoff.Claims\<close>).\<close>

record Claims =
  cl_email :: string
  cl_name :: string
  cl_purpose :: string
  cl_nonce :: string
  cl_expires :: time

text \<open>Stripe as the portal uses it: the checkout's calls, and reading and updating a subscription.\<close>

record portal_stripe =
  st_api :: stripe_api
  st_get :: "string \<Rightarrow> string + Subscription"
  st_update :: "string \<Rightarrow> SubscriptionUpdate \<Rightarrow> string option"

record Server =
  sv_catalog :: ProductList
  sv_games :: "string list"
  sv_stores :: "(string \<Rightarrow> string + SiteStores) option"
  sv_sessions :: Codec
  sv_stripe :: "portal_stripe option"
  sv_checkout :: "Checkout option"
  sv_reconcile :: "(string \<Rightarrow> unit bop) option"
  sv_reconcile_all :: "Result bop option"
  sv_public_url :: string
  sv_pricing_url :: string
  sv_success_path :: string
  sv_cancel_path :: string
  sv_admin_emails :: "string list"
  sv_trial_days :: int
  sv_history_on_sale :: bool
  sv_game_secrets :: "(string \<times> string) list"
  sv_login_links_per_hour :: int
  sv_client_ip_header :: string
  sv_executes :: "string \<Rightarrow> page \<Rightarrow> bool"
  sv_parse_address :: "string \<Rightarrow> string option"
  sv_handoff_game :: "string \<Rightarrow> string"
  sv_handoff_verify :: "string \<Rightarrow> string \<Rightarrow> time \<Rightarrow> Claims option"
  sv_error_text :: "billing_error \<Rightarrow> string"
  sv_grant_text :: "GrantError \<Rightarrow> string"
  sv_summary :: "Result \<Rightarrow> string"
  sv_payment_failure :: "billing_error \<Rightarrow> bool"

record portal_request =
  pq_method :: string
  pq_path_values :: "(string \<times> string) list"
  pq_query :: url_values
  pq_form :: url_values
  pq_post_form :: url_values
  pq_cookies :: "(string \<times> string) list"
  pq_headers :: headers
  pq_remote :: string

record portal_env =
  pe_now :: time
  pe_rand :: "string option"
  pe_key_rand :: "nat \<Rightarrow> string option"
  pe_mail_ok :: bool

datatype portal_body = HtmlPage string page | RedirectTo string | PlainText string | NotFoundPage | Stylesheet

record portal_reply =
  rp_code :: int
  rp_body :: portal_body
  rp_headers :: "(string \<times> string) list"
  rp_cookies :: "Cookie list"

datatype portal_mail = MagicLinkMail string | KeyCreatedMail string string | TrialStartedMail time int | TrialEndingMail time

record portal_state =
  po_db :: db
  po_limit :: limiter
  po_mails :: "(string \<times> portal_mail) list"
  po_notices :: "string list"
  po_calls :: "stripe_call list"
  po_updates :: "(string \<times> SubscriptionUpdate) list"
  po_alerts :: "billing_alert list"

type_synonym handler = "portal_env \<Rightarrow> portal_request \<Rightarrow> portal_state \<Rightarrow> portal_reply \<times> portal_state"
type_synonym session_handler = "portal_session \<Rightarrow> Account \<Rightarrow> handler"

definition path_value :: "portal_request \<Rightarrow> string \<Rightarrow> string" where
  "path_value rq k = (case map_of (pq_path_values rq) k of Some v \<Rightarrow> v | None \<Rightarrow> [])"

definition FormValue :: "portal_request \<Rightarrow> string \<Rightarrow> string" where
  "FormValue rq k = values_get (pq_form rq) k"

definition PostFormValue :: "portal_request \<Rightarrow> string \<Rightarrow> string" where
  "PostFormValue rq k = values_get (pq_post_form rq) k"

definition redirect :: "int \<Rightarrow> string \<Rightarrow> portal_reply" where
  "redirect code loc = \<lparr>rp_code = code, rp_body = RedirectTo loc, rp_headers = [], rp_cookies = []\<rparr>"

definition http_error :: "int \<Rightarrow> string \<Rightarrow> portal_reply" where
  "http_error code msg = \<lparr>rp_code = code, rp_body = PlainText msg, rp_headers = [], rp_cookies = []\<rparr>"

definition http_not_found :: portal_reply where
  "http_not_found = \<lparr>rp_code = 404, rp_body = NotFoundPage, rp_headers = [], rp_cookies = []\<rparr>"

definition with_cookies :: "Cookie list \<Rightarrow> portal_reply \<Rightarrow> portal_reply" where
  "with_cookies cs r = r\<lparr>rp_cookies := cs @ rp_cookies r\<rparr>"

section \<open>Effects\<close>

definition po_store :: "'a op \<Rightarrow> portal_state \<Rightarrow> (access_error + 'a) \<times> portal_state" where
  "po_store f s = (case f (po_db s) of (r, d) \<Rightarrow> (r, s\<lparr>po_db := d\<rparr>))"

definition po_allow :: "string \<Rightarrow> int \<Rightarrow> time \<Rightarrow> portal_state \<Rightarrow> bool \<times> portal_state" where
  "po_allow key limit now s = (case allow (po_limit s) key limit now of (ok, l) \<Rightarrow> (ok, s\<lparr>po_limit := l\<rparr>))"

text \<open>\<open>Store.Notify\<close> is one statement; the callers only log its failure.\<close>

definition po_notify :: "string \<Rightarrow> portal_state \<Rightarrow> portal_state" where
  "po_notify payload s =
     (case po_store driver_call s of (Inl _, s') \<Rightarrow> s' | (Inr _, s') \<Rightarrow> s'\<lparr>po_notices := po_notices s' @ [payload]\<rparr>)"

definition po_send :: "portal_env \<Rightarrow> string \<Rightarrow> portal_mail \<Rightarrow> portal_state \<Rightarrow> bool \<times> portal_state" where
  "po_send en to m s = (pe_mail_ok en, if pe_mail_ok en then s\<lparr>po_mails := po_mails s @ [(to, m)]\<rparr> else s)"

definition po_checkout :: "'a cop \<Rightarrow> portal_state \<Rightarrow> (billing_error + 'a) \<times> portal_state" where
  "po_checkout f s =
     (case f \<lparr>co_db = po_db s, co_calls = po_calls s\<rparr> of (r, c) \<Rightarrow> (r, s\<lparr>po_db := co_db c, po_calls := co_calls c\<rparr>))"

definition po_billing :: "time \<Rightarrow> (bstate \<Rightarrow> 'a \<times> bstate) \<Rightarrow> portal_state \<Rightarrow> 'a \<times> portal_state" where
  "po_billing now f s =
     (case f \<lparr>bs_db = po_db s, bs_now = now, bs_alerts = po_alerts s, bs_reloads = 0\<rparr> of (r, b) \<Rightarrow>
        (r, s\<lparr>po_db := bs_db b, po_alerts := bs_alerts b, po_notices := po_notices s @ replicate (bs_reloads b) []\<rparr>))"

section \<open>Origins and return targets\<close>

definition siteOrigin :: "string \<Rightarrow> string" where
  "siteOrigin u =
     (case Parse u of None \<Rightarrow> [] | Some p \<Rightarrow> if ur_host p = [] then [] else ur_scheme p @ ''://'' @ ur_host p)"

definition validReturnTo :: "string \<Rightarrow> string \<Rightarrow> string" where
  "validReturnTo raw fallback =
     (case Parse raw of
        None \<Rightarrow> fallback
      | Some u \<Rightarrow>
          if ur_user u \<noteq> None \<or> ur_host u = [] then fallback
          else let host = to_lower (Hostname u) in
            if ur_scheme u = ''https'' \<and> (host = ''mtgban.com'' \<or> has_suffix host ''.mtgban.com'') then URL_String u
            else if ur_scheme u = ''http'' \<and> host = ''localhost'' then URL_String u
            else fallback)"

definition sameOrigin :: "Server \<Rightarrow> portal_request \<Rightarrow> bool" where
  "sameOrigin sv rq =
     (let site = hdr_get (pq_headers rq) ''Sec-Fetch-Site'' in
      if site = ''same-origin'' then True
      else if site = ''cross-site'' \<or> site = ''same-site'' then False
      else let o1 = hdr_get (pq_headers rq) ''Origin'';
               origin = (if o1 = [] then siteOrigin (hdr_get (pq_headers rq) ''Referer'') else o1)
           in origin \<noteq> [] \<and> equal_fold origin (siteOrigin (sv_public_url sv)))"

definition clientIP :: "Server \<Rightarrow> portal_request \<Rightarrow> string" where
  "clientIP sv rq = FromRequest (pq_headers rq) (pq_remote rq) (sv_client_ip_header sv)"

section \<open>Pages\<close>

definition suspendedMsg :: string where
  "suspendedMsg = ''This account is suspended. Contact administrator@mtgban.com if you think that is a mistake.''"

definition csrfExpiredMsg :: string where "csrfExpiredMsg = ''this form expired, go back and try again''"

definition sameOriginFailMsg :: string where
  "sameOriginFailMsg = ''That request did not come from this site. Open the link again and use the button on the page.''"

definition pageFor :: "Server \<Rightarrow> portal_session option \<Rightarrow> string \<Rightarrow> page" where
  "pageFor sv sess title =
     \<lparr>pg_title = title, pg_session = sess, pg_csrf = (case sess of None \<Rightarrow> [] | Some x \<Rightarrow> CSRF (sv_sessions sv) x), pg_error = [], pg_notice = [],
      pg_pricing_url = sv_pricing_url sv, pg_privacy_url = siteOrigin (sv_pricing_url sv) @ ''/privacy'',
      pg_guide_url = siteOrigin (sv_pricing_url sv) @ ''/guide#api-getting-started'', pg_public_url = sv_public_url sv, pg_wide = False, pg_data = NoData\<rparr>"

definition page_headers :: "(string \<times> string) list" where
  "page_headers =
     [(''Content-Type'', ''text/html; charset=utf-8''), (''Cache-Control'', ''no-store''), (''X-Frame-Options'', ''DENY''),
      (''Content-Security-Policy'', ''frame-ancestors '' @ [CHR 0x27] @ ''none'' @ [CHR 0x27]), (''Referrer-Policy'', ''no-referrer'')]"

text \<open>The empty addresses \<open>render\<close> fills in are never empty after \<open>pageFor\<close>, but for the pricing page's own.\<close>

definition render :: "Server \<Rightarrow> int \<Rightarrow> string \<Rightarrow> page \<Rightarrow> portal_reply" where
  "render sv status name p0 =
     (let p = p0\<lparr>pg_pricing_url := (if pg_pricing_url p0 = [] then sv_pricing_url sv else pg_pricing_url p0),
                pg_privacy_url := (if pg_privacy_url p0 = [] then siteOrigin (sv_pricing_url sv) @ ''/privacy'' else pg_privacy_url p0),
                pg_guide_url := (if pg_guide_url p0 = [] then siteOrigin (sv_pricing_url sv) @ ''/guide#api-getting-started'' else pg_guide_url p0)\<rparr>
      in if \<not> sv_executes sv name p then http_error 500 ''template error''
         else \<lparr>rp_code = status, rp_body = HtmlPage name p, rp_headers = page_headers, rp_cookies = []\<rparr>)"

definition fail_page :: "Server \<Rightarrow> portal_env \<Rightarrow> portal_request \<Rightarrow> int \<Rightarrow> string \<Rightarrow> portal_reply" where
  "fail_page sv en rq status msg =
     (let sess = (case Read (sv_sessions sv) (pe_now en) (pq_cookies rq) of Inl _ \<Rightarrow> None | Inr got \<Rightarrow> Some got) in
      render sv status ''error.html'' ((pageFor sv sess ''Something went wrong'')
        \<lparr>pg_error := msg, pg_data := ErrorData (sv_pricing_url sv) ''Back to the API page''\<rparr>))"

definition notices :: "(string \<times> string) list" where
  "notices =
     [(''revoked'', ''Key revoked.''),
      (''plan'', ''Plan changed. Your access updates within a minute.''),
      (''plan_pending'', ''Plan changed; your access updates shortly.''),
      (''trial'', ''Your trial has started. Create a key below to begin.''),
      (''login'', ''You are signed in.''),
      (''status'', ''Status updated.''),
      (''saved'', ''Note saved.''),
      (''granted'', ''Entitlement added.''),
      (''ended'', ''Entitlement ended.'')]"

definition noticeFor :: "portal_request \<Rightarrow> string" where
  "noticeFor rq = (case map_of notices (values_get (pq_query rq) ''notice'') of Some m \<Rightarrow> m | None \<Rightarrow> [])"

section \<open>Sessions and guards\<close>

datatype portal_denial = errNoSession | errSuspended

definition current_session :: "Server \<Rightarrow> portal_env \<Rightarrow> portal_request \<Rightarrow> portal_state \<Rightarrow> (portal_denial + portal_session \<times> Account) \<times> portal_state" where
  "current_session sv en rq s =
     (case Read (sv_sessions sv) (pe_now en) (pq_cookies rq) of
        Inl _ \<Rightarrow> (Inl errNoSession, s)
      | Inr sess \<Rightarrow>
          (case po_store (GetAccount (ps_account_id sess)) s of
             (Inl _, s') \<Rightarrow> (Inl errNoSession, s')
           | (Inr a, s') \<Rightarrow>
               if ps_epoch sess \<noteq> a_session_epoch a then (Inl errNoSession, s')
               else if a_status a \<noteq> AccountActive then (Inl errSuspended, s')
               else (Inr (sess, a), s')))"

definition issueSession :: "Server \<Rightarrow> time \<Rightarrow> Account \<Rightarrow> Cookie" where
  "issueSession sv now a =
     fst (Issue (sv_sessions sv) now
       \<lparr>ps_account_id = a_id a, ps_email = a_email a, ps_epoch = a_session_epoch a, ps_issued_at = zero_time, ps_expires_at = zero_time\<rparr>)"

definition withSession :: "Server \<Rightarrow> session_handler \<Rightarrow> handler" where
  "withSession sv h en rq s0 =
     (case current_session sv en rq s0 of
        (Inl errSuspended, s) \<Rightarrow> (fail_page sv en rq 403 suspendedMsg, s)
      | (Inl errNoSession, s) \<Rightarrow> (if pq_method rq = ''GET'' then redirect 302 ''/login'' else http_error 401 ''sign in first'', s)
      | (Inr (sess, a), s) \<Rightarrow>
          if pq_method rq = ''POST'' \<and> \<not> CheckCSRF (sv_sessions sv) sess (PostFormValue rq ''csrf'')
          then (http_error 403 csrfExpiredMsg, s)
          else h sess a en rq s)"

definition isAdmin :: "Server \<Rightarrow> string \<Rightarrow> bool" where
  "isAdmin sv email = list_ex (\<lambda>e. NormalizeEmail e = NormalizeEmail email) (sv_admin_emails sv)"

definition withAdmin :: "Server \<Rightarrow> session_handler \<Rightarrow> handler" where
  "withAdmin sv h =
     withSession sv (\<lambda>sess a en rq s. if isAdmin sv (a_email a) then h sess a en rq s else (http_not_found, s))"

definition requireSameOrigin :: "Server \<Rightarrow> handler \<Rightarrow> handler" where
  "requireSameOrigin sv h en rq s = (if sameOrigin sv rq then h en rq s else (fail_page sv en rq 403 sameOriginFailMsg, s))"

text \<open>The first instant of the month in UTC, from the day number: the month is the one whose first day is the last not after it.\<close>

definition monthStart :: "time \<Rightarrow> time" where
  "monthStart now =
     (let z = now div day + 719468;
          doe = z mod 146097;
          yoe = (doe - doe div 1460 + doe div 36524 - doe div 146096) div 365;
          doy = doe - (365 * yoe + yoe div 4 - yoe div 100);
          mp = (5 * doy + 2) div 153
      in (now div day - (doy - (153 * mp + 2) div 5)) * day)"

section \<open>Looking without changing\<close>

text \<open>
  Two states that differ at most in which statements the driver will still fail. An operation \<open>looks\<close> when it leaves
  such a state behind; the rules follow the shape of the handlers.
\<close>

definition po_same :: "portal_state \<Rightarrow> portal_state \<Rightarrow> bool" where
  "po_same s s' \<longleftrightarrow> (\<exists>fs. s' = s\<lparr>po_db := (po_db s)\<lparr>db_faults := fs\<rparr>\<rparr>)"

definition looks :: "(portal_state \<Rightarrow> 'a \<times> portal_state) \<Rightarrow> bool" where
  "looks f \<longleftrightarrow> (\<forall>s. po_same s (snd (f s)))"

definition reads :: "'a op \<Rightarrow> bool" where
  "reads f \<longleftrightarrow> (\<forall>d. \<exists>fs. snd (f d) = d\<lparr>db_faults := fs\<rparr>)"

named_theorems looks_intros \<open>operations that only look\<close>

lemma po_same_refl [simp]: "po_same s s"
  unfolding po_same_def by (rule exI [of _ "db_faults (po_db s)"]) simp

lemma po_same_trans: "po_same s t \<Longrightarrow> po_same t u \<Longrightarrow> po_same s u"
  by (auto simp: po_same_def)

lemma looksD: "looks f \<Longrightarrow> f s = (r, s') \<Longrightarrow> po_same s s'"
  unfolding looks_def by (metis snd_conv)

lemma looks_pair [looks_intros]: "looks (\<lambda>s. (r s, s))"
  by (simp add: looks_def)

lemma looks_bind [looks_intros]: "looks f \<Longrightarrow> (\<And>x. looks (g x)) \<Longrightarrow> looks (\<lambda>s. case f s of (x, s') \<Rightarrow> g x s')"
proof (unfold looks_def, intro allI)
  fix s assume f: "\<forall>s. po_same s (snd (f s))" and g: "\<And>x. \<forall>s. po_same s (snd (g x s))"
  obtain x s' where x: "f s = (x, s')" by fastforce
  then have "po_same s s'" using f by (metis snd_conv)
  then show "po_same s (snd (case f s of (x, s') \<Rightarrow> g x s'))" using g [of x] x po_same_trans by auto
qed

lemma looks_sum [looks_intros]: "(\<And>x. looks (f x)) \<Longrightarrow> (\<And>x. looks (g x)) \<Longrightarrow> looks (\<lambda>s. case r of Inl x \<Rightarrow> f x s | Inr x \<Rightarrow> g x s)"
  by (cases r) auto

lemma looks_option [looks_intros]: "looks f \<Longrightarrow> (\<And>x. looks (g x)) \<Longrightarrow> looks (\<lambda>s. case r of None \<Rightarrow> f s | Some x \<Rightarrow> g x s)"
  by (cases r) auto

lemma looks_prod [looks_intros]: "(\<And>x y. looks (f x y)) \<Longrightarrow> looks (\<lambda>s. case r of (x, y) \<Rightarrow> f x y s)"
  by (cases r) auto

lemma looks_if [looks_intros]: "looks f \<Longrightarrow> looks g \<Longrightarrow> looks (\<lambda>s. if b s then f s else g s)"
  by (simp add: looks_def)

lemma looks_denial [looks_intros]: "looks f \<Longrightarrow> looks g \<Longrightarrow> looks (\<lambda>s. case r of errNoSession \<Rightarrow> f s | errSuspended \<Rightarrow> g s)"
  by (cases r) auto

lemma reads_stmt: "(\<And>d. snd (f d) = d) \<Longrightarrow> reads (stmt f)"
  unfolding reads_def by (auto simp: stmt_def split: list.splits option.splits) (metis db.surjective db.update_convs(2))

lemma looks_store [looks_intros]: "reads f \<Longrightarrow> looks (po_store f)"
  unfolding reads_def looks_def po_store_def po_same_def by (auto split: prod.splits) (metis snd_conv)

lemma reads_queries [looks_intros]:
  "reads (GetAccount aid)" "reads (GetAccountByEmail email)" "reads (ListEntitlements aid)" "reads (ListKeys aid)"
  "reads ListAccounts" "reads (SearchAccounts q)" "reads ListDemoAccess" "reads (ListAdminActions aid n)"
  "reads (SummarizeUsage since until aid)" "reads (UsageByKey since until aid)" "reads (TopPaths since until kid n)"
  "reads (LastTrial email)" "reads (TrialsToRemind since until)"
  by (auto simp: GetAccount_def GetAccountByEmail_def select_account_def ListEntitlements_def listEntitlements_def ListKeys_def ListAccounts_def
      SearchAccounts_def ListDemoAccess_def ListAdminActions_def SummarizeUsage_def UsageByKey_def TopPaths_def LastTrial_def TrialsToRemind_def
      intro!: reads_stmt simp: Let_def)

lemma looks_current_session [looks_intros]: "looks (current_session sv en rq)"
  unfolding current_session_def by (intro looks_intros)

text \<open>A guarded handler runs only for the session and the account that \<open>current_session\<close> accepts.\<close>

lemma withSession_cases:
  assumes "withSession sv h en rq s = (reply, s')"
  obtains (runs) sess a s1 where "current_session sv en rq s = (Inr (sess, a), s1)" "h sess a en rq s1 = (reply, s')"
      "pq_method rq = ''POST'' \<Longrightarrow> CheckCSRF (sv_sessions sv) sess (PostFormValue rq ''csrf'')"
    | (refused) "po_same s s'" "reply = fail_page sv en rq 403 suspendedMsg \<or> reply = redirect 302 ''/login'' \<or> reply = http_error 401 ''sign in first'' \<or>
        reply = http_error 403 csrfExpiredMsg"
proof -
  obtain r s1 where c: "current_session sv en rq s = (r, s1)" by fastforce
  have same: "po_same s s1" by (rule looksD [OF looks_current_session c])
  show ?thesis
  proof (cases r)
    case (Inl den)
    then show ?thesis using assms c same refused by (cases den) (auto simp: withSession_def split: if_splits)
  next
    case (Inr x)
    then show ?thesis using assms c same refused runs by (cases x) (auto simp: withSession_def split: if_splits)
  qed
qed

lemma current_session_reads:
  assumes "current_session sv en rq s = (Inr (sess, a), s1)"
  shows "Read (sv_sessions sv) (pe_now en) (pq_cookies rq) = Inr sess \<and> a_status a = AccountActive \<and> a_session_epoch a = ps_epoch sess"
  using assms by (auto simp: current_session_def split: sum.splits prod.splits if_splits)

section \<open>Return targets are trusted\<close>

text \<open>What follows the scheme up to the end of the host and port, for a browser, which also stops at a backslash.\<close>

definition url_authority :: "string \<Rightarrow> string" where
  "url_authority s = takeWhile (\<lambda>c. c \<notin> set ''/?#'' \<and> c \<noteq> CHR 0x5C) s"

text \<open>The authority is a host meeting \<open>P\<close> and an optional numeric port, with no user before it.\<close>

definition on_host :: "(string \<Rightarrow> bool) \<Rightarrow> string \<Rightarrow> bool" where
  "on_host P a =
     (case cut CHR '':'' a of (host, port, _) \<Rightarrow>
        CHR ''@'' \<notin> set a \<and> CHR ''['' \<notin> set a \<and> list_all is_digit port \<and> P (to_lower host))"

definition mtgban_host :: "string \<Rightarrow> bool" where
  "mtgban_host h \<longleftrightarrow> h = ''mtgban.com'' \<or> has_suffix h ''.mtgban.com''"

definition zoned_literal :: "string \<Rightarrow> bool" where
  "zoned_literal a \<longleftrightarrow> has_prefix a ''['' \<and> contains_sub a ''%25''"

lemma has_suffix_iff: "has_suffix s p \<longleftrightarrow> (\<exists>t. s = t @ p)"
  by (simp add: has_suffix_def has_prefix_iff) (metis rev_append rev_rev_ident)

lemma url_authority_host:
  assumes "rest = [] \<or> hd rest \<in> set ''/?#''"
  shows "url_authority (escape encodeHost h @ rest) = escape encodeHost h"
proof -
  have "\<forall>x \<in> set (escape encodeHost h). x \<notin> set ''/?#'' \<and> x \<noteq> CHR 0x5C" using escape_host_chars by fastforce
  then show ?thesis unfolding url_authority_def using assms by (cases rest) (auto simp: takeWhile_append2)
qed

lemma alphanumeric_nat: "alphanumeric c \<longleftrightarrow> (let n = (of_char c :: nat) in 48 \<le> n \<and> n \<le> 57 \<or> 65 \<le> n \<and> n \<le> 90 \<or> 97 \<le> n \<and> n \<le> 122)"
proof -
  have "(of_char c :: int) = int (of_char c)" by (simp add: of_nat_of_char)
  then show ?thesis unfolding alphanumeric_def Let_def by linarith
qed

lemma alphanumeric_lower: "alphanumeric (lower_char c) = alphanumeric c"
  unfolding alphanumeric_nat Let_def of_char_lower_char by auto

lemma lower_char_dot: "lower_char c = CHR ''.'' \<longleftrightarrow> c = CHR ''.''"
  by (simp only: char_nat_simps) auto

lemma lower_char_percent: "lower_char c = CHR ''%'' \<longleftrightarrow> c = CHR ''%''"
  by (simp only: char_nat_simps) auto

lemma escape_lower:
  assumes "list_all (\<lambda>c. alphanumeric c \<or> c = CHR ''.'') (to_lower v)"
  shows "escape encodeHost v = v"
proof (rule escape_plain)
  have "\<not> shouldEscape CHR ''.'' encodeHost" by code_simp
  then show "list_all (\<lambda>c. \<not> shouldEscape c encodeHost) v"
    using assms alphanumeric_not_escaped by (auto simp: list_all_iff to_lower_def alphanumeric_lower lower_char_dot)
qed

lemma to_lower_append: "to_lower (a @ b) = to_lower a @ to_lower b"
  by (simp add: to_lower_def)

lemma to_lower_suffix: "to_lower s = t @ w \<Longrightarrow> \<exists>a b. s = a @ b \<and> to_lower a = t \<and> to_lower b = w"
  unfolding to_lower_def by (metis map_eq_append_conv)

lemma mtgban_escape: "mtgban_host (to_lower n) \<Longrightarrow> mtgban_host (to_lower (escape encodeHost n))"
proof -
  have w: "list_all (\<lambda>c. alphanumeric c \<or> c = CHR ''.'') ''.mtgban.com''" "list_all (\<lambda>c. alphanumeric c \<or> c = CHR ''.'') ''mtgban.com''"
    by code_simp+
  assume "mtgban_host (to_lower n)"
  then consider "to_lower n = ''mtgban.com''" | t where "to_lower n = t @ ''.mtgban.com''" by (auto simp: mtgban_host_def has_suffix_iff)
  then show ?thesis
  proof cases
    case 1
    then show ?thesis using escape_lower [of n] w by (simp add: mtgban_host_def)
  next
    case (2 t)
    then obtain a b where "n = a @ b" "to_lower b = ''.mtgban.com''" using to_lower_suffix by metis
    then show ?thesis using escape_lower [of b] w by (auto simp: mtgban_host_def has_suffix_iff escape_append to_lower_append)
  qed
qed

lemma cut_last_found: "c \<notin> set b \<Longrightarrow> cut_last c (a @ c # b) = (a, b, True)"
  using cut_found [of c "rev b" "rev a"] by (simp add: cut_last_def)

lemma cut_last_none: "c \<notin> set s \<Longrightarrow> cut_last c s = (s, [], False)"
  using cut_not_found [of c "rev s"] by (simp add: cut_last_def)

lemma cut_last_inside:
  assumes "c \<noteq> d" "cut_last c (a @ [d]) = (x, y, True)"
  shows "d \<in> set y"
proof -
  obtain b a' where "cut c (d # rev a) = (b, a', True)" "y = rev b" using assms(2) by (auto simp: cut_last_def split: prod.splits if_splits)
  then show ?thesis using assms(1) by (auto split: prod.splits)
qed

lemma no_colon_bracket: "\<not> is_digit CHR '']''" "\<not> is_digit CHR '':''" by code_simp+

lemma Hostname_literal:
  assumes "ur_host u = ''['' @ l @ '']'' @ p" "validOptionalPort p"
  shows "Hostname u = l"
proof -
  have strip: "butlast (tl (''['' @ l @ '']'')) = l" "has_prefix (''['' @ l @ '']'') ''[''" "has_suffix (''['' @ l @ '']'') '']''"
    by (simp_all add: has_prefix_def has_suffix_def)
  show ?thesis
  proof (cases p)
    case Nil
    obtain x y f where c: "cut_last CHR '':'' (''['' @ l @ '']'') = (x, y, f)" by (metis prod_cases3)
    have "\<not> (f \<and> list_all is_digit y)"
      using cut_last_inside [of "CHR '':''" "CHR '']''" "''['' @ l" x y] c no_colon_bracket by (auto simp: list_all_iff)
    then show ?thesis using assms(1) Nil c strip unfolding Hostname_def Let_def by auto
  next
    case (Cons d ds)
    then have "d = CHR '':''" "list_all is_digit ds" using assms(2) by (auto simp: validOptionalPort_def)
    moreover have "CHR '':'' \<notin> set ds" using calculation(2) no_colon_bracket by (auto simp: list_all_iff)
    ultimately show ?thesis using assms(1) Cons cut_last_found [of "CHR '':''" ds "''['' @ l @ '']''"] strip
      unfolding Hostname_def Let_def by auto
  qed
qed

lemma Hostname_name: "CHR ''['' \<notin> set (ur_host u) \<Longrightarrow> CHR '':'' \<notin> set (ur_host u) \<Longrightarrow> Hostname u = ur_host u"
  by (cases "ur_host u") (auto simp: Hostname_def cut_last_none has_prefix_def)

lemma Hostname_port:
  "ur_host u = n @ '':'' @ p \<Longrightarrow> CHR ''['' \<notin> set n \<Longrightarrow> list_all is_digit p \<Longrightarrow> Hostname u = n"
proof -
  assume u: "ur_host u = n @ '':'' @ p" "CHR ''['' \<notin> set n" and d: "list_all is_digit p"
  have "CHR '':'' \<notin> set p" using d no_colon_bracket by (auto simp: list_all_iff)
  then have "cut_last CHR '':'' (ur_host u) = (n, p, True)" using cut_last_found [of "CHR '':''" p n] u(1) by simp
  moreover have "\<not> has_prefix n ''[''" using u(2) by (cases n) (auto simp: has_prefix_def)
  ultimately show "Hostname u = n" using d by (simp add: Hostname_def)
qed

lemma on_host_named:
  assumes "parseHost b = Some (ur_host u)" "\<not> has_prefix (ur_host u) ''[''" "P (to_lower (Hostname u))"
    "\<And>n. P (to_lower n) \<Longrightarrow> P (to_lower (escape encodeHost n))"
  shows "on_host P (escape encodeHost (ur_host u))"
  using assms(1)
proof (cases rule: parseHost_cases)
  case (literal l p)
  then show ?thesis using assms(2) by (simp add: has_prefix_def)
next
  case name
  have "c \<in> {CHR '':'', CHR ''[''} \<Longrightarrow> c \<notin> set (escape encodeHost (ur_host u))" for c using escape_host_keeps name by blast
  then show ?thesis using assms(3,4) name escape_host_chars [of "CHR ''@''"] by (auto simp: on_host_def Hostname_name cut_not_found)
next
  case (port n p)
  have dig: "list_all (\<lambda>c. \<not> shouldEscape c encodeHost) p" using port(4) is_digit_alphanumeric alphanumeric_not_escaped by (auto simp: list_all_iff)
  have e: "escape encodeHost (ur_host u) = escape encodeHost n @ CHR '':'' # p"
    using escape_plain [OF dig] port(1) shouldEscape_host by (simp add: escape_append escape_def url_escape_char_def)
  have "CHR ''['' \<notin> set p" using port(4) is_digit_alphanumeric alphanumeric_char by (auto simp: list_all_iff)
  moreover have "c \<in> {CHR '':'', CHR ''[''} \<Longrightarrow> c \<notin> set (escape encodeHost n)" for c using escape_host_keeps port by blast
  moreover have "CHR ''@'' \<notin> set (escape encodeHost (ur_host u))" using escape_host_chars [of "CHR ''@''"] by blast
  ultimately show ?thesis using assms(3,4) port Hostname_port [OF port(1,2,4)] unfolding on_host_def e by (simp add: cut_found)
qed

lemma literal_zoned:
  assumes "parseHost b = Some (ur_host u)" "has_prefix (ur_host u) ''[''" "\<exists>c \<in> set (Hostname u). \<not> ipv6_char c"
  shows "CHR ''%'' \<in> set (Hostname u)" "zoned_literal (escape encodeHost (ur_host u))"
proof -
  from assms(1) obtain l p where l: "ur_host u = ''['' @ l @ '']'' @ p" "ipv6_literal l" "validOptionalPort p"
  proof (cases rule: parseHost_cases)
    case (literal l p)
    then show ?thesis using that by blast
  next
    case name
    then show ?thesis using assms(2) by (cases "ur_host u") (auto simp: has_prefix_def)
  next
    case (port n p)
    then show ?thesis using assms(2) by (cases n) (auto simp: has_prefix_def)
  qed
  have h: "Hostname u = l" by (rule Hostname_literal [OF l(1,3)])
  show p: "CHR ''%'' \<in> set (Hostname u)" using ipv6_literal_zone [OF l(2)] assms(3) h by blast
  then obtain x y where "l = x @ CHR ''%'' # y" using h by (metis split_list)
  moreover have "url_escape_char encodeHost CHR ''%'' = ''%25''" "url_escape_char encodeHost CHR ''['' = ''[''" by code_simp+
  ultimately have "escape encodeHost (ur_host u) = (''['' @ escape encodeHost x) @ ''%25'' @ escape encodeHost (y @ '']'' @ p)"
    using l(1) by (simp add: escape_def)
  then show "zoned_literal (escape encodeHost (ur_host u))" unfolding zoned_literal_def contains_sub_iff
    by (intro conjI exI) (simp add: has_prefix_def, assumption)
qed

lemma not_ipv6_char: "\<not> ipv6_char CHR ''m''" "\<not> ipv6_char CHR ''M''" "\<not> ipv6_char CHR ''o''" "\<not> ipv6_char CHR ''O''"
  by code_simp+

lemma to_lower_letter: "x \<in> set (to_lower s) \<Longrightarrow> \<exists>c \<in> set s. lower_char c = x"
  by (auto simp: to_lower_def)

lemma not_ipv6_lower: "lower_char c = CHR ''o'' \<Longrightarrow> \<not> ipv6_char c"
proof -
  assume "lower_char c = CHR ''o''"
  then have "c = CHR ''o'' \<or> c = CHR ''O''" unfolding char_nat_simps by (auto split: if_splits)
  then show ?thesis using not_ipv6_char by blast
qed

lemma with_o: "CHR ''o'' \<in> set (to_lower s) \<Longrightarrow> \<exists>c \<in> set s. \<not> ipv6_char c"
  using to_lower_letter not_ipv6_lower by blast

lemma percent_lower: "CHR ''%'' \<in> set s \<Longrightarrow> CHR ''%'' \<in> set (to_lower s)"
  unfolding to_lower_def set_map using lower_char_percent [of "CHR ''%''"] by (metis imageI)

lemma validReturnTo_checked:
  "validReturnTo raw fallback = fallback \<or>
   (has_prefix (validReturnTo raw fallback) ''https://'' \<and>
    (on_host mtgban_host (url_authority (drop 8 (validReturnTo raw fallback))) \<or> zoned_literal (url_authority (drop 8 (validReturnTo raw fallback))))) \<or>
   (has_prefix (validReturnTo raw fallback) ''http://'' \<and> on_host (\<lambda>h. h = ''localhost'') (url_authority (drop 7 (validReturnTo raw fallback))))"
proof (cases "validReturnTo raw fallback = fallback")
  case False
  then obtain u where u: "Parse raw = Some u" "ur_user u = None" "ur_host u \<noteq> []"
    and v: "validReturnTo raw fallback = URL_String u"
    and h: "ur_scheme u = ''https'' \<and> mtgban_host (to_lower (Hostname u)) \<or> ur_scheme u = ''http'' \<and> to_lower (Hostname u) = ''localhost''"
    by (auto simp: validReturnTo_def Let_def mtgban_host_def simp del: not_None_eq split: option.splits if_splits)
  obtain b where b: "parseHost b = Some (ur_host u)" and o: "ur_opaque u = []" using Parse_host [OF u(1,3)] by blast
  have "ur_scheme u \<noteq> []" using h by auto
  then obtain rest where st: "URL_String u = ur_scheme u @ ''://'' @ escape encodeHost (ur_host u) @ rest" "rest = [] \<or> hd rest \<in> set ''/?#''"
    using String_host u o by blast
  have auth: "url_authority (escape encodeHost (ur_host u) @ rest) = escape encodeHost (ur_host u)" by (rule url_authority_host [OF st(2)])
  have o_in: "CHR ''o'' \<in> set (to_lower (Hostname u))" using h by (auto simp: mtgban_host_def has_suffix_iff)
  note zoned = literal_zoned [OF b _ with_o [OF o_in]]
  show ?thesis
  proof (cases "has_prefix (ur_host u) ''[''")
    case True
    then have "CHR ''%'' \<in> set (to_lower (Hostname u))" using zoned(1) percent_lower by blast
    then have "ur_scheme u = ''https''" using h by auto
    then show ?thesis using zoned(2) [OF True] v st auth by (simp add: has_prefix_def)
  next
    case False
    have "list_all (\<lambda>c. alphanumeric c \<or> c = CHR ''.'') ''localhost''" by code_simp
    then have lo: "to_lower n = ''localhost'' \<Longrightarrow> to_lower (escape encodeHost n) = ''localhost''" for n using escape_lower [of n] by simp
    show ?thesis using h v st auth on_host_named [OF b False, of mtgban_host] on_host_named [OF b False, of "\<lambda>h. h = ''localhost''"] lo mtgban_escape
      by (auto simp: has_prefix_def)
  qed
qed simp

text \<open>
  C17: A return target is the fallback, or an https URL whose authority, as a browser reads it, is
  mtgban.com or a subdomain with an optional port and no user, or plain http to localhost; the one exception is an
  https URL on a bracketed IPv6 literal with a zone. The exception is real: an address outside mtgban.com is accepted when its zone ends in the right letters.
\<close>

theorem validReturnTo_safe:
  "(validReturnTo raw fallback = fallback \<or>
    has_prefix (validReturnTo raw fallback) ''https://'' \<and>
      (on_host mtgban_host (url_authority (drop 8 (validReturnTo raw fallback))) \<or> zoned_literal (url_authority (drop 8 (validReturnTo raw fallback)))) \<or>
    has_prefix (validReturnTo raw fallback) ''http://'' \<and> on_host (\<lambda>h. h = ''localhost'') (url_authority (drop 7 (validReturnTo raw fallback)))) \<and>
   validReturnTo ''https://[2001:db8::1%25.mtgban.com]/x'' ''https://mtgban.com/api'' = ''https://[2001:db8::1%25.mtgban.com]/x''"
proof (rule conjI [OF validReturnTo_checked])
  show "validReturnTo ''https://[2001:db8::1%25.mtgban.com]/x'' ''https://mtgban.com/api'' = ''https://[2001:db8::1%25.mtgban.com]/x''" by code_simp
qed

end
