(* ===== verification/Portal_Plan.thy ===== *)
theory Portal_Plan
  imports Portal
begin

text \<open>
  \<open>src/portal/plan.go\<close>: plans as form fields and entitlements in words. A page reads the store list of a game
  at most once: \<open>siteLookup\<close> keeps what it read, what failed, and here also which games it asked for.
\<close>

section \<open>Plans as fields\<close>

definition listValues :: "url_values \<Rightarrow> string \<Rightarrow> string list" where
  "listValues v key = concat (map SplitList (case map_of v key of Some raws \<Rightarrow> raws | None \<Rightarrow> []))"

definition planFromValues :: "url_values \<Rightarrow> Plan" where
  "planFromValues v =
     \<lparr>pl_package = values_get v ''package'', pl_interval = values_get v ''interval'', pl_games = listValues v ''games'',
      pl_stores = listValues v ''stores'', pl_mode_addons = listValues v ''addons''\<rparr>"

definition planValues :: "Plan \<Rightarrow> url_values" where
  "planValues p =
     values_set ''addons'' (join '','' (pl_mode_addons p)) (values_set ''stores'' (join '','' (pl_stores p)) (values_set ''games'' (join '','' (pl_games p))
       (values_set ''interval'' (pl_interval p) (values_set ''package'' (pl_package p) []))))"

section \<open>Store lists for one page\<close>

record siteLookup =
  sl_sites :: "(string \<times> SiteStores) list"
  sl_failed :: "string list"
  sl_asked :: "string list"

definition newSiteLookup :: siteLookup where
  "newSiteLookup = \<lparr>sl_sites = [], sl_failed = [], sl_asked = []\<rparr>"

definition lookup_site :: "Server \<Rightarrow> string \<Rightarrow> siteLookup \<Rightarrow> SiteStores option \<times> siteLookup" where
  "lookup_site sv game l =
     (case map_of (sl_sites l) game of
        Some site \<Rightarrow> (Some site, l)
      | None \<Rightarrow>
          (case sv_stores sv of
             None \<Rightarrow> (None, l)
           | Some ask \<Rightarrow>
               if game \<in> set (sl_failed l) then (None, l)
               else let l' = l\<lparr>sl_asked := sl_asked l @ [game]\<rparr> in
                 (case ask game of
                    Inl _ \<Rightarrow> (None, l'\<lparr>sl_failed := game # sl_failed l\<rparr>)
                  | Inr site \<Rightarrow> (Some site, l'\<lparr>sl_sites := (game, site) # sl_sites l\<rparr>))))"

fun families :: "Server \<Rightarrow> string list \<Rightarrow> siteLookup \<Rightarrow> (StoreFamily list \<times> StoreFamily list \<times> bool) \<times> siteLookup" where
  "families sv [] l = (([], [], True), l)"
| "families sv (g # gs) l =
     (case lookup_site sv g l of (found, l1) \<Rightarrow>
        (case families sv gs l1 of ((implied, selectable, complete), l2) \<Rightarrow>
           (case found of
              None \<Rightarrow> ((implied, selectable, False), l2)
            | Some site \<Rightarrow> ((ss_implied site @ implied, ss_stores site @ selectable, complete), l2))))"

definition store_name :: "StoreFamily list \<Rightarrow> string \<Rightarrow> string" where
  "store_name fams sh = (case find (\<lambda>f. sh \<in> set (sf_shorthands f)) fams of Some f \<Rightarrow> sf_name f | None \<Rightarrow> sh)"

definition storeNames :: "StoreFamily list \<Rightarrow> string list \<Rightarrow> string" where
  "storeNames fams shorthands =
     join '', '' (foldl (\<lambda>names sh. let name = store_name fams sh in if name \<noteq> [] \<and> name \<notin> set names then names @ [name] else names) [] shorthands)"

section \<open>Entitlements in words\<close>

definition packageFor :: "Server \<Rightarrow> Entitlement \<Rightarrow> string \<Rightarrow> Package option" where
  "packageFor sv e scope =
     find (\<lambda>p. pk_history p = IsHistory e \<and> (pk_history p \<or> pk_store_scope p = scope)) (ct_packages (sv_catalog sv))"

definition source_words :: "Source \<Rightarrow> string" where
  "source_words src = (case src of SourceStripe \<Rightarrow> ''Stripe subscription'' | SourceTrial \<Rightarrow> ''Trial'' | _ \<Rightarrow> ''Arranged with MTGBAN'')"

definition describeEntitlement :: "Server \<Rightarrow> Entitlement \<Rightarrow> siteLookup \<Rightarrow> entitlementView \<times> siteLookup" where
  "describeEntitlement sv e l =
     (let (stores, scope, l') =
            (if IsHistory e then (''history, '' @ format_int (e_lookback_days e) @ '' days'', e_store_scope e, l)
             else if e_store_scope e = ScopeAll then (''every store'', e_store_scope e, l)
             else if e_store_scope e = ScopeBase then (''every EU and US store'', e_store_scope e, l)
             else case families sv (e_games e) l of ((implied, selectable, _), l1) \<Rightarrow>
               (storeNames (implied @ selectable) (split_on comma (e_store_scope e)), ct_scope_explicit (sv_catalog sv), l1))
      in (\<lparr>ev_source = source_words (e_source e),
           ev_package = (case packageFor sv e scope of Some p \<Rightarrow> pk_name p | None \<Rightarrow> []),
           ev_games = join '', '' (e_games e), ev_stores = stores, ev_modes = join '', '' (e_modes e),
           ev_until = e_valid_until e, ev_trial = (e_source e = SourceTrial)\<rparr>, l'))"

fun describe_all :: "Server \<Rightarrow> Entitlement list \<Rightarrow> siteLookup \<Rightarrow> entitlementView list \<times> siteLookup" where
  "describe_all sv [] l = ([], l)"
| "describe_all sv (e # es) l =
     (case describeEntitlement sv e l of (v, l1) \<Rightarrow> (case describe_all sv es l1 of (vs, l2) \<Rightarrow> (v # vs, l2)))"

definition modeAddonKeys :: "Server \<Rightarrow> Entitlement \<Rightarrow> string list" where
  "modeAddonKeys sv e =
     foldl (\<lambda>out entry. let key = fst (cut CHR '':'' entry) in
        (case ct_addon (sv_catalog sv) key of (addon, ok) \<Rightarrow>
           if ok \<and> ad_grants_mode addon \<noteq> [] \<and> key \<notin> set out then out @ [key] else out)) [] (e_addons e)"

definition held_families :: "StoreFamily list \<Rightarrow> string list \<Rightarrow> string list" where
  "held_families selectable have =
     sort (foldl (\<lambda>keys f. if sf_key f \<notin> set keys \<and> list_ex (\<lambda>sh. sh \<in> set have) (sf_shorthands f) then keys @ [sf_key f] else keys) [] selectable)"

definition prefillQuery :: "Server \<Rightarrow> Entitlement \<Rightarrow> siteLookup \<Rightarrow> url_values \<times> siteLookup" where
  "prefillQuery sv e l =
     (let q0 = [(''change'', [''1'']), (''games'', [join '','' (e_games e)])];
          (q1, scope, l') =
            (if \<not> IsHistory e \<and> e_store_scope e \<noteq> ScopeAll \<and> e_store_scope e \<noteq> ScopeBase then
               (case families sv (e_games e) l of ((_, selectable, complete), l1) \<Rightarrow>
                  (if complete then values_set ''stores'' (join '','' (held_families selectable (split_on comma (e_store_scope e)))) q0 else q0,
                   ct_scope_explicit (sv_catalog sv), l1))
             else (q0, e_store_scope e, l));
          addons0 = modeAddonKeys sv e;
          (q2, addons) =
            (case packageFor sv e scope of
               None \<Rightarrow> (q1, addons0)
             | Some p \<Rightarrow> (values_set ''package'' (pk_key p) q1, filter (\<lambda>k. ad_applies (fst (ct_addon (sv_catalog sv) k)) (pk_key p)) addons0))
      in (if addons \<noteq> [] then values_set ''addons'' (join '','' addons) q2 else q2, l'))"

section \<open>Lemmas: the store lists\<close>

text \<open>What a page would read without remembering anything.\<close>

definition ask_site :: "Server \<Rightarrow> string \<Rightarrow> SiteStores option" where
  "ask_site sv g = (case sv_stores sv of None \<Rightarrow> None | Some ask \<Rightarrow> (case ask g of Inl _ \<Rightarrow> None | Inr site \<Rightarrow> Some site))"

definition direct_families :: "Server \<Rightarrow> string list \<Rightarrow> StoreFamily list \<times> StoreFamily list \<times> bool" where
  "direct_families sv gs =
     (let sites = map (ask_site sv) gs in
      (concat (map (case_option [] ss_implied) sites), concat (map (case_option [] ss_stores) sites), None \<notin> set sites))"

definition lookup_ok :: "Server \<Rightarrow> siteLookup \<Rightarrow> bool" where
  "lookup_ok sv l \<longleftrightarrow>
     distinct (sl_asked l) \<and> set (sl_asked l) = fst ` set (sl_sites l) \<union> set (sl_failed l) \<and>
     (\<forall>g site. map_of (sl_sites l) g = Some site \<longrightarrow> ask_site sv g = Some site) \<and>
     (\<forall>g \<in> set (sl_failed l). ask_site sv g = None)"

lemma lookup_ok_new: "lookup_ok sv newSiteLookup"
  by (simp add: lookup_ok_def newSiteLookup_def)

lemma lookup_site_ask:
  assumes "lookup_ok sv l"
  shows "fst (lookup_site sv g l) = ask_site sv g \<and> lookup_ok sv (snd (lookup_site sv g l))"
proof (cases "map_of (sl_sites l) g")
  case None
  then show ?thesis using assms unfolding lookup_site_def
    by (auto simp: lookup_ok_def ask_site_def Let_def map_of_eq_None_iff split: option.splits sum.splits)
next
  case (Some site)
  then have "ask_site sv g = Some site" using assms by (simp add: lookup_ok_def)
  then show ?thesis using assms Some by (simp add: lookup_site_def)
qed

lemma families_direct:
  "lookup_ok sv l \<Longrightarrow> fst (families sv gs l) = direct_families sv gs \<and> lookup_ok sv (snd (families sv gs l))"
proof (induction gs arbitrary: l)
  case (Cons g gs)
  obtain found l1 where l1: "lookup_site sv g l = (found, l1)" by fastforce
  obtain im se co l2 where l2: "families sv gs l1 = ((im, se, co), l2)" by (metis prod.exhaust)
  have f: "found = ask_site sv g" "lookup_ok sv l1" using lookup_site_ask [OF Cons.prems, of g] l1 by auto
  then show ?case using Cons.IH [OF f(2)] l1 l2 by (cases "ask_site sv g") (simp_all add: direct_families_def Let_def)
qed (simp add: direct_families_def)

lemma describeEntitlement_ok: "lookup_ok sv l \<Longrightarrow> describeEntitlement sv e l = (v, l') \<Longrightarrow> lookup_ok sv l' \<and> v = fst (describeEntitlement sv e newSiteLookup)"
  using families_direct [of sv l "e_games e"] families_direct [OF lookup_ok_new, of sv "e_games e"]
  unfolding describeEntitlement_def Let_def by (auto split: if_splits prod.splits)

lemma prefillQuery_ok: "lookup_ok sv l \<Longrightarrow> prefillQuery sv e l = (q, l') \<Longrightarrow> lookup_ok sv l' \<and> q = fst (prefillQuery sv e newSiteLookup)"
  using families_direct [of sv l "e_games e"] families_direct [OF lookup_ok_new, of sv "e_games e"]
  unfolding prefillQuery_def Let_def by (auto split: if_splits prod.splits)

lemma describe_all_ok:
  "lookup_ok sv l \<Longrightarrow> describe_all sv es l = (vs, l') \<Longrightarrow>
     lookup_ok sv l' \<and> vs = map (\<lambda>e. fst (describeEntitlement sv e newSiteLookup)) es"
proof (induction es arbitrary: l vs)
  case (Cons e es)
  obtain v l1 where v: "describeEntitlement sv e l = (v, l1)" by fastforce
  obtain us l2 where u: "describe_all sv es l1 = (us, l2)" by fastforce
  note d = describeEntitlement_ok [OF Cons.prems(1) v]
  show ?case using Cons.IH [of l1 us] d u v Cons.prems(2) by auto
qed simp

end
