(* ===== verification/Portal_Auth.thy ===== *)
theory Portal_Auth
  imports Portal_Plan
begin

text \<open>
  Signing in to the portal: \<open>src/portal/login.go\<close> (magic links, logout) and \<open>trial.go\<close> (the website's handoff
  tokens for a session or a trial), over the store, the session cookies, the limiter and the guards.
\<close>

section \<open>Signing in by mail\<close>

definition magicLinkTTL :: duration where "magicLinkTTL = 15 * minute"
definition pendingTTL :: duration where "pendingTTL = hour"
definition tryAgainMsg :: string where "tryAgainMsg = ''Something went wrong on our side. Try again in a minute.''"

definition loginLinksPerHour :: "Server \<Rightarrow> int" where
  "loginLinksPerHour sv = (if sv_login_links_per_hour sv > 0 then sv_login_links_per_hour sv else 5)"

text \<open>The pending plan in words, when it still validates. A missing pending cookie is \<open>None\<close>.\<close>

definition pending_text :: "Server \<Rightarrow> url_values \<Rightarrow> string" where
  "pending_text sv pending =
     (if values_get pending ''package'' = [] then []
      else case Validate (sv_catalog sv) (sv_games sv) (values_get pending ''invite'' \<noteq> []) (planFromValues pending) of
          Inl _ \<Rightarrow> []
        | Inr plan \<Rightarrow> Describe (sv_catalog sv) plan)"

definition renderLogin :: "Server \<Rightarrow> int \<Rightarrow> string \<Rightarrow> url_values option \<Rightarrow> portal_reply" where
  "renderLogin sv status msg pending =
     (let returnTo = (case pending of None \<Rightarrow> sv_pricing_url sv | Some v \<Rightarrow> validReturnTo (values_get v ''return_to'') (sv_pricing_url sv));
          planText = (case pending of None \<Rightarrow> [] | Some v \<Rightarrow> pending_text sv v)
      in render sv status ''login.html'' ((pageFor sv None ''Sign in'')\<lparr>pg_error := msg, pg_data := LoginData planText (siteOrigin returnTo @ ''/api-login'')\<rparr>))"

definition pending_of :: "Server \<Rightarrow> portal_env \<Rightarrow> portal_request \<Rightarrow> url_values option" where
  "pending_of sv en rq = (case Pending (sv_sessions sv) (pe_now en) (pq_cookies rq) of Inl _ \<Rightarrow> None | Inr v \<Rightarrow> Some v)"

definition loginForm :: "Server \<Rightarrow> handler" where
  "loginForm sv en rq s0 =
     (case current_session sv en rq s0 of
        (Inr _, s) \<Rightarrow> (redirect 302 ''/account'', s)
      | (Inl _, s) \<Rightarrow> (renderLogin sv 200 [] (pending_of sv en rq), s))"

definition valid_email :: "Server \<Rightarrow> string \<Rightarrow> bool" where
  "valid_email sv email \<longleftrightarrow> length email \<le> 254 \<and> sv_parse_address sv email = Some email \<and> set email \<inter> set '' <>'' = {}"

definition login_allowed :: "Server \<Rightarrow> portal_env \<Rightarrow> portal_request \<Rightarrow> string \<Rightarrow> portal_state \<Rightarrow> bool \<times> portal_state" where
  "login_allowed sv en rq email s =
     (case po_allow (''ip:'' @ clientIP sv rq) (loginLinksPerHour sv) (pe_now en) s of (ok, s1) \<Rightarrow>
        if ok then po_allow (''email:'' @ email) (loginLinksPerHour sv) (pe_now en) s1 else (False, s1))"

definition send_link :: "Server \<Rightarrow> portal_env \<Rightarrow> portal_request \<Rightarrow> Account \<Rightarrow> string \<Rightarrow> portal_state \<Rightarrow> portal_reply \<times> portal_state" where
  "send_link sv en rq a token s =
     (case po_send en (a_email a) (MagicLinkMail (sv_public_url sv @ ''/login/'' @ PathEscape token)) s of (ok, s1) \<Rightarrow>
        if \<not> ok then (renderLogin sv 502 ''We could not send the email. Try again in a minute.'' (pending_of sv en rq), snd (po_store (DeleteMagicLink token) s1))
        else (render sv 200 ''sent.html'' ((pageFor sv None ''Check your inbox'')\<lparr>pg_data := SentData (a_email a) (magicLinkTTL div minute)\<rparr>), s1))"

definition login :: "Server \<Rightarrow> handler" where
  "login sv en rq s0 =
     (let pv = pending_of sv en rq; email = NormalizeEmail (FormValue rq ''email'') in
      if \<not> sameOrigin sv rq then (renderLogin sv 403 ''That request did not come from this site. Use the form on this page.'' pv, s0)
      else if \<not> valid_email sv email then (renderLogin sv 400 ''Enter your email address.'' pv, s0)
      else case login_allowed sv en rq email s0 of (ok, s1) \<Rightarrow>
        if \<not> ok then (renderLogin sv 429 ''Too many sign-in links requested. Try again in an hour.'' pv, s1)
        else (case po_store (GetOrCreateAccount email ''self-service'') s1 of
            (Inl _, s2) \<Rightarrow> (renderLogin sv 500 tryAgainMsg pv, s2)
          | (Inr a, s2) \<Rightarrow>
              (case po_store (CreateMagicLink (pe_rand en) (pe_now en) (a_id a) magicLinkTTL) s2 of
                 (Inl _, s3) \<Rightarrow> (renderLogin sv 500 tryAgainMsg pv, s3)
               | (Inr token, s3) \<Rightarrow> send_link sv en rq a token s3)))"

definition loginConfirm :: "Server \<Rightarrow> handler" where
  "loginConfirm sv en rq s =
     (render sv 200 ''login_confirm.html'' ((pageFor sv None ''Finish signing in'')\<lparr>pg_data := LoginConfirmData (path_value rq ''token'')\<rparr>), s)"

definition afterLogin :: "Server \<Rightarrow> portal_env \<Rightarrow> portal_request \<Rightarrow> portal_reply" where
  "afterLogin sv en rq =
     (case Pending (sv_sessions sv) (pe_now en) (pq_cookies rq) of
        Inr pv \<Rightarrow> if values_get pv ''package'' \<noteq> [] then redirect 302 ''/checkout'' else redirect 302 ''/account?notice=login''
      | Inl _ \<Rightarrow> redirect 302 ''/account?notice=login'')"

definition loginToken :: "Server \<Rightarrow> handler" where
  "loginToken sv en rq s0 =
     (case po_store (ConsumeMagicLink (path_value rq ''token'') (pe_now en)) s0 of
        (Inr a, s) \<Rightarrow>
          if a_status a \<noteq> AccountActive then (fail_page sv en rq 403 suspendedMsg, s)
          else (with_cookies [issueSession sv (pe_now en) a] (afterLogin sv en rq), s)
      | (Inl e, s) \<Rightarrow>
          if e = ErrNotFound then (renderLogin sv 400 ''That sign-in link is invalid or has expired. Request a new one.'' (pending_of sv en rq), s)
          else (fail_page sv en rq 500 tryAgainMsg, s))"

definition logout :: "Server \<Rightarrow> handler" where
  "logout sv en rq s0 =
     (let away = with_cookies [Clear (sv_sessions sv), ClearPending (sv_sessions sv)] (redirect 302 (sv_pricing_url sv)) in
      case Read (sv_sessions sv) (pe_now en) (pq_cookies rq) of
        Inl _ \<Rightarrow> (away, s0)
      | Inr sess \<Rightarrow>
          if \<not> CheckCSRF (sv_sessions sv) sess (PostFormValue rq ''csrf'') then (http_error 403 csrfExpiredMsg, s0)
          else (away, snd (po_store (BumpSessionEpoch (ps_account_id sess)) s0)))"

section \<open>Signing in from the site\<close>

definition PurposeTrial :: string where "PurposeTrial = ''trial''"
definition PurposeLogin :: string where "PurposeLogin = ''login''"

definition trialCooldown :: duration where "trialCooldown = 180 * 24 * hour"

definition verifyHandoff :: "Server \<Rightarrow> time \<Rightarrow> string \<Rightarrow> string \<Rightarrow> Claims option" where
  "verifyHandoff sv now token purpose =
     (case map_of (sv_game_secrets sv) (sv_handoff_game sv token) of
        None \<Rightarrow> None
      | Some secret \<Rightarrow>
          if secret = [] then None
          else case sv_handoff_verify sv secret token now of
              None \<Rightarrow> None
            | Some c \<Rightarrow> if cl_purpose c = purpose then Some c else None)"

definition handoffClaims :: "Server \<Rightarrow> portal_env \<Rightarrow> portal_request \<Rightarrow> string \<Rightarrow> portal_state \<Rightarrow> Claims option \<times> portal_state" where
  "handoffClaims sv en rq purpose s0 =
     (case verifyHandoff sv (pe_now en) (FormValue rq ''t'') purpose of
        None \<Rightarrow> (None, s0)
      | Some c \<Rightarrow>
          (case po_store (ConsumeNonce (cl_nonce c) (cl_expires c) (pe_now en)) s0 of
             (Inl _, s) \<Rightarrow> (None, s)
           | (Inr _, s) \<Rightarrow> (Some c, s)))"

definition trialDays :: "Server \<Rightarrow> int" where
  "trialDays sv = (if sv_trial_days sv > 0 then sv_trial_days sv else 15)"

definition handoffFailed :: "Server \<Rightarrow> string \<Rightarrow> portal_reply" where
  "handoffFailed sv title =
     render sv 400 ''trial_error.html'' ((pageFor sv None title)\<lparr>pg_data := ErrorData (sv_pricing_url sv) ''Back to the API page''\<rparr>)"

definition return_to :: "Server \<Rightarrow> portal_request \<Rightarrow> string" where
  "return_to sv rq = validReturnTo (FormValue rq ''return_to'') (sv_pricing_url sv)"

definition trialConfirm :: "Server \<Rightarrow> handler" where
  "trialConfirm sv en rq s =
     (case verifyHandoff sv (pe_now en) (FormValue rq ''t'') PurposeTrial of
        None \<Rightarrow> (handoffFailed sv ''Trial link expired'', s)
      | Some c \<Rightarrow> (render sv 200 ''trial_confirm.html'' ((pageFor sv None ''Start your API trial'')
          \<lparr>pg_data := TrialConfirmData (NormalizeEmail (cl_email c)) (cl_name c) (FormValue rq ''t'') (trialDays sv) (return_to sv rq)\<rparr>), s))"

definition trialModes :: "string list" where
  "trialModes = filter (\<lambda>m. m \<noteq> ModeHistory) ValidModes"

definition trial_entitlement :: "Server \<Rightarrow> Account \<Rightarrow> Entitlement" where
  "trial_entitlement sv a =
     empty_entitlement\<lparr>e_account_id := a_id a, e_source := SourceTrial, e_games := sv_games sv, e_store_scope := ScopeAll, e_modes := trialModes,
       e_note := ''patreon trial''\<rparr>"

definition mergePendingReturnTo :: "Server \<Rightarrow> portal_env \<Rightarrow> portal_request \<Rightarrow> string \<Rightarrow> Cookie" where
  "mergePendingReturnTo sv en rq returnTo =
     (let pending = (case Pending (sv_sessions sv) (pe_now en) (pq_cookies rq) of Inl _ \<Rightarrow> [] | Inr v \<Rightarrow> v) in
      SetPending (sv_sessions sv) (pe_now en) (values_set ''return_to'' returnTo pending) pendingTTL)"

definition session_cookies :: "Server \<Rightarrow> portal_env \<Rightarrow> portal_request \<Rightarrow> Account \<Rightarrow> Cookie list" where
  "session_cookies sv en rq a =
     [issueSession sv (pe_now en) a] @
     (if FormValue rq ''return_to'' \<noteq> [] then [mergePendingReturnTo sv en rq (return_to sv rq)] else [])"

definition trial_denied :: "Server \<Rightarrow> string \<Rightarrow> portal_state \<Rightarrow> portal_reply \<times> portal_state" where
  "trial_denied sv email s0 =
     (case po_store (LastTrial email) s0 of (r, s) \<Rightarrow>
        (render sv 200 ''trial_denied.html'' ((pageFor sv None ''Trial already used'')
           \<lparr>pg_data := TrialDeniedData (case r of Inl _ \<Rightarrow> None | Inr t \<Rightarrow> Some (tr_granted_at t + trialCooldown))\<rparr>), s))"

definition trial_granted_reply :: "Server \<Rightarrow> portal_env \<Rightarrow> portal_request \<Rightarrow> Account \<Rightarrow> portal_state \<Rightarrow> portal_reply \<times> portal_state" where
  "trial_granted_reply sv en rq a s =
     (with_cookies (session_cookies sv en rq a) (redirect 302 ''/account?notice=trial''),
      snd (po_send en (a_email a) (TrialStartedMail (add_days (pe_now en) (trialDays sv)) (trialDays sv)) (po_notify [] s)))"

definition trial :: "Server \<Rightarrow> handler" where
  "trial sv en rq s0 =
     (case handoffClaims sv en rq PurposeTrial s0 of
        (None, s1) \<Rightarrow> (handoffFailed sv ''Trial link expired'', s1)
      | (Some c, s1) \<Rightarrow>
          (case po_store (GetOrCreateAccount (cl_email c) ''patreon trial'') s1 of
             (Inl _, s2) \<Rightarrow> (fail_page sv en rq 500 tryAgainMsg, s2)
           | (Inr a, s2) \<Rightarrow>
               if a_status a \<noteq> AccountActive then (fail_page sv en rq 403 suspendedMsg, s2)
               else (case po_store (CreateTrial (pe_now en) (cl_email c) (add_days (pe_now en) (trialDays sv)) (pe_now en - trialCooldown) (trial_entitlement sv a)) s2 of
                   (Inl e, s3) \<Rightarrow>
                     if e = ErrTrialTooSoon then trial_denied sv (cl_email c) s3 else (fail_page sv en rq 500 tryAgainMsg, s3)
                 | (Inr _, s3) \<Rightarrow> trial_granted_reply sv en rq a s3)))"

definition sessionConfirm :: "Server \<Rightarrow> handler" where
  "sessionConfirm sv en rq s =
     (case verifyHandoff sv (pe_now en) (FormValue rq ''t'') PurposeLogin of
        None \<Rightarrow> (handoffFailed sv ''Sign-in link expired'', s)
      | Some c \<Rightarrow> (render sv 200 ''session_confirm.html'' ((pageFor sv None ''Sign in with Patreon'')
          \<lparr>pg_data := SessionConfirmData (NormalizeEmail (cl_email c)) (cl_name c) (FormValue rq ''t'') (return_to sv rq)\<rparr>), s))"

definition patreonSession :: "Server \<Rightarrow> handler" where
  "patreonSession sv en rq s0 =
     (case handoffClaims sv en rq PurposeLogin s0 of
        (None, s1) \<Rightarrow> (handoffFailed sv ''Sign-in link expired'', s1)
      | (Some c, s1) \<Rightarrow>
          (case po_store (GetOrCreateAccount (cl_email c) ''patreon'') s1 of
             (Inl _, s2) \<Rightarrow> (fail_page sv en rq 500 tryAgainMsg, s2)
           | (Inr a, s2) \<Rightarrow>
               if a_status a \<noteq> AccountActive then (fail_page sv en rq 403 suspendedMsg, s2)
               else (with_cookies (session_cookies sv en rq a) (afterLogin sv en rq), s2)))"

section \<open>Lemmas: who is signed in\<close>

lemma GetAccount_no_fault:
  "db_faults d = [] \<Longrightarrow> GetAccount aid d = (map_sum id scanAccount (one_row (filter (\<lambda>r. ar_id r = aid) (db_accounts d))), d)"
  by (simp add: GetAccount_def select_account_def stmt_no_fault)

text \<open>With ids unique, the row of an id is the only one of it.\<close>

lemma account_by_id:
  assumes "db_ok d" "r \<in> set (db_accounts d)"
  shows "filter (\<lambda>x. ar_id x = ar_id r) (db_accounts d) = [r]"
  using assms(2) unique_filter [of ar_id "db_accounts d" r] assms(1) by (simp add: db_ok_def accounts_ok_def)

lemma current_session_no_fault:
  assumes ok: "db_ok (po_db s)" and nf: "db_faults (po_db s) = []" and rd: "Read (sv_sessions sv) (pe_now en) (pq_cookies rq) = Inr sess"
    and r: "r \<in> set (db_accounts (po_db s))" "ar_id r = ps_account_id sess"
  shows "current_session sv en rq s =
    (if ps_epoch sess \<noteq> ar_epoch r then Inl errNoSession else if ar_status r \<noteq> AccountActive then Inl errSuspended else Inr (sess, scanAccount r), s)"
  using account_by_id [OF ok r(1)] r(2) rd GetAccount_no_fault [OF nf, of "ps_account_id sess"]
  by (simp add: current_session_def po_store_def one_row_def scanAccount_def)

lemma current_session_account:
  assumes nf: "db_faults (po_db s) = []" and c: "current_session sv en rq s = (Inr (sess, a), s')"
  obtains r where "r \<in> set (db_accounts (po_db s))" "a = scanAccount r" "ar_id r = ps_account_id sess" "ar_epoch r = ps_epoch sess"
    "ar_status r = AccountActive" "s' = s" "Read (sv_sessions sv) (pe_now en) (pq_cookies rq) = Inr sess"
proof -
  have rd: "Read (sv_sessions sv) (pe_now en) (pq_cookies rq) = Inr sess" using current_session_reads [OF c] by blast
  let ?f = "filter (\<lambda>r. ar_id r = ps_account_id sess) (db_accounts (po_db s))"
  have g: "po_store (GetAccount (ps_account_id sess)) s = (map_sum id scanAccount (one_row ?f), s)"
    using GetAccount_no_fault [OF nf] by (simp add: po_store_def)
  have "?f \<noteq> []" using c unfolding current_session_def rd sum.case g by (auto simp: one_row_def)
  then obtain r rs where f: "?f = r # rs" by (cases ?f) auto
  then have a: "a = scanAccount r" "ar_epoch r = ps_epoch sess" "ar_status r = AccountActive" "s' = s"
    using c unfolding current_session_def rd sum.case g f by (simp_all add: one_row_def scanAccount_def split: if_splits)
  have "r \<in> set (db_accounts (po_db s))" "ar_id r = ps_account_id sess" using f [THEN arg_cong [of _ _ set]] by auto
  then show ?thesis using that a rd by blast
qed

lemma logout_accounts:
  assumes nf: "db_faults (po_db s) = []" and rd: "Read (sv_sessions sv) (pe_now en) (pq_cookies rq) = Inr sess"
    and csrf: "CheckCSRF (sv_sessions sv) sess (PostFormValue rq ''csrf'')"
  shows "snd (logout sv en rq s) = s\<lparr>po_db := (po_db s)\<lparr>db_accounts :=
    map (\<lambda>r. if ar_id r = ps_account_id sess then r\<lparr>ar_epoch := ar_epoch r + 1\<rparr> else r) (db_accounts (po_db s))\<rparr>\<rparr>"
  using rd csrf nf
  by (simp add: logout_def Let_def po_store_def BumpSessionEpoch_def and_then_def update_accounts_def stmt_no_fault update_where_def need_row_def
      one_row_def fail_def give_def split: list.splits)

lemma keeps_logout: "db_ok (po_db s) \<Longrightarrow> db_ok (po_db (snd (logout sv en rq s)))"
  using keepsD [OF keeps_account_ops(3)] by (auto simp: logout_def Let_def po_store_def split: sum.splits prod.splits) (metis snd_conv)

section \<open>Signing out\<close>

text \<open>
  C12: Signing out ends every session of the account: whatever cookie was accepted for it before, on any browser, is
  refused afterwards, and the sessions of other accounts are accepted as before.
\<close>

theorem logout_ends_sessions:
  assumes "db_ok (po_db s)" "db_faults (po_db s) = []" "Read (sv_sessions sv) (pe_now en) (pq_cookies rq) = Inr sess"
    "CheckCSRF (sv_sessions sv) sess (PostFormValue rq ''csrf'')" "current_session sv en' rq' s = (Inr (sess', a'), s)"
  shows "fst (current_session sv en' rq' (snd (logout sv en rq s))) =
    (if ps_account_id sess' = ps_account_id sess then Inl errNoSession else Inr (sess', a'))"
proof -
  obtain r where r: "r \<in> set (db_accounts (po_db s))" "a' = scanAccount r" "ar_id r = ps_account_id sess'" "ar_epoch r = ps_epoch sess'"
    "ar_status r = AccountActive" "Read (sv_sessions sv) (pe_now en') (pq_cookies rq') = Inr sess'"
    using current_session_account [OF assms(2,5)] by metis
  let ?s = "snd (logout sv en rq s)" and ?r = "if ar_id r = ps_account_id sess then r\<lparr>ar_epoch := ar_epoch r + 1\<rparr> else r"
  note eq = logout_accounts [OF assms(2,3,4)]
  have "db_ok (po_db ?s)" by (rule keeps_logout [OF assms(1)])
  moreover have "db_faults (po_db ?s) = []" using assms(2) unfolding eq by simp
  moreover have "?r \<in> set (db_accounts (po_db ?s))" using r(1) unfolding eq by auto
  moreover have "ar_id ?r = ps_account_id sess'" using r(3) by simp
  ultimately show ?thesis using current_session_no_fault [of ?s sv en' rq' sess' ?r] r by auto
qed

section \<open>Signing in\<close>

lemma reply_cookies [simp]:
  "rp_cookies (redirect code loc) = []" "rp_cookies (http_error code msg) = []" "rp_cookies (render sv code name p) = []"
  "rp_cookies (fail_page sv en rq code msg) = []" "rp_cookies (renderLogin sv code msg pv) = []" "rp_cookies (afterLogin sv en rq) = []"
  "rp_cookies (handoffFailed sv title) = []" "rp_cookies http_not_found = []" "rp_cookies (with_cookies cs r) = cs @ rp_cookies r"
  by (simp_all add: redirect_def http_error_def render_def fail_page_def renderLogin_def afterLogin_def handoffFailed_def http_not_found_def with_cookies_def
      Let_def split: sum.split)

lemma cookie_names: "ck_name (SetPending c now v ttl) = PendingName" "ck_name (issueSession sv now a) = CookieName" "PendingName \<noteq> CookieName"
  "ck_name (mergePendingReturnTo sv en rq rt) = PendingName"
  by (simp_all add: SetPending_def cookie_def issueSession_def Issue_def mergePendingReturnTo_def Let_def PendingName_def CookieName_def split: prod.split)

lemma ConsumeMagicLink_Inr:
  assumes "ConsumeMagicLink token now d = (Inr a, d')"
  shows "list_ex (\<lambda>l. link_live token now l \<and> ml_account_id l = a_id a) (db_links d) \<and> a \<in> scanAccount ` set (db_accounts d)"
proof (cases rule: stmt_cases [of "\<lambda>d. case update_where (link_live token now) (\<lambda>l. l\<lparr>ml_used_at := Some now\<rparr>) (db_links d) of
       (rows, used) \<Rightarrow>
         (map_sum id scanAccount (one_row (filter (\<lambda>a. ar_id a \<in> set (map ml_account_id used)) (db_accounts d))), put_links rows d)" d])
  case (error msg fs)
  then show ?thesis using assms by (simp add: ConsumeMagicLink_def)
next
  case (runs fs)
  let ?f = "filter (\<lambda>a. ar_id a \<in> set (map ml_account_id (map (\<lambda>l. l\<lparr>ml_used_at := Some now\<rparr>) (filter (link_live token now) (db_links d))))) (db_accounts d)"
  have a: "map_sum id scanAccount (one_row ?f) = Inr a"
    using assms unfolding ConsumeMagicLink_def runs by (simp add: update_where_def image_image)
  then obtain r rs where f: "?f = r # rs" "a = scanAccount r" by (cases ?f) (auto simp: one_row_def)
  then have r: "r \<in> set ?f" by (metis list.set_intros(1))
  have ml: "ml_account_id (l\<lparr>ml_used_at := Some now\<rparr>) = ml_account_id l" for l by simp
  from r obtain l where "l \<in> set (db_links d)" "link_live token now l" "ml_account_id l = ar_id r" by (auto simp: image_iff)
  then show ?thesis using f(2) r by (auto simp: list_ex_iff scanAccount_def)
qed

lemma GetOrCreateAccount_Inr: "GetOrCreateAccount email note d = (Inr a, d') \<Longrightarrow> a_email a = NormalizeEmail email"
proof (cases rule: stmt_cases [of "\<lambda>d. let e = NormalizeEmail email; row = new_account d e note; d' = d\<lparr>db_account_seq := db_account_seq d + 1\<rparr> in
       if \<not> email_check e then (Inl CheckViolation, d')
       else case filter (\<lambda>r. ar_email r = e) (db_accounts d) of
           r # _ \<Rightarrow> (Inr (scanAccount r), d')
         | [] \<Rightarrow> (Inr (scanAccount row), d'\<lparr>db_accounts := db_accounts d @ [row]\<rparr>)" d])
  case (runs fs)
  assume "GetOrCreateAccount email note d = (Inr a, d')"
  then show ?thesis unfolding GetOrCreateAccount_def runs
    by (auto simp: Let_def scanAccount_def new_account_def split: if_splits list.splits dest!: filter_eq_ConsD)
qed (simp add: GetOrCreateAccount_def)

text \<open>What the handoff routes share: a session is only issued for the account of verified claims whose nonce was just burned.\<close>

definition handed_off :: "Server \<Rightarrow> portal_env \<Rightarrow> portal_request \<Rightarrow> string \<Rightarrow> portal_state \<Rightarrow> Account \<Rightarrow> bool" where
  "handed_off sv en rq purpose s a \<longleftrightarrow>
     (\<exists>c. verifyHandoff sv (pe_now en) (FormValue rq ''t'') purpose = Some c \<and> a_email a = NormalizeEmail (cl_email c) \<and>
        (\<exists>s1. po_store (ConsumeNonce (cl_nonce c) (cl_expires c) (pe_now en)) s = (Inr (), s1)))"

lemma handoffClaims_Some:
  "handoffClaims sv en rq purpose s = (Some c, s1) \<Longrightarrow>
     verifyHandoff sv (pe_now en) (FormValue rq ''t'') purpose = Some c \<and> po_store (ConsumeNonce (cl_nonce c) (cl_expires c) (pe_now en)) s = (Inr (), s1)"
  by (auto simp: handoffClaims_def split: option.splits prod.splits sum.splits)

lemma po_store_account: "po_store (GetOrCreateAccount email note) s = (Inr a, s') \<Longrightarrow> a_email a = NormalizeEmail email"
  by (auto simp: po_store_def split: prod.splits dest: GetOrCreateAccount_Inr)

lemma session_cookies_issued: "c \<in> set (session_cookies sv en rq a) \<Longrightarrow> ck_name c = CookieName \<Longrightarrow> c = issueSession sv (pe_now en) a"
  using cookie_names by (auto simp: session_cookies_def split: if_splits)

text \<open>
  C10: A session cookie is only ever set for an active account: by \<open>loginToken\<close> for the account of a link that is unused
  and not expired, by \<open>patreonSession\<close> and \<open>trial\<close> for the account whose email the site's signed claims name, for that purpose, with the
  claims' nonce burned in the same request; and \<open>login\<close>, \<open>logout\<close> and the confirm pages set none.
\<close>

theorem sign_in_needs_credential:
  assumes "c \<in> set (rp_cookies reply)" "ck_name c = CookieName" "ck_max_age c \<noteq> -1"
  shows "(loginToken sv en rq s = (reply, s') \<longrightarrow>
      (\<exists>a. c = issueSession sv (pe_now en) a \<and> a_status a = AccountActive \<and> a \<in> scanAccount ` set (db_accounts (po_db s)) \<and>
         list_ex (\<lambda>l. link_live (path_value rq ''token'') (pe_now en) l \<and> ml_account_id l = a_id a) (db_links (po_db s)))) \<and>
    (patreonSession sv en rq s = (reply, s') \<longrightarrow>
      (\<exists>a. c = issueSession sv (pe_now en) a \<and> a_status a = AccountActive \<and> handed_off sv en rq PurposeLogin s a)) \<and>
    (trial sv en rq s = (reply, s') \<longrightarrow>
      (\<exists>a. c = issueSession sv (pe_now en) a \<and> a_status a = AccountActive \<and> handed_off sv en rq PurposeTrial s a)) \<and>
    reply \<notin> fst ` {login sv en rq s, logout sv en rq s, loginForm sv en rq s, loginConfirm sv en rq s, trialConfirm sv en rq s, sessionConfirm sv en rq s}"
proof (intro conjI impI)
  assume l: "loginToken sv en rq s = (reply, s')"
  show "\<exists>a. c = issueSession sv (pe_now en) a \<and> a_status a = AccountActive \<and> a \<in> scanAccount ` set (db_accounts (po_db s)) \<and>
      list_ex (\<lambda>l. link_live (path_value rq ''token'') (pe_now en) l \<and> ml_account_id l = a_id a) (db_links (po_db s))"
    using l assms ConsumeMagicLink_Inr [of "path_value rq ''token''" "pe_now en" "po_db s"]
    by (auto simp: loginToken_def po_store_def split: prod.splits sum.splits if_splits)
next
  assume "patreonSession sv en rq s = (reply, s')"
  then show "\<exists>a. c = issueSession sv (pe_now en) a \<and> a_status a = AccountActive \<and> handed_off sv en rq PurposeLogin s a"
    using assms session_cookies_issued unfolding handed_off_def
    by (fastforce simp: patreonSession_def split: prod.splits sum.splits option.splits if_splits dest!: handoffClaims_Some dest: po_store_account)
next
  assume "trial sv en rq s = (reply, s')"
  then show "\<exists>a. c = issueSession sv (pe_now en) a \<and> a_status a = AccountActive \<and> handed_off sv en rq PurposeTrial s a"
    using assms session_cookies_issued unfolding handed_off_def
    by (fastforce simp: trial_def trial_denied_def trial_granted_reply_def split: prod.splits sum.splits option.splits if_splits
        dest!: handoffClaims_Some dest: po_store_account)
next
  have none: "rp_cookies (fst (login sv en rq s)) = []" "rp_cookies (fst (loginForm sv en rq s)) = []" "rp_cookies (fst (loginConfirm sv en rq s)) = []"
    "rp_cookies (fst (trialConfirm sv en rq s)) = []" "rp_cookies (fst (sessionConfirm sv en rq s)) = []"
    by (auto simp: login_def send_link_def loginForm_def loginConfirm_def trialConfirm_def sessionConfirm_def Let_def split: prod.splits sum.splits option.splits)
  have out: "ck_max_age x = -1" if "x \<in> set (rp_cookies (fst (logout sv en rq s)))" for x
    using that by (auto simp: logout_def Let_def Clear_def ClearPending_def cookie_def split: sum.splits if_splits)
  show "reply \<notin> fst ` {login sv en rq s, logout sv en rq s, loginForm sv en rq s, loginConfirm sv en rq s, trialConfirm sv en rq s, sessionConfirm sv en rq s}"
    using assms none out by auto
qed

lemma ConsumeMagicLink_live:
  assumes ok: "db_ok d" and nf: "db_faults d = []" and l: "l \<in> set (db_links d)" "link_live token now l"
    and r: "r \<in> set (db_accounts d)" "ar_id r = ml_account_id l"
  shows "ConsumeMagicLink token now d =
    (Inr (scanAccount r), put_links (fst (update_where (link_live token now) (\<lambda>l. l\<lparr>ml_used_at := Some now\<rparr>) (db_links d))) d)"
proof -
  have "l' = l" if "l' \<in> set (db_links d)" "link_live token now l'" for l'
    using db_ok_tokens(2) [OF ok] that l unfolding distinct_map link_live_def by (metis inj_onD)
  then have live: "{x \<in> set (db_links d). link_live token now x} = {l}" using l by blast
  have "filter (\<lambda>a. ar_id a = ml_account_id l) (db_accounts d) = [r]" using account_by_id [OF ok r(1)] r(2) by simp
  then show ?thesis by (simp add: ConsumeMagicLink_def stmt_no_fault [OF nf] update_where_def image_image live one_row_def)
qed

lemma ConsumeMagicLink_spent:
  assumes "db_ok d" "db_faults d = []" "link_taken d token"
  shows "fst (ConsumeMagicLink token now d) = Inl ErrNotFound"
proof -
  have none: "{x \<in> set (db_links d). link_live token now x} = {}"
    using link_live_filter [OF assms(3,1), of now] by (auto simp: filter_empty_conv)
  show ?thesis by (simp add: ConsumeMagicLink_def stmt_no_fault [OF assms(2)] update_where_def one_row_def none)
qed

definition session_for :: "Server \<Rightarrow> time \<Rightarrow> Account \<Rightarrow> portal_session" where
  "session_for sv now a =
     stamped (sv_sessions sv) now
       \<lparr>ps_account_id = a_id a, ps_email = a_email a, ps_epoch = a_session_epoch a, ps_issued_at = zero_time, ps_expires_at = zero_time\<rparr>"

definition session_fits :: "Server \<Rightarrow> time \<Rightarrow> Account \<Rightarrow> bool" where
  "session_fits sv now a \<longleftrightarrow> 0 < a_id a \<and> a_email a \<noteq> [] \<and> is_int64 (a_id a) \<and> is_int64 (a_session_epoch a) \<and> is_int64 (unix now) \<and>
     is_int64 (unix (now + codec_ttl (sv_sessions sv))) \<and> codec_ttl (sv_sessions sv) mod second = 0"

lemma Read_issued:
  assumes "session_fits sv now a" "t < unix now * second + codec_ttl (sv_sessions sv)"
  shows "Read (sv_sessions sv) t [(CookieName, ck_value (issueSession sv now a))] = Inr (session_for sv now a)"
proof -
  let ?s = "\<lparr>ps_account_id = a_id a, ps_email = a_email a, ps_epoch = a_session_epoch a, ps_issued_at = zero_time, ps_expires_at = zero_time\<rparr>"
  have "ck_value (issueSession sv now a) = fst (Encode (sv_sessions sv) now ?s)"
    by (simp add: issueSession_def Issue_def cookie_def split: prod.split)
  moreover have "snd (Encode (sv_sessions sv) now ?s) = session_for sv now a" by (simp add: Encode_def Let_def session_for_def)
  moreover have "ps_expires_at (session_for sv now a) = unix now * second + codec_ttl (sv_sessions sv)" by (simp add: session_for_def)
  ultimately show ?thesis using assms Decode_Encode [of ?s now "sv_sessions sv" t]
    by (simp add: Read_def request_cookie_def session_fits_def)
qed

lemma loginToken_live:
  assumes "db_ok (po_db s)" "db_faults (po_db s) = []" "l \<in> set (db_links (po_db s))" "link_live (path_value rq ''token'') (pe_now en) l"
    "r \<in> set (db_accounts (po_db s))" "ar_id r = ml_account_id l" "ar_status r = AccountActive"
  shows "loginToken sv en rq s = (with_cookies [issueSession sv (pe_now en) (scanAccount r)] (afterLogin sv en rq),
    s\<lparr>po_db := put_links (fst (update_where (link_live (path_value rq ''token'') (pe_now en)) (\<lambda>l. l\<lparr>ml_used_at := Some (pe_now en)\<rparr>) (db_links (po_db s)))) (po_db s)\<rparr>)"
  using assms(7) by (simp add: loginToken_def po_store_def ConsumeMagicLink_live [OF assms(1-6)] scanAccount_def)

text \<open>
  C11: A live link signs its active account in: the reply sets one session cookie, that cookie is accepted for the account
  until it expires, and the link is spent, so presenting it again at any time gives the expired-link page.
\<close>

theorem loginToken_signs_in:
  assumes "db_ok (po_db s)" "db_faults (po_db s) = []" "l \<in> set (db_links (po_db s))" "link_live (path_value rq ''token'') (pe_now en) l"
    "r \<in> set (db_accounts (po_db s))" "ar_id r = ml_account_id l" "ar_status r = AccountActive"
    "session_fits sv (pe_now en) (scanAccount r)" "pe_now en' < unix (pe_now en) * second + codec_ttl (sv_sessions sv)"
    "pq_cookies rq' = [(CookieName, ck_value (issueSession sv (pe_now en) (scanAccount r)))]"
  shows "rp_cookies (fst (loginToken sv en rq s)) = [issueSession sv (pe_now en) (scanAccount r)] \<and>
    fst (current_session sv en' rq' (snd (loginToken sv en rq s))) = Inr (session_for sv (pe_now en) (scanAccount r), scanAccount r) \<and>
    fst (loginToken sv en'' rq (snd (loginToken sv en rq s))) =
      renderLogin sv 400 ''That sign-in link is invalid or has expired. Request a new one.'' (pending_of sv en'' rq)"
proof -
  let ?tok = "path_value rq ''token''"
  let ?rows = "fst (update_where (link_live ?tok (pe_now en)) (\<lambda>l. l\<lparr>ml_used_at := Some (pe_now en)\<rparr>) (db_links (po_db s)))"
  let ?s = "s\<lparr>po_db := put_links ?rows (po_db s)\<rparr>"
  note cl = ConsumeMagicLink_live [OF assms(1-6)]
  note lt = loginToken_live [OF assms(1-7)]
  have ok: "db_ok (po_db ?s)" using keepsD [OF keeps_ConsumeMagicLink assms(1), of ?tok "pe_now en"] by (simp add: cl)
  have nf: "db_faults (po_db ?s) = []" using assms(2) by (simp add: put_links_def)
  have rd: "Read (sv_sessions sv) (pe_now en') (pq_cookies rq') = Inr (session_for sv (pe_now en) (scanAccount r))"
    unfolding assms(10) by (rule Read_issued [OF assms(8,9)])
  have r: "r \<in> set (db_accounts (po_db ?s))" using assms(5) by (simp add: put_links_def)
  have fields: "ar_id r = ps_account_id (session_for sv (pe_now en) (scanAccount r))" "ps_epoch (session_for sv (pe_now en) (scanAccount r)) = ar_epoch r"
    by (simp_all add: session_for_def scanAccount_def)
  have c: "fst (current_session sv en' rq' ?s) = Inr (session_for sv (pe_now en) (scanAccount r), scanAccount r)"
    using current_session_no_fault [OF ok nf rd r fields(1)] fields(2) assms(7) by simp
  have "filter (link_live ?tok (pe_now en)) (db_links (po_db s)) \<noteq> []" using assms(3,4) by (auto simp: filter_empty_conv)
  then have "link_taken (po_db ?s) ?tok"
    unfolding link_taken_def put_links_def by (auto intro!: list_ex_updated simp: link_live_def)
  then have "fst (ConsumeMagicLink ?tok (pe_now en'') (po_db ?s)) = Inl ErrNotFound" by (rule ConsumeMagicLink_spent [OF ok nf])
  then have "fst (loginToken sv en'' rq ?s) = renderLogin sv 400 ''That sign-in link is invalid or has expired. Request a new one.'' (pending_of sv en'' rq)"
    by (auto simp: loginToken_def po_store_def split: prod.splits)
  then show ?thesis using c by (simp add: lt)
qed


section \<open>A portal with one account\<close>

definition demo_server :: Server where
  "demo_server =
     \<lparr>sv_catalog = sample_catalog, sv_games = [''magic'', ''lorcana''], sv_stores = Some sample_site, sv_sessions = sample_codec, sv_stripe = None,
      sv_checkout = None, sv_reconcile = None, sv_reconcile_all = None, sv_public_url = ''https://api.mtgban.com'',
      sv_pricing_url = ''https://www.mtgban.com/api'', sv_success_path = ''/success'', sv_cancel_path = ''/cancel'', sv_admin_emails = [''a@b.c''],
      sv_trial_days = 15, sv_history_on_sale = False, sv_game_secrets = [(''magic'', ''secret'')], sv_login_links_per_hour = 5, sv_client_ip_header = [],
      sv_executes = (\<lambda>_ _. True), sv_parse_address = Some, sv_handoff_game = (\<lambda>_. ''magic''), sv_handoff_verify = (\<lambda>_ _ _. None),
      sv_error_text = (\<lambda>_. []), sv_grant_text = (\<lambda>_. []), sv_summary = (\<lambda>_. []), sv_payment_failure = (\<lambda>_. False)\<rparr>"

definition demo_env :: "time \<Rightarrow> portal_env" where
  "demo_env now = \<lparr>pe_now = now, pe_rand = Some (replicate 32 CHR ''r''), pe_key_rand = (\<lambda>n. Some (replicate 32 CHR ''s'')), pe_mail_ok = True\<rparr>"

definition demo_request :: "(string \<times> string) list \<Rightarrow> (string \<times> string) list \<Rightarrow> url_values \<Rightarrow> portal_request" where
  "demo_request path cookies form =
     \<lparr>pq_method = ''POST'', pq_path_values = path, pq_query = [], pq_form = form, pq_post_form = form, pq_cookies = cookies,
      pq_headers = [(''Sec-Fetch-Site'', [''same-origin''])], pq_remote = ''192.0.2.1:1000''\<rparr>"

definition demo_portal :: portal_state where
  "demo_portal = \<lparr>po_db = demo_db, po_limit = new_limiter, po_mails = [], po_notices = [], po_calls = [], po_updates = [], po_alerts = []\<rparr>"

definition demo_account :: Account where
  "demo_account = scanAccount (new_account (empty_db 100) ''a@b.c'' [])"

definition demo_session :: portal_session where
  "demo_session = session_for demo_server 150 demo_account"

definition demo_cookies :: "(string \<times> string) list" where
  "demo_cookies = [(CookieName, ck_value (issueSession demo_server 150 demo_account))]"

lemma demo_fits: "session_fits demo_server 150 demo_account" "codec_ttl (sv_sessions demo_server) = 60 * second"
  by (simp_all add: session_fits_def demo_server_def demo_account_def scanAccount_def new_account_def empty_db_def sample_codec_def codec_ttl_def is_int64_def unix_def)

lemma demo_db_rows:
  "db_ok (po_db demo_portal)" "db_faults (po_db demo_portal) = []"
  "db_accounts (po_db demo_portal) = [new_account (empty_db 100) ''a@b.c'' []]"
  "db_links (po_db demo_portal) = [\<lparr>ml_token_hash = HashKey ''tok'', ml_account_id = 1, ml_expires_at = 200, ml_used_at = None, ml_created_at = 100\<rparr>]"
  using demo_db_ok by (simp_all add: demo_portal_def demo_db_def empty_db_def)

lemma sign_not_empty: "sign c body \<noteq> []"
proof
  assume "sign c body = []"
  then have "b64url_decode [] = Some (hmac_sha256 (cd_secret c) body)" using b64.dec_enc [of "hmac_sha256 (cd_secret c) body"] by (simp add: sign_def)
  moreover have "length (hmac_sha256 (cd_secret c) body) = 32" by (simp add: hmac_sha256_def Let_def)
  ultimately show False by (simp add: b64url_decode_def)
qed

lemma CheckCSRF_own: "CheckCSRF c s (CSRF c s)"
  by (simp add: CheckCSRF_def CSRF_def sign_not_empty)

lemma demo_Read: "Read (sv_sessions demo_server) 160 demo_cookies = Inr demo_session"
  unfolding demo_cookies_def demo_session_def by (rule Read_issued [OF demo_fits(1)]) (simp add: demo_fits unix_def)

lemma demo_current:
  assumes "pe_now en = 160" "pq_cookies rq = demo_cookies"
  shows "current_session demo_server en rq demo_portal = (Inr (demo_session, demo_account), demo_portal)"
proof -
  let ?r = "new_account (empty_db 100) ''a@b.c'' []"
  have "Read (sv_sessions demo_server) (pe_now en) (pq_cookies rq) = Inr demo_session" using demo_Read assms by simp
  from current_session_no_fault [OF demo_db_rows(1,2) this, of ?r] show ?thesis
    by (simp add: demo_db_rows demo_session_def session_for_def demo_account_def scanAccount_def new_account_def)
qed

lemma demo_csrf:
  fixes path
  defines "rq \<equiv> demo_request path demo_cookies [(''csrf'', [CSRF sample_codec demo_session])]"
  shows "Read (sv_sessions demo_server) (pe_now (demo_env 160)) (pq_cookies rq) = Inr demo_session"
    and "CheckCSRF (sv_sessions demo_server) demo_session (PostFormValue rq ''csrf'')"
proof -
  have "PostFormValue rq ''csrf'' = CSRF (sv_sessions demo_server) demo_session"
    by (simp add: rq_def PostFormValue_def demo_request_def values_get_def demo_server_def)
  then show "CheckCSRF (sv_sessions demo_server) demo_session (PostFormValue rq ''csrf'')" by (simp add: CheckCSRF_own)
qed (use demo_Read in \<open>simp add: rq_def demo_env_def demo_request_def\<close>)

theorem loginToken_signs_in_witness:
  "rp_cookies (fst (loginToken demo_server (demo_env 150) (demo_request [(''token'', ''tok'')] [] []) demo_portal)) = [issueSession demo_server 150 demo_account] \<and>
   fst (loginToken demo_server (demo_env 160) (demo_request [(''token'', ''tok'')] [] [])
     (snd (loginToken demo_server (demo_env 150) (demo_request [(''token'', ''tok'')] [] []) demo_portal))) =
     renderLogin demo_server 400 ''That sign-in link is invalid or has expired. Request a new one.''
       (pending_of demo_server (demo_env 160) (demo_request [(''token'', ''tok'')] [] []))"
proof -
  let ?rq = "demo_request [(''token'', ''tok'')] [] []"
  let ?r = "new_account (empty_db 100) ''a@b.c'' []"
  let ?l = "\<lparr>ml_token_hash = HashKey ''tok'', ml_account_id = 1, ml_expires_at = 200, ml_used_at = None, ml_created_at = 100\<rparr>"
  have tok: "path_value ?rq ''token'' = ''tok''" by (simp add: path_value_def demo_request_def)
  have now: "pe_now (demo_env t) = t" for t by (simp add: demo_env_def)
  have l: "link_live (path_value ?rq ''token'') (pe_now (demo_env 150)) ?l" by (simp add: tok now link_live_def)
  have r: "ar_id ?r = ml_account_id ?l" "ar_status ?r = AccountActive" by (simp_all add: new_account_def empty_db_def)
  show ?thesis
    using loginToken_signs_in [of demo_portal ?l ?rq "demo_env 150" ?r demo_server "demo_env 160" "demo_request [] demo_cookies []" "demo_env 160"]
      demo_db_rows l r demo_fits by (simp add: now demo_account_def demo_cookies_def demo_request_def unix_def)
qed

theorem logout_ends_sessions_witness:
  "current_session demo_server (demo_env 160) (demo_request [] demo_cookies []) demo_portal = (Inr (demo_session, demo_account), demo_portal) \<and>
   fst (current_session demo_server (demo_env 160) (demo_request [] demo_cookies [])
     (snd (logout demo_server (demo_env 160) (demo_request [] demo_cookies [(''csrf'', [CSRF sample_codec demo_session])]) demo_portal))) = Inl errNoSession"
proof -
  let ?en = "demo_env 160"
  have cur: "current_session demo_server ?en (demo_request [] demo_cookies []) demo_portal = (Inr (demo_session, demo_account), demo_portal)"
    by (rule demo_current) (simp_all add: demo_env_def demo_request_def)
  from logout_ends_sessions [OF demo_db_rows(1,2) demo_csrf cur] cur show ?thesis by simp
qed


theorem sign_in_needs_credential_witness:
  "issueSession demo_server 150 demo_account \<in> set (rp_cookies (fst (loginToken demo_server (demo_env 150) (demo_request [(''token'', ''tok'')] [] []) demo_portal))) \<and>
   (\<exists>a. issueSession demo_server 150 demo_account = issueSession demo_server 150 a \<and> a_status a = AccountActive \<and>
      list_ex (\<lambda>l. link_live ''tok'' 150 l \<and> ml_account_id l = a_id a) (db_links demo_db))"
proof -
  let ?rq = "demo_request [(''token'', ''tok'')] [] []" and ?r = "new_account (empty_db 100) ''a@b.c'' []" and ?c = "issueSession demo_server 150 demo_account"
  let ?l = "\<lparr>ml_token_hash = HashKey ''tok'', ml_account_id = 1, ml_expires_at = 200, ml_used_at = None, ml_created_at = 100\<rparr>"
  have fields: "path_value ?rq ''token'' = ''tok''" "pe_now (demo_env 150) = 150" "po_db demo_portal = demo_db"
    by (simp_all add: path_value_def demo_request_def demo_env_def demo_portal_def)
  obtain reply s' where lt: "loginToken demo_server (demo_env 150) ?rq demo_portal = (reply, s')" by fastforce
  have c: "?c \<in> set (rp_cookies reply)"
    using loginToken_live [of demo_portal ?l ?rq "demo_env 150" ?r demo_server] lt demo_db_rows
    by (simp add: fields link_live_def new_account_def empty_db_def demo_account_def)
  have "codec_ttl (sv_sessions demo_server) sdiv second = 60" by (simp add: demo_fits(2) signed_divide_int_def)
  then have "ck_max_age ?c \<noteq> -1" by (simp add: issueSession_def Issue_def cookie_def split: prod.split)
  from sign_in_needs_credential [OF c cookie_names(2) this, THEN conjunct1, rule_format, OF lt]
  show ?thesis using c unfolding fields lt fst_conv by (elim exE conjE) (intro conjI exI)
qed

end
