(* ===== verification/Portal_Checkout.thy ===== *)
theory Portal_Checkout
  imports Portal_Auth
begin

text \<open>
  \<open>src/portal/checkout.go\<close>: from a plan in the query to Stripe's checkout page and back, over the plans, the
  checkout and the store. Billing errors become sentences for the page.
\<close>

section \<open>Messages\<close>

definition billingOffMsg :: string where
  "billingOffMsg = ''Billing is not available right now. Try again later or contact administrator@mtgban.com.''"
definition alreadyHasPlanMsg :: string where
  "alreadyHasPlanMsg = ''You already have a plan. Use Change plan on your account page to switch.''"
definition manySubscriptionsMsg :: string where
  "manySubscriptionsMsg = ''Your account has more than one subscription. Contact administrator@mtgban.com and we will sort it out.''"
definition storesUnavailableMsg :: string where
  "storesUnavailableMsg = ''The store list could not be loaded. Try again in a minute.''"
definition historyOffSaleMsg :: string where "historyOffSaleMsg = ''That plan is not for sale yet.''"
definition noSubscriptionMsg :: string where
  "noSubscriptionMsg = ''You have no active subscription to change. Start a new plan from the pricing page instead.''"

text \<open>Go's \<open>%q\<close> of a text whose bytes beyond ASCII are printable.\<close>

definition quote_char :: "char \<Rightarrow> string" where
  "quote_char c =
     (let n = (of_char c :: int) in
      if c = CHR 0x22 \<or> c = CHR 0x5C then [CHR 0x5C, c]
      else if n = 7 then [CHR 0x5C, CHR ''a''] else if n = 8 then [CHR 0x5C, CHR ''b''] else if n = 9 then [CHR 0x5C, CHR ''t'']
      else if n = 10 then [CHR 0x5C, CHR ''n''] else if n = 11 then [CHR 0x5C, CHR ''v''] else if n = 12 then [CHR 0x5C, CHR ''f'']
      else if n = 13 then [CHR 0x5C, CHR ''r'']
      else if n < 32 \<or> n = 127 then [CHR 0x5C, CHR ''x''] @ map lower_char [upper_hex (n div 16), upper_hex (n mod 16)]
      else [c])"

definition go_quote :: "string \<Rightarrow> string" where
  "go_quote s = [CHR 0x22] @ concat (map quote_char s) @ [CHR 0x22]"

fun validation_msg :: "validation \<Rightarrow> string" where
  "validation_msg (UnknownPackage p) = ''unknown package '' @ go_quote p"
| "validation_msg (UnknownInterval i) = ''unknown interval '' @ go_quote i"
| "validation_msg PickGame = ''pick at least one game''"
| "validation_msg PickStore = ''pick at least one store''"
| "validation_msg (TakesNoStores p) = ''package '' @ p @ '' does not take a store list''"
| "validation_msg (UnknownAddon k) = ''unknown add-on '' @ go_quote k"
| "validation_msg (AddonNotAlone k) = ''add-on '' @ k @ '' cannot be picked on its own''"
| "validation_msg (ModeNotServed k m) = ''add-on '' @ k @ '' grants mode '' @ m @ '', which the gateway does not serve''"
| "validation_msg (CannotAdd p k) = ''package '' @ p @ '' cannot add '' @ k"
| "validation_msg (UnknownGame g) = ''unknown game '' @ go_quote g"
| "validation_msg (StoreNotAvailable k) = ''Store '' @ k @ '' is not available for the games you picked.''"

definition checkoutError :: "Server \<Rightarrow> billing_error \<Rightarrow> string" where
  "checkoutError sv e =
     (case e of
        ErrInviteRequired \<Rightarrow> ''That billing interval needs an invite from MTGBAN.''
      | StoreError ErrInviteInvalid \<Rightarrow> ''That invite is invalid, already used, or expired.''
      | ErrPriceNotSeeded _ \<Rightarrow> ''That plan is not set up for sale yet. Contact administrator@mtgban.com.''
      | ErrStoresUnavailable _ \<Rightarrow> storesUnavailableMsg
      | _ \<Rightarrow>
          if sv_payment_failure sv e then ''Your card was declined. Update it under Manage billing, then try again.''
          else (case e of
              ValidationError v \<Rightarrow> if has_suffix (validation_msg v) ''.'' then validation_msg v else ''That plan is not valid: '' @ validation_msg v @ ''.''
            | _ \<Rightarrow> ''Could not start checkout. Try again in a minute.''))"

definition planErrorStatus :: "billing_error \<Rightarrow> int" where
  "planErrorStatus e = (case e of ErrStoresUnavailable _ \<Rightarrow> 503 | _ \<Rightarrow> 400)"

section \<open>The plan the account has\<close>

definition hasActiveStripePlan :: "int \<Rightarrow> portal_state \<Rightarrow> (access_error + bool) \<times> portal_state" where
  "hasActiveStripePlan account_id s = (case po_store (ListEntitlements account_id) s of (r, s') \<Rightarrow> (map_sum id HasActiveStripePlan r, s'))"

text \<open>The subscription, or the status and the message to show.\<close>

definition subscriptionFor :: "int \<Rightarrow> portal_state \<Rightarrow> ((int \<times> string) + string) \<times> portal_state" where
  "subscriptionFor account_id s =
     (case po_store (ListEntitlements account_id) s of
        (Inl _, s') \<Rightarrow> (Inl (500, tryAgainMsg), s')
      | (Inr ents, s') \<Rightarrow>
          (case SubscriptionFor ents of
             Inl e \<Rightarrow> (if e = ErrManySubscriptions then Inl (400, manySubscriptionsMsg) else Inl (400, noSubscriptionMsg), s')
           | Inr i \<Rightarrow> (Inr i, s')))"

definition currentIntervalFor :: "Server \<Rightarrow> portal_session \<Rightarrow> Plan \<Rightarrow> portal_state \<Rightarrow> ((int \<times> string) + Plan \<times> Plan) \<times> portal_state" where
  "currentIntervalFor sv sess plan s =
     (case sv_stripe sv of
        None \<Rightarrow> (Inl (503, billingOffMsg), s)
      | Some st \<Rightarrow>
          (case subscriptionFor (ps_account_id sess) s of
             (Inl m, s') \<Rightarrow> (Inl m, s')
           | (Inr sub_id, s') \<Rightarrow>
               (case st_get st sub_id of
                  Inl _ \<Rightarrow> (Inl (502, tryAgainMsg), s')
                | Inr sub \<Rightarrow>
                    (case PlanFromMetadata (sb_metadata sub) of
                       Inl _ \<Rightarrow> (Inl (500, tryAgainMsg), s')
                     | Inr (current, _) \<Rightarrow>
                         (case Validate (sv_catalog sv) (sv_games sv) True (plan\<lparr>pl_interval := pl_interval current\<rparr>) of
                            Inl e \<Rightarrow> (Inl (400, checkoutError sv e), s')
                          | Inr p \<Rightarrow> (Inr (p, current), s'))))))"

section \<open>The confirm page\<close>

record confirmOptions =
  op_status :: int
  op_resolved :: ResolvedPlan
  op_invite :: string
  op_return_to :: string
  op_change :: bool
  op_err_msg :: string
  op_has_plan :: bool
  op_current :: "Plan option"

definition confirm_stores :: "Server \<Rightarrow> Package \<Rightarrow> ResolvedPlan \<Rightarrow> string" where
  "confirm_stores sv pkg r =
     (if pk_store_scope pkg \<noteq> ct_scope_explicit (sv_catalog sv) then []
      else if rz_names r \<noteq> [] then join '', '' (StoreNames r) else join '', '' (pl_stores (rz_plan r)))"

definition confirm_addons :: "Server \<Rightarrow> Plan \<Rightarrow> string" where
  "confirm_addons sv plan =
     join '', '' (concat (map (\<lambda>k. case ct_addon (sv_catalog sv) k of (addon, ok) \<Rightarrow>
       if ok then [ad_name addon @ '' ('' @ Dollars (ad_monthly addon) @ ''/month)''] else []) (pl_mode_addons plan)))"

definition addon_note :: "Server \<Rightarrow> Package \<Rightarrow> Plan \<Rightarrow> string \<Rightarrow> string \<Rightarrow> string" where
  "addon_note sv pkg plan switch k =
     (case ct_addon (sv_catalog sv) k of (addon, ok) \<Rightarrow>
        if \<not> ok \<or> ad_grants_mode addon = [] \<or> k \<in> set (pl_mode_addons plan) then switch
        else trim_space (switch @ (if ad_applies addon (pk_key pkg)
               then '' Your '' @ ad_name addon @ '' add-on is left out of this selection and ends with the change.''
               else '' Your '' @ ad_name addon @ '' add-on ends with the change.'')))"

definition confirm_switch :: "Server \<Rightarrow> Package \<Rightarrow> Plan \<Rightarrow> bool \<Rightarrow> Plan option \<Rightarrow> string" where
  "confirm_switch sv pkg plan change current =
     (case current of
        None \<Rightarrow> []
      | Some cur \<Rightarrow>
          if \<not> change \<or> pl_package cur = [] then []
          else let old = fst (ct_package (sv_catalog sv) (pl_package cur));
                   start = (if pk_history pkg \<and> \<not> pk_history old then ''History replaces your price plan: retail, buylist and sealed stop at the change.''
                            else if \<not> pk_history pkg \<and> pk_history old then ''Your price plan replaces history, which stops at the change.'' else [])
               in foldl (addon_note sv pkg plan) start (pl_mode_addons cur))"

definition renderConfirm :: "Server \<Rightarrow> portal_env \<Rightarrow> portal_request \<Rightarrow> portal_session \<Rightarrow> confirmOptions \<Rightarrow> portal_reply" where
  "renderConfirm sv en rq sess opt =
     (let plan = rz_plan (op_resolved opt);
          pkg = fst (ct_package (sv_catalog sv) (pl_package plan));
          iv = fst (ct_interval (sv_catalog sv) (pl_interval plan))
      in case Total (sv_catalog sv) plan of
           Inl _ \<Rightarrow> fail_page sv en rq 500 tryAgainMsg
         | Inr cents \<Rightarrow>
             let d = \<lparr>cf_package = pk_name pkg, cf_games = join '', '' (pl_games plan), cf_stores = confirm_stores sv pkg (op_resolved opt),
                      cf_addons = confirm_addons sv plan,
                      cf_interval = (if in_count iv = 1 then ''every month'' else ''every '' @ format_int (in_count iv) @ '' months''),
                      cf_total = Dollars cents, cf_change = op_change opt, cf_invite = op_invite opt, cf_return_to = op_return_to opt,
                      cf_action = (if op_change opt then ''/account/plan'' else ''/checkout''),
                      cf_fields = (if op_invite opt \<noteq> [] then values_set ''invite'' (op_invite opt) else id) (values_set ''return_to'' (op_return_to opt) (planValues plan)),
                      cf_billing_off = (sv_stripe sv = None), cf_has_plan = op_has_plan opt,
                      cf_switch = confirm_switch sv pkg plan (op_change opt) (op_current opt)\<rparr>
             in render sv (op_status opt) ''confirm.html'' ((pageFor sv (Some sess) (if op_change opt then ''Confirm the change'' else ''Confirm your plan''))
                  \<lparr>pg_error := (if sv_stripe sv = None \<and> op_err_msg opt = [] then billingOffMsg else op_err_msg opt), pg_data := ConfirmPage d\<rparr>))"

section \<open>Choosing a plan\<close>

definition refuseHistoryOffSale :: "Server \<Rightarrow> portal_env \<Rightarrow> portal_request \<Rightarrow> Plan \<Rightarrow> portal_reply option" where
  "refuseHistoryOffSale sv en rq plan =
     (case ct_package (sv_catalog sv) (pl_package plan) of (pkg, ok) \<Rightarrow>
        if \<not> ok \<or> \<not> pk_history pkg \<or> sv_history_on_sale sv then None
        else Some (with_cookies [ClearPending (sv_sessions sv)] (fail_page sv en rq 404 historyOffSaleMsg)))"

definition validated :: "Server \<Rightarrow> bool \<Rightarrow> Plan \<Rightarrow> billing_error + ResolvedPlan" where
  "validated sv have_invite plan =
     (case Validate (sv_catalog sv) (sv_games sv) have_invite plan of
        Inl e \<Rightarrow> Inl e
      | Inr p \<Rightarrow> Plan_Resolve (sv_catalog sv) (sv_stores sv) p)"

definition checkout_query :: "Server \<Rightarrow> portal_env \<Rightarrow> portal_request \<Rightarrow> url_values option" where
  "checkout_query sv en rq =
     map_option (\<lambda>q. if values_get q ''interval'' = [] then values_set ''interval'' ''monthly'' q else q)
       (if values_get (pq_query rq) ''package'' \<noteq> [] then Some (pq_query rq)
        else case pending_of sv en rq of
            None \<Rightarrow> None
          | Some pv \<Rightarrow> if values_get pv ''package'' = [] then None else Some pv)"

definition checkout_plan :: "Server \<Rightarrow> url_values \<Rightarrow> Plan" where
  "checkout_plan sv q =
     (let plan = planFromValues q in
      case ct_package (sv_catalog sv) (pl_package plan) of (pkg, ok) \<Rightarrow>
        if ok \<and> pk_store_scope pkg \<noteq> ct_scope_explicit (sv_catalog sv) then plan\<lparr>pl_stores := []\<rparr> else plan)"

definition pending_plan :: "Plan \<Rightarrow> string \<Rightarrow> string \<Rightarrow> url_values" where
  "pending_plan plan returnTo invite =
     (if invite \<noteq> [] then values_set ''invite'' invite else id) (values_set ''return_to'' returnTo (planValues plan))"

definition checkout_confirm :: "Server \<Rightarrow> portal_env \<Rightarrow> portal_request \<Rightarrow> ResolvedPlan \<Rightarrow> string \<Rightarrow> string \<Rightarrow> bool \<Rightarrow> portal_session \<Rightarrow>
    portal_state \<Rightarrow> portal_reply \<times> portal_state" where
  "checkout_confirm sv en rq resolved invite returnTo change sess s =
     (let opt = \<lparr>op_status = 200, op_resolved = resolved, op_invite = invite, op_return_to = returnTo, op_change = change, op_err_msg = [],
                 op_has_plan = False, op_current = None\<rparr>
      in if change then
           (case currentIntervalFor sv sess (rz_plan resolved) s of
              (Inl (status, msg), s') \<Rightarrow> (fail_page sv en rq status msg, s')
            | (Inr (p, current), s') \<Rightarrow> (renderConfirm sv en rq sess (opt\<lparr>op_resolved := resolved\<lparr>rz_plan := p\<rparr>, op_current := Some current\<rparr>), s'))
         else
           (case hasActiveStripePlan (ps_account_id sess) s of
              (Inl _, s') \<Rightarrow> (fail_page sv en rq 500 tryAgainMsg, s')
            | (Inr has, s') \<Rightarrow> (renderConfirm sv en rq sess (opt\<lparr>op_has_plan := has\<rparr>), s')))"

definition checkoutGet :: "Server \<Rightarrow> handler" where
  "checkoutGet sv en rq s0 =
     (case checkout_query sv en rq of
        None \<Rightarrow> (redirect 302 (sv_pricing_url sv), s0)
      | Some q \<Rightarrow>
          let returnTo = validReturnTo (values_get q ''return_to'') (sv_pricing_url sv);
              invite = values_get q ''invite'';
              change = (values_get q ''change'' = ''1'')
          in case refuseHistoryOffSale sv en rq (planFromValues q) of
               Some reply \<Rightarrow> (reply, s0)
             | None \<Rightarrow>
                 (case validated sv (invite \<noteq> []) (checkout_plan sv q) of
                    Inl (ErrStoresUnavailable _) \<Rightarrow> (fail_page sv en rq 503 storesUnavailableMsg, s0)
                  | Inl e \<Rightarrow>
                      (with_cookies [ClearPending (sv_sessions sv)] (render sv 400 ''error.html'' ((pageFor sv None ''That plan does not work'')
                         \<lparr>pg_error := checkoutError sv e, pg_data := ErrorData returnTo ''Back to plans''\<rparr>)), s0)
                  | Inr resolved \<Rightarrow>
                      let pending = (if change then values_set ''change'' ''1'' else id) (pending_plan (rz_plan resolved) returnTo invite);
                          keep = with_cookies [SetPending (sv_sessions sv) (pe_now en) pending pendingTTL]
                      in (case current_session sv en rq s0 of
                            (Inl errSuspended, s) \<Rightarrow> (keep (fail_page sv en rq 403 suspendedMsg), s)
                          | (Inl errNoSession, s) \<Rightarrow> (keep (renderLogin sv 200 [] (Some pending)), s)
                          | (Inr (sess, _), s) \<Rightarrow>
                              (case checkout_confirm sv en rq resolved invite returnTo change sess s of (reply, s') \<Rightarrow> (keep reply, s')))))"

section \<open>Buying it\<close>

definition checkout_create :: "Server \<Rightarrow> portal_env \<Rightarrow> portal_request \<Rightarrow> Checkout \<Rightarrow> stripe_api \<Rightarrow> portal_session \<Rightarrow> Account \<Rightarrow> ResolvedPlan \<Rightarrow>
    portal_state \<Rightarrow> portal_reply \<times> portal_state" where
  "checkout_create sv en rq c api sess a resolved s0 =
     (let invite = FormValue rq ''invite'';
          request = \<lparr>rq_account = a, rq_plan = rz_plan resolved, rq_invite = invite, rq_resolved = Some resolved\<rparr>
      in case po_checkout (Checkout_Create c api (pe_now en) request) s0 of
           (Inr cs, s) \<Rightarrow>
             (let pending = (if invite \<noteq> [] then values_set ''invite'' invite else id)
                    (values_set ''cs'' (cs_id cs) (values_set ''return_to'' (return_to sv rq) (planValues (rz_plan resolved))))
              in (with_cookies [SetPending (sv_sessions sv) (pe_now en) pending pendingTTL] (redirect 303 (cs_url cs)), s))
         | (Inl e, s) \<Rightarrow>
             if e = ErrHasPlan then (fail_page sv en rq 409 alreadyHasPlanMsg, s)
             else (renderConfirm sv en rq sess \<lparr>op_status = 502, op_resolved = resolved, op_invite = invite, op_return_to = return_to sv rq, op_change = False,
                     op_err_msg = checkoutError sv e, op_has_plan = False, op_current = None\<rparr>, s))"

text \<open>\<open>Checkout\<close> holds the same Stripe client as the server, so it is set only when Stripe is.\<close>

definition checkoutPost :: "Server \<Rightarrow> session_handler" where
  "checkoutPost sv sess a en rq s0 =
     (case (sv_checkout sv, sv_stripe sv) of
        (Some c, Some st) \<Rightarrow>
          (case hasActiveStripePlan (a_id a) s0 of
             (Inl _, s1) \<Rightarrow> (fail_page sv en rq 500 tryAgainMsg, s1)
           | (Inr has, s1) \<Rightarrow>
               if has then (fail_page sv en rq 409 alreadyHasPlanMsg, s1)
               else (case refuseHistoryOffSale sv en rq (planFromValues (pq_post_form rq)) of
                   Some reply \<Rightarrow> (reply, s1)
                 | None \<Rightarrow>
                     (case validated sv (FormValue rq ''invite'' \<noteq> []) (planFromValues (pq_post_form rq)) of
                        Inl e \<Rightarrow> (fail_page sv en rq (planErrorStatus e) (checkoutError sv e), s1)
                      | Inr resolved \<Rightarrow> checkout_create sv en rq c (st_api st) sess a resolved s1)))
      | _ \<Rightarrow> (fail_page sv en rq 503 billingOffMsg, s0))"

definition success :: "Server \<Rightarrow> session_handler" where
  "success sv sess a en rq s0 =
     (let returnTo = (case pending_of sv en rq of None \<Rightarrow> sv_pricing_url sv | Some pv \<Rightarrow> validReturnTo (values_get pv ''return_to'') (sv_pricing_url sv)) in
      case po_store (ListEntitlements (a_id a)) s0 of (ents, s1) \<Rightarrow>
        (case po_store (ListKeys (a_id a)) s1 of (keys, s2) \<Rightarrow>
           (with_cookies [ClearPending (sv_sessions sv)] (render sv 200 ''success.html'' ((pageFor sv (Some sess) ''Payment received'')
              \<lparr>pg_data := SuccessPage
                 \<lparr>sd_entitlements = fst (describe_all sv (filter IsActiveStripePlan (case ents of Inl _ \<Rightarrow> [] | Inr es \<Rightarrow> es)) newSiteLookup),
                  sd_has_keys = list_ex (\<lambda>k. k_revoked_at k = None) (case keys of Inl _ \<Rightarrow> [] | Inr ks \<Rightarrow> ks), sd_return_to = returnTo\<rparr>\<rparr>)), s2)))"

definition values_del :: "string \<Rightarrow> url_values \<Rightarrow> url_values" where
  "values_del k v = AList.delete k v"

definition abandon_pending :: "Server \<Rightarrow> url_values \<Rightarrow> portal_state \<Rightarrow> portal_state" where
  "abandon_pending sv pv s =
     (if values_get pv ''invite'' \<noteq> [] \<and> values_get pv ''cs'' \<noteq> [] then
        (case (sv_checkout sv, sv_stripe sv) of
           (Some _, Some st) \<Rightarrow> snd (po_checkout (Abandon (st_api st) (values_get pv ''cs'') (values_get pv ''invite'')) s)
         | _ \<Rightarrow> s)
      else s)"

definition cancel :: "Server \<Rightarrow> handler" where
  "cancel sv en rq s0 =
     (let (returnTo, cookies, s1) =
            (case pending_of sv en rq of
               None \<Rightarrow> (sv_pricing_url sv, [], s0)
             | Some pv \<Rightarrow>
                 (validReturnTo (values_get pv ''return_to'') (sv_pricing_url sv),
                  [SetPending (sv_sessions sv) (pe_now en) (values_del ''cs'' (if values_get pv ''invite'' \<noteq> [] then values_del ''invite'' pv else pv)) pendingTTL],
                  abandon_pending sv pv s0))
      in case current_session sv en rq s1 of (cur, s2) \<Rightarrow>
           (with_cookies cookies (render sv 200 ''cancel.html''
              ((pageFor sv (case cur of Inl _ \<Rightarrow> None | Inr (sess, _) \<Rightarrow> Some sess) ''Checkout cancelled'')\<lparr>pg_data := ErrorData returnTo ''Back to plans''\<rparr>)), s2))"


section \<open>A plan survives the sign-in\<close>

lemma listValues_set: "listValues (values_set k x v) j = (if j = k then SplitList x else listValues v j)"
  by (simp add: listValues_def values_set_def update_conv)

lemma map_of_sort: "distinct (map fst v) \<Longrightarrow> map_of (sort_key fst v) = map_of v"
  by (metis distinct_map distinct_sort set_sort map_of_inject_set)

lemma pending_plan_ok: "values_ok (pending_plan p returnTo invite)"
  by (simp add: pending_plan_def planValues_def values_ok_set values_ok_Nil)

lemma pending_plan_fields:
  assumes "normal_plan p" "list_all (\<lambda>x. comma \<notin> set x) (pl_games p @ pl_stores p @ pl_mode_addons p)"
  shows "planFromValues (sealed_values (pending_plan p returnTo invite) t pur) = p"
    "values_get (sealed_values (pending_plan p returnTo invite) t pur) ''return_to'' = returnTo"
    "values_get (sealed_values (pending_plan p returnTo invite) t pur) ''invite'' = invite"
    "values_get (sealed_values (pending_plan p returnTo invite) t pur) ''change'' = []"
proof -
  have l: "SplitList (join '','' xs) = xs" if "name_list xs" "list_all (\<lambda>x. comma \<notin> set x) xs" for xs
    using that by (intro SplitList_join) (auto simp: name_list_def list_all_iff)
  show "planFromValues (sealed_values (pending_plan p returnTo invite) t pur) = p"
    using assms l by (simp add: planFromValues_def sealed_values_def pending_plan_def planValues_def listValues_set values_get_set normal_plan_def)
qed (simp_all add: sealed_values_def pending_plan_def planValues_def values_get_set, simp_all add: values_get_def)


lemma pending_of_set:
  assumes "values_ok v" "is_int64 (unix (now + pendingTTL))" "pe_now en < unix (now + pendingTTL) * second"
    "pq_cookies rq = [(PendingName, ck_value (SetPending (sv_sessions sv) now v pendingTTL))]"
  shows "pending_of sv en rq = Some (sort_key fst (sealed_values v (now + pendingTTL) PurposePending))"
  using Open_Seal [OF assms(1,2), of "sv_sessions sv" "pe_now en" PurposePending PurposePending] assms(3)
  by (simp add: pending_of_def Pending_def assms(4) request_cookie_def SetPending_def cookie_def purpose_string_def)

text \<open>
  C18: The plan that a reader picked before signing in is the plan the checkout page resumes with: until the sealed cookie
  expires, reading it back gives the normalized plan, its return target and its invite, and no change flag.
\<close>

theorem pending_plan_resumes:
  assumes "Normalize cat p0 = Inr p" "list_all (\<lambda>x. comma \<notin> set x) (pl_games p @ pl_stores p @ pl_mode_addons p)" "pl_package p \<noteq> []" "pl_interval p \<noteq> []"
    "is_int64 (unix (now + pendingTTL))" "pe_now en < unix (now + pendingTTL) * second" "values_get (pq_query rq) ''package'' = []"
    "pq_cookies rq = [(PendingName, ck_value (SetPending (sv_sessions sv) now (pending_plan p returnTo invite) pendingTTL))]"
  shows "\<exists>q. checkout_query sv en rq = Some q \<and> planFromValues q = p \<and> values_get q ''return_to'' = returnTo \<and> values_get q ''invite'' = invite \<and> values_get q ''change'' = []"
proof -
  let ?v = "sealed_values (pending_plan p returnTo invite) (now + pendingTTL) PurposePending"
  have n: "normal_plan p" by (rule Normalize_Inr [OF assms(1)]) auto
  note f = pending_plan_fields [OF n assms(2), of returnTo invite "now + pendingTTL" PurposePending]
  have ok: "distinct (map fst ?v)" using values_ok_set [OF values_ok_set [OF pending_plan_ok]] by (simp add: values_ok_def sealed_values_def)
  have "planFromValues (sort_key fst ?v) = p" using f(1) by (simp add: planFromValues_def listValues_def values_get_def map_of_sort [OF ok])
  moreover have "values_get w ''package'' = pl_package (planFromValues w)" "values_get w ''interval'' = pl_interval (planFromValues w)" for w
    by (simp_all add: planFromValues_def)
  ultimately show ?thesis using f(2,3,4) assms(3,4,7) pending_of_set [OF pending_plan_ok assms(5,6,8)] values_get_sort [OF ok] by (simp add: checkout_query_def)
qed

theorem pending_plan_resumes_witness:
  "\<exists>p q. Normalize sample_catalog sample_choice = Inr p \<and>
     checkout_query demo_server (demo_env 160) (demo_request [] [(PendingName, ck_value (SetPending sample_codec 150 (pending_plan p ''https://mtgban.com/x'' ''inv'') pendingTTL))] []) = Some q \<and>
     planFromValues q = p \<and> values_get q ''invite'' = ''inv''"
proof -
  let ?p = "\<lparr>pl_package = ''pro'', pl_interval = ''month'', pl_games = [''lorcana'', ''magic''], pl_stores = [''ck'', ''tcg''], pl_mode_addons = [''buylist_mode'']\<rparr>"
  let ?rq = "demo_request [] [(PendingName, ck_value (SetPending sample_codec 150 (pending_plan ?p ''https://mtgban.com/x'' ''inv'') pendingTTL))] []"
  have t: "is_int64 (unix (150 + pendingTTL))" "pe_now (demo_env 160) < unix (150 + pendingTTL) * second"
    by (simp_all add: is_int64_def unix_def pendingTTL_def demo_env_def)
  have "\<exists>q. checkout_query demo_server (demo_env 160) ?rq = Some q \<and> planFromValues q = ?p \<and> values_get q ''return_to'' = ''https://mtgban.com/x'' \<and> values_get q ''invite'' = ''inv'' \<and>
      values_get q ''change'' = []"
    by (rule pending_plan_resumes [OF sample_normal _ _ _ t]) (simp_all add: demo_request_def values_get_def demo_server_def)
  then show ?thesis using sample_normal by (elim exE conjE) (intro exI conjI)
qed

end
