(* ===== verification/Portal_Account.thy ===== *)
theory Portal_Account
  imports Portal_Checkout
begin

text \<open>
  \<open>src/portal/account.go\<close> and \<open>reminders.go\<close>: the account page, minting and revoking keys, Stripe's customer portal, plan
  changes, and the mails sent before a trial ends.
\<close>

section \<open>The account page\<close>

definition keyCreatedListsFailedMsg :: string where
  "keyCreatedListsFailedMsg = ''Your key was created. The rest of this page could not be loaded; reload to see your access and keys.''"

text \<open>\<open>URL.Query\<close> drops the parts that do not parse.\<close>

definition url_query :: "URL \<Rightarrow> url_values" where
  "url_query u = foldl values_add [] (concat (map (\<lambda>p. case parse_part p of Some kv \<Rightarrow> kv | None \<Rightarrow> []) (split_on CHR ''&'' (ur_raw_query u))))"

definition mergeQuery :: "string \<Rightarrow> url_values \<Rightarrow> string" where
  "mergeQuery pricing q =
     (case Parse pricing of
        None \<Rightarrow> pricing @ ''?'' @ values_encode q
      | Some u \<Rightarrow> URL_String (u\<lparr>ur_raw_query := values_encode (foldl (\<lambda>m (k, vs). AList.update k vs m) (url_query u) q)\<rparr>))"

definition key_view :: "Key \<Rightarrow> keyView" where
  "key_view k = \<lparr>kv_id = k_id k, kv_prefix = k_prefix k, kv_kind = k_kind k, kv_label = k_label k, kv_created = k_created_at k, kv_last_used = k_last_used_at k\<rparr>"

text \<open>The loop over the active rows: their views, the last trial's end, and the first Stripe row's change link.\<close>

fun account_rows :: "Server \<Rightarrow> Entitlement list \<Rightarrow> string \<Rightarrow> time option \<Rightarrow> siteLookup \<Rightarrow> entitlementView list \<times> string \<times> time option" where
  "account_rows sv [] url ends l = ([], url, ends)"
| "account_rows sv (e # es) url ends l =
     (case describeEntitlement sv e l of (v, l1) \<Rightarrow>
        let ends' = (if e_source e = SourceTrial \<and> e_valid_until e \<noteq> None then e_valid_until e else ends) in
        (case (if e_source e = SourceStripe \<and> url = [] \<and> sv_stripe sv \<noteq> None
               then (case prefillQuery sv e l1 of (q, l2) \<Rightarrow> (mergeQuery (sv_pricing_url sv) q, l2)) else (url, l1)) of (url', l2) \<Rightarrow>
           (case account_rows sv es url' ends' l2 of (vs, url'', ends'') \<Rightarrow> (v # vs, url'', ends''))))"

definition account_return_to :: "Server \<Rightarrow> portal_env \<Rightarrow> portal_request \<Rightarrow> string" where
  "account_return_to sv en rq =
     (case pending_of sv en rq of
        None \<Rightarrow> []
      | Some pv \<Rightarrow> if values_get pv ''return_to'' = [] then [] else validReturnTo (values_get pv ''return_to'') (sv_pricing_url sv))"

definition rows_of :: "access_error + 'a list \<Rightarrow> 'a list" where
  "rows_of r = (case r of Inl _ \<Rightarrow> [] | Inr xs \<Rightarrow> xs)"

definition renderAccount :: "Server \<Rightarrow> portal_env \<Rightarrow> portal_request \<Rightarrow> int \<Rightarrow> portal_session \<Rightarrow> Account \<Rightarrow> string \<Rightarrow> string \<Rightarrow> string \<Rightarrow>
    portal_state \<Rightarrow> portal_reply \<times> portal_state" where
  "renderAccount sv en rq status sess a newKey notice errMsg s0 =
     (case po_store (ListEntitlements (a_id a)) s0 of (ents, s1) \<Rightarrow>
      case po_store (ListKeys (a_id a)) s1 of (keys, s2) \<Rightarrow>
      case po_store (SummarizeUsage (monthStart (pe_now en)) (pe_now en + second) (a_id a)) s2 of (usage, s3) \<Rightarrow>
      case account_rows sv (filter (\<lambda>e. ActiveAt e (pe_now en)) (rows_of ents)) [] None newSiteLookup of (views, changeURL, ends) \<Rightarrow>
        let d = \<lparr>ac_account = a, ac_entitlements = views, ac_ents_failed = isl ents,
                 ac_keys = map key_view (filter (\<lambda>k. k_revoked_at k = None) (rows_of keys)), ac_keys_failed = isl keys, ac_new_key = newKey,
                 ac_usage = rows_of usage, ac_month = pe_now en, ac_has_stripe = (a_stripe_customer_id a \<noteq> [] \<and> sv_stripe sv \<noteq> None),
                 ac_change_url = changeURL, ac_trial_ends = ends, ac_return_to = account_return_to sv en rq\<rparr>;
            broken = (isl ents \<or> isl keys) \<and> errMsg = [];
            msg = (if broken then if newKey \<noteq> [] then keyCreatedListsFailedMsg else tryAgainMsg else errMsg);
            code = (if broken \<and> newKey = [] then 500 else status)
        in (render sv code ''account.html'' ((pageFor sv (Some sess) ''Your API account'')\<lparr>pg_notice := notice, pg_error := msg, pg_data := AccountPage d\<rparr>), s3))"

definition account :: "Server \<Rightarrow> session_handler" where
  "account sv sess a en rq = renderAccount sv en rq 200 sess a [] (noticeFor rq) []"

section \<open>Keys\<close>

definition keysPerHour :: int where "keysPerHour = 10"
definition keyAttemptsPerHour :: int where "keyAttemptsPerHour = 60"
definition maxActiveKeys :: nat where "maxActiveKeys = 5"

text \<open>\<open>[]rune(s)\<close>, each rune as its own encoding; a byte that starts no valid one is read as U+FFFD.\<close>

definition rune_length :: "string \<Rightarrow> nat" where
  "rune_length s =
     (let b = map (\<lambda>c. of_char c :: int) s;
          cont = (\<lambda>i. i < length b \<and> 128 \<le> b ! i \<and> b ! i < 192);
          second_in = (\<lambda>lo hi. 1 < length b \<and> lo \<le> b ! 1 \<and> b ! 1 \<le> hi)
      in case b of
           [] \<Rightarrow> 0
         | x # _ \<Rightarrow>
             if x < 128 then 1
             else if 194 \<le> x \<and> x \<le> 223 \<and> cont 1 then 2
             else if cont 2 \<and> (if x = 224 then second_in 160 191 else if x = 237 then second_in 128 159 else 225 \<le> x \<and> x \<le> 239 \<and> cont 1) then 3
             else if cont 2 \<and> cont 3 \<and> (if x = 240 then second_in 144 191 else if x = 244 then second_in 128 143 else 241 \<le> x \<and> x \<le> 243 \<and> cont 1) then 4
             else 0)"

function runes :: "string \<Rightarrow> string list" where
  "runes [] = []"
| "runes (c # cs) =
     (case rune_length (c # cs) of
        0 \<Rightarrow> [CHR 0xEF, CHR 0xBF, CHR 0xBD] # runes cs
      | Suc n \<Rightarrow> (c # take n cs) # runes (drop n cs))"
  by pat_completeness auto
termination by (relation "measure length") auto

definition key_label :: "portal_request \<Rightarrow> string" where
  "key_label rq =
     (let label = trim_space (FormValue rq ''label'') in
      if 64 < length (runes label) then concat (take 64 (runes label)) else label)"

definition key_refused :: "Server \<Rightarrow> portal_session \<Rightarrow> Account \<Rightarrow> portal_env \<Rightarrow> portal_request \<Rightarrow> int \<Rightarrow> string \<Rightarrow> portal_state \<Rightarrow> portal_reply \<times> portal_state" where
  "key_refused sv sess a en rq status msg = renderAccount sv en rq status sess a [] [] msg"

definition mint_key :: "Server \<Rightarrow> portal_session \<Rightarrow> Account \<Rightarrow> portal_env \<Rightarrow> portal_request \<Rightarrow> KeyKind \<Rightarrow> portal_state \<Rightarrow> portal_reply \<times> portal_state" where
  "mint_key sv sess a en rq kind s0 =
     (case po_allow (''keys:'' @ format_int (a_id a)) keysPerHour (pe_now en) s0 of (ok, s1) \<Rightarrow>
        if \<not> ok then key_refused sv sess a en rq 429 ''Too many keys created in the last hour. Try again later.'' s1
        else (case po_store (CreateKey (pe_key_rand en) (a_id a) (key_label rq) kind) s1 of
            (Inl _, s2) \<Rightarrow> key_refused sv sess a en rq 500 tryAgainMsg s2
          | (Inr (plain, k), s2) \<Rightarrow>
              renderAccount sv en rq 200 sess a plain [] [] (snd (po_send en (a_email a) (KeyCreatedMail (k_prefix k) (k_label k)) s2))))"

definition createKey :: "Server \<Rightarrow> session_handler" where
  "createKey sv sess a en rq s0 =
     (case po_allow (''keyattempts:'' @ format_int (a_id a)) keyAttemptsPerHour (pe_now en) s0 of (ok, s1) \<Rightarrow>
        if \<not> ok then key_refused sv sess a en rq 429 ''Too many key requests in the last hour. Try again later.'' s1
        else if key_label rq = [] then
          key_refused sv sess a en rq 400 ''Give the key a label, such as the machine or spreadsheet that will use it.'' s1
        else (case po_store (ListKeys (a_id a)) s1 of
            (Inl _, s2) \<Rightarrow> key_refused sv sess a en rq 500 tryAgainMsg s2
          | (Inr keys, s2) \<Rightarrow>
              if length (filter (\<lambda>k. k_revoked_at k = None) keys) \<ge> maxActiveKeys then
                key_refused sv sess a en rq 400 (''This account already has '' @ format_int (int maxActiveKeys) @ '' keys. Revoke one you no longer use before creating another.'') s2
              else (case po_store (ListEntitlements (a_id a)) s2 of
                  (Inl _, s3) \<Rightarrow> key_refused sv sess a en rq 500 tryAgainMsg s3
                | (Inr ents, s3) \<Rightarrow> mint_key sv sess a en rq (KeyKindFor ents) s3)))"

definition revokeKey :: "Server \<Rightarrow> session_handler" where
  "revokeKey sv sess a en rq s0 =
     (case parse_int (path_value rq ''id'') of (kid, ok) \<Rightarrow>
        if \<not> ok then (http_not_found, s0)
        else (case po_store (RevokeKey kid (a_id a)) s0 of
            (Inr k, s1) \<Rightarrow> (redirect 302 ''/account?notice=revoked'', po_notify (k_hash k) s1)
          | (Inl e, s1) \<Rightarrow>
              if e = ErrNotFound then (http_not_found, s1) else renderAccount sv en rq 500 sess a [] [] tryAgainMsg s1))"

section \<open>Billing\<close>

definition portal_link :: "Server \<Rightarrow> session_handler" where
  "portal_link sv sess a en rq s =
     (case sv_stripe sv of
        None \<Rightarrow> (fail_page sv en rq 503 billingOffMsg, s)
      | Some st \<Rightarrow>
          (case PortalURL (st_api st) a (sv_public_url sv @ ''/account'') of
             Inr u \<Rightarrow> (redirect 303 u, s)
           | Inl e \<Rightarrow>
               if e = ErrNoCustomer then renderAccount sv en rq 400 sess a [] [] ''This account has no billing on file yet. Pick a plan first.'' s
               else renderAccount sv en rq 502 sess a [] [] tryAgainMsg s))"

definition change_failed :: "Server \<Rightarrow> portal_env \<Rightarrow> portal_request \<Rightarrow> portal_session \<Rightarrow> Plan \<Rightarrow> ResolvedPlan option \<Rightarrow> billing_error \<Rightarrow> portal_reply" where
  "change_failed sv en rq sess plan resolved e =
     (if IsValidation e \<or> (case e of ErrStoresUnavailable _ \<Rightarrow> True | _ \<Rightarrow> False) then fail_page sv en rq (planErrorStatus e) (checkoutError sv e)
      else renderConfirm sv en rq sess
        \<lparr>op_status = (if sv_payment_failure sv e then 402 else 502),
         op_resolved = (case resolved of Some r \<Rightarrow> r | None \<Rightarrow> \<lparr>rz_plan = plan, rz_scope = [], rz_modes = [], rz_implied = [], rz_names = []\<rparr>),
         op_invite = [], op_return_to = sv_pricing_url sv, op_change = True, op_err_msg = checkoutError sv e, op_has_plan = False, op_current = None\<rparr>)"

definition changePlan :: "Server \<Rightarrow> session_handler" where
  "changePlan sv sess a en rq s0 =
     (case (sv_stripe sv, sv_reconcile sv) of
        (Some st, Some rec) \<Rightarrow>
          (case refuseHistoryOffSale sv en rq (planFromValues (pq_post_form rq)) of
             Some reply \<Rightarrow> (reply, s0)
           | None \<Rightarrow>
               (case Validate (sv_catalog sv) (sv_games sv) True (planFromValues (pq_post_form rq)) of
                  Inl e \<Rightarrow> (fail_page sv en rq 400 (checkoutError sv e), s0)
                | Inr plan \<Rightarrow>
                    (case subscriptionFor (a_id a) s0 of
                       (Inl (status, msg), s1) \<Rightarrow> (fail_page sv en rq status msg, s1)
                     | (Inr sub_id, s1) \<Rightarrow>
                         (case po_billing (pe_now en)
                                 (ChangePlan (st_get st) (sa_prices (st_api st)) (st_update st) (sv_catalog sv) (sv_stores sv) (sv_games sv) a sub_id plan rec) s1 of
                            (res, s2) \<Rightarrow>
                              let s3 = (case cr_sent res of None \<Rightarrow> s2 | Some upd \<Rightarrow> s2\<lparr>po_updates := po_updates s2 @ [(sub_id, upd)]\<rparr>) in
                              (case cr_error res of
                                 None \<Rightarrow> (redirect 302 ''/account?notice=plan'', s3)
                               | Some e \<Rightarrow>
                                   if e = ErrChangeNotReconciled then (redirect 302 ''/account?notice=plan_pending'', s3)
                                   else (change_failed sv en rq sess plan (cr_resolved res) e, s3))))))
      | _ \<Rightarrow> (fail_page sv en rq 503 billingOffMsg, s0))"

section \<open>Reminders\<close>

definition reminderLead :: duration where "reminderLead = 3 * 24 * hour"

definition trialEntitlementEnded :: "Entitlement list \<Rightarrow> time \<Rightarrow> bool" where
  "trialEntitlementEnded ents now \<longleftrightarrow>
     list_ex (\<lambda>e. e_source e = SourceTrial) ents \<and> \<not> list_ex (\<lambda>e. e_source e = SourceTrial \<and> ActiveAt e now) ents"

text \<open>Whether the mail of one trial goes out is the argument \<open>sends\<close>.\<close>

definition remind_trial :: "Server \<Rightarrow> (int \<Rightarrow> bool) \<Rightarrow> time \<Rightarrow> Trial \<Rightarrow> portal_state \<Rightarrow> portal_state" where
  "remind_trial sv sends now t s0 =
     (case po_store (GetAccount (tr_account_id t)) s0 of
        (Inl _, s1) \<Rightarrow> s1
      | (Inr a, s1) \<Rightarrow>
          if a_status a \<noteq> AccountActive then s1
          else (case po_store (ListEntitlements (tr_account_id t)) s1 of
              (Inl _, s2) \<Rightarrow> s2
            | (Inr ents, s2) \<Rightarrow>
                if HasActiveStripePlan ents \<or> trialEntitlementEnded ents now then s2
                else (case po_store (MarkTrialReminded (tr_id t) now) s2 of
                    (Inl _, s3) \<Rightarrow> s3
                  | (Inr _, s3) \<Rightarrow> if sends (tr_id t) then s3\<lparr>po_mails := po_mails s3 @ [(a_email a, TrialEndingMail (tr_ends_at t))]\<rparr> else s3)))"

definition SendTrialReminders :: "Server \<Rightarrow> (int \<Rightarrow> bool) \<Rightarrow> time \<Rightarrow> portal_state \<Rightarrow> portal_state" where
  "SendTrialReminders sv sends now s0 =
     (case po_store (TrialsToRemind now (now + reminderLead)) s0 of
        (Inl _, s1) \<Rightarrow> s1
      | (Inr due, s1) \<Rightarrow> foldl (\<lambda>s t. remind_trial sv sends now t s) s1 due)"


section \<open>Lemmas: keys\<close>

lemma looks_Let [looks_intros]: "looks (f v) \<Longrightarrow> looks (\<lambda>s. let x = v in f x s)"
  by simp

lemma reads_if [looks_intros]: "reads f \<Longrightarrow> reads g \<Longrightarrow> reads (if b then f else g)"
  by simp

lemma looks_renderAccount [looks_intros]: "looks (renderAccount sv en rq status sess a newKey notice msg)"
  unfolding renderAccount_def by (intro looks_intros)

text \<open>What a run does to the keys of the store: nothing, or one more key, which it returns.\<close>

lemma insert_key_effect:
  assumes "insert_key aid hash prefix label kind d = (r, d')"
  shows "case r of Inl _ \<Rightarrow> db_keys d' = db_keys d
    | Inr k \<Rightarrow> db_keys d' = db_keys d @ [k] \<and> k_account_id k = aid \<and> k_label k = label \<and> k_revoked_at k = None \<and> k_hash k = hash"
proof (cases rule: stmt_cases [of "\<lambda>d.
       let row = \<lparr>k_id = db_key_seq d, k_account_id = aid, k_hash = hash, k_prefix = prefix, k_label = label,
                  k_kind = kind, k_created_at = db_now d, k_last_used_at = None, k_revoked_at = None\<rparr>;
           d' = d\<lparr>db_key_seq := db_key_seq d + 1\<rparr>
       in if \<not> key_kind_valid kind then (Inl CheckViolation, d')
          else if hash \<in> set (map k_hash (db_keys d)) \<or> prefix \<in> set (map k_prefix (filter (\<lambda>k. k_revoked_at k = None) (db_keys d)))
          then (Inl UniqueViolation, d')
          else if aid \<notin> set (map ar_id (db_accounts d)) then (Inl ForeignKeyViolation, d')
          else (Inr row, d'\<lparr>db_keys := db_keys d @ [row]\<rparr>)" d])
  case (error msg fs)
  then show ?thesis using assms by (auto simp: insert_key_def)
next
  case (runs fs)
  then show ?thesis using assms unfolding insert_key_def by (auto simp: Let_def split: if_splits)
qed

lemma GenerateKey_hash: "GenerateKey kind buf = Inr (plain, hash, prefix) \<Longrightarrow> hash = HashKey plain \<and> plain \<noteq> []"
  by (auto simp: GenerateKey_def Let_def split: option.splits if_splits)

lemma create_key_loop_effect:
  "create_key_loop n rands aid label kind d = (r, d') \<Longrightarrow>
   case r of Inl _ \<Rightarrow> db_keys d' = db_keys d
   | Inr (plain, k) \<Rightarrow> db_keys d' = db_keys d @ [k] \<and> k_account_id k = aid \<and> k_label k = label \<and> k_revoked_at k = None \<and> k_hash k = HashKey plain \<and> plain \<noteq> []"
proof (induction n arbitrary: d)
  case 0
  then show ?case by (auto simp: fail_def)
next
  case (Suc n)
  show ?case
  proof (cases "GenerateKey kind (rands n)")
    case (Inl e)
    then show ?thesis using Suc.prems by auto
  next
    case (Inr g)
    obtain plain hash prefix where g: "g = (plain, hash, prefix)" by (metis prod_cases3)
    obtain r1 d1 where i: "insert_key aid hash prefix label kind d = (r1, d1)" by fastforce
    note e = insert_key_effect [OF i] GenerateKey_hash [OF Inr [unfolded g]]
    show ?thesis
    proof (cases r1)
      case (Inl err)
      then show ?thesis using Suc Inr g i e by (cases "err = UniqueViolation") (auto split: sum.splits)
    next
      case r1: (Inr k)
      then show ?thesis using Suc.prems Inr g i e by auto
    qed
  qed
qed

lemmas CreateKey_effect = create_key_loop_effect [of createKeyAttempts, folded CreateKey_def]

lemma looks_keys: "looks f \<Longrightarrow> f s = (r, s') \<Longrightarrow> db_keys (po_db s') = db_keys (po_db s)"
  using looksD [of f s r s'] by (auto simp: po_same_def)

lemma po_allow_result:
  "po_allow key limit now s = (ok, s1) \<Longrightarrow> ok = fst (allow (po_limit s) key limit now) \<and> s1 = s\<lparr>po_limit := snd (allow (po_limit s) key limit now)\<rparr>"
  by (auto simp: po_allow_def split: prod.splits)

lemma runes_bounds: "length s \<le> 4 * length (runes s)" "c \<in> set (runes s) \<Longrightarrow> length c \<le> 4"
proof -
  have le: "rune_length s \<le> 4" for s by (simp add: rune_length_def Let_def split: list.split)
  show "length s \<le> 4 * length (runes s)"
  proof (induction s rule: runes.induct)
    case (2 c cs)
    show ?case using 2 le [of "c # cs"] by (auto split: nat.split)
  qed simp
  show "c \<in> set (runes s) \<Longrightarrow> length c \<le> 4"
  proof (induction s rule: runes.induct)
    case (2 c' cs)
    then show ?case using le [of "c' # cs"] by (auto split: nat.splits)
  qed simp
qed

lemma key_label_short: "length (key_label rq) \<le> 256"
proof -
  define l where "l = trim_space (FormValue rq ''label'')"
  have "length (concat xs) \<le> 4 * length xs" if "\<forall>c \<in> set xs. length c \<le> 4" for xs :: "string list" using that by (induction xs) auto
  then have "length (concat (take 64 (runes l))) \<le> 4 * length (take 64 (runes l))" using runes_bounds(2) by (metis in_set_takeD)
  then show ?thesis using runes_bounds(1) [of l] by (auto simp: key_label_def Let_def l_def [symmetric])
qed


section \<open>Minting keys\<close>

definition active_keys :: "int \<Rightarrow> db \<Rightarrow> nat" where
  "active_keys aid d = length (filter (\<lambda>k. k_account_id k = aid \<and> k_revoked_at k = None) (db_keys d))"

text \<open>The plaintext a reply shows.\<close>

definition shown_key :: "portal_reply \<Rightarrow> string" where
  "shown_key reply =
     (case rp_body reply of HtmlPage _ p \<Rightarrow> (case pg_data p of AccountPage d \<Rightarrow> ac_new_key d | _ \<Rightarrow> []) | _ \<Rightarrow> [])"

lemma shown_key_renderAccount: "shown_key (fst (renderAccount sv en rq status sess a newKey notice msg s)) \<in> {[], newKey}"
  by (simp add: renderAccount_def shown_key_def render_def http_error_def Let_def case_prod_beta)

lemma ListKeys_active:
  assumes "po_store (ListKeys aid) s = (Inr keys, s')"
  shows "length (filter (\<lambda>k. k_revoked_at k = None) keys) = active_keys aid (po_db s)"
proof (cases rule: stmt_cases [of "\<lambda>d. (Inr (sort_key k_id (filter (\<lambda>k. k_account_id k = aid) (db_keys d))), d)" "po_db s"])
  case (error msg fs)
  then show ?thesis using assms by (simp add: po_store_def ListKeys_def)
next
  case (runs fs)
  then have "keys = sort_key k_id (filter (\<lambda>k. k_account_id k = aid) (db_keys (po_db s)))" using assms by (auto simp: po_store_def ListKeys_def)
  then show ?thesis
    by (simp add: active_keys_def filter_sort conj_commute)
qed

text \<open>One more key for the account, within the hourly limit that \<open>l\<close> keeps.\<close>

definition minted :: "Account \<Rightarrow> portal_env \<Rightarrow> portal_request \<Rightarrow> limiter \<Rightarrow> portal_state \<Rightarrow> portal_state \<Rightarrow> portal_reply \<Rightarrow> Key \<Rightarrow> bool" where
  "minted a en rq l s s' reply k \<longleftrightarrow>
     db_keys (po_db s') = db_keys (po_db s) @ [k] \<and> k_account_id k = a_id a \<and> k_label k = key_label rq \<and> k_revoked_at k = None \<and>
     shown_key reply \<in> {p. p = [] \<or> k_hash k = HashKey p} \<and> fst (allow l (''keys:'' @ format_int (a_id a)) keysPerHour (pe_now en))"

lemma key_refused_keys:
  assumes "key_refused sv sess a en rq status msg s = (reply, s')"
  shows "db_keys (po_db s') = db_keys (po_db s) \<and> shown_key reply = []"
  using looks_keys [OF looks_renderAccount, of sv en rq status sess a "[]" "[]" msg s] shown_key_renderAccount [of sv en rq status sess a "[]" "[]" msg s] assms
  by (simp add: key_refused_def)

lemma mint_key_effect:
  assumes "mint_key sv sess a en rq kind s = (reply, s')"
  shows "db_keys (po_db s') = db_keys (po_db s) \<and> shown_key reply = [] \<or> (\<exists>k. minted a en rq (po_limit s) s s' reply k)"
proof -
  obtain ok s1 where al: "po_allow (''keys:'' @ format_int (a_id a)) keysPerHour (pe_now en) s = (ok, s1)" by fastforce
  obtain r d2 where ck: "CreateKey (pe_key_rand en) (a_id a) (key_label rq) kind (po_db s1) = (r, d2)" by fastforce
  note eff = CreateKey_effect [OF ck] and lim = po_allow_result [OF al]
  show ?thesis
  proof (cases "ok \<and> \<not> isl r")
    case False
    then show ?thesis using assms al ck eff lim by (auto simp: mint_key_def po_store_def split: sum.splits dest!: key_refused_keys)
  next
    case True
    then obtain plain k where r: "r = Inr (plain, k)" by (cases r) auto
    obtain sent s3 where sd: "po_send en (a_email a) (KeyCreatedMail (k_prefix k) (k_label k)) (s1\<lparr>po_db := d2\<rparr>) = (sent, s3)" by fastforce
    have m: "renderAccount sv en rq 200 sess a plain [] [] s3 = (reply, s')"
      using assms al ck r True sd by (simp add: mint_key_def po_store_def)
    have "db_keys (po_db s') = db_keys d2" using looks_keys [OF looks_renderAccount m] sd by (auto simp: po_send_def split: if_splits)
    moreover have "shown_key reply \<in> {[], plain}" using shown_key_renderAccount [of sv en rq 200 sess a plain "[]" "[]" s3] m by simp
    ultimately have "minted a en rq (po_limit s) s s' reply k" using eff lim r True by (auto simp: minted_def)
    then show ?thesis by blast
  qed
qed




section \<open>Revoking keys\<close>

lemma RevokeKey_effect:
  assumes "RevokeKey kid aid d = (r, d')" "aid \<noteq> 0"
  defines "mine \<equiv> \<lambda>k. k_id k = kid \<and> k_revoked_at k = None \<and> k_account_id k = aid"
  shows "case r of Inl _ \<Rightarrow> db_keys d' = db_keys d
    | Inr k \<Rightarrow> k_revoked_at k \<noteq> None \<and> (\<exists>k0 \<in> set (db_keys d). mine k0 \<and> k_hash k = k_hash k0) \<and>
        db_keys d' = map (\<lambda>k. if mine k then k\<lparr>k_revoked_at := Some (db_now d)\<rparr> else k) (db_keys d)"
proof (cases rule: stmt_cases [of "\<lambda>d. case update_where (\<lambda>k. k_id k = kid \<and> k_revoked_at k = None \<and> (aid = 0 \<or> k_account_id k = aid))
    (\<lambda>k. k\<lparr>k_revoked_at := Some (db_now d)\<rparr>) (db_keys d) of (rows, changed) \<Rightarrow> (Inr changed, d\<lparr>db_keys := rows\<rparr>)" d])
  case (error msg fs)
  then show ?thesis using assms by (auto simp: RevokeKey_def and_then_def update_keys_def)
next
  case (runs fs)
  let ?hit = "filter (\<lambda>k. mine k) (db_keys d)"
  have r: "RevokeKey kid aid d = need_row (map (\<lambda>k. k\<lparr>k_revoked_at := Some (db_now d)\<rparr>) ?hit)
      (d\<lparr>db_faults := fs, db_keys := map (\<lambda>k. if mine k then k\<lparr>k_revoked_at := Some (db_now d)\<rparr> else k) (db_keys d)\<rparr>)"
    unfolding RevokeKey_def and_then_def update_keys_def runs using assms(2) by (simp add: update_where_def mine_def)
  show ?thesis
  proof (cases ?hit)
    case Nil
    then have "map (\<lambda>k. if mine k then k\<lparr>k_revoked_at := Some (db_now d)\<rparr> else k) (db_keys d) = db_keys d"
      by (auto simp: filter_empty_conv intro: map_idI)
    then show ?thesis using assms(1) r Nil by (auto simp: need_row_def one_row_def fail_def)
  next
    case (Cons k0 rest)
    then have "k0 \<in> set (db_keys d)" "mine k0" by (auto dest!: filter_eq_ConsD)
    then have "\<exists>k \<in> set (db_keys d). mine k \<and> k_hash k0 = k_hash k" by blast
    then show ?thesis using assms(1) r Cons by (auto simp: need_row_def one_row_def give_def)
  qed
qed

text \<open>
  Revoking a key touches at most the one active key of that number that belongs to the signed-in account; the gateways are
  told its hash, and anything else leaves every key as it was.
\<close>

theorem revokeKey_own:
  assumes "a_id a \<noteq> 0" "revokeKey sv sess a en rq s = (reply, s')"
  defines "mine \<equiv> \<lambda>k. k_id k = fst (parse_int (path_value rq ''id'')) \<and> k_revoked_at k = None \<and> k_account_id k = a_id a"
  shows "db_keys (po_db s') = db_keys (po_db s) \<and> po_notices s' = po_notices s \<and> reply \<noteq> redirect 302 ''/account?notice=revoked'' \<or>
    reply = redirect 302 ''/account?notice=revoked'' \<and> list_ex mine (db_keys (po_db s)) \<and>
    db_keys (po_db s') = map (\<lambda>k. if mine k then k\<lparr>k_revoked_at := Some (db_now (po_db s))\<rparr> else k) (db_keys (po_db s)) \<and>
    po_notices s' \<in> {po_notices s} \<union> (\<lambda>k. po_notices s @ [k_hash k]) ` {k \<in> set (db_keys (po_db s)). mine k}"
proof -
  obtain kid ok where p: "parse_int (path_value rq ''id'') = (kid, ok)" by fastforce
  obtain r d1 where rk: "RevokeKey kid (a_id a) (po_db s) = (r, d1)" by fastforce
  let ?s1 = "s\<lparr>po_db := d1\<rparr>"
  note eff = RevokeKey_effect [OF rk assms(1)]
  have shown: "rp_code (fst (renderAccount sv en rq 500 sess a [] [] tryAgainMsg ?s1)) = 500"
    by (simp add: renderAccount_def render_def http_error_def Let_def case_prod_beta tryAgainMsg_def)
  show ?thesis
  proof (cases "ok \<and> \<not> isl r")
    case False
    consider "\<not> ok" | "ok" "r = Inl ErrNotFound" | e where "ok" "r = Inl e" "e \<noteq> ErrNotFound" using False by (cases r) auto
    then have "db_keys (po_db s') = db_keys (po_db s) \<and> po_notices s' = po_notices s \<and> reply \<noteq> redirect 302 ''/account?notice=revoked''"
    proof cases
      case (3 e)
      then have ra: "renderAccount sv en rq 500 sess a [] [] tryAgainMsg ?s1 = (reply, s')" using assms(2) p rk by (simp add: revokeKey_def po_store_def)
      have "reply \<noteq> redirect 302 ''/account?notice=revoked''" using shown ra by (auto simp: redirect_def)
      moreover have "po_same ?s1 s'" by (rule looksD [OF looks_renderAccount ra])
      ultimately show ?thesis using eff 3 by (auto simp: po_same_def)
    qed (use assms(2) p rk eff in \<open>auto simp: revokeKey_def po_store_def http_not_found_def redirect_def\<close>)
    then show ?thesis by blast
  next
    case True
    then obtain k where r: "r = Inr k" by (cases r) auto
    have s': "s' = po_notify (k_hash k) ?s1" "reply = redirect 302 ''/account?notice=revoked''" using assms(2) p rk r True by (simp_all add: revokeKey_def po_store_def)
    have "db_keys (po_db s') = db_keys d1" "po_notices s' = po_notices s \<or> po_notices s' = po_notices s @ [k_hash k]"
      unfolding s'(1) by (auto simp: po_notify_def po_store_def driver_call_def stmt_def split: list.splits option.splits)
    then show ?thesis using eff r s'(2) p unfolding mine_def list_ex_iff by (auto simp: image_iff)
  qed
qed


section \<open>Reminders go out once\<close>

definition reminded :: "db \<Rightarrow> int set" where
  "reminded d = tr_id ` {t \<in> set (db_trials d). tr_reminder_sent_at t \<noteq> None}"

text \<open>From \<open>s\<close> to \<open>s'\<close>, exactly the trials \<open>ts\<close> were mailed, each marked by then, and no mark was lost.\<close>

definition mailed :: "portal_state \<Rightarrow> Trial list \<Rightarrow> portal_state \<Rightarrow> bool" where
  "mailed s ts s' \<longleftrightarrow>
     (\<exists>tos. length tos = length ts \<and> po_mails s' = po_mails s @ zip tos (map (\<lambda>t. TrialEndingMail (tr_ends_at t)) ts)) \<and>
     tr_id ` set ts \<subseteq> reminded (po_db s') \<and> reminded (po_db s) \<subseteq> reminded (po_db s') \<and>
     map tr_id (db_trials (po_db s')) = map tr_id (db_trials (po_db s))"

lemma mailed_refl: "po_same s s' \<Longrightarrow> mailed s [] s'"
  by (auto simp: mailed_def po_same_def reminded_def)

lemma mailed_trans: "mailed s ts s' \<Longrightarrow> mailed s' us s'' \<Longrightarrow> mailed s (ts @ us) s''"
  unfolding mailed_def by (auto simp: zip_append) (metis length_append zip_append length_map map_append append.assoc)

lemma remindedI: "t \<in> set (db_trials d) \<Longrightarrow> tr_reminder_sent_at t \<noteq> None \<Longrightarrow> tr_id t = i \<Longrightarrow> i \<in> reminded d"
  unfolding reminded_def by blast

lemma MarkTrialReminded_effect:
  assumes "MarkTrialReminded tid at d = (r, d')"
  shows "map tr_id (db_trials d') = map tr_id (db_trials d) \<and> reminded d \<subseteq> reminded d' \<and> (r = Inr () \<longrightarrow> tid \<in> reminded d')"
proof (cases rule: stmt_cases [of "\<lambda>d. case update_where (\<lambda>t. tr_id t = tid) (\<lambda>t. t\<lparr>tr_reminder_sent_at := Some at\<rparr>) (db_trials d) of
         (rows, changed) \<Rightarrow> (Inr changed, d\<lparr>db_trials := rows\<rparr>)" d])
  case (error msg fs)
  then show ?thesis using assms by (auto simp: MarkTrialReminded_def and_then_def reminded_def)
next
  case (runs fs)
  let ?f = "\<lambda>t. if tr_id t = tid then t\<lparr>tr_reminder_sent_at := Some at\<rparr> else t"
  have d': "db_trials d' = map ?f (db_trials d)" and r: "r = Inr () \<longrightarrow> (\<exists>t \<in> set (db_trials d). tr_id t = tid)"
    using assms unfolding MarkTrialReminded_def and_then_def runs
    by (auto simp: update_where_def need_row_def one_row_def fail_def give_def split: list.splits if_splits dest!: filter_eq_ConsD)
  have "map tr_id (db_trials d') = map tr_id (db_trials d)" unfolding d' by simp
  moreover have "x \<in> reminded d'" if x: "x \<in> reminded d" for x
  proof -
    obtain t where t: "t \<in> set (db_trials d)" "tr_reminder_sent_at t \<noteq> None" "tr_id t = x" using x unfolding reminded_def by blast
    then have "?f t \<in> set (db_trials d')" "tr_reminder_sent_at (?f t) \<noteq> None" "tr_id (?f t) = x" unfolding d' by auto
    then show ?thesis by (rule remindedI)
  qed
  moreover have "tid \<in> reminded d'" if t: "t \<in> set (db_trials d)" "tr_id t = tid" for t
  proof -
    have "?f t \<in> set (db_trials d')" "tr_reminder_sent_at (?f t) \<noteq> None" "tr_id (?f t) = tid" using t unfolding d' by auto
    then show ?thesis by (rule remindedI)
  qed
  ultimately show ?thesis using r by blast
qed

lemma remind_trial_mailed: "mailed s [] (remind_trial sv sends now t s) \<or> mailed s [t] (remind_trial sv sends now t s)"
proof -
  obtain ra s1 where ga: "po_store (GetAccount (tr_account_id t)) s = (ra, s1)" by fastforce
  obtain re s2 where le: "po_store (ListEntitlements (tr_account_id t)) s1 = (re, s2)" by fastforce
  obtain rm d3 where mk: "MarkTrialReminded (tr_id t) now (po_db s2) = (rm, d3)" by fastforce
  have s1: "po_same s s1" by (rule looksD [OF looks_store [OF reads_queries(1)] ga])
  then have s2: "po_same s s2" using looksD [OF looks_store [OF reads_queries(3)] le] po_same_trans by blast
  have mk': "po_store (MarkTrialReminded (tr_id t) now) s2 = (rm, s2\<lparr>po_db := d3\<rparr>)" by (simp add: po_store_def mk)
  note eff = MarkTrialReminded_effect [OF mk]
  define m where "m a = s2\<lparr>po_db := d3, po_mails := po_mails s2 @ [(a_email a, TrialEndingMail (tr_ends_at t))]\<rparr>" for a :: Account
  have "remind_trial sv sends now t s =
      (case ra of Inl _ \<Rightarrow> s1 | Inr a \<Rightarrow> if a_status a \<noteq> AccountActive then s1
         else (case re of Inl _ \<Rightarrow> s2 | Inr ents \<Rightarrow> if HasActiveStripePlan ents \<or> trialEntitlementEnded ents now then s2
           else if isl rm \<or> \<not> sends (tr_id t) then s2\<lparr>po_db := d3\<rparr> else m a))"
    by (cases ra; cases re; cases rm) (simp_all add: remind_trial_def ga le mk' m_def)
  then have "remind_trial sv sends now t s \<in> {s1, s2} \<or> remind_trial sv sends now t s = s2\<lparr>po_db := d3\<rparr> \<or>
      rm = Inr () \<and> (\<exists>a. remind_trial sv sends now t s = m a)"
    by (cases ra; cases re; cases rm) (auto split: if_splits)
  then consider "remind_trial sv sends now t s \<in> {s1, s2}" | "remind_trial sv sends now t s = s2\<lparr>po_db := d3\<rparr>"
    | a where "rm = Inr ()" "remind_trial sv sends now t s = m a" by blast
  then show ?thesis
  proof cases
    case 1
    then show ?thesis using s1 s2 mailed_refl by auto
  next
    case 2
    then show ?thesis using s2 eff by (auto simp: mailed_def po_same_def reminded_def)
  next
    case (3 a)
    have "mailed s [t] (remind_trial sv sends now t s)" unfolding mailed_def
    proof (intro conjI exI [of _ "[a_email a]"])
    qed (use 3 s2 eff in \<open>auto simp: m_def po_same_def reminded_def\<close>)
    then show ?thesis by blast
  qed
qed


lemma remind_all_mailed:
  "distinct (map tr_id due) \<Longrightarrow> \<exists>ts. set ts \<subseteq> set due \<and> distinct (map tr_id ts) \<and> mailed s ts (foldl (\<lambda>s t. remind_trial sv sends now t s) s due)"
proof (induction due arbitrary: s)
  case Nil
  then show ?case using mailed_refl [OF po_same_refl] by (intro exI [of _ "[]"]) simp
next
  case (Cons t due)
  let ?s = "remind_trial sv sends now t s"
  obtain ts where ts: "set ts \<subseteq> set due" "distinct (map tr_id ts)" "mailed ?s ts (foldl (\<lambda>s t. remind_trial sv sends now t s) ?s due)"
    using Cons.IH [of ?s] Cons.prems by auto
  have "tr_id t \<notin> tr_id ` set ts" using Cons.prems ts(1) by auto
  then have "distinct (map tr_id (us @ ts)) \<and> set (us @ ts) \<subseteq> set (t # due)" if "us \<in> {[], [t]}" for us using that ts(1,2) by auto
  moreover have "\<exists>us \<in> {[], [t]}. mailed s us ?s" using remind_trial_mailed by simp
  then obtain us where us: "us \<in> {[], [t]}" "mailed s us ?s" by (elim bexE)
  ultimately show ?case using mailed_trans [OF us(2) ts(3)] by (intro exI [of _ "us @ ts"]) simp
qed

lemma SendTrialReminders_mailed:
  assumes "distinct (map tr_id (db_trials (po_db s)))"
  shows "\<exists>ts. mailed s ts (SendTrialReminders sv sends now s) \<and> distinct (map tr_id ts) \<and> tr_id ` set ts \<inter> reminded (po_db s) = {} \<and>
    (\<forall>t \<in> set ts. t \<in> set (db_trials (po_db s)) \<and> now \<le> tr_ends_at t \<and> tr_ends_at t < now + reminderLead)"
proof -
  obtain r s1 where tr: "po_store (TrialsToRemind now (now + reminderLead)) s = (r, s1)" by fastforce
  have same: "po_same s s1" by (rule looksD [OF looks_store [OF reads_queries(13)] tr])
  show ?thesis
  proof (cases r)
    case (Inl e)
    then show ?thesis using mailed_refl [OF same] tr by (intro exI [of _ "[]"]) (simp add: SendTrialReminders_def)
  next
    case (Inr due)
    let ?P = "\<lambda>t. now \<le> tr_ends_at t \<and> tr_ends_at t < now + reminderLead \<and> tr_reminder_sent_at t = None"
    have "due = sort_key tr_ends_at (filter ?P (db_trials (po_db s)))"
      using tr Inr by (auto simp: po_store_def TrialsToRemind_def stmt_def split: list.splits option.splits)
    then have d: "set due = {t \<in> set (db_trials (po_db s)). ?P t}" "distinct (map tr_id due)"
      using assms by (auto simp: distinct_map inj_on_def)
    obtain ts where ts: "set ts \<subseteq> set due" "distinct (map tr_id ts)" "mailed s1 ts (SendTrialReminders sv sends now s)"
      using remind_all_mailed [OF d(2), of s1 sv sends now] tr Inr by (auto simp: SendTrialReminders_def)
    have "tr_id t \<notin> reminded (po_db s)" if t: "t \<in> set ts" for t
    proof
      assume "tr_id t \<in> reminded (po_db s)"
      then obtain u where u: "u \<in> set (db_trials (po_db s))" "tr_reminder_sent_at u \<noteq> None" "tr_id u = tr_id t" unfolding reminded_def by auto
      have "t \<in> set (db_trials (po_db s))" "tr_reminder_sent_at t = None" using t ts(1) d(1) by auto
      then show False using u assms by (metis distinct_map inj_onD)
    qed
    then have "tr_id ` set ts \<inter> reminded (po_db s) = {}" by auto
    then show ?thesis using mailed_trans [OF mailed_refl [OF same] ts(3)] ts d(1) by (intro exI [of _ ts]) auto
  qed
qed

text \<open>
  C16: In any sequence of reminder runs, with any failures of the store and of the mails, a trial is mailed at most once: the mails sent are those of
  distinct trials, none of them marked as reminded before and all of them marked after.
\<close>

theorem trial_reminded_once:
  assumes "distinct (map tr_id (db_trials (po_db s)))"
  shows "\<exists>ts. mailed s ts (foldl (\<lambda>s (sends, now). SendTrialReminders sv sends now s) s runs) \<and> distinct (map tr_id ts) \<and> tr_id ` set ts \<inter> reminded (po_db s) = {}"
  using assms
proof (induction runs arbitrary: s)
  case Nil
  then show ?case using mailed_refl [OF po_same_refl] by (intro exI [of _ "[]"]) simp
next
  case (Cons run runs)
  obtain sends now where run: "run = (sends, now)" by (cases run)
  let ?s = "SendTrialReminders sv sends now s"
  obtain ts where ts: "mailed s ts ?s" "distinct (map tr_id ts)" "tr_id ` set ts \<inter> reminded (po_db s) = {}"
    using SendTrialReminders_mailed [OF Cons.prems] by blast
  then have "distinct (map tr_id (db_trials (po_db ?s)))" using Cons.prems by (simp add: mailed_def)
  from Cons.IH [OF this] obtain us where us: "mailed ?s us (foldl (\<lambda>s (sends, now). SendTrialReminders sv sends now s) ?s runs)"
    "distinct (map tr_id us)" "tr_id ` set us \<inter> reminded (po_db ?s) = {}" by blast
  have "tr_id ` set ts \<subseteq> reminded (po_db ?s)" "reminded (po_db s) \<subseteq> reminded (po_db ?s)" using ts(1) by (simp_all add: mailed_def)
  then have "tr_id ` set ts \<inter> tr_id ` set us = {}" "tr_id ` set us \<inter> reminded (po_db s) = {}" using us(3) by blast+
  then have "distinct (map tr_id (ts @ us))" "tr_id ` set (ts @ us) \<inter> reminded (po_db s) = {}" using ts(2,3) us(2) by (simp_all add: image_Un Int_Un_distrib2)
  then show ?case using mailed_trans [OF ts(1) us(1)] run by (intro exI [of _ "ts @ us"]) simp
qed


lemma demo_account_id: "a_id demo_account = 1" "db_keys (po_db demo_portal) = []"
  by (simp_all add: demo_account_def scanAccount_def new_account_def empty_db_def demo_portal_def demo_db_def)


theorem revokeKey_own_witness:
  "db_keys (po_db (snd (revokeKey demo_server demo_session demo_account (demo_env 160) (demo_request [(''id'', ''7'')] demo_cookies []) demo_portal))) = []"
proof -
  obtain reply s' where c: "revokeKey demo_server demo_session demo_account (demo_env 160) (demo_request [(''id'', ''7'')] demo_cookies []) demo_portal = (reply, s')"
    by fastforce
  have "a_id demo_account \<noteq> 0" by (simp add: demo_account_id)
  from revokeKey_own [OF this c] show ?thesis unfolding c snd_conv demo_account_id by auto
qed

theorem trial_reminded_once_witness:
  "\<exists>ts. mailed (demo_portal\<lparr>po_db := demo_db\<lparr>db_trials := [\<lparr>tr_id = 3, tr_patreon_email = ''a@b.c'', tr_account_id = 1, tr_granted_at = 0, tr_ends_at = 500,
        tr_reminder_sent_at = None\<rparr>]\<rparr>\<rparr>) ts
      (foldl (\<lambda>s (sends, now). SendTrialReminders demo_server sends now s)
        (demo_portal\<lparr>po_db := demo_db\<lparr>db_trials := [\<lparr>tr_id = 3, tr_patreon_email = ''a@b.c'', tr_account_id = 1, tr_granted_at = 0, tr_ends_at = 500,
           tr_reminder_sent_at = None\<rparr>]\<rparr>\<rparr>) [(\<lambda>_. True, 160), (\<lambda>_. True, 170)]) \<and> distinct (map tr_id ts)"
  using trial_reminded_once [of "demo_portal\<lparr>po_db := demo_db\<lparr>db_trials := [\<lparr>tr_id = 3, tr_patreon_email = ''a@b.c'', tr_account_id = 1, tr_granted_at = 0,
      tr_ends_at = 500, tr_reminder_sent_at = None\<rparr>]\<rparr>\<rparr>" demo_server "[(\<lambda>_. True, 160), (\<lambda>_. True, 170)]"]
  by simp blast

end
