(* ===== verification/Portal_Admin.thy ===== *)
theory Portal_Admin
  imports Portal_Account
begin

text \<open>
  \<open>src/portal/admin.go\<close>: the admin pages and what they change. A store or grant error in a sentence is shown
  through the server's \<open>sv_error_text\<close> and \<open>sv_grant_text\<close>.
\<close>

section \<open>Audit and notifications\<close>

definition audit :: "portal_session \<Rightarrow> string \<Rightarrow> int \<Rightarrow> string \<Rightarrow> string \<Rightarrow> portal_state \<Rightarrow> portal_state" where
  "audit sess action account_id target detail s = snd (po_store (RecordAdminAction (ps_email sess) action account_id target detail) s)"

definition admin_notify :: "portal_state \<Rightarrow> portal_state" where
  "admin_notify s = po_notify [] s"

section \<open>The home page\<close>

definition first_error :: "string \<Rightarrow> bool \<Rightarrow> string" where
  "first_error msg wrong = (if wrong \<and> msg = [] then tryAgainMsg else msg)"

definition renderAdminHome :: "Server \<Rightarrow> portal_env \<Rightarrow> portal_request \<Rightarrow> portal_session \<Rightarrow> int \<Rightarrow> string \<Rightarrow> string \<Rightarrow> portal_state \<Rightarrow> portal_reply \<times> portal_state" where
  "renderAdminHome sv en rq sess status notice errMsg s0 =
     (let q = trim_space (FormValue rq ''q'') in
      case po_store (if q = [] then ListAccounts else SearchAccounts q) s0 of (accounts, s1) \<Rightarrow>
      case po_store ListDemoAccess s1 of (demo, s2) \<Rightarrow>
      case po_store (ListAdminActions 0 20) s2 of (actions, s3) \<Rightarrow>
        let msg = first_error (first_error (if isl accounts then tryAgainMsg else errMsg) (isl demo)) (isl actions) in
        (render sv status ''admin_home.html'' ((pageFor sv (Some sess) ''Admin'')
           \<lparr>pg_wide := True, pg_notice := notice, pg_error := msg,
            pg_data := AdminHomePage \<lparr>ah_query = q, ah_accounts = rows_of accounts, ah_demo = rows_of demo,
              ah_has_stripe = (sv_reconcile_all sv \<noteq> None), ah_actions = rows_of actions\<rparr>\<rparr>), s3))"

definition adminHome :: "Server \<Rightarrow> session_handler" where
  "adminHome sv sess a en rq = renderAdminHome sv en rq sess 200 (noticeFor rq) []"

definition adminReconcile :: "Server \<Rightarrow> session_handler" where
  "adminReconcile sv sess a en rq s0 =
     (case sv_reconcile_all sv of
        None \<Rightarrow> (fail_page sv en rq 503 billingOffMsg, s0)
      | Some all \<Rightarrow>
          (case po_billing (pe_now en) all s0 of
             (Inl e, s1) \<Rightarrow> renderAdminHome sv en rq sess 502 [] (''Reconcile failed: '' @ sv_error_text sv e) s1
           | (Inr res, s1) \<Rightarrow> renderAdminHome sv en rq sess 200 (sv_summary sv res) [] (audit sess ''reconcile'' 0 [] (sv_summary sv res) s1)))"

section \<open>One account\<close>

text \<open>The account named in the path, or the reply that was written instead.\<close>

definition adminTarget :: "Server \<Rightarrow> portal_env \<Rightarrow> portal_request \<Rightarrow> portal_state \<Rightarrow> (portal_reply + Account) \<times> portal_state" where
  "adminTarget sv en rq s0 =
     (case parse_int (path_value rq ''id'') of (aid, ok) \<Rightarrow>
        if \<not> ok then (Inl http_not_found, s0)
        else (case po_store (GetAccount aid) s0 of
            (Inr a, s1) \<Rightarrow> (Inr a, s1)
          | (Inl e, s1) \<Rightarrow> (Inl (if e = ErrNotFound then http_not_found else fail_page sv en rq 500 tryAgainMsg), s1)))"

definition on_target :: "Server \<Rightarrow> (Account \<Rightarrow> handler) \<Rightarrow> handler" where
  "on_target sv h en rq s0 =
     (case adminTarget sv en rq s0 of (Inl reply, s) \<Rightarrow> (reply, s) | (Inr a, s) \<Rightarrow> h a en rq s)"

definition renderAdminAccount :: "Server \<Rightarrow> portal_env \<Rightarrow> portal_request \<Rightarrow> portal_session \<Rightarrow> Account \<Rightarrow> int \<Rightarrow> string \<Rightarrow> string \<Rightarrow> string \<Rightarrow>
    portal_state \<Rightarrow> portal_reply \<times> portal_state" where
  "renderAdminAccount sv en rq sess a status notice errMsg newInvite s0 =
     (case po_store (ListKeys (a_id a)) s0 of (keys, s1) \<Rightarrow>
      case po_store (ListEntitlements (a_id a)) s1 of (ents, s2) \<Rightarrow>
      case po_store (ListAdminActions (a_id a) 20) s2 of (actions, s3) \<Rightarrow>
      case po_store (UsageByKey (monthStart (pe_now en)) (pe_now en) (a_id a)) s3 of (usage, s4) \<Rightarrow>
        let msg = first_error (first_error (first_error (first_error errMsg (isl keys)) (isl ents)) (isl actions)) (isl usage);
            d = \<lparr>ad_account = a, ad_keys = rows_of keys,
                 ad_entitlements = zip (rows_of ents) (fst (describe_all sv (rows_of ents) newSiteLookup)),
                 ad_games = sv_games sv, ad_modes = ValidModes, ad_intervals = filter (\<lambda>iv. \<not> in_public iv) (ct_intervals (sv_catalog sv)),
                 ad_new_invite = newInvite,
                 ad_stripe_url = (if a_stripe_customer_id a \<noteq> [] then ''https://dashboard.stripe.com/customers/'' @ a_stripe_customer_id a else []),
                 ad_actions = rows_of actions, ad_usage = rows_of usage\<rparr>
        in (render sv status ''admin_account.html'' ((pageFor sv (Some sess) (''Account '' @ a_email a))
              \<lparr>pg_wide := True, pg_notice := notice, pg_error := msg, pg_data := AdminAccountPage d\<rparr>), s4))"

definition adminAccount :: "Server \<Rightarrow> session_handler" where
  "adminAccount sv sess admin = on_target sv (\<lambda>a en rq. renderAdminAccount sv en rq sess a 200 (noticeFor rq) [] [])"

definition adminRedirect :: "Account \<Rightarrow> string \<Rightarrow> portal_reply" where
  "adminRedirect a notice = redirect 302 (''/admin/accounts/'' @ format_int (a_id a) @ ''?notice='' @ notice)"

definition parse_status :: "string \<Rightarrow> AccountStatus" where
  "parse_status s = (if s = ''active'' then AccountActive else if s = ''suspended'' then AccountSuspended else AccountOther s)"

definition adminStatus :: "Server \<Rightarrow> session_handler" where
  "adminStatus sv sess admin =
     on_target sv (\<lambda>a en rq s.
       let status = parse_status (FormValue rq ''status'') in
       if \<not> account_status_valid status then renderAdminAccount sv en rq sess a 400 [] ''Status must be active or suspended.'' [] s
       else (case po_store (SetAccountStatus (a_id a) status) s of
           (Inl _, s1) \<Rightarrow> renderAdminAccount sv en rq sess a 500 [] tryAgainMsg [] s1
         | (Inr _, s1) \<Rightarrow> (adminRedirect a ''status'', admin_notify (audit sess ''status'' (a_id a) [] (FormValue rq ''status'') s1))))"

definition adminNote :: "Server \<Rightarrow> session_handler" where
  "adminNote sv sess admin =
     on_target sv (\<lambda>a en rq s.
       let note = trim_space (FormValue rq ''note'') in
       (case po_store (SetAccountNote (a_id a) note) s of
          (Inl _, s1) \<Rightarrow> renderAdminAccount sv en rq sess a 500 [] tryAgainMsg [] s1
        | (Inr _, s1) \<Rightarrow> (adminRedirect a ''saved'', audit sess ''note'' (a_id a) [] note s1)))"

definition adminRevokeKey :: "Server \<Rightarrow> session_handler" where
  "adminRevokeKey sv sess admin =
     on_target sv (\<lambda>a en rq s.
       case parse_int (path_value rq ''kid'') of (kid, ok) \<Rightarrow>
         if \<not> ok then (http_not_found, s)
         else (case po_store (RevokeKey kid (a_id a)) s of
             (Inr k, s1) \<Rightarrow> (adminRedirect a ''revoked'', audit sess ''key revoke'' (a_id a) (k_prefix k) [] (po_notify (k_hash k) s1))
           | (Inl e, s1) \<Rightarrow> if e = ErrNotFound then (http_not_found, s1) else renderAdminAccount sv en rq sess a 500 [] tryAgainMsg [] s1))"

section \<open>Grants\<close>

definition grant_sentence :: "Server \<Rightarrow> GrantError \<Rightarrow> string" where
  "grant_sentence sv ge =
     (let f = ge_field ge in
      if f = ''games'' then (if ge_msg ge = GrantNoGames then ''Pick at least one game.'' else ''Unknown game '' @ ge_value ge @ ''.'')
      else if f = ''stores'' then ''Stores: '' @ sv_grant_text sv ge
      else if f = ''modes'' then ''Modes: '' @ sv_grant_text sv ge
      else if f = ''lookback'' then ''Lookback: '' @ sv_grant_text sv ge
      else if f = ''until'' then (if ge_msg ge = GrantUntilPast then ''Until must be in the future.'' else ''Until must be YYYY-MM-DD.'')
      else sv_grant_text sv ge)"

text \<open>\<open>strconv.Atoi\<close> of the trimmed field, 0 when it is empty.\<close>

definition lookback_field :: "portal_request \<Rightarrow> int option" where
  "lookback_field rq =
     (let raw = trim_space (FormValue rq ''lookback'') in
      if raw = [] then Some 0 else case parse_int raw of (n, ok) \<Rightarrow> if ok then Some n else None)"

definition grant_input :: "portal_request \<Rightarrow> Account \<Rightarrow> int \<Rightarrow> ManualGrantInput" where
  "grant_input rq a lookback =
     \<lparr>mg_account_id = a_id a, mg_games = listValues (pq_post_form rq) ''games'', mg_stores = FormValue rq ''stores'',
      mg_modes = listValues (pq_post_form rq) ''modes'', mg_lookback = lookback, mg_until = FormValue rq ''until'', mg_note = trim_space (FormValue rq ''note'')\<rparr>"

definition adminAddEntitlement :: "Server \<Rightarrow> session_handler" where
  "adminAddEntitlement sv sess admin =
     on_target sv (\<lambda>a en rq s.
       case lookback_field rq of
         None \<Rightarrow> renderAdminAccount sv en rq sess a 400 [] ''Lookback must be a number of days.'' [] s
       | Some lookback \<Rightarrow>
           (case ManualGrant (grant_input rq a lookback) (sv_games sv) (pe_now en) of
              Inl ge \<Rightarrow> renderAdminAccount sv en rq sess a 400 [] (grant_sentence sv ge) [] s
            | Inr e \<Rightarrow>
                (case po_store (AddEntitlement (pe_now en) e) s of
                   (Inl _, s1) \<Rightarrow> renderAdminAccount sv en rq sess a 500 [] tryAgainMsg [] s1
                 | (Inr added, s1) \<Rightarrow>
                     (adminRedirect a ''granted'', admin_notify (audit sess ''grant'' (a_id a) (''entitlement '' @ format_int (e_id added)) (GrantDetail added) s1)))))"

definition stripeEndMsg :: string where
  "stripeEndMsg = ''Stripe plans are cancelled in Stripe. Suspend the account for an immediate cut-off.''"

definition end_row :: "Server \<Rightarrow> portal_session \<Rightarrow> Account \<Rightarrow> portal_env \<Rightarrow> portal_request \<Rightarrow> int \<Rightarrow> portal_state \<Rightarrow> portal_reply \<times> portal_state" where
  "end_row sv sess a en rq eid s =
     (case po_store (EndEntitlement eid (a_id a) (pe_now en)) s of
        (Inr _, s1) \<Rightarrow> (adminRedirect a ''ended'', admin_notify (audit sess ''end'' (a_id a) (''entitlement '' @ format_int eid) [] s1))
      | (Inl e, s1) \<Rightarrow>
          if e = ErrStripeEntitlement then renderAdminAccount sv en rq sess a 400 [] stripeEndMsg [] s1
          else if e = ErrNotFound then (http_not_found, s1)
          else renderAdminAccount sv en rq sess a 500 [] tryAgainMsg [] s1)"

definition adminEndEntitlement :: "Server \<Rightarrow> session_handler" where
  "adminEndEntitlement sv sess admin =
     on_target sv (\<lambda>a en rq s.
       case parse_int (path_value rq ''eid'') of (eid, ok) \<Rightarrow>
         if \<not> ok then (http_not_found, s)
         else (case po_store (ListEntitlements (a_id a)) s of
             (Inl _, s1) \<Rightarrow> renderAdminAccount sv en rq sess a 500 [] tryAgainMsg [] s1
           | (Inr ents, s1) \<Rightarrow>
               (case find (\<lambda>e. e_id e = eid) ents of
                  None \<Rightarrow> (http_not_found, s1)
                | Some e \<Rightarrow>
                    if e_source e = SourceStripe then renderAdminAccount sv en rq sess a 400 [] stripeEndMsg [] s1
                    else end_row sv sess a en rq eid s1)))"

section \<open>Invites and usage\<close>

definition adminInvite :: "Server \<Rightarrow> session_handler" where
  "adminInvite sv sess admin =
     on_target sv (\<lambda>a en rq s.
       case ct_interval (sv_catalog sv) (FormValue rq ''interval'') of (iv, found) \<Rightarrow>
         if \<not> found \<or> in_public iv then renderAdminAccount sv en rq sess a 400 [] ''Pick a non-public interval.'' [] s
         else (case parse_int (FormValue rq ''days'') of (days, ok) \<Rightarrow>
           if \<not> ok \<or> days \<le> 0 then renderAdminAccount sv en rq sess a 400 [] ''Days must be a positive number.'' [] s
           else if days > 365 then renderAdminAccount sv en rq sess a 400 [] ''Days must be at most 365.'' [] s
           else (case po_store (CreateInvite (pe_rand en) (pe_now en) (in_key iv) (a_email a) (days * 24 * hour) (trim_space (FormValue rq ''note''))) s of
               (Inl _, s1) \<Rightarrow> renderAdminAccount sv en rq sess a 500 [] tryAgainMsg [] s1
             | (Inr (token, _), s1) \<Rightarrow>
                 renderAdminAccount sv en rq sess a 200 ''Invite created. It is shown once.'' [] token
                   (audit sess ''invite'' (a_id a) (in_key iv) (format_int days @ '' days'') s1))))"

definition usage_account :: "portal_request \<Rightarrow> portal_state \<Rightarrow> (access_error + int) \<times> portal_state" where
  "usage_account rq s =
     (let email = trim_space (FormValue rq ''email'') in
      if email = [] then (Inr 0, s) else case po_store (GetAccountByEmail email) s of (r, s') \<Rightarrow> (map_sum id a_id r, s'))"

definition usage_by_key :: "time \<Rightarrow> time \<Rightarrow> int \<Rightarrow> portal_state \<Rightarrow> (access_error + KeyUsageRow list) \<times> portal_state" where
  "usage_by_key from to account_id s = (if account_id = 0 then (Inr [], s) else po_store (UsageByKey from to account_id) s)"

definition usage_paths :: "time \<Rightarrow> time \<Rightarrow> string \<Rightarrow> KeyUsageRow list \<Rightarrow> portal_state \<Rightarrow> (access_error + PathUsageRow list) \<times> portal_state" where
  "usage_paths from to prefix rows s =
     (case (if prefix = [] then None else find (\<lambda>r. ku_prefix r = prefix) rows) of
        None \<Rightarrow> (Inr [], s)
      | Some r \<Rightarrow> po_store (TopPaths from to (ku_key_id r) 20) s)"

definition shown :: "string \<Rightarrow> time \<Rightarrow> shown_date" where
  "shown given t = (if given = [] then DefaultDate t else GivenDate given)"

definition adminUsage :: "Server \<Rightarrow> session_handler" where
  "adminUsage sv sess admin en rq s0 =
     (case UsageWindow (FormValue rq ''since'') (FormValue rq ''until'') (pe_now en) of
        Inl e \<Rightarrow> (fail_page sv en rq 400 (if e = WindowOrder then ''Since must not be after until.'' else ''Dates must be YYYY-MM-DD.''), s0)
      | Inr (from, to) \<Rightarrow>
          (case usage_account rq s0 of
             (Inl _, s1) \<Rightarrow> (fail_page sv en rq 404 ''No account with that email.'', s1)
           | (Inr account_id, s1) \<Rightarrow>
               (case po_store (SummarizeUsage from to account_id) s1 of
                  (Inl e, s2) \<Rightarrow> (fail_page sv en rq (if e = ErrNotFound then 404 else 500) tryAgainMsg, s2)
                | (Inr rows, s2) \<Rightarrow>
                    (case usage_by_key from to account_id s2 of (byKey, s3) \<Rightarrow>
                     case usage_paths from to (trim_space (FormValue rq ''key'')) (rows_of byKey) s3 of (paths, s4) \<Rightarrow>
                       let game = FormValue rq ''game'';
                           d = \<lparr>au_since = shown (FormValue rq ''since'') from, au_until = shown (FormValue rq ''until'') to,
                                au_email = trim_space (FormValue rq ''email''), au_game = game, au_key_prefix = trim_space (FormValue rq ''key''),
                                au_rows = filter (\<lambda>r. game = [] \<or> ur_game r = game) rows, au_by_account = (account_id \<noteq> 0),
                                au_by_key = rows_of byKey, au_paths = rows_of paths\<rparr>
                       in (render sv 200 ''admin_usage.html'' ((pageFor sv (Some sess) ''Usage'')
                             \<lparr>pg_wide := True, pg_error := (if isl byKey \<or> isl paths then tryAgainMsg else []), pg_data := AdminUsagePage d\<rparr>), s4)))))"


section \<open>Lemmas: what the admin pages change\<close>

lemma looks_admin [looks_intros]:
  "looks (renderAdminHome sv en rq sess status notice msg)" "looks (adminTarget sv en rq)" "looks (renderAdminAccount sv en rq sess a status notice msg invite)"
  unfolding renderAdminHome_def adminTarget_def renderAdminAccount_def by (intro looks_intros)+

text \<open>The rows an admin's request may not touch: those of other accounts, and the access that Stripe governs.\<close>

definition rows_of_others :: "int \<Rightarrow> db \<Rightarrow> account_row list \<times> Key list \<times> Entitlement list" where
  "rows_of_others aid d =
     (filter (\<lambda>r. ar_id r \<noteq> aid) (db_accounts d), filter (\<lambda>k. k_account_id k \<noteq> aid) (db_keys d),
      filter (\<lambda>e. e_account_id e \<noteq> aid \<or> e_source e = SourceStripe) (db_entitlements d))"

definition admin_tables :: "db \<Rightarrow> account_row list \<times> Key list \<times> Entitlement list \<times> Invite list" where
  "admin_tables d = (db_accounts d, db_keys d, db_entitlements d, db_invites d)"

text \<open>A store call made for an account, while the driver does not fail.\<close>

definition acts_on :: "int \<Rightarrow> 'a op \<Rightarrow> bool" where
  "acts_on aid f \<longleftrightarrow> (\<forall>d. db_faults d = [] \<longrightarrow>
     (case f d of (r, d') \<Rightarrow> db_faults d' = [] \<and> db_actions d' = db_actions d \<and> rows_of_others aid d' = rows_of_others aid d \<and>
        (isl r \<longrightarrow> admin_tables d' = admin_tables d)))"

lemma filter_update: "(\<And>x. P x \<Longrightarrow> \<not> Q x \<and> \<not> Q (f x)) \<Longrightarrow> filter Q (fst (update_where P f xs)) = filter Q xs"
  by (induction xs) (auto simp: update_where_def)

lemma update_none: "filter P xs = [] \<Longrightarrow> fst (update_where P f xs) = xs"
  by (induction xs) (auto simp: update_where_def split: if_splits)

lemma acts_on_accounts: "acts_on aid (SetAccountStatus aid status)" "acts_on aid (SetAccountNote aid note)"
proof -
  let ?P = "\<lambda>r. ar_id r = aid"
  have f: "filter (\<lambda>r. ar_id r \<noteq> aid) (fst (update_where ?P f rs)) = filter (\<lambda>r. ar_id r \<noteq> aid) rs" if "\<And>r. ar_id (f r) = ar_id r" for f rs
    by (rule filter_update) (simp add: that)
  have st: "filter (\<lambda>r. ar_id r \<noteq> aid) (fst (update_where ?P (\<lambda>r. r\<lparr>ar_status := x\<rparr>) rs)) = filter (\<lambda>r. ar_id r \<noteq> aid) rs" for x rs by (rule f) simp
  have nt: "filter (\<lambda>r. ar_id r \<noteq> aid) (fst (update_where ?P (\<lambda>r. r\<lparr>ar_note := x\<rparr>) rs)) = filter (\<lambda>r. ar_id r \<noteq> aid) rs" for x rs by (rule f) simp
  show "acts_on aid (SetAccountStatus aid status)" "acts_on aid (SetAccountNote aid note)" using st nt update_none [of ?P]
    by (auto simp: acts_on_def SetAccountStatus_def SetAccountNote_def and_then_def update_accounts_def stmt_no_fault need_row_def one_row_def fail_def give_def
        rows_of_others_def admin_tables_def update_where_def split: list.splits)
qed

lemma acts_on_RevokeKey: "aid \<noteq> 0 \<Longrightarrow> acts_on aid (RevokeKey kid aid)"
proof -
  let ?P = "\<lambda>k. k_id k = kid \<and> k_revoked_at k = None \<and> k_account_id k = aid"
  have "filter (\<lambda>k. k_account_id k \<noteq> aid) (fst (update_where ?P (\<lambda>k. k\<lparr>k_revoked_at := t\<rparr>) ks)) = filter (\<lambda>k. k_account_id k \<noteq> aid) ks" for t ks
    by (rule filter_update) simp
  moreover assume "aid \<noteq> 0"
  ultimately show ?thesis using update_none [of ?P]
    by (auto simp: acts_on_def RevokeKey_def and_then_def update_keys_def stmt_no_fault need_row_def one_row_def fail_def give_def
        rows_of_others_def admin_tables_def update_where_def split: list.splits)
qed

lemma acts_on_AddEntitlement:
  assumes "e_account_id e = aid" "e_source e \<noteq> SourceStripe"
  shows "acts_on aid (AddEntitlement now e)"
proof -
  have "e_account_id e' = aid \<and> e_source e' \<noteq> SourceStripe" if "prepareEntitlement now e = Inr (e', p)" for e' p
    using that assms by (auto simp: prepareEntitlement_def CanonicalEntitlement_def Let_def split: sum.splits if_splits)
  then show ?thesis
    by (auto simp: acts_on_def AddEntitlement_def and_then_def prepared_def insertEntitlement_def stmt_no_fault fail_def give_def Let_def entitlement_row_def
        rows_of_others_def admin_tables_def split: sum.splits option.splits if_splits)
qed

lemma acts_on_EndEntitlement: "aid \<noteq> 0 \<Longrightarrow> acts_on aid (EndEntitlement eid aid at)"
  using filter_update [of "\<lambda>e. e_id e = eid \<and> e_status e \<noteq> EntitlementEnded \<and> e_source e \<noteq> SourceStripe \<and> e_account_id e = aid"
      "\<lambda>e. e_account_id e \<noteq> aid \<or> e_source e = SourceStripe" "\<lambda>e. e\<lparr>e_status := EntitlementEnded, e_valid_until := Some at\<rparr>"]
    update_none [of "\<lambda>e. e_id e = eid \<and> e_status e \<noteq> EntitlementEnded \<and> e_source e \<noteq> SourceStripe \<and> e_account_id e = aid" _ "\<lambda>e. e\<lparr>e_status := EntitlementEnded, e_valid_until := Some at\<rparr>"]
  by (auto simp: acts_on_def EndEntitlement_def stmt_no_fault one_row_def rows_of_others_def admin_tables_def update_where_def split: list.splits)

lemma acts_on_CreateInvite: "acts_on aid (CreateInvite rand now interval email ttl note)"
  by (auto simp: acts_on_def CreateInvite_def and_then_def new_token_def insert_invite_def stmt_no_fault fail_def give_def Let_def
      rows_of_others_def admin_tables_def split: option.splits)


text \<open>What a request for one account leaves behind: the rows of others as they were, and a change only together with its entry in the log.\<close>

definition logged :: "portal_session \<Rightarrow> int \<Rightarrow> portal_state \<Rightarrow> portal_state \<Rightarrow> bool" where
  "logged sess aid s s' \<longleftrightarrow>
     rows_of_others aid (po_db s') = rows_of_others aid (po_db s) \<and>
     (admin_tables (po_db s') = admin_tables (po_db s) \<and> db_actions (po_db s') = db_actions (po_db s) \<or>
      (\<exists>row. db_actions (po_db s') = db_actions (po_db s) @ [row] \<and> aa_actor row = NormalizeEmail (ps_email sess) \<and> aa_account_id row = aid))"

lemma logged_same: "po_same s s' \<Longrightarrow> logged sess aid s s'"
  by (auto simp: po_same_def logged_def rows_of_others_def admin_tables_def)

lemma logged_start: "po_same s s1 \<Longrightarrow> logged sess aid s1 s' \<Longrightarrow> logged sess aid s s'"
  by (auto simp: po_same_def logged_def rows_of_others_def admin_tables_def)

lemma audit_effect:
  "db_faults (po_db s) = [] \<Longrightarrow> \<exists>row. po_db (audit sess action aid target detail s) = (po_db s)\<lparr>db_action_seq := db_action_seq (po_db s) + 1, db_actions := db_actions (po_db s) @ [row]\<rparr> \<and>
     aa_actor row = NormalizeEmail (ps_email sess) \<and> aa_account_id row = aid"
  by (intro exI [of _ "\<lparr>aa_id = db_action_seq (po_db s), aa_at = db_now (po_db s), aa_actor = NormalizeEmail (ps_email sess), aa_action = action,
        aa_account_id = aid, aa_target = target, aa_detail = detail\<rparr>"]) (simp add: audit_def po_store_def RecordAdminAction_def stmt_no_fault)

lemma notify_effect: "db_faults (po_db s) = [] \<Longrightarrow> po_db (po_notify p s) = po_db s"
  by (simp add: po_notify_def po_store_def driver_call_def stmt_no_fault)

text \<open>The three ways a store call for the account ends: refused, logged, or logged and announced.\<close>

lemma logged_call:
  assumes "acts_on aid f" "db_faults (po_db s) = []" "po_store f s = (r, s1)"
  shows "isl r \<Longrightarrow> po_same s1 s' \<Longrightarrow> logged sess aid s s'"
    and "logged sess aid s (audit sess action aid target detail s1)"
    and "logged sess aid s (admin_notify (audit sess action aid target detail s1))"
    and "logged sess aid s (audit sess action aid target detail (po_notify p s1))"
    and "po_same (audit sess action aid target detail s1) s' \<Longrightarrow> logged sess aid s s'"
proof -
  obtain d' where f: "f (po_db s) = (r, d')" "s1 = s\<lparr>po_db := d'\<rparr>" using assms(3) by (auto simp: po_store_def split: prod.splits)
  have e: "db_faults d' = []" "db_actions d' = db_actions (po_db s)" "rows_of_others aid d' = rows_of_others aid (po_db s)" "isl r \<longrightarrow> admin_tables d' = admin_tables (po_db s)"
    using assms(1) [unfolded acts_on_def, rule_format, OF assms(2)] f(1) by simp_all
  have d1: "po_db s1 = d'" using f(2) by simp
  note au = audit_effect [of s1 sess action aid target detail, unfolded d1, OF e(1)]
  have l: "logged sess aid s x" if "po_db x = d'\<lparr>db_action_seq := n, db_actions := db_actions d' @ [row]\<rparr>" "aa_actor row = NormalizeEmail (ps_email sess)" "aa_account_id row = aid" for x n row
    using that e by (auto simp: logged_def rows_of_others_def)
  show "isl r \<Longrightarrow> po_same s1 s' \<Longrightarrow> logged sess aid s s'" using e d1 by (auto simp: po_same_def logged_def rows_of_others_def admin_tables_def)
  show "logged sess aid s (audit sess action aid target detail s1)" using au l by blast
  obtain row where row: "po_db (audit sess action aid target detail s1) = d'\<lparr>db_action_seq := db_action_seq d' + 1, db_actions := db_actions d' @ [row]\<rparr>"
    "aa_actor row = NormalizeEmail (ps_email sess)" "aa_account_id row = aid" using au by blast
  have "po_db (admin_notify (audit sess action aid target detail s1)) = po_db (audit sess action aid target detail s1)"
    unfolding admin_notify_def by (rule notify_effect) (simp add: row e)
  then show "logged sess aid s (admin_notify (audit sess action aid target detail s1))" using l row by simp
  have "po_db (po_notify p s1) = d'" using notify_effect [of s1 p] d1 e(1) by simp
  then show "logged sess aid s (audit sess action aid target detail (po_notify p s1))" using audit_effect [of "po_notify p s1" sess action aid target detail] e(1) l by auto
  show "po_same (audit sess action aid target detail s1) s' \<Longrightarrow> logged sess aid s s'"
    using l [OF row] by (auto simp: po_same_def logged_def rows_of_others_def admin_tables_def)
qed


lemma on_target_cases:
  assumes "db_faults (po_db s) = []" "on_target sv h en rq s = (reply, s')"
  obtains (refused) "s' = s"
    | (runs) a where "a \<in> scanAccount ` set (db_accounts (po_db s))" "a_id a = fst (parse_int (path_value rq ''id''))" "h a en rq s = (reply, s')"
proof -
  obtain aid ok where p: "parse_int (path_value rq ''id'') = (aid, ok)" by fastforce
  let ?rows = "filter (\<lambda>r. ar_id r = aid) (db_accounts (po_db s))"
  have g: "po_store (GetAccount aid) s = (map_sum id scanAccount (one_row ?rows), s)"
    using GetAccount_no_fault [OF assms(1)] by (simp add: po_store_def)
  show ?thesis
  proof (cases "ok \<and> ?rows \<noteq> []")
    case False
    then have "s' = s" using assms(2) p g by (cases ok) (simp_all add: on_target_def adminTarget_def one_row_def)
    then show ?thesis by (rule refused)
  next
    case True
    then obtain r rs where r: "?rows = r # rs" by (cases ?rows) auto
    then have "r \<in> set (db_accounts (po_db s))" "ar_id r = aid" using r by (auto dest!: filter_eq_ConsD)
    moreover have "h (scanAccount r) en rq s = (reply, s')" using assms(2) p g r True by (simp add: on_target_def adminTarget_def one_row_def)
    moreover have "a_id (scanAccount r) = ar_id r" by (simp add: scanAccount_def)
    ultimately show ?thesis by (intro runs [of "scanAccount r"]) (simp_all add: p)
  qed
qed

text \<open>A request for an account is logged when what it does for the account it finds is.\<close>

lemma on_target_logged:
  assumes "db_faults (po_db s) = []" "0 \<notin> ar_id ` set (db_accounts (po_db s))" "on_target sv h en rq s = (reply, s')"
    "\<And>a. a_id a \<noteq> 0 \<Longrightarrow> h a en rq s = (reply, s') \<Longrightarrow> logged sess (a_id a) s s'"
  shows "logged sess (fst (parse_int (path_value rq ''id''))) s s'"
  using assms(1,3)
proof (cases rule: on_target_cases)
  case (runs a)
  have "a_id a \<noteq> 0" using runs(1) assms(2) by (auto simp: scanAccount_def)
  then show ?thesis using assms(4) runs by metis
qed (simp add: logged_same)

lemma rendered_same: "renderAdminAccount sv en rq sess a status notice msg invite s = (reply, s') \<Longrightarrow> po_same s s'"
  by (rule looksD [OF looks_admin(3)])

lemma ManualGrant_row: "ManualGrant inp games now = Inr e \<Longrightarrow> e_account_id e = mg_account_id inp \<and> e_source e = SourceManual"
  by (auto simp: ManualGrant_def grant_until_def Let_def split: if_splits option.splits sum.splits)

lemma admin_account_logged:
  assumes "db_faults (po_db s) = []" "0 \<notin> ar_id ` set (db_accounts (po_db s))"
  shows "adminStatus sv sess admin en rq s = (reply, s') \<Longrightarrow> logged sess (fst (parse_int (path_value rq ''id''))) s s'"
    and "adminNote sv sess admin en rq s = (reply, s') \<Longrightarrow> logged sess (fst (parse_int (path_value rq ''id''))) s s'"
    and "adminRevokeKey sv sess admin en rq s = (reply, s') \<Longrightarrow> logged sess (fst (parse_int (path_value rq ''id''))) s s'"
proof -
  note call = logged_call [OF _ assms(1)]
  assume h: "adminStatus sv sess admin en rq s = (reply, s')"
  show "logged sess (fst (parse_int (path_value rq ''id''))) s s'"
  proof (rule on_target_logged [OF assms h [unfolded adminStatus_def]], goal_cases)
    case (1 a)
    obtain r s1 where f: "po_store (SetAccountStatus (a_id a) (parse_status (FormValue rq ''status''))) s = (r, s1)" by fastforce
    show ?case using 1(2) f call [OF acts_on_accounts(1) f] by (cases r) (auto simp: Let_def logged_same dest: rendered_same split: if_splits)
  qed
next
  note call = logged_call [OF _ assms(1)]
  assume h: "adminNote sv sess admin en rq s = (reply, s')"
  show "logged sess (fst (parse_int (path_value rq ''id''))) s s'"
  proof (rule on_target_logged [OF assms h [unfolded adminNote_def]], goal_cases)
    case (1 a)
    obtain r s1 where f: "po_store (SetAccountNote (a_id a) (trim_space (FormValue rq ''note''))) s = (r, s1)" by fastforce
    show ?case using 1(2) f call [OF acts_on_accounts(2) f] by (cases r) (auto simp: Let_def logged_same dest: rendered_same split: if_splits)
  qed
next
  note call = logged_call [OF _ assms(1)]
  assume h: "adminRevokeKey sv sess admin en rq s = (reply, s')"
  show "logged sess (fst (parse_int (path_value rq ''id''))) s s'"
  proof (rule on_target_logged [OF assms h [unfolded adminRevokeKey_def]], goal_cases)
    case (1 a)
    obtain kid ok where k: "parse_int (path_value rq ''kid'') = (kid, ok)" by fastforce
    obtain r s1 where f: "po_store (RevokeKey kid (a_id a)) s = (r, s1)" by fastforce
    show ?case using 1(2) f k call [OF acts_on_RevokeKey [OF 1(1)] f] by (cases r) (auto simp: logged_same dest: rendered_same split: if_splits)
  qed
qed

lemma admin_access_logged:
  assumes "db_faults (po_db s) = []" "0 \<notin> ar_id ` set (db_accounts (po_db s))"
  shows "adminAddEntitlement sv sess admin en rq s = (reply, s') \<Longrightarrow> logged sess (fst (parse_int (path_value rq ''id''))) s s'"
    and "adminEndEntitlement sv sess admin en rq s = (reply, s') \<Longrightarrow> logged sess (fst (parse_int (path_value rq ''id''))) s s'"
    and "adminInvite sv sess admin en rq s = (reply, s') \<Longrightarrow> logged sess (fst (parse_int (path_value rq ''id''))) s s'"
proof -
  note call = logged_call [OF _ assms(1)]
  assume h: "adminAddEntitlement sv sess admin en rq s = (reply, s')"
  show "logged sess (fst (parse_int (path_value rq ''id''))) s s'"
  proof (rule on_target_logged [OF assms h [unfolded adminAddEntitlement_def]], goal_cases)
    case (1 a)
    show ?case
    proof (cases "\<exists>n e. lookback_field rq = Some n \<and> ManualGrant (grant_input rq a n) (sv_games sv) (pe_now en) = Inr e")
      case False
      then show ?thesis using 1(2) by (auto simp: logged_same dest: rendered_same split: option.splits sum.splits)
    next
      case True
      then obtain n e where e: "lookback_field rq = Some n" "ManualGrant (grant_input rq a n) (sv_games sv) (pe_now en) = Inr e" by blast
      have act: "acts_on (a_id a) (AddEntitlement (pe_now en) e)"
        by (rule acts_on_AddEntitlement) (use ManualGrant_row [OF e(2)] in \<open>simp_all add: grant_input_def\<close>)
      obtain r s1 where f: "po_store (AddEntitlement (pe_now en) e) s = (r, s1)" by fastforce
      show ?thesis using 1(2) e f call [OF act f] by (cases r) (auto dest: rendered_same)
    qed
  qed
next
  note call = logged_call [OF _ assms(1)]
  assume h: "adminEndEntitlement sv sess admin en rq s = (reply, s')"
  show "logged sess (fst (parse_int (path_value rq ''id''))) s s'"
  proof (rule on_target_logged [OF assms h [unfolded adminEndEntitlement_def]], goal_cases)
    case (1 a)
    obtain eid ok where k: "parse_int (path_value rq ''eid'') = (eid, ok)" by fastforce
    obtain re where le: "po_store (ListEntitlements (a_id a)) s = (re, s)"
      using assms(1) by (simp add: po_store_def ListEntitlements_def listEntitlements_def stmt_no_fault)
    obtain r s1 where f: "po_store (EndEntitlement eid (a_id a) (pe_now en)) s = (r, s1)" by fastforce
    show ?case using 1(2) f k le call [OF acts_on_EndEntitlement [OF 1(1)] f]
      by (cases re; cases r) (auto simp: logged_same end_row_def dest: rendered_same split: if_splits option.splits)
  qed
next
  note call = logged_call [OF _ assms(1)]
  assume h: "adminInvite sv sess admin en rq s = (reply, s')"
  show "logged sess (fst (parse_int (path_value rq ''id''))) s s'"
  proof (rule on_target_logged [OF assms h [unfolded adminInvite_def]], goal_cases)
    case (1 a)
    obtain iv found where iv: "ct_interval (sv_catalog sv) (FormValue rq ''interval'') = (iv, found)" by fastforce
    obtain days ok where days: "parse_int (FormValue rq ''days'') = (days, ok)" by fastforce
    obtain r s1 where f: "po_store (CreateInvite (pe_rand en) (pe_now en) (in_key iv) (a_email a) (days * 24 * hour) (trim_space (FormValue rq ''note''))) s = (r, s1)" by fastforce
    show ?case using 1(2) f iv days call [OF acts_on_CreateInvite f]
      by (cases r) (auto simp: logged_same dest: rendered_same split: if_splits prod.splits)
  qed
qed

text \<open>
  C14: While the driver does not fail, what an admin does on an account's page leaves the rows of every other account and every row that Stripe
  governs as they were, and changes nothing without an entry in the operators' log that names the admin and the account.
\<close>

theorem admin_changes_logged:
  assumes "db_faults (po_db s) = []" "0 \<notin> ar_id ` set (db_accounts (po_db s))"
    "(reply, s') \<in> (\<lambda>h. h sv sess admin en rq s) ` {adminStatus, adminNote, adminRevokeKey, adminAddEntitlement, adminEndEntitlement, adminInvite}"
  shows "logged sess (fst (parse_int (path_value rq ''id''))) s s'"
proof -
  note all = admin_account_logged [OF assms(1,2), of sv sess admin en rq reply s'] admin_access_logged [OF assms(1,2), of sv sess admin en rq reply s']
  show ?thesis using assms(3) by (elim imageE insertE emptyE) (simp_all only: all [OF sym])
qed


theorem admin_changes_logged_witness:
  "logged demo_session 1 demo_portal (snd (adminNote demo_server demo_session demo_account (demo_env 160) (demo_request [(''id'', ''1'')] demo_cookies [(''note'', [''vip''])]) demo_portal))"
proof -
  let ?rq = "demo_request [(''id'', ''1'')] demo_cookies [(''note'', [''vip''])]"
  obtain reply s' where h: "adminNote demo_server demo_session demo_account (demo_env 160) ?rq demo_portal = (reply, s')" by fastforce
  have "(reply, s') \<in> (\<lambda>h. h demo_server demo_session demo_account (demo_env 160) ?rq demo_portal) `
      {adminStatus, adminNote, adminRevokeKey, adminAddEntitlement, adminEndEntitlement, adminInvite}" using h by force
  moreover have "0 \<notin> ar_id ` set (db_accounts (po_db demo_portal))" by (simp add: demo_db_rows new_account_def empty_db_def)
  moreover have "parse_int ''1'' = (1, True)" by code_simp
  then have "fst (parse_int (path_value ?rq ''id'')) = 1" by (simp add: path_value_def demo_request_def)
  ultimately show ?thesis using admin_changes_logged [OF demo_db_rows(2)] h by (metis snd_conv)
qed

end
