(* ===== verification/Portal_Routes.thy ===== *)
theory Portal_Routes
  imports Portal_Admin
begin

text \<open>
  \<open>src/portal/routes.go\<close>: the table of the portal's routes, the guard each one runs behind, and the paths the
  configuration may not take. The properties say which requests can change anything, and who reaches the admin pages.
\<close>

section \<open>The table\<close>

datatype guard = guardPublic | guardSameOrigin | guardSession | guardAdmin | guardCSRFIfSignedIn

datatype route_handler = Plain handler | Signed session_handler

record route =
  rt_method :: string
  rt_pattern :: string
  rt_guard :: guard
  rt_handler :: route_handler
  rt_inline :: bool

definition route_of :: "string \<Rightarrow> string \<Rightarrow> guard \<Rightarrow> route_handler \<Rightarrow> route" where
  "route_of m p g h = \<lparr>rt_method = m, rt_pattern = p, rt_guard = g, rt_handler = h, rt_inline = False\<rparr>"

definition home :: "Server \<Rightarrow> handler" where
  "home sv en rq s = (redirect 302 (sv_pricing_url sv), s)"

definition serveCSS :: handler where
  "serveCSS en rq s =
     (\<lparr>rp_code = 200, rp_body = Stylesheet, rp_headers = [(''Content-Type'', ''text/css; charset=utf-8''), (''Cache-Control'', ''public, max-age=3600'')],
       rp_cookies = []\<rparr>, s)"

definition fixedRoutes :: "Server \<Rightarrow> route list" where
  "fixedRoutes sv =
     [route_of ''GET'' ''/{$}'' guardPublic (Plain (home sv)),
      route_of ''GET'' ''/static/portal.css'' guardPublic (Plain serveCSS),
      route_of ''GET'' ''/login'' guardPublic (Plain (loginForm sv)),
      (route_of ''POST'' ''/login'' guardSameOrigin (Plain (login sv)))\<lparr>rt_inline := True\<rparr>,
      route_of ''GET'' ''/login/{token}'' guardPublic (Plain (loginConfirm sv)),
      route_of ''POST'' ''/login/{token}'' guardSameOrigin (Plain (loginToken sv)),
      route_of ''POST'' ''/logout'' guardCSRFIfSignedIn (Plain (logout sv)),
      route_of ''GET'' ''/checkout'' guardPublic (Plain (checkoutGet sv)),
      route_of ''POST'' ''/checkout'' guardSession (Signed (checkoutPost sv)),
      route_of ''GET'' ''/account'' guardSession (Signed (account sv)),
      route_of ''POST'' ''/account/keys'' guardSession (Signed (createKey sv)),
      route_of ''POST'' ''/account/keys/{id}/revoke'' guardSession (Signed (revokeKey sv)),
      route_of ''POST'' ''/account/plan'' guardSession (Signed (changePlan sv)),
      route_of ''GET'' ''/portal'' guardSession (Signed (portal_link sv)),
      route_of ''GET'' ''/trial'' guardPublic (Plain (trialConfirm sv)),
      route_of ''POST'' ''/trial'' guardSameOrigin (Plain (trial sv)),
      route_of ''GET'' ''/session'' guardPublic (Plain (sessionConfirm sv)),
      route_of ''POST'' ''/session'' guardSameOrigin (Plain (patreonSession sv)),
      route_of ''GET'' ''/admin'' guardAdmin (Signed (adminHome sv)),
      route_of ''POST'' ''/admin/reconcile'' guardAdmin (Signed (adminReconcile sv)),
      route_of ''GET'' ''/admin/usage'' guardAdmin (Signed (adminUsage sv)),
      route_of ''GET'' ''/admin/accounts/{id}'' guardAdmin (Signed (adminAccount sv)),
      route_of ''POST'' ''/admin/accounts/{id}/status'' guardAdmin (Signed (adminStatus sv)),
      route_of ''POST'' ''/admin/accounts/{id}/note'' guardAdmin (Signed (adminNote sv)),
      route_of ''POST'' ''/admin/accounts/{id}/keys/{kid}/revoke'' guardAdmin (Signed (adminRevokeKey sv)),
      route_of ''POST'' ''/admin/accounts/{id}/entitlements'' guardAdmin (Signed (adminAddEntitlement sv)),
      route_of ''POST'' ''/admin/accounts/{id}/entitlements/{eid}/end'' guardAdmin (Signed (adminEndEntitlement sv)),
      route_of ''POST'' ''/admin/accounts/{id}/invites'' guardAdmin (Signed (adminInvite sv))]"

definition routes :: "Server \<Rightarrow> route list" where
  "routes sv = fixedRoutes sv @
     [route_of ''GET'' (sv_success_path sv) guardSession (Signed (success sv)), route_of ''GET'' (sv_cancel_path sv) guardPublic (Plain (cancel sv))]"

text \<open>A handler of the wrong kind is nil in the code, and calling it panics; no route of the table has one.\<close>

definition plain_of :: "route \<Rightarrow> handler option" where
  "plain_of rt = (case rt_handler rt of Plain h \<Rightarrow> Some h | Signed _ \<Rightarrow> None)"

definition signed_of :: "route \<Rightarrow> session_handler option" where
  "signed_of rt = (case rt_handler rt of Plain _ \<Rightarrow> None | Signed h \<Rightarrow> Some h)"

definition wrap :: "Server \<Rightarrow> route \<Rightarrow> handler option" where
  "wrap sv rt =
     (case rt_guard rt of
        guardSameOrigin \<Rightarrow> if rt_inline rt then plain_of rt else map_option (requireSameOrigin sv) (plain_of rt)
      | guardSession \<Rightarrow> map_option (withSession sv) (signed_of rt)
      | guardAdmin \<Rightarrow> map_option (withAdmin sv) (signed_of rt)
      | _ \<Rightarrow> plain_of rt)"

section \<open>Reserved paths\<close>

definition nonPortalReservedExact :: "string list" where "nonPortalReservedExact = [''/healthz'', ''/stripe/webhook'']"
definition nonPortalReservedPrefixes :: "string list" where "nonPortalReservedPrefixes = [''/static/'', ''/v1/'', ''/v2/'']"

text \<open>The first segment of a pattern with more than one, with its slashes.\<close>

definition first_segment :: "string \<Rightarrow> string option" where
  "first_segment p = (case cut CHR ''/'' (drop 1 p) of (seg, _, found) \<Rightarrow> if found then Some (take 1 p @ seg @ ''/'') else None)"

definition reserve_pattern :: "string list \<times> string list \<Rightarrow> string \<Rightarrow> string list \<times> string list" where
  "reserve_pattern acc p0 =
     (case acc of (exact, prefixes) \<Rightarrow>
        let p = (if p0 = ''/{$}'' then ''/'' else p0) in
        (if CHR ''{'' \<notin> set p \<and> p \<notin> set exact then exact @ [p] else exact,
         case first_segment p of Some f \<Rightarrow> if f \<notin> set prefixes then prefixes @ [f] else prefixes | None \<Rightarrow> prefixes))"

definition reservedFromRoutes :: "Server \<Rightarrow> string list \<times> string list" where
  "reservedFromRoutes sv = foldl reserve_pattern (nonPortalReservedExact, nonPortalReservedPrefixes) (map rt_pattern (fixedRoutes sv))"

text \<open>The code builds the table for an empty server; the patterns do not depend on it.\<close>

definition Reserved :: "Server \<Rightarrow> string \<Rightarrow> bool" where
  "Reserved sv path =
     (case reservedFromRoutes sv of (exact, prefixes) \<Rightarrow> path \<in> set exact \<or> list_ex (has_prefix path) prefixes)"


section \<open>Pages that only look\<close>

lemma looks_pages [looks_intros]:
  "looks (home sv en rq)" "looks (serveCSS en rq)" "looks (loginForm sv en rq)" "looks (loginConfirm sv en rq)"
  "looks (trialConfirm sv en rq)" "looks (sessionConfirm sv en rq)"
  unfolding home_def serveCSS_def loginForm_def loginConfirm_def trialConfirm_def sessionConfirm_def by (intro looks_intros)+

lemma looks_account_pages [looks_intros]: "looks (account sv sess a en rq)" "looks (portal_link sv sess a en rq)"
  unfolding account_def portal_link_def by (intro looks_intros)+

lemma looks_success [looks_intros]: "looks (success sv sess a en rq)"
  unfolding success_def by (intro looks_intros)

lemma looks_checkout [looks_intros]:
  "looks (hasActiveStripePlan aid)" "looks (subscriptionFor aid)" "looks (currentIntervalFor sv sess plan)"
  unfolding hasActiveStripePlan_def subscriptionFor_def currentIntervalFor_def by (intro looks_intros)+

lemma looks_checkout_confirm [looks_intros]: "looks (checkout_confirm sv en rq resolved invite returnTo change sess)"
  unfolding checkout_confirm_def Let_def by (intro looks_intros)

lemma looks_checkoutGet [looks_intros]: "looks (checkoutGet sv en rq)"
  unfolding checkoutGet_def Let_def
  apply (intro looks_intros)
  subgoal for q e by (cases e) (simp_all add: looks_pair)
  done

lemma looks_admin_usage [looks_intros]: "looks (usage_account rq)" "looks (usage_by_key since to aid)" "looks (usage_paths since to prefix rows)"
  unfolding usage_account_def usage_by_key_def usage_paths_def Let_def by (intro looks_intros)+

lemma looks_admin_pages [looks_intros]: "looks (adminHome sv sess a en rq)" "looks (adminUsage sv sess a en rq)" "looks (adminAccount sv sess a en rq)"
  unfolding adminHome_def adminUsage_def adminAccount_def on_target_def by (intro looks_intros)+

lemma looks_withSession [looks_intros]: "(\<And>sess a. looks (h sess a en rq)) \<Longrightarrow> looks (withSession sv h en rq)"
  unfolding withSession_def by (intro looks_intros)

lemma looks_withAdmin [looks_intros]: "(\<And>sess a. looks (h sess a en rq)) \<Longrightarrow> looks (withAdmin sv h en rq)"
  unfolding withAdmin_def by (intro looks_intros)

section \<open>What guards a change\<close>

text \<open>The library's mux also sends a HEAD request to a GET pattern.\<close>

definition mux_serves :: "route \<Rightarrow> portal_request \<Rightarrow> bool" where
  "mux_serves rt rq \<longleftrightarrow> pq_method rq = rt_method rt \<or> rt_method rt = ''GET'' \<and> pq_method rq = ''HEAD''"

definition csrf_checked :: "Server \<Rightarrow> portal_env \<Rightarrow> portal_request \<Rightarrow> bool" where
  "csrf_checked sv en rq \<longleftrightarrow>
     (case Read (sv_sessions sv) (pe_now en) (pq_cookies rq) of
        Inl _ \<Rightarrow> False
      | Inr sess \<Rightarrow> CheckCSRF (sv_sessions sv) sess (PostFormValue rq ''csrf''))"

text \<open>A sealed pending cookie that names a checkout session and the invite it holds.\<close>

definition pending_checkout :: "Server \<Rightarrow> portal_env \<Rightarrow> portal_request \<Rightarrow> bool" where
  "pending_checkout sv en rq \<longleftrightarrow>
     (case pending_of sv en rq of None \<Rightarrow> False | Some pv \<Rightarrow> values_get pv ''invite'' \<noteq> [] \<and> values_get pv ''cs'' \<noteq> [])"

definition changes_need :: "bool \<Rightarrow> (portal_state \<Rightarrow> 'a \<times> portal_state) \<Rightarrow> bool" where
  "changes_need ok f \<longleftrightarrow> ok \<or> looks f"

lemma need_session: "changes_need (csrf_checked sv en rq) (withSession sv h en rq)" if "pq_method rq = ''POST''"
proof (cases "csrf_checked sv en rq")
  case False
  have "po_same s (snd (withSession sv h en rq s))" for s
  proof (cases "withSession sv h en rq s" rule: prod.exhaust)
    case (Pair reply s')
    then show ?thesis
    proof (cases rule: withSession_cases)
      case (runs sess a s1)
      then show ?thesis using False that current_session_reads [OF runs(1)] by (simp add: csrf_checked_def)
    next
      case refused
      then show ?thesis using Pair by simp
    qed
  qed
  then show ?thesis by (simp add: changes_need_def looks_def)
qed (simp add: changes_need_def)

lemma need_admin: "pq_method rq = ''POST'' \<Longrightarrow> changes_need (csrf_checked sv en rq) (withAdmin sv h en rq)"
  unfolding withAdmin_def by (rule need_session)

lemma need_origin: "changes_need (sameOrigin sv rq) (requireSameOrigin sv h en rq)"
  by (simp add: changes_need_def requireSameOrigin_def looks_def)

lemma need_origin_login: "changes_need (sameOrigin sv rq) (login sv en rq)"
  by (simp add: changes_need_def login_def looks_def Let_def)

lemma need_csrf_logout: "changes_need (csrf_checked sv en rq) (logout sv en rq)"
  by (simp add: changes_need_def csrf_checked_def logout_def looks_def Let_def split: sum.split)

lemma cancel_state:
  "snd (cancel sv en rq s) = snd (current_session sv en rq (case pending_of sv en rq of None \<Rightarrow> s | Some pv \<Rightarrow> abandon_pending sv pv s))"
  unfolding cancel_def by (cases "pending_of sv en rq") (simp_all split: prod.split)

lemma need_pending_cancel: "changes_need (pending_checkout sv en rq) (cancel sv en rq)"
proof (cases "pending_checkout sv en rq")
  case False
  then have "(case pending_of sv en rq of None \<Rightarrow> s | Some pv \<Rightarrow> abandon_pending sv pv s) = s" for s
    by (cases "pending_of sv en rq") (auto simp: pending_checkout_def abandon_pending_def)
  then show ?thesis using looks_current_session by (simp add: changes_need_def looks_def cancel_state)
qed (simp add: changes_need_def)

lemma needD: "changes_need ok f \<Longrightarrow> f s = (r, s') \<Longrightarrow> \<not> po_same s s' \<Longrightarrow> ok"
  unfolding changes_need_def by (auto dest: looksD)


text \<open>What every change made through a route of the table needs.\<close>

definition change_allowed :: "Server \<Rightarrow> route \<Rightarrow> portal_env \<Rightarrow> portal_request \<Rightarrow> bool" where
  "change_allowed sv rt en rq \<longleftrightarrow>
     rt_method rt = ''POST'' \<and> (sameOrigin sv rq \<or> csrf_checked sv en rq) \<or>
     rt_pattern rt = sv_cancel_path sv \<and> pending_checkout sv en rq"

lemma route_of_fields [simp]:
  "rt_method (route_of m p g h) = m" "rt_pattern (route_of m p g h) = p" "rt_guard (route_of m p g h) = g" "rt_handler (route_of m p g h) = h"
  "rt_inline (route_of m p g h) = False"
  by (simp_all add: route_of_def)

lemma wrap_simps:
  "rt_guard rt = guardPublic \<Longrightarrow> wrap sv rt = plain_of rt" "rt_guard rt = guardCSRFIfSignedIn \<Longrightarrow> wrap sv rt = plain_of rt"
  "rt_guard rt = guardSession \<Longrightarrow> wrap sv rt = map_option (withSession sv) (signed_of rt)"
  "rt_guard rt = guardAdmin \<Longrightarrow> wrap sv rt = map_option (withAdmin sv) (signed_of rt)"
  "rt_guard rt = guardSameOrigin \<Longrightarrow> wrap sv rt = (if rt_inline rt then plain_of rt else map_option (requireSameOrigin sv) (plain_of rt))"
  by (simp_all add: wrap_def)

definition route_guarded :: "Server \<Rightarrow> portal_env \<Rightarrow> portal_request \<Rightarrow> route \<Rightarrow> bool" where
  "route_guarded sv en rq rt \<longleftrightarrow>
     (\<exists>h. wrap sv rt = Some h \<and> (mux_serves rt rq \<longrightarrow> changes_need (change_allowed sv rt en rq) (h en rq)))"

lemma guarded_public: "looks (h en rq) \<Longrightarrow> route_guarded sv en rq (route_of ''GET'' p guardPublic (Plain h))"
  by (simp add: route_guarded_def wrap_simps plain_of_def changes_need_def)

lemma guarded_session_page: "(\<And>sess a. looks (h sess a en rq)) \<Longrightarrow> route_guarded sv en rq (route_of ''GET'' p guardSession (Signed h))"
  using looks_withSession by (simp add: route_guarded_def wrap_simps signed_of_def changes_need_def)

lemma guarded_admin_page: "(\<And>sess a. looks (h sess a en rq)) \<Longrightarrow> route_guarded sv en rq (route_of ''GET'' p guardAdmin (Signed h))"
  using looks_withAdmin by (simp add: route_guarded_def wrap_simps signed_of_def changes_need_def)

lemma guarded_posts:
  "route_guarded sv en rq (route_of ''POST'' p guardSession (Signed h))"
  "route_guarded sv en rq (route_of ''POST'' p guardAdmin (Signed h))"
  "route_guarded sv en rq (route_of ''POST'' p guardSameOrigin (Plain g))"
  using need_session [of rq sv en h] need_admin [of rq sv en h] need_origin [of sv rq g en]
  by (auto simp: route_guarded_def wrap_simps signed_of_def plain_of_def changes_need_def change_allowed_def mux_serves_def)

lemma guarded_login: "route_guarded sv en rq ((route_of ''POST'' p guardSameOrigin (Plain (login sv)))\<lparr>rt_inline := True\<rparr>)"
  using need_origin_login [of sv rq en] by (auto simp: route_guarded_def wrap_simps plain_of_def changes_need_def change_allowed_def)

lemma guarded_logout: "route_guarded sv en rq (route_of ''POST'' p guardCSRFIfSignedIn (Plain (logout sv)))"
  using need_csrf_logout [of sv en rq] by (auto simp: route_guarded_def wrap_simps plain_of_def changes_need_def change_allowed_def)

lemma guarded_cancel: "route_guarded sv en rq (route_of ''GET'' (sv_cancel_path sv) guardPublic (Plain (cancel sv)))"
  using need_pending_cancel [of sv en rq] by (auto simp: route_guarded_def wrap_simps plain_of_def changes_need_def change_allowed_def)

lemma routes_guarded: "list_all (route_guarded sv en rq) (routes sv)"
  unfolding routes_def fixedRoutes_def append.simps list.pred_inject(2)
  by (intro conjI list.pred_inject(1) guarded_posts guarded_login guarded_logout guarded_cancel guarded_public guarded_session_page guarded_admin_page looks_intros)



lemma demo_logout_changes:
  "\<not> po_same demo_portal (snd (logout demo_server (demo_env 160) (demo_request [] demo_cookies [(''csrf'', [CSRF sample_codec demo_session])]) demo_portal))"
  unfolding logout_accounts [OF demo_db_rows(2) demo_csrf]
  by (simp add: po_same_def demo_db_rows demo_session_def session_for_def demo_account_def scanAccount_def new_account_def) (auto simp: demo_db_rows new_account_def dest!: arg_cong [of _ _ "\<lambda>s. db_accounts (po_db s)"])


section \<open>The admin pages\<close>


lemma admin_routes:
  assumes "rt \<in> set (fixedRoutes sv)" "has_prefix (rt_pattern rt) ''/admin''" "wrap sv rt = Some h"
  obtains g where "h = withAdmin sv g"
proof -
  have "rt_guard rt = guardAdmin" using assms(1,2) by (auto simp: fixedRoutes_def has_prefix_def)
  then show ?thesis using assms(3) that by (auto simp: wrap_simps)
qed

text \<open>
  C13: Behind the paths under /admin, only an active account whose email the configuration lists gets anything but a
  refusal or a plain 404, and a request that is refused changes nothing.
\<close>

theorem admin_pages_admins_only:
  assumes "rt \<in> set (fixedRoutes sv)" "has_prefix (rt_pattern rt) ''/admin''" "wrap sv rt = Some h" "h en rq s = (reply, s')"
  shows "(\<exists>sess a s1. current_session sv en rq s = (Inr (sess, a), s1) \<and> a_status a = AccountActive \<and> isAdmin sv (a_email a) \<and>
       Read (sv_sessions sv) (pe_now en) (pq_cookies rq) = Inr sess) \<or>
     po_same s s' \<and> reply \<in> {http_not_found, redirect 302 ''/login'', http_error 401 ''sign in first'', http_error 403 csrfExpiredMsg, fail_page sv en rq 403 suspendedMsg}"
proof -
  obtain g where "h = withAdmin sv g" using admin_routes [OF assms(1-3)] .
  then have w: "withSession sv (\<lambda>sess a en rq s. if isAdmin sv (a_email a) then g sess a en rq s else (http_not_found, s)) en rq s = (reply, s')"
    using assms(4) by (simp add: withAdmin_def)
  then show ?thesis
  proof (cases rule: withSession_cases)
    case (runs sess a s1)
    then show ?thesis using current_session_reads [OF runs(1)] looksD [OF looks_current_session runs(1)] by (cases "isAdmin sv (a_email a)") auto
  next
    case refused
    then show ?thesis by blast
  qed
qed


theorem admin_pages_admins_only_witness:
  "po_same demo_portal (snd (withAdmin demo_server (adminReconcile demo_server) (demo_env 160) (demo_request [] [] []) demo_portal))"
proof -
  let ?rt = "route_of ''POST'' ''/admin/reconcile'' guardAdmin (Signed (adminReconcile demo_server))"
  let ?h = "withAdmin demo_server (adminReconcile demo_server)"
  obtain reply s' where h: "?h (demo_env 160) (demo_request [] [] []) demo_portal = (reply, s')" by fastforce
  have rt: "?rt \<in> set (fixedRoutes demo_server)" "has_prefix (rt_pattern ?rt) ''/admin''" "wrap demo_server ?rt = Some ?h"
    by (simp_all add: fixedRoutes_def has_prefix_def wrap_simps signed_of_def)
  have "Read (sv_sessions demo_server) t (pq_cookies (demo_request [] [] [])) = Inl ErrInvalid" for t
    by (simp add: demo_request_def Read_def request_cookie_def)
  with admin_pages_admins_only [OF rt h] h show ?thesis by simp
qed

section \<open>Reserved paths\<close>

text \<open>
  Which paths a pattern of the mux takes; a wildcard stands for any one segment.
\<close>

definition pattern_matches :: "string \<Rightarrow> string \<Rightarrow> bool" where
  "pattern_matches pat path \<longleftrightarrow>
     (if pat = ''/{$}'' then path = ''/''
      else list_all2 (\<lambda>p s. has_prefix p ''{'' \<or> p = s) (split_on CHR ''/'' pat) (split_on CHR ''/'' path))"

text \<open>A pattern is covered when it is literal and reserved itself, or its first segment is.\<close>

definition covered :: "string list \<times> string list \<Rightarrow> string \<Rightarrow> bool" where
  "covered res p \<longleftrightarrow>
     (if p = ''/{$}'' then ''/'' \<in> set (fst res)
      else if CHR ''{'' \<notin> set p then p \<in> set (fst res)
      else case split_on CHR ''/'' p of
          [] # seg # _ # _ \<Rightarrow> CHR ''{'' \<notin> set seg \<and> (''/'' @ seg @ ''/'') \<in> set (snd res)
        | _ \<Rightarrow> False)"

text \<open>The patterns alone, which do not depend on the server.\<close>

definition fixedPatterns :: "string list" where
  "fixedPatterns =
    [''/{$}'', ''/static/portal.css'', ''/login'', ''/login'', ''/login/{token}'', ''/login/{token}'', ''/logout'', ''/checkout'', ''/checkout'', ''/account'',
    ''/account/keys'', ''/account/keys/{id}/revoke'', ''/account/plan'', ''/portal'', ''/trial'', ''/trial'', ''/session'', ''/session'', ''/admin'', ''/admin/reconcile'',
    ''/admin/usage'', ''/admin/accounts/{id}'', ''/admin/accounts/{id}/status'', ''/admin/accounts/{id}/note'', ''/admin/accounts/{id}/keys/{kid}/revoke'',
    ''/admin/accounts/{id}/entitlements'', ''/admin/accounts/{id}/entitlements/{eid}/end'', ''/admin/accounts/{id}/invites'']"

lemma fixedRoutes_patterns: "map rt_pattern (fixedRoutes sv) = fixedPatterns"
  by (simp add: fixedRoutes_def fixedPatterns_def)

lemma routes_covered: "list_all (covered (reservedFromRoutes sv')) (map rt_pattern (fixedRoutes sv))"
proof -
  have "list_all (covered (foldl reserve_pattern (nonPortalReservedExact, nonPortalReservedPrefixes) fixedPatterns)) fixedPatterns" by code_simp
  then show ?thesis by (simp only: reservedFromRoutes_def fixedRoutes_patterns)
qed

lemma has_prefix_split:
  assumes "split_on CHR ''/'' path = [] # seg # r # rs"
  shows "has_prefix path (''/'' @ seg @ ''/'')"
proof -
  have "path = join [CHR ''/''] ([] # seg # r # rs)" using join_split [of "CHR ''/''" path] assms by simp
  then show ?thesis by (simp add: has_prefix_def)
qed

lemma no_brace: "CHR ''{'' \<notin> set q \<Longrightarrow> \<not> has_prefix q ''{''"
  by (cases q) (auto simp: has_prefix_def)

lemma covered_matches:
  assumes "covered res p" "pattern_matches p path"
  shows "path \<in> set (fst res) \<or> list_ex (has_prefix path) (snd res)"
proof (cases "p = ''/{$}'' \<or> CHR ''{'' \<notin> set p")
  case True
  have "path = p" if "CHR ''{'' \<notin> set p" "p \<noteq> ''/{$}''"
  proof -
    have "\<not> has_prefix q ''{''" if "q \<in> set (split_on CHR ''/'' p)" for q
      using no_brace \<open>CHR ''{'' \<notin> set p\<close> set_split_on_subset [OF that] by blast
    moreover have "list_all2 (\<lambda>q s. has_prefix q ''{'' \<or> q = s) (split_on CHR ''/'' p) (split_on CHR ''/'' path)"
      using assms(2) that by (simp add: pattern_matches_def)
    ultimately have "list_all2 (=) (split_on CHR ''/'' p) (split_on CHR ''/'' path)" by (metis (no_types, lifting) list.rel_mono_strong)
    then have "split_on CHR ''/'' p = split_on CHR ''/'' path" by (simp add: list.rel_eq)
    then show ?thesis using join_split by metis
  qed
  then show ?thesis using True assms by (auto simp: covered_def pattern_matches_def split: if_splits)
next
  case False
  then obtain seg q qs where sp: "split_on CHR ''/'' p = [] # seg # q # qs" "CHR ''{'' \<notin> set seg" "(''/'' @ seg @ ''/'') \<in> set (snd res)"
    using assms(1) by (auto simp: covered_def split: list.splits)
  note no_brace [OF sp(2)]
  then obtain r rs where "split_on CHR ''/'' path = [] # seg # r # rs"
    using assms(2) False sp(1) by (auto simp: pattern_matches_def list_all2_Cons1 has_prefix_def)
  from has_prefix_split [OF this] show ?thesis using sp(3) unfolding list_ex_iff by blast
qed

text \<open>
  Every path that a fixed route of the portal serves is reserved, so a configured landing page can
  never take it over.
\<close>

theorem Reserved_covers_routes:
  assumes "rt \<in> set (fixedRoutes sv)" "pattern_matches (rt_pattern rt) path"
  shows "Reserved sv' path"
proof -
  have "covered (reservedFromRoutes sv') (rt_pattern rt)" using routes_covered assms(1) by (auto simp: list_all_iff)
  from covered_matches [OF this assms(2)] show ?thesis by (simp add: Reserved_def case_prod_beta)
qed

theorem Reserved_covers_routes_witness: "Reserved demo_server ''/account/keys/7/revoke''"
proof (rule Reserved_covers_routes)
  show "route_of ''POST'' ''/account/keys/{id}/revoke'' guardSession (Signed (revokeKey demo_server)) \<in> set (fixedRoutes demo_server)" by (simp add: fixedRoutes_def)
  have "pattern_matches ''/account/keys/{id}/revoke'' ''/account/keys/7/revoke''" by code_simp
  then show "pattern_matches (rt_pattern (route_of ''POST'' ''/account/keys/{id}/revoke'' guardSession (Signed (revokeKey demo_server)))) ''/account/keys/7/revoke''" by simp
qed

end
