(* ===== verification/Config.thy ===== *)
theory Config
  imports Complex_Main Portal_Routes Route
begin

text \<open>
  \<open>src/config/config.go\<close>: the configuration after decoding, its defaults and its validation. Reading the file and decoding the
  JSON are left out: \<open>Parse_decoded\<close> takes what the decoder gives, the configuration and which of three settings the file names.
  \<open>net/mail\<close>'s address parser is an argument. Numbers with a fraction are rationals.
\<close>

section \<open>Data\<close>

record Game =
  gm_upstream :: string
  gm_secret :: string

record StripeConfig =
  sc_grace_days :: int
  sc_success_path :: string
  sc_cancel_path :: string

text \<open>The database settings are only handed on, so here they are a host, or missing.\<close>

record Config =
  cg_port :: string
  cg_instance_name :: string
  cg_link :: string
  cg_client_ip_header :: string
  cg_public_url :: string
  cg_gateway_email :: string
  cg_apiaccess :: "string option"
  cg_observability :: "string option"
  cg_discord_hook :: string
  cg_games :: "(string \<times> Game) list"
  cg_known_stores :: "string list"
  cg_cache_ttl_seconds :: int
  cg_stale_grace_seconds :: int
  cg_lookup_timeout_seconds :: int
  cg_per_key_requests_per_sec :: rat
  cg_per_key_burst :: int
  cg_per_key_history_requests_per_sec :: rat
  cg_per_key_history_burst :: int
  cg_per_ip_requests_per_sec :: rat
  cg_per_ip_burst :: int
  cg_upstream_timeout_seconds :: int
  cg_sig_ttl_seconds :: int
  cg_shutdown_grace_seconds :: int
  cg_usage_retention_days :: int
  cg_audit_retention_days :: int
  cg_stripe :: StripeConfig
  cg_pricing_url :: string
  cg_admin_emails :: "string list"
  cg_mail_from :: string
  cg_trial_days :: int
  cg_login_links_per_hour :: int
  cg_history_on_sale :: bool

text \<open>Which of the settings the file names itself.\<close>

record given_settings =
  gv_client_ip_header :: bool
  gv_audit_retention_days :: bool
  gv_grace_days :: bool

datatype config_error =
    GatewayEmailMissing | ApiAccessMissing | PublicURLNotAbsolute | PricingURLNotAbsolute | TrialDaysNegative | LoginLinksNegative
  | SigTTLNotPositive | AuditRetentionNegative | MailFromInvalid | GraceDaysNegative | SuccessPathNoSlash | CancelPathNoSlash
  | LandingPathsEqual | LandingBraces string | LandingReserved string | NoGames | GameName string | GameSecretEmpty string | GameUpstream string

section \<open>Defaults\<close>

definition DefaultClientIPHeader :: string where "DefaultClientIPHeader = ''DO-Connecting-IP''"
definition DefaultPublicURL :: string where "DefaultPublicURL = ''https://api.mtgban.com''"

definition or_default :: "'a::linordered_idom \<Rightarrow> 'a \<Rightarrow> 'a" where
  "or_default d x = (if x \<le> 0 then d else x)"

definition or_text :: "string \<Rightarrow> string \<Rightarrow> string" where
  "or_text d x = (if x = [] then d else x)"

definition or_zero :: "int \<Rightarrow> int \<Rightarrow> int" where
  "or_zero d x = (if x = 0 then d else x)"

definition admin_list :: "string list \<Rightarrow> string list" where
  "admin_list es = filter (\<lambda>e. e \<noteq> []) (map (\<lambda>e. to_lower (trim_space e)) es)"

definition applyDefaults :: "bool \<Rightarrow> bool \<Rightarrow> bool \<Rightarrow> Config \<Rightarrow> Config" where
  "applyDefaults defaultClientIPHeader defaultAuditRetention defaultGraceDays c =
     c\<lparr>cg_client_ip_header := (if defaultClientIPHeader then DefaultClientIPHeader else cg_client_ip_header c),
       cg_port := or_text ''8080'' (cg_port c),
       cg_instance_name := or_text ''api-gatewahy'' (cg_instance_name c),
       cg_link := or_text ''http://www.mtgban.com'' (cg_link c),
       cg_cache_ttl_seconds := or_default 60 (cg_cache_ttl_seconds c),
       cg_stale_grace_seconds := or_default 600 (cg_stale_grace_seconds c),
       cg_lookup_timeout_seconds := or_default 5 (cg_lookup_timeout_seconds c),
       cg_per_key_requests_per_sec := or_default 10 (cg_per_key_requests_per_sec c),
       cg_per_key_burst := or_default 5 (cg_per_key_burst c),
       cg_per_key_history_requests_per_sec := or_default 1 (cg_per_key_history_requests_per_sec c),
       cg_per_key_history_burst := or_default 5 (cg_per_key_history_burst c),
       cg_per_ip_requests_per_sec := or_default 50 (cg_per_ip_requests_per_sec c),
       cg_per_ip_burst := or_default 100 (cg_per_ip_burst c),
       cg_upstream_timeout_seconds := or_default 300 (cg_upstream_timeout_seconds c),
       cg_sig_ttl_seconds := or_default 300 (cg_sig_ttl_seconds c),
       cg_shutdown_grace_seconds := or_default 60 (cg_shutdown_grace_seconds c),
       cg_usage_retention_days := or_default 395 (cg_usage_retention_days c),
       cg_audit_retention_days := (if defaultAuditRetention then 90 else cg_audit_retention_days c),
       cg_public_url := or_text DefaultPublicURL (cg_public_url c),
       cg_stripe := \<lparr>sc_grace_days = (if defaultGraceDays then 10 else sc_grace_days (cg_stripe c)),
         sc_success_path = or_text ''/checkout/success'' (sc_success_path (cg_stripe c)),
         sc_cancel_path = or_text ''/checkout/cancel'' (sc_cancel_path (cg_stripe c))\<rparr>,
       cg_pricing_url := or_text ''https://mtgban.com/api-plans'' (cg_pricing_url c),
       cg_mail_from := or_text ''MTGBAN <no-reply@mtgban.com>'' (cg_mail_from c),
       cg_trial_days := or_zero 15 (cg_trial_days c),
       cg_login_links_per_hour := or_zero 5 (cg_login_links_per_hour c),
       cg_admin_emails := admin_list (cg_admin_emails c)\<rparr>"

section \<open>Validation\<close>

definition absolute_url :: "string \<Rightarrow> bool" where
  "absolute_url s = (case Parse s of None \<Rightarrow> False | Some u \<Rightarrow> ur_scheme u \<noteq> [] \<and> ur_host u \<noteq> [])"

definition first_config_error :: "config_error option list \<Rightarrow> config_error option" where
  "first_config_error es = (case find (\<lambda>e. e \<noteq> None) es of Some e \<Rightarrow> e | None \<Rightarrow> None)"

definition landing_error :: "string \<Rightarrow> string \<Rightarrow> config_error option" where
  "landing_error name path =
     (if CHR ''{'' \<in> set path \<or> CHR ''}'' \<in> set path then Some (LandingBraces name)
      else if path = ''/'' \<or> path = ''/healthz'' \<or> path = ''/stripe/webhook'' \<or> has_prefix path ''/v1/'' \<or> has_prefix path ''/v2/'' then Some (LandingReserved name)
      else None)"

definition Config_GameNames :: "Config \<Rightarrow> string list" where
  "Config_GameNames c = sort (map fst (cg_games c))"

definition game_error :: "Config \<Rightarrow> string \<Rightarrow> config_error option" where
  "game_error c name =
     (let g = (case map_of (cg_games c) name of Some g \<Rightarrow> g | None \<Rightarrow> \<lparr>gm_upstream = [], gm_secret = []\<rparr>) in
      if \<not> gameName name then Some (GameName name)
      else if gm_secret g = [] then Some (GameSecretEmpty name)
      else if \<not> absolute_url (gm_upstream g) then Some (GameUpstream name)
      else None)"

definition Config_Validate :: "(string \<Rightarrow> bool) \<Rightarrow> Config \<Rightarrow> config_error option" where
  "Config_Validate address_ok c =
     (let st = cg_stripe c in
      if cg_gateway_email c = [] then Some GatewayEmailMissing
      else if cg_apiaccess c = None then Some ApiAccessMissing
      else if \<not> absolute_url (cg_public_url c) then Some PublicURLNotAbsolute
      else if \<not> absolute_url (cg_pricing_url c) then Some PricingURLNotAbsolute
      else if cg_trial_days c < 0 then Some TrialDaysNegative
      else if cg_login_links_per_hour c < 0 then Some LoginLinksNegative
      else if cg_sig_ttl_seconds c \<le> 0 then Some SigTTLNotPositive
      else if cg_audit_retention_days c < 0 then Some AuditRetentionNegative
      else if \<not> address_ok (cg_mail_from c) then Some MailFromInvalid
      else if sc_grace_days st < 0 then Some GraceDaysNegative
      else if \<not> has_prefix (sc_success_path st) ''/'' then Some SuccessPathNoSlash
      else if \<not> has_prefix (sc_cancel_path st) ''/'' then Some CancelPathNoSlash
      else if sc_success_path st = sc_cancel_path st then Some LandingPathsEqual
      else case first_config_error [landing_error ''success_path'' (sc_success_path st), landing_error ''cancel_path'' (sc_cancel_path st)] of
          Some e \<Rightarrow> Some e
        | None \<Rightarrow> if cg_games c = [] then Some NoGames else first_config_error (map (game_error c) (Config_GameNames c)))"

definition Parse_decoded :: "(string \<Rightarrow> bool) \<Rightarrow> given_settings \<Rightarrow> Config \<Rightarrow> config_error + Config" where
  "Parse_decoded address_ok given c0 =
     (let c = applyDefaults (\<not> gv_client_ip_header given) (\<not> gv_audit_retention_days given) (\<not> gv_grace_days given) c0 in
      case Config_Validate address_ok c of Some e \<Rightarrow> Inl e | None \<Rightarrow> Inr c)"

definition CheckoutURLs :: "Config \<Rightarrow> string \<times> string" where
  "CheckoutURLs c =
     (let base = rev (dropWhile (\<lambda>x. x = CHR ''/'') (rev (cg_public_url c))) in
      (base @ sc_success_path (cg_stripe c), base @ sc_cancel_path (cg_stripe c)))"

section \<open>A parsed configuration\<close>

lemma or_default_pos [simp]: "0 < d \<Longrightarrow> 0 < or_default d x" by (simp add: or_default_def)
lemma or_default_kept [simp]: "0 < x \<Longrightarrow> or_default d x = x" by (simp add: or_default_def)
lemma or_text_kept [simp]: "x \<noteq> [] \<Longrightarrow> or_text d x = x" by (simp add: or_text_def)
lemma or_text_not_Nil [simp]: "d \<noteq> [] \<Longrightarrow> or_text d x \<noteq> []" by (simp add: or_text_def)
lemma or_zero_twice [simp]: "or_zero d (or_zero d x) = or_zero d x" by (simp add: or_zero_def)

lemma admin_list_normal: "e \<in> set (admin_list es) \<Longrightarrow> e \<noteq> [] \<and> to_lower (trim_space e) = e"
  by (auto simp: admin_list_def)

lemma admin_list_idem [simp]: "admin_list (admin_list es) = admin_list es"
proof -
  have "map (\<lambda>e. to_lower (trim_space e)) (admin_list es) = admin_list es" by (rule map_idI) (simp add: admin_list_normal)
  then show ?thesis by (simp add: admin_list_def [of "admin_list es"] filter_id_conv admin_list_normal)
qed

lemma applyDefaults_fixed:
  assumes "c = applyDefaults b1 b2 b3 c0"
  shows "applyDefaults False False False c = c"
  unfolding assms by (simp add: applyDefaults_def DefaultPublicURL_def)

lemma first_config_error_None: "first_config_error es = None \<longleftrightarrow> (\<forall>e\<in>set es. e = None)"
  by (induction es) (auto simp: first_config_error_def)

lemma landing_error_None:
  "landing_error name path = None \<longleftrightarrow>
     CHR ''{'' \<notin> set path \<and> CHR ''}'' \<notin> set path \<and> path \<noteq> ''/'' \<and> path \<noteq> ''/healthz'' \<and> path \<noteq> ''/stripe/webhook'' \<and>
     \<not> has_prefix path ''/v1/'' \<and> \<not> has_prefix path ''/v2/''"
  by (auto simp: landing_error_def)

lemma game_error_None:
  "game_error c name = None \<longleftrightarrow> (\<exists>g. map_of (cg_games c) name = Some g \<and> gameName name \<and> gm_secret g \<noteq> [] \<and> absolute_url (gm_upstream g))"
  by (cases "map_of (cg_games c) name") (auto simp: game_error_def Let_def)

lemma Config_Validate_None:
  "Config_Validate address_ok c = None \<longleftrightarrow>
     cg_gateway_email c \<noteq> [] \<and> cg_apiaccess c \<noteq> None \<and> absolute_url (cg_public_url c) \<and> absolute_url (cg_pricing_url c) \<and>
     0 \<le> cg_trial_days c \<and> 0 \<le> cg_login_links_per_hour c \<and> 0 < cg_sig_ttl_seconds c \<and> 0 \<le> cg_audit_retention_days c \<and>
     address_ok (cg_mail_from c) \<and> 0 \<le> sc_grace_days (cg_stripe c) \<and>
     has_prefix (sc_success_path (cg_stripe c)) ''/'' \<and> has_prefix (sc_cancel_path (cg_stripe c)) ''/'' \<and>
     sc_success_path (cg_stripe c) \<noteq> sc_cancel_path (cg_stripe c) \<and>
     landing_error ''success_path'' (sc_success_path (cg_stripe c)) = None \<and> landing_error ''cancel_path'' (sc_cancel_path (cg_stripe c)) = None \<and>
     cg_games c \<noteq> [] \<and> (\<forall>name\<in>fst ` set (cg_games c). game_error c name = None)"
proof -
  let ?landing = "[landing_error ''success_path'' (sc_success_path (cg_stripe c)), landing_error ''cancel_path'' (sc_cancel_path (cg_stripe c))]"
  have "first_config_error (map (game_error c) (Config_GameNames c)) = None \<longleftrightarrow> (\<forall>name\<in>fst ` set (cg_games c). game_error c name = None)"
    by (simp add: first_config_error_None Config_GameNames_def)
  moreover have "first_config_error ?landing = None \<longleftrightarrow>
      landing_error ''success_path'' (sc_success_path (cg_stripe c)) = None \<and> landing_error ''cancel_path'' (sc_cancel_path (cg_stripe c)) = None"
    by (simp add: first_config_error_None)
  ultimately show ?thesis
    unfolding Config_Validate_def Let_def by (cases "first_config_error ?landing") (simp_all add: not_less not_le, blast?)
qed

lemma Parse_decoded_Inr:
  "Parse_decoded address_ok given c0 = Inr c \<longleftrightarrow>
     c = applyDefaults (\<not> gv_client_ip_header given) (\<not> gv_audit_retention_days given) (\<not> gv_grace_days given) c0 \<and> Config_Validate address_ok c = None"
  by (auto simp: Parse_decoded_def Let_def split: option.splits)

text \<open>The facts about a configuration that loads that the rest needs.\<close>

lemma parsed_config:
  assumes "Parse_decoded address_ok given c0 = Inr c"
  shows "0 < cg_cache_ttl_seconds c" "0 < cg_shutdown_grace_seconds c" "0 < cg_stale_grace_seconds c" "0 < cg_lookup_timeout_seconds c" "0 < cg_upstream_timeout_seconds c"
    "0 < cg_sig_ttl_seconds c" "0 < cg_usage_retention_days c" "0 \<le> cg_audit_retention_days c"
    "0 < cg_per_key_requests_per_sec c" "0 < cg_per_key_burst c" "0 < cg_per_key_history_requests_per_sec c" "0 < cg_per_key_history_burst c"
    "0 < cg_per_ip_requests_per_sec c" "0 < cg_per_ip_burst c"
    "has_prefix (sc_success_path (cg_stripe c)) ''/''" "has_prefix (sc_cancel_path (cg_stripe c)) ''/''"
    "sc_success_path (cg_stripe c) \<noteq> sc_cancel_path (cg_stripe c)"
    "landing_error ''success_path'' (sc_success_path (cg_stripe c)) = None" "landing_error ''cancel_path'' (sc_cancel_path (cg_stripe c)) = None"
    "cg_games c \<noteq> []" "\<forall>name\<in>fst ` set (cg_games c). game_error c name = None"
    "0 < cg_trial_days c" "0 < cg_login_links_per_hour c" "0 \<le> sc_grace_days (cg_stripe c)" "absolute_url (cg_public_url c)" "absolute_url (cg_pricing_url c)"
proof -
  have c: "c = applyDefaults (\<not> gv_client_ip_header given) (\<not> gv_audit_retention_days given) (\<not> gv_grace_days given) c0"
    and ok: "Config_Validate address_ok c = None" using assms unfolding Parse_decoded_Inr by blast+
  note valid = ok [unfolded Config_Validate_None]
  from valid show "has_prefix (sc_success_path (cg_stripe c)) ''/''" "has_prefix (sc_cancel_path (cg_stripe c)) ''/''"
    "sc_success_path (cg_stripe c) \<noteq> sc_cancel_path (cg_stripe c)"
    "landing_error ''success_path'' (sc_success_path (cg_stripe c)) = None" "landing_error ''cancel_path'' (sc_cancel_path (cg_stripe c)) = None"
    "cg_games c \<noteq> []" "\<forall>name\<in>fst ` set (cg_games c). game_error c name = None" "0 < cg_sig_ttl_seconds c" "0 \<le> cg_audit_retention_days c"
    "0 \<le> sc_grace_days (cg_stripe c)" "absolute_url (cg_public_url c)" "absolute_url (cg_pricing_url c)"
    by simp_all
  show "0 < cg_cache_ttl_seconds c" "0 < cg_shutdown_grace_seconds c" "0 < cg_stale_grace_seconds c" "0 < cg_lookup_timeout_seconds c" "0 < cg_upstream_timeout_seconds c"
    "0 < cg_usage_retention_days c" "0 < cg_per_key_requests_per_sec c" "0 < cg_per_key_burst c" "0 < cg_per_key_history_requests_per_sec c"
    "0 < cg_per_key_history_burst c" "0 < cg_per_ip_requests_per_sec c" "0 < cg_per_ip_burst c"
    unfolding c by (simp_all add: applyDefaults_def)
  have "cg_trial_days c \<noteq> 0" "cg_login_links_per_hour c \<noteq> 0" unfolding c by (simp_all add: applyDefaults_def or_zero_def)
  then show "0 < cg_trial_days c" "0 < cg_login_links_per_hour c" using valid by simp_all
qed

text \<open>
  A configuration that loads has every rate, burst, timeout and retention that a request depends on positive, its public addresses
  absolute, its landing paths distinct, without wildcards and away from the paths of the API, and every game with a name the router
  accepts, a secret and an absolute upstream. A setting the file names itself is kept, the empty client address header and the zero
  retention included, and loading the result again changes nothing.
\<close>

theorem Parse_decoded_sound:
  assumes "Parse_decoded address_ok given c0 = Inr c"
  shows "0 < cg_cache_ttl_seconds c \<and> 0 < cg_stale_grace_seconds c \<and> 0 < cg_lookup_timeout_seconds c \<and> 0 < cg_upstream_timeout_seconds c \<and>
      0 < cg_sig_ttl_seconds c \<and> 0 < cg_shutdown_grace_seconds c \<and> 0 < cg_usage_retention_days c \<and> 0 \<le> cg_audit_retention_days c \<and>
      0 < cg_per_key_requests_per_sec c \<and> 0 < cg_per_key_burst c \<and> 0 < cg_per_key_history_requests_per_sec c \<and> 0 < cg_per_key_history_burst c \<and>
      0 < cg_per_ip_requests_per_sec c \<and> 0 < cg_per_ip_burst c \<and>
      0 < cg_trial_days c \<and> 0 < cg_login_links_per_hour c \<and> 0 \<le> sc_grace_days (cg_stripe c) \<and>
      absolute_url (cg_public_url c) \<and> absolute_url (cg_pricing_url c) \<and>
      (\<forall>path\<in>{sc_success_path (cg_stripe c), sc_cancel_path (cg_stripe c)}.
         has_prefix path ''/'' \<and> CHR ''{'' \<notin> set path \<and> path \<noteq> ''/'' \<and> path \<noteq> ''/healthz'' \<and> path \<noteq> ''/stripe/webhook'' \<and>
         \<not> has_prefix path ''/v1/'' \<and> \<not> has_prefix path ''/v2/'') \<and>
      sc_success_path (cg_stripe c) \<noteq> sc_cancel_path (cg_stripe c) \<and>
      cg_games c = cg_games c0 \<and> cg_games c \<noteq> [] \<and>
      (\<forall>name\<in>fst ` set (cg_games c). \<exists>g. map_of (cg_games c) name = Some g \<and> gameName name \<and> gm_secret g \<noteq> [] \<and> absolute_url (gm_upstream g)) \<and>
      (\<forall>e\<in>set (cg_admin_emails c). e \<noteq> [] \<and> NormalizeEmail e = e) \<and>
      (gv_client_ip_header given \<longrightarrow> cg_client_ip_header c = cg_client_ip_header c0) \<and>
      (gv_audit_retention_days given \<longrightarrow> cg_audit_retention_days c = cg_audit_retention_days c0) \<and>
      (gv_grace_days given \<longrightarrow> sc_grace_days (cg_stripe c) = sc_grace_days (cg_stripe c0)) \<and>
      Parse_decoded address_ok \<lparr>gv_client_ip_header = True, gv_audit_retention_days = True, gv_grace_days = True\<rparr> c = Inr c"
proof -
  let ?c = "applyDefaults (\<not> gv_client_ip_header given) (\<not> gv_audit_retention_days given) (\<not> gv_grace_days given) c0"
  have c: "c = ?c" and ok: "Config_Validate address_ok c = None" using assms unfolding Parse_decoded_Inr by blast+
  note cfg = parsed_config [OF assms]
  have same: "cg_games c = cg_games c0" unfolding c by (simp add: applyDefaults_def)
  have given: "gv_client_ip_header given \<longrightarrow> cg_client_ip_header c = cg_client_ip_header c0"
    "gv_audit_retention_days given \<longrightarrow> cg_audit_retention_days c = cg_audit_retention_days c0"
    "gv_grace_days given \<longrightarrow> sc_grace_days (cg_stripe c) = sc_grace_days (cg_stripe c0)"
    unfolding c by (simp_all add: applyDefaults_def)
  have emails: "\<forall>e\<in>set (cg_admin_emails c). e \<noteq> [] \<and> NormalizeEmail e = e"
    unfolding c by (simp add: applyDefaults_def NormalizeEmail_def admin_list_normal)
  have again: "Parse_decoded address_ok \<lparr>gv_client_ip_header = True, gv_audit_retention_days = True, gv_grace_days = True\<rparr> c = Inr c"
    using applyDefaults_fixed [OF c] ok by (simp add: Parse_decoded_Inr)
  have games: "\<forall>name\<in>fst ` set (cg_games c). \<exists>g. map_of (cg_games c) name = Some g \<and> gameName name \<and> gm_secret g \<noteq> [] \<and> absolute_url (gm_upstream g)"
    using cfg(21) by (simp add: game_error_None)
  show ?thesis
    using cfg(15-19) by (intro conjI cfg same given emails again games) (simp_all add: landing_error_None)
qed

definition demo_config :: Config where
  "demo_config =
     \<lparr>cg_port = [], cg_instance_name = [], cg_link = [], cg_client_ip_header = [], cg_public_url = [], cg_gateway_email = ''gateway@mtgban.com'',
      cg_apiaccess = Some ''db'', cg_observability = None, cg_discord_hook = [],
      cg_games = [(''magic'', \<lparr>gm_upstream = ''https://www.mtgban.com'', gm_secret = ''s1''\<rparr>), (''lorcana'', \<lparr>gm_upstream = ''https://lorcana.mtgban.com'', gm_secret = ''s2''\<rparr>)],
      cg_known_stores = [], cg_cache_ttl_seconds = 0, cg_stale_grace_seconds = 0, cg_lookup_timeout_seconds = 0,
      cg_per_key_requests_per_sec = 0, cg_per_key_burst = 0, cg_per_key_history_requests_per_sec = 0, cg_per_key_history_burst = 0,
      cg_per_ip_requests_per_sec = 0, cg_per_ip_burst = 0, cg_upstream_timeout_seconds = 0, cg_sig_ttl_seconds = 0, cg_shutdown_grace_seconds = 0,
      cg_usage_retention_days = 0, cg_audit_retention_days = 0, cg_stripe = \<lparr>sc_grace_days = 0, sc_success_path = [], sc_cancel_path = []\<rparr>,
      cg_pricing_url = [], cg_admin_emails = ['' Ops@mtgban.com '', '' ''], cg_mail_from = [], cg_trial_days = 0, cg_login_links_per_hour = 0,
      cg_history_on_sale = False\<rparr>"

definition demo_given :: given_settings where
  "demo_given = \<lparr>gv_client_ip_header = True, gv_audit_retention_days = True, gv_grace_days = True\<rparr>"

definition demo_loaded :: Config where
  "demo_loaded = applyDefaults False False False demo_config"

lemma demo_loads: "Parse_decoded (\<lambda>s. s \<noteq> []) demo_given demo_config = Inr demo_loaded"
proof -
  have "Config_Validate (\<lambda>s. s \<noteq> []) demo_loaded = None"
    by code_simp
  then show ?thesis by (simp add: Parse_decoded_Inr demo_given_def demo_loaded_def)
qed

theorem Parse_decoded_sound_witness:
  "cg_client_ip_header demo_loaded = [] \<and> cg_audit_retention_days demo_loaded = 0 \<and> 0 < cg_sig_ttl_seconds demo_loaded \<and>
   (\<forall>e\<in>set (cg_admin_emails demo_loaded). NormalizeEmail e = e)"
  using Parse_decoded_sound [OF demo_loads] by (simp add: demo_given_def demo_config_def)

end
