(* ===== verification/Serve.thy ===== *)
theory Serve
  imports Config Handler
begin

text \<open>
  \<open>src/serve.go\<close>: what the process builds from its configuration, the routes it mounts, and its daily jobs. Starting and stopping the
  server, its goroutines and its timers are left out. A panic is a value of its own in the result of what may panic.
\<close>

section \<open>Wiring\<close>

text \<open>\<open>time.Duration(n) * time.Second\<close>: both are 64-bit integers, and the product wraps around.\<close>

definition wrap64 :: "int \<Rightarrow> int" where
  "wrap64 n = (n + 2 ^ 63) mod 2 ^ 64 - 2 ^ 63"

definition seconds :: "int \<Rightarrow> duration" where
  "seconds n = wrap64 (n * second)"

definition gateway_options :: "Config \<Rightarrow> Options" where
  "gateway_options c =
     \<lparr>op_games = map (\<lambda>(name, g). (name, \<lparr>up_url = gm_upstream g, up_secret = gm_secret g\<rparr>)) (cg_games c),
      op_gateway_email = cg_gateway_email c, op_link = cg_link c, op_client_ip_header = cg_client_ip_header c,
      op_per_key_rate = cg_per_key_requests_per_sec c, op_per_key_burst = cg_per_key_burst c,
      op_per_key_history_rate = cg_per_key_history_requests_per_sec c, op_per_key_history_burst = cg_per_key_history_burst c,
      op_per_ip_rate = cg_per_ip_requests_per_sec c, op_per_ip_burst = cg_per_ip_burst c,
      op_upstream_timeout = seconds (cg_upstream_timeout_seconds c), op_sig_ttl = seconds (cg_sig_ttl_seconds c)\<rparr>"

definition server_resolver :: "Config \<Rightarrow> Resolver" where
  "server_resolver c =
     SetLookupTimeout (SetStaleGrace (NewResolver (seconds (cg_cache_ttl_seconds c))) (seconds (cg_stale_grace_seconds c))) (seconds (cg_lookup_timeout_seconds c))"

definition gameSecrets :: "Config \<Rightarrow> (string \<times> string) list" where
  "gameSecrets c = map (\<lambda>(name, g). (name, gm_secret g)) (cg_games c)"

definition portalCodec :: "string \<Rightarrow> Config \<Rightarrow> session_error + Codec" where
  "portalCodec secret c = NewCodec secret 0 (has_prefix (cg_public_url c) ''https://'')"

datatype reserved_error = SuccessCollides string | CancelCollides string

definition checkReservedPaths :: "Server \<Rightarrow> Config \<Rightarrow> reserved_error option" where
  "checkReservedPaths sv c =
     (if Reserved sv (sc_success_path (cg_stripe c)) then Some (SuccessCollides (sc_success_path (cg_stripe c)))
      else if Reserved sv (sc_cancel_path (cg_stripe c)) then Some (CancelCollides (sc_cancel_path (cg_stripe c)))
      else None)"

text \<open>The portal's server, but for what does not come from the configuration: the store lists, the Stripe client, the templates.\<close>

definition portal_server :: "Server \<Rightarrow> Codec \<Rightarrow> Config \<Rightarrow> Server" where
  "portal_server base codec c =
     base\<lparr>sv_games := Config_GameNames c, sv_sessions := codec,
       sv_public_url := rev (dropWhile (\<lambda>x. x = CHR ''/'') (rev (cg_public_url c))), sv_pricing_url := cg_pricing_url c,
       sv_success_path := sc_success_path (cg_stripe c), sv_cancel_path := sc_cancel_path (cg_stripe c), sv_admin_emails := cg_admin_emails c,
       sv_trial_days := cg_trial_days c, sv_history_on_sale := cg_history_on_sale c, sv_game_secrets := gameSecrets c,
       sv_login_links_per_hour := cg_login_links_per_hour c, sv_client_ip_header := cg_client_ip_header c\<rparr>"

section \<open>The mux\<close>

datatype mux_target = Healthz | GamesJson | StripeWebhook | PortalRoute route | PlainText_page string | GatewayHandler | JsonNotFound

text \<open>What is mounted, in order: the method or none, the pattern and the handler.\<close>

definition mux_first :: "(string \<times> string \<times> mux_target) list" where
  "mux_first = [([], ''/healthz'', Healthz), ([], ''/v1/games.json'', GamesJson), ([], ''/v2/games.json'', GamesJson)]"

definition landing_pages :: "string \<Rightarrow> string \<Rightarrow> (string \<times> string \<times> mux_target) list" where
  "landing_pages success_path cancel_path =
     [([], success_path, PlainText_page ''Payment received. Your access is being set up and your key will work within a minute. You can close this page.''),
      ([], cancel_path, PlainText_page ''Checkout cancelled. Nothing was charged. You can close this page.'')]"

definition mux_last :: "(string \<times> string \<times> mux_target) list" where
  "mux_last = [([], ''/v1/'', GatewayHandler), ([], ''/v2/'', GatewayHandler), ([], ''/'', JsonNotFound)]"

definition newMux :: "bool \<Rightarrow> Server option \<Rightarrow> string \<Rightarrow> string \<Rightarrow> (string \<times> string \<times> mux_target) list" where
  "newMux webhook web success_path cancel_path =
     mux_first @
     (if webhook then [([], ''/stripe/webhook'', StripeWebhook)] else []) @
     (case web of
        Some sv \<Rightarrow> map (\<lambda>rt. (rt_method rt, rt_pattern rt, PortalRoute rt)) (routes sv)
      | None \<Rightarrow> if webhook then landing_pages success_path cancel_path else []) @
     mux_last"

text \<open>
  How \<open>net/http\<close> picks the handler of a clean path: a pattern that ends in a slash takes everything below it, a wildcard takes
  one segment. Where several match, a literal segment goes before a wildcard and a wildcard before the rest, from the left; the
  patterns of the request's method go before those of any method. The ranks below are 0, 1 and 2 in that order.
\<close>

fun seg_match :: "string list \<Rightarrow> string list \<Rightarrow> nat list option" where
  "seg_match [] [] = Some []"
| "seg_match [] (s # ss) = None"
| "seg_match (p # ps) [] = None"
| "seg_match (p # ps) (s # ss) =
     (if p = [] \<and> ps = [] then Some [2]
      else if p = ''{$}'' \<and> ps = [] then (if s = [] \<and> ss = [] then Some [0] else None)
      else if has_prefix p ''{'' then (if s \<noteq> [] then map_option (Cons 1) (seg_match ps ss) else None)
      else if p = s then map_option (Cons 0) (seg_match ps ss) else None)"

definition mux_rank :: "string \<Rightarrow> string \<Rightarrow> nat list option" where
  "mux_rank pat path = seg_match (split_on CHR ''/'' pat) (split_on CHR ''/'' path)"

definition mux_path :: "(string \<times> mux_target) list \<Rightarrow> string \<Rightarrow> mux_target option" where
  "mux_path table path =
     (case sort_key fst (List.map_filter (\<lambda>(pat, h). map_option (\<lambda>r. (r, h)) (mux_rank pat path)) table) of
        [] \<Rightarrow> None | (_, h) # _ \<Rightarrow> Some h)"

definition of_method :: "string \<Rightarrow> (string \<times> string \<times> mux_target) list \<Rightarrow> (string \<times> mux_target) list" where
  "of_method m table = map snd (filter (\<lambda>(m', _). m' = m) table)"

definition mux_find :: "(string \<times> string \<times> mux_target) list \<Rightarrow> string \<Rightarrow> string \<Rightarrow> mux_target option" where
  "mux_find table m path =
     (case mux_path (of_method m table) path of
        Some h \<Rightarrow> Some h
      | None \<Rightarrow>
          case (if m = ''HEAD'' then mux_path (of_method ''GET'' table) path else None) of
            Some h \<Rightarrow> Some h
          | None \<Rightarrow> mux_path (of_method [] table) path)"

text \<open>
  Registering panics where two patterns overlap and neither is more specific, and on a pattern that no clean path can match. The relation
  of two patterns is built from the left, segment by segment; the last segment is empty where a pattern ends in a slash.
\<close>

datatype pattern_rel = Equivalent | MoreGeneral | MoreSpecific | Disjoint | Overlaps

fun combine_rel :: "pattern_rel \<Rightarrow> pattern_rel \<Rightarrow> pattern_rel" where
  "combine_rel Disjoint _ = Disjoint"
| "combine_rel _ Disjoint = Disjoint"
| "combine_rel Equivalent r = r"
| "combine_rel r Equivalent = r"
| "combine_rel MoreGeneral MoreGeneral = MoreGeneral"
| "combine_rel MoreSpecific MoreSpecific = MoreSpecific"
| "combine_rel _ _ = Overlaps"

definition wild :: "string \<Rightarrow> bool" where
  "wild s \<longleftrightarrow> has_prefix s ''{'' \<and> s \<noteq> ''{$}''"

definition seg_rel :: "string \<Rightarrow> string \<Rightarrow> pattern_rel" where
  "seg_rel p q =
     (if wild p \<and> wild q then Equivalent
      else if wild p then (if q = ''{$}'' then Disjoint else MoreGeneral)
      else if wild q then (if p = ''{$}'' then Disjoint else MoreSpecific)
      else if p = q then Equivalent else Disjoint)"

fun path_rel :: "string list \<Rightarrow> string list \<Rightarrow> pattern_rel" where
  "path_rel [] [] = Equivalent"
| "path_rel [] (q # qs) = Disjoint"
| "path_rel (p # ps) [] = Disjoint"
| "path_rel (p # ps) (q # qs) =
     (if p = [] \<and> ps = [] then (if q = [] \<and> qs = [] then Equivalent else MoreGeneral)
      else if q = [] \<and> qs = [] then MoreSpecific
      else combine_rel (seg_rel p q) (path_rel ps qs))"

definition method_rel :: "string \<Rightarrow> string \<Rightarrow> pattern_rel" where
  "method_rel m1 m2 =
     (if m1 = m2 then Equivalent
      else if m1 = [] \<or> m1 = ''GET'' \<and> m2 = ''HEAD'' then MoreGeneral
      else if m2 = [] \<or> m1 = ''HEAD'' \<and> m2 = ''GET'' then MoreSpecific
      else Disjoint)"

definition patterns_conflict :: "string \<times> string \<Rightarrow> string \<times> string \<Rightarrow> bool" where
  "patterns_conflict e1 e2 \<longleftrightarrow>
     combine_rel (method_rel (fst e1) (fst e2)) (path_rel (split_on CHR ''/'' (snd e1)) (split_on CHR ''/'' (snd e2))) \<in> {Equivalent, Overlaps}"

definition clean_pattern :: "string \<Rightarrow> string \<Rightarrow> bool" where
  "clean_pattern m p \<longleftrightarrow>
     (let segs = tl (split_on CHR ''/'' p) in
      segs \<noteq> [] \<and> list_all (\<lambda>s. s \<noteq> [] \<and> s \<noteq> ''.'' \<and> s \<noteq> ''..'') (butlast segs) \<and> last segs \<noteq> ''.'' \<and> last segs \<noteq> ''..'') \<and>
     (m = [] \<longrightarrow> CHR '' '' \<notin> set p \<and> CHR 0x09 \<notin> set p)"

fun mux_panics :: "(string \<times> string) list \<Rightarrow> bool" where
  "mux_panics [] = False"
| "mux_panics (e # es) = (\<not> clean_pattern (fst e) (snd e) \<or> list_ex (patterns_conflict e) es \<or> mux_panics es)"

definition mux_patterns :: "(string \<times> string \<times> mux_target) list \<Rightarrow> (string \<times> string) list" where
  "mux_patterns table = map (\<lambda>(m, p, _). (m, p)) table"

definition healthz :: "string list \<Rightarrow> int \<times> string" where
  "healthz games = (if games = [] then (503, ''not ready'') else (200, ''ok''))"

definition games_json :: "string \<Rightarrow> string list \<Rightarrow> int \<times> string list option" where
  "games_json method games = (if method \<noteq> ''GET'' then (405, None) else (200, Some games))"

definition plainPage :: "string \<Rightarrow> string \<Rightarrow> int \<times> string" where
  "plainPage msg method = (if method \<noteq> ''GET'' then (405, []) else (200, msg @ [CHR 0x0A]))"

section \<open>The server\<close>

datatype server_error =
    GameURL string | GatewayOptions option_error | ReloadListener string | ReservedPath reserved_error | SessionSecret session_error | MuxPanic

record 'l server =
  sr_addr :: string
  sr_handler :: "'l Handler"
  sr_portal :: "Server option"
  sr_mux :: "(string \<times> string \<times> mux_target) list"
  sr_write_timeout :: duration

text \<open>
  Arguments: the error of the reload listener if it has one, whether Stripe is configured, and the portal's session secret where the
  portal is on, with the part of its server that is not from the configuration.
\<close>

definition start_portal :: "Config \<Rightarrow> (string \<times> Server) option \<Rightarrow> server_error + Server option" where
  "start_portal c pd =
     (case pd of
        None \<Rightarrow> Inr None
      | Some (secret, base) \<Rightarrow>
          case checkReservedPaths base c of
            Some e \<Rightarrow> Inl (ReservedPath e)
          | None \<Rightarrow>
              case portalCodec secret c of
                Inl e \<Rightarrow> Inl (SessionSecret e)
              | Inr codec \<Rightarrow> Inr (Some (portal_server base codec c)))"

definition start_mux :: "Config \<Rightarrow> bool \<Rightarrow> 'l Handler \<Rightarrow> Server option \<Rightarrow> server_error + 'l server" where
  "start_mux c stripe h web =
     (let mux = newMux stripe web (sc_success_path (cg_stripe c)) (sc_cancel_path (cg_stripe c)) in
      if mux_panics (mux_patterns mux) then Inl MuxPanic
      else Inr \<lparr>sr_addr = '':'' @ cg_port c, sr_handler = h, sr_portal = web, sr_mux = mux,
        sr_write_timeout = wrap64 (seconds (cg_upstream_timeout_seconds c) + 30 * second)\<rparr>)"

definition newServer :: "(rat \<Rightarrow> int \<Rightarrow> 'l) \<Rightarrow> Config \<Rightarrow> string option \<Rightarrow> bool \<Rightarrow> (string \<times> Server) option \<Rightarrow> server_error + 'l server" where
  "newServer mk c listen_error stripe pd =
     (case find (\<lambda>(_, g). Parse (gm_upstream g) = None) (cg_games c) of
        Some (name, _) \<Rightarrow> Inl (GameURL name)
      | None \<Rightarrow>
          case New mk (gateway_options c) (server_resolver c) of
            Inl e \<Rightarrow> Inl (GatewayOptions e)
          | Inr h \<Rightarrow>
              case listen_error of
                Some msg \<Rightarrow> Inl (ReloadListener msg)
              | None \<Rightarrow>
                  case start_portal c pd of
                    Inl e \<Rightarrow> Inl e
                  | Inr web \<Rightarrow> start_mux c stripe h web)"

section \<open>Panics\<close>

text \<open>How a handler ends: it returns, it aborts the response, or it panics with a value; and whether it had sent anything.\<close>

datatype ending = Returned | Aborted | Panicked string

text \<open>What goes out at the end: nothing more, the JSON error, or the connection is torn down.\<close>

datatype panic_outcome = Served | InternalError | TornDown

definition recoverPanics :: "ending \<Rightarrow> bool \<Rightarrow> panic_outcome" where
  "recoverPanics e wrote = (case e of Returned \<Rightarrow> Served | Aborted \<Rightarrow> TornDown | Panicked _ \<Rightarrow> if wrote then Served else InternalError)"

definition maxAlertPanicLen :: nat where "maxAlertPanicLen = 300"

definition capPanicText :: "string \<Rightarrow> string" where
  "capPanicText s = (if length s > maxAlertPanicLen then take maxAlertPanicLen s @ ''...'' else s)"

text \<open>A run of a job: its result, or its panic turned into an alert, which may panic in its turn without harm.\<close>

definition runJob :: "string \<Rightarrow> ('s \<Rightarrow> string option \<times> 's) \<Rightarrow> (string \<Rightarrow> 's \<Rightarrow> 's) \<Rightarrow> 's \<Rightarrow> 's" where
  "runJob name job alert s =
     (case job s of (None, s') \<Rightarrow> s' | (Some p, s') \<Rightarrow> alert (''api-gatewahy: job '' @ name @ '' panicked: '' @ capPanicText p) s')"

section \<open>Daily jobs\<close>

definition nextRunAt :: "time \<Rightarrow> int \<Rightarrow> int \<Rightarrow> time" where
  "nextRunAt now hh mm =
     (let nxt = now div day * day + hh * hour + mm * minute in if nxt > now then nxt else add_days nxt 1)"

definition stripeEventRetentionDays :: int where "stripeEventRetentionDays = 30"
definition inviteRetentionDays :: int where "inviteRetentionDays = 30"


text \<open>A \<open>float64\<close> of a non-negative 64-bit integer: the nearest number with 53 significant bits, ties to even.\<close>

definition half_even :: "int \<Rightarrow> int \<Rightarrow> int" where
  "half_even n d = (let q = n div d; r = n mod d in if 2 * r > d \<or> (2 * r = d \<and> odd q) then q + 1 else q)"

definition float_int :: "int \<Rightarrow> int" where
  "float_int n = (case find (\<lambda>e. n < 2 ^ (53 + e)) [0..<11] of Some e \<Rightarrow> half_even n (2 ^ e) * 2 ^ e | None \<Rightarrow> n)"

function unit_loop :: "int \<Rightarrow> int \<Rightarrow> nat \<Rightarrow> int \<times> nat" where
  "unit_loop m d e = (if m \<ge> 1024 then unit_loop (m div 1024) (d * 1024) (Suc e) else (d, e))"
  by pat_completeness auto
termination by (relation "measure (\<lambda>(m, _, _). nat m)") auto

declare unit_loop.simps [simp del]

definition tenths :: "int \<Rightarrow> string" where
  "tenths v = format_int (v div 10) @ ''.'' @ format_int (v mod 10)"

text \<open>The division by a power of 1024 is exact. An exponent beyond the last unit would panic, and is \<open>None\<close>.\<close>

definition humanBytes :: "int \<Rightarrow> string option" where
  "humanBytes n =
     (if n < 1024 then Some (format_int n @ '' B'')
      else case unit_loop (n div 1024) 1024 0 of (d, e) \<Rightarrow>
        if e < length ''KMGTPE'' then Some (tenths (half_even (10 * float_int n) d) @ '' '' @ [''KMGTPE'' ! e] @ ''B'') else None)"

text \<open>A day as \<open>2006-01-02\<close>.\<close>

definition civil_from_days :: "int \<Rightarrow> int \<times> int \<times> int" where
  "civil_from_days z0 =
     (let z = z0 + 719468; era = z div 146097; doe = z - era * 146097;
          yoe = (doe - doe div 1460 + doe div 36524 - doe div 146096) div 365;
          doy = doe - (365 * yoe + yoe div 4 - yoe div 100);
          mp = (5 * doy + 2) div 153; m = (if mp < 10 then mp + 3 else mp - 9)
      in (yoe + era * 400 + (if m \<le> 2 then 1 else 0), m, doy - (153 * mp + 2) div 5 + 1))"

definition pad_int :: "nat \<Rightarrow> int \<Rightarrow> string" where
  "pad_int w n = (let s = format_int n in replicate (w - length s) CHR ''0'' @ s)"

definition format_date :: "time \<Rightarrow> string" where
  "format_date t = (case civil_from_days (t div day) of (y, m, d) \<Rightarrow> pad_int 4 y @ ''-'' @ pad_int 2 m @ ''-'' @ pad_int 2 d)"

definition usage_line :: "UsageRow \<Rightarrow> string option" where
  "usage_line r = map_option (\<lambda>b. ur_email r @ '' / '' @ ur_game r @ '': '' @ format_int (ur_requests r) @ '' requests, '' @ b @ '', '' @
     format_int (ur_errors r) @ '' errors'' @ [CHR 0x0A]) (humanBytes (ur_bytes r))"

definition new_key_line :: "Key \<Rightarrow> string" where
  "new_key_line k = ''new key '' @ k_prefix k @ '' ('' @ k_label k @ '') for account '' @ format_int (k_account_id k) @ [CHR 0x0A]"

definition summaryText :: "time \<Rightarrow> UsageRow list \<Rightarrow> Key list \<Rightarrow> int \<Rightarrow> string option" where
  "summaryText dy rows newKeys dropped =
     map_option (\<lambda>ls. ''API usage for '' @ format_date dy @ [CHR 0x0A] @
         (if rows = [] then ''no API traffic'' @ [CHR 0x0A] else []) @ concat ls @ concat (map new_key_line newKeys) @
         (if dropped > 0 then format_int dropped @ '' usage rows dropped'' @ [CHR 0x0A] else []))
       (those (map usage_line rows))"

text \<open>The store and the alerts that went out.\<close>

type_synonym daily_state = "db \<times> string list"

text \<open>The first result says whether the text could be built; \<open>None\<close> is a panic.\<close>

definition postSummary :: "time \<Rightarrow> int \<Rightarrow> daily_state \<Rightarrow> unit option \<times> daily_state" where
  "postSummary now dropped st =
     (case st of (d, alerts) \<Rightarrow>
        let dy = add_days (now div day * day) (- 1) in
        case SummarizeUsage dy (add_days dy 1) 0 d of
          (Inl _, d1) \<Rightarrow> (Some (), (d1, alerts))
        | (Inr rows, d1) \<Rightarrow>
            case KeysCreatedBetween dy (add_days dy 1) d1 of
              (ks, d2) \<Rightarrow>
                case summaryText dy rows (case ks of Inl _ \<Rightarrow> [] | Inr ks' \<Rightarrow> ks') dropped of
                  None \<Rightarrow> (None, (d2, alerts))
                | Some msg \<Rightarrow> (Some (), (d2, alerts @ [msg])))"

definition prune_table :: "time \<Rightarrow> int \<Rightarrow> (time \<Rightarrow> int op) \<Rightarrow> db \<Rightarrow> db" where
  "prune_table now days prune d = (if days = 0 then d else snd (prune (add_days now (- days)) d))"

definition pruneTables :: "time \<Rightarrow> Config \<Rightarrow> db \<Rightarrow> db" where
  "pruneTables now c d =
     foldl (\<lambda>d (days, prune). prune_table now days prune d) d
       [(cg_usage_retention_days c, PruneUsage), (stripeEventRetentionDays, PruneStripeEvents),
        (inviteRetentionDays, PruneInvites), (cg_audit_retention_days c, PruneAdminActions)]"

definition dailySummary :: "time \<Rightarrow> Config \<Rightarrow> int \<Rightarrow> daily_state \<Rightarrow> unit option \<times> daily_state" where
  "dailySummary now c dropped st =
     (case postSummary now dropped st of
        (None, st') \<Rightarrow> (None, st')
      | (Some (), (d, alerts)) \<Rightarrow> (Some (), (pruneTables now c d, alerts)))"

section \<open>Starting\<close>

lemma seconds_exact [simp]: "0 \<le> n \<Longrightarrow> n \<le> 9223372036 \<Longrightarrow> seconds n = n * second"
  by (simp add: seconds_def wrap64_def)

lemma no_bad_upstream:
  assumes "\<forall>name\<in>fst ` set gs. \<exists>g. map_of gs name = Some g \<and> gameName name \<and> gm_secret g \<noteq> [] \<and> absolute_url (gm_upstream g)" "distinct (map fst gs)"
  shows "find (\<lambda>(_, g). Parse (gm_upstream g) = None) gs = None"
proof -
  have "Parse (gm_upstream g) \<noteq> None" if "(name, g) \<in> set gs" for name g
  proof -
    have "map_of gs name = Some g" using assms(2) that by simp
    then have "absolute_url (gm_upstream g)" using assms(1) that by fastforce
    then show ?thesis by (auto simp: absolute_url_def split: option.splits)
  qed
  then show ?thesis by (auto simp: find_None_iff)
qed

lemma gateway_options_valid:
  assumes "Parse_decoded address_ok given c0 = Inr c" "cg_upstream_timeout_seconds c \<le> 9223372036" "cg_sig_ttl_seconds c \<le> 9223372036"
  shows "Options_validate (gateway_options c) = None"
  using parsed_config [OF assms(1)] assms(2,3) by (simp add: Options_validate_def gateway_options_def)

lemma New_Inr: "New mk opts res = Inr h \<Longrightarrow> hd_games h = op_games opts \<and> hd_opts h = opts \<and> hd_res h = res"
  by (auto simp: New_def split: option.splits)

lemma newServer_built:
  assumes "Parse_decoded address_ok given c0 = Inr c" "distinct (map fst (cg_games c))"
    "cg_upstream_timeout_seconds c \<le> 9223372006" "cg_sig_ttl_seconds c \<le> 9223372036"
    "\<forall>(secret, base)\<in>set_option pd. minSecretLen \<le> length secret \<and> checkReservedPaths base c = None"
    "\<And>codec. \<not> mux_panics (mux_patterns (newMux stripe (map_option (\<lambda>(_, base). portal_server base codec c) pd)
       (sc_success_path (cg_stripe c)) (sc_cancel_path (cg_stripe c))))"
  shows "\<exists>srv codec. newServer mk c None stripe pd = Inr srv \<and> New mk (gateway_options c) (server_resolver c) = Inr (sr_handler srv) \<and>
      sr_portal srv = map_option (\<lambda>(_, base). portal_server base codec c) pd \<and>
      sr_write_timeout srv = wrap64 (seconds (cg_upstream_timeout_seconds c) + 30 * second)"
proof -
  have "find (\<lambda>(_, g). Parse (gm_upstream g) = None) (cg_games c) = None"
    using no_bad_upstream [OF _ assms(2)] parsed_config(21) [OF assms(1)] by (simp add: game_error_None)
  moreover have "Options_validate (gateway_options c) = None" by (rule gateway_options_valid [OF assms(1)]) (use assms(3,4) in simp_all)
  moreover have "portalCodec secret c = Inr \<lparr>cd_secret = secret, cd_ttl = 0, cd_secure = has_prefix (cg_public_url c) ''https://''\<rparr>"
    if "minSecretLen \<le> length secret" for secret using that by (simp add: portalCodec_def NewCodec_def)
  ultimately show ?thesis using assms(5,6) by (cases pd) (auto simp: newServer_def start_portal_def start_mux_def New_def Let_def)
qed


text \<open>A cache time that does not fit a duration wraps around to a negative one: every cached answer is then expired at once.\<close>

lemma long_cache_ttl_wraps: "rv_ttl (server_resolver (c\<lparr>cg_cache_ttl_seconds := 10000000000\<rparr>)) < 0"
  by (simp add: server_resolver_def NewResolver_def SetStaleGrace_def SetLookupTimeout_def seconds_def wrap64_def)

lemma demo_mux:
  "\<not> mux_panics (mux_patterns (newMux True (Some (portal_server demo_server codec demo_loaded)) ''/checkout/success'' ''/checkout/cancel''))"
proof -
  have "mux_patterns (newMux True (Some (portal_server demo_server codec demo_loaded)) ''/checkout/success'' ''/checkout/cancel'') =
      [([], ''/healthz''), ([], ''/v1/games.json''), ([], ''/v2/games.json''), ([], ''/stripe/webhook'')] @
      zip (map rt_method (fixedRoutes demo_server)) fixedPatterns @
      [(''GET'', ''/checkout/success''), (''GET'', ''/checkout/cancel''), ([], ''/v1/''), ([], ''/v2/''), ([], ''/'')]"
    by (simp add: mux_patterns_def newMux_def mux_first_def mux_last_def routes_def fixedRoutes_def fixedPatterns_def route_of_def portal_server_def
        demo_loaded_def demo_config_def applyDefaults_def or_text_def)
  moreover have "map rt_method (fixedRoutes demo_server) =
      map (\<lambda>b. if b then ''GET'' else ''POST'')
        [True, True, True, False, True, False, False, True, False, True, False, False, False, True, True, False, True, False, True, False, True, True,
         False, False, False, False, False, False]"
    by (simp add: fixedRoutes_def route_of_def)
  moreover have "\<not> mux_panics ([([], ''/healthz''), ([], ''/v1/games.json''), ([], ''/v2/games.json''), ([], ''/stripe/webhook'')] @
      zip (map (\<lambda>b. if b then ''GET'' else ''POST'')
        [True, True, True, False, True, False, False, True, False, True, False, False, False, True, True, False, True, False, True, False, True, True,
         False, False, False, False, False, False]) fixedPatterns @
      [(''GET'', ''/checkout/success''), (''GET'', ''/checkout/cancel''), ([], ''/v1/''), ([], ''/v2/''), ([], ''/'')])"
    by code_simp
  ultimately show ?thesis by simp
qed

lemma demo_fields:
  "checkReservedPaths demo_server demo_loaded = None" "Config_GameNames demo_loaded = [''lorcana'', ''magic'']"
  "cg_cache_ttl_seconds demo_loaded = 60" "cg_upstream_timeout_seconds demo_loaded = 300" "cg_sig_ttl_seconds demo_loaded = 300"
  "distinct (map fst (cg_games demo_loaded))" "sc_success_path (cg_stripe demo_loaded) = ''/checkout/success''" "sc_cancel_path (cg_stripe demo_loaded) = ''/checkout/cancel''"
proof -
  show "checkReservedPaths demo_server demo_loaded = None"
    by (simp add: checkReservedPaths_def Reserved_def reservedFromRoutes_def fixedRoutes_patterns demo_loaded_def demo_config_def applyDefaults_def) code_simp
  show "Config_GameNames demo_loaded = [''lorcana'', ''magic'']" by code_simp
qed (simp_all add: demo_loaded_def demo_config_def applyDefaults_def or_default_def or_text_def)

definition demo_portal_deps :: "(string \<times> Server) option" where
  "demo_portal_deps = Some (replicate 32 CHR ''k'', demo_server)"

lemma demo_starts: "\<exists>srv. newServer (\<lambda>rate burst. burst) demo_loaded None True demo_portal_deps = Inr srv"
  using newServer_built [OF demo_loads, where pd = demo_portal_deps and mk = "\<lambda>rate burst. burst" and stripe = True] demo_mux
  by (auto simp: minSecretLen_def demo_fields demo_portal_deps_def)


section \<open>The next run\<close>

text \<open>
  The next run of a daily job is strictly after now, at most a day away, at the given hour and minute of a day in UTC,
  and no earlier moment after now is.
\<close>

theorem nextRunAt_next:
  assumes "0 \<le> hh" "hh < 24" "0 \<le> mm" "mm < 60"
  shows "now < nextRunAt now hh mm \<and> nextRunAt now hh mm \<le> now + day \<and> nextRunAt now hh mm mod day = hh * hour + mm * minute \<and>
      (\<forall>t. now < t \<and> t mod day = hh * hour + mm * minute \<longrightarrow> nextRunAt now hh mm \<le> t)"
proof -
  define off where "off = hh * hour + mm * minute"
  have off: "0 \<le> off" "off < day" using assms by (simp_all add: off_def)
  define n where "n = nextRunAt now hh mm"
  have n: "n = (if now div day * day + off > now then now div day * day + off else now div day * day + off + day)"
    by (simp add: n_def nextRunAt_def off_def Let_def add_days_def algebra_simps)
  have nd: "now = now div day * day + now mod day" "0 \<le> now mod day" "now mod day < day" by simp_all
  have "now < n" "n \<le> now + day" using n off nd by (simp_all split: if_splits)
  moreover have "n mod day = off" unfolding n using off by (simp add: mod_add_left_eq [symmetric])
  moreover have "n \<le> t" if "now < t" "t mod day = off" for t
  proof (rule ccontr)
    assume "\<not> n \<le> t"
    have t: "t = t div day * day + off" using that(2) by (metis div_mult_mod_eq)
    have k: "n = n div day * day + off" using \<open>n mod day = off\<close> by (metis div_mult_mod_eq)
    have "t div day < n div day" using t k \<open>\<not> n \<le> t\<close> by linarith
    then have "t \<le> n - day" using t k by linarith
    then show False using \<open>n \<le> now + day\<close> that(1) by linarith
  qed
  ultimately show ?thesis unfolding n_def off_def by blast
qed

theorem nextRunAt_next_witness:
  "\<forall>t. 86400 * second < t \<and> t mod day = 3 * hour + 0 * minute \<longrightarrow> nextRunAt (86400 * second) 3 0 \<le> t"
  using nextRunAt_next [of 3 0 "86400 * second"] by simp

section \<open>Pruning\<close>

text \<open>A prune of one table: the rows that stay, whatever the database does, and every other table as it was.\<close>

definition pruned :: "bool \<Rightarrow> ('r \<Rightarrow> bool) \<Rightarrow> 'r list \<Rightarrow> 'r list \<Rightarrow> bool" where
  "pruned calm old rows rows' \<longleftrightarrow> rows' = filter (\<lambda>r. \<not> old r) rows \<or> \<not> calm \<and> rows' = rows"

lemma pruned_same [simp]: "pruned calm (\<lambda>r. False) rows rows"
  by (simp add: pruned_def)

lemma prune_usage:
  "\<exists>fs rows. snd (PruneUsage t d) = d\<lparr>db_faults := fs, db_usage := rows\<rparr> \<and> (db_faults d = [] \<longrightarrow> fs = []) \<and> pruned (db_faults d = []) (\<lambda>u. us_ts u < t) (db_usage d) rows"
  "\<exists>fs rows. snd (PruneStripeEvents t d) = d\<lparr>db_faults := fs, db_events := rows\<rparr> \<and> (db_faults d = [] \<longrightarrow> fs = []) \<and> pruned (db_faults d = []) (\<lambda>e. se_received_at e < t) (db_events d) rows"
  "\<exists>fs rows. snd (PruneInvites t d) = d\<lparr>db_faults := fs, db_invites := rows\<rparr> \<and> (db_faults d = [] \<longrightarrow> fs = []) \<and> pruned (db_faults d = []) (\<lambda>i. iv_expires_at i < t) (db_invites d) rows"
  "\<exists>fs rows. snd (PruneAdminActions t d) = d\<lparr>db_faults := fs, db_actions := rows\<rparr> \<and> (db_faults d = [] \<longrightarrow> fs = []) \<and> pruned (db_faults d = []) (\<lambda>a. aa_at a < t) (db_actions d) rows"
  unfolding PruneUsage_def PruneStripeEvents_def PruneInvites_def PruneAdminActions_def delete_where_def stmt_def pruned_def put_defs
  by (cases d; auto split: list.splits option.splits)+

text \<open>
  The daily job removes from each of its four tables exactly the rows past that table's retention and touches nothing else; an audit
  retention of zero keeps every action. A table whose statement fails is left as it was, and the others are still pruned. Usage of the
  current day is never removed, so it is there when the next day's summary counts it.
\<close>

theorem pruneTables_exact:
  assumes "Parse_decoded address_ok given c0 = Inr c"
    and d'_def: "d' = pruneTables now c d" and calm_def: "calm \<longleftrightarrow> db_faults d = []"
  shows "pruned calm (\<lambda>u. us_ts u < now - cg_usage_retention_days c * day) (db_usage d) (db_usage d') \<and>
      pruned calm (\<lambda>e. se_received_at e < now - 30 * day) (db_events d) (db_events d') \<and>
      pruned calm (\<lambda>i. iv_expires_at i < now - 30 * day) (db_invites d) (db_invites d') \<and>
      pruned calm (\<lambda>a. cg_audit_retention_days c \<noteq> 0 \<and> aa_at a < now - cg_audit_retention_days c * day) (db_actions d) (db_actions d') \<and>
      d' = d\<lparr>db_faults := db_faults d', db_usage := db_usage d', db_events := db_events d', db_invites := db_invites d', db_actions := db_actions d'\<rparr> \<and>
      (\<forall>u\<in>set (db_usage d). us_ts u \<ge> now div day * day \<longrightarrow> u \<in> set (db_usage d'))"
proof -
  note cfg = parsed_config(7,8) [OF assms(1)]
  have ago: "add_days now (- n) = now - n * day" for n by (simp add: add_days_def)
  obtain f1 us where p1: "snd (PruneUsage (now - cg_usage_retention_days c * day) d) = d\<lparr>db_faults := f1, db_usage := us\<rparr>" "calm \<longrightarrow> f1 = []"
      "pruned calm (\<lambda>u. us_ts u < now - cg_usage_retention_days c * day) (db_usage d) us"
    using prune_usage(1) unfolding calm_def by blast
  define d1 where "d1 = d\<lparr>db_faults := f1, db_usage := us\<rparr>"
  obtain f2 es where p2: "snd (PruneStripeEvents (now - 30 * day) d1) = d1\<lparr>db_faults := f2, db_events := es\<rparr>" "f1 = [] \<longrightarrow> f2 = []"
      "pruned (f1 = []) (\<lambda>e. se_received_at e < now - 30 * day) (db_events d) es"
    using prune_usage(2) [of "now - 30 * day" d1] by (auto simp: d1_def)
  define d2 where "d2 = d1\<lparr>db_faults := f2, db_events := es\<rparr>"
  obtain f3 ivs where p3: "snd (PruneInvites (now - 30 * day) d2) = d2\<lparr>db_faults := f3, db_invites := ivs\<rparr>" "f2 = [] \<longrightarrow> f3 = []"
      "pruned (f2 = []) (\<lambda>i. iv_expires_at i < now - 30 * day) (db_invites d) ivs"
    using prune_usage(3) [of "now - 30 * day" d2] by (auto simp: d2_def d1_def)
  define d3 where "d3 = d2\<lparr>db_faults := f3, db_invites := ivs\<rparr>"
  obtain f4 acts where p4: "snd (PruneAdminActions (now - cg_audit_retention_days c * day) d3) = d3\<lparr>db_faults := f4, db_actions := acts\<rparr>"
      "pruned (f3 = []) (\<lambda>a. aa_at a < now - cg_audit_retention_days c * day) (db_actions d) acts"
    using prune_usage(4) [of "now - cg_audit_retention_days c * day" d3] by (auto simp: d3_def d2_def d1_def)
  have weaken: "pruned calm P rows rows'" if "pruned b P rows rows'" "calm \<longrightarrow> b" for b and P :: "'r \<Rightarrow> bool" and rows rows'
    using that by (auto simp: pruned_def)
  have d': "d' = (if cg_audit_retention_days c = 0 then d3 else d3\<lparr>db_faults := f4, db_actions := acts\<rparr>)"
    using cfg(1) p1(1) p2(1) p3(1) p4(1)
    by (simp add: d'_def pruneTables_def prune_table_def stripeEventRetentionDays_def inviteRetentionDays_def ago d1_def [symmetric] d2_def [symmetric] d3_def [symmetric])
  have cut: "now - cg_usage_retention_days c * day \<le> now div day * day"
  proof -
    have "now < now div day * day + day" "day \<le> cg_usage_retention_days c * day" using cfg(1) by simp_all
    then show ?thesis by linarith
  qed
  have today: "\<forall>u\<in>set (db_usage d). us_ts u \<ge> now div day * day \<longrightarrow> u \<in> set us"
    using p1(3) cut by (auto simp: pruned_def)
  show ?thesis
    unfolding d' using p1(3) weaken [OF p2(3)] weaken [OF p3(3)] weaken [OF p4(2)] p1(2) p2(2) p3(2) today
    by (simp add: d3_def d2_def d1_def)
qed

theorem pruneTables_exact_witness:
  "db_invites demo_db \<noteq> [] \<and> db_invites (pruneTables (500 * day) demo_loaded demo_db) = [] \<and>
   db_actions (pruneTables (500 * day) demo_loaded demo_db) = db_actions demo_db \<and> db_links (pruneTables (500 * day) demo_loaded demo_db) = db_links demo_db"
proof -
  let ?d = "pruneTables (500 * day) demo_loaded demo_db"
  have retention: "cg_audit_retention_days demo_loaded = 0" by (simp add: demo_loaded_def demo_config_def applyDefaults_def)
  have calm: "True \<longleftrightarrow> db_faults demo_db = []" by (simp add: demo_db_def empty_db_def)
  note all = pruneTables_exact [OF demo_loads refl calm, of "500 * day"]
  then have "?d = demo_db\<lparr>db_faults := db_faults ?d, db_usage := db_usage ?d, db_events := db_events ?d, db_invites := db_invites ?d, db_actions := db_actions ?d\<rparr>"
    by blast
  then have "db_links ?d = db_links demo_db" by (metis (no_types, lifting) db.ext_inject db.surjective db.update_convs)
  moreover have "pruned True (\<lambda>i. iv_expires_at i < 500 * day - 30 * day) (db_invites demo_db) (db_invites ?d)" using all by blast
  moreover have "pruned True (\<lambda>a. cg_audit_retention_days demo_loaded \<noteq> 0 \<and> aa_at a < 500 * day - cg_audit_retention_days demo_loaded * day) (db_actions demo_db) (db_actions ?d)"
    using all by blast
  ultimately show ?thesis using retention by (simp add: pruned_def demo_db_def)
qed

section \<open>Sizes\<close>

lemma unit_loop_spec:
  assumes "0 \<le> m"
  shows "\<exists>k. unit_loop m d e = (d * 1024 ^ k, e + k) \<and> m < 1024 ^ Suc k \<and> (k \<noteq> 0 \<longrightarrow> 1024 ^ k \<le> m)"
  using assms
proof (induction m d e rule: unit_loop.induct)
  case (1 m d e)
  show ?case
  proof (cases "m \<ge> 1024")
    case True
    have "0 \<le> m div 1024" using 1(2) by simp
    from 1(1) [OF True this] obtain k where k: "unit_loop (m div 1024) (d * 1024) (Suc e) = (d * 1024 * 1024 ^ k, Suc e + k)"
        "m div 1024 < 1024 ^ Suc k" "k \<noteq> 0 \<longrightarrow> 1024 ^ k \<le> m div 1024" by blast
    have "m < 1024 ^ Suc (Suc k)" using k(2) by simp
    moreover have "1024 ^ Suc k \<le> m" using k(3) True by (cases "k = 0") simp_all
    ultimately show ?thesis using k(1) True by (intro exI [of _ "Suc k"]) (simp add: unit_loop.simps [of m])
  next
    case False
    then show ?thesis by (intro exI [of _ 0]) (simp add: unit_loop.simps [of m])
  qed
qed

lemma half_even_near: "0 < d \<Longrightarrow> \<bar>2 * (half_even n d * d - n)\<bar> \<le> d"
proof -
  assume d: "0 < d"
  define q r where "q = n div d" and "r = n mod d"
  have "n = q * d + r" "0 \<le> r" "r < d" using d by (simp_all add: q_def r_def)
  then show ?thesis
    by (auto simp: half_even_def Let_def q_def [symmetric] r_def [symmetric] algebra_simps abs_le_iff)
qed

lemma float_int_exact: "n < 2 ^ 53 \<Longrightarrow> float_int n = n"
  by (simp add: float_int_def half_even_def upt_rec)

text \<open>
  A byte count of a usage row, at most the largest 64-bit integer, always has a unit, so the summary never panics on it. Below 8 PiB
  the number shown is the nearest tenth of the count in its unit, which is the largest unit not above it.
\<close>

theorem humanBytes_nearest:
  assumes "1024 \<le> n" "n < 2 ^ 63"
  shows "\<exists>v e. humanBytes n = Some (tenths v @ '' '' @ [''KMGTPE'' ! e] @ ''B'') \<and> e < 6 \<and> 1024 ^ Suc e \<le> n \<and> n < 1024 ^ Suc (Suc e) \<and>
      (n < 2 ^ 53 \<longrightarrow> \<bar>2 * (v * 1024 ^ Suc e - 10 * n)\<bar> \<le> 1024 ^ Suc e)"
proof -
  have nonneg: "0 \<le> n div 1024" using assms(1) by simp
  obtain k where k: "unit_loop (n div 1024) 1024 0 = (1024 * 1024 ^ k, k)" "n div 1024 < 1024 ^ Suc k" "k \<noteq> 0 \<longrightarrow> 1024 ^ k \<le> n div 1024"
    using unit_loop_spec [OF nonneg, of 1024 0] by auto
  have lo: "1024 ^ Suc k \<le> n" using k(3) assms(1) by (cases "k = 0") simp_all
  have hi: "n < 1024 ^ Suc (Suc k)" using k(2) by simp
  have "k < 6"
  proof (rule ccontr)
    assume "\<not> k < 6"
    then have "(1024::int) ^ 7 \<le> 1024 ^ Suc k" by (intro power_increasing) simp_all
    then show False using lo assms(2) by simp
  qed
  moreover have "\<bar>2 * (half_even (10 * float_int n) (1024 * 1024 ^ k) * 1024 ^ Suc k - 10 * n)\<bar> \<le> 1024 ^ Suc k" if "n < 2 ^ 53"
    using half_even_near [of "1024 ^ Suc k" "10 * n"] float_int_exact [OF that] by simp
  ultimately show ?thesis using lo hi assms(1) k(1) by (intro exI [of _ "half_even (10 * float_int n) (1024 * 1024 ^ k)"] exI [of _ k]) (simp add: humanBytes_def)
qed

theorem humanBytes_nearest_witness: "\<exists>v e. humanBytes 1536 = Some (tenths v @ '' '' @ [''KMGTPE'' ! e] @ ''B'') \<and> e < 6 \<and> \<bar>2 * (v * 1024 ^ Suc e - 15360)\<bar> \<le> 1024 ^ Suc e"
  using humanBytes_nearest [of 1536] by fastforce

end
