(* ===== verification/Serve_Mux.thy ===== *)
theory Serve_Mux
  imports Serve
begin

text \<open>
  Where the server's mux sends a request: the lemmas on matching and precedence, and the theorem that the API, the health check, the
  webhook and the landing pages each get theirs, whatever the configured landing paths are.
\<close>

section \<open>Precedence\<close>

lemma mux_path_wins:
  assumes "(pat, h) \<in> set table" "mux_rank pat path = Some r"
    "\<And>pat' h' r'. (pat', h') \<in> set table \<Longrightarrow> mux_rank pat' path = Some r' \<Longrightarrow> h' = h \<or> r < r'"
  shows "mux_path table path = Some h"
proof -
  define xs where "xs = List.map_filter (\<lambda>(pat, h). map_option (\<lambda>r. (r, h)) (mux_rank pat path)) table"
  have set_xs: "(r', h') \<in> set xs \<longleftrightarrow> (\<exists>pat'. (pat', h') \<in> set table \<and> mux_rank pat' path = Some r')" for r' h'
    by (force simp: xs_def map_filter_def)
  have "(r, h) \<in> set xs" using assms(1,2) set_xs by blast
  then obtain r0 h0 ys where ys: "sort_key fst xs = (r0, h0) # ys" by (cases "sort_key fst xs") (auto, metis list.distinct(1) set_sort empty_iff list.set(1))
  have "(r0, h0) \<in> set xs" using ys by (metis list.set_intros(1) set_sort)
  moreover have "r0 \<le> r"
  proof -
    have "(r, h) \<in> set ((r0, h0) # ys)" using \<open>(r, h) \<in> set xs\<close> ys by (metis set_sort)
    moreover have "sorted (map fst ((r0, h0) # ys))" using sorted_sort_key [of fst xs] ys by simp
    ultimately show ?thesis by force
  qed
  ultimately have "h0 = h" using assms(3) set_xs by (metis leD)
  then show ?thesis using ys by (simp add: mux_path_def xs_def)
qed

lemma mux_path_None:
  assumes "\<And>pat h. (pat, h) \<in> set table \<Longrightarrow> mux_rank pat path = None"
  shows "mux_path table path = None"
proof -
  have "List.map_filter (\<lambda>(pat, h). map_option (\<lambda>r. (r, h)) (mux_rank pat path)) table = []"
    using assms by (auto simp: map_filter_def filter_empty_conv)
  then show ?thesis by (simp add: mux_path_def)
qed

lemma mux_path_Some:
  assumes "mux_path table path = Some h"
  obtains pat r where "(pat, h) \<in> set table" "mux_rank pat path = Some r"
proof -
  define xs where "xs = List.map_filter (\<lambda>(pat, h). map_option (\<lambda>r. (r, h)) (mux_rank pat path)) table"
  from assms obtain r ys where "sort_key fst xs = (r, h) # ys" by (auto simp: mux_path_def xs_def split: list.splits)
  then have "(r, h) \<in> set xs" by (metis list.set_intros(1) set_sort)
  then show ?thesis using that by (auto simp: xs_def map_filter_def)
qed

lemma set_of_method: "(pat, h) \<in> set (of_method m table) \<longleftrightarrow> (m, pat, h) \<in> set table"
  by (force simp: of_method_def)

text \<open>Where no pattern with a method matches, the patterns for any method decide.\<close>

lemma mux_find_general:
  assumes "\<And>m' pat h. (m', pat, h) \<in> set table \<Longrightarrow> m' \<noteq> [] \<Longrightarrow> mux_rank pat path = None"
  shows "mux_find table m path = mux_path (of_method [] table) path"
proof -
  have "mux_path (of_method m' table) path = None" if "m' \<noteq> []" for m'
    by (rule mux_path_None) (use assms that in \<open>auto simp: set_of_method\<close>)
  then show ?thesis by (cases "m = []") (auto simp: mux_find_def split: option.splits)
qed

lemma mux_find_Some:
  assumes "mux_find table m path = Some h"
  obtains m' pat r where "(m', pat, h) \<in> set table" "mux_rank pat path = Some r"
proof -
  from assms obtain m' where "mux_path (of_method m' table) path = Some h"
    by (auto simp: mux_find_def split: option.splits if_splits)
  then show ?thesis using that by (auto elim!: mux_path_Some simp: set_of_method)
qed

section \<open>Literal patterns\<close>

definition literal :: "string \<Rightarrow> bool" where
  "literal p \<longleftrightarrow> CHR ''{'' \<notin> set p"

lemma seg_match_literal:
  assumes "\<forall>q\<in>set ps. literal q" "seg_match ps ss = Some r"
  shows "ps = ss \<or> (\<exists>qs rest. ps = qs @ [[]] \<and> ss = qs @ rest \<and> rest \<noteq> [])"
  using assms
proof (induction ps ss arbitrary: r rule: seg_match.induct)
  case (4 p ps s ss)
  have lit: "\<not> has_prefix p ''{''" "p \<noteq> ''{$}''" using 4(3) no_brace by (auto simp: literal_def)
  show ?case
  proof (cases "p = [] \<and> ps = []")
    case True
    then have "p # ps = [] @ [[]] \<and> s # ss = [] @ (s # ss) \<and> s # ss \<noteq> []" by simp
    then show ?thesis by blast
  next
    case False
    then obtain r' where r': "p = s" "seg_match ps ss = Some r'"
      using 4(4) lit by (simp only: seg_match.simps if_False simp_thms) (auto split: if_splits)
    then have "ps = ss \<or> (\<exists>qs rest. ps = qs @ [[]] \<and> ss = qs @ rest \<and> rest \<noteq> [])"
      using 4(2) [OF False] lit 4(3) by auto
    then show ?thesis using r'(1) by (metis append_Cons)
  qed
qed auto

lemma mux_rank_literal:
  assumes "literal p" "mux_rank p path = Some r"
  shows "p = path \<or> (\<exists>b. p = b @ ''/'') \<and> has_prefix path p \<or> p = []"
proof -
  have "\<forall>q\<in>set (split_on CHR ''/'' p). literal q" using assms(1) set_split_on_subset by (fastforce simp: literal_def)
  from seg_match_literal [OF this assms(2) [unfolded mux_rank_def]] show ?thesis
  proof (elim disjE exE conjE)
    assume "split_on CHR ''/'' p = split_on CHR ''/'' path"
    then show ?thesis using join_split by metis
  next
    fix qs rest assume *: "split_on CHR ''/'' p = qs @ [[]]" "split_on CHR ''/'' path = qs @ rest" "rest \<noteq> []"
    have j: "qs \<noteq> [] \<Longrightarrow> xs \<noteq> [] \<Longrightarrow> join ''/'' (qs @ xs) = join ''/'' qs @ ''/'' @ join ''/'' xs" for qs xs
      by (induction qs) (auto simp: join_Cons)
    have "p = join ''/'' (qs @ [[]])" "path = join ''/'' (qs @ rest)" using * join_split by metis+
    then show ?thesis using j [of qs "[[]]"] j [of qs rest] *(3) by (cases "qs = []") (auto simp: has_prefix_iff)
  qed
qed

text \<open>On its own path a literal pattern goes before every other literal pattern that matches it.\<close>

lemma seg_match_self:
  assumes "\<forall>q\<in>set ss. literal q" "ss \<noteq> []"
  shows "\<exists>r. seg_match ss ss = Some r \<and> (\<forall>ps r'. (\<forall>q\<in>set ps. literal q) \<longrightarrow> seg_match ps ss = Some r' \<longrightarrow> ps = ss \<or> r < r')"
  using assms
proof (induction ss)
  case (Cons s ss)
  have lit: "\<not> has_prefix s ''{''" "s \<noteq> ''{$}''" using Cons(2) no_brace by (auto simp: literal_def)
  show ?case
  proof (cases "ss = []")
    case True
    have "ps = [s] \<or> (if s = [] then [2] else [0]) < r'" if "seg_match ps [s] = Some r'" "\<forall>q\<in>set ps. literal q" for ps r'
      using that lit no_brace by (cases ps; cases "tl ps") (auto simp: literal_def split: if_splits)
    then show ?thesis using True lit by (intro exI [of _ "if s = [] then [2] else [0]"]) auto
  next
    case False
    then obtain r where r: "seg_match ss ss = Some r"
      "\<And>ps r'. \<forall>q\<in>set ps. literal q \<Longrightarrow> seg_match ps ss = Some r' \<Longrightarrow> ps = ss \<or> r < r'" using Cons by auto
    have "ps = s # ss \<or> 0 # r < r'" if m: "seg_match ps (s # ss) = Some r'" and l: "\<forall>q\<in>set ps. literal q" for ps r'
    proof (cases ps)
      case (Cons q qs)
      have "\<not> has_prefix q ''{''" "q \<noteq> ''{$}''" using l Cons no_brace by (auto simp: literal_def)
      then consider "q = []" "qs = []" "r' = [2]" | r'' where "q = s" "seg_match qs ss = Some r''" "r' = 0 # r''"
        using m Cons by (auto split: if_splits)
      then show ?thesis using r(2) [of qs] l Cons by cases auto
    qed (use m in simp)
    then show ?thesis using r(1) lit False by (intro exI [of _ "0 # r"]) auto
  qed
qed simp

lemma mux_rank_self:
  assumes "literal path"
  shows "\<exists>r. mux_rank path path = Some r \<and> (\<forall>p r'. literal p \<longrightarrow> mux_rank p path = Some r' \<longrightarrow> p = path \<or> r < r')"
proof -
  have lit: "\<forall>q\<in>set (split_on CHR ''/'' p). literal q" if "literal p" for p using that set_split_on_subset by (fastforce simp: literal_def)
  obtain r where r: "mux_rank path path = Some r"
      "\<forall>ps r'. (\<forall>q\<in>set ps. literal q) \<longrightarrow> seg_match ps (split_on CHR ''/'' path) = Some r' \<longrightarrow> ps = split_on CHR ''/'' path \<or> r < r'"
    using seg_match_self [OF lit [OF assms]] by (auto simp: mux_rank_def split_on_not_Nil)
  have "p = path \<or> r < r'" if "literal p" "mux_rank p path = Some r'" for p r'
    using r(2) lit [OF that(1)] that(2) join_split unfolding mux_rank_def by metis
  with r(1) show ?thesis by blast
qed

section \<open>The table\<close>

lemma routes_methods: "rt \<in> set (routes sv) \<Longrightarrow> rt_method rt \<noteq> []"
proof -
  have "list_all (\<lambda>rt. rt_method rt \<noteq> []) (routes sv)" by (simp add: routes_def fixedRoutes_def route_of_def)
  then show "rt \<in> set (routes sv) \<Longrightarrow> rt_method rt \<noteq> []" by (simp add: list_all_iff)
qed

definition general :: "bool \<Rightarrow> string \<Rightarrow> string \<Rightarrow> (string \<times> mux_target) list" where
  "general stripe s c = map snd (mux_first @ mux_last) @ (if stripe then [(''/stripe/webhook'', StripeWebhook)] else []) @ map snd (landing_pages s c)"

lemma newMux_general:
  assumes "([], pat, h) \<in> set (newMux stripe web s c)"
  shows "(pat, h) \<in> set (general stripe s c)"
proof -
  have "[] \<noteq> rt_method rt" if "rt \<in> set (routes sv)" for rt sv using routes_methods [OF that] by simp
  then have "([], pat, h) \<in> set mux_first \<or> ([], pat, h) \<in> set mux_last \<or> stripe \<and> (pat, h) = (''/stripe/webhook'', StripeWebhook) \<or>
      ([], pat, h) \<in> set (landing_pages s c)"
    using assms unfolding newMux_def set_append Un_iff by (cases web; cases stripe) auto
  then show ?thesis unfolding general_def set_append Un_iff set_map by (elim disjE) (auto intro: rev_image_eqI)
qed

lemma newMux_mounted:
  "entry \<in> set mux_first \<Longrightarrow> entry \<in> set (newMux stripe web s c)" "entry \<in> set mux_last \<Longrightarrow> entry \<in> set (newMux stripe web s c)"
  "stripe \<Longrightarrow> ([], ''/stripe/webhook'', StripeWebhook) \<in> set (newMux stripe web s c)"
  unfolding newMux_def set_append Un_iff by simp_all

lemma newMux_methods:
  assumes "(m, pat, h) \<in> set (newMux stripe web s c)" "m \<noteq> []"
  obtains sv rt where "web = Some sv" "rt \<in> set (routes sv)" "pat = rt_pattern rt" "h = PortalRoute rt" "m = rt_method rt"
proof -
  have "\<forall>e\<in>set (mux_first @ mux_last @ landing_pages s c). fst e = []" by (simp add: mux_first_def mux_last_def landing_pages_def)
  then have "e \<notin> set mux_first" "e \<notin> set mux_last" "e \<notin> set (landing_pages s c)" if "fst e \<noteq> []" for e using that by auto
  then show ?thesis using that assms unfolding newMux_def set_append Un_iff by (cases web; cases stripe) auto
qed

text \<open>No fixed route of the portal takes a path of the API or of the other handlers.\<close>

definition elsewhere :: "string list" where "elsewhere = [''v1'', ''v2'', ''healthz'', ''stripe'']"

definition keeps_off :: "string \<Rightarrow> bool" where
  "keeps_off pat =
     (case split_on CHR ''/'' pat of
        [] # q # qs \<Rightarrow> q = ''{$}'' \<and> qs = [] \<or> q \<noteq> [] \<and> \<not> has_prefix q ''{'' \<and> q \<notin> set elsewhere
      | _ \<Rightarrow> False)"

lemma fixedPatterns_keep_off: "list_all keeps_off fixedPatterns"
  by code_simp

lemma keeps_off_rank:
  assumes "keeps_off pat" "split_on CHR ''/'' path = [] # seg # segs" "seg \<in> set elsewhere"
  shows "mux_rank pat path = None"
proof -
  obtain q qs where "split_on CHR ''/'' pat = [] # q # qs" "q = ''{$}'' \<and> qs = [] \<or> q \<noteq> [] \<and> \<not> has_prefix q ''{'' \<and> q \<notin> set elsewhere"
    using assms(1) by (auto simp: keeps_off_def split: list.splits)
  moreover have "seg \<noteq> []" using assms(3) by (auto simp: elsewhere_def)
  ultimately show ?thesis using assms(2,3) by (auto simp: mux_rank_def has_prefix_def)
qed

lemma fixedRoutes_elsewhere:
  assumes "rt \<in> set (fixedRoutes sv)" "split_on CHR ''/'' path = [] # seg # segs" "seg \<in> set elsewhere"
  shows "mux_rank (rt_pattern rt) path = None"
proof (rule keeps_off_rank [OF _ assms(2,3)])
  have "rt_pattern rt \<in> set fixedPatterns" using assms(1) by (metis fixedRoutes_patterns image_eqI list.set_map)
  then show "keeps_off (rt_pattern rt)" using fixedPatterns_keep_off by (auto simp: list_all_iff)
qed

section \<open>Where requests go\<close>

text \<open>What the configuration's checks guarantee of a landing path.\<close>

definition landing_ok :: "string \<Rightarrow> bool" where
  "landing_ok p \<longleftrightarrow> has_prefix p ''/'' \<and> literal p \<and> p \<noteq> ''/'' \<and> p \<noteq> ''/healthz'' \<and> p \<noteq> ''/stripe/webhook'' \<and> \<not> has_prefix p ''/v1/'' \<and> \<not> has_prefix p ''/v2/''"

lemma parsed_landing:
  assumes "Parse_decoded address_ok given c0 = Inr c"
  shows "landing_ok (sc_success_path (cg_stripe c))" "landing_ok (sc_cancel_path (cg_stripe c))"
  using parsed_config(15-19) [OF assms] by (simp_all add: landing_ok_def landing_error_None literal_def)

lemma landing_off_api:
  assumes "landing_ok p" "v \<in> {''/v1/'', ''/v2/''}" "path = v @ rest"
  shows "mux_rank p path = None"
proof (rule ccontr)
  assume "mux_rank p path \<noteq> None"
  then obtain r where "mux_rank p path = Some r" by blast
  moreover have "literal p" "p \<noteq> []" "p \<noteq> ''/''" "\<not> has_prefix p v" using assms(1,2) by (auto simp: landing_ok_def has_prefix_def)
  moreover have "\<not> has_prefix path p" if "p = b @ ''/''" for b
  proof
    assume "has_prefix path p"
    then obtain t where "v @ rest = p @ t" using assms(3) by (auto simp: has_prefix_iff)
    then have "v @ rest = b @ ''/'' @ t" using that by simp
    then show False using that \<open>p \<noteq> ''/''\<close> \<open>\<not> has_prefix p v\<close> assms(2)
      by (auto simp: has_prefix_iff append_eq_Cons_conv Cons_eq_append_conv)
  qed
  ultimately show False using mux_rank_literal [of p path r] assms(3) by auto
qed

text \<open>A landing path below which the webhook lies would make the mux panic, so in a mux that was built it is not one.\<close>

lemma mux_panics_append: "e \<in> set es1 \<Longrightarrow> e' \<in> set es2 \<Longrightarrow> patterns_conflict e e' \<Longrightarrow> mux_panics (es1 @ es2)"
  by (induction es1) (auto simp: list_ex_iff)

lemma stripe_landing_panics:
  assumes "sv_success_path sv = ''/stripe/'' \<or> sv_cancel_path sv = ''/stripe/''"
  shows "mux_panics (mux_patterns (newMux True (Some sv) s c))"
proof -
  let ?rts = "map (\<lambda>rt. (rt_method rt, rt_pattern rt)) (routes sv)"
  have "mux_patterns (newMux True (Some sv) s c) = (mux_patterns mux_first @ [([], ''/stripe/webhook'')]) @ (?rts @ mux_patterns mux_last)"
    by (simp add: mux_patterns_def newMux_def comp_def)
  moreover have "(''GET'', ''/stripe/'') \<in> set (?rts @ mux_patterns mux_last)" using assms by (auto simp: routes_def route_of_def)
  moreover have "patterns_conflict ([], ''/stripe/webhook'') (''GET'', ''/stripe/'')" by code_simp
  ultimately show ?thesis
    using mux_panics_append [of "([], ''/stripe/webhook'')" "mux_patterns mux_first @ [([], ''/stripe/webhook'')]"] by simp
qed

lemma landing_off_fixed:
  assumes "landing_ok p" "path = ''/healthz'' \<or> path = ''/stripe/webhook'' \<and> p \<noteq> ''/stripe/''"
  shows "mux_rank p path = None"
proof (rule ccontr)
  assume "mux_rank p path \<noteq> None"
  then obtain r where "mux_rank p path = Some r" by blast
  moreover have "literal p" "p \<noteq> []" "p \<noteq> path" "p \<noteq> ''/''" using assms by (auto simp: landing_ok_def has_prefix_def)
  ultimately obtain b where p: "p = b @ ''/''" "has_prefix path p" using mux_rank_literal [of p path r] by blast
  then obtain t where "path = b @ ''/'' @ t" by (auto simp: has_prefix_iff)
  then show False using p(1) assms(2) \<open>p \<noteq> ''/''\<close> by (auto simp: Cons_eq_append_conv append_eq_Cons_conv)
qed

lemma split_api:
  assumes "v \<in> {''/v1/'', ''/v2/''}"
  shows "split_on CHR ''/'' (v @ rest) = [] # butlast (tl v) # split_on CHR ''/'' rest"
  using assms by (cases "split_on CHR ''/'' rest") (auto simp: split_on_not_Nil)

text \<open>The facts about a server that was built.\<close>

lemma newServer_Inr:
  assumes "newServer mk c None stripe pd = Inr srv"
  shows "sr_mux srv = newMux stripe (sr_portal srv) (sc_success_path (cg_stripe c)) (sc_cancel_path (cg_stripe c))"
    "\<not> mux_panics (mux_patterns (sr_mux srv))"
    "sr_portal srv = Some sv \<Longrightarrow> \<exists>base codec. sv = portal_server base codec c \<and> checkReservedPaths base c = None"
  using assms unfolding newServer_def start_portal_def start_mux_def Let_def by (auto split: option.splits sum.splits prod.splits if_splits) blast

definition of_config :: "Server option \<Rightarrow> string \<Rightarrow> string \<Rightarrow> bool" where
  "of_config web s c \<longleftrightarrow> (\<forall>sv\<in>set_option web. sv_success_path sv = s \<and> sv_cancel_path sv = c)"

lemma special_general:
  assumes "of_config web s c" "split_on CHR ''/'' path = [] # seg # segs" "seg \<in> set elsewhere"
    "web \<noteq> None \<Longrightarrow> mux_rank s path = None" "web \<noteq> None \<Longrightarrow> mux_rank c path = None"
  shows "mux_find (newMux stripe web s c) m path = mux_path (of_method [] (newMux stripe web s c)) path"
proof (rule mux_find_general)
  fix m' pat h assume "(m', pat, h) \<in> set (newMux stripe web s c)" "m' \<noteq> []"
  then obtain sv rt where web: "web = Some sv" and rt: "rt \<in> set (routes sv)" "pat = rt_pattern rt" by (rule newMux_methods)
  have "rt \<in> set (fixedRoutes sv) \<or> pat = s \<or> pat = c" using rt assms(1) web by (auto simp: routes_def of_config_def route_of_def)
  then show "mux_rank pat path = None" using fixedRoutes_elsewhere [OF _ assms(2,3)] rt(2) assms(4,5) web by auto
qed

lemma general_literal: "landing_ok s \<Longrightarrow> landing_ok c \<Longrightarrow> (pat, h) \<in> set (general stripe s c) \<Longrightarrow> literal pat"
  by (auto simp: general_def mux_first_def mux_last_def landing_pages_def landing_ok_def literal_def split: if_splits)

lemma general_wins:
  assumes "landing_ok s" "landing_ok c" "literal path" "([], path, h) \<in> set (newMux stripe web s c)"
    "\<And>h'. (path, h') \<in> set (general stripe s c) \<Longrightarrow> h' = h"
  shows "mux_path (of_method [] (newMux stripe web s c)) path = Some h"
proof -
  obtain r where r: "mux_rank path path = Some r" "\<And>p r'. literal p \<Longrightarrow> mux_rank p path = Some r' \<Longrightarrow> p = path \<or> r < r'"
    using mux_rank_self [OF assms(3)] by blast
  show ?thesis
  proof (rule mux_path_wins [OF _ r(1)])
    show "(path, h) \<in> set (of_method [] (newMux stripe web s c))" using assms(4) by (simp add: set_of_method)
    fix pat' h' r' assume m: "(pat', h') \<in> set (of_method [] (newMux stripe web s c))" "mux_rank pat' path = Some r'"
    then have "(pat', h') \<in> set (general stripe s c)" using newMux_general by (simp add: set_of_method)
    then show "h' = h \<or> r < r'" using r(2) [OF general_literal [OF assms(1,2)] m(2)] assms(5) by blast
  qed
qed

lemma general_owner:
  assumes "landing_ok s" "landing_ok c" "(path, h) \<in> {(''/healthz'', Healthz), (''/stripe/webhook'', StripeWebhook), (''/v1/games.json'', GamesJson), (''/v2/games.json'', GamesJson)}"
    "(path, h') \<in> set (general stripe s c)"
  shows "h' = h"
proof -
  have "has_prefix ''/v1/games.json'' ''/v1/''" "has_prefix ''/v2/games.json'' ''/v2/''" by (simp_all add: has_prefix_def)
  then have "p \<noteq> path" if "landing_ok p" for p
    using that assms(3) unfolding landing_ok_def by (elim insertE; simp only: prod.inject) (metis empty_iff)+
  then have ne: "path \<noteq> s" "path \<noteq> c" using assms(1,2) by blast+
  have "(path, h') \<in> set (map snd (mux_first @ mux_last)) \<or> (path, h') = (''/stripe/webhook'', StripeWebhook)"
    using assms(4) ne unfolding general_def set_append Un_iff by (auto simp: landing_pages_def split: if_splits)
  then show ?thesis using assms(3) by (elim insertE; simp add: mux_first_def mux_last_def)
qed

lemma literal_exact:
  assumes "literal p" "p \<noteq> []" "last p \<noteq> CHR ''/''" "p \<noteq> path"
  shows "mux_rank p path = None"
  using mux_rank_literal [OF assms(1), of path] assms(2-4) by (cases "mux_rank p path") auto

lemma api_wins:
  assumes "landing_ok s" "landing_ok c" "v \<in> {''/v1/'', ''/v2/''}" "v @ rest \<notin> {''/v1/games.json'', ''/v2/games.json''}"
  shows "mux_path (of_method [] (newMux stripe web s c)) (v @ rest) = Some GatewayHandler"
proof (rule mux_path_wins [of v _ _ _ "[0, 0, 2]"])
  note split = split_api [OF assms(3), of rest]
  have "([], v, GatewayHandler) \<in> set mux_last" using assms(3) by (auto simp: mux_last_def)
  then show "(v, GatewayHandler) \<in> set (of_method [] (newMux stripe web s c))" by (simp add: set_of_method newMux_mounted)
  show "mux_rank v (v @ rest) = Some [0, 0, 2]"
    using assms(3) split by (cases "split_on CHR ''/'' rest") (auto simp: mux_rank_def split_on_not_Nil has_prefix_def)
  have none: "mux_rank pat (v @ rest) = None" if "pat \<in> {''/healthz'', ''/stripe/webhook'', ''/v1/games.json'', ''/v2/games.json''}" for pat
    by (rule literal_exact) (use that assms(3,4) in \<open>auto simp: literal_def\<close>)
  have root: "mux_rank ''/'' (v @ rest) = Some [0, 2]" using split by (simp add: mux_rank_def has_prefix_def)
  have own: "mux_rank s (v @ rest) = None" "mux_rank c (v @ rest) = None"
    using landing_off_api [OF assms(1) assms(3) refl] landing_off_api [OF assms(2) assms(3) refl] by auto
  fix pat' h' r' assume m: "(pat', h') \<in> set (of_method [] (newMux stripe web s c))" "mux_rank pat' (v @ rest) = Some r'"
  then have "(pat', h') \<in> set (general stripe s c)" using newMux_general by (simp add: set_of_method)
  then have "pat' \<in> {''/healthz'', ''/stripe/webhook'', ''/v1/games.json'', ''/v2/games.json'', s, c} \<or> h' = GatewayHandler \<or> pat' = ''/''"
    by (auto simp: general_def mux_first_def mux_last_def landing_pages_def split: if_splits)
  then show "h' = GatewayHandler \<or> [0, 0, 2] < r'" using none [of pat'] root own m(2) by auto
qed

text \<open>A fixed route that takes a path is one that reserves it.\<close>

lemma seg_match_all2:
  assumes "seg_match ps ss = Some r" "ps \<noteq> []" "last ps \<noteq> []" "last ps \<noteq> ''{$}''"
  shows "list_all2 (\<lambda>p s. has_prefix p ''{'' \<or> p = s) ps ss"
  using assms
proof (induction ps ss arbitrary: r rule: seg_match.induct)
  case (4 p ps s ss)
  have head: "\<not> (p = [] \<and> ps = [])" "\<not> (p = ''{$}'' \<and> ps = [])" using 4(5,6) by (auto split: if_splits)
  then obtain r' where r': "has_prefix p ''{'' \<or> p = s" "seg_match ps ss = Some r'"
    using 4(3) by (simp only: seg_match.simps if_False simp_thms) (auto split: if_splits)
  show ?case
  proof (cases "ps = []")
    case True
    then show ?thesis using r' by (cases ss) auto
  next
    case False
    then have "list_all2 (\<lambda>p s. has_prefix p ''{'' \<or> p = s) ps ss"
      using 4(1) 4(2) head r' 4(3,5,6) by (cases "has_prefix p ''{''"; cases "s = []") auto
    then show ?thesis using r'(1) by simp
  qed
qed auto

lemma fixedPatterns_last: "list_all (\<lambda>p. p = ''/{$}'' \<or> last (split_on CHR ''/'' p) \<noteq> [] \<and> last (split_on CHR ''/'' p) \<noteq> ''{$}'') fixedPatterns"
  by code_simp

lemma fixed_takes_reserved:
  assumes "rt \<in> set (fixedRoutes sv)" "mux_rank (rt_pattern rt) path = Some r" "path \<noteq> ''/''"
  shows "Reserved base path"
proof -
  let ?p = "rt_pattern rt"
  have p: "?p \<in> set fixedPatterns" using assms(1) by (metis fixedRoutes_patterns image_eqI list.set_map)
  have "?p \<noteq> ''/{$}''"
  proof
    assume "?p = ''/{$}''"
    then have "seg_match [[], ''{$}''] (split_on CHR ''/'' path) = Some r" using assms(2) by (simp add: mux_rank_def)
    then have "split_on CHR ''/'' path = [[], []]"
      by (cases "split_on CHR ''/'' path"; cases "tl (split_on CHR ''/'' path)") (auto simp: has_prefix_def split: if_splits)
    then have "path = ''/''" using join_split [of "CHR ''/''" path] by simp
    then show False using assms(3) by simp
  qed
  moreover from this have "list_all2 (\<lambda>p s. has_prefix p ''{'' \<or> p = s) (split_on CHR ''/'' ?p) (split_on CHR ''/'' path)"
    using seg_match_all2 [OF assms(2) [unfolded mux_rank_def] split_on_not_Nil] fixedPatterns_last p by (auto simp: list_all_iff)
  ultimately have "pattern_matches ?p path" by (simp add: pattern_matches_def)
  moreover have "covered (reservedFromRoutes base) ?p" using routes_covered assms(1) by (auto simp: list_all_iff)
  ultimately show ?thesis using covered_matches by (auto simp: Reserved_def case_prod_beta)
qed

lemma landing_route:
  assumes "landing_ok p" "landing_ok q" "p \<noteq> q" "sv_success_path sv = p \<and> sv_cancel_path sv = q \<or> sv_success_path sv = q \<and> sv_cancel_path sv = p"
    "\<not> Reserved base p" "rt \<in> set (routes sv)" "rt_method rt = ''GET''" "rt_pattern rt = p"
  shows "mux_find (newMux stripe (Some sv) s c) ''GET'' p = Some (PortalRoute rt)"
proof -
  let ?table = "of_method ''GET'' (newMux stripe (Some sv) s c)"
  obtain r where r: "mux_rank p p = Some r" "\<And>p' r'. literal p' \<Longrightarrow> mux_rank p' p = Some r' \<Longrightarrow> p' = p \<or> r < r'"
    using mux_rank_self [of p] assms(1) unfolding landing_ok_def by blast
  have fixed: "rt' \<notin> set (fixedRoutes sv)" if "mux_rank (rt_pattern rt') p = Some r'" for rt' r'
    using fixed_takes_reserved [of rt' sv p r' base] that assms(1,5) unfolding landing_ok_def by blast
  have "mux_path ?table p = Some (PortalRoute rt)"
  proof (rule mux_path_wins [OF _ r(1)])
    have "(''GET'', p, PortalRoute rt) \<in> set (newMux stripe (Some sv) s c)" using assms(6-8) unfolding newMux_def set_append Un_iff by force
    then show "(p, PortalRoute rt) \<in> set ?table" by (simp add: set_of_method)
    fix pat' h' r' assume m: "(pat', h') \<in> set ?table" "mux_rank pat' p = Some r'"
    then obtain rt' where rt': "rt' \<in> set (routes sv)" "pat' = rt_pattern rt'" "h' = PortalRoute rt'"
      by (auto simp: set_of_method elim: newMux_methods)
    have "rt' \<notin> set (fixedRoutes sv)" "rt \<notin> set (fixedRoutes sv)" using fixed m(2) rt'(2) r(1) assms(8) by auto
    then have "pat' = q \<or> rt' = rt" using rt'(1,2) assms(3,4,6,8) by (auto simp: routes_def route_of_def)
    then show "h' = PortalRoute rt \<or> r < r'" using r(2) [OF _ m(2)] assms(2,3) rt'(3) unfolding landing_ok_def by blast
  qed
  then show ?thesis by (simp add: mux_find_def)
qed

text \<open>The handlers with a path of their own.\<close>

lemma owner_wins:
  assumes "landing_ok s" "landing_ok c" "(path, h) \<in> {(''/healthz'', Healthz), (''/stripe/webhook'', StripeWebhook), (''/v1/games.json'', GamesJson), (''/v2/games.json'', GamesJson)}"
    "h = StripeWebhook \<Longrightarrow> stripe"
  shows "mux_path (of_method [] (newMux stripe web s c)) path = Some h"
proof (rule general_wins [OF assms(1,2)])
  show "literal path" using assms(3) by (elim insertE) (simp_all add: literal_def)
  have "([], path, h) \<in> set mux_first \<or> stripe \<and> (path, h) = (''/stripe/webhook'', StripeWebhook)"
    using assms(3,4) by (elim insertE) (simp_all add: mux_first_def)
  then show "([], path, h) \<in> set (newMux stripe web s c)" using newMux_mounted(1,3) by blast
qed (rule general_owner [OF assms(1-3)])

lemma newMux_api:
  assumes "of_config web s c" "landing_ok s" "landing_ok c" "v \<in> {''/v1/'', ''/v2/''}"
  shows "mux_find (newMux stripe web s c) m (v @ rest) = mux_path (of_method [] (newMux stripe web s c)) (v @ rest)"
  by (rule special_general [OF assms(1) split_api [OF assms(4)]])
    (use assms(4) landing_off_api [OF assms(2,4) refl] landing_off_api [OF assms(3,4) refl] in \<open>auto simp: elsewhere_def\<close>)

lemma newMux_games:
  assumes "of_config web s c" "landing_ok s" "landing_ok c" "path = ''/v1/games.json'' \<or> path = ''/v2/games.json''"
  shows "mux_find (newMux stripe web s c) m path = Some GamesJson"
proof -
  have "mux_path (of_method [] (newMux stripe web s c)) path = Some GamesJson" by (rule owner_wins [OF assms(2,3)]) (use assms(4) in \<open>elim disjE; simp\<close>)+
  moreover obtain v where "v \<in> {''/v1/'', ''/v2/''}" "path = v @ ''games.json''"
    using assms(4) by (elim disjE) (use that [of "''/v1/''"] that [of "''/v2/''"] in simp_all)
  ultimately show ?thesis using newMux_api [OF assms(1-3)] by simp
qed

lemma newMux_gateway:
  assumes "of_config web s c" "landing_ok s" "landing_ok c"
  shows "mux_find (newMux stripe web s c) m path = Some GatewayHandler \<longleftrightarrow>
      (has_prefix path ''/v1/'' \<or> has_prefix path ''/v2/'') \<and> path \<noteq> ''/v1/games.json'' \<and> path \<noteq> ''/v2/games.json''"
    (is "?l \<longleftrightarrow> ?r")
proof
  assume l: ?l
  then obtain m' pat r where e: "(m', pat, GatewayHandler) \<in> set (newMux stripe web s c)" "mux_rank pat path = Some r" by (rule mux_find_Some)
  have "m' = []" using e(1) by (cases "m' = []") (auto elim: newMux_methods)
  then have "(pat, GatewayHandler) \<in> set (general stripe s c)" using e(1) newMux_general by blast
  then have "pat = ''/v1/'' \<or> pat = ''/v2/''" by (auto simp: general_def mux_first_def mux_last_def landing_pages_def split: if_splits)
  then have "has_prefix path ''/v1/'' \<or> has_prefix path ''/v2/''" using mux_rank_literal [OF _ e(2)] by (auto simp: literal_def has_prefix_def)
  then show ?r using l newMux_games [OF assms, of path stripe m] by auto
next
  assume r: ?r
  then obtain v rest where v: "v \<in> {''/v1/'', ''/v2/''}" "path = v @ rest" unfolding has_prefix_iff by blast
  then show ?l using newMux_api [OF assms v(1)] api_wins [OF assms(2,3) v(1), of rest stripe web] r by simp
qed

lemma newMux_healthz:
  assumes "of_config web s c" "landing_ok s" "landing_ok c"
  shows "mux_find (newMux stripe web s c) m ''/healthz'' = Some Healthz"
proof -
  have "mux_find (newMux stripe web s c) m ''/healthz'' = mux_path (of_method [] (newMux stripe web s c)) ''/healthz''"
    by (rule special_general [OF assms(1), of _ "''healthz''" "[]"]) (use landing_off_fixed assms(2,3) in \<open>auto simp: elsewhere_def\<close>)
  also have "\<dots> = Some Healthz" by (rule owner_wins [OF assms(2,3)]) simp_all
  finally show ?thesis .
qed

lemma newMux_webhook:
  assumes "of_config web s c" "landing_ok s" "landing_ok c" "web \<noteq> None \<Longrightarrow> s \<noteq> ''/stripe/'' \<and> c \<noteq> ''/stripe/''"
  shows "mux_find (newMux True web s c) m ''/stripe/webhook'' = Some StripeWebhook"
proof -
  have "mux_find (newMux True web s c) m ''/stripe/webhook'' = mux_path (of_method [] (newMux True web s c)) ''/stripe/webhook''"
    by (rule special_general [OF assms(1), of _ "''stripe''" "[''webhook'']"]) (use landing_off_fixed assms(2-4) in \<open>auto simp: elsewhere_def\<close>)
  also have "\<dots> = Some StripeWebhook" by (rule owner_wins [OF assms(2,3)]) simp_all
  finally show ?thesis .
qed



end
