(* ===== verification/MemStore.thy ===== *)
theory MemStore
  imports Store_Trials
begin

text \<open>
  \<open>src/apiaccess/apiaccesstest/memstore.go\<close>: the store in memory that the tests of the other packages run on. Every method is
  one critical section of its mutex, so a method is a function of the whole store. Maps are association lists; where the code
  ranges over a map, the sort that follows decides the order. A nil slice of games is the empty list, as in the client's model.
\<close>

section \<open>The store\<close>

record mem_link =
  lk_account_id :: int
  lk_expires_at :: time
  lk_used :: bool

record mem_event =
  ev_received_at :: time
  ev_processed :: bool

text \<open>\<open>ms_now\<close> is what the clock reads during the call.\<close>

record MemStore =
  ms_now :: time
  ms_fail :: "(string \<times> access_error) list"
  ms_fail_at :: "(string \<times> int) list"
  ms_fail_from :: "(string \<times> int) list"
  ms_fail_id :: "(string \<times> int) list"
  ms_calls :: "(string \<times> int) list"
  ms_notified :: "string list"
  ms_accounts :: "Account list"
  ms_keys :: "Key list"
  ms_ents :: "Entitlement list"
  ms_usage :: "Usage list"
  ms_trials :: "Trial list"
  ms_invites :: "(string \<times> Invite) list"
  ms_links :: "(string \<times> mem_link) list"
  ms_events :: "(string \<times> mem_event) list"
  ms_nonces :: "(string \<times> time) list"
  ms_actions :: "AdminAction list"
  ms_seq :: "(string \<times> int) list"

definition New_mem :: "time \<Rightarrow> MemStore" where
  "New_mem now =
     \<lparr>ms_now = now, ms_fail = [], ms_fail_at = [], ms_fail_from = [], ms_fail_id = [], ms_calls = [], ms_notified = [],
      ms_accounts = [], ms_keys = [], ms_ents = [], ms_usage = [], ms_trials = [], ms_invites = [], ms_links = [], ms_events = [],
      ms_nonces = [], ms_actions = [], ms_seq = []\<rparr>"

type_synonym 'a mem_op = "MemStore \<Rightarrow> (access_error + 'a) \<times> MemStore"

text \<open>A map of counts reads zero where it holds nothing.\<close>

definition count_of :: "(string \<times> int) list \<Rightarrow> string \<Rightarrow> int" where
  "count_of xs k = (case map_of xs k of Some n \<Rightarrow> n | None \<Rightarrow> 0)"

definition enterID :: "string \<Rightarrow> int \<Rightarrow> MemStore \<Rightarrow> access_error option \<times> MemStore" where
  "enterID meth aid m =
     (let n = count_of (ms_calls m) meth + 1;
          m' = m\<lparr>ms_calls := AList.update meth n (ms_calls m)\<rparr>;
          off = (case map_of (ms_fail_at m) meth of Some at \<Rightarrow> at \<noteq> n | None \<Rightarrow> False) \<or>
                (case map_of (ms_fail_from m) meth of Some from \<Rightarrow> n < from | None \<Rightarrow> False) \<or>
                (case map_of (ms_fail_id m) meth of Some want \<Rightarrow> want \<noteq> aid | None \<Rightarrow> False)
      in (if off then None else map_of (ms_fail m) meth, m'))"

text \<open>The frame of every method: count the call, return its injected failure, else run.\<close>

definition entered :: "string \<Rightarrow> int \<Rightarrow> 'a mem_op \<Rightarrow> 'a mem_op" where
  "entered meth aid f m = (case enterID meth aid m of (Some err, m') \<Rightarrow> (Inl err, m') | (None, m') \<Rightarrow> f m')"

definition pgTime :: "time \<Rightarrow> time" where
  "pgTime t = (t + 500) div 1000 * 1000"

definition mem_now :: "MemStore \<Rightarrow> time" where
  "mem_now m = pgTime (ms_now m)"

definition nextID :: "string \<Rightarrow> MemStore \<Rightarrow> int \<times> MemStore" where
  "nextID table m = (let n = count_of (ms_seq m) table + 1 in (n, m\<lparr>ms_seq := AList.update table n (ms_seq m)\<rparr>))"

text \<open>A loop that changes the first row that fits and returns it.\<close>

fun update_first :: "('r \<Rightarrow> bool) \<Rightarrow> ('r \<Rightarrow> 'r) \<Rightarrow> 'r list \<Rightarrow> ('r \<times> 'r list) option" where
  "update_first P f [] = None"
| "update_first P f (r # rs) =
     (if P r then Some (f r, f r # rs) else map_option (\<lambda>(x, rs'). (x, r # rs')) (update_first P f rs))"

section \<open>Accounts\<close>

definition mem_account :: "MemStore \<Rightarrow> int \<Rightarrow> Account option" where
  "mem_account m aid = find (\<lambda>a. a_id a = aid) (ms_accounts m)"

definition accountByEmail :: "MemStore \<Rightarrow> string \<Rightarrow> Account option" where
  "accountByEmail m email = find (\<lambda>a. a_email a = NormalizeEmail email) (ms_accounts m)"

definition insertAccount :: "string \<Rightarrow> string \<Rightarrow> Account mem_op" where
  "insertAccount email note m =
     (case nextID ''accounts'' m of (n, m') \<Rightarrow>
        let a = \<lparr>a_id = n, a_email = NormalizeEmail email, a_status = AccountActive, a_created_at = mem_now m, a_note = note,
                 a_stripe_customer_id = [], a_session_epoch = 0\<rparr>
        in (Inr a, m'\<lparr>ms_accounts := ms_accounts m @ [a]\<rparr>))"

definition Mem_CreateAccount :: "string \<Rightarrow> string \<Rightarrow> Account mem_op" where
  "Mem_CreateAccount email note =
     entered ''CreateAccount'' 0 (\<lambda>m. if accountByEmail m email \<noteq> None then (Inl UniqueViolation, m) else insertAccount email note m)"

definition found :: "'a option \<Rightarrow> access_error + 'a" where
  "found x = (case x of Some a \<Rightarrow> Inr a | None \<Rightarrow> Inl ErrNotFound)"

definition Mem_GetAccountByEmail :: "string \<Rightarrow> Account mem_op" where
  "Mem_GetAccountByEmail email = entered ''GetAccountByEmail'' 0 (\<lambda>m. (found (accountByEmail m email), m))"

definition Mem_GetAccount :: "int \<Rightarrow> Account mem_op" where
  "Mem_GetAccount aid = entered ''GetAccount'' aid (\<lambda>m. (found (mem_account m aid), m))"

text \<open>Changing the account with an id through its pointer.\<close>

definition on_account :: "int \<Rightarrow> (Account \<Rightarrow> Account) \<Rightarrow> (Account \<Rightarrow> 'a) \<Rightarrow> 'a mem_op" where
  "on_account aid f out m =
     (case update_first (\<lambda>a. a_id a = aid) f (ms_accounts m) of
        None \<Rightarrow> (Inl ErrNotFound, m)
      | Some (a, accounts) \<Rightarrow> (Inr (out a), m\<lparr>ms_accounts := accounts\<rparr>))"

definition Mem_SetAccountStatus :: "int \<Rightarrow> AccountStatus \<Rightarrow> unit mem_op" where
  "Mem_SetAccountStatus aid status =
     entered ''SetAccountStatus'' aid (\<lambda>m.
       if \<not> account_status_valid status then (Inl BadAccountStatus, m) else on_account aid (\<lambda>a. a\<lparr>a_status := status\<rparr>) (\<lambda>_. ()) m)"

definition Mem_SetStripeCustomerID :: "int \<Rightarrow> string \<Rightarrow> string mem_op" where
  "Mem_SetStripeCustomerID aid customer =
     entered ''SetStripeCustomerID'' aid (\<lambda>m.
       case mem_account m aid of
         None \<Rightarrow> (Inl ErrNotFound, m)
       | Some a \<Rightarrow>
           if a_stripe_customer_id a \<noteq> [] then (Inr (a_stripe_customer_id a), m)
           else if customer \<noteq> [] \<and> list_ex (\<lambda>x. a_stripe_customer_id x = customer) (ms_accounts m) then (Inl UniqueViolation, m)
           else on_account aid (\<lambda>a. a\<lparr>a_stripe_customer_id := customer\<rparr>) (\<lambda>_. customer) m)"

definition Mem_GetAccountByStripeCustomer :: "string \<Rightarrow> Account mem_op" where
  "Mem_GetAccountByStripeCustomer customer =
     entered ''GetAccountByStripeCustomer'' 0 (\<lambda>m.
       (found (find (\<lambda>a. a_stripe_customer_id a \<noteq> [] \<and> a_stripe_customer_id a = customer) (ms_accounts m)), m))"

definition Mem_GetOrCreateAccount :: "string \<Rightarrow> string \<Rightarrow> Account mem_op" where
  "Mem_GetOrCreateAccount email note =
     entered ''GetOrCreateAccount'' 0 (\<lambda>m. case accountByEmail m email of Some a \<Rightarrow> (Inr a, m) | None \<Rightarrow> insertAccount email note m)"

definition Mem_SetAccountNote :: "int \<Rightarrow> string \<Rightarrow> unit mem_op" where
  "Mem_SetAccountNote aid note = entered ''SetAccountNote'' aid (on_account aid (\<lambda>a. a\<lparr>a_note := note\<rparr>) (\<lambda>_. ()))"

definition Mem_SearchAccounts :: "string \<Rightarrow> Account list mem_op" where
  "Mem_SearchAccounts q =
     entered ''SearchAccounts'' 0 (\<lambda>m.
       (Inr (take 200 (sort_key a_email (filter (\<lambda>a. contains_sub (to_lower (a_email a)) (to_lower (trim_space q))) (ms_accounts m)))), m))"

definition Mem_ListAccounts :: "Account list mem_op" where
  "Mem_ListAccounts = entered ''ListAccounts'' 0 (\<lambda>m. (Inr (ms_accounts m), m))"

definition Mem_BumpSessionEpoch :: "int \<Rightarrow> int mem_op" where
  "Mem_BumpSessionEpoch aid =
     entered ''BumpSessionEpoch'' aid (on_account aid (\<lambda>a. a\<lparr>a_session_epoch := a_session_epoch a + 1\<rparr>) a_session_epoch)"

section \<open>Keys\<close>

definition copyKey :: "Key \<Rightarrow> Key" where
  "copyKey k = k\<lparr>k_last_used_at := map_option pgTime (k_last_used_at k), k_revoked_at := map_option pgTime (k_revoked_at k)\<rparr>"

fun mem_key_loop :: "nat \<Rightarrow> (nat \<Rightarrow> string option) \<Rightarrow> int \<Rightarrow> string \<Rightarrow> KeyKind \<Rightarrow> (string \<times> Key) mem_op" where
  "mem_key_loop 0 rands aid label kind m = (Inl UniqueViolation, m)"
| "mem_key_loop (Suc n) rands aid label kind m =
     (case GenerateKey kind (rands n) of
        Inl err \<Rightarrow> (Inl err, m)
      | Inr (plaintext, hash, prefix) \<Rightarrow>
          if mem_account m aid = None then (Inl ForeignKeyViolation, m)
          else if list_ex (\<lambda>k. k_prefix k = prefix \<and> k_revoked_at k = None) (ms_keys m) then mem_key_loop n rands aid label kind m
          else case nextID ''api_keys'' m of (i, m') \<Rightarrow>
            let k = \<lparr>k_id = i, k_account_id = aid, k_hash = hash, k_prefix = prefix, k_label = label, k_kind = kind,
                     k_created_at = mem_now m, k_last_used_at = None, k_revoked_at = None\<rparr>
            in (Inr (plaintext, copyKey k), m'\<lparr>ms_keys := ms_keys m @ [k]\<rparr>))"

definition Mem_CreateKey :: "(nat \<Rightarrow> string option) \<Rightarrow> int \<Rightarrow> string \<Rightarrow> KeyKind \<Rightarrow> (string \<times> Key) mem_op" where
  "Mem_CreateKey rands aid label kind = entered ''CreateKey'' aid (mem_key_loop createKeyAttempts rands aid label kind)"

definition revoke_first :: "(Key \<Rightarrow> bool) \<Rightarrow> Key mem_op" where
  "revoke_first P m =
     (case update_first P (\<lambda>k. k\<lparr>k_revoked_at := Some (mem_now m)\<rparr>) (ms_keys m) of
        None \<Rightarrow> (Inl ErrNotFound, m)
      | Some (k, ks) \<Rightarrow> (Inr (copyKey k), m\<lparr>ms_keys := ks\<rparr>))"

definition Mem_RevokeKey :: "int \<Rightarrow> int \<Rightarrow> Key mem_op" where
  "Mem_RevokeKey kid aid =
     entered ''RevokeKey'' kid (revoke_first (\<lambda>k. k_id k = kid \<and> k_revoked_at k = None \<and> (aid = 0 \<or> k_account_id k = aid)))"

definition Mem_RevokeKeyByPrefix :: "string \<Rightarrow> Key mem_op" where
  "Mem_RevokeKeyByPrefix prefix =
     entered ''RevokeKeyByPrefix'' 0 (\<lambda>m.
       let P = (\<lambda>k. k_prefix k = prefix \<and> k_revoked_at k = None) in
       if length (filter P (ms_keys m)) > 1 then (Inl (DriverError ''prefix matches more than one live key''), m) else revoke_first P m)"

definition Mem_ListKeys :: "int \<Rightarrow> Key list mem_op" where
  "Mem_ListKeys aid = entered ''ListKeys'' aid (\<lambda>m. (Inr (map copyKey (filter (\<lambda>k. k_account_id k = aid) (ms_keys m))), m))"

section \<open>Entitlements\<close>

definition copyEntitlement :: "Entitlement \<Rightarrow> Entitlement" where
  "copyEntitlement e = e\<lparr>e_valid_until := map_option pgTime (e_valid_until e)\<rparr>"

definition mem_canonical :: "MemStore \<Rightarrow> Entitlement \<Rightarrow> access_error + Entitlement" where
  "mem_canonical m e0 =
     (case CanonicalEntitlement e0 of
        Inl err \<Rightarrow> Inl err
      | Inr e1 \<Rightarrow>
          let e2 = (if e_status e1 = EntitlementOther [] then e1\<lparr>e_status := EntitlementActive\<rparr> else e1);
              e3 = (if e_valid_from e2 = zero_time then e2\<lparr>e_valid_from := ms_now m\<rparr> else e2)
          in Inr (e3\<lparr>e_valid_from := pgTime (e_valid_from e3), e_valid_until := map_option pgTime (e_valid_until e3)\<rparr>))"

definition checkColumns :: "MemStore \<Rightarrow> Entitlement \<Rightarrow> access_error option" where
  "checkColumns m e =
     (if e_games e = [] then Some NotNullViolation else if mem_account m (e_account_id e) = None then Some ForeignKeyViolation else None)"

definition mem_prepare :: "MemStore \<Rightarrow> Entitlement \<Rightarrow> access_error + Entitlement" where
  "mem_prepare m e0 =
     (case mem_canonical m e0 of Inl err \<Rightarrow> Inl err | Inr e \<Rightarrow> (case checkColumns m e of Some err \<Rightarrow> Inl err | None \<Rightarrow> Inr e))"

definition entByRef :: "MemStore \<Rightarrow> string \<Rightarrow> Entitlement option" where
  "entByRef m ref = (if ref = [] then None else find (\<lambda>e. e_external_ref e = ref) (ms_ents m))"

definition mem_insertEntitlement :: "Entitlement \<Rightarrow> Entitlement mem_op" where
  "mem_insertEntitlement e0 m =
     (case nextID ''entitlements'' m of (i, m') \<Rightarrow>
        let e = e0\<lparr>e_id := i, e_created_at := mem_now m\<rparr> in (Inr (copyEntitlement e), m'\<lparr>ms_ents := ms_ents m @ [e]\<rparr>))"

definition Mem_AddEntitlement :: "Entitlement \<Rightarrow> Entitlement mem_op" where
  "Mem_AddEntitlement e0 =
     entered ''AddEntitlement'' 0 (\<lambda>m.
       case mem_prepare m e0 of
         Inl err \<Rightarrow> (Inl err, m)
       | Inr e \<Rightarrow> if entByRef m (e_external_ref e) \<noteq> None then (Inl UniqueViolation, m) else mem_insertEntitlement e m)"

text \<open>The row that is there keeps its id, its start and its creation.\<close>

definition follow :: "Entitlement \<Rightarrow> Entitlement \<Rightarrow> Entitlement" where
  "follow e have =
     have\<lparr>e_account_id := e_account_id e, e_source := e_source e, e_games := e_games e, e_store_scope := e_store_scope e, e_modes := e_modes e,
       e_addons := e_addons e, e_status := e_status e, e_valid_until := e_valid_until e, e_note := e_note e, e_lookback_days := e_lookback_days e\<rparr>"

definition Mem_UpsertStripeEntitlement :: "Entitlement \<Rightarrow> Entitlement mem_op" where
  "Mem_UpsertStripeEntitlement e0 =
     entered ''UpsertStripeEntitlement'' 0 (\<lambda>m.
       if e_external_ref e0 = [] then (Inl ExternalRefRequired, m)
       else case mem_prepare m e0 of
           Inl err \<Rightarrow> (Inl err, m)
         | Inr e \<Rightarrow>
             (case update_first (\<lambda>x. e_external_ref x = e_external_ref e) (follow e) (ms_ents m) of
                None \<Rightarrow> mem_insertEntitlement e m
              | Some (x, es) \<Rightarrow> (Inr (copyEntitlement x), m\<lparr>ms_ents := es\<rparr>)))"

definition Mem_ListActiveStripeRefs :: "(int \<times> string) list mem_op" where
  "Mem_ListActiveStripeRefs =
     entered ''ListActiveStripeRefs'' 0 (\<lambda>m.
       (Inr (sort_key fst (sort_key snd (map (\<lambda>e. (e_account_id e, e_external_ref e))
          (filter (\<lambda>e. e_source e = SourceStripe \<and> e_status e = EntitlementActive \<and> e_external_ref e \<noteq> []) (ms_ents m))))), m))"

definition Mem_EndEntitlement :: "int \<Rightarrow> int \<Rightarrow> time \<Rightarrow> Entitlement mem_op" where
  "Mem_EndEntitlement eid aid at =
     entered ''EndEntitlement'' eid (\<lambda>m.
       let P = (\<lambda>e. e_id e = eid \<and> (aid = 0 \<or> e_account_id e = aid)) in
       case find P (ms_ents m) of
         None \<Rightarrow> (Inl ErrNotFound, m)
       | Some e \<Rightarrow>
           if e_source e = SourceStripe then (Inl ErrStripeEntitlement, m)
           else if e_status e = EntitlementEnded then (Inl ErrNotFound, m)
           else (case update_first P (\<lambda>e. e\<lparr>e_status := EntitlementEnded, e_valid_until := Some (pgTime at)\<rparr>) (ms_ents m) of
               None \<Rightarrow> (Inl ErrNotFound, m)
             | Some (x, es) \<Rightarrow> (Inr (copyEntitlement x), m\<lparr>ms_ents := es\<rparr>)))"

definition Mem_ListEntitlements :: "int \<Rightarrow> Entitlement list mem_op" where
  "Mem_ListEntitlements aid =
     entered ''ListEntitlements'' aid (\<lambda>m. (Inr (map copyEntitlement (filter (\<lambda>e. e_account_id e = aid) (ms_ents m))), m))"

section \<open>Usage\<close>

definition Mem_InsertUsage :: "Usage list \<Rightarrow> unit mem_op" where
  "Mem_InsertUsage rows =
     entered ''InsertUsage'' 0 (\<lambda>m. (Inr (), m\<lparr>ms_usage := ms_usage m @ map (\<lambda>u. u\<lparr>us_ts := pgTime (us_ts u)\<rparr>) rows\<rparr>))"

definition inWindow :: "time \<Rightarrow> time \<Rightarrow> time \<Rightarrow> bool" where
  "inWindow ts since until \<longleftrightarrow> \<not> ts < since \<and> ts < until"

definition errorCount :: "int \<Rightarrow> int" where
  "errorCount status = (if status \<ge> 400 then 1 else 0)"

text \<open>The row of a group in a map, made when it is the group's first, and updated.\<close>

definition tally :: "'k \<Rightarrow> 'r \<Rightarrow> ('r \<Rightarrow> 'r) \<Rightarrow> ('k \<times> 'r) list \<Rightarrow> ('k \<times> 'r) list" where
  "tally g zero add rows = AList.update g (add (case map_of rows g of Some r \<Rightarrow> r | None \<Rightarrow> zero)) rows"

definition summarize_step :: "MemStore \<Rightarrow> time \<Rightarrow> time \<Rightarrow> int \<Rightarrow> ((int \<times> string) \<times> UsageRow) list \<Rightarrow> Usage \<Rightarrow> ((int \<times> string) \<times> UsageRow) list" where
  "summarize_step m since until aid rows u =
     (case mem_account m (us_account_id u) of
        None \<Rightarrow> rows
      | Some a \<Rightarrow>
          if \<not> inWindow (us_ts u) since until \<or> aid \<noteq> 0 \<and> us_account_id u \<noteq> aid then rows
          else tally (us_account_id u, us_game u)
            \<lparr>ur_account_id = us_account_id u, ur_email = a_email a, ur_game = us_game u, ur_requests = 0, ur_bytes = 0, ur_errors = 0\<rparr>
            (\<lambda>r. r\<lparr>ur_requests := ur_requests r + 1, ur_bytes := ur_bytes r + us_bytes u, ur_errors := ur_errors r + errorCount (us_status u)\<rparr>) rows)"

definition Mem_SummarizeUsage :: "time \<Rightarrow> time \<Rightarrow> int \<Rightarrow> UsageRow list mem_op" where
  "Mem_SummarizeUsage since until aid =
     entered ''SummarizeUsage'' 0 (\<lambda>m.
       (Inr (sort_key ur_email (sort_key ur_game (map snd (foldl (summarize_step m since until aid) [] (ms_usage m))))), m))"

definition by_key_step :: "MemStore \<Rightarrow> time \<Rightarrow> time \<Rightarrow> int \<Rightarrow> ((int \<times> time) \<times> KeyUsageRow) list \<Rightarrow> Usage \<Rightarrow> ((int \<times> time) \<times> KeyUsageRow) list" where
  "by_key_step m since until aid rows u =
     (if \<not> inWindow (us_ts u) since until \<or> aid \<noteq> 0 \<and> us_account_id u \<noteq> aid then rows
      else case filter (\<lambda>k. k_id k = us_key_id u) (ms_keys m) of
          [] \<Rightarrow> rows
        | ks \<Rightarrow>
            let k = last ks; dy = us_ts u div day * day in
            tally (k_id k, dy)
              \<lparr>ku_key_id = k_id k, ku_prefix = k_prefix k, ku_label = k_label k, ku_day = dy, ku_requests = 0, ku_bytes = 0, ku_errors = 0\<rparr>
              (\<lambda>r. r\<lparr>ku_requests := ku_requests r + 1, ku_bytes := ku_bytes r + us_bytes u, ku_errors := ku_errors r + errorCount (us_status u)\<rparr>) rows)"

definition Mem_UsageByKey :: "time \<Rightarrow> time \<Rightarrow> int \<Rightarrow> KeyUsageRow list mem_op" where
  "Mem_UsageByKey since until aid =
     entered ''UsageByKey'' 0 (\<lambda>m.
       (Inr (sort_key ku_key_id (sort_key ku_day (map snd (foldl (by_key_step m since until aid) [] (ms_usage m))))), m))"

definition paths_step :: "time \<Rightarrow> time \<Rightarrow> int \<Rightarrow> (string \<times> PathUsageRow) list \<Rightarrow> Usage \<Rightarrow> (string \<times> PathUsageRow) list" where
  "paths_step since until kid rows u =
     (if us_key_id u \<noteq> kid \<or> \<not> inWindow (us_ts u) since until then rows
      else tally (us_path u) \<lparr>pu_path = us_path u, pu_requests = 0, pu_errors = 0\<rparr>
        (\<lambda>r. r\<lparr>pu_requests := pu_requests r + 1, pu_errors := pu_errors r + errorCount (us_status u)\<rparr>) rows)"

definition Mem_TopPaths :: "time \<Rightarrow> time \<Rightarrow> int \<Rightarrow> int \<Rightarrow> PathUsageRow list mem_op" where
  "Mem_TopPaths since until kid limit =
     entered ''TopPaths'' 0 (\<lambda>m.
       (Inr (take (nat (if limit \<le> 0 then 10 else limit))
          (sort_key (\<lambda>r. - pu_requests r) (sort_key pu_path (map snd (foldl (paths_step since until kid) [] (ms_usage m)))))), m))"

section \<open>Trials\<close>

definition copyTrial :: "Trial \<Rightarrow> Trial" where
  "copyTrial t = t\<lparr>tr_reminder_sent_at := map_option pgTime (tr_reminder_sent_at t)\<rparr>"

definition CreateTrialEntitlement :: string where "CreateTrialEntitlement = ''CreateTrial.entitlement''"

definition Mem_CreateTrial :: "string \<Rightarrow> time \<Rightarrow> time \<Rightarrow> Entitlement \<Rightarrow> Trial mem_op" where
  "Mem_CreateTrial email0 ends not_before ent0 =
     entered ''CreateTrial'' 0 (\<lambda>m.
       let email = NormalizeEmail email0 in
       case mem_canonical m (ent0\<lparr>e_valid_until := Some ends\<rparr>) of
         Inl err \<Rightarrow> (Inl err, m)
       | Inr ent \<Rightarrow>
           if list_ex (\<lambda>t. tr_patreon_email t = email \<and> not_before < tr_granted_at t) (ms_trials m) then (Inl ErrTrialTooSoon, m)
           else if mem_account m (e_account_id ent) = None then (Inl ForeignKeyViolation, m)
           else entered CreateTrialEntitlement 0 (\<lambda>m.
               case checkColumns m ent of
                 Some err \<Rightarrow> (Inl err, m)
               | None \<Rightarrow>
                   if entByRef m (e_external_ref ent) \<noteq> None then (Inl UniqueViolation, m)
                   else case nextID ''trials'' m of (i, m') \<Rightarrow>
                     let t = \<lparr>tr_id = i, tr_patreon_email = email, tr_account_id = e_account_id ent, tr_granted_at = mem_now m, tr_ends_at = pgTime ends,
                              tr_reminder_sent_at = None\<rparr>
                     in (Inr (copyTrial t), snd (mem_insertEntitlement ent (m'\<lparr>ms_trials := ms_trials m @ [t]\<rparr>)))) m)"

definition later_trial :: "string \<Rightarrow> Trial option \<Rightarrow> Trial \<Rightarrow> Trial option" where
  "later_trial email lst t =
     (if tr_patreon_email t = email \<and> (case lst of None \<Rightarrow> True | Some l \<Rightarrow> \<not> tr_granted_at t < tr_granted_at l) then Some t else lst)"

definition Mem_LastTrial :: "string \<Rightarrow> Trial mem_op" where
  "Mem_LastTrial email =
     entered ''LastTrial'' 0 (\<lambda>m. (found (map_option copyTrial (foldl (later_trial (NormalizeEmail email)) None (ms_trials m))), m))"

definition Mem_TrialsToRemind :: "time \<Rightarrow> time \<Rightarrow> Trial list mem_op" where
  "Mem_TrialsToRemind from to =
     entered ''TrialsToRemind'' 0 (\<lambda>m.
       (Inr (sort_key tr_ends_at (map copyTrial (filter (\<lambda>t. tr_reminder_sent_at t = None \<and> inWindow (tr_ends_at t) from to) (ms_trials m)))), m))"

definition Mem_MarkTrialReminded :: "int \<Rightarrow> time \<Rightarrow> unit mem_op" where
  "Mem_MarkTrialReminded tid at =
     entered ''MarkTrialReminded'' tid (\<lambda>m.
       case update_first (\<lambda>t. tr_id t = tid) (\<lambda>t. t\<lparr>tr_reminder_sent_at := Some (pgTime at)\<rparr>) (ms_trials m) of
         None \<Rightarrow> (Inl ErrNotFound, m)
       | Some (_, ts) \<Rightarrow> (Inr (), m\<lparr>ms_trials := ts\<rparr>))"

section \<open>One-time rows\<close>

definition mem_token :: "string option \<Rightarrow> string mem_op" where
  "mem_token rand m = (case rand of None \<Rightarrow> (Inl (DriverError ''rand''), m) | Some buf \<Rightarrow> (Inr (b64url_encode buf), m))"

definition copyInvite :: "Invite \<Rightarrow> Invite" where
  "copyInvite i = i\<lparr>iv_used_at := map_option pgTime (iv_used_at i)\<rparr>"

definition Mem_CreateInvite :: "string option \<Rightarrow> string \<Rightarrow> string \<Rightarrow> duration \<Rightarrow> string \<Rightarrow> (string \<times> Invite) mem_op" where
  "Mem_CreateInvite rand interval email ttl note =
     entered ''CreateInvite'' 0 (\<lambda>m.
       case mem_token rand m of
         (Inl err, m') \<Rightarrow> (Inl err, m')
       | (Inr token, m') \<Rightarrow>
           let iv = \<lparr>iv_token_hash = HashKey token, iv_interval_key = interval, iv_email = NormalizeEmail email,
                      iv_expires_at = pgTime (ms_now m' + ttl), iv_used_at = None, iv_created_at = mem_now m', iv_note = note\<rparr>
           in (Inr (token, copyInvite iv), m'\<lparr>ms_invites := AList.update (HashKey token) iv (ms_invites m')\<rparr>))"

definition Mem_ConsumeInvite :: "string \<Rightarrow> string \<Rightarrow> time \<Rightarrow> Invite mem_op" where
  "Mem_ConsumeInvite token email now =
     entered ''ConsumeInvite'' 0 (\<lambda>m.
       case map_of (ms_invites m) (HashKey token) of
         None \<Rightarrow> (Inl ErrInviteInvalid, m)
       | Some iv \<Rightarrow>
           if iv_used_at iv \<noteq> None \<or> \<not> now < iv_expires_at iv \<or> iv_email iv \<noteq> [] \<and> iv_email iv \<noteq> NormalizeEmail email then (Inl ErrInviteInvalid, m)
           else let iv' = iv\<lparr>iv_used_at := Some (pgTime now)\<rparr>
             in (Inr (copyInvite iv'), m\<lparr>ms_invites := AList.update (HashKey token) iv' (ms_invites m)\<rparr>))"

definition Mem_ReleaseInvite :: "string \<Rightarrow> unit mem_op" where
  "Mem_ReleaseInvite token =
     entered ''ReleaseInvite'' 0 (\<lambda>m.
       case map_of (ms_invites m) (HashKey token) of
         None \<Rightarrow> (Inr (), m)
       | Some iv \<Rightarrow> (Inr (), m\<lparr>ms_invites := AList.update (HashKey token) (iv\<lparr>iv_used_at := None\<rparr>) (ms_invites m)\<rparr>))"

definition InviteByToken :: "string \<Rightarrow> MemStore \<Rightarrow> Invite option" where
  "InviteByToken token m = map_option copyInvite (map_of (ms_invites m) (HashKey token))"

definition Mem_CreateMagicLink :: "string option \<Rightarrow> int \<Rightarrow> duration \<Rightarrow> string mem_op" where
  "Mem_CreateMagicLink rand aid ttl =
     entered ''CreateMagicLink'' aid (\<lambda>m.
       let m1 = m\<lparr>ms_links := filter (\<lambda>(_, l). \<not> lk_expires_at l < ms_now m) (ms_links m)\<rparr> in
       case mem_token rand m1 of
         (Inl err, m2) \<Rightarrow> (Inl err, m2)
       | (Inr token, m2) \<Rightarrow>
           if mem_account m2 aid = None then (Inl ForeignKeyViolation, m2)
           else (Inr token, m2\<lparr>ms_links := AList.update (HashKey token)
             \<lparr>lk_account_id = aid, lk_expires_at = pgTime (ms_now m + ttl), lk_used = False\<rparr> (ms_links m2)\<rparr>))"

definition Mem_ConsumeMagicLink :: "string \<Rightarrow> time \<Rightarrow> Account mem_op" where
  "Mem_ConsumeMagicLink token now =
     entered ''ConsumeMagicLink'' 0 (\<lambda>m.
       case map_of (ms_links m) (HashKey token) of
         None \<Rightarrow> (Inl ErrNotFound, m)
       | Some l \<Rightarrow>
           if lk_used l \<or> \<not> now < lk_expires_at l then (Inl ErrNotFound, m)
           else (found (mem_account m (lk_account_id l)), m\<lparr>ms_links := AList.update (HashKey token) (l\<lparr>lk_used := True\<rparr>) (ms_links m)\<rparr>))"

definition Mem_DeleteMagicLink :: "string \<Rightarrow> unit mem_op" where
  "Mem_DeleteMagicLink token =
     entered ''DeleteMagicLink'' 0 (\<lambda>m. (Inr (), m\<lparr>ms_links := AList.delete (HashKey token) (ms_links m)\<rparr>))"

definition Mem_BeginStripeEvent :: "string \<Rightarrow> string \<Rightarrow> bool mem_op" where
  "Mem_BeginStripeEvent eid kind =
     entered ''BeginStripeEvent'' 0 (\<lambda>m.
       case map_of (ms_events m) eid of
         None \<Rightarrow> (Inr True, m\<lparr>ms_events := AList.update eid \<lparr>ev_received_at = mem_now m, ev_processed = False\<rparr> (ms_events m)\<rparr>)
       | Some ev \<Rightarrow>
           if ev_processed ev \<or> \<not> ev_received_at ev < mem_now m - eventReclaimAfter then (Inr False, m)
           else (Inr True, m\<lparr>ms_events := AList.update eid (ev\<lparr>ev_received_at := mem_now m\<rparr>) (ms_events m)\<rparr>))"

definition Mem_FinishStripeEvent :: "string \<Rightarrow> unit mem_op" where
  "Mem_FinishStripeEvent eid =
     entered ''FinishStripeEvent'' 0 (\<lambda>m.
       case map_of (ms_events m) eid of
         None \<Rightarrow> (Inr (), m)
       | Some ev \<Rightarrow> (Inr (), m\<lparr>ms_events := AList.update eid (ev\<lparr>ev_processed := True\<rparr>) (ms_events m)\<rparr>))"

definition Mem_DeleteStripeEvent :: "string \<Rightarrow> unit mem_op" where
  "Mem_DeleteStripeEvent eid = entered ''DeleteStripeEvent'' 0 (\<lambda>m. (Inr (), m\<lparr>ms_events := AList.delete eid (ms_events m)\<rparr>))"

definition Mem_ConsumeNonce :: "string \<Rightarrow> time \<Rightarrow> time \<Rightarrow> unit mem_op" where
  "Mem_ConsumeNonce nonce expires now =
     entered ''ConsumeNonce'' 0 (\<lambda>m.
       let m1 = m\<lparr>ms_nonces := filter (\<lambda>(_, ex). \<not> ex < now) (ms_nonces m)\<rparr> in
       if map_of (ms_nonces m1) nonce \<noteq> None then (Inl ErrNonceUsed, m1)
       else (Inr (), m1\<lparr>ms_nonces := AList.update nonce (pgTime expires) (ms_nonces m1)\<rparr>))"

section \<open>Notifications, the log, and demo access\<close>

definition Mem_Notify :: "string \<Rightarrow> unit mem_op" where
  "Mem_Notify payload = entered ''Notify'' 0 (\<lambda>m. (Inr (), m\<lparr>ms_notified := ms_notified m @ [payload]\<rparr>))"

definition Mem_RecordAdminAction :: "string \<Rightarrow> string \<Rightarrow> int \<Rightarrow> string \<Rightarrow> string \<Rightarrow> unit mem_op" where
  "Mem_RecordAdminAction actor action aid target detail =
     entered ''RecordAdminAction'' 0 (\<lambda>m.
       case nextID ''admin_actions'' m of (i, m') \<Rightarrow>
         (Inr (), m'\<lparr>ms_actions := ms_actions m @ [\<lparr>aa_id = i, aa_at = mem_now m, aa_actor = NormalizeEmail actor, aa_action = action,
            aa_account_id = aid, aa_target = target, aa_detail = detail\<rparr>]\<rparr>))"

definition Mem_ListAdminActions :: "int \<Rightarrow> int \<Rightarrow> AdminAction list mem_op" where
  "Mem_ListAdminActions aid limit =
     entered ''ListAdminActions'' aid (\<lambda>m.
       if limit < 0 then (Inl (DriverError ''LIMIT must not be negative''), m)
       else (Inr (take (nat limit) (sort_key (\<lambda>a. - aa_at a) (sort_key (\<lambda>a. - aa_id a)
          (filter (\<lambda>a. aid = 0 \<or> aa_account_id a = aid) (ms_actions m))))), m))"

definition latest_trial :: "int \<Rightarrow> Trial option \<Rightarrow> Trial \<Rightarrow> Trial option" where
  "latest_trial aid lst t =
     (if tr_account_id t = aid \<and> (case lst of None \<Rightarrow> True | Some l \<Rightarrow> tr_granted_at l < tr_granted_at t) then Some t else lst)"

definition demo_row :: "MemStore \<Rightarrow> Entitlement \<Rightarrow> Account \<Rightarrow> DemoAccess" where
  "demo_row m e a =
     \<lparr>da_account_id = e_account_id e, da_email = a_email a, da_source = e_source e,
      da_requester = (if e_source e = SourceTrial
        then (case foldl (latest_trial (e_account_id e)) None (ms_trials m) of Some t \<Rightarrow> tr_patreon_email t | None \<Rightarrow> []) else []),
      da_note = e_note e, da_granted_at = e_valid_from e, da_ends_at = map_option pgTime (e_valid_until e),
      da_keys = int (length (filter (\<lambda>k. k_account_id k = e_account_id e \<and> k_revoked_at k = None) (ms_keys m))), da_last_used = None\<rparr>"

definition Mem_ListDemoAccess :: "DemoAccess list mem_op" where
  "Mem_ListDemoAccess =
     entered ''ListDemoAccess'' 0 (\<lambda>m.
       let shown = filter (\<lambda>e. e_status e = EntitlementActive \<and> (e_source e = SourceTrial \<or> e_source e = SourceManual) \<and>
             (case e_valid_until e of None \<Rightarrow> True | Some u \<Rightarrow> ms_now m < u)) (ms_ents m)
       in (Inr (sort_key (\<lambda>r. - da_granted_at r)
            (List.map_filter (\<lambda>e. map_option (demo_row m e) (mem_account m (e_account_id e))) shown)), m))"

end
