(* ===== verification/MemStore_Refines.thy ===== *)
theory MemStore_Refines
  imports MemStore Store_System
begin

text \<open>
  The store in memory follows the client: from states that hold the same rows, each of its methods answers as the client's
  statement does and leaves the same rows. Its clock is the database's, of microsecond precision, and no failure is injected.
\<close>

section \<open>The relation\<close>

definition link_of :: "magic_link \<Rightarrow> string \<times> mem_link" where
  "link_of l = (ml_token_hash l, \<lparr>lk_account_id = ml_account_id l, lk_expires_at = ml_expires_at l, lk_used = ml_used_at l \<noteq> None\<rparr>)"

definition event_of :: "stripe_event \<Rightarrow> string \<times> mem_event" where
  "event_of e = (se_id e, \<lparr>ev_received_at = se_received_at e, ev_processed = se_processed_at e \<noteq> None\<rparr>)"

definition invite_of :: "Invite \<Rightarrow> string \<times> Invite" where
  "invite_of i = (iv_token_hash i, i)"

text \<open>The database reads an address as an \<open>inet\<close>; the memory keeps the text, which nothing reads back.\<close>

definition usage_column :: "Usage \<Rightarrow> Usage" where
  "usage_column u = u\<lparr>us_client_ip := usage_ip (us_client_ip u)\<rparr>"

definition whole :: "time option \<Rightarrow> bool" where
  "whole t \<longleftrightarrow> map_option pgTime t = t"

definition rounded :: "db \<Rightarrow> bool" where
  "rounded d \<longleftrightarrow> pgTime (db_now d) = db_now d \<and>
     (\<forall>k\<in>set (db_keys d). k_last_used_at k = None \<and> whole (k_revoked_at k)) \<and> (\<forall>e\<in>set (db_entitlements d). whole (e_valid_until e)) \<and>
     (\<forall>t\<in>set (db_trials d). whole (tr_reminder_sent_at t)) \<and> (\<forall>i\<in>set (db_invites d). whole (iv_used_at i))"

definition ordered :: "db \<Rightarrow> bool" where
  "ordered d \<longleftrightarrow> sorted (map ar_id (db_accounts d)) \<and> sorted (map k_id (db_keys d)) \<and> sorted (map e_id (db_entitlements d)) \<and>
     distinct (map tr_id (db_trials d)) \<and> (\<forall>t\<in>set (db_trials d). tr_id t < db_trial_seq d)"

definition sim :: "MemStore \<Rightarrow> db \<Rightarrow> bool" where
  "sim m d \<longleftrightarrow> ms_now m = db_now d \<and> ms_fail m = [] \<and> db_faults d = [] \<and>
     ms_accounts m = map scanAccount (db_accounts d) \<and> (\<forall>r\<in>set (db_accounts d). ar_stripe r \<noteq> Some []) \<and>
     ms_keys m = db_keys d \<and> ms_ents m = db_entitlements d \<and> ms_trials m = db_trials d \<and> map usage_column (ms_usage m) = db_usage d \<and>
     ms_invites m = map invite_of (db_invites d) \<and> ms_links m = map link_of (db_links d) \<and> ms_events m = map event_of (db_events d) \<and>
     ms_nonces m = db_nonces d \<and> ms_actions m = db_actions d \<and> rounded d \<and> ordered d"

text \<open>
  The identity sequences agree. They part when an insert meets a row that is there: the client's statement has drawn a number
  by then, the memory has not.
\<close>

definition in_step :: "MemStore \<Rightarrow> db \<Rightarrow> bool" where
  "in_step m d \<longleftrightarrow> db_account_seq d = count_of (ms_seq m) ''accounts'' + 1 \<and> db_key_seq d = count_of (ms_seq m) ''api_keys'' + 1 \<and>
     db_entitlement_seq d = count_of (ms_seq m) ''entitlements'' + 1 \<and> db_trial_seq d = count_of (ms_seq m) ''trials'' + 1 \<and>
     db_action_seq d = count_of (ms_seq m) ''admin_actions'' + 1"

definition related :: "MemStore \<Rightarrow> db \<Rightarrow> bool" where
  "related m d \<longleftrightarrow> sim m d \<and> in_step m d \<and> db_ok d"

text \<open>
  A method agrees with a statement where \<open>P\<close> holds of the database: the same answer and the same rows. It keeps step where the
  sequences still agree afterwards.
\<close>

definition agrees :: "(db \<Rightarrow> bool) \<Rightarrow> 'a mem_op \<Rightarrow> 'a op \<Rightarrow> bool" where
  "agrees P f g \<longleftrightarrow> (\<forall>m d. related m d \<and> P d \<longrightarrow> fst (f m) = fst (g d) \<and> sim (snd (f m)) (snd (g d)))"

definition keeps_step :: "(db \<Rightarrow> bool) \<Rightarrow> 'a mem_op \<Rightarrow> 'a op \<Rightarrow> bool" where
  "keeps_step P f g \<longleftrightarrow> (\<forall>m d. related m d \<and> P d \<longrightarrow> in_step (snd (f m)) (snd (g d)))"

definition follows :: "(db \<Rightarrow> bool) \<Rightarrow> 'a mem_op \<Rightarrow> 'a op \<Rightarrow> bool" where
  "follows P f g \<longleftrightarrow> agrees P f g \<and> keeps_step P f g"

abbreviation always :: "db \<Rightarrow> bool" where "always \<equiv> \<lambda>_. True"

section \<open>Entering\<close>

lemma related_calls [simp]: "related (m\<lparr>ms_calls := c\<rparr>) d = related m d"
  by (simp add: related_def sim_def in_step_def)

lemma enterID_calm: "ms_fail m = [] \<Longrightarrow> \<exists>c. enterID meth aid m = (None, m\<lparr>ms_calls := c\<rparr>)"
  by (auto simp: enterID_def Let_def)

lemma entered_calm:
  assumes "related m d"
  obtains c where "entered meth aid f m = f (m\<lparr>ms_calls := c\<rparr>)"
  using enterID_calm [of m meth aid] assms by (auto simp: entered_def related_def sim_def)

lemma follows_entered:
  assumes "\<And>m d. related m d \<Longrightarrow> P d \<Longrightarrow> fst (f m) = fst (g d) \<and> sim (snd (f m)) (snd (g d)) \<and> in_step (snd (f m)) (snd (g d))"
  shows "follows P (entered meth aid f) g"
proof -
  have "fst (entered meth aid f m) = fst (g d) \<and> sim (snd (entered meth aid f m)) (snd (g d)) \<and> in_step (snd (entered meth aid f m)) (snd (g d))"
    if r: "related m d" and p: "P d" for m d
  proof -
    obtain c where "entered meth aid f m = f (m\<lparr>ms_calls := c\<rparr>)" by (rule entered_calm [OF r])
    then show ?thesis using assms [of "m\<lparr>ms_calls := c\<rparr>" d] r p by simp
  qed
  then show ?thesis by (auto simp: follows_def agrees_def keeps_step_def)
qed

lemma agrees_entered:
  assumes "\<And>m d. related m d \<Longrightarrow> P d \<Longrightarrow> fst (f m) = fst (g d) \<and> sim (snd (f m)) (snd (g d))"
  shows "agrees P (entered meth aid f) g"
proof -
  have "fst (entered meth aid f m) = fst (g d) \<and> sim (snd (entered meth aid f m)) (snd (g d))" if r: "related m d" and p: "P d" for m d
  proof -
    obtain c where "entered meth aid f m = f (m\<lparr>ms_calls := c\<rparr>)" by (rule entered_calm [OF r])
    then show ?thesis using assms [of "m\<lparr>ms_calls := c\<rparr>" d] r p by simp
  qed
  then show ?thesis by (auto simp: agrees_def)
qed

text \<open>Reading: the state is left alone on both sides.\<close>

lemma follows_read:
  assumes "\<And>m d. related m d \<Longrightarrow> h m = r d"
  shows "follows P (entered meth aid (\<lambda>m. (h m, m))) (stmt (\<lambda>d. (r d, d)))"
proof (rule follows_entered)
  fix m d assume "related m d"
  then show "fst (h m, m) = fst (stmt (\<lambda>d. (r d, d)) d) \<and> sim (snd (h m, m)) (snd (stmt (\<lambda>d. (r d, d)) d)) \<and> in_step (snd (h m, m)) (snd (stmt (\<lambda>d. (r d, d)) d))"
    using assms by (simp add: related_def sim_def stmt_no_fault)
qed

section \<open>Frames\<close>

lemma in_step_frames [simp]:
  "in_step (m\<lparr>ms_accounts := a\<rparr>) d = in_step m d" "in_step (m\<lparr>ms_keys := k\<rparr>) d = in_step m d" "in_step (m\<lparr>ms_ents := e\<rparr>) d = in_step m d"
  "in_step (m\<lparr>ms_usage := u\<rparr>) d = in_step m d" "in_step (m\<lparr>ms_trials := t\<rparr>) d = in_step m d" "in_step (m\<lparr>ms_invites := i\<rparr>) d = in_step m d"
  "in_step (m\<lparr>ms_links := l\<rparr>) d = in_step m d" "in_step (m\<lparr>ms_events := ev\<rparr>) d = in_step m d" "in_step (m\<lparr>ms_nonces := n\<rparr>) d = in_step m d"
  "in_step (m\<lparr>ms_actions := ac\<rparr>) d = in_step m d"
  "in_step m (d\<lparr>db_accounts := da\<rparr>) = in_step m d" "in_step m (d\<lparr>db_keys := dk\<rparr>) = in_step m d" "in_step m (d\<lparr>db_entitlements := de\<rparr>) = in_step m d"
  "in_step m (d\<lparr>db_usage := du\<rparr>) = in_step m d" "in_step m (d\<lparr>db_trials := dt\<rparr>) = in_step m d" "in_step m (d\<lparr>db_invites := di\<rparr>) = in_step m d"
  "in_step m (d\<lparr>db_links := dl\<rparr>) = in_step m d" "in_step m (d\<lparr>db_events := dev\<rparr>) = in_step m d" "in_step m (d\<lparr>db_nonces := dn\<rparr>) = in_step m d"
  "in_step m (d\<lparr>db_actions := dac\<rparr>) = in_step m d"
  by (simp_all add: in_step_def)

lemma sim_accounts:
  assumes "sim m d" "sorted (map ar_id rs)" "\<forall>r\<in>set rs. ar_stripe r \<noteq> Some []"
  shows "sim (m\<lparr>ms_accounts := map scanAccount rs\<rparr>) (d\<lparr>db_accounts := rs\<rparr>)"
  using assms by (simp add: sim_def rounded_def ordered_def)

lemma sim_keys:
  assumes "sim m d" "sorted (map k_id ks)" "\<forall>k\<in>set ks. k_last_used_at k = None \<and> whole (k_revoked_at k)"
  shows "sim (m\<lparr>ms_keys := ks\<rparr>) (d\<lparr>db_keys := ks\<rparr>)"
  using assms by (simp add: sim_def rounded_def ordered_def)

lemma sim_ents:
  assumes "sim m d" "sorted (map e_id es)" "\<forall>e\<in>set es. whole (e_valid_until e)"
  shows "sim (m\<lparr>ms_ents := es\<rparr>) (d\<lparr>db_entitlements := es\<rparr>)"
  using assms by (simp add: sim_def rounded_def ordered_def)

lemma sim_trials:
  assumes "sim m d" "distinct (map tr_id ts)" "\<forall>t\<in>set ts. tr_id t < db_trial_seq d \<and> whole (tr_reminder_sent_at t)"
  shows "sim (m\<lparr>ms_trials := ts\<rparr>) (d\<lparr>db_trials := ts\<rparr>)"
  using assms by (simp add: sim_def rounded_def ordered_def)

lemma sim_invites:
  assumes "sim m d" "\<forall>i\<in>set ivs. whole (iv_used_at i)"
  shows "sim (m\<lparr>ms_invites := map invite_of ivs\<rparr>) (d\<lparr>db_invites := ivs\<rparr>)"
  using assms by (simp add: sim_def rounded_def ordered_def)

lemma sim_plain:
  assumes "sim m d"
  shows "sim (m\<lparr>ms_links := map link_of ls\<rparr>) (d\<lparr>db_links := ls\<rparr>)" "sim (m\<lparr>ms_events := map event_of evs\<rparr>) (d\<lparr>db_events := evs\<rparr>)"
    "sim (m\<lparr>ms_nonces := ns\<rparr>) (d\<lparr>db_nonces := ns\<rparr>)" "sim (m\<lparr>ms_actions := as\<rparr>) (d\<lparr>db_actions := as\<rparr>)"
    "sim (m\<lparr>ms_usage := us\<rparr>) (d\<lparr>db_usage := map usage_column us\<rparr>)"
  using assms by (simp_all add: sim_def rounded_def ordered_def)

lemma sim_seq:
  assumes "sim m d"
  shows "sim (m\<lparr>ms_seq := q\<rparr>) d" "sim m (d\<lparr>db_account_seq := n\<rparr>)" "sim m (d\<lparr>db_key_seq := n\<rparr>)" "sim m (d\<lparr>db_entitlement_seq := n\<rparr>)"
    "db_trial_seq d \<le> n \<Longrightarrow> sim m (d\<lparr>db_trial_seq := n\<rparr>)" "sim m (d\<lparr>db_action_seq := n\<rparr>)"
  using assms by (auto simp: sim_def rounded_def ordered_def)

section \<open>Accounts\<close>

lemma find_map: "find P (map f xs) = map_option f (find (P \<circ> f) xs)"
  by (induction xs) auto

lemma find_filter: "find P xs = (case filter P xs of [] \<Rightarrow> None | x # _ \<Rightarrow> Some x)"
  by (induction xs) auto

lemma found_find: "found (find P xs) = one_row (filter P xs)"
  by (simp add: found_def one_row_def find_filter split: list.split)

lemma found_map: "found (map_option f x) = map_sum id f (found x)"
  by (cases x) (simp_all add: found_def)

lemma scanAccount_fields [simp]: "a_id (scanAccount r) = ar_id r" "a_email (scanAccount r) = ar_email r"
  by (simp_all add: scanAccount_def)

lemma mem_account_sim: "related m d \<Longrightarrow> mem_account m aid = map_option scanAccount (find (\<lambda>r. ar_id r = aid) (db_accounts d))"
  by (simp add: related_def sim_def mem_account_def find_map comp_def)

lemma accountByEmail_sim:
  "related m d \<Longrightarrow> accountByEmail m email = map_option scanAccount (find (\<lambda>r. ar_email r = NormalizeEmail email) (db_accounts d))"
  by (simp add: related_def sim_def accountByEmail_def find_map comp_def)

lemma follows_account_reads:
  "follows always (Mem_GetAccountByEmail email) (GetAccountByEmail email)" "follows always (Mem_GetAccount aid) (GetAccount aid)"
  unfolding Mem_GetAccountByEmail_def GetAccountByEmail_def Mem_GetAccount_def GetAccount_def select_account_def
  by (rule follows_read, simp add: accountByEmail_sim mem_account_sim found_map found_find)+

lemma follows_by_customer: "follows always (Mem_GetAccountByStripeCustomer customer) (GetAccountByStripeCustomer customer)"
  unfolding Mem_GetAccountByStripeCustomer_def GetAccountByStripeCustomer_def select_account_def
proof (rule follows_read)
  fix m d assume "related m d"
  then have m: "ms_accounts m = map scanAccount (db_accounts d)" and ne: "\<forall>r\<in>set (db_accounts d). ar_stripe r \<noteq> Some []" by (simp_all add: related_def sim_def)
  have "filter (\<lambda>r. a_stripe_customer_id (scanAccount r) \<noteq> [] \<and> a_stripe_customer_id (scanAccount r) = customer) (db_accounts d) =
      filter (\<lambda>r. ar_stripe r = Some customer) (db_accounts d)"
    by (rule filter_cong [OF refl]) (use ne in \<open>auto simp: scanAccount_def split: option.splits\<close>)
  then show "found (find (\<lambda>a. a_stripe_customer_id a \<noteq> [] \<and> a_stripe_customer_id a = customer) (ms_accounts m)) =
      map_sum id scanAccount (one_row (filter (\<lambda>r. ar_stripe r = Some customer) (db_accounts d)))"
    by (simp add: m find_map found_map found_find comp_def)
qed

section \<open>Updating one row\<close>

lemma update_first_where:
  assumes "length (filter P rows) \<le> 1"
  shows "update_first P f rows = (case filter P rows of [] \<Rightarrow> None | r # _ \<Rightarrow> Some (f r, map (\<lambda>r. if P r then f r else r) rows))"
  using assms
proof (induction rows)
  case (Cons r rows)
  show ?case
  proof (cases "P r")
    case True
    then have "filter P rows = []" using Cons(2) by simp
    then have "map (\<lambda>r. if P r then f r else r) rows = rows" by (auto simp: filter_empty_conv intro: map_idI)
    then show ?thesis using True by simp
  next
    case False
    then show ?thesis using Cons by (auto split: list.splits)
  qed
qed simp

lemma one_with_key:
  assumes "distinct (map key rows)" "\<And>r. P r \<Longrightarrow> key r = k"
  shows "length (filter P rows) \<le> 1"
proof -
  have "distinct (map key (filter P rows))" using assms(1) by (simp add: distinct_map_filter)
  moreover have "set (map key (filter P rows)) \<subseteq> {k}" using assms(2) by auto
  ultimately have "length (map key (filter P rows)) \<le> card {k}" by (metis card_mono distinct_card finite.emptyI finite.insertI)
  then show ?thesis by simp
qed

lemma update_first_map:
  assumes "\<And>r. f (g r) = g (f' r)"
  shows "update_first P f (map g rows) = map_option (\<lambda>(x, rs). (g x, map g rs)) (update_first (P \<circ> g) f' rows)"
  by (induction rows) (auto simp: assms option.map_comp comp_def case_prod_beta)

lemma update_one:
  assumes "distinct (map key rows)" "\<And>r. P r \<Longrightarrow> key r = k"
  shows "update_where P f rows =
    (case update_first P f rows of None \<Rightarrow> (rows, []) | Some (x, rs) \<Rightarrow> (rs, [x]))"
proof -
  have "length (filter P rows) \<le> 1" by (rule one_with_key [OF assms])
  moreover have "map (\<lambda>r. if P r then f r else r) rows = rows" if "filter P rows = []" using that by (auto simp: filter_empty_conv intro: map_idI)
  moreover have "filter P rows = [r]" if "filter P rows = r # rs" for r rs using that calculation(1) by simp
  ultimately show ?thesis by (auto simp: update_first_where update_where_def split: list.splits)
qed

lemma set_update_first: "update_first P f rows = Some (x, rs) \<Longrightarrow> set rs \<subseteq> insert x (set rows) \<and> (\<exists>r\<in>set rows. P r \<and> x = f r)"
  by (induction rows arbitrary: rs) (auto split: if_splits)

lemma map_update_first:
  assumes "update_first P f rows = Some (x, rs)" "\<And>r. key (f r) = key r"
  shows "map key rs = map key rows"
  using assms(1) by (induction rows arbitrary: rs) (auto simp: assms(2) split: if_splits)

lemma follows_on_account:
  assumes "\<And>r. f (scanAccount r) = scanAccount (f' r)" "\<And>r. ar_id (f' r) = ar_id r" "\<And>r. ar_stripe (f' r) = ar_stripe r" "\<And>r. out (scanAccount r) = out' r"
  shows "follows always (entered meth aid (on_account aid f out))
    (and_then (update_accounts (\<lambda>r. ar_id r = aid) f') (\<lambda>rows. and_then (need_row rows) (\<lambda>r. give (out' r))))"
proof (rule follows_entered)
  fix m d assume r: "related m d"
  let ?g = "and_then (update_accounts (\<lambda>r. ar_id r = aid) f') (\<lambda>rows. and_then (need_row rows) (\<lambda>r. give (out' r)))"
  note sim = r [unfolded related_def sim_def]
  have dist: "distinct (map ar_id (db_accounts d))" using sim by (simp add: db_ok_def accounts_ok_def)
  note one = update_one [OF dist, of "\<lambda>r. ar_id r = aid" aid f']
  have mem: "update_first (\<lambda>a. a_id a = aid) f (ms_accounts m) =
      map_option (\<lambda>(x, rs). (scanAccount x, map scanAccount rs)) (update_first (\<lambda>r. ar_id r = aid) f' (db_accounts d))"
    using sim update_first_map [of f scanAccount f', OF assms(1)] by (simp add: comp_def)
  show "fst (on_account aid f out m) = fst (?g d) \<and> sim (snd (on_account aid f out m)) (snd (?g d)) \<and> in_step (snd (on_account aid f out m)) (snd (?g d))"
  proof (cases "update_first (\<lambda>r. ar_id r = aid) f' (db_accounts d)")
    case None
    have d: "d\<lparr>db_accounts := db_accounts d\<rparr> = d" by simp
    show ?thesis using sim None one mem
      by (simp add: on_account_def update_accounts_def stmt_no_fault and_then_def need_row_def one_row_def fail_def sim_def d)
  next
    case (Some p)
    obtain x rs where p: "p = (x, rs)" by fastforce
    have "map ar_id rs = map ar_id (db_accounts d)" by (rule map_update_first [OF Some [unfolded p]]) (rule assms(2))
    moreover have "\<forall>r\<in>set rs. ar_stripe r \<noteq> Some []" using set_update_first [OF Some [unfolded p]] sim assms(3) by auto
    ultimately have "sim (m\<lparr>ms_accounts := map scanAccount rs\<rparr>) (d\<lparr>db_accounts := rs\<rparr>)"
      using sim_accounts [of m d rs] r sim by (simp add: related_def ordered_def)
    then show ?thesis using sim Some p one mem
      by (simp add: on_account_def update_accounts_def stmt_no_fault and_then_def need_row_def one_row_def give_def assms(4))
  qed
qed

lemma follows_account_updates:
  "follows always (Mem_SetAccountNote aid note) (SetAccountNote aid note)"
  "follows always (Mem_BumpSessionEpoch aid) (BumpSessionEpoch aid)"
  unfolding Mem_SetAccountNote_def SetAccountNote_def Mem_BumpSessionEpoch_def BumpSessionEpoch_def
  by (rule follows_on_account; simp add: scanAccount_def)+

lemma follows_fail: "follows P (entered meth aid (\<lambda>m. (Inl err, m))) (fail err)"
  by (rule follows_entered) (simp add: related_def fail_def)

lemma follows_status: "follows always (Mem_SetAccountStatus aid status) (SetAccountStatus aid status)"
proof (cases "account_status_valid status")
  case True
  then show ?thesis unfolding Mem_SetAccountStatus_def SetAccountStatus_def
    by (simp only: True not_True_eq_False if_False) (rule follows_on_account; simp add: scanAccount_def)
next
  case False
  then show ?thesis unfolding Mem_SetAccountStatus_def SetAccountStatus_def
    by (simp only: False not_False_eq_True if_True) (rule follows_fail)
qed

section \<open>Sorting\<close>

lemma insort_key_map: "insort_key f (g x) (map g xs) = map g (insort_key (f \<circ> g) x xs)"
  by (induction xs) auto

lemma sort_key_map: "sort_key f (map g xs) = map g (sort_key (f \<circ> g) xs)"
  by (induction xs) (simp_all add: insort_key_map comp_def)

lemma sort_key_sorted: "sorted (map f xs) \<Longrightarrow> sort_key f xs = xs"
  by (induction xs) (auto simp: insort_is_Cons)

lemma sort_key_filtered: "sorted (map f xs) \<Longrightarrow> sort_key f (filter P xs) = filter P xs"
  by (rule sort_key_sorted) (rule sorted_filter)

lemma follows_listings:
  "follows always Mem_ListAccounts ListAccounts" "follows always (Mem_SearchAccounts q) (SearchAccounts q)"
proof -
  show "follows always Mem_ListAccounts ListAccounts" unfolding Mem_ListAccounts_def ListAccounts_def
    by (rule follows_read) (simp add: related_def sim_def ordered_def sort_key_sorted)
  show "follows always (Mem_SearchAccounts q) (SearchAccounts q)" unfolding Mem_SearchAccounts_def SearchAccounts_def
    by (rule follows_read) (simp add: related_def sim_def filter_map sort_key_map comp_def take_map like_pattern_iff)
qed

section \<open>Customers\<close>

lemma follows_customer:
  assumes "customer \<noteq> []"
  shows "follows always (Mem_SetStripeCustomerID aid customer) (SetStripeCustomerID aid customer)"
  unfolding Mem_SetStripeCustomerID_def
proof (rule follows_entered)
  fix m d assume r: "related m d"
  note sim = r [unfolded related_def sim_def]
  let ?P = "\<lambda>r. ar_id r = aid"
  let ?f = "\<lambda>r. r\<lparr>ar_stripe := Some (case ar_stripe r of Some c \<Rightarrow> c | None \<Rightarrow> customer)\<rparr>"
  let ?l = "\<lambda>m. case mem_account m aid of None \<Rightarrow> (Inl ErrNotFound, m) | Some a \<Rightarrow>
           if a_stripe_customer_id a \<noteq> [] then (Inr (a_stripe_customer_id a), m)
           else if customer \<noteq> [] \<and> list_ex (\<lambda>x. a_stripe_customer_id x = customer) (ms_accounts m) then (Inl UniqueViolation, m)
           else on_account aid (\<lambda>a. a\<lparr>a_stripe_customer_id := customer\<rparr>) (\<lambda>_. customer) m"
  have dist: "distinct (map ar_id (db_accounts d))" using sim by (simp add: db_ok_def accounts_ok_def)
  note one = update_one [OF dist, of ?P aid ?f]
  have mem: "update_first (\<lambda>a. a_id a = aid) (\<lambda>a. a\<lparr>a_stripe_customer_id := customer\<rparr>) (ms_accounts m) =
      map_option (\<lambda>(x, rs). (scanAccount x, map scanAccount rs)) (update_first ?P (\<lambda>r. r\<lparr>ar_stripe := Some customer\<rparr>) (db_accounts d))"
    using sim update_first_map [of "\<lambda>a. a\<lparr>a_stripe_customer_id := customer\<rparr>" scanAccount "\<lambda>r. r\<lparr>ar_stripe := Some customer\<rparr>"]
    by (simp add: comp_def scanAccount_def)
  have cust: "a_stripe_customer_id (scanAccount r) = (case ar_stripe r of Some c \<Rightarrow> c | None \<Rightarrow> [])" for r by (simp add: scanAccount_def)
  have taken: "list_ex (\<lambda>x. a_stripe_customer_id x = customer) (ms_accounts m) = list_ex (\<lambda>r. ar_stripe r = Some customer) (db_accounts d)"
    using sim assms by (auto simp: list_ex_iff cust split: option.splits)
  show "fst (?l m) = fst (SetStripeCustomerID aid customer d) \<and> sim (snd (?l m)) (snd (SetStripeCustomerID aid customer d)) \<and>
      in_step (snd (?l m)) (snd (SetStripeCustomerID aid customer d))"
  proof (cases "find ?P (db_accounts d)")
    case None
    then have none: "filter ?P (db_accounts d) = []" by (simp add: find_filter split: list.splits)
    then have "\<not> list_ex (\<lambda>r. ?P r \<and> ar_stripe r = None) (db_accounts d)" by (auto simp: list_ex_iff filter_empty_conv)
    moreover have "map (\<lambda>r. if ?P r then ?f r else r) (db_accounts d) = db_accounts d" using none by (auto simp: filter_empty_conv intro: map_idI)
    ultimately show ?thesis using sim r none mem_account_sim [OF r, of aid] None
      by (simp add: SetStripeCustomerID_def stmt_no_fault and_then_def need_row_def one_row_def fail_def update_where_def Let_def related_def)
  next
    case (Some r0)
    then have r0: "r0 \<in> set (db_accounts d)" "?P r0" by (auto simp: find_Some_iff)
    have one: "filter ?P (db_accounts d) = [r0]"
      using Some one_with_key [OF dist, of ?P aid] by (auto simp: find_filter split: list.splits)
    then have "set (filter ?P (db_accounts d)) = {r0}" by simp
    then have only: "r \<in> set (db_accounts d) \<Longrightarrow> ?P r \<Longrightarrow> r = r0" for r by auto
    have own: "list_ex (\<lambda>r. ?P r \<and> ar_stripe r = None) (db_accounts d) \<longleftrightarrow> ar_stripe r0 = None"
      unfolding list_ex_iff using r0 only by metis
    have acct: "mem_account m aid = Some (scanAccount r0)" using mem_account_sim [OF r, of aid] Some by simp
    show ?thesis
    proof (cases "ar_stripe r0")
      case (Some c)
      have "?f r0 = r0" using Some by (cases r0) simp
      then have "map (\<lambda>r. if ?P r then ?f r else r) (db_accounts d) = db_accounts d" using only by (auto intro!: map_idI)
      moreover have "c \<noteq> []" using sim r0(1) Some by auto
      ultimately show ?thesis using sim r own acct Some one \<open>?f r0 = r0\<close>
        by (simp add: SetStripeCustomerID_def stmt_no_fault and_then_def need_row_def one_row_def give_def update_where_def Let_def related_def cust)
    next
      case None
      show ?thesis
      proof (cases "list_ex (\<lambda>r. ar_stripe r = Some customer) (db_accounts d)")
        case True
        then show ?thesis using sim r own acct None taken assms
          by (simp add: SetStripeCustomerID_def stmt_no_fault and_then_def related_def cust)
      next
        case False
        let ?rows = "map (\<lambda>r. if ?P r then ?f r else r) (db_accounts d)"
        have first: "update_first ?P (\<lambda>r. r\<lparr>ar_stripe := Some customer\<rparr>) (db_accounts d) = Some (?f r0, ?rows)"
        proof -
          have "map (\<lambda>r. if ?P r then r\<lparr>ar_stripe := Some customer\<rparr> else r) (db_accounts d) = ?rows" using only None by (auto intro!: map_cong)
          then show ?thesis using update_first_where [of ?P "db_accounts d" "\<lambda>r. r\<lparr>ar_stripe := Some customer\<rparr>"] one None by simp
        qed
        have "map ar_id ?rows = map ar_id (db_accounts d)" by simp
        then have "sorted (map ar_id ?rows)" using sim by (simp only: ordered_def)
        moreover have "\<forall>r\<in>set ?rows. ar_stripe r \<noteq> Some []" using sim assms by (auto split: option.splits)
        ultimately have "sim (m\<lparr>ms_accounts := map scanAccount ?rows\<rparr>) (d\<lparr>db_accounts := ?rows\<rparr>)"
          using r unfolding related_def by (blast intro: sim_accounts)
        moreover have "?l m = (Inr customer, m\<lparr>ms_accounts := map scanAccount ?rows\<rparr>)"
          using acct None taken False assms by (simp add: cust on_account_def mem first)
        moreover have "SetStripeCustomerID aid customer d = (Inr customer, d\<lparr>db_accounts := ?rows\<rparr>)"
          using sim False one None
          by (simp add: SetStripeCustomerID_def stmt_no_fault and_then_def need_row_def one_row_def give_def update_where_def Let_def)
        ultimately show ?thesis using r by (simp add: related_def)
      qed
    qed
  qed
qed

section \<open>New accounts\<close>

lemma count_of_update [simp]: "count_of (AList.update t n q) t' = (if t' = t then n else count_of q t')"
  by (simp add: count_of_def update_conv')

lemma mem_now_related: "related m d \<Longrightarrow> mem_now m = db_now d"
  by (simp add: related_def sim_def rounded_def mem_now_def)

lemma sorted_append_new: "sorted (map f xs) \<Longrightarrow> \<forall>x\<in>set xs. f x < (n :: int) \<Longrightarrow> f y = n \<Longrightarrow> sorted (map f (xs @ [y]))"
  by (auto simp: sorted_append)

lemma insertAccount_sim:
  fixes email nt :: string
  assumes "related m d"
  defines "row \<equiv> new_account d (NormalizeEmail email) nt"
  defines "d' \<equiv> d\<lparr>db_account_seq := db_account_seq d + 1, db_accounts := db_accounts d @ [row]\<rparr>"
  shows "fst (insertAccount email nt m) = Inr (scanAccount row) \<and> sim (snd (insertAccount email nt m)) d' \<and> in_step (snd (insertAccount email nt m)) d'"
proof -
  note sim = assms(1) [unfolded related_def sim_def]
  have "sorted (map ar_id (db_accounts d @ [row]))"
    using sim by (intro sorted_append_new [where n = "db_account_seq d"]) (auto simp: ordered_def db_ok_def accounts_ok_def row_def new_account_def)
  moreover have "\<forall>r\<in>set (db_accounts d @ [row]). ar_stripe r \<noteq> Some []" using sim by (auto simp: row_def new_account_def)
  ultimately have s: "sim (m\<lparr>ms_seq := AList.update ''accounts'' (db_account_seq d) (ms_seq m), ms_accounts := map scanAccount (db_accounts d @ [row])\<rparr>) d'"
    unfolding d'_def using assms(1) by (intro sim_accounts sim_seq(1,2)) (simp_all add: related_def)
  have l: "insertAccount email nt m =
      (Inr (scanAccount row), m\<lparr>ms_seq := AList.update ''accounts'' (db_account_seq d) (ms_seq m), ms_accounts := map scanAccount (db_accounts d @ [row])\<rparr>)"
    using sim mem_now_related [OF assms(1)] by (simp add: insertAccount_def nextID_def Let_def in_step_def row_def new_account_def scanAccount_def)
  show ?thesis unfolding l using s sim by (simp add: in_step_def d'_def)
qed

lemma CreateAccount_calm:
  assumes "related m d"
  shows "CreateAccount email note d = (if find (\<lambda>r. ar_email r = NormalizeEmail email) (db_accounts d) \<noteq> None
      then (Inl UniqueViolation, d\<lparr>db_account_seq := db_account_seq d + 1\<rparr>)
      else (Inr (scanAccount (new_account d (NormalizeEmail email) note)),
        d\<lparr>db_account_seq := db_account_seq d + 1, db_accounts := db_accounts d @ [new_account d (NormalizeEmail email) note]\<rparr>))"
proof -
  have "NormalizeEmail email \<in> set (map ar_email (db_accounts d)) \<longleftrightarrow> find (\<lambda>r. ar_email r = NormalizeEmail email) (db_accounts d) \<noteq> None"
    by (auto simp: find_None_iff intro: rev_image_eqI)
  moreover have "db_faults d = []" using assms by (simp add: related_def sim_def)
  ultimately show ?thesis by (simp add: CreateAccount_def stmt_no_fault Let_def email_check_normalized)
qed

lemma agrees_new_account:
  "agrees always (Mem_CreateAccount email note) (CreateAccount email note)"
  "agrees always (Mem_GetOrCreateAccount email note) (GetOrCreateAccount email note)"
proof -
  have calm: "db_faults d = []" if "related m d" for m d using that by (simp add: related_def sim_def)
  show "agrees always (Mem_CreateAccount email note) (CreateAccount email note)" unfolding Mem_CreateAccount_def
  proof (rule agrees_entered)
    fix m d assume r: "related m d"
    show "fst (if accountByEmail m email \<noteq> None then (Inl UniqueViolation, m) else insertAccount email note m) = fst (CreateAccount email note d) \<and>
        sim (snd (if accountByEmail m email \<noteq> None then (Inl UniqueViolation, m) else insertAccount email note m)) (snd (CreateAccount email note d))"
      using insertAccount_sim [OF r, of email "note"] r sim_seq(2) [of m d] by (simp add: CreateAccount_calm [OF r] accountByEmail_sim [OF r] related_def)
  qed
  show "agrees always (Mem_GetOrCreateAccount email note) (GetOrCreateAccount email note)" unfolding Mem_GetOrCreateAccount_def
  proof (rule agrees_entered)
    fix m d assume r: "related m d"
    show "fst (case accountByEmail m email of Some a \<Rightarrow> (Inr a, m) | None \<Rightarrow> insertAccount email note m) = fst (GetOrCreateAccount email note d) \<and>
        sim (snd (case accountByEmail m email of Some a \<Rightarrow> (Inr a, m) | None \<Rightarrow> insertAccount email note m)) (snd (GetOrCreateAccount email note d))"
      using insertAccount_sim [OF r, of email "note"] r sim_seq(2) [of m d] calm [OF r]
      by (auto simp: GetOrCreateAccount_def stmt_no_fault Let_def email_check_normalized accountByEmail_sim [OF r] find_filter related_def split: list.splits)
  qed
qed

section \<open>Keys\<close>

lemma copyKey_whole: "k_last_used_at k = None \<Longrightarrow> whole (k_revoked_at k) \<Longrightarrow> copyKey k = k"
  by (cases k) (simp add: copyKey_def whole_def)

lemma map_filter_id: "\<forall>x\<in>set xs. f x = x \<Longrightarrow> map f (filter P xs) = filter P xs"
  by (induction xs) auto

lemma sorted_update: "sorted (map key rows) \<Longrightarrow> (\<And>r. key (f r) = key r) \<Longrightarrow> sorted (map key (map (\<lambda>r. if P r then f r else r) rows))"
proof -
  assume k: "\<And>r. key (f r) = key r" and s: "sorted (map key rows)"
  have "map key (map (\<lambda>r. if P r then f r else r) rows) = map key rows" using k by simp
  then show ?thesis using s by (simp only:)
qed

lemma follows_ListKeys: "follows always (Mem_ListKeys aid) (ListKeys aid)"
  unfolding Mem_ListKeys_def ListKeys_def
proof (rule follows_read)
  fix m d assume "related m d"
  then have "ms_keys m = db_keys d" "sorted (map k_id (db_keys d))" "\<forall>k\<in>set (db_keys d). copyKey k = k"
    by (simp_all add: related_def sim_def ordered_def rounded_def copyKey_whole)
  then show "Inr (map copyKey (filter (\<lambda>k. k_account_id k = aid) (ms_keys m))) = Inr (sort_key k_id (filter (\<lambda>k. k_account_id k = aid) (db_keys d)))"
    by (simp add: sort_key_filtered map_filter_id)
qed

lemma follows_revoke:
  assumes "\<And>d. db_ok d \<Longrightarrow> length (filter P (db_keys d)) \<le> 1"
  shows "follows always (entered meth aid (revoke_first P)) (and_then (update_keys (\<lambda>d. P) (\<lambda>d k. k\<lparr>k_revoked_at := Some (db_now d)\<rparr>)) need_row)"
proof (rule follows_entered)
  fix m d assume r: "related m d"
  note sim = r [unfolded related_def sim_def]
  let ?f = "\<lambda>k. k\<lparr>k_revoked_at := Some (db_now d)\<rparr>"
  let ?g = "and_then (update_keys (\<lambda>d. P) (\<lambda>d k. k\<lparr>k_revoked_at := Some (db_now d)\<rparr>)) need_row"
  let ?rows = "map (\<lambda>k. if P k then ?f k else k) (db_keys d)"
  have first: "update_first P ?f (db_keys d) = (case filter P (db_keys d) of [] \<Rightarrow> None | k # _ \<Rightarrow> Some (?f k, ?rows))"
    using sim by (intro update_first_where assms) simp
  have one: "filter P (db_keys d) = [k]" if "filter P (db_keys d) = k # ks" for k ks
    using assms [of d] sim that by simp
  have now: "pgTime (db_now d) = db_now d" using sim by (simp add: rounded_def)
  have "sorted (map k_id ?rows)" using sim by (intro sorted_update) (simp_all add: ordered_def)
  moreover have "\<forall>k\<in>set ?rows. k_last_used_at k = None \<and> whole (k_revoked_at k)" using sim now by (auto simp: rounded_def whole_def)
  ultimately have s: "sim (m\<lparr>ms_keys := ?rows\<rparr>) (d\<lparr>db_keys := ?rows\<rparr>)" using r unfolding related_def by (blast intro: sim_keys)
  have db: "?g d = (case filter P (db_keys d) of [] \<Rightarrow> (Inl ErrNotFound, d\<lparr>db_keys := ?rows\<rparr>) | k # _ \<Rightarrow> (Inr (?f k), d\<lparr>db_keys := ?rows\<rparr>))"
    using sim by (simp add: update_keys_def stmt_no_fault and_then_def update_where_def need_row_def one_row_def fail_def give_def split: list.split)
  have same: "?rows = db_keys d" if "filter P (db_keys d) = []" using that by (auto simp: filter_empty_conv intro!: map_idI)
  have copy: "copyKey (?f k) = ?f k" if "k \<in> set (db_keys d)" for k using sim that now by (intro copyKey_whole) (auto simp: rounded_def whole_def)
  show "fst (revoke_first P m) = fst (?g d) \<and> sim (snd (revoke_first P m)) (snd (?g d)) \<and> in_step (snd (revoke_first P m)) (snd (?g d))"
  proof (cases "filter P (db_keys d)")
    case Nil
    then show ?thesis using sim r first db same mem_now_related [OF r] by (simp add: revoke_first_def related_def)
  next
    case (Cons k ks)
    then have "k \<in> set (db_keys d)" by (metis filter_is_subset list.set_intros(1) subsetD)
    then show ?thesis using sim r first db s copy mem_now_related [OF r] Cons by (simp add: revoke_first_def related_def)
  qed
qed

lemma follows_revokes:
  "follows always (Mem_RevokeKey kid aid) (RevokeKey kid aid)"
  "follows always (Mem_RevokeKeyByPrefix prefix) (RevokeKeyByPrefix prefix)"
proof -
  show "follows always (Mem_RevokeKey kid aid) (RevokeKey kid aid)"
    unfolding Mem_RevokeKey_def RevokeKey_def
    by (rule follows_revoke) (rule one_with_key [where key = k_id and k = kid]; simp add: db_ok_def keys_ok_def)
  let ?P = "\<lambda>k. k_prefix k = prefix \<and> k_revoked_at k = None"
  have one: "length (filter ?P (db_keys d)) \<le> 1" if "db_ok d" for d
  proof -
    have "filter ?P (db_keys d) = filter (\<lambda>k. k_prefix k = prefix) (filter (\<lambda>k. k_revoked_at k = None) (db_keys d))" by (simp add: conj_commute)
    moreover have "length (filter (\<lambda>k. k_prefix k = prefix) (filter (\<lambda>k. k_revoked_at k = None) (db_keys d))) \<le> 1"
      using that by (intro one_with_key [where key = k_prefix and k = prefix]) (simp_all add: db_ok_def keys_ok_def)
    ultimately show ?thesis by simp
  qed
  have "follows always (entered ''RevokeKeyByPrefix'' 0 (revoke_first ?P)) (RevokeKeyByPrefix prefix)"
    unfolding RevokeKeyByPrefix_def by (rule follows_revoke) (rule one)
  moreover have "Mem_RevokeKeyByPrefix prefix m = entered ''RevokeKeyByPrefix'' 0 (revoke_first ?P) m" if r: "related m d" for m d
  proof -
    obtain c where c: "entered ''RevokeKeyByPrefix'' 0 f m = f (m\<lparr>ms_calls := c\<rparr>)" for f :: "Key mem_op"
      using enterID_calm [of m "''RevokeKeyByPrefix''" 0] r by (auto simp: entered_def related_def sim_def)
    have "length (filter ?P (ms_keys m)) \<le> 1" using one [of d] r by (simp add: related_def sim_def)
    then show ?thesis by (simp add: Mem_RevokeKeyByPrefix_def Let_def c)
  qed
  ultimately show "follows always (Mem_RevokeKeyByPrefix prefix) (RevokeKeyByPrefix prefix)"
    by (auto simp: follows_def agrees_def keeps_step_def)
qed

section \<open>New keys\<close>

lemma mem_account_None: "related m d \<Longrightarrow> mem_account m aid = None \<longleftrightarrow> aid \<notin> ar_id ` set (db_accounts d)"
  by (auto simp: mem_account_sim find_None_iff)

text \<open>The first draw is fresh: its hash is new and no live key has its prefix.\<close>

definition fresh_draw :: "KeyKind \<Rightarrow> string option \<Rightarrow> db \<Rightarrow> bool" where
  "fresh_draw kind rand d \<longleftrightarrow>
     (\<forall>plaintext hash prefix. GenerateKey kind rand = Inr (plaintext, hash, prefix) \<longrightarrow>
        hash \<notin> set (map k_hash (db_keys d)) \<and> prefix \<notin> set (map k_prefix (filter (\<lambda>k. k_revoked_at k = None) (db_keys d))))"

lemma CreateKey_both:
  assumes r: "related m d" and fresh: "fresh_draw kind (rands 3) d"
  shows "fst (mem_key_loop createKeyAttempts rands aid label kind m) = fst (CreateKey rands aid label kind d) \<and>
      sim (snd (mem_key_loop createKeyAttempts rands aid label kind m)) (snd (CreateKey rands aid label kind d)) \<and>
      (aid \<in> ar_id ` set (db_accounts d) \<longrightarrow> in_step (snd (mem_key_loop createKeyAttempts rands aid label kind m)) (snd (CreateKey rands aid label kind d)))"
proof (cases "GenerateKey kind (rands 3)")
  case (Inl err)
  then show ?thesis using r by (simp add: CreateKey_def createKeyAttempts_def numeral_eq_Suc related_def)
next
  case (Inr p)
  obtain plaintext hash prefix where p: "p = (plaintext, hash, prefix)" by (cases p)
  note sim = r [unfolded related_def sim_def]
  have valid: "key_kind_valid kind" using Inr by (auto simp: GenerateKey_def split: if_splits)
  have new: "hash \<notin> set (map k_hash (db_keys d))" "prefix \<notin> set (map k_prefix (filter (\<lambda>k. k_revoked_at k = None) (db_keys d)))"
    using fresh Inr p by (auto simp: fresh_draw_def)
  then have free: "\<not> list_ex (\<lambda>k. k_prefix k = prefix \<and> k_revoked_at k = None) (ms_keys m)" using sim by (auto simp: list_ex_iff)
  let ?row = "\<lparr>k_id = db_key_seq d, k_account_id = aid, k_hash = hash, k_prefix = prefix, k_label = label,
      k_kind = kind, k_created_at = db_now d, k_last_used_at = None, k_revoked_at = None\<rparr>"
  show ?thesis
  proof (cases "aid \<in> ar_id ` set (db_accounts d)")
    case False
    then have "mem_account m aid = None" using mem_account_None [OF r] by simp
    then show ?thesis using Inr p valid new False sim r sim_seq(3) [of m d]
      by (simp add: CreateKey_def createKeyAttempts_def numeral_eq_Suc insert_key_def stmt_no_fault Let_def related_def)
  next
    case True
    let ?d = "d\<lparr>db_key_seq := db_key_seq d + 1, db_keys := db_keys d @ [?row]\<rparr>"
    let ?m = "m\<lparr>ms_seq := AList.update ''api_keys'' (db_key_seq d) (ms_seq m), ms_keys := db_keys d @ [?row]\<rparr>"
    have "sorted (map k_id (db_keys d @ [?row]))"
      using sim by (intro sorted_append_new [where n = "db_key_seq d"]) (auto simp: ordered_def db_ok_def keys_ok_def)
    moreover have "\<forall>k\<in>set (db_keys d @ [?row]). k_last_used_at k = None \<and> whole (k_revoked_at k)" using sim by (auto simp: rounded_def whole_def)
    ultimately have s: "sim ?m ?d" using r by (intro sim_keys sim_seq(1,3)) (simp_all add: related_def)
    have db: "CreateKey rands aid label kind d = (Inr (plaintext, ?row), ?d)"
      using Inr p valid new True sim by (simp add: CreateKey_def createKeyAttempts_def numeral_eq_Suc insert_key_def stmt_no_fault Let_def)
    have "mem_account m aid \<noteq> None" using True mem_account_None [OF r] by simp
    then have mem: "mem_key_loop createKeyAttempts rands aid label kind m = (Inr (plaintext, ?row), ?m)"
      using Inr p free sim mem_now_related [OF r]
      by (simp add: createKeyAttempts_def numeral_eq_Suc nextID_def Let_def in_step_def copyKey_def)
    show ?thesis unfolding db mem using s sim by (simp add: in_step_def)
  qed
qed

lemma agrees_CreateKey:
  "agrees (fresh_draw kind (rands 3)) (Mem_CreateKey rands aid label kind) (CreateKey rands aid label kind)"
  "follows (\<lambda>d. fresh_draw kind (rands 3) d \<and> aid \<in> ar_id ` set (db_accounts d)) (Mem_CreateKey rands aid label kind) (CreateKey rands aid label kind)"
  unfolding Mem_CreateKey_def by (rule agrees_entered follows_entered; use CreateKey_both in blast)+

section \<open>Entitlements\<close>

text \<open>An entitlement as callers pass it: a known source and status, and times of microsecond precision.\<close>

definition plain_grant :: "Entitlement \<Rightarrow> bool" where
  "plain_grant e \<longleftrightarrow> source_check (e_source e) \<and> (status_check (e_status e) \<or> e_status e = EntitlementOther []) \<and>
     pgTime (e_valid_from e) = e_valid_from e \<and> whole (e_valid_until e)"

lemma mem_canonical_related:
  assumes "related m d" "plain_grant e"
  shows "mem_canonical m e = map_sum id fst (prepareEntitlement (db_now d) e)"
proof (cases "CanonicalEntitlement e")
  case (Inr e1)
  have e1: "e_valid_from e1 = e_valid_from e" "e_valid_until e1 = e_valid_until e"
    using arg_cong [OF CanonicalEntitlement_keeps [OF Inr], of e_valid_from] arg_cong [OF CanonicalEntitlement_keeps [OF Inr], of e_valid_until] by simp_all
  have "ms_now m = db_now d" "pgTime (db_now d) = db_now d" using assms(1) by (simp_all add: related_def sim_def rounded_def)
  then show ?thesis using Inr e1 assms(2) by (cases e1) (auto simp: mem_canonical_def prepareEntitlement_def Let_def plain_grant_def whole_def)
qed (simp add: mem_canonical_def prepareEntitlement_def)

lemma prepared_fields:
  assumes "prepareEntitlement now e = Inr (e', until, ext)" "plain_grant e"
  shows "row_violation (e'\<lparr>e_id := db_entitlement_seq d, e_created_at := db_now d\<rparr>) = (if e_games e' = [] then Some NotNullViolation else None)"
    "entitlement_row d e' until ext = e'\<lparr>e_id := db_entitlement_seq d, e_created_at := db_now d\<rparr>" "whole (e_valid_until e')" "e_account_id e' = e_account_id e"
proof -
  note inr = prepareEntitlement_Inr [OF assms(1)]
  obtain e1 where c: "CanonicalEntitlement e = Inr e1" using assms(1) by (auto simp: prepareEntitlement_def split: sum.splits)
  have e1: "e_source e1 = e_source e" "e_status e1 = e_status e" "e_account_id e1 = e_account_id e"
    using arg_cong [OF CanonicalEntitlement_keeps [OF c], of e_source] arg_cong [OF CanonicalEntitlement_keeps [OF c], of e_status]
      arg_cong [OF CanonicalEntitlement_keeps [OF c], of e_account_id] by simp_all
  have e': "source_check (e_source e')" "status_check (e_status e')" "e_account_id e' = e_account_id e"
    using assms c e1 by (auto simp: prepareEntitlement_def Let_def plain_grant_def status_check_def split: if_splits)
  show row: "entitlement_row d e' until ext = e'\<lparr>e_id := db_entitlement_seq d, e_created_at := db_now d\<rparr>"
    using inr by (cases e') (auto simp: entitlement_row_def)
  have "lookback_check (e'\<lparr>e_id := db_entitlement_seq d, e_created_at := db_now d\<rparr>)"
    using canonical_row_check [OF inr(1)] by (simp add: lookback_check_def)
  then show "row_violation (e'\<lparr>e_id := db_entitlement_seq d, e_created_at := db_now d\<rparr>) = (if e_games e' = [] then Some NotNullViolation else None)"
    using e' by (simp add: row_violation_def)
  show "whole (e_valid_until e')" using inr(5) assms(2) by (simp add: plain_grant_def)
  show "e_account_id e' = e_account_id e" by (rule e')
qed

lemma copyEntitlement_whole: "whole (e_valid_until e) \<Longrightarrow> copyEntitlement e = e"
  by (cases e) (simp add: copyEntitlement_def whole_def)

lemma mem_insertEntitlement_sim:
  assumes r: "related m d" and w: "whole (e_valid_until e)"
  defines "row \<equiv> e\<lparr>e_id := db_entitlement_seq d, e_created_at := db_now d\<rparr>"
  defines "d' \<equiv> d\<lparr>db_entitlement_seq := db_entitlement_seq d + 1, db_entitlements := db_entitlements d @ [row]\<rparr>"
  shows "fst (mem_insertEntitlement e m) = Inr row \<and> sim (snd (mem_insertEntitlement e m)) d' \<and> in_step (snd (mem_insertEntitlement e m)) d'"
proof -
  note sim = r [unfolded related_def sim_def]
  let ?m = "m\<lparr>ms_seq := AList.update ''entitlements'' (db_entitlement_seq d) (ms_seq m), ms_ents := db_entitlements d @ [row]\<rparr>"
  have "sorted (map e_id (db_entitlements d @ [row]))"
    using sim by (intro sorted_append_new [where n = "db_entitlement_seq d"]) (auto simp: ordered_def db_ok_def entitlements_ok_def row_def)
  moreover have "\<forall>e\<in>set (db_entitlements d @ [row]). whole (e_valid_until e)" using sim w by (auto simp: rounded_def row_def)
  ultimately have s: "sim ?m d'" unfolding d'_def using r by (intro sim_ents sim_seq(1,4)) (simp_all add: related_def)
  have "copyEntitlement row = row" using w by (intro copyEntitlement_whole) (simp add: row_def)
  then have l: "mem_insertEntitlement e m = (Inr row, ?m)"
    using sim mem_now_related [OF r] by (simp add: mem_insertEntitlement_def nextID_def Let_def in_step_def row_def)
  show ?thesis unfolding l using s sim by (simp add: in_step_def d'_def)
qed

lemma entByRef_related:
  "related m d \<Longrightarrow> entByRef m ref \<noteq> None \<longleftrightarrow> ref \<noteq> [] \<and> ref \<in> set (map e_external_ref (filter (\<lambda>x. e_external_ref x \<noteq> []) (db_entitlements d)))"
proof -
  assume "related m d"
  then have "entByRef m ref = (if ref = [] then None else find (\<lambda>e. e_external_ref e = ref) (db_entitlements d))" by (simp add: entByRef_def related_def sim_def)
  moreover have "find P xs \<noteq> None \<longleftrightarrow> (\<exists>x\<in>set xs. P x)" for P and xs :: "Entitlement list" by (auto simp: find_None_iff)
  ultimately show ?thesis by (auto simp: image_iff)
qed

text \<open>The client's unique check comes before its foreign key, the memory's after.\<close>

definition one_conflict :: "Entitlement \<Rightarrow> db \<Rightarrow> bool" where
  "one_conflict e d \<longleftrightarrow> e_account_id e \<in> ar_id ` set (db_accounts d) \<or> e_external_ref e \<notin> e_external_ref ` set (db_entitlements d)"

definition new_ref :: "Entitlement \<Rightarrow> db \<Rightarrow> bool" where
  "new_ref e d \<longleftrightarrow> e_account_id e \<in> ar_id ` set (db_accounts d) \<and> (e_external_ref e = [] \<or> e_external_ref e \<notin> e_external_ref ` set (db_entitlements d)) \<and> e_games e \<noteq> []"

lemma prepared_games: "prepareEntitlement now e = Inr (e', until, ext) \<Longrightarrow> e_games e' = e_games e"
proof -
  assume p: "prepareEntitlement now e = Inr (e', until, ext)"
  obtain e1 where c: "CanonicalEntitlement e = Inr e1" using p by (auto simp: prepareEntitlement_def split: sum.splits)
  then show ?thesis using arg_cong [OF CanonicalEntitlement_keeps [OF c], of e_games] p by (auto simp: prepareEntitlement_def Let_def split: if_splits)
qed

lemma insert_prepared:
  assumes p: "prepareEntitlement now e = Inr (e', until, ext)" and g: "plain_grant e" and calm: "db_faults d = []"
  defines "row \<equiv> e'\<lparr>e_id := db_entitlement_seq d, e_created_at := db_now d\<rparr>" and "d' \<equiv> d\<lparr>db_entitlement_seq := db_entitlement_seq d + 1\<rparr>"
  shows "insertEntitlement (e', until, ext) d =
      (if e_games e = [] then (Inl NotNullViolation, d')
       else if e_external_ref e \<noteq> [] \<and> e_external_ref e \<in> e_external_ref ` set (db_entitlements d) then (Inl UniqueViolation, d')
       else if e_account_id e \<notin> ar_id ` set (db_accounts d) then (Inl ForeignKeyViolation, d')
       else (Inr row, d'\<lparr>db_entitlements := db_entitlements d @ [row]\<rparr>))"
proof -
  note fields = prepared_fields [OF p g] and inr = prepareEntitlement_Inr [OF p]
  have "e_external_ref e \<in> e_external_ref ` {x \<in> set (db_entitlements d). e_external_ref x \<noteq> []} \<longleftrightarrow> e_external_ref e \<in> e_external_ref ` set (db_entitlements d)"
    if "e_external_ref e \<noteq> []" using that by auto
  then show ?thesis
    unfolding insertEntitlement_def stmt_no_fault [OF calm] prod.case Let_def fields(2) row_def d'_def
    using fields(1,4) inr(2,4) prepared_games [OF p] by simp
qed

lemma taken_related:
  "related m d \<Longrightarrow> entByRef m ref \<noteq> None \<longleftrightarrow> ref \<noteq> [] \<and> ref \<in> e_external_ref ` set (db_entitlements d)"
  unfolding entByRef_related by auto

lemma AddEntitlement_both:
  assumes r: "related m d" and g: "plain_grant e" and one: "one_conflict e d"
  defines "f \<equiv> \<lambda>m. case mem_prepare m e of Inl err \<Rightarrow> (Inl err, m)
      | Inr e \<Rightarrow> if entByRef m (e_external_ref e) \<noteq> None then (Inl UniqueViolation, m) else mem_insertEntitlement e m"
  shows "fst (f m) = fst (AddEntitlement (db_now d) e d) \<and> sim (snd (f m)) (snd (AddEntitlement (db_now d) e d)) \<and>
      (new_ref e d \<longrightarrow> in_step (snd (f m)) (snd (AddEntitlement (db_now d) e d)))"
proof (cases "prepareEntitlement (db_now d) e")
  case (Inl err)
  then show ?thesis using r mem_canonical_related [OF r g]
    by (simp add: f_def mem_prepare_def AddEntitlement_def prepared_def and_then_def fail_def related_def)
next
  case (Inr p)
  obtain e' until ext where p: "p = (e', until, ext)" by (cases p)
  note prep = Inr [unfolded p]
  note fields = prepared_fields [OF prep g] and inr = prepareEntitlement_Inr [OF prep]
  define taken where "taken \<longleftrightarrow> e_external_ref e \<noteq> [] \<and> e_external_ref e \<in> e_external_ref ` set (db_entitlements d)"
  define known where "known \<longleftrightarrow> e_account_id e \<in> ar_id ` set (db_accounts d)"
  let ?d = "d\<lparr>db_entitlement_seq := db_entitlement_seq d + 1\<rparr>"
  have "db_faults d = []" using r by (simp add: related_def sim_def)
  note ins = insert_prepared [OF prep g this, folded taken_def, folded known_def]
  have db: "AddEntitlement (db_now d) e d = insertEntitlement (e', until, ext) d" using prep by (simp add: AddEntitlement_def prepared_def)
  have mem: "f m = (if e_games e = [] then (Inl NotNullViolation, m) else if \<not> known then (Inl ForeignKeyViolation, m)
      else if taken then (Inl UniqueViolation, m) else mem_insertEntitlement e' m)"
    using mem_canonical_related [OF r g] prep mem_account_None [OF r] taken_related [OF r] fields(4) inr(2) prepared_games [OF prep]
    by (simp add: f_def mem_prepare_def checkColumns_def taken_def known_def)
  have s: "sim m ?d" using r sim_seq(4) [of m d] by (simp add: related_def)
  have both: "taken \<longrightarrow> known" using one by (auto simp: one_conflict_def taken_def known_def)
  have "new_ref e d \<longleftrightarrow> e_games e \<noteq> [] \<and> \<not> taken \<and> known" by (auto simp: new_ref_def taken_def known_def)
  then show ?thesis unfolding db ins mem using s both mem_insertEntitlement_sim [OF r fields(3)] by auto
qed

lemma agrees_AddEntitlement:
  assumes "plain_grant e"
  shows "agrees (one_conflict e) (Mem_AddEntitlement e) (\<lambda>d. AddEntitlement (db_now d) e d)"
    "follows (\<lambda>d. one_conflict e d \<and> new_ref e d) (Mem_AddEntitlement e) (\<lambda>d. AddEntitlement (db_now d) e d)"
  unfolding Mem_AddEntitlement_def by (rule agrees_entered follows_entered; use AddEntitlement_both [OF _ assms] in blast)+

lemma follows_grant_reads:
  "follows always (Mem_ListEntitlements aid) (ListEntitlements aid)" "follows always Mem_ListActiveStripeRefs ListActiveStripeRefs"
proof -
  have "map copyEntitlement (filter (\<lambda>e. e_account_id e = aid) (ms_ents m)) = sort_key e_id (filter (\<lambda>e. e_account_id e = aid) (db_entitlements d))"
    if "related m d" for m d
  proof -
    have "ms_ents m = db_entitlements d" "sorted (map e_id (db_entitlements d))" "\<forall>e\<in>set (db_entitlements d). copyEntitlement e = e"
      using that by (simp_all add: related_def sim_def ordered_def rounded_def copyEntitlement_whole)
    then show ?thesis by (simp add: sort_key_filtered map_filter_id)
  qed
  then show "follows always (Mem_ListEntitlements aid) (ListEntitlements aid)"
    unfolding Mem_ListEntitlements_def ListEntitlements_def listEntitlements_def by (intro follows_read) simp
  show "follows always Mem_ListActiveStripeRefs ListActiveStripeRefs"
    unfolding Mem_ListActiveStripeRefs_def ListActiveStripeRefs_def by (rule follows_read) (simp add: related_def sim_def)
qed

lemma follow_upsert:
  "follow e old = upsert_row (e\<lparr>e_id := i, e_created_at := c\<rparr>) old"
  by (cases e; cases old) (simp add: follow_def upsert_row_def)

text \<open>The row of a reference is one.\<close>

lemma one_with_ref:
  assumes "db_ok d" "ref \<noteq> []"
  shows "length (filter (\<lambda>e. e_external_ref e = ref) (db_entitlements d)) \<le> 1"
proof -
  have "filter (\<lambda>e. e_external_ref e = ref) (db_entitlements d) =
      filter (\<lambda>e. e_external_ref e = ref) (filter (\<lambda>e. e_external_ref e \<noteq> []) (db_entitlements d))"
    using assms(2) by (auto intro: filter_cong)
  moreover have "length (filter (\<lambda>e. e_external_ref e = ref) (filter (\<lambda>e. e_external_ref e \<noteq> []) (db_entitlements d))) \<le> 1"
    using assms(1) by (intro one_with_key [where key = e_external_ref and k = ref]) (simp_all add: db_ok_def entitlements_ok_def)
  ultimately show ?thesis by simp
qed

lemma Upsert_both:
  assumes r: "related m d" and g: "plain_grant e" and ne: "e_external_ref e \<noteq> []"
  defines "f \<equiv> \<lambda>m. case mem_prepare m e of Inl err \<Rightarrow> (Inl err, m) | Inr e \<Rightarrow>
      (case update_first (\<lambda>x. e_external_ref x = e_external_ref e) (follow e) (ms_ents m) of
         None \<Rightarrow> mem_insertEntitlement e m | Some (x, es) \<Rightarrow> (Inr (copyEntitlement x), m\<lparr>ms_ents := es\<rparr>))"
  shows "fst (f m) = fst (UpsertStripeEntitlement (db_now d) e d) \<and> sim (snd (f m)) (snd (UpsertStripeEntitlement (db_now d) e d)) \<and>
      (new_ref e d \<longrightarrow> in_step (snd (f m)) (snd (UpsertStripeEntitlement (db_now d) e d)))"
proof (cases "prepareEntitlement (db_now d) e")
  case (Inl err)
  then show ?thesis using r mem_canonical_related [OF r g] ne
    by (simp add: f_def mem_prepare_def UpsertStripeEntitlement_def prepared_def and_then_def fail_def related_def)
next
  case (Inr p)
  obtain e' until ext where p: "p = (e', until, ext)" by (cases p)
  note sim = r [unfolded related_def sim_def]
  note fields = prepared_fields [OF Inr [unfolded p] g] and inr = prepareEntitlement_Inr [OF Inr [unfolded p]]
  have can: "mem_canonical m e = Inr e'" using mem_canonical_related [OF r g] Inr p by simp
  have ext: "ext = Some (e_external_ref e)" using inr(4) ne by simp
  have db: "UpsertStripeEntitlement (db_now d) e d = upsertEntitlement (e', until, ext) d"
    using Inr p ne by (simp add: UpsertStripeEntitlement_def prepared_def)
  let ?P = "\<lambda>x. e_external_ref x = e_external_ref e"
  let ?d = "d\<lparr>db_entitlement_seq := db_entitlement_seq d + 1\<rparr>" and ?row = "e'\<lparr>e_id := db_entitlement_seq d, e_created_at := db_now d\<rparr>"
  let ?rows = "map (\<lambda>x. if ?P x then upsert_row ?row x else x) (db_entitlements d)"
  have acct: "mem_account m (e_account_id e') = None \<longleftrightarrow> e_account_id e \<notin> ar_id ` set (db_accounts d)" using mem_account_None [OF r] fields(4) by simp
  have calm: "db_faults d = []" using sim by simp
  have ups: "upsertEntitlement (e', until, ext) d =
      (if e_games e' = [] then (Inl NotNullViolation, ?d)
       else if e_account_id e \<notin> ar_id ` set (db_accounts d) then (Inl ForeignKeyViolation, ?d)
       else case filter ?P (db_entitlements d) of
           old # _ \<Rightarrow> (Inr (upsert_row ?row old), ?d\<lparr>db_entitlements := ?rows\<rparr>)
         | [] \<Rightarrow> (Inr ?row, ?d\<lparr>db_entitlements := db_entitlements d @ [?row]\<rparr>))"
    unfolding upsertEntitlement_def stmt_no_fault [OF calm] prod.case Let_def update_where_def ext fields(2) [unfolded ext] using fields(1,4) inr(2) by (simp cong: list.case_cong)
  have first: "update_first ?P (follow e') (db_entitlements d) =
      (case filter ?P (db_entitlements d) of [] \<Rightarrow> None | x # _ \<Rightarrow> Some (upsert_row ?row x, ?rows))"
    unfolding follow_upsert [where i = "db_entitlement_seq d" and c = "db_now d"] using sim ne by (intro update_first_where one_with_ref) simp
  have mem: "f m = (if e_games e' = [] then (Inl NotNullViolation, m)
      else if e_account_id e \<notin> ar_id ` set (db_accounts d) then (Inl ForeignKeyViolation, m)
      else case filter ?P (db_entitlements d) of
          old # _ \<Rightarrow> (Inr (copyEntitlement (upsert_row ?row old)), m\<lparr>ms_ents := ?rows\<rparr>) | [] \<Rightarrow> mem_insertEntitlement e' m)"
    using can acct first inr(2) sim by (simp add: f_def mem_prepare_def checkColumns_def split: list.split)
  have s: "sim m ?d" using r sim_seq(4) [of m d] by (simp add: related_def)
  have w: "whole (e_valid_until (upsert_row ?row x))" for x using fields(3) by (simp add: upsert_row_def)
  have "sorted (map e_id ?rows)" using sim by (intro sorted_update) (simp_all add: ordered_def upsert_row_def)
  moreover have "\<forall>x\<in>set ?rows. whole (e_valid_until x)" using sim w by (auto simp: rounded_def)
  ultimately have s': "sim (m\<lparr>ms_ents := ?rows\<rparr>) (?d\<lparr>db_entitlements := ?rows\<rparr>)" using s by (intro sim_ents)
  show ?thesis
  proof (cases "filter ?P (db_entitlements d)")
    case Nil
    have "\<not> new_ref e d" if "e_games e' = [] \<or> e_account_id e \<notin> ar_id ` set (db_accounts d)"
      using that prepared_games [OF Inr [unfolded p]] by (auto simp: new_ref_def)
    then show ?thesis unfolding db ups mem Nil using mem_insertEntitlement_sim [OF r fields(3)] s by auto
  next
    case (Cons old olds)
    then have "e_external_ref e \<in> e_external_ref ` set (db_entitlements d)" by (force dest!: filter_eq_ConsD)
    then have "\<not> new_ref e d" using ne by (simp add: new_ref_def)
    then show ?thesis unfolding db ups mem Cons using s s' copyEntitlement_whole [OF w] by simp
  qed
qed

lemma agrees_Upsert:
  assumes "plain_grant e"
  shows "agrees always (Mem_UpsertStripeEntitlement e) (\<lambda>d. UpsertStripeEntitlement (db_now d) e d)"
    "follows (new_ref e) (Mem_UpsertStripeEntitlement e) (\<lambda>d. UpsertStripeEntitlement (db_now d) e d)"
proof (atomize (full), cases "e_external_ref e = []")
  case True
  then have "follows P (Mem_UpsertStripeEntitlement e) (\<lambda>d. UpsertStripeEntitlement (db_now d) e d)" for P
    using follows_fail [of P _ _ ExternalRefRequired] by (simp add: Mem_UpsertStripeEntitlement_def UpsertStripeEntitlement_def)
  then show "agrees always (Mem_UpsertStripeEntitlement e) (\<lambda>d. UpsertStripeEntitlement (db_now d) e d) \<and>
      follows (new_ref e) (Mem_UpsertStripeEntitlement e) (\<lambda>d. UpsertStripeEntitlement (db_now d) e d)" by (simp add: follows_def)
next
  case False
  have "agrees always (Mem_UpsertStripeEntitlement e) (\<lambda>d. UpsertStripeEntitlement (db_now d) e d)"
    unfolding Mem_UpsertStripeEntitlement_def if_not_P [OF False] by (rule agrees_entered) (use Upsert_both [OF _ assms False] in blast)
  moreover have "follows (new_ref e) (Mem_UpsertStripeEntitlement e) (\<lambda>d. UpsertStripeEntitlement (db_now d) e d)"
    unfolding Mem_UpsertStripeEntitlement_def if_not_P [OF False] by (rule follows_entered) (use Upsert_both [OF _ assms False] in blast)
  ultimately show "agrees always (Mem_UpsertStripeEntitlement e) (\<lambda>d. UpsertStripeEntitlement (db_now d) e d) \<and>
      follows (new_ref e) (Mem_UpsertStripeEntitlement e) (\<lambda>d. UpsertStripeEntitlement (db_now d) e d)" by simp
qed

lemma update_where_none: "filter P rows = [] \<Longrightarrow> update_where P f rows = (rows, [])"
  by (auto simp: update_where_def filter_empty_conv intro!: map_idI)

lemma update_where_one:
  assumes "filter P rows = [x]" "\<And>y. Q y \<Longrightarrow> P y"
  shows "update_where Q f rows = (if Q x then (map (\<lambda>y. if P y then f y else y) rows, [f x]) else (rows, []))"
proof -
  have "set (filter P rows) = {x}" using assms(1) by simp
  then have only: "y = x" if "y \<in> set rows" "P y" for y using that by auto
  have "filter Q rows = filter Q (filter P rows)" using assms(2) by (auto intro: filter_cong)
  then have q: "filter Q rows = (if Q x then [x] else [])" using assms(1) by simp
  moreover have "map (\<lambda>y. if Q y then f y else y) rows = map (\<lambda>y. if P y then f y else y) rows" if "Q x" by (rule map_cong [OF refl]) (use only assms(2) that in auto)
  ultimately show ?thesis using update_where_none [of Q rows f] by (simp add: update_where_def)
qed

lemma follows_EndEntitlement:
  assumes "pgTime at = at"
  shows "follows always (Mem_EndEntitlement eid aid at) (EndEntitlement eid aid at)"
  unfolding Mem_EndEntitlement_def Let_def
proof (rule follows_entered)
  fix m d assume r: "related m d"
  note sim = r [unfolded related_def sim_def]
  let ?P = "\<lambda>e. e_id e = eid \<and> (aid = 0 \<or> e_account_id e = aid)"
  let ?Q = "\<lambda>e. e_id e = eid \<and> e_status e \<noteq> EntitlementEnded \<and> e_source e \<noteq> SourceStripe \<and> (aid = 0 \<or> e_account_id e = aid)"
  let ?f = "\<lambda>e. e\<lparr>e_status := EntitlementEnded, e_valid_until := Some at\<rparr>"
  let ?l = "\<lambda>m. case find ?P (ms_ents m) of None \<Rightarrow> (Inl ErrNotFound, m)
       | Some e \<Rightarrow> if e_source e = SourceStripe then (Inl ErrStripeEntitlement, m) else if e_status e = EntitlementEnded then (Inl ErrNotFound, m)
           else (case update_first ?P (\<lambda>e. e\<lparr>e_status := EntitlementEnded, e_valid_until := Some (pgTime at)\<rparr>) (ms_ents m) of
               None \<Rightarrow> (Inl ErrNotFound, m) | Some (x, es) \<Rightarrow> (Inr (copyEntitlement x), m\<lparr>ms_ents := es\<rparr>))"
  let ?rows = "map (\<lambda>e. if ?P e then ?f e else e) (db_entitlements d)"
  have calm: "db_faults d = []" and ents: "ms_ents m = db_entitlements d" using sim by simp_all
  have same: "d\<lparr>db_entitlements := db_entitlements d\<rparr> = d" by simp
  have n: "length (filter ?P (db_entitlements d)) \<le> 1"
    using sim by (intro one_with_key [where key = e_id and k = eid]) (simp_all add: db_ok_def entitlements_ok_def)
  show "fst (?l m) = fst (EndEntitlement eid aid at d) \<and> sim (snd (?l m)) (snd (EndEntitlement eid aid at d)) \<and>
      in_step (snd (?l m)) (snd (EndEntitlement eid aid at d))"
  proof (cases "filter ?P (db_entitlements d)")
    case Nil
    then have "filter ?Q (db_entitlements d) = []" by (auto simp: filter_empty_conv)
    from update_where_none [OF this]
    have "EndEntitlement eid aid at d = (Inl ErrNotFound, d)" using Nil by (simp add: EndEntitlement_def stmt_no_fault [OF calm] one_row_def same)
    then show ?thesis using r Nil by (simp add: find_filter ents related_def)
  next
    case (Cons e es)
    then have one: "filter ?P (db_entitlements d) = [e]" using n by simp
    have upd: "update_where ?Q ?f (db_entitlements d) = (if ?Q e then (?rows, [?f e]) else (db_entitlements d, []))"
      by (rule update_where_one [OF one]) simp
    have first: "update_first ?P ?f (db_entitlements d) = Some (?f e, ?rows)" using update_first_where [OF n, of ?f] one by simp
    have "?P e" using Cons by (auto dest!: filter_eq_ConsD)
    then have db: "EndEntitlement eid aid at d = (if ?Q e then (Inr (?f e), d\<lparr>db_entitlements := ?rows\<rparr>)
        else (Inl (if e_source e = SourceStripe then ErrStripeEntitlement else ErrNotFound), d))"
      using one upd by (simp add: EndEntitlement_def stmt_no_fault [OF calm] one_row_def same)
    have "copyEntitlement (?f e) = ?f e" by (rule copyEntitlement_whole) (simp add: whole_def assms)
    then have mem: "?l m = (if e_source e = SourceStripe then (Inl ErrStripeEntitlement, m) else if e_status e = EntitlementEnded then (Inl ErrNotFound, m)
        else (Inr (?f e), m\<lparr>ms_ents := ?rows\<rparr>))"
      using first assms one by (simp add: find_filter ents)
    have "sorted (map e_id ?rows)" using sim by (intro sorted_update) (simp_all add: ordered_def)
    moreover have "\<forall>e\<in>set ?rows. whole (e_valid_until e)" using sim assms by (auto simp: rounded_def whole_def)
    ultimately have s: "sim (m\<lparr>ms_ents := ?rows\<rparr>) (d\<lparr>db_entitlements := ?rows\<rparr>)" using r by (intro sim_ents) (simp_all add: related_def)
    show ?thesis unfolding db mem using s r \<open>?P e\<close> by (simp add: related_def)
  qed
qed

section \<open>Trials, the log and usage\<close>

lemma copyTrial_whole: "whole (tr_reminder_sent_at t) \<Longrightarrow> copyTrial t = t"
  by (cases t) (simp add: copyTrial_def whole_def)

lemma follows_trial_reads:
  "follows always (Mem_TrialsToRemind from to) (TrialsToRemind from to)"
  unfolding Mem_TrialsToRemind_def TrialsToRemind_def
proof (rule follows_read)
  fix m d assume "related m d"
  then have "ms_trials m = db_trials d" "\<forall>t\<in>set (db_trials d). copyTrial t = t" by (simp_all add: related_def sim_def rounded_def copyTrial_whole)
  moreover have "filter (\<lambda>t. tr_reminder_sent_at t = None \<and> inWindow (tr_ends_at t) from to) (db_trials d) =
      filter (\<lambda>t. from \<le> tr_ends_at t \<and> tr_ends_at t < to \<and> tr_reminder_sent_at t = None) (db_trials d)"
    by (auto simp: inWindow_def intro: filter_cong)
  ultimately show "Inr (sort_key tr_ends_at (map copyTrial (filter (\<lambda>t. tr_reminder_sent_at t = None \<and> inWindow (tr_ends_at t) from to) (ms_trials m)))) =
      Inr (sort_key tr_ends_at (filter (\<lambda>t. from \<le> tr_ends_at t \<and> tr_ends_at t < to \<and> tr_reminder_sent_at t = None) (db_trials d)))"
    by (simp add: map_filter_id)
qed

lemma follows_reminded:
  assumes "pgTime at = at"
  shows "follows always (Mem_MarkTrialReminded tid at) (MarkTrialReminded tid at)"
  unfolding Mem_MarkTrialReminded_def
proof (rule follows_entered)
  fix m d assume r: "related m d"
  note sim = r [unfolded related_def sim_def]
  let ?f = "\<lambda>t. t\<lparr>tr_reminder_sent_at := Some at\<rparr>"
  let ?l = "\<lambda>m. case update_first (\<lambda>t. tr_id t = tid) (\<lambda>t. t\<lparr>tr_reminder_sent_at := Some (pgTime at)\<rparr>) (ms_trials m) of
         None \<Rightarrow> (Inl ErrNotFound, m) | Some (_, ts) \<Rightarrow> (Inr (), m\<lparr>ms_trials := ts\<rparr>)"
  have dist: "distinct (map tr_id (db_trials d))" using sim by (simp add: ordered_def)
  note one = update_one [OF dist, of "\<lambda>t. tr_id t = tid" tid ?f]
  have same: "d\<lparr>db_trials := db_trials d\<rparr> = d" by simp
  show "fst (?l m) = fst (MarkTrialReminded tid at d) \<and> sim (snd (?l m)) (snd (MarkTrialReminded tid at d)) \<and> in_step (snd (?l m)) (snd (MarkTrialReminded tid at d))"
  proof (cases "update_first (\<lambda>t. tr_id t = tid) ?f (db_trials d)")
    case None
    then show ?thesis using sim r one same assms
      by (simp add: MarkTrialReminded_def stmt_no_fault and_then_def need_row_def one_row_def fail_def related_def)
  next
    case (Some p)
    obtain x ts where p: "p = (x, ts)" by fastforce
    have "map tr_id ts = map tr_id (db_trials d)" by (rule map_update_first [OF Some [unfolded p]]) simp
    moreover have "\<forall>t\<in>set ts. tr_id t < db_trial_seq d \<and> whole (tr_reminder_sent_at t)"
      using set_update_first [OF Some [unfolded p]] sim assms by (auto simp: ordered_def rounded_def whole_def)
    ultimately have "sim (m\<lparr>ms_trials := ts\<rparr>) (d\<lparr>db_trials := ts\<rparr>)" using r dist by (intro sim_trials) (simp_all add: related_def)
    then show ?thesis using sim r one Some p assms
      by (simp add: MarkTrialReminded_def stmt_no_fault and_then_def need_row_def one_row_def give_def related_def)
  qed
qed

lemma follows_log:
  "follows always (Mem_RecordAdminAction actor action aid target detail) (RecordAdminAction actor action aid target detail)"
  "follows always (Mem_ListAdminActions aid limit) (ListAdminActions aid limit)"
proof -
  show "follows always (Mem_RecordAdminAction actor action aid target detail) (RecordAdminAction actor action aid target detail)"
    unfolding Mem_RecordAdminAction_def
  proof (rule follows_entered)
    fix m d assume r: "related m d"
    note sim = r [unfolded related_def sim_def]
    let ?a = "\<lparr>aa_id = db_action_seq d, aa_at = db_now d, aa_actor = NormalizeEmail actor, aa_action = action, aa_account_id = aid,
         aa_target = target, aa_detail = detail\<rparr>"
    let ?l = "\<lambda>m. case nextID ''admin_actions'' m of (i, m') \<Rightarrow>
         (Inr () :: access_error + unit, m'\<lparr>ms_actions := ms_actions m @ [\<lparr>aa_id = i, aa_at = mem_now m, aa_actor = NormalizeEmail actor, aa_action = action,
            aa_account_id = aid, aa_target = target, aa_detail = detail\<rparr>]\<rparr>)"
    have l: "?l m = (Inr (), m\<lparr>ms_seq := AList.update ''admin_actions'' (db_action_seq d) (ms_seq m), ms_actions := db_actions d @ [?a]\<rparr>)"
      using sim mem_now_related [OF r] by (simp add: nextID_def Let_def in_step_def)
    have db: "RecordAdminAction actor action aid target detail d = (Inr (), d\<lparr>db_action_seq := db_action_seq d + 1, db_actions := db_actions d @ [?a]\<rparr>)"
      using sim by (simp add: RecordAdminAction_def stmt_no_fault)
    have "sim (m\<lparr>ms_seq := AList.update ''admin_actions'' (db_action_seq d) (ms_seq m), ms_actions := db_actions d @ [?a]\<rparr>)
        (d\<lparr>db_action_seq := db_action_seq d + 1, db_actions := db_actions d @ [?a]\<rparr>)"
      using r by (intro sim_plain(4) sim_seq(1,6)) (simp add: related_def)
    then show "fst (?l m) = fst (RecordAdminAction actor action aid target detail d) \<and> sim (snd (?l m)) (snd (RecordAdminAction actor action aid target detail d)) \<and>
        in_step (snd (?l m)) (snd (RecordAdminAction actor action aid target detail d))"
      unfolding l db using sim by (simp add: in_step_def)
  qed
  show "follows always (Mem_ListAdminActions aid limit) (ListAdminActions aid limit)"
    unfolding Mem_ListAdminActions_def ListAdminActions_def
    by (rule follows_entered) (simp add: related_def sim_def stmt_no_fault limited_def)
qed

lemma copy_rows_calm: "db_faults d = [] \<Longrightarrow> copy_rows us d = (Inr (map usage_column us), d)"
  by (induction us) (simp_all add: give_def driver_call_def stmt_no_fault and_then_def usage_column_def)

lemma follows_InsertUsage:
  assumes "\<forall>u\<in>set rows. pgTime (us_ts u) = us_ts u"
  shows "follows always (Mem_InsertUsage rows) (InsertUsage rows)"
  unfolding Mem_InsertUsage_def
proof (rule follows_entered)
  fix m d assume r: "related m d"
  have calm: "db_faults d = []" and us: "map usage_column (ms_usage m) = db_usage d" using r by (simp_all add: related_def sim_def)
  have rows: "map (\<lambda>u. u\<lparr>us_ts := pgTime (us_ts u)\<rparr>) rows = rows" using assms by (intro map_idI) simp
  have db: "InsertUsage rows d = (Inr (), d\<lparr>db_usage := map usage_column (ms_usage m @ rows)\<rparr>)"
    using calm us by (auto simp: InsertUsage_def give_def transaction_def driver_call_def stmt_no_fault and_then_def copy_rows_calm)
  have "sim (m\<lparr>ms_usage := ms_usage m @ rows\<rparr>) (d\<lparr>db_usage := map usage_column (ms_usage m @ rows)\<rparr>)"
    using r by (intro sim_plain) (simp add: related_def)
  then show "fst ((Inr (), m\<lparr>ms_usage := ms_usage m @ map (\<lambda>u. u\<lparr>us_ts := pgTime (us_ts u)\<rparr>) rows\<rparr>) :: (access_error + unit) \<times> MemStore) = fst (InsertUsage rows d) \<and>
      sim (snd ((Inr (), m\<lparr>ms_usage := ms_usage m @ map (\<lambda>u. u\<lparr>us_ts := pgTime (us_ts u)\<rparr>) rows\<rparr>) :: (access_error + unit) \<times> MemStore)) (snd (InsertUsage rows d)) \<and>
      in_step (snd ((Inr (), m\<lparr>ms_usage := ms_usage m @ map (\<lambda>u. u\<lparr>us_ts := pgTime (us_ts u)\<rparr>) rows\<rparr>) :: (access_error + unit) \<times> MemStore)) (snd (InsertUsage rows d))"
    unfolding db rows using r by (simp add: related_def)
qed

section \<open>One-time rows\<close>

lemma keyed_lookup:
  assumes "\<And>r. fst (g r) = key r"
  shows "map_of (map g rows) k = map_option (snd \<circ> g) (find (\<lambda>r. key r = k) rows)"
proof (induction rows)
  case (Cons r rows)
  then show ?case using assms [of r] by (cases "g r") auto
qed simp

lemma keyed_update:
  assumes "distinct (map key rows)" "find (\<lambda>r. key r = k) rows = Some r" "\<And>r. fst (g r) = key r" "g (f r) = (k, v)"
  shows "AList.update k v (map g rows) = map g (map (\<lambda>x. if key x = k then f x else x) rows)"
  using assms(1,2)
proof (induction rows)
  case (Cons x rows)
  obtain b where x: "g x = (key x, b)" using assms(3) [of x] by (cases "g x") simp
  show ?case
  proof (cases "key x = k")
    case True
    then have "r = x" "\<forall>y\<in>set rows. key y \<noteq> k" using Cons(2,3) by (auto simp: image_iff)
    then show ?thesis using True x assms(4) by simp
  next
    case False
    then show ?thesis using Cons x by simp
  qed
qed simp

lemma keyed_insert:
  assumes "k \<notin> set (map key rows)" "\<And>r. fst (g r) = key r" "g r = (k, v)"
  shows "AList.update k v (map g rows) = map g (rows @ [r])"
  using assms(1)
proof (induction rows)
  case (Cons x rows)
  obtain b where x: "g x = (key x, b)" using assms(2) [of x] by (cases "g x") simp
  then show ?case using Cons assms(3) by auto
qed (simp add: assms(3))

lemma keyed_delete:
  assumes "\<And>r. fst (g r) = key r"
  shows "AList.delete k (map g rows) = map g (filter (\<lambda>r. key r \<noteq> k) rows)"
  using assms by (auto simp: AList.delete_eq filter_map comp_def case_prod_beta intro: arg_cong filter_cong)

text \<open>One row of a key: the statement updates it where it still may.\<close>

lemma keyed_one:
  assumes "distinct (map key rows)" "find (\<lambda>r. key r = k) rows = Some r" "\<And>x. Q x \<Longrightarrow> key x = k"
  shows "update_where Q f rows = (if Q r then (map (\<lambda>x. if key x = k then f x else x) rows, [f r]) else (rows, []))"
proof -
  have "filter (\<lambda>x. key x = k) rows = [r]"
    using assms(2) one_with_key [OF assms(1), of "\<lambda>x. key x = k" k] by (auto simp: find_filter split: list.splits)
  then show ?thesis using assms(3) by (rule update_where_one)
qed

lemma keyed_none:
  assumes "find (\<lambda>r. key r = k) rows = None" "\<And>x. Q x \<Longrightarrow> key x = k"
  shows "update_where Q f rows = (rows, [])"
  by (rule update_where_none) (use assms in \<open>auto simp: find_None_iff filter_empty_conv\<close>)

lemma row_keys: "fst (invite_of i) = iv_token_hash i" "fst (link_of l) = ml_token_hash l" "fst (event_of e) = se_id e"
  by (simp_all add: invite_of_def link_of_def event_of_def)

lemma related_tokens:
  assumes "related m d"
  shows "ms_invites m = map invite_of (db_invites d)" "ms_links m = map link_of (db_links d)" "ms_events m = map event_of (db_events d)"
    "ms_nonces m = db_nonces d" "distinct (map iv_token_hash (db_invites d))" "distinct (map ml_token_hash (db_links d))" "distinct (map se_id (db_events d))"
    "distinct (map fst (db_nonces d))" "db_faults d = []" "ms_now m = db_now d" "sim m d" "in_step m d"
  using assms db_ok_tokens [of d] by (simp_all add: related_def sim_def)

lemma invite_lookup: "related m d \<Longrightarrow> map_of (ms_invites m) hash = find (\<lambda>i. iv_token_hash i = hash) (db_invites d)"
  by (simp add: related_tokens(1) keyed_lookup [of invite_of iv_token_hash, OF row_keys(1)] invite_of_def comp_def option.map_ident)

lemma follows_ConsumeInvite:
  assumes "pgTime now = now"
  shows "follows always (Mem_ConsumeInvite token email now) (ConsumeInvite token email now)"
  unfolding Mem_ConsumeInvite_def
proof (rule follows_entered)
  fix m d assume r: "related m d"
  note rel = related_tokens [OF r]
  let ?f = "\<lambda>i. i\<lparr>iv_used_at := Some now\<rparr>" and ?Q = "invite_live token email now"
  let ?rows = "map (\<lambda>i. if iv_token_hash i = HashKey token then ?f i else i) (db_invites d)"
  let ?l = "\<lambda>m. case map_of (ms_invites m) (HashKey token) of None \<Rightarrow> (Inl ErrInviteInvalid, m)
     | Some iv \<Rightarrow> if iv_used_at iv \<noteq> None \<or> \<not> now < iv_expires_at iv \<or> iv_email iv \<noteq> [] \<and> iv_email iv \<noteq> NormalizeEmail email then (Inl ErrInviteInvalid, m)
         else let iv' = iv\<lparr>iv_used_at := Some (pgTime now)\<rparr>
           in (Inr (copyInvite iv'), m\<lparr>ms_invites := AList.update (HashKey token) iv' (ms_invites m)\<rparr>)"
  have q: "?Q i \<Longrightarrow> iv_token_hash i = HashKey token" for i by (simp add: invite_live_def)
  have same: "put_invites (db_invites d) d = d" by (simp add: put_invites_def)
  show "fst (?l m) = fst (ConsumeInvite token email now d) \<and> sim (snd (?l m)) (snd (ConsumeInvite token email now d)) \<and>
      in_step (snd (?l m)) (snd (ConsumeInvite token email now d))"
  proof (cases "find (\<lambda>i. iv_token_hash i = HashKey token) (db_invites d)")
    case None
    have "ConsumeInvite token email now d = (Inl ErrInviteInvalid, d)"
      using keyed_none [where Q = ?Q and f = ?f, OF None q] by (simp add: ConsumeInvite_def stmt_no_fault [OF rel(9)] one_row_def same)
    then show ?thesis using None invite_lookup [OF r] rel by simp
  next
    case (Some i)
    then have i: "iv_token_hash i = HashKey token" by (auto simp: find_Some_iff)
    have upd: "update_where ?Q ?f (db_invites d) = (if ?Q i then (?rows, [?f i]) else (db_invites d, []))"
      by (rule keyed_one [OF rel(5) Some q])
    have db: "ConsumeInvite token email now d = (if ?Q i then (Inr (?f i), d\<lparr>db_invites := ?rows\<rparr>) else (Inl ErrInviteInvalid, d))"
      using upd by (simp add: ConsumeInvite_def stmt_no_fault [OF rel(9)] one_row_def same) (simp add: put_invites_def)
    have "AList.update (HashKey token) (?f i) (ms_invites m) = map invite_of ?rows"
      unfolding rel(1) by (rule keyed_update [OF rel(5) Some row_keys(1)]) (simp add: invite_of_def i)
    then have mem: "?l m = (if ?Q i then (Inr (?f i), m\<lparr>ms_invites := map invite_of ?rows\<rparr>) else (Inl ErrInviteInvalid, m))"
      using invite_lookup [OF r] Some i assms by (auto simp: invite_live_def Let_def copyInvite_def)
    have "\<forall>i\<in>set ?rows. whole (iv_used_at i)" using r assms by (auto simp: related_def sim_def rounded_def whole_def)
    then have s: "sim (m\<lparr>ms_invites := map invite_of ?rows\<rparr>) (d\<lparr>db_invites := ?rows\<rparr>)" by (rule sim_invites [OF rel(11)])
    show ?thesis unfolding db mem using rel(11,12) s by simp
  qed
qed

lemma follows_ReleaseInvite: "follows always (Mem_ReleaseInvite token) (ReleaseInvite token)"
  unfolding Mem_ReleaseInvite_def
proof (rule follows_entered)
  fix m d assume r: "related m d"
  note rel = related_tokens [OF r]
  let ?f = "\<lambda>i. i\<lparr>iv_used_at := None\<rparr>"
  let ?rows = "map (\<lambda>i. if iv_token_hash i = HashKey token then ?f i else i) (db_invites d)"
  let ?l = "\<lambda>m. case map_of (ms_invites m) (HashKey token) of None \<Rightarrow> (Inr () :: access_error + unit, m)
     | Some iv \<Rightarrow> (Inr (), m\<lparr>ms_invites := AList.update (HashKey token) (iv\<lparr>iv_used_at := None\<rparr>) (ms_invites m)\<rparr>)"
  have "\<forall>i\<in>set ?rows. whole (iv_used_at i)" using r by (auto simp: related_def sim_def rounded_def whole_def)
  then have s: "sim (m\<lparr>ms_invites := map invite_of ?rows\<rparr>) (d\<lparr>db_invites := ?rows\<rparr>)" by (rule sim_invites [OF rel(11)])
  have db: "ReleaseInvite token d = (Inr (), d\<lparr>db_invites := ?rows\<rparr>)"
    by (simp add: ReleaseInvite_def stmt_no_fault [OF rel(9)] put_invites_def update_where_def)
  have mem: "?l m = (Inr (), m\<lparr>ms_invites := map invite_of ?rows\<rparr>)"
  proof (cases "find (\<lambda>i. iv_token_hash i = HashKey token) (db_invites d)")
    case None
    then have "?rows = db_invites d" by (auto simp: find_None_iff intro!: map_idI)
    then show ?thesis using None invite_lookup [OF r] rel(1) by simp
  next
    case (Some i)
    then have i: "iv_token_hash i = HashKey token" by (auto simp: find_Some_iff)
    have "AList.update (HashKey token) (?f i) (ms_invites m) = map invite_of ?rows"
      unfolding rel(1) by (rule keyed_update [OF rel(5) Some row_keys(1)]) (simp add: invite_of_def i)
    then show ?thesis using invite_lookup [OF r] Some by simp
  qed
  show "fst (?l m) = fst (ReleaseInvite token d) \<and> sim (snd (?l m)) (snd (ReleaseInvite token d)) \<and> in_step (snd (?l m)) (snd (ReleaseInvite token d))"
    unfolding db mem using s rel(12) by simp
qed

lemma link_lookup:
  assumes "related m d"
  shows "map_of (ms_links m) hash = map_option (\<lambda>l. snd (link_of l)) (find (\<lambda>l. ml_token_hash l = hash) (db_links d))"
  using assms by (simp add: related_tokens(2) keyed_lookup [of link_of ml_token_hash, OF row_keys(2)] comp_def)

lemma event_lookup:
  assumes "related m d"
  shows "map_of (ms_events m) eid = map_option (\<lambda>e. snd (event_of e)) (find (\<lambda>e. se_id e = eid) (db_events d))"
  using assms by (simp add: related_tokens(3) keyed_lookup [of event_of se_id, OF row_keys(3)] comp_def)

lemma follows_ConsumeMagicLink: "follows always (Mem_ConsumeMagicLink token now) (ConsumeMagicLink token now)"
  unfolding Mem_ConsumeMagicLink_def
proof (rule follows_entered)
  fix m d assume r: "related m d"
  note rel = related_tokens [OF r]
  let ?f = "\<lambda>l. l\<lparr>ml_used_at := Some now\<rparr>" and ?Q = "link_live token now"
  let ?rows = "map (\<lambda>l. if ml_token_hash l = HashKey token then ?f l else l) (db_links d)"
  let ?l = "\<lambda>m. case map_of (ms_links m) (HashKey token) of None \<Rightarrow> (Inl ErrNotFound, m)
     | Some l \<Rightarrow> if lk_used l \<or> \<not> now < lk_expires_at l then (Inl ErrNotFound, m)
         else (found (mem_account m (lk_account_id l)), m\<lparr>ms_links := AList.update (HashKey token) (l\<lparr>lk_used := True\<rparr>) (ms_links m)\<rparr>)"
  have q: "?Q l \<Longrightarrow> ml_token_hash l = HashKey token" for l by (simp add: link_live_def)
  have same: "put_links (db_links d) d = d" by (simp add: put_links_def)
  show "fst (?l m) = fst (ConsumeMagicLink token now d) \<and> sim (snd (?l m)) (snd (ConsumeMagicLink token now d)) \<and>
      in_step (snd (?l m)) (snd (ConsumeMagicLink token now d))"
  proof (cases "find (\<lambda>l. ml_token_hash l = HashKey token) (db_links d)")
    case None
    have "ConsumeMagicLink token now d = (Inl ErrNotFound, d)"
      using keyed_none [where Q = ?Q and f = ?f, OF None q] by (simp add: ConsumeMagicLink_def stmt_no_fault [OF rel(9)] one_row_def same)
    then show ?thesis using None link_lookup [OF r] rel by simp
  next
    case (Some l)
    then have l: "ml_token_hash l = HashKey token" by (auto simp: find_Some_iff)
    have upd: "update_where ?Q ?f (db_links d) = (if ?Q l then (?rows, [?f l]) else (db_links d, []))"
      by (rule keyed_one [OF rel(6) Some q])
    have db: "ConsumeMagicLink token now d = (if ?Q l then
        (map_sum id scanAccount (one_row (filter (\<lambda>a. ar_id a = ml_account_id l) (db_accounts d))), d\<lparr>db_links := ?rows\<rparr>) else (Inl ErrNotFound, d))"
      using upd by (simp add: ConsumeMagicLink_def stmt_no_fault [OF rel(9)] one_row_def same) (simp add: put_links_def)
    have "AList.update (HashKey token) (snd (link_of l)\<lparr>lk_used := True\<rparr>) (ms_links m) = map link_of ?rows"
      unfolding rel(2) by (rule keyed_update [OF rel(6) Some row_keys(2)]) (simp add: link_of_def l)
    moreover have "found (mem_account m (ml_account_id l)) = map_sum id scanAccount (one_row (filter (\<lambda>a. ar_id a = ml_account_id l) (db_accounts d)))"
      by (simp add: mem_account_sim [OF r] found_map found_find)
    ultimately have mem: "?l m = (if ?Q l then
        (map_sum id scanAccount (one_row (filter (\<lambda>a. ar_id a = ml_account_id l) (db_accounts d))), m\<lparr>ms_links := map link_of ?rows\<rparr>) else (Inl ErrNotFound, m))"
      using link_lookup [OF r] Some l by (auto simp: link_live_def link_of_def)
    show ?thesis unfolding db mem using rel(11,12) sim_plain(1) [OF rel(11), of ?rows] by simp
  qed
qed

lemma follows_deletes:
  "follows always (Mem_DeleteMagicLink token) (DeleteMagicLink token)" "follows always (Mem_DeleteStripeEvent eid) (DeleteStripeEvent eid)"
proof -
  show "follows always (Mem_DeleteMagicLink token) (DeleteMagicLink token)" unfolding Mem_DeleteMagicLink_def
  proof (rule follows_entered)
    fix m d assume r: "related m d"
    note rel = related_tokens [OF r]
    have "AList.delete (HashKey token) (ms_links m) = map link_of (filter (\<lambda>l. ml_token_hash l \<noteq> HashKey token) (db_links d))"
      unfolding rel(2) by (rule keyed_delete [OF row_keys(2)])
    then show "fst ((Inr (), m\<lparr>ms_links := AList.delete (HashKey token) (ms_links m)\<rparr>) :: (access_error + unit) \<times> MemStore) = fst (DeleteMagicLink token d) \<and>
        sim (snd ((Inr (), m\<lparr>ms_links := AList.delete (HashKey token) (ms_links m)\<rparr>) :: (access_error + unit) \<times> MemStore)) (snd (DeleteMagicLink token d)) \<and>
        in_step (snd ((Inr (), m\<lparr>ms_links := AList.delete (HashKey token) (ms_links m)\<rparr>) :: (access_error + unit) \<times> MemStore)) (snd (DeleteMagicLink token d))"
      using rel sim_plain(1) [OF rel(11)] by (simp add: DeleteMagicLink_def delete_where_def stmt_no_fault and_then_def give_def put_links_def)
  qed
  show "follows always (Mem_DeleteStripeEvent eid) (DeleteStripeEvent eid)" unfolding Mem_DeleteStripeEvent_def
  proof (rule follows_entered)
    fix m d assume r: "related m d"
    note rel = related_tokens [OF r]
    have "AList.delete eid (ms_events m) = map event_of (filter (\<lambda>e. se_id e \<noteq> eid) (db_events d))"
      unfolding rel(3) by (rule keyed_delete [OF row_keys(3)])
    then show "fst ((Inr (), m\<lparr>ms_events := AList.delete eid (ms_events m)\<rparr>) :: (access_error + unit) \<times> MemStore) = fst (DeleteStripeEvent eid d) \<and>
        sim (snd ((Inr (), m\<lparr>ms_events := AList.delete eid (ms_events m)\<rparr>) :: (access_error + unit) \<times> MemStore)) (snd (DeleteStripeEvent eid d)) \<and>
        in_step (snd ((Inr (), m\<lparr>ms_events := AList.delete eid (ms_events m)\<rparr>) :: (access_error + unit) \<times> MemStore)) (snd (DeleteStripeEvent eid d))"
      using rel sim_plain(2) [OF rel(11)] by (simp add: DeleteStripeEvent_def delete_where_def stmt_no_fault and_then_def give_def put_events_def)
  qed
qed

lemma follows_BeginStripeEvent: "follows always (Mem_BeginStripeEvent eid kind) (BeginStripeEvent eid kind)"
  unfolding Mem_BeginStripeEvent_def
proof (rule follows_entered)
  fix m d assume r: "related m d"
  note rel = related_tokens [OF r] and now = mem_now_related [OF r]
  let ?f = "\<lambda>e. e\<lparr>se_received_at := db_now d\<rparr>"
  let ?Q = "\<lambda>e. se_id e = eid \<and> se_processed_at e = None \<and> se_received_at e < db_now d - eventReclaimAfter"
  let ?rows = "map (\<lambda>e. if se_id e = eid then ?f e else e) (db_events d)"
  let ?l = "\<lambda>m. case map_of (ms_events m) eid of
       None \<Rightarrow> (Inr True :: access_error + bool, m\<lparr>ms_events := AList.update eid \<lparr>ev_received_at = mem_now m, ev_processed = False\<rparr> (ms_events m)\<rparr>)
     | Some ev \<Rightarrow> if ev_processed ev \<or> \<not> ev_received_at ev < mem_now m - eventReclaimAfter then (Inr False, m)
         else (Inr True, m\<lparr>ms_events := AList.update eid (ev\<lparr>ev_received_at := mem_now m\<rparr>) (ms_events m)\<rparr>)"
  have same: "put_events (db_events d) d = d" by (simp add: put_events_def)
  show "fst (?l m) = fst (BeginStripeEvent eid kind d) \<and> sim (snd (?l m)) (snd (BeginStripeEvent eid kind d)) \<and> in_step (snd (?l m)) (snd (BeginStripeEvent eid kind d))"
  proof (cases "find (\<lambda>e. se_id e = eid) (db_events d)")
    case None
    let ?e = "\<lparr>se_id = eid, se_type = kind, se_received_at = db_now d, se_processed_at = None\<rparr>"
    have new: "eid \<notin> set (map se_id (db_events d))" using None by (auto simp: find_None_iff)
    have db: "BeginStripeEvent eid kind d = (Inr True, d\<lparr>db_events := db_events d @ [?e]\<rparr>)"
      using new by (simp add: BeginStripeEvent_def stmt_no_fault [OF rel(9)] put_events_def)
    have "AList.update eid \<lparr>ev_received_at = db_now d, ev_processed = False\<rparr> (ms_events m) = map event_of (db_events d @ [?e])"
      unfolding rel(3) by (rule keyed_insert [OF new row_keys(3)]) (simp add: event_of_def)
    then have mem: "?l m = (Inr True, m\<lparr>ms_events := map event_of (db_events d @ [?e])\<rparr>)" using None event_lookup [OF r] now by simp
    show ?thesis unfolding db mem using rel(12) sim_plain(2) [OF rel(11), of "db_events d @ [?e]"] by simp
  next
    case (Some e)
    then have e: "se_id e = eid" "eid \<in> set (map se_id (db_events d))" by (auto simp: find_Some_iff)
    have upd: "update_where ?Q ?f (db_events d) = (if ?Q e then (?rows, [?f e]) else (db_events d, []))"
      by (rule keyed_one [OF rel(7) Some]) simp
    have db: "BeginStripeEvent eid kind d = (if ?Q e then (Inr True, d\<lparr>db_events := ?rows\<rparr>) else (Inr False, d))"
      using upd e(2) by (simp add: BeginStripeEvent_def stmt_no_fault [OF rel(9)] same) (simp add: put_events_def)
    have "AList.update eid (snd (event_of e)\<lparr>ev_received_at := db_now d\<rparr>) (ms_events m) = map event_of ?rows"
      unfolding rel(3) by (rule keyed_update [OF rel(7) Some row_keys(3)]) (simp add: event_of_def e)
    then have mem: "?l m = (if ?Q e then (Inr True, m\<lparr>ms_events := map event_of ?rows\<rparr>) else (Inr False, m))"
      using event_lookup [OF r] Some e now by (auto simp: event_of_def)
    show ?thesis unfolding db mem using rel(11,12) sim_plain(2) [OF rel(11), of ?rows] by simp
  qed
qed

lemma follows_FinishStripeEvent: "follows always (Mem_FinishStripeEvent eid) (FinishStripeEvent eid)"
  unfolding Mem_FinishStripeEvent_def
proof (rule follows_entered)
  fix m d assume r: "related m d"
  note rel = related_tokens [OF r]
  let ?f = "\<lambda>e. e\<lparr>se_processed_at := Some (db_now d)\<rparr>"
  let ?rows = "map (\<lambda>e. if se_id e = eid then ?f e else e) (db_events d)"
  let ?l = "\<lambda>m. case map_of (ms_events m) eid of None \<Rightarrow> (Inr () :: access_error + unit, m)
     | Some ev \<Rightarrow> (Inr (), m\<lparr>ms_events := AList.update eid (ev\<lparr>ev_processed := True\<rparr>) (ms_events m)\<rparr>)"
  have db: "FinishStripeEvent eid d = (Inr (), d\<lparr>db_events := ?rows\<rparr>)"
    by (simp add: FinishStripeEvent_def stmt_no_fault [OF rel(9)] put_events_def update_where_def)
  have mem: "?l m = (Inr (), m\<lparr>ms_events := map event_of ?rows\<rparr>)"
  proof (cases "find (\<lambda>e. se_id e = eid) (db_events d)")
    case None
    then have "?rows = db_events d" by (auto simp: find_None_iff intro!: map_idI)
    then show ?thesis using None event_lookup [OF r] rel(3) by simp
  next
    case (Some e)
    then have e: "se_id e = eid" by (auto simp: find_Some_iff)
    have "AList.update eid (snd (event_of e)\<lparr>ev_processed := True\<rparr>) (ms_events m) = map event_of ?rows"
      unfolding rel(3) by (rule keyed_update [OF rel(7) Some row_keys(3)]) (simp add: event_of_def e)
    then show ?thesis using event_lookup [OF r] Some by simp
  qed
  show "fst (?l m) = fst (FinishStripeEvent eid d) \<and> sim (snd (?l m)) (snd (FinishStripeEvent eid d)) \<and> in_step (snd (?l m)) (snd (FinishStripeEvent eid d))"
    unfolding db mem using rel(12) sim_plain(2) [OF rel(11), of ?rows] by simp
qed

lemma follows_ConsumeNonce:
  assumes "pgTime expires = expires"
  shows "follows always (Mem_ConsumeNonce nonce expires now) (ConsumeNonce nonce expires now)"
  unfolding Mem_ConsumeNonce_def Let_def
proof (rule follows_entered)
  fix m d assume r: "related m d"
  note rel = related_tokens [OF r]
  let ?ns = "filter (\<lambda>n. \<not> snd n < now) (db_nonces d)"
  let ?l = "\<lambda>m. if map_of (ms_nonces (m\<lparr>ms_nonces := filter (\<lambda>(_, ex). \<not> ex < now) (ms_nonces m)\<rparr>)) nonce \<noteq> None
      then (Inl ErrNonceUsed, m\<lparr>ms_nonces := filter (\<lambda>(_, ex). \<not> ex < now) (ms_nonces m)\<rparr>)
      else (Inr (), m\<lparr>ms_nonces := filter (\<lambda>(_, ex). \<not> ex < now) (ms_nonces m),
        ms_nonces := AList.update nonce (pgTime expires) (ms_nonces (m\<lparr>ms_nonces := filter (\<lambda>(_, ex). \<not> ex < now) (ms_nonces m)\<rparr>))\<rparr>)"
  have ns: "filter (\<lambda>(_, ex). \<not> ex < now) (ms_nonces m) = ?ns" unfolding rel(4) by (auto intro: filter_cong)
  have db: "ConsumeNonce nonce expires now d = (if nonce \<in> fst ` set ?ns then (Inl ErrNonceUsed, d\<lparr>db_nonces := ?ns\<rparr>)
      else (Inr (), d\<lparr>db_nonces := ?ns @ [(nonce, expires)]\<rparr>))"
    using rel(9) by (simp add: ConsumeNonce_def delete_where_def insert_nonce_def stmt_no_fault and_then_def put_nonces_def fail_def give_def)
  have "AList.update nonce expires ?ns = ?ns @ [(nonce, expires)]" if "nonce \<notin> fst ` set ?ns"
    using keyed_insert [of nonce fst ?ns "\<lambda>x. x" "(nonce, expires)" expires] that by simp
  then have mem: "?l m = (if nonce \<in> fst ` set ?ns then (Inl ErrNonceUsed, m\<lparr>ms_nonces := ?ns\<rparr>) else (Inr (), m\<lparr>ms_nonces := ?ns @ [(nonce, expires)]\<rparr>))"
    unfolding ns using assms by (auto simp: map_of_eq_None_iff simp del: set_filter)
  show "fst (?l m) = fst (ConsumeNonce nonce expires now d) \<and> sim (snd (?l m)) (snd (ConsumeNonce nonce expires now d)) \<and>
      in_step (snd (?l m)) (snd (ConsumeNonce nonce expires now d))"
    unfolding db mem using rel(12) sim_plain(3) [OF rel(11)] by simp
qed

text \<open>A drawn token is new.\<close>

definition fresh_invite :: "string option \<Rightarrow> db \<Rightarrow> bool" where
  "fresh_invite rand d \<longleftrightarrow> (case rand of None \<Rightarrow> True | Some buf \<Rightarrow> HashKey (b64url_encode buf) \<notin> iv_token_hash ` set (db_invites d))"

definition fresh_link :: "string option \<Rightarrow> db \<Rightarrow> bool" where
  "fresh_link rand d \<longleftrightarrow> (case rand of None \<Rightarrow> True | Some buf \<Rightarrow> HashKey (b64url_encode buf) \<notin> ml_token_hash ` set (db_links d))"

lemma pgTime_iff: "pgTime t = t \<longleftrightarrow> 1000 dvd t"
proof
  assume "1000 dvd t"
  then obtain k where "t = 1000 * k" by (rule dvdE)
  moreover have "(1000 * k + 500) div 1000 = k" by simp
  ultimately show "pgTime t = t" by (simp add: pgTime_def)
next
  assume "pgTime t = t"
  then have "t = (t + 500) div 1000 * 1000" by (simp add: pgTime_def)
  then show "1000 dvd t" by (metis dvd_triv_right)
qed

lemma pgTime_add: "pgTime s = s \<Longrightarrow> pgTime t = t \<Longrightarrow> pgTime (s + t) = s + t"
  unfolding pgTime_iff by (rule dvd_add)

lemma follows_CreateInvite:
  assumes "pgTime ttl = ttl"
  shows "follows (fresh_invite rand) (Mem_CreateInvite rand interval email ttl note) (\<lambda>d. CreateInvite rand (db_now d) interval email ttl note d)"
  unfolding Mem_CreateInvite_def
proof (rule follows_entered)
  fix m d assume r: "related m d" and fresh: "fresh_invite rand d"
  note rel = related_tokens [OF r] and now = mem_now_related [OF r]
  let ?l = "\<lambda>m. case mem_token rand m of (Inl err, m') \<Rightarrow> (Inl err, m') | (Inr token, m') \<Rightarrow>
       let iv = \<lparr>iv_token_hash = HashKey token, iv_interval_key = interval, iv_email = NormalizeEmail email,
                  iv_expires_at = pgTime (ms_now m' + ttl), iv_used_at = None, iv_created_at = mem_now m', iv_note = note\<rparr>
       in (Inr (token, copyInvite iv), m'\<lparr>ms_invites := AList.update (HashKey token) iv (ms_invites m')\<rparr>)"
  let ?g = "\<lambda>d. CreateInvite rand (db_now d) interval email ttl note d"
  show "fst (?l m) = fst (?g d) \<and> sim (snd (?l m)) (snd (?g d)) \<and> in_step (snd (?l m)) (snd (?g d))"
  proof (cases rand)
    case None
    then show ?thesis using rel by (simp add: mem_token_def CreateInvite_def new_token_def fail_def and_then_def)
  next
    case (Some buf)
    let ?h = "HashKey (b64url_encode buf)"
    let ?iv = "\<lparr>iv_token_hash = ?h, iv_interval_key = interval, iv_email = NormalizeEmail email, iv_expires_at = db_now d + ttl,
        iv_used_at = None, iv_created_at = db_now d, iv_note = note\<rparr>"
    have new: "?h \<notin> set (map iv_token_hash (db_invites d))" using fresh Some by (simp add: fresh_invite_def)
    have ex: "pgTime (db_now d + ttl) = db_now d + ttl" using r assms by (intro pgTime_add) (simp_all add: related_def sim_def rounded_def)
    have db: "?g d = (Inr (b64url_encode buf, ?iv), d\<lparr>db_invites := db_invites d @ [?iv]\<rparr>)"
      using Some new rel(9) by (simp add: CreateInvite_def new_token_def give_def and_then_def insert_invite_def stmt_no_fault Let_def)
    have "AList.update ?h ?iv (ms_invites m) = map invite_of (db_invites d @ [?iv])"
      unfolding rel(1) by (rule keyed_insert [OF new row_keys(1)]) (simp add: invite_of_def)
    then have mem: "?l m = (Inr (b64url_encode buf, ?iv), m\<lparr>ms_invites := map invite_of (db_invites d @ [?iv])\<rparr>)"
      using Some ex rel(10) now by (simp add: mem_token_def copyInvite_def Let_def)
    have "\<forall>i\<in>set (db_invites d @ [?iv]). whole (iv_used_at i)" using r by (auto simp: related_def sim_def rounded_def whole_def)
    from sim_invites [OF rel(11) this] show ?thesis unfolding db mem using rel(12) by simp
  qed
qed

lemma follows_CreateMagicLink:
  assumes "pgTime ttl = ttl"
  shows "follows (fresh_link rand) (Mem_CreateMagicLink rand aid ttl) (\<lambda>d. CreateMagicLink rand (db_now d) aid ttl d)"
  unfolding Mem_CreateMagicLink_def Let_def
proof (rule follows_entered)
  fix m d assume r: "related m d" and fresh: "fresh_link rand d"
  note rel = related_tokens [OF r]
  let ?kept = "filter (\<lambda>l. \<not> ml_expires_at l < db_now d) (db_links d)"
  let ?l = "\<lambda>m. case mem_token rand (m\<lparr>ms_links := filter (\<lambda>(_, l). \<not> lk_expires_at l < ms_now m) (ms_links m)\<rparr>) of
       (Inl err, m2) \<Rightarrow> (Inl err, m2)
     | (Inr token, m2) \<Rightarrow> if mem_account m2 aid = None then (Inl ForeignKeyViolation, m2)
         else (Inr token, m2\<lparr>ms_links := AList.update (HashKey token)
             \<lparr>lk_account_id = aid, lk_expires_at = pgTime (ms_now m + ttl), lk_used = False\<rparr> (ms_links m2)\<rparr>)"
  let ?g = "\<lambda>d. CreateMagicLink rand (db_now d) aid ttl d"
  have kept: "filter (\<lambda>(_, l). \<not> lk_expires_at l < ms_now m) (ms_links m) = map link_of ?kept"
    unfolding rel(2,10) filter_map by (simp add: comp_def link_of_def)
  note s = sim_plain(1) [OF rel(11), of ?kept]
  show "fst (?l m) = fst (?g d) \<and> sim (snd (?l m)) (snd (?g d)) \<and> in_step (snd (?l m)) (snd (?g d))"
  proof (cases rand)
    case None
    then show ?thesis unfolding kept using rel(9,12) s by (simp add: mem_token_def CreateMagicLink_def new_token_def fail_def and_then_def delete_where_def stmt_no_fault put_links_def)
  next
    case (Some buf)
    let ?h = "HashKey (b64url_encode buf)"
    let ?lk = "\<lparr>ml_token_hash = ?h, ml_account_id = aid, ml_expires_at = db_now d + ttl, ml_used_at = None, ml_created_at = db_now d\<rparr>"
    have new: "?h \<notin> set (map ml_token_hash ?kept)" using fresh Some by (auto simp: fresh_link_def)
    have ex: "pgTime (db_now d + ttl) = db_now d + ttl" using r assms by (intro pgTime_add) (simp_all add: related_def sim_def rounded_def)
    have db: "?g d = (if aid \<notin> ar_id ` set (db_accounts d) then (Inl ForeignKeyViolation, d\<lparr>db_links := ?kept\<rparr>)
        else (Inr (b64url_encode buf), d\<lparr>db_links := ?kept @ [?lk]\<rparr>))"
      using Some new rel(9)
      by (simp add: CreateMagicLink_def new_token_def give_def and_then_def delete_where_def insert_link_def stmt_no_fault put_links_def Let_def del: set_filter)
    have upd: "AList.update ?h \<lparr>lk_account_id = aid, lk_expires_at = db_now d + ttl, lk_used = False\<rparr> (map link_of ?kept) = map link_of (?kept @ [?lk])"
      by (rule keyed_insert [OF new row_keys(2)]) (simp add: link_of_def)
    have "mem_account (m\<lparr>ms_links := map link_of ?kept\<rparr>) aid = mem_account m aid" by (simp add: mem_account_def)
    then have mem: "?l m = (if aid \<notin> ar_id ` set (db_accounts d) then (Inl ForeignKeyViolation, m\<lparr>ms_links := map link_of ?kept\<rparr>)
        else (Inr (b64url_encode buf), m\<lparr>ms_links := map link_of (?kept @ [?lk])\<rparr>))"
      unfolding kept using Some ex upd mem_account_None [OF r] rel(10) by (simp add: mem_token_def)
    show ?thesis unfolding db mem using rel(12) s sim_plain(1) [OF rel(11), of "?kept @ [?lk]"] by simp
  qed
qed

section \<open>New trials\<close>

lemma sim_rollback: "sim m d \<Longrightarrow> db_faults d2 = [] \<Longrightarrow> db_trial_seq d \<le> db_trial_seq d2 \<Longrightarrow> sim m (rollback d d2)"
  by (auto simp: rollback_def sim_def rounded_def ordered_def)

lemma trial_row_related:
  fixes email :: string and ends :: time
  assumes r: "related m d" and known: "aid \<in> ar_id ` set (db_accounts d)"
  defines "t \<equiv> \<lparr>tr_id = db_trial_seq d, tr_patreon_email = email, tr_account_id = aid, tr_granted_at = db_now d, tr_ends_at = ends, tr_reminder_sent_at = None\<rparr>"
  defines "m' \<equiv> m\<lparr>ms_seq := AList.update ''trials'' (db_trial_seq d) (ms_seq m), ms_trials := db_trials d @ [t]\<rparr>"
  defines "d' \<equiv> d\<lparr>db_trial_seq := db_trial_seq d + 1, db_trials := db_trials d @ [t]\<rparr>"
  shows "related m' d'"
proof -
  note sim = r [unfolded related_def sim_def]
  have "sim (m\<lparr>ms_seq := AList.update ''trials'' (db_trial_seq d) (ms_seq m)\<rparr>) (d\<lparr>db_trial_seq := db_trial_seq d + 1\<rparr>)"
    using r by (intro sim_seq(1,5)) (simp_all add: related_def)
  moreover have "distinct (map tr_id (db_trials d @ [t]))" using sim by (auto simp: ordered_def t_def)
  moreover have "\<forall>x\<in>set (db_trials d @ [t]). tr_id x < db_trial_seq (d\<lparr>db_trial_seq := db_trial_seq d + 1\<rparr>) \<and> whole (tr_reminder_sent_at x)"
    using sim by (force simp: ordered_def rounded_def whole_def t_def)
  ultimately have "sim m' d'" unfolding m'_def d'_def by (rule sim_trials)
  moreover have "in_step m' d'" using sim by (simp add: in_step_def m'_def d'_def)
  moreover have "db_ok d'" using sim known by (auto simp: db_ok_def refs_ok_def tokens_ok_def d'_def t_def)
  ultimately show ?thesis by (simp add: related_def)
qed

definition soon :: "string \<Rightarrow> time \<Rightarrow> db \<Rightarrow> bool" where
  "soon email nb d \<longleftrightarrow> list_ex (\<lambda>t. tr_patreon_email t = NormalizeEmail email \<and> nb < tr_granted_at t) (db_trials d)"

lemma CreateTrial_calm:
  fixes email :: string
  assumes calm: "db_faults d = []" and p: "prepareEntitlement (db_now d) (ent\<lparr>e_valid_until := Some ends\<rparr>) = Inr (e', until, ext)"
    and g: "plain_grant (ent\<lparr>e_valid_until := Some ends\<rparr>)"
  defines "t \<equiv> \<lparr>tr_id = db_trial_seq d, tr_patreon_email = NormalizeEmail email, tr_account_id = e_account_id ent, tr_granted_at = db_now d,
      tr_ends_at = ends, tr_reminder_sent_at = None\<rparr>"
  defines "d1 \<equiv> d\<lparr>db_trial_seq := db_trial_seq d + 1, db_trials := db_trials d @ [t]\<rparr>"
  defines "row \<equiv> e'\<lparr>e_id := db_entitlement_seq d, e_created_at := db_now d\<rparr>"
  shows "CreateTrial (db_now d) email ends nb ent d =
     (if soon email nb d then (Inl ErrTrialTooSoon, rollback d d)
      else if e_account_id ent \<notin> ar_id ` set (db_accounts d) then (Inl ForeignKeyViolation, rollback d (d\<lparr>db_trial_seq := db_trial_seq d + 1\<rparr>))
      else if e_games ent = [] then (Inl NotNullViolation, rollback d (d1\<lparr>db_entitlement_seq := db_entitlement_seq d + 1\<rparr>))
      else if e_external_ref ent \<noteq> [] \<and> e_external_ref ent \<in> e_external_ref ` set (db_entitlements d)
        then (Inl UniqueViolation, rollback d (d1\<lparr>db_entitlement_seq := db_entitlement_seq d + 1\<rparr>))
      else (Inr t, d1\<lparr>db_entitlement_seq := db_entitlement_seq d + 1, db_entitlements := db_entitlements d @ [row]\<rparr>))"
proof -
  have f1: "db_faults d1 = []" using calm by (simp add: d1_def)
  note ins = insert_prepared [OF p g f1]
  have aid: "e_account_id e' = e_account_id ent" using prepared_fields(4) [OF p g] by simp
  have tr: "too_soon (insert_trial (NormalizeEmail email) (e_account_id ent) ends nb) d =
      (if soon email nb d then (Inl ErrTrialTooSoon, d)
       else if e_account_id ent \<notin> ar_id ` set (db_accounts d) then (Inl ForeignKeyViolation, d\<lparr>db_trial_seq := db_trial_seq d + 1\<rparr>) else (Inr t, d1))"
    using calm by (simp add: too_soon_def insert_trial_def stmt_no_fault Let_def soon_def t_def d1_def)
  have pr: "prepared (db_now d) (ent\<lparr>e_valid_until := Some ends\<rparr>) = give (e', until, ext)" using p by (simp add: prepared_def)
  have dc: "driver_call x = (Inr (), x)" if "db_faults x = []" for x using that by (simp add: driver_call_def stmt_no_fault)
  have run: "CreateTrial (db_now d) email ends nb ent d =
      (case and_then (too_soon (insert_trial (NormalizeEmail email) (e_account_id ent) ends nb)) (\<lambda>t. and_then (insertEntitlement (e', until, ext)) (\<lambda>_. give t)) d of
         (Inl err, d2) \<Rightarrow> (Inl err, rollback d d2) | (Inr x, d2) \<Rightarrow> (case driver_call d2 of (Inl err, d3) \<Rightarrow> (Inl err, rollback d d3) | (Inr _, d3) \<Rightarrow> (Inr x, d3)))"
    unfolding CreateTrial_def pr and_then_give fst_conv aid transaction_def
    by (simp add: and_then_def dc [OF calm] give_def split: prod.split sum.split)
  have d1: "db_entitlement_seq d1 = db_entitlement_seq d" "db_now d1 = db_now d" "db_entitlements d1 = db_entitlements d" "db_accounts d1 = db_accounts d"
    by (simp_all add: d1_def)
  show ?thesis unfolding run by (simp add: and_then_def tr ins d1 give_def dc f1 row_def)
qed

lemma CreateTrial_both:
  fixes email0 :: string and nb :: time
  assumes r: "related m d" and g: "plain_grant (ent\<lparr>e_valid_until := Some ends\<rparr>)"
  defines "f \<equiv> \<lambda>m. let email = NormalizeEmail email0 in
       case mem_canonical m (ent\<lparr>e_valid_until := Some ends\<rparr>) of
         Inl err \<Rightarrow> (Inl err, m)
       | Inr ent \<Rightarrow>
           if list_ex (\<lambda>t. tr_patreon_email t = email \<and> nb < tr_granted_at t) (ms_trials m) then (Inl ErrTrialTooSoon, m)
           else if mem_account m (e_account_id ent) = None then (Inl ForeignKeyViolation, m)
           else entered CreateTrialEntitlement 0 (\<lambda>m.
               case checkColumns m ent of
                 Some err \<Rightarrow> (Inl err, m)
               | None \<Rightarrow>
                   if entByRef m (e_external_ref ent) \<noteq> None then (Inl UniqueViolation, m)
                   else case nextID ''trials'' m of (i, m') \<Rightarrow>
                     let t = \<lparr>tr_id = i, tr_patreon_email = email, tr_account_id = e_account_id ent, tr_granted_at = mem_now m, tr_ends_at = pgTime ends,
                              tr_reminder_sent_at = None\<rparr>
                     in (Inr (copyTrial t), snd (mem_insertEntitlement ent (m'\<lparr>ms_trials := ms_trials m @ [t]\<rparr>)))) m"
  shows "fst (f m) = fst (CreateTrial (db_now d) email0 ends nb ent d) \<and> sim (snd (f m)) (snd (CreateTrial (db_now d) email0 ends nb ent d)) \<and>
      (new_ref ent d \<longrightarrow> in_step (snd (f m)) (snd (CreateTrial (db_now d) email0 ends nb ent d)))"
proof (cases "prepareEntitlement (db_now d) (ent\<lparr>e_valid_until := Some ends\<rparr>)")
  case (Inl err)
  then show ?thesis using r mem_canonical_related [OF r g]
    by (simp add: f_def CreateTrial_def prepared_def and_then_def fail_def related_def)
next
  case (Inr p)
  obtain e' until ext where p: "p = (e', until, ext)" by (cases p)
  note prep = Inr [unfolded p]
  note fields = prepared_fields [OF prep g] and inr = prepareEntitlement_Inr [OF prep]
  note rel = related_tokens [OF r]
  define taken where "taken \<longleftrightarrow> e_external_ref ent \<noteq> [] \<and> e_external_ref ent \<in> e_external_ref ` set (db_entitlements d)"
  define known where "known \<longleftrightarrow> e_account_id ent \<in> ar_id ` set (db_accounts d)"
  define t where "t = \<lparr>tr_id = db_trial_seq d, tr_patreon_email = NormalizeEmail email0, tr_account_id = e_account_id ent, tr_granted_at = db_now d,
      tr_ends_at = ends, tr_reminder_sent_at = None\<rparr>"
  obtain c where c: "entered CreateTrialEntitlement 0 h m = h (m\<lparr>ms_calls := c\<rparr>)" for h :: "Trial mem_op"
    using enterID_calm [of m CreateTrialEntitlement 0] r by (auto simp: entered_def related_def sim_def)
  let ?m = "m\<lparr>ms_calls := c\<rparr>"
  let ?m1 = "?m\<lparr>ms_seq := AList.update ''trials'' (db_trial_seq d) (ms_seq ?m), ms_trials := db_trials d @ [t]\<rparr>"
  have rc: "related ?m d" using r by simp
  note db = CreateTrial_calm [OF rel(9) prep g, of email0 nb, folded taken_def, folded known_def, folded t_def]
  have same: "rollback d d = d" by (simp add: rollback_def)
  have ends: "pgTime ends = ends" using g by (simp add: plain_grant_def whole_def)
  have games: "e_games e' = e_games ent" using prepared_games [OF prep] by simp
  have sn: "list_ex (\<lambda>t. tr_patreon_email t = NormalizeEmail email0 \<and> nb < tr_granted_at t) (ms_trials m) \<longleftrightarrow> soon email0 nb d"
    using r by (simp add: soon_def related_def sim_def)
  have mem: "f m = (if soon email0 nb d then (Inl ErrTrialTooSoon, m) else if \<not> known then (Inl ForeignKeyViolation, m)
      else if e_games ent = [] then (Inl NotNullViolation, ?m) else if taken then (Inl UniqueViolation, ?m)
      else (Inr t, snd (mem_insertEntitlement e' ?m1)))"
    using mem_canonical_related [OF r g] prep mem_account_None [OF r] mem_account_None [OF rc] taken_related [OF rc] fields(4) inr(2) games sn
      mem_now_related [OF rc] ends rc [unfolded related_def sim_def in_step_def]
    by (simp add: f_def c checkColumns_def taken_def known_def nextID_def Let_def copyTrial_def t_def)
  have s: "sim m (rollback d x)" "sim ?m (rollback d x)" if "db_faults x = []" "db_trial_seq d \<le> db_trial_seq x" for x
    using sim_rollback [OF _ that] r rc by (simp_all add: related_def)
  have new: "new_ref ent d \<longleftrightarrow> e_games ent \<noteq> [] \<and> \<not> taken \<and> known" by (auto simp: new_ref_def taken_def known_def)
  show ?thesis
  proof (cases "soon email0 nb d \<or> \<not> (e_games ent \<noteq> [] \<and> \<not> taken \<and> known)")
    case True
    then show ?thesis unfolding db mem new using s rel(9,11,12) same by auto
  next
    case False
    have known: "e_account_id ent \<in> ar_id ` set (db_accounts d)" using False by (simp add: known_def)
    note ins = mem_insertEntitlement_sim [OF trial_row_related [OF rc known, of "NormalizeEmail email0" ends, folded t_def] fields(3)]
    then show ?thesis unfolding db mem using False by simp
  qed
qed

lemma agrees_CreateTrial:
  assumes "plain_grant (ent\<lparr>e_valid_until := Some ends\<rparr>)"
  shows "agrees always (Mem_CreateTrial email ends nb ent) (\<lambda>d. CreateTrial (db_now d) email ends nb ent d)"
    "follows (new_ref ent) (Mem_CreateTrial email ends nb ent) (\<lambda>d. CreateTrial (db_now d) email ends nb ent d)"
  unfolding Mem_CreateTrial_def by (rule agrees_entered follows_entered; use CreateTrial_both [OF _ assms] in blast)+

end
