(* ===== verification/MemStore_Reports.thy ===== *)
theory MemStore_Reports
  imports MemStore_Refines
begin

text \<open>
  The reports of the store in memory: sums kept in a map while the rows are read, against the client's \<open>GROUP BY\<close>. The groups come
  out of the map in any order; the sorts that follow order them completely.
\<close>

section \<open>Sorting by two keys\<close>

lemma sort_twice_unique:
  fixes f :: "'r \<Rightarrow> 'k :: linorder" and g :: "'r \<Rightarrow> 'l :: linorder"
  assumes "mset xs = mset ys" "inj_on (\<lambda>x. (f x, g x)) (set xs)"
  shows "sort_key f (sort_key g xs) = sort_key f (sort_key g ys)"
proof (rule properties_for_sort_key)
  show "mset (sort_key f (sort_key g ys)) = mset (sort_key g xs)" using assms(1) by simp
  show "sorted (map f (sort_key f (sort_key g ys)))" by simp
  fix k
  have "mset (filter (\<lambda>x. f k = f x) xs) = mset (filter (\<lambda>x. f k = f x) ys)" using assms(1) by simp
  moreover have "inj_on g (set (filter (\<lambda>x. f k = f x) xs))" using assms(2) by (auto simp: inj_on_def)
  ultimately have "sort_key g (filter (\<lambda>x. f k = f x) xs) = sort_key g (filter (\<lambda>x. f k = f x) ys)"
    by (intro sort_key_inj_key_eq) simp_all
  then show "filter (\<lambda>x. f k = f x) (sort_key f (sort_key g ys)) = filter (\<lambda>x. f k = f x) (sort_key g xs)"
    using sort_key_stable [of f "f k" "sort_key g ys"] by (simp add: filter_sort eq_commute)
qed

section \<open>Groups\<close>

lemma tally_lookup:
  assumes "\<And>u. zero u = row (g u) []" "\<And>u k xs. add u (row k xs) = row k (xs @ [u])"
  defines "rows \<equiv> \<lambda>us. foldl (\<lambda>rows u. tally (g u) (zero u) (add u) rows) [] us"
  shows "distinct (map fst (rows us)) \<and>
    map_of (rows us) k = (if k \<in> g ` set us then Some (row k (filter (\<lambda>u. g u = k) us)) else None)"
proof (induction us arbitrary: k rule: rev_induct)
  case Nil
  show ?case by (simp add: rows_def)
next
  case (snoc u us)
  have step: "rows (us @ [u]) = tally (g u) (zero u) (add u) (rows us)" by (simp add: rows_def)
  have "filter (\<lambda>x. g x = g u) us = []" if "g u \<notin> g ` set us" using that by (auto simp: filter_empty_conv image_iff)
  then show ?case unfolding step tally_def using snoc [of k] snoc [of "g u"] assms(1,2)
    by (auto simp: distinct_update update_conv')
qed

lemma tally_groups:
  assumes "\<And>u. zero u = row (g u) []" "\<And>u k xs. add u (row k xs) = row k (xs @ [u])"
  shows "mset (map snd (foldl (\<lambda>rows u. tally (g u) (zero u) (add u) rows) [] us)) = mset (map (\<lambda>(k, xs). row k xs) (group_by g us))"
proof -
  let ?rows = "foldl (\<lambda>rows u. tally (g u) (zero u) (add u) rows) [] us"
  let ?row = "\<lambda>k. row k (filter (\<lambda>u. g u = k) us)"
  note look = tally_lookup [of zero row g add us, OF assms]
  have dist: "distinct (map fst ?rows)" using look by blast
  have keys: "set (map fst ?rows) = g ` set us"
  proof -
    have "k \<in> set (map fst ?rows) \<longleftrightarrow> k \<in> g ` set us" for k using look [of k] map_of_eq_None_iff [of ?rows k] by (auto split: if_splits)
    then show ?thesis by blast
  qed
  have "snd p = ?row (fst p)" if "p \<in> set ?rows" for p
  proof -
    have "map_of ?rows (fst p) = Some (snd p)" using dist that by (simp add: map_of_eq_Some_iff)
    then show ?thesis using look [of "fst p"] by (auto split: if_splits)
  qed
  then have "map snd ?rows = map ?row (map fst ?rows)" by simp
  moreover have "mset (map fst ?rows) = mset (remdups (map g us))"
    using dist keys by (intro set_eq_iff_mset_eq_distinct [THEN iffD1]) simp_all
  from arg_cong [OF this, of "image_mset ?row"]
  have "mset (map ?row (map fst ?rows)) = mset (map ?row (remdups (map g us)))" by (simp only: mset_map)
  moreover have "map (\<lambda>(k, xs). row k xs) (group_by g us) = map ?row (remdups (map g us))" by (simp add: group_by_def)
  ultimately show ?thesis by (simp only:)
qed

lemma foldl_skip: "foldl (\<lambda>acc u. if C u then f acc u else acc) a us = foldl f a (filter C us)"
  by (induction us arbitrary: a) auto

lemma group_by_map: "group_by k (map h us) = map (\<lambda>(x, rs). (x, map h rs)) (group_by (k \<circ> h) us)"
  by (simp add: group_by_def filter_map comp_def)

lemma remdups_inj: "inj_on f (set xs) \<Longrightarrow> remdups (map f xs) = map f (remdups xs)"
  by (induction xs) (auto simp: inj_on_def)

lemma group_by_rename:
  assumes "\<And>u v. u \<in> set us \<Longrightarrow> v \<in> set us \<Longrightarrow> h (g u) = h (g v) \<Longrightarrow> g u = g v"
  shows "group_by (\<lambda>u. h (g u)) us = map (\<lambda>(k, rs). (h k, rs)) (group_by g us)"
proof -
  have "remdups (map (\<lambda>u. h (g u)) us) = map h (remdups (map g us))"
    using remdups_inj [of h "map g us"] assms by (auto simp: inj_on_def comp_def)
  moreover have "filter (\<lambda>u. h (g u) = h k) us = filter (\<lambda>u. g u = k) us" if "k \<in> set (remdups (map g us))" for k
    using that assms by (auto intro!: filter_cong)
  ultimately show ?thesis by (simp add: group_by_def)
qed

lemma inj_on_groups:
  assumes "\<And>u v xs ys. u \<in> set us \<Longrightarrow> v \<in> set us \<Longrightarrow> f (row (g u) xs) = f (row (g v) ys) \<Longrightarrow> g u = g v"
  shows "inj_on f (set (map (\<lambda>(k, xs). row k xs) (group_by g us)))"
proof (rule inj_onI)
  fix x y assume "x \<in> set (map (\<lambda>(k, xs). row k xs) (group_by g us))" "y \<in> set (map (\<lambda>(k, xs). row k xs) (group_by g us))" "f x = f y"
  moreover have "\<exists>u\<in>set us. z = row (g u) (filter (\<lambda>v. g v = g u) us)" if "z \<in> set (map (\<lambda>(k, xs). row k xs) (group_by g us))" for z
    using that unfolding group_by_def by auto
  ultimately show "x = y" using assms by metis
qed

section \<open>Paths\<close>

text \<open>What the reports read of a row, the column type does not change.\<close>

lemma usage_column_fields [simp]:
  "us_ts (usage_column u) = us_ts u" "us_key_id (usage_column u) = us_key_id u" "us_account_id (usage_column u) = us_account_id u"
  "us_game (usage_column u) = us_game u" "us_path (usage_column u) = us_path u" "us_status (usage_column u) = us_status u" "us_bytes (usage_column u) = us_bytes u"
  by (simp_all add: usage_column_def)

lemma total_errors_snoc: "total_errors (xs @ [u]) = total_errors xs + errorCount (us_status u)"
  by (simp add: total_errors_def errorCount_def)

lemma totals_column [simp]: "total_errors (map usage_column us) = total_errors us" "total_bytes (map usage_column us) = total_bytes us"
  by (simp_all add: total_errors_def total_bytes_def filter_map comp_def)

definition path_row :: "string \<Rightarrow> Usage list \<Rightarrow> PathUsageRow" where
  "path_row p us = \<lparr>pu_path = p, pu_requests = int (length us), pu_errors = total_errors us\<rparr>"

lemma related_usage: "related m d \<Longrightarrow> db_usage d = map usage_column (ms_usage m)"
  by (simp add: related_def sim_def)

lemma follows_TopPaths: "follows always (Mem_TopPaths since until kid limit) (TopPaths since until kid limit)"
  unfolding Mem_TopPaths_def TopPaths_def Let_def
proof (rule follows_read)
  fix m d assume r: "related m d"
  let ?C = "\<lambda>u. since \<le> us_ts u \<and> us_ts u < until \<and> us_key_id u = kid"
  let ?add = "\<lambda>u r. r\<lparr>pu_requests := pu_requests r + 1, pu_errors := pu_errors r + errorCount (us_status u)\<rparr>"
  let ?us = "filter ?C (ms_usage m)"
  let ?groups = "map (\<lambda>(k, xs). path_row k xs) (group_by us_path ?us)"
  have "paths_step since until kid = (\<lambda>rows u. if ?C u then tally (us_path u) (path_row (us_path u) []) (?add u) rows else rows)"
    by (auto simp: paths_step_def inWindow_def path_row_def total_errors_def fun_eq_iff)
  then have "foldl (paths_step since until kid) [] (ms_usage m) = foldl (\<lambda>rows u. tally (us_path u) (path_row (us_path u) []) (?add u) rows) [] ?us"
    by (simp only: foldl_skip)
  moreover have "mset (map snd (foldl (\<lambda>rows u. tally (us_path u) (path_row (us_path u) []) (?add u) rows) [] ?us)) = mset ?groups"
    by (rule tally_groups) (simp_all add: path_row_def total_errors_snoc)
  ultimately have groups: "mset ?groups = mset (map snd (foldl (paths_step since until kid) [] (ms_usage m)))" by simp
  have "inj_on (\<lambda>r. (- pu_requests r, pu_path r)) (set ?groups)"
    by (rule inj_on_groups) (simp add: path_row_def)
  note sorted = sort_twice_unique [OF groups this]
  have "filter ?C (db_usage d) = map usage_column ?us" using r by (simp add: related_usage [OF r] filter_map comp_def)
  then have db: "map (\<lambda>(p, us). \<lparr>pu_path = p, pu_requests = int (length us), pu_errors = total_errors us\<rparr>) (group_by us_path (filter ?C (db_usage d))) = ?groups"
    by (simp add: group_by_map comp_def case_prod_beta path_row_def)
  show "Inr (take (nat (if limit \<le> 0 then 10 else limit))
          (sort_key (\<lambda>r. - pu_requests r) (sort_key pu_path (map snd (foldl (paths_step since until kid) [] (ms_usage m)))))) =
      limited (if limit \<le> 0 then 10 else limit) (sort_key (\<lambda>r. - pu_requests r) (sort_key pu_path
        (map (\<lambda>(p, us). \<lparr>pu_path = p, pu_requests = int (length us), pu_errors = total_errors us\<rparr>) (group_by us_path (filter ?C (db_usage d))))))"
    unfolding db sorted by (simp add: limited_def)
qed

section \<open>Accounts and keys\<close>

text \<open>A join with a table of distinct ids finds at most one row.\<close>

lemma join_one:
  assumes "distinct (map key rows)"
  shows "concat (map (\<lambda>u. map (\<lambda>r. (u, h r)) (filter (\<lambda>r. key r = ref u) rows)) us) =
    map (\<lambda>u. (u, h (the (find (\<lambda>r. key r = ref u) rows)))) (filter (\<lambda>u. find (\<lambda>r. key r = ref u) rows \<noteq> None) us)"
proof (induction us)
  case (Cons u us)
  have "length (filter (\<lambda>r. key r = ref u) rows) \<le> 1" by (rule one_with_key [OF assms, of _ "ref u"])
  then show ?case using Cons by (auto simp: find_filter split: list.splits)
qed simp

lemma find_SomeD: "find P xs = Some x \<Longrightarrow> x \<in> set xs \<and> P x"
  by (induction xs) (auto split: if_splits)

lemma total_bytes_snoc: "total_bytes (xs @ [u]) = total_bytes xs + us_bytes u"
  by (simp add: total_bytes_def)

definition summary_row :: "(int \<Rightarrow> string) \<Rightarrow> int \<times> string \<Rightarrow> Usage list \<Rightarrow> UsageRow" where
  "summary_row email k us = \<lparr>ur_account_id = fst k, ur_email = email (fst k), ur_game = snd k, ur_requests = int (length us),
     ur_bytes = total_bytes us, ur_errors = total_errors us\<rparr>"

definition email_of :: "db \<Rightarrow> int \<Rightarrow> string" where
  "email_of d aid = ar_email (the (find (\<lambda>r. ar_id r = aid) (db_accounts d)))"

lemma email_of_inj:
  assumes "db_ok d" "aid \<in> ar_id ` set (db_accounts d)" "aid' \<in> ar_id ` set (db_accounts d)" "email_of d aid = email_of d aid'"
  shows "aid = aid'"
proof -
  have row: "\<exists>r\<in>set (db_accounts d). ar_id r = aid \<and> email_of d aid = ar_email r" if k: "aid \<in> ar_id ` set (db_accounts d)" for aid
  proof -
    have "find (\<lambda>r. ar_id r = aid) (db_accounts d) \<noteq> None" using k by (auto simp: find_None_iff)
    then obtain r where r: "find (\<lambda>r. ar_id r = aid) (db_accounts d) = Some r" by blast
    then show ?thesis using find_SomeD [OF r] by (auto simp: email_of_def)
  qed
  have "distinct (map ar_email (db_accounts d))" using assms(1) by (simp add: db_ok_def accounts_ok_def)
  then show ?thesis using row [OF assms(2)] row [OF assms(3)] assms(4) by (auto simp: distinct_map inj_on_def)
qed

lemma follows_SummarizeUsage: "follows always (Mem_SummarizeUsage since until aid) (SummarizeUsage since until aid)"
  unfolding Mem_SummarizeUsage_def SummarizeUsage_def Let_def
proof (rule follows_read)
  fix m d assume r: "related m d"
  have ok: "db_ok d" using r by (simp add: related_def)
  have ids: "distinct (map ar_id (db_accounts d))" using ok by (simp add: db_ok_def accounts_ok_def)
  let ?find = "\<lambda>u. find (\<lambda>r. ar_id r = us_account_id u) (db_accounts d)"
  let ?W = "\<lambda>u. since \<le> us_ts u \<and> us_ts u < until \<and> (aid = 0 \<or> us_account_id u = aid)"
  let ?C = "\<lambda>u. ?find u \<noteq> None \<and> ?W u"
  let ?add = "\<lambda>u r. r\<lparr>ur_requests := ur_requests r + 1, ur_bytes := ur_bytes r + us_bytes u, ur_errors := ur_errors r + errorCount (us_status u)\<rparr>"
  let ?us = "filter ?C (ms_usage m)" and ?g = "\<lambda>u. (us_account_id u, us_game u)"
  let ?row = "summary_row (email_of d)"
  let ?groups = "map (\<lambda>(k, xs). ?row k xs) (group_by ?g ?us)"
  have "summarize_step m since until aid = (\<lambda>rows u. if ?C u then tally (?g u) (?row (?g u) []) (?add u) rows else rows)"
    by (auto simp: summarize_step_def inWindow_def mem_account_sim [OF r] summary_row_def email_of_def total_errors_def total_bytes_def fun_eq_iff
        split: option.splits)
  then have "foldl (summarize_step m since until aid) [] (ms_usage m) = foldl (\<lambda>rows u. tally (?g u) (?row (?g u) []) (?add u) rows) [] ?us"
    by (simp only: foldl_skip)
  moreover have "mset (map snd (foldl (\<lambda>rows u. tally (?g u) (?row (?g u) []) (?add u) rows) [] ?us)) = mset ?groups"
    by (rule tally_groups) (simp_all add: summary_row_def total_errors_snoc total_bytes_snoc)
  ultimately have groups: "mset ?groups = mset (map snd (foldl (summarize_step m since until aid) [] (ms_usage m)))" by simp
  have known: "us_account_id u \<in> ar_id ` set (db_accounts d)" if "u \<in> set ?us" for u using that by (auto dest!: find_SomeD intro: rev_image_eqI)
  have "inj_on (\<lambda>r. (ur_email r, ur_game r)) (set ?groups)"
    by (rule inj_on_groups) (use email_of_inj [OF ok known known] in \<open>simp add: summary_row_def\<close>)
  note sorted = sort_twice_unique [OF groups this]
  show "Inr (sort_key ur_email (sort_key ur_game (map snd (foldl (summarize_step m since until aid) [] (ms_usage m))))) =
      Inr (sort_key ur_email (sort_key ur_game (map (\<lambda>((aid, email, game), us). \<lparr>ur_account_id = aid, ur_email = email, ur_game = game, ur_requests = int (length us),
             ur_bytes = total_bytes (map fst us), ur_errors = total_errors (map fst us)\<rparr>)
        (group_by (\<lambda>(u, email). (us_account_id u, email, us_game u))
          (concat (map (\<lambda>u. map (\<lambda>a. (u, ar_email a)) (filter (\<lambda>a. ar_id a = us_account_id u) (db_accounts d))) (usage_window d since until aid)))))))"
  proof -
    let ?h = "\<lambda>(a, g). (a, email_of d a, g)"
    have "filter (\<lambda>u. ?find u \<noteq> None) (usage_window d since until aid) = map usage_column ?us"
      by (simp add: usage_window_def related_usage [OF r] filter_map comp_def conj_ac)
    then have joined: "concat (map (\<lambda>u. map (\<lambda>a. (u, ar_email a)) (filter (\<lambda>a. ar_id a = us_account_id u) (db_accounts d))) (usage_window d since until aid)) =
        map (\<lambda>u. (usage_column u, email_of d (us_account_id u))) ?us"
      unfolding join_one [OF ids] by (simp add: email_of_def)
    have "group_by (\<lambda>u. ?h (?g u)) ?us = map (\<lambda>(k, rs). (?h k, rs)) (group_by ?g ?us)" by (rule group_by_rename) auto
    then have "map (\<lambda>((aid, email, game), us). \<lparr>ur_account_id = aid, ur_email = email, ur_game = game, ur_requests = int (length us),
             ur_bytes = total_bytes (map fst us), ur_errors = total_errors (map fst us)\<rparr>)
        (group_by (\<lambda>(u, email). (us_account_id u, email, us_game u)) (map (\<lambda>u. (usage_column u, email_of d (us_account_id u))) ?us)) = ?groups"
      by (simp add: group_by_map comp_def case_prod_beta summary_row_def)
    then show ?thesis unfolding joined using sorted by simp
  qed
qed

definition key_row :: "(int \<Rightarrow> Key) \<Rightarrow> int \<times> time \<Rightarrow> Usage list \<Rightarrow> KeyUsageRow" where
  "key_row key k us = \<lparr>ku_key_id = fst k, ku_prefix = k_prefix (key (fst k)), ku_label = k_label (key (fst k)), ku_day = snd k,
     ku_requests = int (length us), ku_bytes = total_bytes us, ku_errors = total_errors us\<rparr>"

definition key_of :: "db \<Rightarrow> int \<Rightarrow> Key" where
  "key_of d kid = the (find (\<lambda>k. k_id k = kid) (db_keys d))"

lemma filter_one:
  assumes "distinct (map key rows)"
  shows "filter (\<lambda>r. key r = k) rows = (case find (\<lambda>r. key r = k) rows of None \<Rightarrow> [] | Some r \<Rightarrow> [r])"
  using one_with_key [OF assms, of "\<lambda>r. key r = k" k] by (auto simp: find_filter split: list.splits)

lemma follows_UsageByKey: "follows always (Mem_UsageByKey since until aid) (UsageByKey since until aid)"
  unfolding Mem_UsageByKey_def UsageByKey_def Let_def
proof (rule follows_read)
  fix m d assume r: "related m d"
  have ids: "distinct (map k_id (db_keys d))" and ks: "ms_keys m = db_keys d" using r by (simp_all add: related_def sim_def db_ok_def keys_ok_def)
  let ?find = "\<lambda>u. find (\<lambda>k. k_id k = us_key_id u) (db_keys d)"
  let ?W = "\<lambda>u. since \<le> us_ts u \<and> us_ts u < until \<and> (aid = 0 \<or> us_account_id u = aid)"
  let ?C = "\<lambda>u. ?find u \<noteq> None \<and> ?W u"
  let ?add = "\<lambda>u r. r\<lparr>ku_requests := ku_requests r + 1, ku_bytes := ku_bytes r + us_bytes u, ku_errors := ku_errors r + errorCount (us_status u)\<rparr>"
  let ?us = "filter ?C (ms_usage m)" and ?g = "\<lambda>u. (us_key_id u, us_ts u div day * day)"
  let ?row = "key_row (key_of d)"
  let ?groups = "map (\<lambda>(k, xs). ?row k xs) (group_by ?g ?us)"
  have "by_key_step m since until aid rows u = (if ?C u then tally (?g u) (?row (?g u) []) (?add u) rows else rows)" for rows u
  proof (cases "?find u")
    case None
    then show ?thesis by (simp add: by_key_step_def ks filter_one [OF ids])
  next
    case (Some k)
    then have "k_id k = us_key_id u" using find_SomeD by fastforce
    then show ?thesis using Some
      by (simp add: by_key_step_def ks filter_one [OF ids] Let_def inWindow_def key_row_def key_of_def total_errors_def total_bytes_def not_less)
  qed
  then have "by_key_step m since until aid = (\<lambda>rows u. if ?C u then tally (?g u) (?row (?g u) []) (?add u) rows else rows)" by (intro ext)
  then have "foldl (by_key_step m since until aid) [] (ms_usage m) = foldl (\<lambda>rows u. tally (?g u) (?row (?g u) []) (?add u) rows) [] ?us"
    by (simp only: foldl_skip)
  moreover have "mset (map snd (foldl (\<lambda>rows u. tally (?g u) (?row (?g u) []) (?add u) rows) [] ?us)) = mset ?groups"
    by (rule tally_groups) (simp_all add: key_row_def total_errors_snoc total_bytes_snoc)
  ultimately have groups: "mset ?groups = mset (map snd (foldl (by_key_step m since until aid) [] (ms_usage m)))" by simp
  have "inj_on (\<lambda>r. (ku_key_id r, ku_day r)) (set ?groups)" by (rule inj_on_groups) (simp add: key_row_def)
  note sorted = sort_twice_unique [OF groups this]
  let ?h = "\<lambda>(k, dy). (k, k_prefix (key_of d k), k_label (key_of d k), dy)"
  have "filter (\<lambda>u. ?find u \<noteq> None) (usage_window d since until aid) = map usage_column ?us"
    by (simp add: usage_window_def related_usage [OF r] filter_map comp_def conj_ac)
  then have joined: "concat (map (\<lambda>u. map (\<lambda>k. (u, k)) (filter (\<lambda>k. k_id k = us_key_id u) (db_keys d))) (usage_window d since until aid)) =
      map (\<lambda>u. (usage_column u, key_of d (us_key_id u))) ?us"
    unfolding join_one [OF ids, where h = "\<lambda>k. k"] by (simp add: key_of_def)
  have "group_by (\<lambda>u. ?h (?g u)) ?us = map (\<lambda>(k, rs). (?h k, rs)) (group_by ?g ?us)" by (rule group_by_rename) auto
  then have "map (\<lambda>((kid, prefix, label, day), us). \<lparr>ku_key_id = kid, ku_prefix = prefix, ku_label = label, ku_day = day,
           ku_requests = int (length us), ku_bytes = total_bytes (map fst us), ku_errors = total_errors (map fst us)\<rparr>)
      (group_by (\<lambda>(u, k). (us_key_id u, k_prefix k, k_label k, us_ts u div day * day)) (map (\<lambda>u. (usage_column u, key_of d (us_key_id u))) ?us)) = ?groups"
    by (simp add: group_by_map comp_def case_prod_beta key_row_def)
  then show "Inr (sort_key ku_key_id (sort_key ku_day (map snd (foldl (by_key_step m since until aid) [] (ms_usage m))))) =
      Inr (sort_key ku_key_id (sort_key ku_day (map (\<lambda>((kid, prefix, label, day), us). \<lparr>ku_key_id = kid, ku_prefix = prefix, ku_label = label, ku_day = day,
             ku_requests = int (length us), ku_bytes = total_bytes (map fst us), ku_errors = total_errors (map fst us)\<rparr>)
        (group_by (\<lambda>(u, k). (us_key_id u, k_prefix k, k_label k, us_ts u div day * day))
          (concat (map (\<lambda>u. map (\<lambda>k. (u, k)) (filter (\<lambda>k. k_id k = us_key_id u) (db_keys d))) (usage_window d since until aid)))))))"
    unfolding joined using sorted by simp
qed

section \<open>The latest trial, and demo access\<close>

definition first_row :: "'r list \<Rightarrow> 'r option" where
  "first_row rows = (case rows of [] \<Rightarrow> None | r # _ \<Rightarrow> Some r)"

lemma first_row_insort:
  "first_row (insort_key k l rows) = (case first_row rows of None \<Rightarrow> Some l | Some x \<Rightarrow> if k l \<le> k x then Some l else Some x)"
  by (cases rows) (simp_all add: first_row_def)

definition newer :: "('r \<Rightarrow> int) \<Rightarrow> ('r \<Rightarrow> bool) \<Rightarrow> 'r option \<Rightarrow> 'r \<Rightarrow> 'r option" where
  "newer f P lst t = (if P t \<and> (case lst of None \<Rightarrow> True | Some l \<Rightarrow> f l < f t) then Some t else lst)"

lemma newer_step [simp]: "newer f P None t = (if P t then Some t else None)" "newer f P (Some l) t = (if P t \<and> f l < f t then Some t else Some l)"
  by (simp_all add: newer_def)

lemma newest_from: "foldl (newer f P) (Some l) ts = first_row (sort_key (\<lambda>t. - f t) (l # filter P ts))"
proof (induction ts arbitrary: l)
  case (Cons t ts)
  show ?case
  proof (cases "P t")
    case True
    then show ?thesis using Cons [of t] Cons [of l]
      by (cases "first_row (sort_key (\<lambda>t. - f t) (filter P ts))") (auto simp: first_row_insort)
  next
    case False
    then show ?thesis using Cons [of l] by simp
  qed
qed (simp add: first_row_def)

lemma newest: "foldl (newer f P) None ts = first_row (sort_key (\<lambda>t. - f t) (filter P ts))"
proof (induction ts)
  case (Cons t ts)
  then show ?case using newest_from [of f P t ts] by simp
qed (simp add: first_row_def)

text \<open>Of trials granted at one moment the memory takes the last and the client's order leaves it open.\<close>

definition one_at_a_time :: "string \<Rightarrow> db \<Rightarrow> bool" where
  "one_at_a_time email d \<longleftrightarrow> distinct (map tr_granted_at (filter (\<lambda>t. tr_patreon_email t = NormalizeEmail email) (db_trials d)))"

lemma later_newer:
  assumes "distinct (map tr_granted_at (filter (\<lambda>t. tr_patreon_email t = email) ts))"
    "\<forall>l. lst = Some l \<longrightarrow> tr_granted_at l \<notin> tr_granted_at ` {t \<in> set ts. tr_patreon_email t = email}"
  shows "foldl (later_trial email) lst ts = foldl (newer tr_granted_at (\<lambda>t. tr_patreon_email t = email)) lst ts"
  using assms
proof (induction ts arbitrary: lst)
  case (Cons t ts)
  have "later_trial email lst t = newer tr_granted_at (\<lambda>t. tr_patreon_email t = email) lst t"
    using Cons.prems(2) by (auto simp: later_trial_def newer_def not_less image_iff split: option.splits)
  moreover have "\<forall>l. later_trial email lst t = Some l \<longrightarrow> tr_granted_at l \<notin> tr_granted_at ` {t \<in> set ts. tr_patreon_email t = email}"
    using Cons.prems by (auto simp: later_trial_def image_iff split: if_splits)
  moreover have "distinct (map tr_granted_at (filter (\<lambda>t. tr_patreon_email t = email) ts))" using Cons.prems(1) by (simp split: if_splits)
  ultimately show ?case using Cons.IH [of "later_trial email lst t"] by simp
qed simp

lemma follows_LastTrial: "follows (one_at_a_time email) (Mem_LastTrial email) (LastTrial email)"
  unfolding Mem_LastTrial_def
proof (rule follows_entered)
  fix m d assume r: "related m d" and one: "one_at_a_time email d"
  let ?P = "\<lambda>t. tr_patreon_email t = NormalizeEmail email"
  have ts: "ms_trials m = db_trials d" "\<forall>t\<in>set (db_trials d). copyTrial t = t" "db_faults d = []" "sim m d" "in_step m d"
    using r by (simp_all add: related_def sim_def rounded_def copyTrial_whole)
  let ?found = "first_row (sort_key (\<lambda>t. - tr_granted_at t) (filter ?P (db_trials d)))"
  have "foldl (later_trial (NormalizeEmail email)) None (ms_trials m) = ?found"
    unfolding ts(1) newest [symmetric] using one by (intro later_newer) (simp_all add: one_at_a_time_def)
  moreover have "map_option copyTrial ?found = ?found"
  proof (cases "sort_key (\<lambda>t. - tr_granted_at t) (filter ?P (db_trials d))")
    case (Cons t rest)
    then have "t \<in> set (sort_key (\<lambda>t. - tr_granted_at t) (filter ?P (db_trials d)))" by (simp only: list.set_intros)
    then have "t \<in> set (db_trials d)" by simp
    then show ?thesis using ts(2) Cons by (simp add: first_row_def)
  qed (simp add: first_row_def)
  ultimately have "found (map_option copyTrial (foldl (later_trial (NormalizeEmail email)) None (ms_trials m))) = fst (LastTrial email d)"
    using ts(3) by (auto simp: LastTrial_def stmt_no_fault found_def one_row_def first_row_def split: list.splits)
  moreover have "snd (LastTrial email d) = d" using ts(3) by (simp add: LastTrial_def stmt_no_fault)
  ultimately show "fst (found (map_option copyTrial (foldl (later_trial (NormalizeEmail email)) None (ms_trials m))), m) = fst (LastTrial email d) \<and>
      sim (snd (found (map_option copyTrial (foldl (later_trial (NormalizeEmail email)) None (ms_trials m))), m)) (snd (LastTrial email d)) \<and>
      in_step (snd (found (map_option copyTrial (foldl (later_trial (NormalizeEmail email)) None (ms_trials m))), m)) (snd (LastTrial email d))"
    using ts(4,5) by simp
qed

lemma map_filter_join:
  assumes "distinct (map key rows)" "\<And>e r. e \<in> set es \<Longrightarrow> f e (h r) = g e r"
  shows "List.map_filter (\<lambda>e. map_option (f e) (map_option h (find (\<lambda>r. key r = ref e) rows))) es =
    concat (map (\<lambda>e. map (g e) (filter (\<lambda>r. key r = ref e) rows)) es)"
  using assms(2)
proof (induction es)
  case (Cons e es)
  then show ?case using filter_one [OF assms(1), of "ref e"] by (auto simp: map_filter_simps split: option.splits)
qed (simp add: map_filter_simps)

lemma no_last_use: "\<forall>k\<in>set ks. k_last_used_at k = None \<Longrightarrow> max_time (map k_last_used_at ks) = None"
  by (induction ks) (auto simp: max_time_def)

lemma follows_ListDemoAccess: "follows always Mem_ListDemoAccess ListDemoAccess"
  unfolding Mem_ListDemoAccess_def ListDemoAccess_def Let_def
proof (rule follows_read)
  fix m d assume r: "related m d"
  note sim = r [unfolded related_def sim_def]
  have ids: "distinct (map ar_id (db_accounts d))" using sim by (simp add: db_ok_def accounts_ok_def)
  let ?shown = "filter (\<lambda>e. e_status e = EntitlementActive \<and> (e_source e = SourceTrial \<or> e_source e = SourceManual) \<and>
               (case e_valid_until e of None \<Rightarrow> True | Some u \<Rightarrow> db_now d < u)) (db_entitlements d)"
  let ?live = "\<lambda>aid. filter (\<lambda>k. k_account_id k = aid \<and> k_revoked_at k = None) (db_keys d)"
  let ?requester = "\<lambda>aid. case sort_key (\<lambda>t. - tr_granted_at t) (filter (\<lambda>t. tr_account_id t = aid) (db_trials d)) of [] \<Rightarrow> [] | t # _ \<Rightarrow> tr_patreon_email t"
  let ?row = "\<lambda>e a. \<lparr>da_account_id = e_account_id e, da_email = ar_email a, da_source = e_source e,
       da_requester = (if e_source e = SourceTrial then ?requester (e_account_id e) else []), da_note = e_note e,
       da_granted_at = e_valid_from e, da_ends_at = e_valid_until e, da_keys = int (length (?live (e_account_id e))),
       da_last_used = max_time (map k_last_used_at (?live (e_account_id e)))\<rparr>"
  have "latest_trial aid = newer tr_granted_at (\<lambda>t. tr_account_id t = aid)" for aid by (intro ext) (simp add: latest_trial_def newer_def)
  then have requester: "(case foldl (latest_trial aid) None (db_trials d) of Some t \<Rightarrow> tr_patreon_email t | None \<Rightarrow> []) = ?requester aid" for aid
    by (simp add: newest first_row_def split: list.split)
  have row: "demo_row m e (scanAccount a) = ?row e a" if "e \<in> set ?shown" for e a
  proof -
    have "max_time (map k_last_used_at (?live (e_account_id e))) = None" using sim by (intro no_last_use) (simp add: rounded_def)
    moreover have "map_option pgTime (e_valid_until e) = e_valid_until e" using sim that by (simp add: rounded_def whole_def)
    ultimately show ?thesis using sim requester by (simp add: demo_row_def)
  qed
  have "List.map_filter (\<lambda>e. map_option (demo_row m e) (mem_account m (e_account_id e))) ?shown =
      concat (map (\<lambda>e. map (?row e) (filter (\<lambda>a. ar_id a = e_account_id e) (db_accounts d))) ?shown)"
    unfolding mem_account_sim [OF r] by (rule map_filter_join [OF ids]) (rule row)
  moreover have "ms_ents m = db_entitlements d" "ms_now m = db_now d" using sim by simp_all
  ultimately show "Inr (sort_key (\<lambda>r. - da_granted_at r) (List.map_filter (\<lambda>e. map_option (demo_row m e) (mem_account m (e_account_id e)))
        (filter (\<lambda>e. e_status e = EntitlementActive \<and> (e_source e = SourceTrial \<or> e_source e = SourceManual) \<and>
             (case e_valid_until e of None \<Rightarrow> True | Some u \<Rightarrow> ms_now m < u)) (ms_ents m)))) =
      Inr (sort_key (\<lambda>r. - da_granted_at r) (concat (map (\<lambda>e. map (?row e) (filter (\<lambda>a. ar_id a = e_account_id e) (db_accounts d))) ?shown)))"
    by (simp only:)
qed

end
