(* ===== verification/MemStore_Runs.thy ===== *)
theory MemStore_Runs
  imports MemStore_Reports
begin

text \<open>
  Runs of the store in memory beside the client: the calls that change tables, made on both with the same arguments, from the
  empty store on, as the clock moves.
\<close>

section \<open>One call on both\<close>

datatype store_answer =
    told_account Account
  | told_text string
  | told_done
  | told_number int
  | told_flag bool
  | told_key Key
  | told_new_key "string \<times> Key"
  | told_entitlement Entitlement
  | told_invite Invite
  | told_new_invite "string \<times> Invite"
  | told_trial Trial

definition tell :: "('a \<Rightarrow> store_answer) \<Rightarrow> (access_error + 'a) \<times> 's \<Rightarrow> (access_error + store_answer) \<times> 's" where
  "tell told r = (map_sum id told (fst r), snd r)"

abbreviation tell_done :: "(access_error + unit) \<times> 's \<Rightarrow> (access_error + store_answer) \<times> 's" where
  "tell_done \<equiv> tell (\<lambda>_. told_done)"

text \<open>The client's answer to a call, with the tables \<open>run_call\<close> leaves.\<close>

fun client_call :: "store_call \<Rightarrow> db \<Rightarrow> (access_error + store_answer) \<times> db" where
  "client_call (call_CreateAccount email note) d = tell told_account (CreateAccount email note d)"
| "client_call (call_GetOrCreateAccount email note) d = tell told_account (GetOrCreateAccount email note d)"
| "client_call (call_SetAccountStatus aid status) d = tell_done (SetAccountStatus aid status d)"
| "client_call (call_SetStripeCustomerID aid customer) d = tell told_text (SetStripeCustomerID aid customer d)"
| "client_call (call_SetAccountNote aid note) d = tell_done (SetAccountNote aid note d)"
| "client_call (call_BumpSessionEpoch aid) d = tell told_number (BumpSessionEpoch aid d)"
| "client_call (call_CreateKey rands aid label kind) d = tell told_new_key (CreateKey rands aid label kind d)"
| "client_call (call_RevokeKey kid aid) d = tell told_key (RevokeKey kid aid d)"
| "client_call (call_RevokeKeyByPrefix prefix) d = tell told_key (RevokeKeyByPrefix prefix d)"
| "client_call (call_TouchKeys seen) d = tell_done (TouchKeys seen d)"
| "client_call (call_AddEntitlement now e) d = tell told_entitlement (AddEntitlement now e d)"
| "client_call (call_UpsertStripeEntitlement now e) d = tell told_entitlement (UpsertStripeEntitlement now e d)"
| "client_call (call_EndEntitlement eid aid at) d = tell told_entitlement (EndEntitlement eid aid at d)"
| "client_call (call_CreateInvite rand now interval email ttl note) d = tell told_new_invite (CreateInvite rand now interval email ttl note d)"
| "client_call (call_ConsumeInvite token email now) d = tell told_invite (ConsumeInvite token email now d)"
| "client_call (call_ReleaseInvite token) d = tell_done (ReleaseInvite token d)"
| "client_call (call_PruneInvites before) d = tell told_number (PruneInvites before d)"
| "client_call (call_CreateMagicLink rand now aid ttl) d = tell told_text (CreateMagicLink rand now aid ttl d)"
| "client_call (call_ConsumeMagicLink token now) d = tell told_account (ConsumeMagicLink token now d)"
| "client_call (call_DeleteMagicLink token) d = tell_done (DeleteMagicLink token d)"
| "client_call (call_ConsumeNonce nonce expires now) d = tell_done (ConsumeNonce nonce expires now d)"
| "client_call (call_BeginStripeEvent eid kind) d = tell told_flag (BeginStripeEvent eid kind d)"
| "client_call (call_FinishStripeEvent eid) d = tell_done (FinishStripeEvent eid d)"
| "client_call (call_DeleteStripeEvent eid) d = tell_done (DeleteStripeEvent eid d)"
| "client_call (call_PruneStripeEvents before) d = tell told_number (PruneStripeEvents before d)"
| "client_call (call_CreateTrial now email ends nb ent) d = tell told_trial (CreateTrial now email ends nb ent d)"
| "client_call (call_MarkTrialReminded tid at) d = tell_done (MarkTrialReminded tid at d)"
| "client_call (call_RecordAdminAction actor action aid target detail) d = tell_done (RecordAdminAction actor action aid target detail d)"
| "client_call (call_PruneAdminActions before) d = tell told_number (PruneAdminActions before d)"
| "client_call (call_InsertUsage us) d = tell_done (InsertUsage us d)"
| "client_call (call_PruneUsage before) d = tell told_number (PruneUsage before d)"

lemma client_call_state: "snd (client_call c d) = run_call c d"
  by (cases c) (simp_all add: tell_def effect_def)

text \<open>The memory has no pruning and no last use; its clock gives the times the client passes as now.\<close>

fun mem_call :: "store_call \<Rightarrow> MemStore \<Rightarrow> ((access_error + store_answer) \<times> MemStore) option" where
  "mem_call (call_CreateAccount email note) m = Some (tell told_account (Mem_CreateAccount email note m))"
| "mem_call (call_GetOrCreateAccount email note) m = Some (tell told_account (Mem_GetOrCreateAccount email note m))"
| "mem_call (call_SetAccountStatus aid status) m = Some (tell_done (Mem_SetAccountStatus aid status m))"
| "mem_call (call_SetStripeCustomerID aid customer) m = Some (tell told_text (Mem_SetStripeCustomerID aid customer m))"
| "mem_call (call_SetAccountNote aid note) m = Some (tell_done (Mem_SetAccountNote aid note m))"
| "mem_call (call_BumpSessionEpoch aid) m = Some (tell told_number (Mem_BumpSessionEpoch aid m))"
| "mem_call (call_CreateKey rands aid label kind) m = Some (tell told_new_key (Mem_CreateKey rands aid label kind m))"
| "mem_call (call_RevokeKey kid aid) m = Some (tell told_key (Mem_RevokeKey kid aid m))"
| "mem_call (call_RevokeKeyByPrefix prefix) m = Some (tell told_key (Mem_RevokeKeyByPrefix prefix m))"
| "mem_call (call_TouchKeys seen) m = None"
| "mem_call (call_AddEntitlement now e) m = Some (tell told_entitlement (Mem_AddEntitlement e m))"
| "mem_call (call_UpsertStripeEntitlement now e) m = Some (tell told_entitlement (Mem_UpsertStripeEntitlement e m))"
| "mem_call (call_EndEntitlement eid aid at) m = Some (tell told_entitlement (Mem_EndEntitlement eid aid at m))"
| "mem_call (call_CreateInvite rand now interval email ttl note) m = Some (tell told_new_invite (Mem_CreateInvite rand interval email ttl note m))"
| "mem_call (call_ConsumeInvite token email now) m = Some (tell told_invite (Mem_ConsumeInvite token email now m))"
| "mem_call (call_ReleaseInvite token) m = Some (tell_done (Mem_ReleaseInvite token m))"
| "mem_call (call_PruneInvites before) m = None"
| "mem_call (call_CreateMagicLink rand now aid ttl) m = Some (tell told_text (Mem_CreateMagicLink rand aid ttl m))"
| "mem_call (call_ConsumeMagicLink token now) m = Some (tell told_account (Mem_ConsumeMagicLink token now m))"
| "mem_call (call_DeleteMagicLink token) m = Some (tell_done (Mem_DeleteMagicLink token m))"
| "mem_call (call_ConsumeNonce nonce expires now) m = Some (tell_done (Mem_ConsumeNonce nonce expires now m))"
| "mem_call (call_BeginStripeEvent eid kind) m = Some (tell told_flag (Mem_BeginStripeEvent eid kind m))"
| "mem_call (call_FinishStripeEvent eid) m = Some (tell_done (Mem_FinishStripeEvent eid m))"
| "mem_call (call_DeleteStripeEvent eid) m = Some (tell_done (Mem_DeleteStripeEvent eid m))"
| "mem_call (call_PruneStripeEvents before) m = None"
| "mem_call (call_CreateTrial now email ends nb ent) m = Some (tell told_trial (Mem_CreateTrial email ends nb ent m))"
| "mem_call (call_MarkTrialReminded tid at) m = Some (tell_done (Mem_MarkTrialReminded tid at m))"
| "mem_call (call_RecordAdminAction actor action aid target detail) m = Some (tell_done (Mem_RecordAdminAction actor action aid target detail m))"
| "mem_call (call_PruneAdminActions before) m = None"
| "mem_call (call_InsertUsage us) m = Some (tell_done (Mem_InsertUsage us m))"
| "mem_call (call_PruneUsage before) m = None"

text \<open>
  What the tests' calls meet: times of microsecond precision, a now that is the database's, known sources and statuses, new random
  draws, no blank customer id, and not a reference that is taken together with an account that is not there.
\<close>

fun meets :: "store_call \<Rightarrow> db \<Rightarrow> bool" where
  "meets (call_SetStripeCustomerID aid customer) d \<longleftrightarrow> customer \<noteq> []"
| "meets (call_CreateKey rands aid label kind) d \<longleftrightarrow> fresh_draw kind (rands 3) d"
| "meets (call_AddEntitlement now e) d \<longleftrightarrow> now = db_now d \<and> plain_grant e \<and> one_conflict e d"
| "meets (call_UpsertStripeEntitlement now e) d \<longleftrightarrow> now = db_now d \<and> plain_grant e"
| "meets (call_EndEntitlement eid aid at) d \<longleftrightarrow> pgTime at = at"
| "meets (call_CreateInvite rand now interval email ttl note) d \<longleftrightarrow> now = db_now d \<and> pgTime ttl = ttl \<and> fresh_invite rand d"
| "meets (call_ConsumeInvite token email now) d \<longleftrightarrow> pgTime now = now"
| "meets (call_CreateMagicLink rand now aid ttl) d \<longleftrightarrow> now = db_now d \<and> pgTime ttl = ttl \<and> fresh_link rand d"
| "meets (call_ConsumeNonce nonce expires now) d \<longleftrightarrow> pgTime expires = expires"
| "meets (call_CreateTrial now email ends nb ent) d \<longleftrightarrow> now = db_now d \<and> plain_grant (ent\<lparr>e_valid_until := Some ends\<rparr>)"
| "meets (call_MarkTrialReminded tid at) d \<longleftrightarrow> pgTime at = at"
| "meets (call_InsertUsage us) d \<longleftrightarrow> list_all (\<lambda>u. pgTime (us_ts u) = us_ts u) us"
| "meets (call_TouchKeys seen) d \<longleftrightarrow> False"
| "meets (call_PruneInvites before) d \<longleftrightarrow> False"
| "meets (call_PruneStripeEvents before) d \<longleftrightarrow> False"
| "meets (call_PruneAdminActions before) d \<longleftrightarrow> False"
| "meets (call_PruneUsage before) d \<longleftrightarrow> False"
| "meets _ d \<longleftrightarrow> True"

text \<open>The inserts that draw the same numbers on both sides: those that add their row.\<close>

fun adds :: "store_call \<Rightarrow> db \<Rightarrow> bool" where
  "adds (call_CreateAccount email note) d \<longleftrightarrow> NormalizeEmail email \<notin> ar_email ` set (db_accounts d)"
| "adds (call_GetOrCreateAccount email note) d \<longleftrightarrow> NormalizeEmail email \<notin> ar_email ` set (db_accounts d)"
| "adds (call_CreateKey rands aid label kind) d \<longleftrightarrow> aid \<in> ar_id ` set (db_accounts d)"
| "adds (call_AddEntitlement now e) d \<longleftrightarrow> new_ref e d"
| "adds (call_UpsertStripeEntitlement now e) d \<longleftrightarrow> new_ref e d"
| "adds (call_CreateTrial now email ends nb ent) d \<longleftrightarrow> new_ref ent d"
| "adds _ d \<longleftrightarrow> True"

section \<open>Simulation\<close>

lemma follows_new_account:
  "follows (\<lambda>d. NormalizeEmail email \<notin> ar_email ` set (db_accounts d)) (Mem_CreateAccount email note) (CreateAccount email note)"
  "follows (\<lambda>d. NormalizeEmail email \<notin> ar_email ` set (db_accounts d)) (Mem_GetOrCreateAccount email note) (GetOrCreateAccount email note)"
proof -
  let ?P = "\<lambda>d. NormalizeEmail email \<notin> ar_email ` set (db_accounts d)"
  have none: "find (\<lambda>r. ar_email r = NormalizeEmail email) (db_accounts d) = None" if "?P d" for d using that by (auto simp: find_None_iff image_iff)
  then have free: "filter (\<lambda>r. ar_email r = NormalizeEmail email) (db_accounts d) = []" if "?P d" for d
    using that by (auto simp: filter_empty_conv image_iff)
  show "follows ?P (Mem_CreateAccount email note) (CreateAccount email note)" unfolding Mem_CreateAccount_def
  proof (rule follows_entered)
    fix m d assume r: "related m d" and p: "?P d"
    show "fst (if accountByEmail m email \<noteq> None then (Inl UniqueViolation, m) else insertAccount email note m) = fst (CreateAccount email note d) \<and>
        sim (snd (if accountByEmail m email \<noteq> None then (Inl UniqueViolation, m) else insertAccount email note m)) (snd (CreateAccount email note d)) \<and>
        in_step (snd (if accountByEmail m email \<noteq> None then (Inl UniqueViolation, m) else insertAccount email note m)) (snd (CreateAccount email note d))"
      using insertAccount_sim [OF r, of email "note"] none [OF p] by (simp add: CreateAccount_calm [OF r] accountByEmail_sim [OF r])
  qed
  show "follows ?P (Mem_GetOrCreateAccount email note) (GetOrCreateAccount email note)" unfolding Mem_GetOrCreateAccount_def
  proof (rule follows_entered)
    fix m d assume r: "related m d" and p: "?P d"
    have "db_faults d = []" using r by (simp add: related_def sim_def)
    then show "fst (case accountByEmail m email of Some a \<Rightarrow> (Inr a, m) | None \<Rightarrow> insertAccount email note m) = fst (GetOrCreateAccount email note d) \<and>
        sim (snd (case accountByEmail m email of Some a \<Rightarrow> (Inr a, m) | None \<Rightarrow> insertAccount email note m)) (snd (GetOrCreateAccount email note d)) \<and>
        in_step (snd (case accountByEmail m email of Some a \<Rightarrow> (Inr a, m) | None \<Rightarrow> insertAccount email note m)) (snd (GetOrCreateAccount email note d))"
      using insertAccount_sim [OF r, of email "note"] none [OF p] free [OF p]
      by (simp add: GetOrCreateAccount_def stmt_no_fault Let_def email_check_normalized accountByEmail_sim [OF r])
  qed
qed

lemma agreesD: "related m d \<Longrightarrow> agrees P f g \<Longrightarrow> P d \<Longrightarrow> fst (f m) = fst (g d) \<and> sim (snd (f m)) (snd (g d))"
  by (simp add: agrees_def)

lemma followsD: "related m d \<Longrightarrow> follows P f g \<Longrightarrow> P d \<Longrightarrow> fst (f m) = fst (g d) \<and> sim (snd (f m)) (snd (g d)) \<and> in_step (snd (f m)) (snd (g d))"
  by (simp add: follows_def agrees_def keeps_step_def)

lemmas unconditional = follows_account_updates follows_status follows_revokes follows_log(1) follows_ReleaseInvite follows_ConsumeMagicLink follows_deletes
  follows_BeginStripeEvent follows_FinishStripeEvent

lemmas conditional = follows_customer follows_EndEntitlement follows_ConsumeInvite follows_ConsumeNonce follows_reminded follows_InsertUsage
  follows_CreateInvite follows_CreateMagicLink

lemmas inserts = agrees_new_account agrees_CreateKey(1) agrees_AddEntitlement(1) agrees_Upsert(1) agrees_CreateTrial(1)

lemmas drawing = follows_new_account agrees_CreateKey(2) agrees_AddEntitlement(2) agrees_Upsert(2) agrees_CreateTrial(2)

lemma mem_call_agrees:
  assumes r: "related m d" and c: "meets c d"
  obtains m' where "mem_call c m = Some (fst (client_call c d), m')" "sim m' (run_call c d)" "adds c d \<longrightarrow> in_step m' (run_call c d)"
proof -
  note told = unconditional [THEN followsD [OF r]] conditional [THEN followsD [OF r]] inserts [THEN agreesD [OF r]] drawing [THEN followsD [OF r]]
  have "\<exists>m'. mem_call c m = Some (fst (client_call c d), m') \<and> sim m' (run_call c d) \<and> (adds c d \<longrightarrow> in_step m' (run_call c d))"
    using c by (cases c) (simp_all add: tell_def effect_def told list_all_iff)
  then show ?thesis using that by blast
qed

section \<open>Runs\<close>

inductive twin :: "MemStore \<Rightarrow> db \<Rightarrow> bool" where
  start: "pgTime now = now \<Longrightarrow> twin (New_mem now) (empty_db now)"
| tick: "twin m d \<Longrightarrow> pgTime t = t \<Longrightarrow> twin (m\<lparr>ms_now := t\<rparr>) (d\<lparr>db_now := t\<rparr>)"
| call: "twin m d \<Longrightarrow> meets c d \<Longrightarrow> adds c d \<Longrightarrow> mem_call c m = Some (answer, m') \<Longrightarrow> twin m' (run_call c d)"

lemma related_start: "pgTime now = now \<Longrightarrow> related (New_mem now) (empty_db now)"
  using db_ok_empty [of now]
  by (simp add: related_def sim_def rounded_def ordered_def in_step_def count_of_def New_mem_def empty_db_def)

lemma related_tick: "related m d \<Longrightarrow> pgTime t = t \<Longrightarrow> related (m\<lparr>ms_now := t\<rparr>) (d\<lparr>db_now := t\<rparr>)"
proof -
  assume r: "related m d" and t: "pgTime t = t"
  have "sim (m\<lparr>ms_now := t\<rparr>) (d\<lparr>db_now := t\<rparr>)" using r t by (simp add: related_def sim_def rounded_def ordered_def)
  moreover have "in_step (m\<lparr>ms_now := t\<rparr>) (d\<lparr>db_now := t\<rparr>)" using r by (simp add: related_def in_step_def)
  moreover have "db_ok (d\<lparr>db_now := t\<rparr>)" using r by (simp add: related_def db_ok_def refs_ok_def tokens_ok_def)
  ultimately show ?thesis by (simp add: related_def)
qed

lemma twin_related: "twin m d \<Longrightarrow> related m d"
proof (induction rule: twin.induct)
  case (call m d c answer m')
  obtain m1 where "mem_call c m = Some (fst (client_call c d), m1)" "sim m1 (run_call c d)" "adds c d \<longrightarrow> in_step m1 (run_call c d)"
    by (rule mem_call_agrees [OF call.IH call.hyps(2)])
  then show ?case using call.hyps run_call_ok [of d c] call.IH by (simp add: related_def)
qed (simp_all add: related_start related_tick)

lemmas reads = follows_account_reads follows_by_customer follows_listings follows_ListKeys follows_grant_reads follows_trial_reads follows_log(2)
  follows_SummarizeUsage follows_UsageByKey follows_TopPaths follows_ListDemoAccess



text \<open>Where they part: a refused insert has drawn a number from the client's sequence and none from the memory's.\<close>

lemma refused_insert_parts:
  defines "go \<equiv> [call_CreateAccount ''a@b'' [], call_CreateAccount ''a@b'' []]"
  defines "d \<equiv> fold run_call go (empty_db 0)" and "m \<equiv> fold (\<lambda>c m. case mem_call c m of Some (_, m') \<Rightarrow> m' | None \<Rightarrow> m) go (New_mem 0)"
  shows "map_sum id a_id (fst (CreateAccount ''c@d'' [] d)) = Inr 3" "map_sum id a_id (fst (Mem_CreateAccount ''c@d'' [] m)) = Inr 2"
  unfolding assms by code_simp+

end
