(* ===== verification/Go_Flag.thy ===== *)
theory Go_Flag
  imports Gateway_Prelude
begin

text \<open>
  What the commands use of Go's \<open>flag\<close> package: a set of string and integer flags, parsed with \<open>ContinueOnError\<close>, and
  \<open>strconv.ParseInt\<close> with base 0, which the integer flags take their values with.
\<close>

section \<open>Integers with a base prefix\<close>

definition digit_val :: "char \<Rightarrow> nat option" where
  "digit_val c =
     (let l = lower_char c in
      if is_digit c then Some (of_char c - 48)
      else if CHR ''a'' \<le> l \<and> l \<le> CHR ''z'' then Some (of_char l - 97 + 10) else None)"

text \<open>The value of digits in a base, underscores left out; no value when a character is not a digit of the base.\<close>

fun base_value :: "nat \<Rightarrow> nat \<Rightarrow> string \<Rightarrow> nat option" where
  "base_value b n [] = Some n"
| "base_value b n (c # cs) =
     (if c = CHR ''_'' then base_value b n cs
      else case digit_val c of None \<Rightarrow> None | Some v \<Rightarrow> if v < b then base_value b (b * n + v) cs else None)"

text \<open>The base a prefix names and what follows it.\<close>

definition base_prefix :: "string \<Rightarrow> nat \<times> string" where
  "base_prefix s =
     (case s of
        c0 # c1 # c2 # cs \<Rightarrow>
          if c0 \<noteq> CHR ''0'' then (10, s)
          else if lower_char c1 = CHR ''b'' then (2, c2 # cs)
          else if lower_char c1 = CHR ''o'' then (8, c2 # cs)
          else if lower_char c1 = CHR ''x'' then (16, c2 # cs) else (8, c1 # c2 # cs)
      | c0 # cs \<Rightarrow> if c0 = CHR ''0'' then (8, cs) else (10, s)
      | [] \<Rightarrow> (10, s))"

text \<open>\<open>underscoreOK\<close>: underscores only between digits, or between a prefix and a digit; \<open>seen\<close> is the kind of the last character.\<close>

fun underscore_scan :: "bool \<Rightarrow> char \<Rightarrow> string \<Rightarrow> bool" where
  "underscore_scan hex seen [] \<longleftrightarrow> seen \<noteq> CHR ''_''"
| "underscore_scan hex seen (c # cs) \<longleftrightarrow>
     (if is_digit c \<or> hex \<and> CHR ''a'' \<le> lower_char c \<and> lower_char c \<le> CHR ''f'' then underscore_scan hex CHR ''0'' cs
      else if c = CHR ''_'' then (if seen \<noteq> CHR ''0'' then False else underscore_scan hex CHR ''_'' cs)
      else if seen = CHR ''_'' then False else underscore_scan hex CHR ''!'' cs)"

definition underscoreOK :: "string \<Rightarrow> bool" where
  "underscoreOK s =
     (case s of
        c0 # c1 # cs \<Rightarrow>
          if c0 = CHR ''0'' \<and> (lower_char c1 = CHR ''b'' \<or> lower_char c1 = CHR ''o'' \<or> lower_char c1 = CHR ''x'')
          then underscore_scan (lower_char c1 = CHR ''x'') CHR ''0'' cs else underscore_scan False CHR ''^'' s
      | _ \<Rightarrow> underscore_scan False CHR ''^'' s)"

definition parse_uint0 :: "string \<Rightarrow> nat option" where
  "parse_uint0 s =
     (if s = [] then None
      else case base_prefix s of (b, ds) \<Rightarrow>
        (case base_value b 0 ds of
           None \<Rightarrow> None
         | Some n \<Rightarrow> if CHR ''_'' \<in> set ds \<and> \<not> underscoreOK s then None else Some n))"

text \<open>\<open>strconv.ParseInt(s, 0, 64)\<close>, nothing on a syntax error or out of range.\<close>

definition parse_int0 :: "string \<Rightarrow> int option" where
  "parse_int0 s =
     (let neg = (s \<noteq> [] \<and> hd s = CHR ''-'');
          ds = (if s \<noteq> [] \<and> (hd s = CHR ''-'' \<or> hd s = CHR ''+'') then tl s else s)
      in case parse_uint0 ds of
           None \<Rightarrow> None
         | Some n \<Rightarrow> let v = (if neg then - int n else int n) in if is_int64 v then Some v else None)"

section \<open>Flags\<close>

datatype flag_value = FlagText string | FlagNumber int

datatype flag_error = BadSyntax string | NotDefined string | HelpAsked | NeedsArgument string | InvalidValue string string

record flags =
  fl_formal :: "(string \<times> flag_value) list"
  fl_actual :: "string list"

definition flag_set :: "string \<Rightarrow> flag_value \<Rightarrow> flag_value option" where
  "flag_set value old =
     (case old of FlagText _ \<Rightarrow> Some (FlagText value) | FlagNumber _ \<Rightarrow> map_option FlagNumber (parse_int0 value))"

definition assign :: "string \<Rightarrow> string \<Rightarrow> flags \<Rightarrow> flag_error + flags" where
  "assign name value fs =
     (case map_of (fl_formal fs) name of
        None \<Rightarrow> Inl (NotDefined name)
      | Some old \<Rightarrow>
          (case flag_set value old of
             None \<Rightarrow> Inl (InvalidValue value name)
           | Some v \<Rightarrow> Inr (fs\<lparr>fl_formal := AList.update name v (fl_formal fs), fl_actual := fl_actual fs @ [name]\<rparr>)))"

text \<open>A name and the value after the first equals sign that is not its first character.\<close>

definition flag_parts :: "string \<Rightarrow> string \<times> string option" where
  "flag_parts name =
     (case cut (CHR ''='') (tl name) of (a, value, ok) \<Rightarrow> if ok then (hd name # a, Some value) else (name, None))"

fun parse_flags :: "flags \<Rightarrow> string list \<Rightarrow> flag_error + flags \<times> string list" where
  "parse_flags fs [] = Inr (fs, [])"
| "parse_flags fs (s # args) =
     (if length s < 2 \<or> hd s \<noteq> CHR ''-'' then Inr (fs, s # args)
      else if s = ''--'' then Inr (fs, args)
      else let name0 = (if hd (tl s) = CHR ''-'' then drop 2 s else tl s) in
        if name0 = [] \<or> hd name0 = CHR ''-'' \<or> hd name0 = CHR ''='' then Inl (BadSyntax s)
        else case flag_parts name0 of (name, value) \<Rightarrow>
          if map_of (fl_formal fs) name = None then Inl (if name = ''help'' \<or> name = ''h'' then HelpAsked else NotDefined name)
          else (case value of
              Some v \<Rightarrow> (case assign name v fs of Inl e \<Rightarrow> Inl e | Inr fs' \<Rightarrow> parse_flags fs' args)
            | None \<Rightarrow>
                (case args of
                   [] \<Rightarrow> Inl (NeedsArgument name)
                 | v # rest \<Rightarrow> (case assign name v fs of Inl e \<Rightarrow> Inl e | Inr fs' \<Rightarrow> parse_flags fs' rest))))"

definition flag_text :: "flags \<Rightarrow> string \<Rightarrow> string" where
  "flag_text fs name = (case map_of (fl_formal fs) name of Some (FlagText s) \<Rightarrow> s | _ \<Rightarrow> [])"

definition flag_number :: "flags \<Rightarrow> string \<Rightarrow> int" where
  "flag_number fs name = (case map_of (fl_formal fs) name of Some (FlagNumber n) \<Rightarrow> n | _ \<Rightarrow> 0)"

section \<open>Lemmas\<close>

lemma base_value_decimal: "list_all is_digit ds \<Longrightarrow> base_value 10 n ds = Some (foldl (\<lambda>n c. 10 * n + (of_char c - 48)) n ds)"
proof (induction ds arbitrary: n)
  case (Cons c cs)
  have "c \<noteq> CHR ''_''" using Cons.prems by (auto simp: is_digit_def)
  moreover have "(of_char c :: nat) - 48 < 10" using Cons.prems by (auto simp: is_digit_def)
  ultimately show ?case using Cons by (simp add: digit_val_def Let_def)
qed simp

lemma hd_nat_digits: "0 < n \<Longrightarrow> hd (nat_digits n) \<noteq> CHR ''0''"
proof (induction n rule: nat_digits.induct)
  case (1 n)
  have "digit_char n \<noteq> CHR ''0''" if "n < 10" "0 < n" using that of_char_digit_char [of n] by auto
  then show ?case using 1 by (subst nat_digits.simps) (auto simp: hd_append)
qed

lemma parse_uint0_digits: "parse_uint0 (nat_digits n) = Some n"
proof -
  have d: "list_all is_digit (nat_digits n)" by (rule nat_digits_all_digit)
  then have u: "CHR ''_'' \<notin> set (nat_digits n)" by (auto simp: list_all_iff is_digit_def)
  show ?thesis
  proof (cases "n = 0")
    case True
    have "parse_uint0 (nat_digits 0) = Some 0" by code_simp
    then show ?thesis using True by simp
  next
    case False
    then have "hd (nat_digits n) \<noteq> CHR ''0''" by (simp add: hd_nat_digits)
    then have "base_prefix (nat_digits n) = (10, nat_digits n)"
      by (cases "nat_digits n") (auto simp: base_prefix_def split: list.split)
    then show ?thesis using d u base_value_decimal [of "nat_digits n" 0] digits_value_nat_digits [of n]
      by (simp add: parse_uint0_def digits_value_def)
  qed
qed

text \<open>A number flag reads back what is printed.\<close>

theorem parse_int0_format: "is_int64 i \<Longrightarrow> parse_int0 (format_int i) = Some i"
proof -
  assume i: "is_int64 i"
  have h: "hd (nat_digits n) \<noteq> CHR ''-''" "hd (nat_digits n) \<noteq> CHR ''+''" for n
    using nat_digits_all_digit [of n] by (cases "nat_digits n"; auto simp: is_digit_def)+
  show ?thesis using i h by (simp add: parse_int0_def format_int_def parse_uint0_digits)
qed

text \<open>Text flags given as a name and a value each take the last value given.\<close>

lemma flag_parts_plain: "CHR ''='' \<notin> set n \<Longrightarrow> flag_parts n = (n, None)"
proof -
  assume "CHR ''='' \<notin> set n"
  then have "CHR ''='' \<notin> set (tl n)" by (cases n) auto
  then show ?thesis by (simp add: flag_parts_def cut_not_found)
qed

theorem parse_flags_values:
  assumes "\<forall>(n, v)\<in>set ps. n \<noteq> [] \<and> hd n \<noteq> CHR ''-'' \<and> CHR ''='' \<notin> set n \<and> (\<exists>s. map_of (fl_formal fs) n = Some (FlagText s))"
  shows "parse_flags fs (concat (map (\<lambda>(n, v). [CHR ''-'' # n, v]) ps)) =
    Inr (fs\<lparr>fl_formal := foldl (\<lambda>m (n, v). AList.update n (FlagText v) m) (fl_formal fs) ps, fl_actual := fl_actual fs @ map fst ps\<rparr>, [])"
  using assms
proof (induction ps arbitrary: fs)
  case (Cons p ps)
  obtain n v where p: "p = (n, v)" by (cases p)
  obtain s where n: "n \<noteq> []" "hd n \<noteq> CHR ''-''" "CHR ''='' \<notin> set n" "map_of (fl_formal fs) n = Some (FlagText s)" using Cons.prems p by auto
  have "hd n \<noteq> CHR ''=''" using n(1,3) by (cases n) auto
  moreover have "(CHR ''-'' # n) \<noteq> ''--''" "\<not> length (CHR ''-'' # n) < 2" using n(1,2) by (cases n; auto)+
  moreover let ?fs = "fs\<lparr>fl_formal := AList.update n (FlagText v) (fl_formal fs), fl_actual := fl_actual fs @ [n]\<rparr>"
  have "assign n v fs = Inr ?fs" using n(4) by (simp add: assign_def flag_set_def)
  moreover have "\<forall>(n, v)\<in>set ps. n \<noteq> [] \<and> hd n \<noteq> CHR ''-'' \<and> CHR ''='' \<notin> set n \<and> (\<exists>s. map_of (fl_formal ?fs) n = Some (FlagText s))"
    using Cons.prems by (auto simp: update_conv')
  ultimately show ?case using Cons.IH [of ?fs] n p flag_parts_plain [OF n(3)] by (simp add: Let_def)
qed simp

end
