(* ===== verification/Billing_Seed.thy ===== *)
theory Billing_Seed
  imports Billing_Reconcile
begin

text \<open>
  \<open>src/billing/seed.go\<close>: bringing Stripe's products and prices in line with the catalog. Stripe is a parameter, the record
  \<open>catalog_api\<close> of the calls the code makes, each on a state of Stripe's own; what the code relies on is the locale
  \<open>stripe_catalog\<close>, which a later theory interprets on the Stripe of the tests. A price the code compares has the fields below
  beside those of \<open>Price\<close>.
\<close>

section \<open>Stripe's products and prices\<close>

record Product =
  pd_id :: string
  pd_name :: string
  pd_active :: bool
  pd_metadata :: "(string \<times> string) list"

record FullPrice = Price +
  fp_unit_amount :: int
  fp_currency :: string
  fp_scheme :: string
  fp_tiers_mode :: string
  fp_tiers :: "(int \<times> int) list"
  fp_recurring :: "(string \<times> int) option"
  fp_product :: "string option"

record ProductCreate =
  pc_id :: string
  pc_name :: string
  pc_metadata :: "(string \<times> string) list"

record ProductUpdate =
  pu_name :: "string option"
  pu_active :: "bool option"
  pu_metadata :: "(string \<times> string) list option"

record PriceTier =
  pt_up_to :: "int option"
  pt_up_to_inf :: bool
  pt_unit_amount :: int

record PriceCreate =
  cp_currency :: string
  cp_product :: string
  cp_lookup_key :: string
  cp_nickname :: string
  cp_metadata :: "(string \<times> string) list"
  cp_recurring :: "(string \<times> int) option"
  cp_unit_amount :: "int option"
  cp_scheme :: "string option"
  cp_tiers_mode :: "string option"
  cp_tiers :: "PriceTier list"
  cp_transfer :: bool

record PriceUpdate =
  pq_active :: "bool option"
  pq_metadata :: "(string \<times> string) list option"
  pq_lookup_key :: "string option"

datatype stripe_error = ResourceMissing string | StripeRefused string

definition IsMissing :: "stripe_error \<Rightarrow> bool" where
  "IsMissing e = (case e of ResourceMissing _ \<Rightarrow> True | StripeRefused _ \<Rightarrow> False)"

type_synonym ('a, 's) stripe_op = "'s \<Rightarrow> (stripe_error + 'a) \<times> 's"

record 's catalog_api =
  ca_get_product :: "string \<Rightarrow> (Product, 's) stripe_op"
  ca_create_product :: "ProductCreate \<Rightarrow> (Product, 's) stripe_op"
  ca_update_product :: "string \<Rightarrow> ProductUpdate \<Rightarrow> (Product, 's) stripe_op"
  ca_list_prices :: "(FullPrice list, 's) stripe_op"
  ca_create_price :: "PriceCreate \<Rightarrow> (FullPrice, 's) stripe_op"
  ca_update_price :: "string \<Rightarrow> PriceUpdate \<Rightarrow> (FullPrice, 's) stripe_op"

section \<open>What the catalog asks for\<close>

definition ProductID :: "string \<Rightarrow> string" where
  "ProductID key = ''mtgban_api_'' @ key"

record SeedResult =
  sr_created :: "string list"
  sr_updated :: "string list"
  sr_archived :: "string list"

record productSpec =
  ps_id :: string
  ps_name :: string
  ps_kind :: string

record priceSpec =
  rs_lookup_key :: string
  rs_product_id :: string
  rs_amount :: int
  rs_first :: int
  rs_interval :: Interval
  rs_metadata :: "(string \<times> string) list"

definition productSpecs :: "ProductList \<Rightarrow> productSpec list" where
  "productSpecs cat =
     map (\<lambda>p. \<lparr>ps_id = ProductID (pk_key p), ps_name = pk_name p, ps_kind = ''package''\<rparr>) (ct_packages cat) @
     map (\<lambda>a. \<lparr>ps_id = ProductID (ad_key a), ps_name = ad_name a, ps_kind = ''addon''\<rparr>) (ct_addons cat)"

definition package_price :: "ProductList \<Rightarrow> Package \<Rightarrow> Interval \<Rightarrow> string + priceSpec" where
  "package_price cat p iv =
     (case in_amount iv (pk_monthly p) of
        Inl err \<Rightarrow> Inl err
      | Inr amount \<Rightarrow>
          Inr \<lparr>rs_lookup_key = ct_lookup_key cat (pk_key p) (in_key iv), rs_product_id = ProductID (pk_key p), rs_amount = amount, rs_first = 0, rs_interval = iv,
            rs_metadata = [(''kind'', ''package''), (''package'', pk_key p), (''store_scope'', pk_store_scope p), (''modes'', join '','' (pk_modes p)),
              (''interval_key'', in_key iv)]\<rparr>)"

definition addon_price :: "ProductList \<Rightarrow> Addon \<Rightarrow> Interval \<Rightarrow> string + priceSpec" where
  "addon_price cat a iv =
     (case in_amount iv (ad_monthly a) of
        Inl err \<Rightarrow> Inl err
      | Inr amount \<Rightarrow>
          (case (if ad_stepped a then in_amount iv (ad_first_monthly a) else Inr 0) of
             Inl err \<Rightarrow> Inl err
           | Inr first \<Rightarrow>
               Inr \<lparr>rs_lookup_key = ct_lookup_key cat (ad_key a) (in_key iv), rs_product_id = ProductID (ad_key a), rs_amount = amount, rs_first = first, rs_interval = iv,
                 rs_metadata = [(''kind'', ''addon''), (''addon'', ad_key a), (''applies_to'', join '','' (ad_applies_to a)), (''interval_key'', in_key iv)]\<rparr>))"

text \<open>The first error ends the list.\<close>

fun all_or_error :: "('e + 'a) list \<Rightarrow> 'e + 'a list" where
  "all_or_error [] = Inr []"
| "all_or_error (r # rs) = (case r of Inl e \<Rightarrow> Inl e | Inr x \<Rightarrow> (case all_or_error rs of Inl e \<Rightarrow> Inl e | Inr xs \<Rightarrow> Inr (x # xs)))"

definition priceSpecs :: "ProductList \<Rightarrow> string + priceSpec list" where
  "priceSpecs cat =
     all_or_error (concat (map (\<lambda>p. map (package_price cat p) (ct_intervals cat)) (ct_packages cat)) @
       concat (map (\<lambda>a. map (addon_price cat a) (ct_intervals cat)) (ct_addons cat)))"

section \<open>Comparing a price\<close>

definition PriceBillingSchemeTiered :: string where "PriceBillingSchemeTiered = ''tiered''"
definition PriceTiersModeGraduated :: string where "PriceTiersModeGraduated = ''graduated''"

definition amountMatches :: "priceSpec \<Rightarrow> FullPrice \<Rightarrow> bool" where
  "amountMatches s p \<longleftrightarrow>
     (if rs_first s = 0 then fp_scheme p \<noteq> PriceBillingSchemeTiered \<and> fp_unit_amount p = rs_amount s
      else fp_scheme p = PriceBillingSchemeTiered \<and> fp_tiers_mode p = PriceTiersModeGraduated \<and>
        fp_tiers p = [(1, rs_first s), (0, rs_amount s)])"

definition price_matches :: "priceSpec \<Rightarrow> FullPrice \<Rightarrow> string \<Rightarrow> bool" where
  "price_matches s p currency \<longleftrightarrow>
     amountMatches s p \<and> fp_currency p = currency \<and> fp_recurring p = Some (in_interval (rs_interval s), in_count (rs_interval s)) \<and>
     fp_product p = Some (rs_product_id s)"

definition metadataMatches :: "(string \<times> string) list \<Rightarrow> (string \<times> string) list \<Rightarrow> bool" where
  "metadataMatches have want \<longleftrightarrow> list_all (\<lambda>(k, v). (case map_of have k of Some x \<Rightarrow> x | None \<Rightarrow> []) = v) want"

definition createParams :: "priceSpec \<Rightarrow> string \<Rightarrow> bool \<Rightarrow> PriceCreate" where
  "createParams s currency transfer =
     (let params = \<lparr>cp_currency = currency, cp_product = rs_product_id s, cp_lookup_key = rs_lookup_key s, cp_nickname = rs_lookup_key s,
            cp_metadata = rs_metadata s, cp_recurring = Some (in_interval (rs_interval s), in_count (rs_interval s)), cp_unit_amount = None,
            cp_scheme = None, cp_tiers_mode = None, cp_tiers = [], cp_transfer = transfer\<rparr>
      in if rs_first s = 0 then params\<lparr>cp_unit_amount := Some (rs_amount s)\<rparr>
         else params\<lparr>cp_scheme := Some PriceBillingSchemeTiered, cp_tiers_mode := Some PriceTiersModeGraduated,
           cp_tiers := [\<lparr>pt_up_to = Some 1, pt_up_to_inf = False, pt_unit_amount = rs_first s\<rparr>,
             \<lparr>pt_up_to = None, pt_up_to_inf = True, pt_unit_amount = rs_amount s\<rparr>]\<rparr>)"

section \<open>Seeding\<close>

datatype seed_error =
    ProductNotCreated string stripe_error
  | ProductNotRead string stripe_error
  | ProductNotUpdated string stripe_error
  | PricesNotListed stripe_error
  | SpecsFailed string
  | PriceNotCreated string stripe_error
  | PriceNotUpdated string stripe_error
  | PriceNotReplaced string stripe_error
  | PriceNotArchived string stripe_error

type_synonym 's seed_step = "SeedResult \<Rightarrow> 's \<Rightarrow> seed_error option \<times> SeedResult \<times> 's"

definition product_params :: "productSpec \<Rightarrow> ProductCreate" where
  "product_params spec =
     \<lparr>pc_id = ps_id spec, pc_name = ps_name spec,
      pc_metadata = [(''kind'', ps_kind spec), (''key'', if has_prefix (ps_id spec) ''mtgban_api_'' then drop 11 (ps_id spec) else ps_id spec)]\<rparr>"

definition seed_product :: "'s catalog_api \<Rightarrow> productSpec \<Rightarrow> 's seed_step" where
  "seed_product api spec res s =
     (case ca_get_product api (ps_id spec) s of
        (Inl err, s1) \<Rightarrow>
          if IsMissing err then
            (case ca_create_product api (product_params spec) s1 of
               (Inl err', s2) \<Rightarrow> (Some (ProductNotCreated (ps_id spec) err'), res, s2)
             | (Inr _, s2) \<Rightarrow> (None, res\<lparr>sr_created := sr_created res @ [ps_id spec]\<rparr>, s2))
          else (Some (ProductNotRead (ps_id spec) err), res, s1)
      | (Inr existing, s1) \<Rightarrow>
          if pd_name existing \<noteq> ps_name spec \<or> \<not> pd_active existing then
            (case ca_update_product api (ps_id spec) \<lparr>pu_name = Some (ps_name spec), pu_active = Some True, pu_metadata = None\<rparr> s1 of
               (Inl err, s2) \<Rightarrow> (Some (ProductNotUpdated (ps_id spec) err), res, s2)
             | (Inr _, s2) \<Rightarrow> (None, res\<lparr>sr_updated := sr_updated res @ [ps_id spec]\<rparr>, s2))
          else (None, res, s1))"

definition by_lookup_key :: "FullPrice list \<Rightarrow> (string \<times> FullPrice) list" where
  "by_lookup_key prices = foldl (\<lambda>m p. if pr_lookup_key p \<noteq> [] then AList.update (pr_lookup_key p) p m else m) [] prices"

definition seed_price :: "'s catalog_api \<Rightarrow> string \<Rightarrow> (string \<times> FullPrice) list \<Rightarrow> priceSpec \<Rightarrow> 's seed_step" where
  "seed_price api currency byKey spec res s =
     (case map_of byKey (rs_lookup_key spec) of
        None \<Rightarrow>
          (case ca_create_price api (createParams spec currency False) s of
             (Inl err, s1) \<Rightarrow> (Some (PriceNotCreated (rs_lookup_key spec) err), res, s1)
           | (Inr _, s1) \<Rightarrow> (None, res\<lparr>sr_created := sr_created res @ [rs_lookup_key spec]\<rparr>, s1))
      | Some existing \<Rightarrow>
          if price_matches spec existing currency then
            (if pr_active existing \<and> metadataMatches (pr_metadata existing) (rs_metadata spec) then (None, res, s)
             else case ca_update_price api (pr_id existing) \<lparr>pq_active = Some True, pq_metadata = Some (rs_metadata spec), pq_lookup_key = None\<rparr> s of
               (Inl err, s1) \<Rightarrow> (Some (PriceNotUpdated (rs_lookup_key spec) err), res, s1)
             | (Inr _, s1) \<Rightarrow> (None, res\<lparr>sr_updated := sr_updated res @ [rs_lookup_key spec]\<rparr>, s1))
          else
            (case ca_create_price api (createParams spec currency True) s of
               (Inl err, s1) \<Rightarrow> (Some (PriceNotReplaced (rs_lookup_key spec) err), res, s1)
             | (Inr _, s1) \<Rightarrow>
                 (case ca_update_price api (pr_id existing) \<lparr>pq_active = Some False, pq_metadata = None, pq_lookup_key = None\<rparr> s1 of
                    (Inl err, s2) \<Rightarrow> (Some (PriceNotArchived (pr_id existing) err), res, s2)
                  | (Inr _, s2) \<Rightarrow>
                      (None, res\<lparr>sr_created := sr_created res @ [rs_lookup_key spec], sr_archived := sr_archived res @ [pr_id existing]\<rparr>, s2))))"

fun seed_each :: "('x \<Rightarrow> 's seed_step) \<Rightarrow> 'x list \<Rightarrow> 's seed_step" where
  "seed_each f [] res s = (None, res, s)"
| "seed_each f (x # xs) res s =
     (case f x res s of
        (Some err, res1, s1) \<Rightarrow> (Some err, res1, s1)
      | (None, res1, s1) \<Rightarrow> seed_each f xs res1 s1)"

definition Seed :: "'s catalog_api \<Rightarrow> ProductList \<Rightarrow> 's \<Rightarrow> seed_error option \<times> SeedResult \<times> 's" where
  "Seed api cat s =
     (case seed_each (seed_product api) (productSpecs cat) \<lparr>sr_created = [], sr_updated = [], sr_archived = []\<rparr> s of
        (Some err, res, s1) \<Rightarrow> (Some err, res, s1)
      | (None, res, s1) \<Rightarrow>
          (case ca_list_prices api s1 of
             (Inl err, s2) \<Rightarrow> (Some (PricesNotListed err), res, s2)
           | (Inr prices, s2) \<Rightarrow>
               (case priceSpecs cat of
                  Inl err \<Rightarrow> (Some (SpecsFailed err), res, s2)
                | Inr specs \<Rightarrow> seed_each (seed_price api (ct_currency cat) (by_lookup_key prices)) specs res s2)))"

section \<open>What the code relies on\<close>

definition keeps_metadata :: "(string \<times> string) list \<Rightarrow> (string \<times> string) list \<Rightarrow> bool" where
  "keeps_metadata want have \<longleftrightarrow> (\<forall>k v. map_of want k = Some v \<longrightarrow> map_of have k = Some v)"

text \<open>The price a creation gives; the open tier reads back with no bound, as 0.\<close>

definition created_as :: "PriceCreate \<Rightarrow> FullPrice \<Rightarrow> bool" where
  "created_as cp p \<longleftrightarrow>
     pr_active p \<and> pr_lookup_key p = cp_lookup_key cp \<and> keeps_metadata (cp_metadata cp) (pr_metadata p) \<and> fp_currency p = cp_currency cp \<and>
     fp_product p = Some (cp_product cp) \<and> fp_recurring p = cp_recurring cp \<and>
     (if cp_scheme cp = Some PriceBillingSchemeTiered
      then fp_scheme p = PriceBillingSchemeTiered \<and> (\<forall>m. cp_tiers_mode cp = Some m \<longrightarrow> fp_tiers_mode p = m) \<and>
        fp_tiers p = map (\<lambda>t. (case pt_up_to t of Some n \<Rightarrow> n | None \<Rightarrow> 0, pt_unit_amount t)) (cp_tiers cp)
      else fp_scheme p \<noteq> PriceBillingSchemeTiered \<and> (\<forall>a. cp_unit_amount cp = Some a \<longrightarrow> fp_unit_amount p = a))"

definition release_key :: "string \<Rightarrow> FullPrice \<Rightarrow> FullPrice" where
  "release_key key p = (if pr_lookup_key p = key then p\<lparr>pr_lookup_key := []\<rparr> else p)"

text \<open>
  Stripe's side of the calls: what each leaves in the products and the prices when it succeeds. A lookup key is on one price at
  most; a creation takes it off the price that had it. An update may merge the metadata or replace it. After a failed call only
  the standing of the whole is assumed.
\<close>

locale stripe_catalog =
  fixes api :: "'s catalog_api"
    and products :: "'s \<Rightarrow> string \<Rightarrow> Product option"
    and prices :: "'s \<Rightarrow> string \<Rightarrow> FullPrice option"
    and ok :: "'s \<Rightarrow> bool"
  assumes id_kept: "ok s \<Longrightarrow> prices s i = Some p \<Longrightarrow> pr_id p = i"
    and key_once: "ok s \<Longrightarrow> prices s i = Some p \<Longrightarrow> prices s j = Some q \<Longrightarrow> pr_lookup_key p = pr_lookup_key q \<Longrightarrow> pr_lookup_key p \<noteq> [] \<Longrightarrow> i = j"
    and ok_product: "ok s \<Longrightarrow> ok (snd (ca_get_product api i s))" "ok s \<Longrightarrow> ok (snd (ca_create_product api pc s))"
      "ok s \<Longrightarrow> ok (snd (ca_update_product api i pu s))"
    and ok_price: "ok s \<Longrightarrow> ok (snd (ca_list_prices api s))" "ok s \<Longrightarrow> ok (snd (ca_create_price api cp s))"
      "ok s \<Longrightarrow> pq_lookup_key pq = None \<Longrightarrow> ok (snd (ca_update_price api i pq s))"
    and missing_product: "ok s \<Longrightarrow> ca_get_product api i s = (Inl e, s') \<Longrightarrow> IsMissing e \<Longrightarrow> products s i = None \<and> products s' = products s \<and> prices s' = prices s"
    and found_product: "ok s \<Longrightarrow> ca_get_product api i s = (Inr pd, s') \<Longrightarrow> products s i = Some pd \<and> products s' = products s \<and> prices s' = prices s"
    and created_product: "ok s \<Longrightarrow> ca_create_product api pc s = (Inr pd, s') \<Longrightarrow> pc_id pc \<noteq> [] \<Longrightarrow>
      pd_name pd = pc_name pc \<and> pd_active pd \<and> products s' = (products s)(pc_id pc \<mapsto> pd) \<and> prices s' = prices s"
    and updated_product: "ok s \<Longrightarrow> ca_update_product api i pu s = (Inr pd, s') \<Longrightarrow>
      (\<forall>n. pu_name pu = Some n \<longrightarrow> pd_name pd = n) \<and> (\<forall>b. pu_active pu = Some b \<longrightarrow> pd_active pd = b) \<and>
      products s' = (products s)(i \<mapsto> pd) \<and> prices s' = prices s"
    and listed_prices: "ok s \<Longrightarrow> ca_list_prices api s = (Inr ps, s') \<Longrightarrow>
      (\<forall>p. p \<in> set ps \<longleftrightarrow> prices s (pr_id p) = Some p) \<and> products s' = products s \<and> prices s' = prices s"
    and created_price: "ok s \<Longrightarrow> ca_create_price api cp s = (Inr p, s') \<Longrightarrow> prices s (pr_id p) = None \<and> created_as cp p \<and> products s' = products s \<and>
      prices s' = (\<lambda>i. if i = pr_id p then Some p else map_option (release_key (cp_lookup_key cp)) (prices s i))"
    and updated_price: "ok s \<Longrightarrow> ca_update_price api i pq s = (Inr p, s') \<Longrightarrow> pq_lookup_key pq = None \<Longrightarrow>
      \<exists>old m. prices s i = Some old \<and> p = old\<lparr>pr_active := (case pq_active pq of Some b \<Rightarrow> b | None \<Rightarrow> pr_active old), pr_metadata := m\<rparr> \<and>
        (case pq_metadata pq of Some want \<Rightarrow> keeps_metadata want m | None \<Rightarrow> m = pr_metadata old) \<and>
        products s' = products s \<and> prices s' = (prices s)(i \<mapsto> p)"

section \<open>Lemmas\<close>

lemma keeps_metadataMatches: "distinct (map fst want) \<Longrightarrow> keeps_metadata want have \<Longrightarrow> metadataMatches have want"
  by (auto simp: keeps_metadata_def metadataMatches_def list_all_iff)

lemma created_matches: "created_as (createParams spec currency transfer) p \<Longrightarrow> price_matches spec p currency"
  by (auto simp: created_as_def createParams_def price_matches_def amountMatches_def Let_def split: if_splits)

lemma createParams_keeps [simp]:
  "cp_lookup_key (createParams spec currency transfer) = rs_lookup_key spec" "cp_metadata (createParams spec currency transfer) = rs_metadata spec"
  by (simp_all add: createParams_def Let_def)

lemma release_key_simps [simp]:
  "pr_id (release_key k p) = pr_id p" "pr_lookup_key p \<noteq> k \<Longrightarrow> release_key k p = p" "pr_lookup_key p = k \<Longrightarrow> release_key k p = p\<lparr>pr_lookup_key := []\<rparr>"
  by (simp_all add: release_key_def)

lemma all_or_error_Inr: "all_or_error rs = Inr xs \<Longrightarrow> rs = map Inr xs"
  by (induction rs arbitrary: xs) (auto split: sum.splits)

lemma spec_metadata_distinct: "priceSpecs cat = Inr specs \<Longrightarrow> spec \<in> set specs \<Longrightarrow> distinct (map fst (rs_metadata spec))"
proof -
  assume specs: "priceSpecs cat = Inr specs" and spec: "spec \<in> set specs"
  have "Inr spec \<in> set (map Inr specs)" using spec by simp
  then have "Inr spec \<in> set (concat (map (\<lambda>p. map (package_price cat p) (ct_intervals cat)) (ct_packages cat)) @
      concat (map (\<lambda>a. map (addon_price cat a) (ct_intervals cat)) (ct_addons cat)))"
    unfolding all_or_error_Inr [OF specs [unfolded priceSpecs_def]] .
  then show ?thesis by (auto simp: package_price_def addon_price_def split: sum.splits if_splits)
qed

lemma by_lookup_key_snoc:
  "by_lookup_key (ps @ [p]) = (if pr_lookup_key p \<noteq> [] then AList.update (pr_lookup_key p) p (by_lookup_key ps) else by_lookup_key ps)"
  by (simp add: by_lookup_key_def)

lemma by_lookup_key_iff:
  assumes "\<And>p q. p \<in> set ps \<Longrightarrow> q \<in> set ps \<Longrightarrow> pr_lookup_key p = pr_lookup_key q \<Longrightarrow> pr_lookup_key p \<noteq> [] \<Longrightarrow> p = q" "k \<noteq> []"
  shows "map_of (by_lookup_key ps) k = Some p \<longleftrightarrow> p \<in> set ps \<and> pr_lookup_key p = k"
  using assms
proof (induction ps rule: rev_induct)
  case (snoc q ps)
  have IH: "map_of (by_lookup_key ps) k = Some p \<longleftrightarrow> p \<in> set ps \<and> pr_lookup_key p = k"
    using snoc.prems by (intro snoc.IH) auto
  show ?case
  proof (cases "pr_lookup_key q = k")
    case True
    then show ?thesis using snoc.prems(1) [of p q] snoc.prems(2) by (auto simp: by_lookup_key_snoc update_conv')
  qed (use IH in \<open>auto simp: by_lookup_key_snoc update_conv'\<close>)
qed (simp add: by_lookup_key_def)

text \<open>The catalogs the code is made for: items and prices have names of their own.\<close>

definition catalog_named :: "ProductList \<Rightarrow> bool" where
  "catalog_named cat \<longleftrightarrow> distinct (map ps_id (productSpecs cat)) \<and>
     (\<forall>specs. priceSpecs cat = Inr specs \<longrightarrow> distinct (map rs_lookup_key specs) \<and> [] \<notin> rs_lookup_key ` set specs)"

text \<open>What seeding is to bring about.\<close>

definition product_seeded :: "(string \<Rightarrow> Product option) \<Rightarrow> productSpec \<Rightarrow> bool" where
  "product_seeded pds spec \<longleftrightarrow> (\<exists>pd. pds (ps_id spec) = Some pd \<and> pd_name pd = ps_name spec \<and> pd_active pd)"

definition carries :: "(string \<Rightarrow> FullPrice option) \<Rightarrow> string \<Rightarrow> FullPrice \<Rightarrow> bool" where
  "carries prs key p \<longleftrightarrow> prs (pr_id p) = Some p \<and> pr_lookup_key p = key"

definition price_seeded :: "string \<Rightarrow> (string \<Rightarrow> FullPrice option) \<Rightarrow> priceSpec \<Rightarrow> bool" where
  "price_seeded currency prs spec \<longleftrightarrow>
     (\<exists>p. carries prs (rs_lookup_key spec) p \<and> pr_active p \<and> price_matches spec p currency \<and> metadataMatches (pr_metadata p) (rs_metadata spec))"

definition catalog_seeded :: "ProductList \<Rightarrow> (string \<Rightarrow> Product option) \<Rightarrow> (string \<Rightarrow> FullPrice option) \<Rightarrow> bool" where
  "catalog_seeded cat pds prs \<longleftrightarrow> (\<forall>spec\<in>set (productSpecs cat). product_seeded pds spec) \<and>
     (\<exists>specs. priceSpecs cat = Inr specs \<and> (\<forall>spec\<in>set specs. price_seeded (ct_currency cat) prs spec))"

lemma carries_update:
  assumes "\<And>i q. prs i = Some q \<Longrightarrow> pr_id q = i" "prs i = Some old" "pr_id p = i" "pr_lookup_key p = pr_lookup_key old" "k \<noteq> pr_lookup_key old"
  shows "carries (prs(i \<mapsto> p)) k q \<longleftrightarrow> carries prs k q"
  using assms by (auto simp: carries_def)

text \<open>What one price step is to leave: the catalog's price under its key, the price it replaces archived, and every other price alone.\<close>

definition settles :: "string \<Rightarrow> priceSpec \<Rightarrow> (string \<Rightarrow> FullPrice option) \<Rightarrow> (string \<Rightarrow> FullPrice option) \<Rightarrow> bool" where
  "settles currency spec prs prs' \<longleftrightarrow>
     price_seeded currency prs' spec \<and>
     (\<forall>i p. prs i = Some p \<longrightarrow> pr_lookup_key p \<noteq> rs_lookup_key spec \<longrightarrow> prs' i = Some p) \<and>
     (\<forall>k p. k \<noteq> rs_lookup_key spec \<longrightarrow> k \<noteq> [] \<longrightarrow> carries prs' k p = carries prs k p) \<and>
     (\<forall>p. carries prs (rs_lookup_key spec) p \<longrightarrow> \<not> price_matches spec p currency \<longrightarrow>
        prs' (pr_id p) = Some (p\<lparr>pr_lookup_key := [], pr_active := False\<rparr>))"

definition with_price :: "FullPrice \<Rightarrow> (string \<Rightarrow> FullPrice option) \<Rightarrow> string \<Rightarrow> FullPrice option" where
  "with_price p prs = (\<lambda>i. if i = pr_id p then Some p else map_option (release_key (pr_lookup_key p)) (prs i))"

lemma created_seeded:
  assumes "created_as (createParams spec currency transfer) p" "distinct (map fst (rs_metadata spec))" "prs' (pr_id p) = Some p"
  shows "price_seeded currency prs' spec"
  unfolding price_seeded_def using assms created_matches [OF assms(1)] keeps_metadataMatches [OF assms(2), of "pr_metadata p"]
  by (intro exI [of _ p]) (simp add: carries_def created_as_def)

lemma with_price_other:
  assumes "prs (pr_id p) = None" "pr_lookup_key p = k"
  shows "prs i = Some q \<Longrightarrow> pr_lookup_key q \<noteq> k \<Longrightarrow> with_price p prs i = Some q"
    and "k' \<noteq> k \<Longrightarrow> k' \<noteq> [] \<Longrightarrow> carries (with_price p prs) k' q = carries prs k' q"
proof -
  show "prs i = Some q \<Longrightarrow> pr_lookup_key q \<noteq> k \<Longrightarrow> with_price p prs i = Some q" using assms by (auto simp: with_price_def)
  show "k' \<noteq> k \<Longrightarrow> k' \<noteq> [] \<Longrightarrow> carries (with_price p prs) k' q = carries prs k' q"
    using assms by (auto simp: with_price_def carries_def release_key_def split: if_splits)
qed

lemma settles_create:
  assumes "prs (pr_id p) = None" "created_as (createParams spec currency transfer) p" "distinct (map fst (rs_metadata spec))"
    "\<And>q. \<not> carries prs (rs_lookup_key spec) q"
  shows "settles currency spec prs (with_price p prs)"
proof -
  have k: "pr_lookup_key p = rs_lookup_key spec" using assms(2) by (simp add: created_as_def)
  have "price_seeded currency (with_price p prs) spec" by (rule created_seeded [OF assms(2,3)]) (simp add: with_price_def)
  then show ?thesis unfolding settles_def using with_price_other [where prs = prs and p = p, OF assms(1) k] assms(4) by blast
qed

lemma settles_update:
  assumes "carries prs (rs_lookup_key spec) old" "\<And>q. carries prs (rs_lookup_key spec) q \<Longrightarrow> q = old" "price_matches spec old currency"
    "keeps_metadata (rs_metadata spec) m" "distinct (map fst (rs_metadata spec))" "\<And>i q. prs i = Some q \<Longrightarrow> pr_id q = i"
  shows "settles currency spec prs (prs(pr_id old \<mapsto> old\<lparr>pr_active := True, pr_metadata := m\<rparr>))" (is "settles _ _ _ ?prs")
proof -
  have k: "prs (pr_id old) = Some old" "pr_lookup_key old = rs_lookup_key spec" using assms(1) by (simp_all add: carries_def)
  have "price_seeded currency ?prs spec"
    unfolding price_seeded_def using k assms(3) keeps_metadataMatches [OF assms(5,4)]
    by (intro exI [of _ "old\<lparr>pr_active := True, pr_metadata := m\<rparr>"]) (simp add: carries_def price_matches_def amountMatches_def)
  moreover have "carries ?prs k' q = carries prs k' q" if "k' \<noteq> rs_lookup_key spec" for k' q
    by (rule carries_update [where prs = prs and i = "pr_id old" and old = old, OF assms(6) k(1)]) (use k(2) that in auto)
  moreover have "?prs i = Some q" if "prs i = Some q" "pr_lookup_key q \<noteq> rs_lookup_key spec" for i q using that k by auto
  moreover have "price_matches spec q currency" if "carries prs (rs_lookup_key spec) q" for q using assms(2) [OF that] assms(3) by simp
  ultimately show ?thesis unfolding settles_def by blast
qed

lemma settles_replace:
  assumes "carries prs (rs_lookup_key spec) old" "\<And>q. carries prs (rs_lookup_key spec) q \<Longrightarrow> q = old" "\<And>i q. with_price p prs i = Some q \<Longrightarrow> pr_id q = i"
    and "prs (pr_id p) = None" "created_as (createParams spec currency transfer) p" "distinct (map fst (rs_metadata spec))"
  shows "settles currency spec prs ((with_price p prs)(pr_id old \<mapsto> old\<lparr>pr_lookup_key := [], pr_active := False\<rparr>))" (is "settles _ _ _ ?prs")
proof -
  have k: "prs (pr_id old) = Some old" "pr_lookup_key old = rs_lookup_key spec" using assms(1) by (simp_all add: carries_def)
  have kp: "pr_lookup_key p = rs_lookup_key spec" using assms(5) by (simp add: created_as_def)
  have ne: "pr_id old \<noteq> pr_id p" using assms(4) k by auto
  have old: "with_price p prs (pr_id old) = Some (old\<lparr>pr_lookup_key := []\<rparr>)" using k kp ne by (simp add: with_price_def)
  note others = with_price_other [where prs = prs and p = p, OF assms(4) kp]
  have "price_seeded currency ?prs spec" by (rule created_seeded [OF assms(5,6)]) (use ne in \<open>simp add: with_price_def\<close>)
  moreover have "carries ?prs k' q = carries prs k' q" if "k' \<noteq> rs_lookup_key spec" "k' \<noteq> []" for k' q
  proof -
    have "carries ?prs k' q = carries (with_price p prs) k' q" by (rule carries_update [where prs = "with_price p prs" and i = "pr_id old", OF assms(3) old]) (use that in auto)
    then show ?thesis using others(2) [OF that] by simp
  qed
  moreover have "?prs i = Some q" if q: "prs i = Some q" "pr_lookup_key q \<noteq> rs_lookup_key spec" for i q
    using others(1) [OF q] k q by auto
  moreover have "?prs (pr_id q) = Some (q\<lparr>pr_lookup_key := [], pr_active := False\<rparr>)" if "carries prs (rs_lookup_key spec) q" for q
    using assms(2) [OF that] by simp
  ultimately show ?thesis unfolding settles_def by blast
qed

lemma settles_keeps:
  assumes "settles currency spec prs prs1" "x \<in> set specs" "rs_lookup_key spec \<notin> rs_lookup_key ` set specs" "[] \<notin> rs_lookup_key ` set specs"
  shows "carries prs1 (rs_lookup_key x) p = carries prs (rs_lookup_key x) p"
proof -
  have "rs_lookup_key x \<noteq> rs_lookup_key spec" "rs_lookup_key x \<noteq> []" using assms(2-4) by (auto simp: rev_image_eqI)
  then show ?thesis using assms(1) unfolding settles_def by blast
qed

text \<open>The same for all the prices of the catalog: those under other keys, or under none, stay as they are.\<close>

definition settles_all :: "string \<Rightarrow> priceSpec list \<Rightarrow> (string \<Rightarrow> FullPrice option) \<Rightarrow> (string \<Rightarrow> FullPrice option) \<Rightarrow> bool" where
  "settles_all currency specs prs prs' \<longleftrightarrow>
     (\<forall>spec\<in>set specs. price_seeded currency prs' spec) \<and>
     (\<forall>i p. prs i = Some p \<longrightarrow> pr_lookup_key p \<notin> rs_lookup_key ` set specs \<longrightarrow> prs' i = Some p) \<and>
     (\<forall>spec\<in>set specs. \<forall>p. carries prs (rs_lookup_key spec) p \<longrightarrow> \<not> price_matches spec p currency \<longrightarrow>
        prs' (pr_id p) = Some (p\<lparr>pr_lookup_key := [], pr_active := False\<rparr>))"

lemma settles_Cons:
  assumes "settles currency spec prs prs1" "settles_all currency specs prs1 prs2" "rs_lookup_key spec \<notin> rs_lookup_key ` set specs" "[] \<notin> rs_lookup_key ` set specs"
  shows "settles_all currency (spec # specs) prs prs2"
proof -
  have seeded: "price_seeded currency prs1 spec" and other: "\<And>i p. prs i = Some p \<Longrightarrow> pr_lookup_key p \<noteq> rs_lookup_key spec \<Longrightarrow> prs1 i = Some p"
    and same: "\<And>k p. k \<noteq> rs_lookup_key spec \<Longrightarrow> k \<noteq> [] \<Longrightarrow> carries prs1 k p = carries prs k p"
    and archived: "\<And>p. carries prs (rs_lookup_key spec) p \<Longrightarrow> \<not> price_matches spec p currency \<Longrightarrow> prs1 (pr_id p) = Some (p\<lparr>pr_lookup_key := [], pr_active := False\<rparr>)"
    using assms(1) unfolding settles_def by blast+
  have all: "\<And>x. x \<in> set specs \<Longrightarrow> price_seeded currency prs2 x"
    and kept: "\<And>i p. prs1 i = Some p \<Longrightarrow> pr_lookup_key p \<notin> rs_lookup_key ` set specs \<Longrightarrow> prs2 i = Some p"
    and archived2: "\<And>x p. x \<in> set specs \<Longrightarrow> carries prs1 (rs_lookup_key x) p \<Longrightarrow> \<not> price_matches x p currency \<Longrightarrow>
      prs2 (pr_id p) = Some (p\<lparr>pr_lookup_key := [], pr_active := False\<rparr>)"
    using assms(2) unfolding settles_all_def by blast+
  obtain p where p: "prs1 (pr_id p) = Some p" "pr_lookup_key p = rs_lookup_key spec" "pr_active p" "price_matches spec p currency"
    "metadataMatches (pr_metadata p) (rs_metadata spec)" using seeded by (auto simp: price_seeded_def carries_def)
  have "prs2 (pr_id p) = Some p" by (rule kept [OF p(1)]) (simp add: p(2) assms(3))
  then have "price_seeded currency prs2 spec" unfolding price_seeded_def carries_def using p by blast
  moreover have "prs2 i = Some q" if "prs i = Some q" "pr_lookup_key q \<notin> rs_lookup_key ` set (spec # specs)" for i q
    using that other kept by simp
  moreover have "prs2 (pr_id q) = Some (q\<lparr>pr_lookup_key := [], pr_active := False\<rparr>)"
    if x: "x \<in> set (spec # specs)" "carries prs (rs_lookup_key x) q" "\<not> price_matches x q currency" for x q
  proof (cases "x = spec")
    case True
    then show ?thesis by (intro kept archived) (use x assms(4) in simp_all)
  next
    case False
    then have "x \<in> set specs" "rs_lookup_key x \<noteq> rs_lookup_key spec" "rs_lookup_key x \<noteq> []" using x(1) assms(3,4) by (auto simp: rev_image_eqI)
    then show ?thesis using x archived2 same by blast
  qed
  ultimately show ?thesis unfolding settles_all_def using all by simp
qed

context stripe_catalog
begin

lemma seed_product_step:
  assumes s: "ok s" "seed_product api spec res s = (None, res', s')" "ps_id spec \<noteq> []"
  shows "ok s' \<and> prices s' = prices s \<and> product_seeded (products s') spec \<and> (\<forall>i. i \<noteq> ps_id spec \<longrightarrow> products s' i = products s i) \<and>
    (product_seeded (products s) spec \<longrightarrow> products s' = products s \<and> res' = res)"
proof -
  obtain r s1 where g: "ca_get_product api (ps_id spec) s = (r, s1)" by fastforce
  have ok1: "ok s1" using ok_product(1) [OF s(1), of "ps_id spec"] g by simp
  show ?thesis
  proof (cases r)
    case (Inl e)
    then have m: "IsMissing e" using s(2) g by (auto simp: seed_product_def split: if_splits)
    have none: "products s (ps_id spec) = None" "products s1 = products s" "prices s1 = prices s"
      using missing_product [OF s(1) g [unfolded Inl] m] by auto
    obtain pd where pc: "ca_create_product api (product_params spec) s1 = (Inr pd, s')"
      using s(2) g Inl m by (auto simp: seed_product_def split: prod.splits sum.splits)
    have "ok s'" using ok_product(2) [OF ok1, of "product_params spec"] pc by simp
    then show ?thesis using created_product [OF ok1 pc] s(3) none by (auto simp: product_seeded_def product_params_def)
  next
    case (Inr pd)
    have f: "products s (ps_id spec) = Some pd" "products s1 = products s" "prices s1 = prices s" using found_product [OF s(1) g [unfolded Inr]] by auto
    show ?thesis
    proof (cases "pd_name pd \<noteq> ps_name spec \<or> \<not> pd_active pd")
      case True
      then obtain pd' where u: "ca_update_product api (ps_id spec) \<lparr>pu_name = Some (ps_name spec), pu_active = Some True, pu_metadata = None\<rparr> s1 = (Inr pd', s')"
        using s(2) g Inr by (auto simp: seed_product_def split: prod.splits sum.splits)
      then have "ok s'" using ok_product(3) [OF ok1] by (metis snd_conv)
      then show ?thesis using updated_product [OF ok1 u] f True by (auto simp: product_seeded_def)
    next
      case False
      then show ?thesis using s(2) g Inr f ok1 by (auto simp: seed_product_def product_seeded_def split: if_splits)
    qed
  qed
qed

lemma seed_products:
  assumes "ok s" "seed_each (seed_product api) specs res s = (None, res', s')" "[] \<notin> ps_id ` set specs" "distinct (map ps_id specs)"
  shows "ok s' \<and> prices s' = prices s \<and> (\<forall>spec\<in>set specs. product_seeded (products s') spec) \<and>
    (\<forall>i. i \<notin> ps_id ` set specs \<longrightarrow> products s' i = products s i) \<and>
    ((\<forall>spec\<in>set specs. product_seeded (products s) spec) \<longrightarrow> products s' = products s \<and> res' = res)"
  using assms
proof (induction specs arbitrary: res s)
  case (Cons spec specs)
  obtain res1 s1 where f: "seed_product api spec res s = (None, res1, s1)" "seed_each (seed_product api) specs res1 s1 = (None, res', s')"
    using Cons.prems(2) by (auto split: prod.splits option.splits)
  note st = seed_product_step [OF Cons.prems(1) f(1)]
  have st: "ok s1" "prices s1 = prices s" "product_seeded (products s1) spec" "\<And>i. i \<noteq> ps_id spec \<Longrightarrow> products s1 i = products s i"
    "product_seeded (products s) spec \<Longrightarrow> products s1 = products s \<and> res1 = res" using st Cons.prems(3) by auto
  note IH = Cons.IH [OF st(1) f(2)]
  have IH: "ok s'" "prices s' = prices s1" "\<And>x. x \<in> set specs \<Longrightarrow> product_seeded (products s') x"
    "\<And>i. i \<notin> ps_id ` set specs \<Longrightarrow> products s' i = products s1 i"
    "(\<forall>x\<in>set specs. product_seeded (products s1) x) \<Longrightarrow> products s' = products s1 \<and> res' = res1" using IH Cons.prems(3,4) by auto
  have "products s' (ps_id spec) = products s1 (ps_id spec)" using IH(4) Cons.prems(4) by auto
  then have "product_seeded (products s') spec" using st(3) by (simp add: product_seeded_def)
  then have "\<forall>x\<in>set (spec # specs). product_seeded (products s') x" using IH(3) by simp
  moreover have "\<forall>i. i \<notin> ps_id ` set (spec # specs) \<longrightarrow> products s' i = products s i" using IH(4) st(4) by simp
  moreover have "(\<forall>x\<in>set (spec # specs). product_seeded (products s) x) \<longrightarrow> products s' = products s \<and> res' = res"
    using IH(5) st(5) by simp
  ultimately show ?case using IH(1,2) st(2) by simp
qed simp

lemma unique_carrier:
  assumes "ok s" "carries (prices s) k p" "carries (prices s) k q" "k \<noteq> []"
  shows "p = q"
proof -
  have p: "prices s (pr_id p) = Some p" "prices s (pr_id q) = Some q" "pr_lookup_key p = pr_lookup_key q" "pr_lookup_key p \<noteq> []"
    using assms by (simp_all add: carries_def)
  have "pr_id p = pr_id q" by (rule key_once [OF assms(1) p])
  then show ?thesis using p(1,2) by (metis option.inject)
qed

lemma create_price_step:
  assumes "ok s" "ca_create_price api (createParams spec currency transfer) s = (Inr p, s')"
  shows "ok s'" "prices s (pr_id p) = None" "created_as (createParams spec currency transfer) p" "products s' = products s" "prices s' = with_price p (prices s)"
  using created_price [OF assms] ok_price(2) [OF assms(1), of "createParams spec currency transfer"] assms(2)
  by (auto simp: created_as_def with_price_def)

lemma update_price_step:
  assumes "ok s" "ca_update_price api i \<lparr>pq_active = Some b, pq_metadata = w, pq_lookup_key = None\<rparr> s = (Inr p, s')" "prices s i = Some old"
  shows "ok s'" "products s' = products s"
    "\<exists>m. prices s' = (prices s)(i \<mapsto> old\<lparr>pr_active := b, pr_metadata := m\<rparr>) \<and> (case w of Some want \<Rightarrow> keeps_metadata want m | None \<Rightarrow> m = pr_metadata old)"
  using updated_price [OF assms(1,2)] ok_price(3) [OF assms(1), of "\<lparr>pq_active = Some b, pq_metadata = w, pq_lookup_key = None\<rparr>" i] assms(2,3) by auto

text \<open>One price: what the step leaves, given what the listing said of its key.\<close>

lemma seed_price_step:
  assumes s: "ok s" "seed_price api currency byKey spec res s = (None, res', s')" "rs_lookup_key spec \<noteq> []" "distinct (map fst (rs_metadata spec))"
    and listed: "\<And>p. map_of byKey (rs_lookup_key spec) = Some p \<longleftrightarrow> carries (prices s) (rs_lookup_key spec) p"
  shows "ok s' \<and> products s' = products s \<and> settles currency spec (prices s) (prices s') \<and>
    (price_seeded currency (prices s) spec \<longrightarrow> prices s' = prices s \<and> res' = res)"
proof (cases "map_of byKey (rs_lookup_key spec)")
  case None
  then obtain p where c: "ca_create_price api (createParams spec currency False) s = (Inr p, s')"
    using s(2) by (auto simp: seed_price_def split: prod.splits sum.splits)
  have free: "\<not> carries (prices s) (rs_lookup_key spec) q" for q using listed [of q] None by simp
  note n = create_price_step [OF s(1) c]
  show ?thesis using n(1,4,5) settles_create [OF n(2,3) s(4) free] free by (auto simp: price_seeded_def)
next
  case (Some old)
  have c: "carries (prices s) (rs_lookup_key spec) old" using listed Some by blast
  then have k: "prices s (pr_id old) = Some old" by (simp add: carries_def)
  have only: "q = old" if "carries (prices s) (rs_lookup_key spec) q" for q by (rule unique_carrier [OF s(1) that c s(3)])
  consider (same) "price_matches spec old currency" "pr_active old" "metadataMatches (pr_metadata old) (rs_metadata spec)"
    | (update) "price_matches spec old currency" "\<not> (pr_active old \<and> metadataMatches (pr_metadata old) (rs_metadata spec))"
    | (replace) "\<not> price_matches spec old currency" by blast
  then show ?thesis
  proof cases
    case same
    then have "s' = s" "res' = res" using s(2) Some by (auto simp: seed_price_def)
    moreover have seeded: "price_seeded currency (prices s) spec" unfolding price_seeded_def using c same by blast
    moreover have "settles currency spec (prices s) (prices s)" unfolding settles_def using seeded only same(1) by blast
    ultimately show ?thesis using s(1) by simp
  next
    case update
    then obtain p where u: "ca_update_price api (pr_id old) \<lparr>pq_active = Some True, pq_metadata = Some (rs_metadata spec), pq_lookup_key = None\<rparr> s = (Inr p, s')"
      using s(2) Some by (auto simp: seed_price_def split: prod.splits sum.splits)
    note u' = update_price_step [OF s(1) u k]
    obtain m where m: "prices s' = (prices s)(pr_id old \<mapsto> old\<lparr>pr_active := True, pr_metadata := m\<rparr>)" "keeps_metadata (rs_metadata spec) m"
      using u'(3) by auto
    have "\<not> price_seeded currency (prices s) spec" using only update(2) by (auto simp: price_seeded_def)
    then show ?thesis using u'(1,2) m(1) settles_update [OF c only update(1) m(2) s(4) id_kept [OF s(1)]] by simp
  next
    case replace
    obtain p s1 where cr: "ca_create_price api (createParams spec currency True) s = (Inr p, s1)"
      and up: "\<exists>p'. ca_update_price api (pr_id old) \<lparr>pq_active = Some False, pq_metadata = None, pq_lookup_key = None\<rparr> s1 = (Inr p', s')"
      using s(2) Some replace by (auto simp: seed_price_def split: prod.splits sum.splits)
    note n = create_price_step [OF s(1) cr]
    have "prices s1 (pr_id old) = Some (old\<lparr>pr_lookup_key := []\<rparr>)" using n(2,3,5) c by (auto simp: with_price_def created_as_def carries_def)
    then have u': "ok s'" "products s' = products s1" "prices s' = (prices s1)(pr_id old \<mapsto> old\<lparr>pr_lookup_key := [], pr_active := False\<rparr>)"
      using up update_price_step [OF n(1)] by fastforce+
    have "\<not> price_seeded currency (prices s) spec" using only replace by (auto simp: price_seeded_def)
    then show ?thesis using u' n(4) settles_replace [OF c only _ n(2,3) s(4)] id_kept [OF n(1)] n(5) by simp
  qed
qed

lemma seed_prices:
  assumes "ok s" "seed_each (seed_price api currency byKey) specs res s = (None, res', s')"
    "distinct (map rs_lookup_key specs)" "[] \<notin> rs_lookup_key ` set specs" "\<And>spec. spec \<in> set specs \<Longrightarrow> distinct (map fst (rs_metadata spec))"
    "\<And>spec p. spec \<in> set specs \<Longrightarrow> map_of byKey (rs_lookup_key spec) = Some p \<longleftrightarrow> carries (prices s) (rs_lookup_key spec) p"
  shows "ok s' \<and> products s' = products s \<and> settles_all currency specs (prices s) (prices s') \<and>
    ((\<forall>spec\<in>set specs. price_seeded currency (prices s) spec) \<longrightarrow> prices s' = prices s \<and> res' = res)"
  using assms
proof (induction specs arbitrary: res s)
  case (Cons spec specs)
  obtain res1 s1 where f: "seed_price api currency byKey spec res s = (None, res1, s1)" "seed_each (seed_price api currency byKey) specs res1 s1 = (None, res', s')"
    using Cons.prems(2) by (auto split: prod.splits option.splits)
  have "ok s1 \<and> products s1 = products s \<and> settles currency spec (prices s) (prices s1) \<and>
      (price_seeded currency (prices s) spec \<longrightarrow> prices s1 = prices s \<and> res1 = res)"
    by (rule seed_price_step [OF Cons.prems(1) f(1)]) (use Cons.prems(4-6) in auto)
  then have st: "ok s1" "products s1 = products s" "settles currency spec (prices s) (prices s1)"
    "price_seeded currency (prices s) spec \<Longrightarrow> prices s1 = prices s \<and> res1 = res" by blast+
  have "carries (prices s1) (rs_lookup_key x) p = carries (prices s) (rs_lookup_key x) p" if "x \<in> set specs" for x p
    by (rule settles_keeps [OF st(3) that]) (use Cons.prems(3,4) in auto)
  then have "distinct (map rs_lookup_key specs)" "[] \<notin> rs_lookup_key ` set specs" "\<And>x. x \<in> set specs \<Longrightarrow> distinct (map fst (rs_metadata x))"
    "\<And>x p. x \<in> set specs \<Longrightarrow> map_of byKey (rs_lookup_key x) = Some p \<longleftrightarrow> carries (prices s1) (rs_lookup_key x) p"
    using Cons.prems(3-6) by simp_all
  note ih = Cons.IH [OF st(1) f(2) this]
  have "settles_all currency (spec # specs) (prices s) (prices s')"
    by (rule settles_Cons [OF st(3)]) (use ih Cons.prems(3,4) in auto)
  then show ?case using ih st(2,4) by auto
qed (simp add: settles_all_def)

lemma listed_keys:
  assumes "ok s" "ca_list_prices api s = (Inr ps, s')" "k \<noteq> []"
  shows "map_of (by_lookup_key ps) k = Some p \<longleftrightarrow> carries (prices s) k p"
proof -
  have ps: "q \<in> set ps \<longleftrightarrow> prices s (pr_id q) = Some q" for q using listed_prices [OF assms(1,2)] by blast
  have "map_of (by_lookup_key ps) k = Some p \<longleftrightarrow> p \<in> set ps \<and> pr_lookup_key p = k"
    by (rule by_lookup_key_iff [OF _ assms(3)], rule unique_carrier [OF assms(1)]) (simp_all add: carries_def ps)
  then show ?thesis by (simp add: carries_def ps)
qed

text \<open>A run without an error leaves Stripe as the catalog says.\<close>

lemma Seed_brings:
  assumes "ok s" "catalog_named cat" "Seed api cat s = (None, res, s')"
  shows "ok s' \<and> catalog_seeded cat (products s') (prices s') \<and>
    (\<forall>i. i \<notin> ps_id ` set (productSpecs cat) \<longrightarrow> products s' i = products s i) \<and>
    (\<exists>specs. priceSpecs cat = Inr specs \<and> settles_all (ct_currency cat) specs (prices s) (prices s')) \<and>
    (catalog_seeded cat (products s) (prices s) \<longrightarrow>
      products s' = products s \<and> prices s' = prices s \<and> res = \<lparr>sr_created = [], sr_updated = [], sr_archived = []\<rparr>)"
proof -
  obtain res1 s1 ps s2 specs where f: "seed_each (seed_product api) (productSpecs cat) \<lparr>sr_created = [], sr_updated = [], sr_archived = []\<rparr> s = (None, res1, s1)"
      "ca_list_prices api s1 = (Inr ps, s2)" "priceSpecs cat = Inr specs"
      "seed_each (seed_price api (ct_currency cat) (by_lookup_key ps)) specs res1 s2 = (None, res, s')"
    using assms(3) by (auto simp: Seed_def split: prod.splits option.splits sum.splits)
  have named: "distinct (map ps_id (productSpecs cat))" "distinct (map rs_lookup_key specs)" "[] \<notin> rs_lookup_key ` set specs"
    using assms(2) f(3) by (auto simp: catalog_named_def)
  have "[] \<notin> ps_id ` set (productSpecs cat)" by (auto simp: productSpecs_def ProductID_def)
  note p = seed_products [OF assms(1) f(1) this named(1)]
  then have ok1: "ok s1" and pr1: "prices s1 = prices s" by blast+
  have l: "products s2 = products s1" "prices s2 = prices s1" "ok s2" using listed_prices [OF ok1 f(2)] ok_price(1) [OF ok1] f(2) by auto
  have "map_of (by_lookup_key ps) (rs_lookup_key spec) = Some q \<longleftrightarrow> carries (prices s2) (rs_lookup_key spec) q" if "spec \<in> set specs" for spec q
    unfolding l(2) by (rule listed_keys [OF ok1 f(2)]) (use named(3) that in \<open>metis imageI\<close>)
  note q = seed_prices [OF l(3) f(4) named(2,3) spec_metadata_distinct [OF f(3)] this]
  have "catalog_seeded cat (products s') (prices s')" unfolding catalog_seeded_def using p q l f(3) by (simp add: settles_all_def)
  moreover have "products s' = products s \<and> prices s' = prices s \<and> res = \<lparr>sr_created = [], sr_updated = [], sr_archived = []\<rparr>"
    if "catalog_seeded cat (products s) (prices s)" using that p q l pr1 f(3) by (simp add: catalog_seeded_def)
  ultimately show ?thesis using p q l pr1 f(3) by simp
qed

text \<open>A run that fails keeps Stripe fit for the next one.\<close>

lemma seed_each_ok:
  assumes "\<And>x res s. ok s \<Longrightarrow> ok (snd (snd (f x res s)))" "ok s"
  shows "ok (snd (snd (seed_each f xs res s)))"
  using assms(2)
proof (induction xs arbitrary: res s)
  case (Cons x xs)
  obtain e res1 s1 where f: "f x res s = (e, res1, s1)" by (metis prod_cases3)
  then have "ok s1" using assms(1) [OF Cons.prems, of x res] by simp
  then show ?case using f Cons.IH [of s1 res1] by (cases e) simp_all
qed simp

lemma Seed_ok: "ok s \<Longrightarrow> ok (snd (snd (Seed api cat s)))"
proof -
  assume s: "ok s"
  have u: "ok s \<Longrightarrow> ca_get_product api i s = (r, s') \<Longrightarrow> ok s'" "ok s \<Longrightarrow> ca_create_product api pc s = (r, s') \<Longrightarrow> ok s'"
    "ok s \<Longrightarrow> ca_update_product api i pu s = (r, s') \<Longrightarrow> ok s'" for s i pc pu r s' using ok_product by (metis snd_conv)+
  have v: "ok s \<Longrightarrow> ca_list_prices api s = (r, s') \<Longrightarrow> ok s'" "ok s \<Longrightarrow> ca_create_price api cp s = (r', s') \<Longrightarrow> ok s'"
    "ok s \<Longrightarrow> ca_update_price api i \<lparr>pq_active = b, pq_metadata = m, pq_lookup_key = None\<rparr> s = (r', s') \<Longrightarrow> ok s'" for s i cp b m r r' s'
    using ok_price(1) ok_price(2) ok_price(3) [of s "\<lparr>pq_active = b, pq_metadata = m, pq_lookup_key = None\<rparr>" i] by (metis snd_conv PriceUpdate.select_convs(3))+
  have product: "ok (snd (snd (seed_product api spec res s)))" if "ok s" for spec res s
  proof -
    obtain r s1 where g: "ca_get_product api (ps_id spec) s = (r, s1)" by fastforce
    note ok1 = u(1) [OF that g]
    show ?thesis using g ok1 by (cases r) (auto simp: seed_product_def split: prod.split sum.split dest: u(2) [OF ok1] u(3) [OF ok1])
  qed
  have p: "ok (snd (snd (seed_each (seed_product api) specs res s)))" for specs res by (rule seed_each_ok [OF product s])
  have price: "ok (snd (snd (seed_price api currency byKey spec res s)))" if "ok s" for currency byKey spec res s
    by (cases "map_of byKey (rs_lookup_key spec)")
      (auto simp: seed_price_def split: prod.split sum.split intro: that dest: v(2) [OF that] v(3) [OF that] elim: v(3) [rotated])
  have q: "ok (snd (snd (seed_each (seed_price api currency byKey) specs res s)))" if "ok s" for currency byKey specs res s
    by (rule seed_each_ok [OF price that])
  obtain e res1 s1 where f: "seed_each (seed_product api) (productSpecs cat) \<lparr>sr_created = [], sr_updated = [], sr_archived = []\<rparr> s = (e, res1, s1)"
    by (metis prod_cases3)
  then have ok1: "ok s1" using p by (metis snd_conv)
  show ?thesis using f ok1 q [OF v(1) [OF ok1]] v(1) [OF ok1] by (auto simp: Seed_def split: prod.split option.split sum.split)
qed

end

text \<open>While Stripe is up every call with sense succeeds, and seeding ends without an error.\<close>

locale stripe_up = stripe_catalog +
  fixes up :: "'a \<Rightarrow> bool"
  assumes up_kept: "up s \<Longrightarrow> up (snd (ca_get_product api i s))" "up s \<Longrightarrow> up (snd (ca_create_product api pc s))" "up s \<Longrightarrow> up (snd (ca_update_product api i pu s))"
      "up s \<Longrightarrow> up (snd (ca_list_prices api s))" "up s \<Longrightarrow> up (snd (ca_create_price api cp s))" "up s \<Longrightarrow> up (snd (ca_update_price api i pq s))"
    and product_read: "up s \<Longrightarrow> fst (ca_get_product api i s) = Inl e \<Longrightarrow> IsMissing e"
    and product_created: "up s \<Longrightarrow> \<not> isl (fst (ca_create_product api pc s))"
    and product_updated: "up s \<Longrightarrow> products s i \<noteq> None \<Longrightarrow> \<not> isl (fst (ca_update_product api i pu s))"
    and prices_listed: "up s \<Longrightarrow> \<not> isl (fst (ca_list_prices api s))"
    and price_created: "ok s \<Longrightarrow> up s \<Longrightarrow> cp_transfer cp \<or> (\<forall>i p. prices s i = Some p \<longrightarrow> pr_lookup_key p \<noteq> cp_lookup_key cp) \<Longrightarrow> \<not> isl (fst (ca_create_price api cp s))"
    and price_updated: "up s \<Longrightarrow> prices s i \<noteq> None \<Longrightarrow> \<not> isl (fst (ca_update_price api i pq s))"
begin

lemma answered:
  assumes "\<not> isl (fst r)" "up (snd r)"
  obtains x s' where "r = (Inr x, s')" "up s'"
  using assms by (cases r; cases "fst r") auto

lemma seed_product_succeeds:
  assumes "ok s" "up s"
  shows "\<exists>res' s'. seed_product api spec res s = (None, res', s') \<and> up s'"
proof -
  obtain r s1 where g: "ca_get_product api (ps_id spec) s = (r, s1)" by fastforce
  have up1: "up s1" using up_kept(1) [OF assms(2), of "ps_id spec"] g by simp
  obtain pd s2 where c: "ca_create_product api (product_params spec) s1 = (Inr pd, s2)" "up s2"
    by (rule answered [OF product_created [OF up1] up_kept(2) [OF up1]])
  show ?thesis
  proof (cases r)
    case (Inl e)
    then show ?thesis using g c product_read [OF assms(2), of "ps_id spec" e] by (simp add: seed_product_def)
  next
    case (Inr old)
    have "products s1 (ps_id spec) \<noteq> None" using found_product [OF assms(1) g [unfolded Inr]] by simp
    then obtain pd' s3 where "ca_update_product api (ps_id spec) \<lparr>pu_name = Some (ps_name spec), pu_active = Some True, pu_metadata = None\<rparr> s1 = (Inr pd', s3)" "up s3"
      by (rule answered [OF product_updated [OF up1] up_kept(3) [OF up1]])
    then show ?thesis using g Inr up1 by (simp add: seed_product_def)
  qed
qed

lemma seed_products_succeed:
  assumes "ok s" "up s" "[] \<notin> ps_id ` set specs"
  shows "\<exists>res' s'. seed_each (seed_product api) specs res s = (None, res', s') \<and> up s'"
  using assms
proof (induction specs arbitrary: res s)
  case (Cons spec specs)
  obtain res1 s1 where f: "seed_product api spec res s = (None, res1, s1)" "up s1" using seed_product_succeeds [OF Cons.prems(1,2)] by blast
  have "ok s1" using seed_product_step [OF Cons.prems(1) f(1)] Cons.prems(3) by auto
  then show ?case using Cons.IH [of s1 res1] f Cons.prems(3) by simp
qed simp

lemma seed_price_succeeds:
  assumes "ok s" "up s" "\<And>p. map_of byKey (rs_lookup_key spec) = Some p \<longleftrightarrow> carries (prices s) (rs_lookup_key spec) p"
  shows "\<exists>res' s'. seed_price api currency byKey spec res s = (None, res', s') \<and> up s'"
proof (cases "map_of byKey (rs_lookup_key spec)")
  case None
  then have "\<forall>i p. prices s i = Some p \<longrightarrow> pr_lookup_key p \<noteq> rs_lookup_key spec" using assms(3) id_kept [OF assms(1)] by (fastforce simp: carries_def)
  then have "\<not> isl (fst (ca_create_price api (createParams spec currency False) s))" by (intro price_created assms(1,2)) simp
  then obtain p s1 where "ca_create_price api (createParams spec currency False) s = (Inr p, s1)" "up s1"
    by (rule answered [OF _ up_kept(5) [OF assms(2)]])
  then show ?thesis using None by (simp add: seed_price_def)
next
  case (Some old)
  then have old: "prices s (pr_id old) = Some old" using assms(3) by (simp add: carries_def)
  have u: "\<exists>p s2. ca_update_price api (pr_id old) pq s1 = (Inr p, s2) \<and> up s2" if "prices s1 (pr_id old) \<noteq> None" "up s1" for pq s1
    by (rule answered [OF price_updated [OF that(2,1)] up_kept(6) [OF that(2)]]) blast
  have "cp_transfer (createParams spec currency True)" by (simp add: createParams_def Let_def)
  then have "\<not> isl (fst (ca_create_price api (createParams spec currency True) s))" by (intro price_created assms(1,2)) simp
  then obtain p s1 where c: "ca_create_price api (createParams spec currency True) s = (Inr p, s1)" "up s1"
    by (rule answered [OF _ up_kept(5) [OF assms(2)]])
  have "prices s1 (pr_id old) \<noteq> None" using create_price_step(5) [OF assms(1) c(1)] old by (simp add: with_price_def)
  from u [OF this c(2), of "\<lparr>pq_active = Some False, pq_metadata = None, pq_lookup_key = None\<rparr>"]
    u [of s "\<lparr>pq_active = Some True, pq_metadata = Some (rs_metadata spec), pq_lookup_key = None\<rparr>"]
  show ?thesis using Some c(1) old assms(2) by (auto simp: seed_price_def)
qed

lemma seed_prices_succeed:
  assumes "ok s" "up s" "distinct (map rs_lookup_key specs)" "[] \<notin> rs_lookup_key ` set specs" "\<And>spec. spec \<in> set specs \<Longrightarrow> distinct (map fst (rs_metadata spec))"
    "\<And>spec p. spec \<in> set specs \<Longrightarrow> map_of byKey (rs_lookup_key spec) = Some p \<longleftrightarrow> carries (prices s) (rs_lookup_key spec) p"
  shows "\<exists>res' s'. seed_each (seed_price api currency byKey) specs res s = (None, res', s')"
  using assms
proof (induction specs arbitrary: res s)
  case (Cons spec specs)
  have listed: "map_of byKey (rs_lookup_key spec) = Some p \<longleftrightarrow> carries (prices s) (rs_lookup_key spec) p" for p by (rule Cons.prems(6)) simp
  obtain res1 s1 where f: "seed_price api currency byKey spec res s = (None, res1, s1)" "up s1"
    using seed_price_succeeds [OF Cons.prems(1,2) listed] by blast
  have "rs_lookup_key spec \<noteq> []" "distinct (map fst (rs_metadata spec))" using Cons.prems(4,5) by auto
  note st = seed_price_step [OF Cons.prems(1) f(1) this listed]
  have keep: "carries (prices s1) (rs_lookup_key x) p = carries (prices s) (rs_lookup_key x) p" if "x \<in> set specs" for x p
    by (rule settles_keeps [OF _ that]) (use st Cons.prems(3,4) in auto)
  have "\<exists>res' s'. seed_each (seed_price api currency byKey) specs res1 s1 = (None, res', s')"
    by (rule Cons.IH) (use st f(2) Cons.prems(3-6) keep in auto)
  then show ?case using f(1) by simp
qed simp

lemma Seed_succeeds:
  assumes "ok s" "up s" "catalog_named cat" "priceSpecs cat = Inr specs"
  shows "fst (Seed api cat s) = None"
proof -
  have named: "distinct (map ps_id (productSpecs cat))" "distinct (map rs_lookup_key specs)" "[] \<notin> rs_lookup_key ` set specs"
    using assms(3,4) by (auto simp: catalog_named_def)
  have ids: "[] \<notin> ps_id ` set (productSpecs cat)" by (auto simp: productSpecs_def ProductID_def)
  obtain res1 s1 where p: "seed_each (seed_product api) (productSpecs cat) \<lparr>sr_created = [], sr_updated = [], sr_archived = []\<rparr> s = (None, res1, s1)" "up s1"
    using seed_products_succeed [OF assms(1,2) ids] by blast
  have ok1: "ok s1" using seed_products [OF assms(1) p(1) ids named(1)] by blast
  obtain ps s2 where l: "ca_list_prices api s1 = (Inr ps, s2)" "up s2" by (rule answered [OF prices_listed [OF p(2)] up_kept(4) [OF p(2)]])
  have s2: "prices s2 = prices s1" "ok s2" using listed_prices [OF ok1 l(1)] ok_price(1) [OF ok1] l(1) by auto
  have "map_of (by_lookup_key ps) (rs_lookup_key spec) = Some q \<longleftrightarrow> carries (prices s2) (rs_lookup_key spec) q" if "spec \<in> set specs" for spec q
    unfolding s2(1) by (rule listed_keys [OF ok1 l(1)]) (use named(3) that in \<open>metis imageI\<close>)
  from seed_prices_succeed [OF s2(2) l(2) named(2,3) spec_metadata_distinct [OF assms(4)] this] obtain res2 s3 where
    "seed_each (seed_price api (ct_currency cat) (by_lookup_key ps)) specs res1 s2 = (None, res2, s3)" by blast
  then show ?thesis using p(1) l(1) assms(4) by (simp add: Seed_def)
qed

end

end
