(* ===== verification/Commands.thy ===== *)
theory Commands
  imports Serve Go_Flag Billing_Seed
begin

text \<open>
  The operators' commands: \<open>src/main.go\<close> and \<open>src/admin.go\<close>. A verb is a function of its arguments and of the process: the store,
  the notifications sent, what was printed, and what was reported on the error stream, kept by kind. Opening the store and loading
  the configuration are the environment's. A table is the text given to the tab writer, which only aligns it.
\<close>

section \<open>The process\<close>

datatype cli_error =
    StoreFailed access_error
  | LookupFailed string access_error
  | GrantRefused GrantError
  | EnvironmentFailed string
  | UnknownInterval string
  | PublicInterval string
  | BillingFailed billing_error
  | FetchFailed string billing_error
  | SeedFailed seed_error

datatype cli_message =
    UsageLine string string
  | CommandList "(string \<times> string) list"
  | UnknownCommand string
  | FlagProblem flag_error
  | Required string
  | BadWindow WindowError
  | Failure cli_error
  | AuditFailed string access_error
  | ReloadFailed access_error
  | Alerted billing_alert

record cli =
  cl_db :: db
  cl_notices :: "string list"
  cl_out :: string
  cl_err :: "cli_message list"

text \<open>Who runs the command, the time, the random draws, whether the table was written, and what the configuration and the store open as.\<close>

record cli_env =
  ce_user :: "string option"
  ce_now :: time
  ce_rands :: "nat \<Rightarrow> string option"
  ce_flush :: bool
  ce_config :: "string \<Rightarrow> string + Config"
  ce_open :: "string option"
  ce_version :: string

type_synonym 's verb_run = "cli_env \<Rightarrow> string list \<Rightarrow> 's cli_scheme \<Rightarrow> int \<times> 's cli_scheme"

definition cli_store :: "'a op \<Rightarrow> 's cli_scheme \<Rightarrow> (access_error + 'a) \<times> 's cli_scheme" where
  "cli_store f s = (case f (cl_db s) of (r, d) \<Rightarrow> (r, s\<lparr>cl_db := d\<rparr>))"

definition report :: "cli_message \<Rightarrow> 's cli_scheme \<Rightarrow> 's cli_scheme" where
  "report msg s = s\<lparr>cl_err := cl_err s @ [msg]\<rparr>"

definition printed :: "string \<Rightarrow> 's cli_scheme \<Rightarrow> 's cli_scheme" where
  "printed t s = s\<lparr>cl_out := cl_out s @ t\<rparr>"

abbreviation nl :: string where "nl \<equiv> [CHR 0x0A]"
abbreviation tab :: string where "tab \<equiv> [CHR 0x09]"

section \<open>Verbs and commands\<close>

definition verbList :: "(string \<times> 'v) list \<Rightarrow> string" where
  "verbList verbs = join '' | '' (map fst verbs)"

definition runVerb :: "string \<Rightarrow> (string \<times> 's verb_run) list \<Rightarrow> 's verb_run" where
  "runVerb cmd verbs en args s =
     (case args of
        [] \<Rightarrow> (2, report (UsageLine cmd (verbList verbs)) s)
      | v # rest \<Rightarrow>
          (case map_of verbs v of
             Some run \<Rightarrow> run en rest s
           | None \<Rightarrow> (2, report (UsageLine cmd (verbList verbs)) s)))"

text \<open>A verb's own flags: a parse error is reported and exits 2; what follows the flags is left alone.\<close>

definition with_flags :: "(string \<times> flag_value) list \<Rightarrow> (cli_env \<Rightarrow> flags \<Rightarrow> 's cli_scheme \<Rightarrow> int \<times> 's cli_scheme) \<Rightarrow> 's verb_run" where
  "with_flags formal body en args s =
     (case parse_flags \<lparr>fl_formal = formal, fl_actual = []\<rparr> args of
        Inl e \<Rightarrow> (2, report (FlagProblem e) s)
      | Inr (fs, _) \<Rightarrow> body en fs s)"

fun extract_config :: "string \<Rightarrow> string list \<Rightarrow> string \<times> string list" where
  "extract_config path [] = (path, [])"
| "extract_config path (arg # args) =
     (if arg = ''-config'' \<or> arg = ''--config'' then (case args of [] \<Rightarrow> (path, []) | p # rest \<Rightarrow> extract_config p rest)
      else if has_prefix arg ''-config='' then extract_config (drop 8 arg) args
      else if has_prefix arg ''--config='' then extract_config (drop 9 arg) args
      else case extract_config path args of (p, rest) \<Rightarrow> (p, arg # rest))"

definition extractConfigFlag :: "string list \<Rightarrow> string \<times> string list" where
  "extractConfigFlag args = extract_config [] args"

definition cli_fail :: "cli_error \<Rightarrow> 's cli_scheme \<Rightarrow> int \<times> 's cli_scheme" where
  "cli_fail err s = (1, report (Failure err) s)"

definition withStore :: "(Config \<Rightarrow> 's verb_run) \<Rightarrow> 's verb_run" where
  "withStore fn en args s =
     (case extractConfigFlag args of (path, rest) \<Rightarrow>
        (case ce_config en path of
           Inl msg \<Rightarrow> cli_fail (EnvironmentFailed msg) s
         | Inr cfg \<Rightarrow> (case ce_open en of Some msg \<Rightarrow> cli_fail (EnvironmentFailed msg) s | None \<Rightarrow> fn cfg en rest s)))"

text \<open>The first empty one of the required flags, if any.\<close>

definition need :: "(string \<times> string) list \<Rightarrow> 's cli_scheme \<Rightarrow> bool \<times> 's cli_scheme" where
  "need wanted s =
     (case find (\<lambda>(_, val). val = []) wanted of None \<Rightarrow> (True, s) | Some (name, _) \<Rightarrow> (False, report (Required name) s))"

definition byEmail :: "string \<Rightarrow> 's cli_scheme \<Rightarrow> Account option \<times> 's cli_scheme" where
  "byEmail email s =
     (case need [(''email'', email)] s of
        (False, s1) \<Rightarrow> (None, s1)
      | (True, s1) \<Rightarrow>
          (case cli_store (GetAccountByEmail email) s1 of
             (Inl err, s2) \<Rightarrow> (None, report (Failure (LookupFailed email err)) s2)
           | (Inr a, s2) \<Rightarrow> (Some a, s2)))"

definition exitFor :: "string \<Rightarrow> int" where
  "exitFor email = (if email = [] then 2 else 1)"

definition cliActor :: "cli_env \<Rightarrow> string" where
  "cliActor en = (case ce_user en of Some u \<Rightarrow> if u \<noteq> [] then ''cli:'' @ u else ''cli'' | None \<Rightarrow> ''cli'')"

definition cli_audit :: "cli_env \<Rightarrow> string \<Rightarrow> int \<Rightarrow> string \<Rightarrow> string \<Rightarrow> 's cli_scheme \<Rightarrow> 's cli_scheme" where
  "cli_audit en action aid target detail s =
     (case cli_store (RecordAdminAction (cliActor en) action aid target detail) s of
        (Inl err, s1) \<Rightarrow> report (AuditFailed action err) s1
      | (Inr _, s1) \<Rightarrow> s1)"

definition recordChange :: "cli_env \<Rightarrow> string \<Rightarrow> int \<Rightarrow> string \<Rightarrow> string \<Rightarrow> 's cli_scheme \<Rightarrow> 's cli_scheme" where
  "recordChange en action aid target detail s =
     (case cli_store driver_call (cli_audit en action aid target detail s) of
        (Inl err, s1) \<Rightarrow> report (ReloadFailed err) s1
      | (Inr _, s1) \<Rightarrow> s1\<lparr>cl_notices := cl_notices s1 @ [[]]\<rparr>)"

definition flushTab :: "cli_env \<Rightarrow> string \<Rightarrow> 's cli_scheme \<Rightarrow> int \<times> 's cli_scheme" where
  "flushTab en t s = (if ce_flush en then (0, printed t s) else (1, s))"

definition table_line :: "string list \<Rightarrow> string" where
  "table_line cells = join tab cells @ nl"

definition fmtTime :: "time option \<Rightarrow> string" where
  "fmtTime t = (case t of None \<Rightarrow> ''-'' | Some u \<Rightarrow> format_date u)"

section \<open>Accounts\<close>

fun status_word :: "AccountStatus \<Rightarrow> string" where
  "status_word AccountActive = ''active''"
| "status_word AccountSuspended = ''suspended''"
| "status_word (AccountOther s) = s"

fun entitlement_status_word :: "EntitlementStatus \<Rightarrow> string" where
  "entitlement_status_word EntitlementActive = ''active''"
| "entitlement_status_word EntitlementEnded = ''ended''"
| "entitlement_status_word (EntitlementOther s) = s"

fun source_word :: "Source \<Rightarrow> string" where
  "source_word SourceStripe = ''stripe''"
| "source_word SourceManual = ''manual''"
| "source_word SourceTrial = ''trial''"
| "source_word (SourceOther s) = s"

definition accountAdd :: "'s verb_run" where
  "accountAdd =
     with_flags [(''email'', FlagText []), (''note'', FlagText [])] (\<lambda>en fs s0.
       let email = flag_text fs ''email''; nt = flag_text fs ''note'' in
       case need [(''email'', email)] s0 of
         (False, s) \<Rightarrow> (2, s)
       | (True, s) \<Rightarrow>
           (case cli_store (CreateAccount email nt) s of
              (Inl err, s1) \<Rightarrow> cli_fail (StoreFailed err) s1
            | (Inr a, s1) \<Rightarrow>
                (0, printed (''account '' @ format_int (a_id a) @ '' '' @ a_email a @ '' created'' @ nl) (cli_audit en ''account add'' (a_id a) [] nt s1))))"

definition accountSetStatus :: "AccountStatus \<Rightarrow> 's verb_run" where
  "accountSetStatus status =
     with_flags [(''email'', FlagText [])] (\<lambda>en fs s0.
       let email = flag_text fs ''email'' in
       case byEmail email s0 of
         (None, s) \<Rightarrow> (exitFor email, s)
       | (Some a, s) \<Rightarrow>
           (case cli_store (SetAccountStatus (a_id a) status) s of
              (Inl err, s1) \<Rightarrow> cli_fail (StoreFailed err) s1
            | (Inr _, s1) \<Rightarrow>
                (0, printed (''account '' @ format_int (a_id a) @ '' '' @ a_email a @ '' is now '' @ status_word status @ nl)
                      (recordChange en ''status'' (a_id a) [] (status_word status) s1))))"

definition accountList :: "'s verb_run" where
  "accountList =
     with_flags [] (\<lambda>en fs s.
       case cli_store ListAccounts s of
         (Inl err, s1) \<Rightarrow> cli_fail (StoreFailed err) s1
       | (Inr accounts, s1) \<Rightarrow>
           flushTab en (concat (map table_line ([''ID'', ''EMAIL'', ''STATUS'', ''CREATED'', ''NOTE''] #
             map (\<lambda>a. [format_int (a_id a), a_email a, status_word (a_status a), format_date (a_created_at a), a_note a]) accounts))) s1)"

section \<open>Keys\<close>

definition keyKindFor :: "int \<Rightarrow> 's cli_scheme \<Rightarrow> (access_error + KeyKind) \<times> 's cli_scheme" where
  "keyKindFor aid s = (case cli_store (ListEntitlements aid) s of (r, s1) \<Rightarrow> (map_sum id KeyKindFor r, s1))"

definition keyCreate :: "'s verb_run" where
  "keyCreate =
     with_flags [(''email'', FlagText []), (''label'', FlagText [])] (\<lambda>en fs s0.
       let email = flag_text fs ''email''; label = flag_text fs ''label'' in
       case byEmail email s0 of
         (None, s) \<Rightarrow> (exitFor email, s)
       | (Some a, s) \<Rightarrow>
           (case keyKindFor (a_id a) s of
              (Inl err, s1) \<Rightarrow> cli_fail (StoreFailed err) s1
            | (Inr kind, s1) \<Rightarrow>
                (case cli_store (CreateKey (ce_rands en) (a_id a) label kind) s1 of
                   (Inl err, s2) \<Rightarrow> cli_fail (StoreFailed err) s2
                 | (Inr (plain, k), s2) \<Rightarrow>
                     (0, printed (''key created for '' @ a_email a @ '' ('' @ kind_string kind @ '', prefix '' @ k_prefix k @ ''). Shown once, copy it now:'' @
                           nl @ nl @ ''    '' @ plain @ nl @ nl)
                         (recordChange en ''key create'' (a_id a) (k_prefix k) (trim_space (kind_string kind @ '' '' @ label)) s2)))))"

definition keyRevoke :: "'s verb_run" where
  "keyRevoke =
     with_flags [(''prefix'', FlagText [])] (\<lambda>en fs s0.
       let prefix = flag_text fs ''prefix'' in
       case need [(''prefix'', prefix)] s0 of
         (False, s) \<Rightarrow> (2, s)
       | (True, s) \<Rightarrow>
           (case cli_store (RevokeKeyByPrefix prefix) s of
              (Inl err, s1) \<Rightarrow> cli_fail (StoreFailed err) s1
            | (Inr k, s1) \<Rightarrow>
                (0, printed (''key '' @ k_prefix k @ '' revoked'' @ nl) (recordChange en ''key revoke'' (k_account_id k) (k_prefix k) [] s1))))"

definition keyList :: "'s verb_run" where
  "keyList =
     with_flags [(''email'', FlagText [])] (\<lambda>en fs s0.
       let email = flag_text fs ''email'' in
       case byEmail email s0 of
         (None, s) \<Rightarrow> (exitFor email, s)
       | (Some a, s) \<Rightarrow>
           (case cli_store (ListKeys (a_id a)) s of
              (Inl err, s1) \<Rightarrow> cli_fail (StoreFailed err) s1
            | (Inr ks, s1) \<Rightarrow>
                flushTab en (concat (map table_line ([''PREFIX'', ''KIND'', ''LABEL'', ''CREATED'', ''LAST USED'', ''REVOKED''] #
                  map (\<lambda>k. [k_prefix k, kind_string (k_kind k), k_label k, format_date (k_created_at k), fmtTime (k_last_used_at k), fmtTime (k_revoked_at k)]) ks))) s1))"

section \<open>Grants\<close>

definition lookback_words :: "int \<Rightarrow> string" where
  "lookback_words days = (if days > 0 then format_int days @ ''d'' else [])"

definition grantAdd :: "string list \<Rightarrow> 's verb_run" where
  "grantAdd known =
     with_flags [(''email'', FlagText []), (''games'', FlagText []), (''stores'', FlagText []), (''modes'', FlagText []), (''lookback'', FlagNumber 0),
         (''until'', FlagText []), (''note'', FlagText [])] (\<lambda>en fs s0.
       let email = flag_text fs ''email''; games = flag_text fs ''games''; stores = flag_text fs ''stores''; modes = flag_text fs ''modes'' in
       case byEmail email s0 of
         (None, s) \<Rightarrow> (exitFor email, s)
       | (Some a, s) \<Rightarrow>
           (case need ([(''games'', games), (''modes'', modes)] @ (if equal_fold (trim_space modes) ModeHistory then [] else [(''stores'', stores)])) s of
              (False, s1) \<Rightarrow> (2, s1)
            | (True, s1) \<Rightarrow>
                (case ManualGrant \<lparr>mg_account_id = a_id a, mg_games = SplitList games, mg_stores = stores, mg_modes = split_on comma modes,
                       mg_lookback = flag_number fs ''lookback'', mg_until = flag_text fs ''until'', mg_note = flag_text fs ''note''\<rparr> known (ce_now en) of
                   Inl ge \<Rightarrow> cli_fail (GrantRefused ge) s1
                 | Inr e0 \<Rightarrow>
                     (case cli_store (AddEntitlement (ce_now en) e0) s1 of
                        (Inl err, s2) \<Rightarrow> cli_fail (StoreFailed err) s2
                      | (Inr e, s2) \<Rightarrow>
                          (0, printed (''entitlement '' @ format_int (e_id e) @ '' added for '' @ a_email a @ '': games '' @ join '','' (e_games e) @ '', stores '' @
                                e_store_scope e @ '', modes '' @ join '','' (e_modes e) @
                                (if e_lookback_days e > 0 then '', lookback '' @ lookback_words (e_lookback_days e) else []) @ nl)
                              (recordChange en ''grant'' (a_id a) (''entitlement '' @ format_int (e_id e)) (GrantDetail e) s2))))))"

definition grantEnd :: "'s verb_run" where
  "grantEnd =
     with_flags [(''id'', FlagNumber 0)] (\<lambda>en fs s.
       let eid = flag_number fs ''id'' in
       if eid = 0 then (2, report (Required ''id'') s)
       else (case cli_store (EndEntitlement eid 0 (ce_now en)) s of
           (Inl err, s1) \<Rightarrow> cli_fail (StoreFailed err) s1
         | (Inr e, s1) \<Rightarrow>
             (0, printed (''entitlement '' @ format_int eid @ '' ended'' @ nl) (recordChange en ''end'' (e_account_id e) (''entitlement '' @ format_int eid) [] s1))))"

definition grantList :: "'s verb_run" where
  "grantList =
     with_flags [(''email'', FlagText [])] (\<lambda>en fs s0.
       let email = flag_text fs ''email'' in
       case byEmail email s0 of
         (None, s) \<Rightarrow> (exitFor email, s)
       | (Some a, s) \<Rightarrow>
           (case cli_store (ListEntitlements (a_id a)) s of
              (Inl err, s1) \<Rightarrow> cli_fail (StoreFailed err) s1
            | (Inr ents, s1) \<Rightarrow>
                flushTab en (concat (map table_line ([''ID'', ''SOURCE'', ''STATUS'', ''GAMES'', ''STORES'', ''MODES'', ''LOOKBACK'', ''FROM'', ''UNTIL'', ''NOTE''] #
                  map (\<lambda>e. [format_int (e_id e), source_word (e_source e), entitlement_status_word (e_status e), join '','' (e_games e), e_store_scope e, join '','' (e_modes e),
                    lookback_words (e_lookback_days e), format_date (e_valid_from e), fmtTime (e_valid_until e), e_note e]) ents))) s1))"

section \<open>Usage\<close>

definition usage_restriction :: "string \<Rightarrow> 's cli_scheme \<Rightarrow> (access_error + int) \<times> 's cli_scheme" where
  "usage_restriction email s =
     (if email = [] then (Inr 0, s) else case cli_store (GetAccountByEmail email) s of (r, s1) \<Rightarrow> (map_sum id a_id r, s1))"

definition adminUsageCmd :: "'s verb_run" where
  "adminUsageCmd =
     with_flags [(''since'', FlagText []), (''until'', FlagText []), (''email'', FlagText [])] (\<lambda>en fs s.
       case UsageWindow (flag_text fs ''since'') (flag_text fs ''until'') (ce_now en) of
         Inl we \<Rightarrow> (2, report (BadWindow we) s)
       | Inr (from, to) \<Rightarrow>
           (case usage_restriction (flag_text fs ''email'') s of
              (Inl err, s1) \<Rightarrow> cli_fail (StoreFailed err) s1
            | (Inr aid, s1) \<Rightarrow>
                (case cli_store (SummarizeUsage from to aid) s1 of
                   (Inl err, s2) \<Rightarrow> cli_fail (StoreFailed err) s2
                 | (Inr rows, s2) \<Rightarrow>
                     flushTab en (concat (map table_line ([''EMAIL'', ''GAME'', ''REQUESTS'', ''BYTES'', ''ERRORS''] #
                       map (\<lambda>r. [ur_email r, ur_game r, format_int (ur_requests r), format_int (ur_bytes r), format_int (ur_errors r)]) rows))) s2)))"

section \<open>The tables of commands\<close>

definition adminVerbs :: "string list \<Rightarrow> (string \<times> (string \<times> 's verb_run) list) list" where
  "adminVerbs games =
     [(''account'', [(''add'', accountAdd), (''suspend'', accountSetStatus AccountSuspended), (''reinstate'', accountSetStatus AccountActive), (''list'', accountList)]),
      (''key'', [(''create'', keyCreate), (''revoke'', keyRevoke), (''list'', keyList)]),
      (''grant'', [(''add'', grantAdd games), (''end'', grantEnd), (''list'', grantList)])]"

definition runAdmin :: "string list \<Rightarrow> string \<Rightarrow> 's verb_run" where
  "runAdmin games cmd =
     (if cmd = ''usage'' then adminUsageCmd
      else runVerb cmd (case map_of (adminVerbs games) cmd of Some verbs \<Rightarrow> verbs | None \<Rightarrow> []))"

definition adminCommand :: "string \<Rightarrow> 's verb_run" where
  "adminCommand name = withStore (\<lambda>cfg. runAdmin (Config_GameNames cfg) name)"

record 's command =
  cm_usage :: string
  cm_run :: "'s verb_run"

definition version_command :: "'s command" where
  "version_command = \<lparr>cm_usage = ''print the build version'', cm_run = (\<lambda>en _ s. (0, printed (''api-gatewahy '' @ ce_version en @ nl) s))\<rparr>"

definition admin_commands :: "(string \<times> 's command) list" where
  "admin_commands =
     map (\<lambda>(name, verbs). (name, \<lparr>cm_usage = verbList verbs, cm_run = adminCommand name\<rparr>)) (adminVerbs [] :: (string \<times> (string \<times> 's verb_run) list) list) @
     [(''usage'', \<lparr>cm_usage = ''summarize requests by account and game'', cm_run = adminCommand ''usage''\<rparr>)]"

text \<open>The usage text: every command with its line, in the order of the names.\<close>

definition usage_lines :: "(string \<times> 's command) list \<Rightarrow> (string \<times> string) list" where
  "usage_lines cmds = map (\<lambda>name. (name, case map_of cmds name of Some c \<Rightarrow> cm_usage c | None \<Rightarrow> [])) (sort (map fst cmds))"

definition run_command :: "(string \<times> 's command) list \<Rightarrow> 's verb_run" where
  "run_command cmds en args s =
     (case args of
        [] \<Rightarrow> (2, report (CommandList (usage_lines cmds)) s)
      | name # rest \<Rightarrow>
          (case map_of cmds name of
             None \<Rightarrow> (2, report (CommandList (usage_lines cmds)) (report (UnknownCommand name) s))
           | Some c \<Rightarrow> cm_run c en rest s))"

section \<open>Lemmas\<close>

text \<open>The tables but the log.\<close>

definition all_tables :: "db \<Rightarrow> (account_row list \<times> Key list \<times> Entitlement list \<times> Invite list) \<times> magic_link list \<times> (string \<times> time) list \<times>
    stripe_event list \<times> Trial list \<times> Usage list" where
  "all_tables d = (admin_tables d, db_links d, db_nonces d, db_events d, db_trials d, db_usage d)"

text \<open>A call that fails, by the driver or by a refusal, leaves the tables; no call but the log's writes to the log.\<close>

definition refuses :: "'a op \<Rightarrow> bool" where
  "refuses f \<longleftrightarrow> (\<forall>d. (isl (fst (f d)) \<longrightarrow> all_tables (snd (f d)) = all_tables d) \<and> db_actions (snd (f d)) = db_actions d)"

lemma refuses_stmt: "refuses f \<Longrightarrow> refuses (stmt f)"
proof -
  assume f: "refuses f"
  show ?thesis unfolding refuses_def
  proof (intro allI)
    fix d
    have "(isl (fst (f (d\<lparr>db_faults := fs\<rparr>))) \<longrightarrow> all_tables (snd (f (d\<lparr>db_faults := fs\<rparr>))) = all_tables (d\<lparr>db_faults := fs\<rparr>)) \<and>
        db_actions (snd (f (d\<lparr>db_faults := fs\<rparr>))) = db_actions (d\<lparr>db_faults := fs\<rparr>)" for fs using f unfolding refuses_def by blast
    then show "(isl (fst (stmt f d)) \<longrightarrow> all_tables (snd (stmt f d)) = all_tables d) \<and> db_actions (snd (stmt f d)) = db_actions d"
      using f [unfolded refuses_def, rule_format, of d]
      by (cases "db_faults d"; cases "hd (db_faults d)") (auto simp: stmt_def all_tables_def admin_tables_def)
  qed
qed

lemma refuses_updates:
  "refuses (SetAccountStatus aid status)" "refuses (RevokeKeyByPrefix prefix)"
  using update_none [of "\<lambda>r. ar_id r = aid"] update_none [of "\<lambda>k. k_prefix k = prefix \<and> k_revoked_at k = None"]
  by (auto simp: refuses_def SetAccountStatus_def RevokeKeyByPrefix_def and_then_def update_accounts_def update_keys_def stmt_def need_row_def one_row_def
      fail_def give_def all_tables_def admin_tables_def update_where_def split: list.splits option.splits)

lemma refuses_inserts: "refuses (CreateAccount email note)" "refuses (insert_key aid hash prefix label kind)" "refuses (insertEntitlement p)"
  unfolding CreateAccount_def insert_key_def insertEntitlement_def
  by (rule refuses_stmt, (auto simp: refuses_def all_tables_def admin_tables_def Let_def split: prod.splits option.splits)[1])+


lemma refuses_CreateKey: "refuses (CreateKey rands aid label kind)"
proof -
  have "refuses (create_key_loop n rands aid label kind)" for n
  proof (induction n)
    case 0
    then show ?case by (simp add: refuses_def fail_def)
  next
    case (Suc n)
    show ?case unfolding refuses_def
    proof (intro allI)
      fix d
      show "(isl (fst (create_key_loop (Suc n) rands aid label kind d)) \<longrightarrow> all_tables (snd (create_key_loop (Suc n) rands aid label kind d)) = all_tables d) \<and>
          db_actions (snd (create_key_loop (Suc n) rands aid label kind d)) = db_actions d"
      proof (cases "GenerateKey kind (rands n)")
        case (Inr p)
        obtain plain hash prefix where p: "p = (plain, hash, prefix)" by (cases p)
        obtain r d1 where i: "insert_key aid hash prefix label kind d = (r, d1)" by fastforce
        then show ?thesis using refuses_inserts(2) [unfolded refuses_def, rule_format, of aid hash prefix label kind d]
            Suc [unfolded refuses_def, rule_format, of d1] Inr p by (cases r) auto
      qed simp
    qed
  qed
  then show ?thesis unfolding CreateKey_def .
qed

lemma refuses_entitlements: "refuses (AddEntitlement now e)" "refuses (EndEntitlement eid aid tm)"
proof -
  show "refuses (AddEntitlement now e)"
    using refuses_inserts(3) by (auto simp: refuses_def AddEntitlement_def prepared_def fail_def split: sum.splits)
  let ?P = "\<lambda>e. e_id e = eid \<and> e_status e \<noteq> EntitlementEnded \<and> e_source e \<noteq> SourceStripe \<and> (aid = 0 \<or> e_account_id e = aid)"
  let ?A = "stmt (\<lambda>d. case update_where ?P (\<lambda>e. e\<lparr>e_status := EntitlementEnded, e_valid_until := Some tm\<rparr>) (db_entitlements d) of
      (rows, changed) \<Rightarrow> (one_row changed, d\<lparr>db_entitlements := rows\<rparr>))"
  let ?B = "stmt (\<lambda>d. (one_row (filter (\<lambda>e. e_id e = eid \<and> (aid = 0 \<or> e_account_id e = aid)) (db_entitlements d)), d))"
  have a: "refuses ?A" using update_none [of ?P]
    by (intro refuses_stmt) (auto simp: refuses_def one_row_def all_tables_def admin_tables_def update_where_def split: list.splits)
  have b: "reads ?B" by (rule reads_stmt) simp
  show "refuses (EndEntitlement eid aid tm)" unfolding refuses_def
  proof (intro allI)
    fix d
    obtain r d1 where r: "?A d = (r, d1)" by fastforce
    obtain q d2 where q: "?B d1 = (q, d2)" by fastforce
    have d1: "isl r \<longrightarrow> all_tables d1 = all_tables d" "db_actions d1 = db_actions d" using a [unfolded refuses_def, rule_format, of d] r by simp_all
    have d2: "all_tables d2 = all_tables d1" "db_actions d2 = db_actions d1"
      using b [unfolded reads_def, rule_format, of d1] q by (auto simp: all_tables_def admin_tables_def)
    show "(isl (fst (EndEntitlement eid aid tm d)) \<longrightarrow> all_tables (snd (EndEntitlement eid aid tm d)) = all_tables d) \<and>
        db_actions (snd (EndEntitlement eid aid tm d)) = db_actions d"
      unfolding EndEntitlement_def r prod.case using d1 d2 q by (auto split: sum.split)
  qed
qed

text \<open>What a command leaves as it was, its reports apart.\<close>

definition unchanged :: "'s cli_scheme \<Rightarrow> 's cli_scheme \<Rightarrow> bool" where
  "unchanged s s' \<longleftrightarrow> all_tables (cl_db s') = all_tables (cl_db s) \<and> db_actions (cl_db s') = db_actions (cl_db s) \<and>
     cl_notices s' = cl_notices s \<and> (\<exists>new. cl_err s' = cl_err s @ new)"

text \<open>
  What a change leaves: its entry in the log, or a report that it could not be written, and the notification of the gateways, or a
  report of that.
\<close>

definition on_record :: "bool \<Rightarrow> cli_env \<Rightarrow> 's cli_scheme \<Rightarrow> 's cli_scheme \<Rightarrow> bool" where
  "on_record announce en s s' \<longleftrightarrow>
     (\<exists>new. cl_err s' = cl_err s @ new \<and>
        ((\<exists>row. db_actions (cl_db s') = db_actions (cl_db s) @ [row] \<and> aa_actor row = NormalizeEmail (cliActor en)) \<or>
         db_actions (cl_db s') = db_actions (cl_db s) \<and> (\<exists>action err. AuditFailed action err \<in> set new)) \<and>
        (if announce then cl_notices s' = cl_notices s @ [[]] \<or> cl_notices s' = cl_notices s \<and> (\<exists>err. ReloadFailed err \<in> set new)
         else cl_notices s' = cl_notices s))"

lemma unchanged_refl [simp]: "unchanged s s"
  by (simp add: unchanged_def)

lemma unchanged_trans: "unchanged s s1 \<Longrightarrow> unchanged s1 s2 \<Longrightarrow> unchanged s s2"
  by (auto simp: unchanged_def)

lemma unchanged_report [simp]: "unchanged s (report msg s)" "unchanged s (printed t s)"
  by (simp_all add: unchanged_def report_def printed_def)

lemma unchanged_fail: "unchanged s (snd (cli_fail err s))" "fst (cli_fail err s) = 1"
  by (simp_all add: cli_fail_def)

lemma unchanged_need: "need wanted s = (ok, s1) \<Longrightarrow> unchanged s s1"
  by (auto simp: need_def split: option.splits)

lemma store_refused: "refuses f \<Longrightarrow> cli_store f s = (Inl err, s1) \<Longrightarrow> unchanged s s1"
  unfolding refuses_def cli_store_def unchanged_def by (auto split: prod.splits dest!: spec [of _ "cl_db s"])

lemma store_read: "reads f \<Longrightarrow> cli_store f s = (r, s1) \<Longrightarrow> unchanged s s1"
  unfolding reads_def cli_store_def unchanged_def by (auto split: prod.splits simp: all_tables_def admin_tables_def dest!: spec [of _ "cl_db s"])

definition fine :: "bool \<Rightarrow> cli_env \<Rightarrow> 's cli_scheme \<Rightarrow> int \<times> 's cli_scheme \<Rightarrow> bool" where
  "fine announce en s r \<longleftrightarrow> fst r \<in> {0, 1, 2} \<and> (unchanged s (snd r) \<or> fst r = 0 \<and> on_record announce en s (snd r))"

named_theorems fine_intros \<open>commands that change nothing, or leave a record\<close>

lemma fine_unchanged: "unchanged s s1 \<Longrightarrow> code \<in> {0, 1, 2} \<Longrightarrow> fine announce en s (code, s1)"
  by (simp add: fine_def)

lemma fine_fail: "unchanged s s1 \<Longrightarrow> fine announce en s (cli_fail err s1)"
  by (simp add: fine_def cli_fail_def unchanged_trans [OF _ unchanged_report(1)])

lemma fine_flush: "unchanged s s1 \<Longrightarrow> fine announce en s (flushTab en t s1)"
  by (simp add: fine_def flushTab_def unchanged_trans [OF _ unchanged_report(2)])

lemma audited:
  assumes "cli_audit en action aid target detail s1 = s2"
  shows "all_tables (cl_db s2) = all_tables (cl_db s1) \<and> cl_notices s2 = cl_notices s1 \<and> (\<exists>new. cl_err s2 = cl_err s1 @ new \<and>
    ((\<exists>row. db_actions (cl_db s2) = db_actions (cl_db s1) @ [row] \<and> aa_actor row = NormalizeEmail (cliActor en)) \<or>
     db_actions (cl_db s2) = db_actions (cl_db s1) \<and> (\<exists>action err. AuditFailed action err \<in> set new)))"
  using assms by (auto simp: cli_audit_def cli_store_def RecordAdminAction_def stmt_def report_def all_tables_def admin_tables_def split: list.splits option.splits)

lemma announced:
  assumes "recordChange en action aid target detail s1 = s3"
  obtains s2 where "cli_audit en action aid target detail s1 = s2" "db_actions (cl_db s3) = db_actions (cl_db s2)"
    "cl_err s3 = cl_err s2 \<and> cl_notices s3 = cl_notices s2 @ [[]] \<or> (\<exists>err. cl_err s3 = cl_err s2 @ [ReloadFailed err] \<and> cl_notices s3 = cl_notices s2)"
  using assms by (auto simp: recordChange_def cli_store_def driver_call_def stmt_def report_def split: list.splits option.splits)

lemma fine_change:
  assumes "unchanged s s0" "refuses f" "cli_store f s0 = (Inr x, s1)"
  shows "fine False en s (0, printed t (cli_audit en action aid target detail s1))" "fine True en s (0, printed t (recordChange en action aid target detail s1))"
proof -
  obtain new0 where s1: "db_actions (cl_db s1) = db_actions (cl_db s)" "cl_notices s1 = cl_notices s" "cl_err s1 = cl_err s @ new0"
    using assms by (auto simp: refuses_def cli_store_def unchanged_def split: prod.splits dest!: spec [of _ "cl_db s0"])
  note a = audited [OF refl, of en action aid target detail s1]
  show "fine False en s (0, printed t (cli_audit en action aid target detail s1))"
    using a s1 by (fastforce simp: fine_def on_record_def printed_def)
  show "fine True en s (0, printed t (recordChange en action aid target detail s1))"
  proof (rule announced [OF refl, of en action aid target detail s1])
    fix s2 assume "cli_audit en action aid target detail s1 = s2"
      "db_actions (cl_db (recordChange en action aid target detail s1)) = db_actions (cl_db s2)"
      "cl_err (recordChange en action aid target detail s1) = cl_err s2 \<and> cl_notices (recordChange en action aid target detail s1) = cl_notices s2 @ [[]] \<or>
        (\<exists>err. cl_err (recordChange en action aid target detail s1) = cl_err s2 @ [ReloadFailed err] \<and>
          cl_notices (recordChange en action aid target detail s1) = cl_notices s2)"
    then show ?thesis using a s1 by (fastforce simp: fine_def on_record_def printed_def)
  qed
qed

lemma fine_with_flags: "(\<And>fs. fine announce en s (body en fs s)) \<Longrightarrow> fine announce en s (with_flags formal body en args s)"
  by (auto simp: with_flags_def fine_unchanged split: sum.splits)

lemma byEmail_unchanged: "byEmail email s = (a, s1) \<Longrightarrow> unchanged s s1"
  by (auto simp: byEmail_def need_def dest!: store_read [OF reads_queries(2)] intro: unchanged_trans [OF _ unchanged_report(1)] split: prod.splits sum.splits if_splits)

lemma keyKindFor_unchanged: "keyKindFor aid s = (r, s1) \<Longrightarrow> unchanged s s1"
  by (auto simp: keyKindFor_def dest!: store_read [OF reads_queries(3)] split: prod.splits)

lemma restriction_unchanged: "usage_restriction email s = (r, s1) \<Longrightarrow> unchanged s s1"
  by (auto simp: usage_restriction_def dest!: store_read [OF reads_queries(2)] split: prod.splits if_splits)

text \<open>The shapes the verbs are made of.\<close>

lemma fine_byEmail [fine_intros]:
  assumes "unchanged s s0" "\<And>a s1. unchanged s s1 \<Longrightarrow> fine announce en s (k a s1)"
  shows "fine announce en s (case byEmail email s0 of (None, s) \<Rightarrow> (exitFor email, s) | (Some a, s) \<Rightarrow> k a s)"
  using assms byEmail_unchanged [of email s0] unchanged_trans [OF assms(1)]
  by (auto simp: fine_unchanged exitFor_def split: prod.split option.split)

lemma fine_need [fine_intros]:
  assumes "unchanged s s0" "\<And>s1. unchanged s s1 \<Longrightarrow> fine announce en s (k s1)"
  shows "fine announce en s (case need wanted s0 of (False, s) \<Rightarrow> (2, s) | (True, s) \<Rightarrow> k s)"
  using assms unchanged_need [of wanted s0] unchanged_trans [OF assms(1)] by (auto simp: fine_unchanged split: prod.split bool.split)

lemma fine_asked:
  assumes "ask s0 = (r, s1)" "unchanged s0 s1" "unchanged s s0" "\<And>x s1. unchanged s s1 \<Longrightarrow> fine announce en s (k x s1)"
  shows "fine announce en s (case ask s0 of (Inl err, s1) \<Rightarrow> cli_fail (StoreFailed err) s1 | (Inr x, s1) \<Rightarrow> k x s1)"
  using assms unchanged_trans [OF assms(3)] by (auto simp: fine_fail split: sum.split)

lemma fine_read:
  assumes "reads f" "unchanged s s0" "\<And>x s1. unchanged s s1 \<Longrightarrow> fine announce en s (k x s1)"
  shows "fine announce en s (case cli_store f s0 of (Inl err, s1) \<Rightarrow> cli_fail (StoreFailed err) s1 | (Inr x, s1) \<Rightarrow> k x s1)"
proof -
  obtain r s1 where a: "cli_store f s0 = (r, s1)" by fastforce
  show ?thesis by (rule fine_asked [of "cli_store f", OF a store_read [OF assms(1) a]]) (rule assms(2,3))+
qed

lemma fine_kind [fine_intros]:
  assumes "unchanged s s0" "\<And>x s1. unchanged s s1 \<Longrightarrow> fine announce en s (k x s1)"
  shows "fine announce en s (case keyKindFor aid s0 of (Inl err, s1) \<Rightarrow> cli_fail (StoreFailed err) s1 | (Inr x, s1) \<Rightarrow> k x s1)"
proof -
  obtain r s1 where a: "keyKindFor aid s0 = (r, s1)" by fastforce
  show ?thesis by (rule fine_asked [of "keyKindFor aid", OF a keyKindFor_unchanged [OF a]]) (rule assms)+
qed

lemma fine_restriction [fine_intros]:
  assumes "unchanged s s0" "\<And>x s1. unchanged s s1 \<Longrightarrow> fine announce en s (k x s1)"
  shows "fine announce en s (case usage_restriction email s0 of (Inl err, s1) \<Rightarrow> cli_fail (StoreFailed err) s1 | (Inr x, s1) \<Rightarrow> k x s1)"
proof -
  obtain r s1 where a: "usage_restriction email s0 = (r, s1)" by fastforce
  show ?thesis by (rule fine_asked [of "usage_restriction email", OF a restriction_unchanged [OF a]]) (rule assms)+
qed

lemma fine_store:
  assumes "refuses f" "unchanged s s0" "\<And>x s1. cli_store f s0 = (Inr x, s1) \<Longrightarrow> fine announce en s (k x s1)"
  shows "fine announce en s (case cli_store f s0 of (Inl err, s1) \<Rightarrow> cli_fail (StoreFailed err) s1 | (Inr x, s1) \<Rightarrow> k x s1)"
  using assms(3) store_refused [OF assms(1), of s0] unchanged_trans [OF assms(2)] by (auto simp: fine_fail split: prod.split sum.split)

lemmas fine_reads = reads_queries [THEN fine_read]

lemma fine_accounts:
  "fine False en s (accountAdd en args s)" "fine True en s (accountSetStatus status en args s)" "fine announce en s (accountList en args s)"
  unfolding accountAdd_def accountSetStatus_def accountList_def Let_def
  by (intro fine_with_flags fine_intros fine_reads fine_flush refuses_inserts(1) [THEN fine_store] refuses_updates(1) [THEN fine_store] unchanged_refl;
      (erule fine_change [OF _ refuses_inserts(1)] fine_change [OF _ refuses_updates(1)])?; assumption?)+

lemma fine_keys: "fine True en s (keyCreate en args s)" "fine True en s (keyRevoke en args s)" "fine announce en s (keyList en args s)"
  unfolding keyCreate_def keyRevoke_def keyList_def Let_def
  by (intro fine_with_flags fine_intros fine_reads fine_flush refuses_CreateKey [THEN fine_store] refuses_updates(2) [THEN fine_store] unchanged_refl;
      (simp only: split_paired_all prod.case)?; (erule fine_change [OF _ refuses_CreateKey] fine_change [OF _ refuses_updates(2)])?; assumption?)+

lemma fine_grant [fine_intros]:
  assumes "unchanged s s0" "\<And>e. fine announce en s (k e)"
  shows "fine announce en s (case ManualGrant inp games tm of Inl ge \<Rightarrow> cli_fail (GrantRefused ge) s0 | Inr e \<Rightarrow> k e)"
  using assms by (auto simp: fine_fail split: sum.split)

lemma fine_grants: "fine True en s (grantAdd games en args s)" "fine True en s (grantEnd en args s)" "fine announce en s (grantList en args s)"
proof -
  show "fine True en s (grantAdd games en args s)" "fine announce en s (grantList en args s)"
    unfolding grantAdd_def grantList_def Let_def
    by (intro fine_with_flags fine_intros fine_reads fine_flush refuses_entitlements(1) [THEN fine_store] unchanged_refl;
        (erule fine_change [OF _ refuses_entitlements(1)])?; assumption?)+
  have "fine True en s (case cli_store (EndEntitlement eid 0 tm) s of (Inl err, s1) \<Rightarrow> cli_fail (StoreFailed err) s1
      | (Inr e, s1) \<Rightarrow> (0, printed t (recordChange en action (e_account_id e) target detail s1)))" for eid tm t action target detail
    by (rule refuses_entitlements(2) [THEN fine_store]) (simp, erule fine_change [OF unchanged_refl refuses_entitlements(2)])
  then show "fine True en s (grantEnd en args s)"
    unfolding grantEnd_def Let_def by (intro fine_with_flags) (simp add: fine_unchanged)
qed

lemma fine_usage: "fine announce en s (adminUsageCmd en args s)"
proof -
  have "fine announce en s (case usage_restriction email s of (Inl err, s1) \<Rightarrow> cli_fail (StoreFailed err) s1
      | (Inr aid, s1) \<Rightarrow> (case cli_store (SummarizeUsage frm upt aid) s1 of (Inl err, s2) \<Rightarrow> cli_fail (StoreFailed err) s2 | (Inr rows, s2) \<Rightarrow> flushTab en (t rows) s2))"
    for email frm upt t by (intro fine_restriction fine_reads fine_flush unchanged_refl; assumption?)+
  then show ?thesis unfolding adminUsageCmd_def Let_def by (intro fine_with_flags) (simp add: fine_unchanged split: sum.split prod.split)
qed

lemma fine_runVerb:
  assumes "\<And>v run. (v, run) \<in> set verbs \<Longrightarrow> fine (announce [v]) en s (run en (tl args) s)"
  shows "fine (announce (take 1 args)) en s (runVerb cmd verbs en args s)"
  using assms by (auto simp: runVerb_def fine_unchanged dest!: map_of_SomeD split: list.split option.split)

definition adds_account :: "string \<Rightarrow> string list \<Rightarrow> bool" where
  "adds_account cmd args \<longleftrightarrow> cmd = ''account'' \<and> take 1 args = [''add'']"

lemma fine_runAdmin:
  fixes s :: "'s cli_scheme"
  shows "fine (\<not> adds_account cmd args) en s (runAdmin games cmd en args s)"
proof (cases "cmd = ''usage''")
  case False
  let ?verbs = "case map_of (adminVerbs games :: (string \<times> (string \<times> 's verb_run) list) list) cmd of Some verbs \<Rightarrow> verbs | None \<Rightarrow> []"
  have "fine (\<not> (cmd = ''account'' \<and> take 1 args = [''add''])) en s (runVerb cmd ?verbs en args s)"
  proof (rule fine_runVerb)
    fix v and run :: "'s verb_run" assume "(v, run) \<in> set ?verbs"
    then show "fine (\<not> (cmd = ''account'' \<and> [v] = [''add''])) en s (run en (tl args) s)"
      by (auto simp: adminVerbs_def fine_accounts fine_keys fine_grants split: if_splits)
  qed
  then show ?thesis unfolding runAdmin_def if_not_P [OF False] adds_account_def .
qed (simp add: runAdmin_def fine_usage)

lemma fine_withStore:
  assumes "\<And>cfg. fine announce en s (fn cfg en (snd (extractConfigFlag args)) s)"
  shows "fine announce en s (withStore fn en args s)"
proof -
  obtain path rest where "extractConfigFlag args = (path, rest)" by fastforce
  then show ?thesis using assms by (auto simp: withStore_def fine_fail split: sum.split option.split)
qed


definition demo_cli :: cli where
  "demo_cli = \<lparr>cl_db = empty_db 0, cl_notices = [], cl_out = [], cl_err = []\<rparr>"

definition demo_cli_env :: cli_env where
  "demo_cli_env = \<lparr>ce_user = Some ''op'', ce_now = 0, ce_rands = (\<lambda>_. None), ce_flush = True, ce_config = (\<lambda>_. Inr demo_config), ce_open = None, ce_version = ''dev''\<rparr>"

definition demo_add :: "int \<times> cli" where
  "demo_add = run_command ((''version'', version_command) # admin_commands) demo_cli_env [''account'', ''add'', ''-config'', ''c.json'', ''-email'', ''a@b''] demo_cli"

lemma demo_add_runs:
  "fst demo_add = 0 \<and> cl_out (snd demo_add) = ''account 1 a@b created'' @ nl \<and> map aa_actor (db_actions (cl_db (snd demo_add))) = [''cli:op''] \<and>
   map ar_email (db_accounts (cl_db (snd demo_add))) = [''a@b'']"
  by code_simp


section \<open>The configuration flag\<close>

definition config_flag :: "string \<Rightarrow> bool" where
  "config_flag arg \<longleftrightarrow> arg = ''-config'' \<or> arg = ''--config'' \<or> has_prefix arg ''-config='' \<or> has_prefix arg ''--config=''"

lemma extract_config_skip:
  assumes "list_all (\<lambda>a. \<not> config_flag a) xs"
  shows "extract_config path (xs @ ys) = (case extract_config path ys of (p, rest) \<Rightarrow> (p, xs @ rest))"
  using assms by (induction xs) (auto simp: config_flag_def split: prod.splits)

text \<open>The path works before and after the verb, in each of its spellings, and the other arguments keep their order.\<close>

theorem extractConfigFlag_anywhere:
  assumes "list_all (\<lambda>a. \<not> config_flag a) (xs @ ys)"
  shows "extractConfigFlag (xs @ ''-config'' # p # ys) = (p, xs @ ys) \<and> extractConfigFlag (xs @ ''--config'' # p # ys) = (p, xs @ ys) \<and>
    extractConfigFlag (xs @ (''-config='' @ p) # ys) = (p, xs @ ys) \<and> extractConfigFlag (xs @ (''--config='' @ p) # ys) = (p, xs @ ys) \<and>
    extractConfigFlag (xs @ ys) = ([], xs @ ys)"
proof -
  have skip: "extract_config path ys = (path, ys)" for path using assms extract_config_skip [of ys path "[]"] by simp
  have "''-config='' @ p \<noteq> ''-config''" "''--config='' @ p \<noteq> ''--config''" by simp_all
  then show ?thesis using assms extract_config_skip [of xs "[]"] skip by (simp add: extractConfigFlag_def has_prefix_def)
qed

theorem extractConfigFlag_anywhere_witness: "extractConfigFlag [''account'', ''--config=c.json'', ''list''] = (''c.json'', [''account'', ''list''])"
  using extractConfigFlag_anywhere [of "[''account'']" "[''list'']" "''c.json''"] by (simp add: config_flag_def has_prefix_def)

end
