(* ===== verification/Billing_Commands.thy ===== *)
theory Billing_Commands
  imports Commands Billing_Checkout
begin

text \<open>
  The billing commands, \<open>src/billing_cmd.go\<close>, and the line a full pass prints. Beside the store a verb has Stripe: the seeding runs
  on a state of Stripe's own, what else is asked of it is a record of answers, and the calls that change something there are kept.
  The texts of errors are typed values, so the line of a pass takes their words from outside.
\<close>

section \<open>The process\<close>

record 's billing_cli = cli +
  bc_stripe :: 's
  bc_calls :: "stripe_call list"
  bc_updates :: "(string \<times> SubscriptionUpdate) list"

text \<open>Stripe as the commands see it, and the dependencies of the verbs.\<close>

record 's stripe_conn =
  sn_catalog :: "'s catalog_api"
  sn_api :: stripe_api
  sn_get :: "string \<Rightarrow> string + Subscription"
  sn_list :: "string + Subscription list"
  sn_update :: "string \<Rightarrow> SubscriptionUpdate \<Rightarrow> string option"

record 's billingDeps =
  bd_conn :: "'s stripe_conn"
  bd_cfg :: Config
  bd_cat :: ProductList
  bd_stores :: "string \<Rightarrow> string + SiteStores"
  bd_words :: "billing_error \<Rightarrow> string"

type_synonym 's billing_verb = "('s, unit) billing_cli_ext verb_run"

definition newCheckout :: "Config \<Rightarrow> ProductList \<Rightarrow> (string \<Rightarrow> string + SiteStores) \<Rightarrow> Checkout" where
  "newCheckout cfg cat stores =
     (case CheckoutURLs cfg of (success_url, cancel_url) \<Rightarrow>
        \<lparr>ck_catalog = cat, ck_stores = Some stores, ck_games = Config_GameNames cfg, ck_success_url = success_url, ck_cancel_url = cancel_url\<rparr>)"

definition newReconciler :: "Config \<Rightarrow> ProductList \<Rightarrow> (string \<Rightarrow> string + SiteStores) \<Rightarrow> Reconciler" where
  "newReconciler cfg cat stores =
     \<lparr>rc_catalog = cat, rc_stores = Some stores, rc_grace = wrap64 (wrap64 (sc_grace_days (cg_stripe cfg) * 24) * hour)\<rparr>"

text \<open>A checkout, and what the reconciler does: its alerts are printed on the error stream, and its reload notifications go out.\<close>

definition in_checkout :: "(checkout_state \<Rightarrow> 'r \<times> checkout_state) \<Rightarrow> 's billing_cli \<Rightarrow> 'r \<times> 's billing_cli" where
  "in_checkout f s =
     (case f \<lparr>co_db = cl_db s, co_calls = []\<rparr> of (r, c) \<Rightarrow> (r, s\<lparr>cl_db := co_db c, bc_calls := bc_calls s @ co_calls c\<rparr>))"

definition in_billing :: "cli_env \<Rightarrow> (bstate \<Rightarrow> 'r \<times> bstate) \<Rightarrow> 's billing_cli \<Rightarrow> 'r \<times> 's billing_cli" where
  "in_billing en f s =
     (case f \<lparr>bs_db = cl_db s, bs_now = ce_now en, bs_alerts = [], bs_reloads = 0\<rparr> of (r, b) \<Rightarrow>
        (r, s\<lparr>cl_db := bs_db b, cl_notices := cl_notices s @ replicate (bs_reloads b) [], cl_err := cl_err s @ map Alerted (bs_alerts b)\<rparr>))"

section \<open>The verbs\<close>

definition catalogSeed :: "'s billingDeps \<Rightarrow> 's billing_verb" where
  "catalogSeed d =
     with_flags [] (\<lambda>en fs s.
       case Seed (sn_catalog (bd_conn d)) (bd_cat d) (bc_stripe s) of
         (Some err, _, st) \<Rightarrow> cli_fail (SeedFailed err) (s\<lparr>bc_stripe := st\<rparr>)
       | (None, res, st) \<Rightarrow>
           (0, printed
             (if sr_created res = [] \<and> sr_updated res = [] \<and> sr_archived res = [] then ''Stripe already matches the catalog'' @ nl
              else concat (map (\<lambda>i. ''created '' @ i @ nl) (sr_created res) @ map (\<lambda>i. ''updated '' @ i @ nl) (sr_updated res) @
                map (\<lambda>i. ''archived '' @ i @ nl) (sr_archived res))) (s\<lparr>bc_stripe := st\<rparr>)))"

definition checkoutLink :: "'s billingDeps \<Rightarrow> 's billing_verb" where
  "checkoutLink d =
     with_flags [(''email'', FlagText []), (''package'', FlagText []), (''games'', FlagText ''magic''), (''stores'', FlagText []),
         (''interval'', FlagText ''monthly''), (''invite'', FlagText [])] (\<lambda>en fs s0.
       let email = flag_text fs ''email''; pkg = flag_text fs ''package'' in
       case need [(''email'', email), (''package'', pkg)] s0 of
         (False, s) \<Rightarrow> (2, s)
       | (True, s) \<Rightarrow>
           (case byEmail email s of
              (None, s1) \<Rightarrow> (1, s1)
            | (Some a, s1) \<Rightarrow>
                let plan = \<lparr>pl_package = pkg, pl_interval = flag_text fs ''interval'', pl_games = SplitList (flag_text fs ''games''),
                      pl_stores = SplitList (flag_text fs ''stores''), pl_mode_addons = []\<rparr> in
                (case in_checkout (Checkout_Create (newCheckout (bd_cfg d) (bd_cat d) (bd_stores d)) (sn_api (bd_conn d)) (ce_now en)
                        \<lparr>rq_account = a, rq_plan = plan, rq_invite = flag_text fs ''invite'', rq_resolved = None\<rparr>) s1 of
                   (Inl err, s2) \<Rightarrow> cli_fail (BillingFailed err) s2
                 | (Inr sess, s2) \<Rightarrow>
                     (0, printed (''checkout link for '' @ a_email a @ '', valid 24 hours:'' @ nl @ nl @ ''    '' @ cs_url sess @ nl @ nl) s2))))"

definition inviteCreate :: "'s billingDeps \<Rightarrow> 's billing_verb" where
  "inviteCreate d =
     with_flags [(''interval'', FlagText ''monthly''), (''email'', FlagText []), (''days'', FlagNumber 14), (''note'', FlagText [])] (\<lambda>en fs s0.
       let interval = flag_text fs ''interval'' in
       case need [(''interval'', interval)] s0 of
         (False, s) \<Rightarrow> (2, s)
       | (True, s) \<Rightarrow>
           (case ct_interval (bd_cat d) interval of (iv, ok) \<Rightarrow>
              if \<not> ok then cli_fail (UnknownInterval interval) s
              else if in_public iv then cli_fail (PublicInterval (in_key iv)) s
              else (case cli_store (CreateInvite (ce_rands en 0) (ce_now en) (in_key iv) (flag_text fs ''email'')
                        (wrap64 (wrap64 (flag_number fs ''days'' * 24) * hour)) (flag_text fs ''note'')) s of
                  (Inl err, s1) \<Rightarrow> cli_fail (StoreFailed err) s1
                | (Inr (token, i), s1) \<Rightarrow>
                    (0, printed (''invite for '' @ in_key iv @ '' ('' @ (if iv_email i \<noteq> [] then iv_email i else ''any account'') @ ''), expires '' @
                          format_date (iv_expires_at i) @ ''. Shown once, copy it now:'' @ nl @ nl @ ''    '' @ token @ nl @ nl) s1))))"

definition Summary :: "(billing_error \<Rightarrow> string) \<Rightarrow> Result \<Rightarrow> string" where
  "Summary words res =
     (let dup = (if rs_duplicates res = 1 then ''; 1 account with more than one subscription''
           else if rs_duplicates res > 1 then ''; '' @ format_int (rs_duplicates res) @ '' accounts with more than one subscription'' else []);
          errs = map words (rs_errors res);
          suffix = (if length errs > maxSummaryErrors then '' (+'' @ format_int (int (length errs) - int maxSummaryErrors) @ '' more)'' else [])
      in if rs_failed res = 0 then ''stripe reconcile: '' @ format_int (rs_checked res) @ '' subscriptions in sync'' @ dup
         else ''stripe reconcile: '' @ format_int (rs_checked res) @ '' subscriptions, '' @ format_int (rs_failed res) @ '' failed: '' @
           join ''; '' (take maxSummaryErrors errs) @ suffix @ dup)"

definition reconcile_pass :: "Reconciler \<Rightarrow> 's stripe_conn \<Rightarrow> bstate \<Rightarrow> (billing_error + Result) \<times> bstate" where
  "reconcile_pass rc conn s =
     (case Reconcile_All rc (sn_get conn) (sn_list conn) s of (res, None, s') \<Rightarrow> (Inr res, s') | (_, Some err, s') \<Rightarrow> (Inl err, s'))"

definition stripeReconcile :: "'s billingDeps \<Rightarrow> 's billing_verb" where
  "stripeReconcile d =
     with_flags [(''sub'', FlagText [])] (\<lambda>en fs s.
       let sub = flag_text fs ''sub''; rc = newReconciler (bd_cfg d) (bd_cat d) (bd_stores d) in
       if sub \<noteq> [] then
         (case in_billing en (Reconcile_Subscription rc (sn_get (bd_conn d)) sub) s of
            (Inl err, s1) \<Rightarrow> cli_fail (BillingFailed err) s1
          | (Inr _, s1) \<Rightarrow> (0, printed (''subscription '' @ sub @ '' reconciled'' @ nl) s1))
       else
         (case in_billing en (reconcile_pass rc (bd_conn d)) s of
            (Inl err, s1) \<Rightarrow> cli_fail (BillingFailed err) s1
          | (Inr res, s1) \<Rightarrow> (if rs_failed res > 0 then 1 else 0, printed (Summary (bd_words d) res @ nl) s1)))"

definition portalLink :: "'s billingDeps \<Rightarrow> 's billing_verb" where
  "portalLink d =
     with_flags [(''email'', FlagText []), (''return'', FlagText [])] (\<lambda>en fs s0.
       let email = flag_text fs ''email'' in
       case byEmail email s0 of
         (None, s) \<Rightarrow> (exitFor email, s)
       | (Some a, s) \<Rightarrow>
           let return_url = (if flag_text fs ''return'' = [] then cg_public_url (bd_cfg d) else flag_text fs ''return'') in
           (case PortalURL (sn_api (bd_conn d)) a return_url of
              Inl err \<Rightarrow> cli_fail (BillingFailed err) s
            | Inr url \<Rightarrow> (0, printed (''portal link for '' @ a_email a @ '':'' @ nl @ nl @ ''    '' @ url @ nl @ nl) s)))"

text \<open>The subscription to change: the one given, or the only one of the account.\<close>

definition subscription_named :: "string \<Rightarrow> Account \<Rightarrow> 's billing_cli \<Rightarrow> (cli_error + string) \<times> 's billing_cli" where
  "subscription_named sub a s =
     (if sub \<noteq> [] then (Inr sub, s)
      else case cli_store (ListEntitlements (a_id a)) s of
        (Inl err, s1) \<Rightarrow> (Inl (StoreFailed err), s1)
      | (Inr ents, s1) \<Rightarrow> (map_sum BillingFailed id (SubscriptionFor ents), s1))"

text \<open>The current plan with the package and the flags given; stores and add-ons only carry over onto a package that takes them.\<close>

definition wanted_plan :: "ProductList \<Rightarrow> flags \<Rightarrow> Plan \<Rightarrow> Plan" where
  "wanted_plan cat fs cur =
     (let pkg = flag_text fs ''package'' in
      cur\<lparr>pl_package := pkg,
        pl_games := (if ''games'' \<in> set (fl_actual fs) then SplitList (flag_text fs ''games'') else pl_games cur),
        pl_stores := (if ''stores'' \<in> set (fl_actual fs) then SplitList (flag_text fs ''stores'')
          else case ct_package cat pkg of (p, ok) \<Rightarrow> if \<not> ok \<or> pk_store_scope p \<noteq> ct_scope_explicit cat then [] else pl_stores cur),
        pl_mode_addons := filter (\<lambda>k. case ct_addon cat k of (addon, ok) \<Rightarrow> ok \<and> ad_applies addon pkg) (pl_mode_addons cur)\<rparr>)"

definition planChange :: "'s billingDeps \<Rightarrow> 's billing_verb" where
  "planChange d =
     with_flags [(''email'', FlagText []), (''package'', FlagText []), (''games'', FlagText []), (''stores'', FlagText []), (''sub'', FlagText [])] (\<lambda>en fs s0.
       let email = flag_text fs ''email''; conn = bd_conn d in
       case need [(''email'', email), (''package'', flag_text fs ''package'')] s0 of
         (False, s) \<Rightarrow> (2, s)
       | (True, s) \<Rightarrow>
           (case byEmail email s of
              (None, s1) \<Rightarrow> (1, s1)
            | (Some a, s1) \<Rightarrow>
                (case subscription_named (flag_text fs ''sub'') a s1 of
                   (Inl err, s2) \<Rightarrow> cli_fail err s2
                 | (Inr sub, s2) \<Rightarrow>
                     (case sn_get conn sub of
                        Inl err \<Rightarrow> cli_fail (FetchFailed sub (ApiError err)) s2
                      | Inr stripe_sub \<Rightarrow>
                          (case PlanFromMetadata (sb_metadata stripe_sub) of
                             Inl err \<Rightarrow> cli_fail (BillingFailed err) s2
                           | Inr (cur, _) \<Rightarrow>
                               (case in_billing en (ChangePlan (sn_get conn) (sa_prices (sn_api conn)) (sn_update conn) (bd_cat d) (Some (bd_stores d))
                                       (Config_GameNames (bd_cfg d)) a sub (wanted_plan (bd_cat d) fs cur)
                                       (Reconcile_Subscription (newReconciler (bd_cfg d) (bd_cat d) (bd_stores d)) (sn_get conn))) s2 of
                                  (res, s3) \<Rightarrow>
                                    let s4 = (case cr_sent res of None \<Rightarrow> s3 | Some upd \<Rightarrow> s3\<lparr>bc_updates := bc_updates s3 @ [(sub, upd)]\<rparr>) in
                                    (case cr_error res of
                                       Some err \<Rightarrow> cli_fail (BillingFailed err) s4
                                     | None \<Rightarrow>
                                         (0, printed (''subscription '' @ sub @ '' changed to '' @
                                           (case cr_resolved res of Some r \<Rightarrow> Describe (bd_cat d) (rz_plan r) | None \<Rightarrow> []) @ nl) s4))))))))"

section \<open>The commands\<close>

definition billingVerbs :: "(string \<times> (string \<times> ('s billingDeps \<Rightarrow> 's billing_verb)) list) list" where
  "billingVerbs =
     [(''catalog'', [(''seed'', catalogSeed)]), (''checkout'', [(''link'', checkoutLink)]), (''invite'', [(''create'', inviteCreate)]),
      (''stripe'', [(''reconcile'', stripeReconcile)]), (''portal'', [(''link'', portalLink)]), (''plan'', [(''change'', planChange)])]"

definition runBilling :: "'s billingDeps \<Rightarrow> string \<Rightarrow> 's billing_verb" where
  "runBilling d cmd = runVerb cmd (map (\<lambda>(v, f). (v, f d)) (case map_of billingVerbs cmd of Some verbs \<Rightarrow> verbs | None \<Rightarrow> []))"

text \<open>The secret of the environment, the connection it opens, and what of the dependencies does not depend on the configuration.\<close>

record 's billing_env =
  be_key :: string
  be_connect :: "string \<Rightarrow> 's stripe_conn"
  be_catalog :: ProductList
  be_sites :: "Config \<Rightarrow> string \<Rightarrow> string + SiteStores"
  be_words :: "billing_error \<Rightarrow> string"

definition stripeFromEnv :: "'s billing_env \<Rightarrow> string + 's stripe_conn" where
  "stripeFromEnv be = (if be_key be = [] then Inl ''STRIPE_SECRET_KEY is not set'' else Inr (be_connect be (be_key be)))"

definition billingCommand :: "'s billing_env \<Rightarrow> string \<Rightarrow> 's billing_verb" where
  "billingCommand be name =
     withStore (\<lambda>cfg en rest s.
       case stripeFromEnv be of
         Inl msg \<Rightarrow> cli_fail (EnvironmentFailed msg) s
       | Inr conn \<Rightarrow> runBilling \<lparr>bd_conn = conn, bd_cfg = cfg, bd_cat = be_catalog be, bd_stores = be_sites be cfg, bd_words = be_words be\<rparr> name en rest s)"

definition billing_commands :: "'s billing_env \<Rightarrow> (string \<times> ('s, unit) billing_cli_ext command) list" where
  "billing_commands be =
     map (\<lambda>(name, verbs). (name, \<lparr>cm_usage = verbList verbs, cm_run = billingCommand be name\<rparr>))
       (billingVerbs :: (string \<times> (string \<times> ('s billingDeps \<Rightarrow> 's billing_verb)) list) list)"

section \<open>Lemmas\<close>

text \<open>What a command may touch at Stripe: the seeding its catalog, the checkout link its sessions, and the plan change a subscription.\<close>

definition touches :: "string \<Rightarrow> 's billing_cli \<Rightarrow> int \<times> 's billing_cli \<Rightarrow> bool" where
  "touches cmd s r \<longleftrightarrow> (case r of (code, s') \<Rightarrow>
     code \<in> {0, 1, 2} \<and> (code = 2 \<longrightarrow> s' = s\<lparr>cl_err := cl_err s'\<rparr>) \<and> (cmd \<noteq> ''catalog'' \<longrightarrow> bc_stripe s' = bc_stripe s) \<and>
     (cmd \<noteq> ''checkout'' \<longrightarrow> bc_calls s' = bc_calls s) \<and> (cmd \<noteq> ''plan'' \<longrightarrow> bc_updates s' = bc_updates s))"

definition quiet :: "'s billing_cli \<Rightarrow> 's billing_cli \<Rightarrow> bool" where
  "quiet s s' \<longleftrightarrow> bc_stripe s' = bc_stripe s \<and> bc_calls s' = bc_calls s \<and> bc_updates s' = bc_updates s"

lemma quiet_simps [simp]:
  "quiet s s" "quiet s (report m s1) = quiet s s1" "quiet s (printed t s1) = quiet s s1" "quiet s (s1\<lparr>cl_db := x\<rparr>) = quiet s s1"
  by (simp_all add: quiet_def report_def printed_def)

lemma quiet_store: "cli_store f s1 = (r, s2) \<Longrightarrow> quiet s s1 \<Longrightarrow> quiet s s2"
  by (auto simp: cli_store_def split: prod.splits)

lemma quiet_billing: "in_billing en f s1 = (r, s2) \<Longrightarrow> quiet s s1 \<Longrightarrow> quiet s s2"
  by (auto simp: in_billing_def quiet_def split: prod.splits)

lemma touches_usage: "touches cmd s (2, report m s)"
  by (simp add: touches_def report_def)

lemma touches_quiet: "quiet s s1 \<Longrightarrow> code \<in> {0, 1} \<Longrightarrow> touches cmd s (code, s1)"
  by (auto simp: touches_def quiet_def)

lemma touches_fail: "quiet s s1 \<Longrightarrow> touches cmd s (cli_fail e s1)"
  by (simp add: cli_fail_def touches_quiet)

lemma touches_printed: "quiet s s1 \<Longrightarrow> touches cmd s (0, printed t s1)"
  by (simp add: touches_quiet)

lemma touches_flags: "(\<And>fs. touches cmd s (body en fs s)) \<Longrightarrow> touches cmd s (with_flags formal body en args s)"
  by (auto simp: with_flags_def touches_usage split: sum.split)

lemma touches_need:
  assumes "touches cmd s (k s)"
  shows "touches cmd s (case need wanted s of (False, s') \<Rightarrow> (2, s') | (True, s') \<Rightarrow> k s')"
  using assms by (auto simp: need_def touches_usage split: option.split)

lemma byEmail_quiet: "byEmail email s1 = (r, s2) \<Longrightarrow> quiet s s1 \<Longrightarrow> quiet s s2"
  by (auto simp: byEmail_def need_def dest: quiet_store split: prod.splits sum.splits if_splits)

lemma touches_byEmail:
  assumes "\<And>a s1. quiet s s1 \<Longrightarrow> touches cmd s (k a s1)"
  shows "touches cmd s (case byEmail email s of (None, s1) \<Rightarrow> (1, s1) | (Some a, s1) \<Rightarrow> k a s1)"
    and "touches cmd s (case byEmail email s of (None, s1) \<Rightarrow> (exitFor email, s1) | (Some a, s1) \<Rightarrow> k a s1)"
proof -
  obtain r s1 where b: "byEmail email s = (r, s1)" by fastforce
  have q: "quiet s s1" by (rule byEmail_quiet [OF b]) simp
  show "touches cmd s (case byEmail email s of (None, s1) \<Rightarrow> (1, s1) | (Some a, s1) \<Rightarrow> k a s1)"
    using b q assms [of s1] by (cases r) (simp_all add: touches_quiet)
  have "r = None \<and> s1 = report (Required ''email'') s" if "email = []" using b that by (simp add: byEmail_def need_def)
  then show "touches cmd s (case byEmail email s of (None, s1) \<Rightarrow> (exitFor email, s1) | (Some a, s1) \<Rightarrow> k a s1)"
    using b q assms [of s1] by (cases r; cases "email = []") (auto simp: touches_quiet exitFor_def touches_usage)
qed

lemma touches_verbs:
  "touches ''catalog'' s (catalogSeed d en args s)" "touches ''checkout'' s (checkoutLink d en args s)" "touches ''invite'' s (inviteCreate d en args s)"
  "touches ''stripe'' s (stripeReconcile d en args s)" "touches ''portal'' s (portalLink d en args s)"
proof -
  show "touches ''catalog'' s (catalogSeed d en args s)" unfolding catalogSeed_def
    by (rule touches_flags) (auto simp: touches_def cli_fail_def report_def printed_def split: prod.split option.split)
  have co: "touches ''checkout'' s (case in_checkout f s1 of (Inl err, s2) \<Rightarrow> cli_fail (BillingFailed err) s2 | (Inr sess, s2) \<Rightarrow> (0, printed (t sess) s2))"
    if "quiet s s1" for f :: "Session cop" and s1 t
    using that by (auto simp: touches_def in_checkout_def quiet_def cli_fail_def report_def printed_def split: prod.split sum.split)
  show "touches ''checkout'' s (checkoutLink d en args s)"
    unfolding checkoutLink_def Let_def by (intro touches_flags touches_need touches_byEmail(1)) (rule co)
  show "touches ''invite'' s (inviteCreate d en args s)" unfolding inviteCreate_def Let_def
    by (rule touches_flags, rule touches_need) (auto simp: touches_fail touches_printed dest!: quiet_store [where s = s] split: prod.split sum.split)
  show "touches ''stripe'' s (stripeReconcile d en args s)" unfolding stripeReconcile_def Let_def
    by (rule touches_flags) (auto simp: touches_fail touches_quiet dest!: quiet_billing [where s = s] split: prod.split sum.split)
  show "touches ''portal'' s (portalLink d en args s)" unfolding portalLink_def Let_def
    by (intro touches_flags touches_byEmail(2)) (auto simp: touches_fail touches_printed split: sum.split)
qed


lemma subscription_named_quiet: "subscription_named sub a s1 = (r, s2) \<Longrightarrow> quiet s s1 \<Longrightarrow> quiet s s2"
  by (auto simp: subscription_named_def dest: quiet_store split: prod.splits sum.splits if_splits)

lemma touches_planChange: "touches ''plan'' s (planChange d en args s)"
proof -
  let ?up = "\<lambda>sub s3 res. case cr_sent res of None \<Rightarrow> s3 | Some upd \<Rightarrow> s3\<lparr>bc_updates := bc_updates s3 @ [(sub, upd)]\<rparr>"
  have fin: "touches ''plan'' s (case cr_error res of Some err \<Rightarrow> cli_fail (BillingFailed err) (?up sub s3 res) | None \<Rightarrow> (0, printed t (?up sub s3 res)))"
    if "quiet s s3" for res sub t s3
    using that by (auto simp: touches_def quiet_def cli_fail_def report_def printed_def split: option.split)
  have change: "touches ''plan'' s (case in_billing en f s2 of (res, s3) \<Rightarrow>
      (case cr_error res of Some err \<Rightarrow> cli_fail (BillingFailed err) (?up sub s3 res) | None \<Rightarrow> (0, printed (t res) (?up sub s3 res))))"
    if "quiet s s2" for f s2 sub t
  proof -
    obtain res s3 where b: "in_billing en f s2 = (res, s3)" by fastforce
    show ?thesis using fin [OF quiet_billing [OF b that]] b by simp
  qed
  have rest: "touches ''plan'' s (case subscription_named sub0 a s1 of (Inl err, s2) \<Rightarrow> cli_fail err s2
      | (Inr sub, s2) \<Rightarrow> (case get sub of Inl err \<Rightarrow> cli_fail (FetchFailed sub (ApiError err)) s2 | Inr stripe_sub \<Rightarrow>
          (case PlanFromMetadata (sb_metadata stripe_sub) of Inl err \<Rightarrow> cli_fail (BillingFailed err) s2 | Inr (cur, aid) \<Rightarrow>
            (case in_billing en (f sub cur) s2 of (res, s3) \<Rightarrow>
              (case cr_error res of Some err \<Rightarrow> cli_fail (BillingFailed err) (?up sub s3 res) | None \<Rightarrow> (0, printed (t sub res) (?up sub s3 res)))))))"
    if "quiet s s1" for sub0 a s1 get f t
  proof -
    obtain r s2 where b: "subscription_named sub0 a s1 = (r, s2)" by fastforce
    have q: "quiet s s2" by (rule subscription_named_quiet [OF b that])
    show ?thesis using b change [OF q] by (auto simp: touches_fail [OF q] split: sum.split)
  qed
  show ?thesis unfolding planChange_def Let_def by (intro touches_flags touches_need touches_byEmail(1)) (rule rest)
qed


section \<open>Properties\<close>

lemma touches_runBilling: "touches cmd s (runBilling d cmd en args s)"
proof -
  have "touches cmd s (f d en rest s)" if "(cmd, verbs) \<in> set billingVerbs" "(v, f) \<in> set verbs" for verbs v f rest
    using that by (auto simp: billingVerbs_def touches_verbs touches_planChange)
  then show ?thesis
    by (auto simp: runBilling_def runVerb_def touches_usage dest!: map_of_SomeD split: list.split option.split)
qed

text \<open>
  A billing command exits with 0, 1 or 2, and one that is used wrongly changes nothing. At Stripe the seeding alone touches the
  products and prices, the checkout link alone opens or expires sessions, and the plan change alone sends an update.
\<close>

theorem billing_commands_touch:
  assumes "run_command (billing_commands be) en args s = (code, s')"
  shows "code \<in> {0, 1, 2} \<and> (code = 2 \<longrightarrow> s' = s\<lparr>cl_err := cl_err s'\<rparr>) \<and>
    (bc_stripe s' \<noteq> bc_stripe s \<longrightarrow> take 1 args = [''catalog'']) \<and> (bc_calls s' \<noteq> bc_calls s \<longrightarrow> take 1 args = [''checkout'']) \<and>
    (bc_updates s' \<noteq> bc_updates s \<longrightarrow> take 1 args = [''plan''])"
proof (cases args)
  case Nil
  then show ?thesis using assms by (auto simp: run_command_def report_def)
next
  case (Cons name rest)
  have t: "touches name s (billingCommand be name en rest s)"
    unfolding billingCommand_def withStore_def
    by (auto simp: touches_fail touches_runBilling split: prod.split sum.split option.split)
  have "run_command (billing_commands be) en args s =
      (if name \<in> fst ` set (billing_commands be) then billingCommand be name en rest s
       else (2, report (CommandList (usage_lines (billing_commands be))) (report (UnknownCommand name) s)))"
    unfolding Cons run_command_def by (auto simp: billing_commands_def billingVerbs_def)
  then have "code = 2 \<and> s' = report (CommandList (usage_lines (billing_commands be))) (report (UnknownCommand name) s) \<or>
      billingCommand be name en rest s = (code, s')" using assms by (auto split: if_splits)
  then show ?thesis
  proof
    assume "billingCommand be name en rest s = (code, s')"
    then show ?thesis using t Cons unfolding touches_def by auto
  qed (simp add: report_def)
qed

text \<open>
  A change of plan sends at most one update, for the subscription named or the account's only one, and only when it is the
  account's. The plan it sends has the subscription's interval and the package asked for; games that were not given stay, and so do
  stores and add-ons where the package takes them.
\<close>

lemma Validate_plan:
  assumes "Validate cat games invited p = Inr q"
  obtains pkg where "ct_package cat (pl_package p) = (pkg, True)" "pl_package q = pk_key pkg" "pl_interval q = pl_interval p"
    "pl_games q = sort (dedupe to_lower (pl_games p))" "pl_stores q = sort (dedupe to_lower (pl_stores p))"
    "pl_mode_addons q = sort (dedupe to_lower (pl_mode_addons p))"
proof -
  have "Normalize cat p = Inr q" using assms by (auto simp: Validate_def split: sum.splits option.splits if_splits)
  then show thesis by (rule Normalize_Inr) (rule that, simp_all)
qed

lemma billing_updates: "in_billing en f s = (r, s') \<Longrightarrow> bc_updates s' = bc_updates s"
  by (auto simp: in_billing_def split: prod.splits)

lemma planChange_sent:
  assumes "planChange d en args s = (code, s')" "bc_updates s' \<noteq> bc_updates s"
  obtains fs rest a sub st stripe_sub cur aid res s3 upd where
    "parse_flags \<lparr>fl_formal = [(''email'', FlagText []), (''package'', FlagText []), (''games'', FlagText []), (''stores'', FlagText []), (''sub'', FlagText [])], fl_actual = []\<rparr> args = Inr (fs, rest)"
    "flag_text fs ''sub'' \<noteq> [] \<longrightarrow> sub = flag_text fs ''sub''" "sn_get (bd_conn d) sub = Inr stripe_sub" "PlanFromMetadata (sb_metadata stripe_sub) = Inr (cur, aid)"
    "ChangePlan (sn_get (bd_conn d)) (sa_prices (sn_api (bd_conn d))) (sn_update (bd_conn d)) (bd_cat d) (Some (bd_stores d)) (Config_GameNames (bd_cfg d)) a sub
      (wanted_plan (bd_cat d) fs cur) (Reconcile_Subscription (newReconciler (bd_cfg d) (bd_cat d) (bd_stores d)) (sn_get (bd_conn d)))
      st = (res, s3)"
    "cr_sent res = Some upd" "bc_updates s' = bc_updates s @ [(sub, upd)]"
proof -
  let ?formal = "[(''email'', FlagText []), (''package'', FlagText []), (''games'', FlagText []), (''stores'', FlagText []), (''sub'', FlagText [])]"
  obtain fs rest where fl: "parse_flags \<lparr>fl_formal = ?formal, fl_actual = []\<rparr> args = Inr (fs, rest)"
    using assms by (auto simp: planChange_def with_flags_def report_def split: sum.splits)
  let ?email = "flag_text fs ''email''"
  obtain s0 where n: "need [(''email'', ?email), (''package'', flag_text fs ''package'')] s = (True, s0)" "s0 = s"
    using assms fl by (auto simp: planChange_def with_flags_def Let_def need_def report_def split: option.splits)
  obtain a s1 where b: "byEmail ?email s = (Some a, s1)" "quiet s s1"
    using assms fl n byEmail_quiet [of ?email s _ _ s] by (auto simp: planChange_def with_flags_def Let_def quiet_def split: prod.splits option.splits)
  obtain sub s2 where u: "subscription_named (flag_text fs ''sub'') a s1 = (Inr sub, s2)" "quiet s s2"
    using assms fl n b subscription_named_quiet [OF _ b(2), of "flag_text fs ''sub''" a]
    by (auto simp: planChange_def with_flags_def Let_def quiet_def cli_fail_def report_def split: prod.splits sum.splits)
  have named: "flag_text fs ''sub'' \<noteq> [] \<longrightarrow> sub = flag_text fs ''sub''" using u(1) by (auto simp: subscription_named_def)
  obtain stripe_sub where g: "sn_get (bd_conn d) sub = Inr stripe_sub"
    using assms fl n b u by (cases "sn_get (bd_conn d) sub") (auto simp: planChange_def with_flags_def Let_def quiet_def cli_fail_def report_def)
  obtain cur aid where m: "PlanFromMetadata (sb_metadata stripe_sub) = Inr (cur, aid)"
    using assms fl n b u g by (cases "PlanFromMetadata (sb_metadata stripe_sub)") (auto simp: planChange_def with_flags_def Let_def quiet_def cli_fail_def report_def)
  obtain res s3 where c: "ChangePlan (sn_get (bd_conn d)) (sa_prices (sn_api (bd_conn d))) (sn_update (bd_conn d)) (bd_cat d) (Some (bd_stores d)) (Config_GameNames (bd_cfg d)) a sub
      (wanted_plan (bd_cat d) fs cur) (Reconcile_Subscription (newReconciler (bd_cfg d) (bd_cat d) (bd_stores d)) (sn_get (bd_conn d)))
      \<lparr>bs_db = cl_db s2, bs_now = ce_now en, bs_alerts = [], bs_reloads = 0\<rparr> = (res, s3)" by fastforce
  have "bc_updates s' = bc_updates s @ (case cr_sent res of None \<Rightarrow> [] | Some upd \<Rightarrow> [(sub, upd)])"
    using assms(1) fl n b u g m c
    by (auto simp: planChange_def with_flags_def Let_def quiet_def cli_fail_def report_def printed_def in_billing_def split: option.splits)
  then show thesis using that [OF fl named g m c] assms(2) by (cases "cr_sent res") auto
qed

theorem plan_change_flags:
  assumes "planChange d en args s = (code, s')" "bc_updates s' \<noteq> bc_updates s"
  shows "\<exists>fs rest a sub stripe_sub cur aid plan upd pkg.
    parse_flags \<lparr>fl_formal = [(''email'', FlagText []), (''package'', FlagText []), (''games'', FlagText []), (''stores'', FlagText []), (''sub'', FlagText [])], fl_actual = []\<rparr> args = Inr (fs, rest) \<and>
    bc_updates s' = bc_updates s @ [(sub, upd)] \<and> su_metadata upd = Metadata plan (a_id a) \<and>
    (flag_text fs ''sub'' \<noteq> [] \<longrightarrow> sub = flag_text fs ''sub'') \<and> sn_get (bd_conn d) sub = Inr stripe_sub \<and>
    PlanFromMetadata (sb_metadata stripe_sub) = Inr (cur, aid) \<and> owns a stripe_sub aid \<and>
    ct_package (bd_cat d) (flag_text fs ''package'') = (pkg, True) \<and> pl_package plan = pk_key pkg \<and> pl_interval plan = pl_interval cur \<and>
    (''games'' \<notin> set (fl_actual fs) \<longrightarrow> pl_games plan = sort (dedupe to_lower (pl_games cur))) \<and>
    (''stores'' \<notin> set (fl_actual fs) \<longrightarrow> pl_stores plan = (if pk_store_scope pkg = ct_scope_explicit (bd_cat d) then sort (dedupe to_lower (pl_stores cur)) else []))"
proof -
  from assms obtain fs rest a sub st stripe_sub cur aid res s3 upd where p:
    "parse_flags \<lparr>fl_formal = [(''email'', FlagText []), (''package'', FlagText []), (''games'', FlagText []), (''stores'', FlagText []), (''sub'', FlagText [])], fl_actual = []\<rparr> args = Inr (fs, rest)"
    "flag_text fs ''sub'' \<noteq> [] \<longrightarrow> sub = flag_text fs ''sub''" "sn_get (bd_conn d) sub = Inr stripe_sub" "PlanFromMetadata (sb_metadata stripe_sub) = Inr (cur, aid)"
    "ChangePlan (sn_get (bd_conn d)) (sa_prices (sn_api (bd_conn d))) (sn_update (bd_conn d)) (bd_cat d) (Some (bd_stores d)) (Config_GameNames (bd_cfg d)) a sub
      (wanted_plan (bd_cat d) fs cur) (Reconcile_Subscription (newReconciler (bd_cfg d) (bd_cat d) (bd_stores d)) (sn_get (bd_conn d)))
      st = (res, s3)"
    "cr_sent res = Some upd" "bc_updates s' = bc_updates s @ [(sub, upd)]" by (rule planChange_sent)
  from p(5,6) obtain plan items where c: "owns a stripe_sub aid" "upd = plan_update (bd_cat d) a cur plan items"
    "Validate (bd_cat d) (Config_GameNames (bd_cfg d)) True ((wanted_plan (bd_cat d) fs cur)\<lparr>pl_interval := pl_interval cur\<rparr>) = Inr plan"
    by (rule ChangePlan_sent) (use p(3,4) in auto)
  obtain pkg where v: "ct_package (bd_cat d) (flag_text fs ''package'') = (pkg, True)" "pl_package plan = pk_key pkg" "pl_interval plan = pl_interval cur"
    "pl_games plan = sort (dedupe to_lower (pl_games (wanted_plan (bd_cat d) fs cur)))" "pl_stores plan = sort (dedupe to_lower (pl_stores (wanted_plan (bd_cat d) fs cur)))"
    using c(3) by (rule Validate_plan) (auto simp: wanted_plan_def Let_def)
  have "su_metadata upd = Metadata plan (a_id a)" by (simp add: c(2) plan_update_def Let_def)
  moreover have "''games'' \<notin> set (fl_actual fs) \<longrightarrow> pl_games plan = sort (dedupe to_lower (pl_games cur))" using v(4) by (simp add: wanted_plan_def Let_def)
  moreover have "''stores'' \<notin> set (fl_actual fs) \<longrightarrow> pl_stores plan = (if pk_store_scope pkg = ct_scope_explicit (bd_cat d) then sort (dedupe to_lower (pl_stores cur)) else [])"
    using v(1,5) by (simp add: wanted_plan_def Let_def dedupe_def)
  ultimately show ?thesis using p(1,2,3,4,7) c(1) v(1,2,3) by blast
qed

end
