(* ===== verification/Fake_Stripe.thy ===== *)
theory Fake_Stripe
  imports Billing_Seed Billing_Checkout Serve
begin

text \<open>
  The Stripe and the game sites of the tests: \<open>src/billing/billingtest\<close>. The Stripe in memory implements the interface the seeding
  relies on, and is what the seeding is run on here. A subscription item points to a price of the fake, so it is kept by the
  price's id, which is never reused; what a caller reads is the price as it is then. Maps are association lists.
\<close>

section \<open>State\<close>

record Customer =
  cu_id :: string
  cu_email :: string
  cu_metadata :: "(string \<times> string) list"

record fake_item =
  fi_id :: string
  fi_price :: "string option"
  fi_quantity :: int
  fi_period_start :: int
  fi_period_end :: int

record fake_sub =
  fs_id :: string
  fs_status :: SubscriptionStatus
  fs_metadata :: "(string \<times> string) list"
  fs_customer :: string
  fs_items :: "fake_item list"

record FakeAPI =
  fa_customers :: "(string \<times> Customer) list"
  fa_products :: "(string \<times> Product) list"
  fa_prices :: "(string \<times> FullPrice) list"
  fa_subs :: "(string \<times> fake_sub) list"
  fa_sessions :: "SessionParams list"
  fa_session_ids :: "string list"
  fa_session_status :: "(string \<times> string) list"
  fa_session_customer :: "(string \<times> string) list"
  fa_portals :: "(string \<times> string) list"
  fa_updates :: "(string \<times> SubscriptionUpdate list) list"
  fa_fail :: "(string \<times> stripe_error) list"
  fa_calls :: "(string \<times> int) list"
  fa_seq :: int

definition NewFakeAPI :: FakeAPI where
  "NewFakeAPI =
     \<lparr>fa_customers = [], fa_products = [], fa_prices = [], fa_subs = [], fa_sessions = [], fa_session_ids = [], fa_session_status = [],
      fa_session_customer = [], fa_portals = [], fa_updates = [], fa_fail = [], fa_calls = [], fa_seq = 0\<rparr>"

definition missing :: "string \<Rightarrow> stripe_error" where
  "missing what = ResourceMissing (''no such '' @ what)"

definition map_get :: "'v \<Rightarrow> (string \<times> 'v) list \<Rightarrow> string \<Rightarrow> 'v" where
  "map_get z m k = (case map_of m k of Some v \<Rightarrow> v | None \<Rightarrow> z)"

definition counted :: "string \<Rightarrow> FakeAPI \<Rightarrow> FakeAPI" where
  "counted method f = f\<lparr>fa_calls := AList.update method (map_get 0 (fa_calls f) method + 1) (fa_calls f)\<rparr>"

definition fake_enter :: "string \<Rightarrow> ('a, FakeAPI) stripe_op \<Rightarrow> ('a, FakeAPI) stripe_op" where
  "fake_enter method body f =
     (case map_of (fa_fail f) method of Some err \<Rightarrow> (Inl err, counted method f) | None \<Rightarrow> body (counted method f))"

definition fake_next :: "string \<Rightarrow> FakeAPI \<Rightarrow> string \<times> FakeAPI" where
  "fake_next prefix f = (prefix @ ''_'' @ format_int (fa_seq f + 1), f\<lparr>fa_seq := fa_seq f + 1\<rparr>)"

section \<open>Customers, sessions and the portal\<close>

definition Fake_CreateCustomer :: "string \<Rightarrow> (string \<times> string) list \<Rightarrow> (Customer, FakeAPI) stripe_op" where
  "Fake_CreateCustomer email metadata =
     fake_enter ''CreateCustomer'' (\<lambda>f.
       case fake_next ''cus'' f of (i, f1) \<Rightarrow>
         let c = \<lparr>cu_id = i, cu_email = email, cu_metadata = metadata\<rparr> in (Inr c, f1\<lparr>fa_customers := AList.update i c (fa_customers f1)\<rparr>))"

definition CheckoutURL :: "string \<Rightarrow> string" where
  "CheckoutURL i = ''https://checkout.stripe.test/'' @ i"

definition Fake_CreateCheckoutSession :: "SessionParams \<Rightarrow> (Session, FakeAPI) stripe_op" where
  "Fake_CreateCheckoutSession p =
     fake_enter ''CreateCheckoutSession'' (\<lambda>f.
       case fake_next ''cs'' f of (i, f1) \<Rightarrow>
         (Inr \<lparr>cs_id = i, cs_url = CheckoutURL i\<rparr>,
          f1\<lparr>fa_sessions := fa_sessions f1 @ [p], fa_session_ids := fa_session_ids f1 @ [i],
            fa_session_status := AList.update i ''open'' (fa_session_status f1),
            fa_session_customer := AList.update i (sp_customer p) (fa_session_customer f1)\<rparr>))"

definition Fake_ListOpenCheckoutSessions :: "string \<Rightarrow> (string list, FakeAPI) stripe_op" where
  "Fake_ListOpenCheckoutSessions customer =
     fake_enter ''ListOpenCheckoutSessions'' (\<lambda>f.
       (Inr (filter (\<lambda>i. map_get [] (fa_session_customer f) i = customer \<and> map_get [] (fa_session_status f) i = ''open'') (fa_session_ids f)), f))"

text \<open>The status of the session, for the caller to read.\<close>

definition Fake_ExpireCheckoutSession :: "string \<Rightarrow> (string, FakeAPI) stripe_op" where
  "Fake_ExpireCheckoutSession i =
     fake_enter ''ExpireCheckoutSession'' (\<lambda>f.
       if map_get [] (fa_session_status f) i \<noteq> ''open'' then (Inl (StripeRefused (''fake stripe: session '' @ i @ '' is not open'')), f)
       else (Inr ''expired'', f\<lparr>fa_session_status := AList.update i ''expired'' (fa_session_status f)\<rparr>))"

definition Fake_CreatePortalSession :: "string \<Rightarrow> string \<Rightarrow> (string, FakeAPI) stripe_op" where
  "Fake_CreatePortalSession customer return_url =
     fake_enter ''CreatePortalSession'' (\<lambda>f.
       (Inr (''https://billing.stripe.test/'' @ customer), snd (fake_next ''bps'' (f\<lparr>fa_portals := fa_portals f @ [(customer, return_url)]\<rparr>))))"

section \<open>Subscriptions\<close>

definition item_view :: "FakeAPI \<Rightarrow> fake_item \<Rightarrow> SubscriptionItem" where
  "item_view f it =
     \<lparr>si_id = fi_id it, si_price = map_option Price.truncate (Option.bind (fi_price it) (map_of (fa_prices f))), si_quantity = fi_quantity it,
      si_period_start = fi_period_start it\<rparr>"

definition sub_view :: "FakeAPI \<Rightarrow> fake_sub \<Rightarrow> Subscription" where
  "sub_view f s =
     \<lparr>sb_id = fs_id s, sb_status = fs_status s, sb_metadata = fs_metadata s, sb_customer = Some (fs_customer s), sb_items = map (item_view f) (fs_items s),
      sb_ended_at = 0\<rparr>"

definition Fake_GetSubscription :: "string \<Rightarrow> (Subscription, FakeAPI) stripe_op" where
  "Fake_GetSubscription i =
     fake_enter ''GetSubscription'' (\<lambda>f.
       case map_of (fa_subs f) i of None \<Rightarrow> (Inl (missing ''subscription''), f) | Some s \<Rightarrow> (Inr (sub_view f s), f))"

definition Fake_ListSubscriptions :: "(Subscription list, FakeAPI) stripe_op" where
  "Fake_ListSubscriptions =
     fake_enter ''ListSubscriptions'' (\<lambda>f.
       (Inr (map (sub_view f) (filter (\<lambda>s. fs_status s \<noteq> SubscriptionStatusOther ''canceled'') (map snd (sort_key fst (fa_subs f))))), f))"

definition update_item :: "UpdateItem \<Rightarrow> fake_item list \<Rightarrow> FakeAPI \<Rightarrow> fake_item list \<times> FakeAPI" where
  "update_item item its f =
     (if ui_deleted item then (filter (\<lambda>it. fi_id it \<noteq> (case ui_id item of Some i \<Rightarrow> i | None \<Rightarrow> [])) its, f)
      else case ui_id item of
        Some i \<Rightarrow>
          (case ui_quantity item of
             Some q \<Rightarrow> (map (\<lambda>it. if fi_id it = i then it\<lparr>fi_quantity := q\<rparr> else it) its, f)
           | None \<Rightarrow> (its, f))
      | None \<Rightarrow>
          (case ui_price item of
             Some p \<Rightarrow>
               (case fake_next ''si'' f of (i, f1) \<Rightarrow>
                  (its @ [\<lparr>fi_id = i, fi_price = (if map_of (fa_prices f1) p = None then None else Some p),
                     fi_quantity = (case ui_quantity item of Some q \<Rightarrow> q | None \<Rightarrow> 0), fi_period_start = 0, fi_period_end = 0\<rparr>], f1))
           | None \<Rightarrow> (its, f)))"

fun update_fake_items :: "UpdateItem list \<Rightarrow> fake_item list \<Rightarrow> FakeAPI \<Rightarrow> fake_item list \<times> FakeAPI" where
  "update_fake_items [] its f = (its, f)"
| "update_fake_items (item # items) its f = (case update_item item its f of (its1, f1) \<Rightarrow> update_fake_items items its1 f1)"

text \<open>The code always sends metadata with an update.\<close>

definition Fake_UpdateSubscription :: "string \<Rightarrow> SubscriptionUpdate \<Rightarrow> (Subscription, FakeAPI) stripe_op" where
  "Fake_UpdateSubscription i p =
     fake_enter ''UpdateSubscription'' (\<lambda>f.
       case map_of (fa_subs f) i of
         None \<Rightarrow> (Inl (missing ''subscription''), f)
       | Some s \<Rightarrow>
           (case update_fake_items (su_items p) (fs_items s) (f\<lparr>fa_updates := AList.update i (map_get [] (fa_updates f) i @ [p]) (fa_updates f)\<rparr>) of
              (its, f1) \<Rightarrow>
                let s1 = s\<lparr>fs_metadata := su_metadata p, fs_items := its\<rparr>; f2 = f1\<lparr>fa_subs := AList.update i s1 (fa_subs f1)\<rparr> in (Inr (sub_view f2 s1), f2)))"

section \<open>Products and prices\<close>

definition Fake_GetProduct :: "string \<Rightarrow> (Product, FakeAPI) stripe_op" where
  "Fake_GetProduct i =
     fake_enter ''GetProduct'' (\<lambda>f. case map_of (fa_products f) i of None \<Rightarrow> (Inl (missing ''product''), f) | Some p \<Rightarrow> (Inr p, f))"

definition Fake_CreateProduct :: "ProductCreate \<Rightarrow> (Product, FakeAPI) stripe_op" where
  "Fake_CreateProduct p =
     fake_enter ''CreateProduct'' (\<lambda>f.
       case (if pc_id p = [] then fake_next ''prod'' f else (pc_id p, f)) of (i, f1) \<Rightarrow>
         let pd = \<lparr>pd_id = i, pd_name = pc_name p, pd_active = True, pd_metadata = pc_metadata p\<rparr>
         in (Inr pd, f1\<lparr>fa_products := AList.update i pd (fa_products f1)\<rparr>))"

definition Fake_UpdateProduct :: "string \<Rightarrow> ProductUpdate \<Rightarrow> (Product, FakeAPI) stripe_op" where
  "Fake_UpdateProduct i p =
     fake_enter ''UpdateProduct'' (\<lambda>f.
       case map_of (fa_products f) i of
         None \<Rightarrow> (Inl (missing ''product''), f)
       | Some pd \<Rightarrow>
           let changed = pd\<lparr>pd_name := (case pu_name p of Some n \<Rightarrow> n | None \<Rightarrow> pd_name pd),
                 pd_active := (case pu_active p of Some b \<Rightarrow> b | None \<Rightarrow> pd_active pd),
                 pd_metadata := (case pu_metadata p of Some m \<Rightarrow> m | None \<Rightarrow> pd_metadata pd)\<rparr>
           in (Inr changed, f\<lparr>fa_products := AList.update i changed (fa_products f)\<rparr>))"

definition Fake_ListPrices :: "(FullPrice list, FakeAPI) stripe_op" where
  "Fake_ListPrices = fake_enter ''ListPrices'' (\<lambda>f. (Inr (map snd (sort_key fst (fa_prices f))), f))"

definition new_price :: "string \<Rightarrow> PriceCreate \<Rightarrow> FullPrice" where
  "new_price i p =
     (let tiered = (cp_scheme p = Some PriceBillingSchemeTiered) in
      \<lparr>pr_id = i, pr_lookup_key = cp_lookup_key p, pr_active = True, pr_metadata = cp_metadata p,
       fp_unit_amount = (case cp_unit_amount p of Some a \<Rightarrow> a | None \<Rightarrow> 0), fp_currency = cp_currency p,
       fp_scheme = (if tiered then PriceBillingSchemeTiered else []),
       fp_tiers_mode = (if tiered then (case cp_tiers_mode p of Some m \<Rightarrow> m | None \<Rightarrow> []) else []),
       fp_tiers = (if tiered then map (\<lambda>t. (case pt_up_to t of Some n \<Rightarrow> n | None \<Rightarrow> 0, pt_unit_amount t)) (cp_tiers p) else []),
       fp_recurring = cp_recurring p, fp_product = Some (cp_product p)\<rparr>)"

text \<open>The order the map is walked in does not matter: without the transfer the first clash ends the call with nothing changed.\<close>

definition Fake_CreatePrice :: "PriceCreate \<Rightarrow> (FullPrice, FakeAPI) stripe_op" where
  "Fake_CreatePrice p =
     fake_enter ''CreatePrice'' (\<lambda>f.
       let key = cp_lookup_key p in
       if key \<noteq> [] \<and> (\<exists>other\<in>set (map snd (fa_prices f)). pr_lookup_key other = key) \<and> \<not> cp_transfer p
       then (Inl (StripeRefused ''lookup_key already in use''), f)
       else
         (case fake_next ''price'' (f\<lparr>fa_prices := map (\<lambda>(i, other). (i, if key \<noteq> [] \<and> pr_lookup_key other = key then other\<lparr>pr_lookup_key := []\<rparr> else other)) (fa_prices f)\<rparr>) of
            (i, f1) \<Rightarrow> let price = new_price i p in (Inr price, f1\<lparr>fa_prices := AList.update i price (fa_prices f1)\<rparr>)))"

definition Fake_UpdatePrice :: "string \<Rightarrow> PriceUpdate \<Rightarrow> (FullPrice, FakeAPI) stripe_op" where
  "Fake_UpdatePrice i p =
     fake_enter ''UpdatePrice'' (\<lambda>f.
       case map_of (fa_prices f) i of
         None \<Rightarrow> (Inl (missing ''price''), f)
       | Some price \<Rightarrow>
           let price1 = price\<lparr>pr_active := (case pq_active p of Some b \<Rightarrow> b | None \<Rightarrow> pr_active price),
                 pr_metadata := (case pq_metadata p of Some m \<Rightarrow> m | None \<Rightarrow> pr_metadata price),
                 pr_lookup_key := (case pq_lookup_key p of Some k \<Rightarrow> k | None \<Rightarrow> pr_lookup_key price)\<rparr>
           in (Inr price1, f\<lparr>fa_prices := AList.update i price1 (fa_prices f)\<rparr>))"

definition fake_catalog :: "FakeAPI catalog_api" where
  "fake_catalog =
     \<lparr>ca_get_product = Fake_GetProduct, ca_create_product = Fake_CreateProduct, ca_update_product = Fake_UpdateProduct,
      ca_list_prices = Fake_ListPrices, ca_create_price = Fake_CreatePrice, ca_update_price = Fake_UpdatePrice\<rparr>"

text \<open>The seeded fake, none when seeding fails, which ends the test.\<close>

definition SeededFakeAPI :: "ProductList \<Rightarrow> FakeAPI option" where
  "SeededFakeAPI cat = (case Seed fake_catalog cat NewFakeAPI of (None, _, f) \<Rightarrow> Some f | (Some _, _, _) \<Rightarrow> None)"

definition PriceByKey :: "string \<Rightarrow> FakeAPI \<Rightarrow> FullPrice option" where
  "PriceByKey key f = find (\<lambda>p. pr_lookup_key p = key) (map snd (sort_key fst (fa_prices f)))"

section \<open>Installing a subscription\<close>

text \<open>\<open>AddDate\<close> in UTC: the months are brought into a year first, then the days are counted on from the first of the month.\<close>

definition add_date :: "time \<Rightarrow> int \<Rightarrow> int \<Rightarrow> int \<Rightarrow> time" where
  "add_date t years months dys =
     (case civil_from_days (t div day) of (y, m, d) \<Rightarrow>
        let mm = m - 1 + months in
        (days_from_civil (y + years + mm div 12) (mm mod 12 + 1) 1 + (d - 1) + dys) * day + t mod day)"

definition periodStart :: "FullPrice \<Rightarrow> time \<Rightarrow> time" where
  "periodStart p period_end =
     (case fp_recurring p of
        None \<Rightarrow> period_end
      | Some (interval, n) \<Rightarrow>
          if interval = ''year'' then add_date period_end (- n) 0 0
          else if interval = ''month'' then add_date period_end 0 (- n) 0
          else if interval = ''week'' then add_date period_end 0 0 (- 7 * n)
          else if interval = ''day'' then add_date period_end 0 0 (- n)
          else period_end)"

fun fake_items :: "string \<Rightarrow> time \<Rightarrow> FakeAPI \<Rightarrow> nat \<Rightarrow> (string \<times> int) list \<Rightarrow> fake_item list option" where
  "fake_items sub period_end f n [] = Some []"
| "fake_items sub period_end f n ((key, qty) # items) =
     (case PriceByKey key f of
        None \<Rightarrow> None
      | Some p \<Rightarrow>
          map_option ((#) \<lparr>fi_id = ''si_'' @ sub @ ''_'' @ format_int (int n), fi_price = Some (pr_id p), fi_quantity = qty,
            fi_period_start = unix (periodStart p period_end), fi_period_end = unix period_end\<rparr>)
            (fake_items sub period_end f (Suc n) items))"

text \<open>None when a price is missing, which ends the test.\<close>

definition AddSub :: "string \<Rightarrow> string \<Rightarrow> SubscriptionStatus \<Rightarrow> (string \<times> string) list \<Rightarrow> time \<Rightarrow> (string \<times> int) list \<Rightarrow> FakeAPI \<Rightarrow> (Subscription \<times> FakeAPI) option" where
  "AddSub sub customer status metadata period_end items f =
     map_option (\<lambda>its. let s = \<lparr>fs_id = sub, fs_status = status, fs_metadata = metadata, fs_customer = customer, fs_items = its\<rparr>;
          f1 = f\<lparr>fa_subs := AList.update sub s (fa_subs f)\<rparr> in (sub_view f1 s, f1)) (fake_items sub period_end f 0 items)"

section \<open>The stores of the tests\<close>

record FakeStores =
  fk_sites :: "(string \<times> SiteStores) list"
  fk_fail :: "string option"
  fk_down :: "string list"
  fk_calls :: "(string \<times> int) list"

definition fake_family :: "string \<Rightarrow> string \<Rightarrow> string list \<Rightarrow> StoreFamily" where
  "fake_family key name shorthands = \<lparr>sf_key = key, sf_name = name, sf_shorthands = shorthands\<rparr>"

definition NewFakeStores :: FakeStores where
  "NewFakeStores =
     (let tcg = fake_family ''tcgplayer'' ''TCGplayer'' [''TCGLow'', ''TCGMarket'', ''TCGDirect'', ''TCGDirectNet'', ''TCGPlayer''] in
      \<lparr>fk_sites =
         [(''magic'', \<lparr>ss_game = ''magic'', ss_implied = [tcg], ss_stores =
             [fake_family ''cardkingdom'' ''Card Kingdom'' [''CK''], fake_family ''coolstuffinc'' ''CoolStuffInc'' [''CSI''],
              fake_family ''starcitygames'' ''Star City Games'' [''SCG'']]\<rparr>),
          (''pokemon'', \<lparr>ss_game = ''pokemon'', ss_implied = [tcg], ss_stores =
             [fake_family ''cardkingdom'' ''Card Kingdom'' [''CK'', ''CKBLLast''], fake_family ''trollandtoad'' ''Troll and Toad'' [''TNT'']]\<rparr>)],
       fk_fail = None, fk_down = [], fk_calls = []\<rparr>)"

definition Fake_SiteStores :: "string \<Rightarrow> FakeStores \<Rightarrow> (string + SiteStores) \<times> FakeStores" where
  "Fake_SiteStores game f =
     (let f1 = f\<lparr>fk_calls := AList.update game (map_get 0 (fk_calls f) game + 1) (fk_calls f)\<rparr> in
      (case fk_fail f of
         Some err \<Rightarrow> Inl err
       | None \<Rightarrow>
           if game \<in> set (fk_down f) then Inl (''fake stores: '' @ game @ '' is down'')
           else case map_of (fk_sites f) game of None \<Rightarrow> Inl (''fake stores: no site for '' @ game) | Some site \<Rightarrow> Inr site, f1))"

definition TotalCalls :: "FakeStores \<Rightarrow> int" where
  "TotalCalls f = sum_list (map snd (fk_calls f))"

section \<open>Lemmas\<close>

text \<open>What the fake keeps: prices are under their own ids, the ids were drawn from the sequence, and a lookup key is on one price.\<close>

definition fake_ok :: "FakeAPI \<Rightarrow> bool" where
  "fake_ok f \<longleftrightarrow> distinct (map fst (fa_prices f)) \<and>
     (\<forall>i p. map_of (fa_prices f) i = Some p \<longrightarrow> pr_id p = i \<and> (\<exists>n \<le> fa_seq f. i = ''price_'' @ format_int n)) \<and>
     (\<forall>i p j q. map_of (fa_prices f) i = Some p \<longrightarrow> map_of (fa_prices f) j = Some q \<longrightarrow> pr_lookup_key p = pr_lookup_key q \<longrightarrow> pr_lookup_key p \<noteq> [] \<longrightarrow> i = j)"

lemma counted_simps [simp]:
  "fa_prices (counted m f) = fa_prices f" "fa_products (counted m f) = fa_products f" "fa_seq (counted m f) = fa_seq f" "fa_fail (counted m f) = fa_fail f"
  by (simp_all add: counted_def)

lemma fake_ok_cong: "fa_prices f' = fa_prices f \<Longrightarrow> fa_seq f' = fa_seq f \<Longrightarrow> fake_ok f' = fake_ok f"
  by (simp add: fake_ok_def)

lemma fake_ok_later:
  assumes "fa_prices f' = fa_prices f" "fa_seq f \<le> fa_seq f'" "fake_ok f"
  shows "fake_ok f'"
proof -
  have "\<exists>n \<le> fa_seq f'. i = ''price_'' @ format_int n" if "map_of (fa_prices f) i = Some p" for i p
    using assms(2,3) that unfolding fake_ok_def by (meson order_trans)
  then show ?thesis using assms(1,3) by (simp add: fake_ok_def)
qed

lemma fake_enter_Inr: "fake_enter m body f = (Inr x, f') \<Longrightarrow> map_of (fa_fail f) m = None \<and> body (counted m f) = (Inr x, f')"
  by (auto simp: fake_enter_def split: option.splits)

lemma fake_enter_snd:
  assumes "P (counted m f)" "\<And>g. P g \<Longrightarrow> P (snd (body g))"
  shows "P (snd (fake_enter m body f))"
  using assms by (auto simp: fake_enter_def split: option.split)

lemma fake_fresh:
  assumes "fake_ok f"
  shows "map_of (fa_prices f) (''price_'' @ format_int (fa_seq f + 1)) = None"
proof (rule ccontr)
  assume "map_of (fa_prices f) (''price_'' @ format_int (fa_seq f + 1)) \<noteq> None"
  then obtain n where "n \<le> fa_seq f" "''price_'' @ format_int (fa_seq f + 1) = ''price_'' @ format_int n"
    using assms unfolding fake_ok_def by blast
  then show False using format_int_inject [of "fa_seq f + 1" n] by simp
qed

lemma new_price_created: "created_as p (new_price i p)"
  by (simp add: created_as_def new_price_def Let_def keeps_metadata_def PriceBillingSchemeTiered_def)

lemma new_price_simps [simp]: "pr_id (new_price i p) = i" "pr_lookup_key (new_price i p) = cp_lookup_key p"
  by (simp_all add: new_price_def Let_def)

lemma map_of_released:
  "map_of (map (\<lambda>(i, other). (i, if key \<noteq> [] \<and> pr_lookup_key other = key then other\<lparr>pr_lookup_key := []\<rparr> else other)) ps) =
    map_option (release_key key) \<circ> map_of ps"
proof -
  have "(\<lambda>other. if key \<noteq> [] \<and> pr_lookup_key other = key then other\<lparr>pr_lookup_key := []\<rparr> else other) = release_key key"
    by (auto simp: fun_eq_iff release_key_def)
  then show ?thesis unfolding map_of_map by (rule arg_cong)
qed

text \<open>The prices of the fake after a creation that succeeds.\<close>

lemma fake_created_price:
  assumes "Fake_CreatePrice cp f = (Inr p, f')"
  shows "p = new_price (''price_'' @ format_int (fa_seq f + 1)) cp \<and> fa_seq f' = fa_seq f + 1 \<and> fa_products f' = fa_products f \<and>
    map_of (fa_prices f') = (map_option (release_key (cp_lookup_key cp)) \<circ> map_of (fa_prices f))(pr_id p \<mapsto> p) \<and>
    (distinct (map fst (fa_prices f)) \<longrightarrow> distinct (map fst (fa_prices f')))"
proof -
  let ?ps = "map (\<lambda>(i, other). (i, if cp_lookup_key cp \<noteq> [] \<and> pr_lookup_key other = cp_lookup_key cp then other\<lparr>pr_lookup_key := []\<rparr> else other)) (fa_prices f)"
  have keys: "map fst ?ps = map fst (fa_prices f)" by (simp add: comp_def split_def)
  have p: "p = new_price (''price_'' @ format_int (fa_seq f + 1)) cp" "fa_prices f' = AList.update (pr_id p) p ?ps" "fa_seq f' = fa_seq f + 1" "fa_products f' = fa_products f"
    using fake_enter_Inr [OF assms [unfolded Fake_CreatePrice_def]] by (auto simp: Let_def fake_next_def split: if_splits)
  have "map_of (fa_prices f') = (map_option (release_key (cp_lookup_key cp)) \<circ> map_of (fa_prices f))(pr_id p \<mapsto> p)"
    unfolding p(2) update_conv' map_of_released ..
  moreover have "distinct (map fst (fa_prices f)) \<longrightarrow> distinct (map fst (fa_prices f'))" 
    unfolding p(2) using distinct_update [of ?ps "pr_id p" p] unfolding keys by blast
  ultimately show ?thesis using p(1,3,4) by blast
qed

lemma fake_refused_price: "Fake_CreatePrice cp f = (Inl e, f') \<Longrightarrow> f' = counted ''CreatePrice'' f"
  by (auto simp: Fake_CreatePrice_def fake_enter_def Let_def fake_next_def split: option.splits if_splits)

lemma fake_updated_price:
  assumes "Fake_UpdatePrice i pq f = (Inr p, f')"
  shows "\<exists>old. map_of (fa_prices f) i = Some old \<and>
    p = old\<lparr>pr_active := (case pq_active pq of Some b \<Rightarrow> b | None \<Rightarrow> pr_active old), pr_metadata := (case pq_metadata pq of Some m \<Rightarrow> m | None \<Rightarrow> pr_metadata old),
      pr_lookup_key := (case pq_lookup_key pq of Some k \<Rightarrow> k | None \<Rightarrow> pr_lookup_key old)\<rparr> \<and>
    fa_prices f' = AList.update i p (fa_prices f) \<and> fa_seq f' = fa_seq f \<and> fa_products f' = fa_products f"
  using fake_enter_Inr [OF assms [unfolded Fake_UpdatePrice_def]] by (auto simp: Let_def split: option.splits)

lemma fake_kept_price: "Fake_UpdatePrice i pq f = (Inl e, f') \<Longrightarrow> f' = counted ''UpdatePrice'' f"
  by (auto simp: Fake_UpdatePrice_def fake_enter_def Let_def split: option.splits)

lemma fake_ok_create:
  assumes f: "fake_ok f" and c: "Fake_CreatePrice cp f = (Inr p, f')"
  shows "fake_ok f'"
proof -
  note n = fake_created_price [OF c]
  have fresh: "map_of (fa_prices f) (pr_id p) = None" using fake_fresh [OF f] n by simp
  have at_old: "\<exists>old. map_of (fa_prices f) i = Some old \<and> q = release_key (cp_lookup_key cp) old"
    if "map_of (fa_prices f') i = Some q" "i \<noteq> pr_id p" for i q using that n by auto
  have here: "q = p" if "map_of (fa_prices f') (pr_id p) = Some q" for q using that n by simp
  have "distinct (map fst (fa_prices f'))" using n f by (simp add: fake_ok_def)
  moreover have "pr_id q = i \<and> (\<exists>n \<le> fa_seq f'. i = ''price_'' @ format_int n)" if q: "map_of (fa_prices f') i = Some q" for i q
  proof (cases "i = pr_id p")
    case False
    then obtain old where old: "map_of (fa_prices f) i = Some old" "q = release_key (cp_lookup_key cp) old" using at_old [OF q] by blast
    then obtain m where "pr_id old = i" "m \<le> fa_seq f" "i = ''price_'' @ format_int m" using f unfolding fake_ok_def by blast
    then show ?thesis using old(2) n by (intro conjI exI [of _ m]) simp_all
  qed (use here q n in auto)
  moreover have "i = j" if q: "map_of (fa_prices f') i = Some q" "map_of (fa_prices f') j = Some r" "pr_lookup_key q = pr_lookup_key r" "pr_lookup_key q \<noteq> []" for i j q r
  proof -
    have off: "pr_lookup_key x \<noteq> cp_lookup_key cp \<and> map_of (fa_prices f) k = Some x" if x: "map_of (fa_prices f') k = Some x" "k \<noteq> pr_id p" "pr_lookup_key x \<noteq> []" for k x
    proof -
      obtain old where "map_of (fa_prices f) k = Some old" "x = release_key (cp_lookup_key cp) old" using at_old [OF x(1,2)] by blast
      then show ?thesis using x(3) by (cases "pr_lookup_key old = cp_lookup_key cp") simp_all
    qed
    have pk: "pr_lookup_key p = cp_lookup_key cp" using n by simp
    consider "i = pr_id p" "j = pr_id p" | "i = pr_id p" "j \<noteq> pr_id p" | "i \<noteq> pr_id p" "j = pr_id p" | "i \<noteq> pr_id p" "j \<noteq> pr_id p" by blast
    then show ?thesis
    proof cases
      case 4
      then have "map_of (fa_prices f) i = Some q" "map_of (fa_prices f) j = Some r" using off q by auto
      then show ?thesis using f q(3,4) unfolding fake_ok_def by blast
    qed (use off q here pk in metis)+
  qed
  ultimately show ?thesis unfolding fake_ok_def by blast
qed

lemma fake_ok_update:
  assumes f: "fake_ok f" and u: "Fake_UpdatePrice i pq f = (Inr p, f')" and k: "pq_lookup_key pq = None"
  shows "fake_ok f'"
proof -
  obtain old where old: "map_of (fa_prices f) i = Some old" "fa_prices f' = AList.update i p (fa_prices f)" "fa_seq f' = fa_seq f"
    "pr_id p = pr_id old" "pr_lookup_key p = pr_lookup_key old" using fake_updated_price [OF u] k by auto
  have m: "map_of (fa_prices f') = (map_of (fa_prices f))(i \<mapsto> p)" using old(2) by (simp add: update_conv')
  have before: "\<exists>x. map_of (fa_prices f) j = Some x \<and> pr_id q = pr_id x \<and> pr_lookup_key q = pr_lookup_key x" if "map_of (fa_prices f') j = Some q" for j q
    using that old m by (auto split: if_splits)
  have "distinct (map fst (fa_prices f'))" using f old(2) by (simp add: fake_ok_def distinct_update)
  moreover have "pr_id q = j \<and> (\<exists>n \<le> fa_seq f'. j = ''price_'' @ format_int n)" if "map_of (fa_prices f') j = Some q" for j q
    using before [OF that] f old(3) unfolding fake_ok_def by auto
  moreover have "j = l" if q: "map_of (fa_prices f') j = Some q" "map_of (fa_prices f') l = Some r" "pr_lookup_key q = pr_lookup_key r" "pr_lookup_key q \<noteq> []" for j l q r
  proof -
    obtain x y where xy: "map_of (fa_prices f) j = Some x" "map_of (fa_prices f) l = Some y" "pr_lookup_key x = pr_lookup_key q" "pr_lookup_key y = pr_lookup_key r"
      using before [OF q(1)] before [OF q(2)] by force
    then show ?thesis using f q(3,4) unfolding fake_ok_def by metis
  qed
  ultimately show ?thesis unfolding fake_ok_def by blast
qed

lemma fake_products:
  "Fake_GetProduct i f = (r, f') \<Longrightarrow> f' = counted ''GetProduct'' f"
  "Fake_CreateProduct pc f = (r', f') \<Longrightarrow> fa_prices f' = fa_prices f \<and> fa_seq f \<le> fa_seq f' \<and> fa_fail f' = fa_fail f"
  "Fake_UpdateProduct i pu f = (r', f') \<Longrightarrow> fa_prices f' = fa_prices f \<and> fa_seq f' = fa_seq f \<and> fa_fail f' = fa_fail f"
  "Fake_ListPrices f = (r'', f') \<Longrightarrow> f' = counted ''ListPrices'' f"
  by (auto simp: Fake_GetProduct_def Fake_CreateProduct_def Fake_UpdateProduct_def Fake_ListPrices_def fake_enter_def fake_next_def Let_def
      split: option.splits if_splits)

lemma fake_fail_kept: "fa_fail (snd (Fake_CreatePrice cp f)) = fa_fail f" "fa_fail (snd (Fake_UpdatePrice i pq f)) = fa_fail f"
  by (auto simp: Fake_CreatePrice_def Fake_UpdatePrice_def fake_enter_def fake_next_def Let_def split: option.split)

lemma fake_listed:
  assumes "fake_ok f" "Fake_ListPrices f = (Inr ps, f')"
  shows "p \<in> set ps \<longleftrightarrow> map_of (fa_prices f) (pr_id p) = Some p"
proof -
  have "ps = map snd (sort_key fst (fa_prices f))" using fake_enter_Inr [OF assms(2) [unfolded Fake_ListPrices_def]] by simp
  then have "set ps = snd ` set (fa_prices f)" by simp
  moreover have pair: "(i, q) \<in> set (fa_prices f) \<longleftrightarrow> map_of (fa_prices f) i = Some q" for i q using assms(1) by (simp add: fake_ok_def)
  moreover have own: "pr_id q = i" if "map_of (fa_prices f) i = Some q" for i q using that assms(1) unfolding fake_ok_def by blast
  ultimately have "p \<in> set ps \<longleftrightarrow> (\<exists>i. (i, p) \<in> set (fa_prices f))" by (simp add: image_iff) (metis snd_conv surj_pair)
  then have "p \<in> set ps \<longleftrightarrow> (\<exists>i. map_of (fa_prices f) i = Some p)" by (simp add: pair)
  then show ?thesis using own [of _ p] by auto
qed

lemma fake_catalog_simps [simp]:
  "ca_get_product fake_catalog = Fake_GetProduct" "ca_create_product fake_catalog = Fake_CreateProduct" "ca_update_product fake_catalog = Fake_UpdateProduct"
  "ca_list_prices fake_catalog = Fake_ListPrices" "ca_create_price fake_catalog = Fake_CreatePrice" "ca_update_price fake_catalog = Fake_UpdatePrice"
  by (simp_all add: fake_catalog_def)

lemma fake_ok_calls:
  assumes "fake_ok f"
  shows "fake_ok (snd (Fake_GetProduct i f))" "fake_ok (snd (Fake_CreateProduct pc f))" "fake_ok (snd (Fake_UpdateProduct i pu f))"
    "fake_ok (snd (Fake_ListPrices f))" "fake_ok (snd (Fake_CreatePrice cp f))" "pq_lookup_key pq = None \<Longrightarrow> fake_ok (snd (Fake_UpdatePrice i pq f))"
proof -
  show "fake_ok (snd (Fake_GetProduct i f))" "fake_ok (snd (Fake_ListPrices f))"
    using fake_products(1) [of i f] fake_products(4) [of f] fake_ok_cong assms by (metis counted_simps(1,3) prod.collapse)+
  show "fake_ok (snd (Fake_CreateProduct pc f))" "fake_ok (snd (Fake_UpdateProduct i pu f))"
    using fake_products(2) [of pc f] fake_products(3) [of i pu f] fake_ok_later [OF _ _ assms] by (metis prod.collapse order_refl)+
  have c: "fake_ok (counted m f)" for m using assms fake_ok_cong [of "counted m f" f] by simp
  show "fake_ok (snd (Fake_CreatePrice cp f))"
    using c fake_refused_price [of cp f] fake_ok_create [OF assms, of cp] by (cases "Fake_CreatePrice cp f"; cases "fst (Fake_CreatePrice cp f)") auto
  show "pq_lookup_key pq = None \<Longrightarrow> fake_ok (snd (Fake_UpdatePrice i pq f))"
    using c fake_kept_price [of i pq f] fake_ok_update [OF assms, of i pq] by (cases "Fake_UpdatePrice i pq f"; cases "fst (Fake_UpdatePrice i pq f)") auto
qed

text \<open>No injected failure claims that something is missing.\<close>

definition honest :: "FakeAPI \<Rightarrow> bool" where
  "honest f \<longleftrightarrow> (\<forall>(m, e)\<in>set (fa_fail f). \<not> IsMissing e)"

lemma fake_fail_calls:
  "fa_fail (snd (Fake_GetProduct i f)) = fa_fail f" "fa_fail (snd (Fake_CreateProduct pc f)) = fa_fail f" "fa_fail (snd (Fake_UpdateProduct i pu f)) = fa_fail f"
  "fa_fail (snd (Fake_ListPrices f)) = fa_fail f"
  using fake_products by (metis counted_simps(4) prod.collapse)+

lemma honest_cong: "fa_fail f' = fa_fail f \<Longrightarrow> honest f' = honest f"
  by (simp add: honest_def)

lemmas honest_calls = fake_fail_calls [THEN honest_cong] fake_fail_kept [THEN honest_cong]

lemma fake_product_laws:
  "Fake_GetProduct i f = (Inl e, f') \<Longrightarrow> IsMissing e \<Longrightarrow> honest f \<Longrightarrow> map_of (fa_products f) i = None"
  "Fake_GetProduct i f = (Inr pd, f') \<Longrightarrow> map_of (fa_products f) i = Some pd"
  "Fake_CreateProduct pc f = (Inr pd, f') \<Longrightarrow> pc_id pc \<noteq> [] \<Longrightarrow>
    pd_name pd = pc_name pc \<and> pd_active pd \<and> map_of (fa_products f') = (map_of (fa_products f))(pc_id pc \<mapsto> pd)"
  "Fake_UpdateProduct i pu f = (Inr pd, f') \<Longrightarrow>
    (\<forall>n. pu_name pu = Some n \<longrightarrow> pd_name pd = n) \<and> (\<forall>b. pu_active pu = Some b \<longrightarrow> pd_active pd = b) \<and> map_of (fa_products f') = (map_of (fa_products f))(i \<mapsto> pd)"
  by (auto simp: Fake_GetProduct_def Fake_CreateProduct_def Fake_UpdateProduct_def fake_enter_def honest_def Let_def update_conv' dest: map_of_SomeD split: option.splits if_splits)


lemma fake_up:
  "fa_fail f = [] \<Longrightarrow> fst (Fake_GetProduct i f) = Inl e \<Longrightarrow> IsMissing e"
  "fa_fail f = [] \<Longrightarrow> \<not> isl (fst (Fake_CreateProduct pc f))"
  "fa_fail f = [] \<Longrightarrow> map_of (fa_products f) i \<noteq> None \<Longrightarrow> \<not> isl (fst (Fake_UpdateProduct i pu f))"
  "fa_fail f = [] \<Longrightarrow> \<not> isl (fst (Fake_ListPrices f))"
  "fa_fail f = [] \<Longrightarrow> map_of (fa_prices f) i \<noteq> None \<Longrightarrow> \<not> isl (fst (Fake_UpdatePrice i pq f))"
  by (auto simp: Fake_GetProduct_def Fake_CreateProduct_def Fake_UpdateProduct_def Fake_ListPrices_def Fake_UpdatePrice_def fake_enter_def Let_def
      missing_def IsMissing_def split: option.splits prod.split)

lemma fake_up_create:
  assumes "fake_ok f" "fa_fail f = []" "cp_transfer cp \<or> (\<forall>i p. map_of (fa_prices f) i = Some p \<longrightarrow> pr_lookup_key p \<noteq> cp_lookup_key cp)"
  shows "\<not> isl (fst (Fake_CreatePrice cp f))"
proof -
  have "pr_lookup_key other \<noteq> cp_lookup_key cp \<or> cp_transfer cp" if "(i, other) \<in> set (fa_prices f)" for i other
    using that assms(1,3) by (auto simp: fake_ok_def)
  then show ?thesis using assms(2) by (auto simp: Fake_CreatePrice_def fake_enter_def Let_def split: prod.split)
qed

interpretation fake: stripe_up fake_catalog "\<lambda>f. map_of (fa_products f)" "\<lambda>f. map_of (fa_prices f)" "\<lambda>f. fake_ok f \<and> honest f" "\<lambda>f. fa_fail f = []"
proof (unfold_locales, goal_cases)
  case (1 f i p) then show ?case unfolding fake_ok_def by blast
next
  case (2 f i p j q) then show ?case unfolding fake_ok_def by blast
next
  case (9 f i e f')
  then show ?case using fake_products(1) [of i f] fake_product_laws(1) [of i f e f'] by auto
next
  case (10 f i pd f')
  then show ?case using fake_products(1) [of i f] fake_product_laws(2) [of i f pd f'] by auto
next
  case (11 f pc pd f')
  then show ?case using fake_products(2) [of pc f] fake_product_laws(3) [of pc f pd f'] by auto
next
  case (12 f i pu pd f')
  then show ?case using fake_products(3) [of i pu f] fake_product_laws(4) [of i pu f pd f'] by auto
next
  case (13 f ps f')
  then show ?case using fake_listed [of f ps f'] fake_products(4) [of f] by auto
next
  case (14 f cp p f')
  then have n: "Fake_CreatePrice cp f = (Inr p, f')" "fake_ok f" by simp_all
  note c = fake_created_price [OF n(1)]
  have "map_of (fa_prices f) (pr_id p) = None" using fake_fresh [OF n(2)] c by simp
  moreover have "created_as cp p" using c new_price_created by simp
  ultimately show ?case using c by (auto simp: fun_eq_iff)
next
  case (15 f i pq p f')
  then obtain old where "map_of (fa_prices f) i = Some old" 
    "p = old\<lparr>pr_active := (case pq_active pq of Some b \<Rightarrow> b | None \<Rightarrow> pr_active old), pr_metadata := (case pq_metadata pq of Some m \<Rightarrow> m | None \<Rightarrow> pr_metadata old)\<rparr>"
    "fa_prices f' = AList.update i p (fa_prices f)" "fa_products f' = fa_products f"
    using fake_updated_price [of i pq f p f'] by (auto cong: if_cong)
  then show ?case by (intro exI [of _ old] exI [of _ "case pq_metadata pq of Some m \<Rightarrow> m | None \<Rightarrow> pr_metadata old"])
      (auto simp: update_conv' keeps_metadata_def split: option.split)
qed (simp_all add: fake_ok_calls fake_fail_calls fake_fail_kept honest_calls fake_up fake_up_create)

section \<open>Seeding\<close>


definition seed_package :: "int \<Rightarrow> Package" where
  "seed_package monthly = \<lparr>pk_key = ''pro'', pk_name = ''Pro'', pk_store_scope = ''explicit'', pk_included_stores = 1, pk_monthly = monthly,
     pk_modes = [''retail''], pk_lookback_days = 0, pk_history = False\<rparr>"

definition seed_addon :: Addon where
  "seed_addon = \<lparr>ad_key = ''extra_store'', ad_name = ''Store'', ad_grants_mode = [], ad_monthly = 500, ad_stepped = True, ad_first_monthly = 1000,
     ad_applies_to = [''pro''], ad_applies = (\<lambda>_. True), ad_amount = (\<lambda>_ q. Inr (500 * q))\<rparr>"

definition seed_interval :: "string \<Rightarrow> int \<Rightarrow> Interval" where
  "seed_interval key months = \<lparr>in_key = key, in_interval = ''month'', in_count = months, in_public = True, in_amount = (\<lambda>m. Inr (m * months))\<rparr>"

definition seed_sample :: "int \<Rightarrow> ProductList" where
  "seed_sample monthly = sample_catalog\<lparr>ct_packages := [seed_package monthly], ct_intervals := [seed_interval ''monthly'' 1, seed_interval ''quarterly'' 3],
     ct_addons := [seed_addon]\<rparr>"

definition seeded_sample :: "seed_error option \<times> SeedResult \<times> FakeAPI" where
  "seeded_sample = Seed fake_catalog (seed_sample 5000) NewFakeAPI"

lemma seed_sample_named: "catalog_named (seed_sample monthly)"
  by (simp add: catalog_named_def seed_sample_def productSpecs_def priceSpecs_def package_price_def addon_price_def seed_interval_def seed_package_def
      seed_addon_def ProductID_def sample_catalog_def)

lemma fresh_fake: "fake_ok NewFakeAPI" "honest NewFakeAPI" "fa_fail NewFakeAPI = []"
  by (simp_all add: fake_ok_def honest_def NewFakeAPI_def)

lemma seeded_sample_runs:
  "fst seeded_sample = None \<and> sr_created (fst (snd seeded_sample)) =
     [''mtgban_api_pro'', ''mtgban_api_extra_store'', ''pro_monthly'', ''pro_quarterly'', ''extra_store_monthly'', ''extra_store_quarterly'']"
  by code_simp

lemma seeded_again: "fst (Seed fake_catalog (seed_sample 5000) (snd (snd seeded_sample))) = None"
  by code_simp


text \<open>
  Archiving is not made up for: when the old price cannot be archived the run ends with an error, but the new price has the lookup
  key already, so the next run finds the catalog in place and leaves the old price active for good.
\<close>

definition one_price :: "int \<Rightarrow> ProductList" where
  "one_price monthly = sample_catalog\<lparr>ct_packages := [seed_package monthly], ct_intervals := [seed_interval ''monthly'' 1]\<rparr>"

definition archive_failed :: "seed_error option \<times> SeedResult \<times> FakeAPI" where
  "archive_failed = (case Seed fake_catalog (one_price 5000) NewFakeAPI of (_, _, f) \<Rightarrow>
     Seed fake_catalog (one_price 6000) (f\<lparr>fa_fail := [(''UpdatePrice'', StripeRefused ''down'')]\<rparr>))"

definition archive_retried :: "seed_error option \<times> SeedResult \<times> FakeAPI" where
  "archive_retried = Seed fake_catalog (one_price 6000) (snd (snd archive_failed)\<lparr>fa_fail := []\<rparr>)"

theorem archive_not_retried:
  "fst archive_failed = Some (PriceNotArchived ''price_1'' (StripeRefused ''down'')) \<and> fst archive_retried = None \<and>
   fst (snd archive_retried) = \<lparr>sr_created = [], sr_updated = [], sr_archived = []\<rparr> \<and>
   map (\<lambda>(i, p). (i, pr_active p, fp_unit_amount p)) (fa_prices (snd (snd archive_retried))) = [(''price_1'', True, 5000), (''price_2'', True, 6000)]"
  by code_simp

section \<open>The rest of the fake\<close>

text \<open>A session is listed as open until it is expired, and it can be expired once.\<close>

theorem fake_session_once:
  assumes "Fake_CreateCheckoutSession p f = (Inr sess, f1)" "fa_fail f = []"
  shows "\<exists>f2 open1 open2. Fake_ExpireCheckoutSession (cs_id sess) f1 = (Inr ''expired'', f2) \<and> isl (fst (Fake_ExpireCheckoutSession (cs_id sess) f2)) \<and>
    fst (Fake_ListOpenCheckoutSessions (sp_customer p) f1) = Inr open1 \<and> cs_id sess \<in> set open1 \<and>
    fst (Fake_ListOpenCheckoutSessions (sp_customer p) f2) = Inr open2 \<and> cs_id sess \<notin> set open2"
proof -
  have f1: "cs_id sess \<in> set (fa_session_ids f1)" "map_of (fa_session_status f1) (cs_id sess) = Some ''open''"
    "map_of (fa_session_customer f1) (cs_id sess) = Some (sp_customer p)" "fa_fail f1 = []"
    using assms by (auto simp: Fake_CreateCheckoutSession_def fake_enter_def fake_next_def counted_def update_conv')
  define f2 where "f2 = (counted ''ExpireCheckoutSession'' f1)\<lparr>fa_session_status := AList.update (cs_id sess) ''expired'' (fa_session_status f1)\<rparr>"
  have f2: "map_of (fa_session_status f2) (cs_id sess) = Some ''expired''" "fa_fail f2 = []" using f1 by (simp_all add: f2_def update_conv' counted_def)
  have "Fake_ExpireCheckoutSession (cs_id sess) f1 = (Inr ''expired'', f2)" "isl (fst (Fake_ExpireCheckoutSession (cs_id sess) f2))"
    using f1 f2 by (simp_all add: Fake_ExpireCheckoutSession_def fake_enter_def map_get_def counted_def f2_def)
  then show ?thesis using f1 f2 by (simp add: Fake_ListOpenCheckoutSessions_def fake_enter_def map_get_def counted_def)
qed

text \<open>The test's Stripe is seeded exactly when the catalog's amounts are in range.\<close>

theorem SeededFakeAPI_exists: "catalog_named cat \<Longrightarrow> SeededFakeAPI cat = None \<longleftrightarrow> isl (priceSpecs cat)"
proof -
  assume n: "catalog_named cat"
  have ok: "fake_ok NewFakeAPI \<and> honest NewFakeAPI" using fresh_fake by simp
  obtain err res f where run: "Seed fake_catalog cat NewFakeAPI = (err, res, f)" by (metis prod_cases3)
  have "err = None" if "priceSpecs cat = Inr specs" for specs using fake.Seed_succeeds [OF ok fresh_fake(3) n that] run by simp
  moreover have "\<not> isl (priceSpecs cat)" if "err = None" using fake.Seed_brings [OF ok n] run that by (metis Inl_Inr_False isl_def)
  ultimately show ?thesis using run by (cases "priceSpecs cat"; cases err) (auto simp: SeededFakeAPI_def)
qed


end
