(* ===== verification/Discord.thy ===== *)
theory Discord
  imports Gateway_Prelude
begin

text \<open>
  \<open>src/discord/discord.go\<close>: how an alert is split into messages and posted. A message is a list of
  runes, as the code's \<open>[]rune\<close>; a rune is its code point. The HTTP request of one message is a
  parameter.
\<close>

section \<open>Operations\<close>

type_synonym rune = nat

definition messageLimit :: nat where "messageLimit = 2000"

definition newline :: rune where "newline = 10"

text \<open>\<open>strings.Split(msg, "\n")\<close>.\<close>

fun split_lines :: "rune list \<Rightarrow> rune list list" where
  "split_lines [] = [[]]"
| "split_lines (x # xs) =
     (if x = newline then [] # split_lines xs
      else case split_lines xs of [] \<Rightarrow> [[x]] | y # ys \<Rightarrow> (x # y) # ys)"

text \<open>The loop state: the chunks so far and the one being filled.\<close>

definition flush_chunk :: "rune list list \<times> rune list \<Rightarrow> rune list list \<times> rune list" where
  "flush_chunk s = (case s of (chunks, cur) \<Rightarrow> if cur \<noteq> [] then (chunks @ [cur], []) else s)"

text \<open>An oversized line is cut into full chunks; its rest starts the next chunk.\<close>

function hard_split :: "rune list list \<Rightarrow> rune list \<Rightarrow> rune list list \<times> rune list" where
  "hard_split chunks lr =
     (if messageLimit < length lr then hard_split (chunks @ [take messageLimit lr]) (drop messageLimit lr) else (chunks, lr))"
  by pat_completeness auto
termination by (relation "measure (length \<circ> snd)") (auto simp: messageLimit_def)

declare hard_split.simps [simp del]

definition add_line :: "rune list list \<times> rune list \<Rightarrow> rune list \<Rightarrow> rune list list \<times> rune list" where
  "add_line s lr =
     (if messageLimit < length lr then hard_split (fst (flush_chunk s)) lr
      else let grow = length lr + (if snd s \<noteq> [] then 1 else 0);
               s1 = (if messageLimit < length (snd s) + grow then flush_chunk s else s)
           in (fst s1, (if snd s1 \<noteq> [] then snd s1 @ [newline] else []) @ lr))"

definition splitMessage :: "rune list \<Rightarrow> rune list list" where
  "splitMessage msg =
     (if msg = [] then [] else fst (flush_chunk (foldl add_line ([], []) (split_lines msg))))"

datatype post_error = RequestFailed string | BadStatus int

text \<open>\<open>send\<close> is the request: an error, or the status of the answer. Without a hook the message is only logged.\<close>

definition postOne :: "string \<Rightarrow> (rune list \<Rightarrow> string + int) \<Rightarrow> rune list \<Rightarrow> post_error + unit" where
  "postOne hook send chunk =
     (if hook = [] then Inr ()
      else case send chunk of
          Inl e \<Rightarrow> Inl (RequestFailed e)
        | Inr status \<Rightarrow> if 300 \<le> status then Inl (BadStatus status) else Inr ())"

fun post_chunks :: "string \<Rightarrow> (rune list \<Rightarrow> string + int) \<Rightarrow> rune list list \<Rightarrow> (post_error + unit) \<times> rune list list" where
  "post_chunks hook send [] = (Inr (), [])"
| "post_chunks hook send (c # cs) =
     (case postOne hook send c of
        Inl e \<Rightarrow> (Inl e, [c])
      | Inr _ \<Rightarrow> (case post_chunks hook send cs of (r, tried) \<Rightarrow> (r, c # tried)))"

text \<open>With the result, the chunks that were tried.\<close>

definition Post :: "string \<Rightarrow> (rune list \<Rightarrow> string + int) \<Rightarrow> rune list \<Rightarrow> (post_error + unit) \<times> rune list list" where
  "Post hook send msg = post_chunks hook send (splitMessage msg)"

section \<open>Lemmas\<close>

definition text_of :: "rune list \<Rightarrow> rune list" where
  "text_of = filter (\<lambda>x. x \<noteq> newline)"

lemma text_of_simps [simp]: "text_of [] = []" "text_of (x @ y) = text_of x @ text_of y" "text_of [newline] = []"
  by (simp_all add: text_of_def)

lemma text_of_lines: "concat (map text_of (split_lines msg)) = text_of msg"
proof (induction msg)
  case (Cons x msg)
  then show ?case by (cases "split_lines msg") (auto simp: text_of_def)
qed simp

text \<open>The loop's invariant: the chunks and the current one are within the limit, and hold the text of the lines read.\<close>

definition chunks_ok :: "rune list list \<times> rune list \<Rightarrow> rune list \<Rightarrow> bool" where
  "chunks_ok s w \<longleftrightarrow> (\<forall>c \<in> set (fst s). c \<noteq> [] \<and> length c \<le> messageLimit) \<and> length (snd s) \<le> messageLimit \<and>
     concat (map text_of (fst s)) @ text_of (snd s) = w"

lemma flush_ok: "chunks_ok s w \<Longrightarrow> chunks_ok (flush_chunk s) w \<and> snd (flush_chunk s) = []"
  by (auto simp: chunks_ok_def flush_chunk_def split: prod.splits)

lemma hard_split_ok:
  "(\<forall>c \<in> set chunks. c \<noteq> [] \<and> length c \<le> messageLimit) \<Longrightarrow> chunks_ok (hard_split chunks lr) (concat (map text_of chunks) @ text_of lr)"
proof (induction chunks lr rule: hard_split.induct)
  case (1 chunks lr)
  show ?case
  proof (cases "messageLimit < length lr")
    case True
    have "text_of lr = text_of (take messageLimit lr) @ text_of (drop messageLimit lr)"
      by (metis append_take_drop_id text_of_simps(2))
    moreover have "take messageLimit lr \<noteq> []" using True by (auto simp: messageLimit_def)
    ultimately show ?thesis using 1 True by (subst hard_split.simps) simp
  next
    case False
    then show ?thesis using 1 by (subst hard_split.simps) (simp add: chunks_ok_def)
  qed
qed

lemma add_line_ok:
  assumes s: "chunks_ok s w"
  shows "chunks_ok (add_line s lr) (w @ text_of lr)"
proof (cases "messageLimit < length lr")
  case True
  have f: "chunks_ok (fst (flush_chunk s), []) w" using flush_ok [OF s] by (metis prod.collapse)
  then show ?thesis using True hard_split_ok [of "fst (flush_chunk s)" lr] by (simp add: add_line_def chunks_ok_def)
next
  case False
  show ?thesis
  proof (cases "messageLimit < length (snd s) + (length lr + (if snd s \<noteq> [] then 1 else 0))")
    case True
    have f: "chunks_ok (flush_chunk s) w" "snd (flush_chunk s) = []" using flush_ok [OF s] by auto
    have "add_line s lr = (fst (flush_chunk s), lr)" using True False f(2) by (simp add: add_line_def Let_def)
    then show ?thesis using False f by (auto simp: chunks_ok_def)
  next
    case fits: False
    then show ?thesis using False s by (auto simp: add_line_def Let_def chunks_ok_def split: if_splits)
  qed
qed

lemma add_lines_ok: "chunks_ok s w \<Longrightarrow> chunks_ok (foldl add_line s ls) (w @ concat (map text_of ls))"
  by (induction ls arbitrary: s w) (simp, use add_line_ok in fastforce)

section \<open>Properties\<close>

text \<open>A message of any length is posted as messages that are not empty and within Discord's
  limit, and together hold all of its text in its order; only line ends may go missing.\<close>

theorem splitMessage_bounded:
  "list_all (\<lambda>c. c \<noteq> [] \<and> length c \<le> 2000) (splitMessage msg) \<and> concat (map text_of (splitMessage msg)) = text_of msg"
proof -
  have "chunks_ok ([], []) []" by (simp add: chunks_ok_def)
  from flush_ok [OF add_lines_ok [OF this, of "split_lines msg"]]
  have "chunks_ok (fst (flush_chunk (foldl add_line ([], []) (split_lines msg))), []) (text_of msg)"
    unfolding text_of_lines by (metis append_Nil prod.collapse)
  then show ?thesis by (auto simp: splitMessage_def chunks_ok_def messageLimit_def list_all_iff)
qed

end
